(* ===== verification/Prelude.thy ===== *)
theory Prelude
  imports Main "HOL-Library.Word"
begin

text \<open>
  Shared vocabulary of the development: the ways in which the C++ code can fail, the result type
  that carries them, the sequencing operator of fallible code, checked array access, the loops
  \<open>for\<close> over an index range, and the collections of facts the component theories add to.

  A call that ends in \<open>SimpleSSD::panic\<close> (sim/trace.hh) stops the simulator: it is the value
  \<open>Inl (Panic msg)\<close>. \<open>std::vector::at\<close> out of range throws: \<open>Inl OutOfRange\<close>. A read or
  write outside an array, a dereferenced past-the-end iterator or a null pointer is undefined
  behaviour: \<open>Inl (Undefined what)\<close>, so that no theorem can rest on its outcome.
\<close>

unbundle bit_operations_syntax

section \<open>Faults and results\<close>

datatype fault = Panic string | OutOfRange | Undefined string

type_synonym 'a res = "fault + 'a"

type_synonym u8 = "8 word"
type_synonym u16 = "16 word"
type_synonym u32 = "32 word"
type_synonym u64 = "64 word"
type_synonym tick = "64 word"

definition ebind :: "'a res \<Rightarrow> ('a \<Rightarrow> 'b res) \<Rightarrow> 'b res" where
  "ebind r f = (case r of Inl e \<Rightarrow> Inl e | Inr x \<Rightarrow> f x)"

definition guard :: "bool \<Rightarrow> fault \<Rightarrow> unit res" where
  "guard b e = (if b then Inr () else Inl e)"

lemma ebind_simps [simp]:
  "ebind (Inl e) f = Inl e"
  "ebind (Inr x) f = f x"
  by (simp_all add: ebind_def)

lemma ebind_cong [fundef_cong]:
  "r = r' \<Longrightarrow> (\<And>x. r' = Inr x \<Longrightarrow> f x = f' x) \<Longrightarrow> ebind r f = ebind r' f'"
  by (cases r') (auto simp: ebind_def)

lemma ebind_Inr_iff: "ebind r f = Inr y \<longleftrightarrow> (\<exists>x. r = Inr x \<and> f x = Inr y)"
  by (cases r) auto

lemma ebind_InrE [elim!]:
  assumes "ebind r f = Inr y"
  obtains x where "r = Inr x" and "f x = Inr y"
  using assms by (auto simp: ebind_Inr_iff)

lemma ebind_Inr_right [simp]: "ebind r Inr = r"
  by (cases r) auto

lemma ebind_assoc: "ebind (ebind r f) g = ebind r (\<lambda>x. ebind (f x) g)"
  by (cases r) auto

lemma guard_Inr [simp]: "guard b e = Inr u \<longleftrightarrow> b"
  by (simp add: guard_def)

lemma guard_True [simp]: "guard True e = Inr ()"
  by (simp add: guard_def)

lemma guard_False [simp]: "guard False e = Inl e"
  by (simp add: guard_def)

section \<open>Loops\<close>

text \<open>
  \<open>efold f xs s\<close> runs the loop body \<open>f\<close> over the elements \<open>xs\<close>, threading the state, and
  stops at the first fault. The index loop \<open>for (i = 0; i < n; i++)\<close> is \<open>efold f [0..<n] s\<close>.
\<close>

fun efold :: "('a \<Rightarrow> 's \<Rightarrow> 's res) \<Rightarrow> 'a list \<Rightarrow> 's \<Rightarrow> 's res" where
  "efold f [] s = Inr s"
| "efold f (x # xs) s = ebind (f x s) (efold f xs)"

lemma efold_cong [fundef_cong]:
  "xs = ys \<Longrightarrow> s = t \<Longrightarrow> (\<And>x u. x \<in> set ys \<Longrightarrow> f x u = g x u) \<Longrightarrow> efold f xs s = efold g ys t"
proof (induction ys arbitrary: xs s t)
  case Nil
  then show ?case by simp
next
  case (Cons y ys)
  then show ?case
    by (auto intro!: ebind_cong)
qed

lemma efold_append: "efold f (xs @ ys) s = ebind (efold f xs s) (efold f ys)"
proof (induction xs arbitrary: s)
  case Nil
  then show ?case by simp
next
  case (Cons x xs)
  then show ?case by (cases "f x s") auto
qed

text \<open>The loop rule: an invariant every iteration keeps holds when the loop ends.\<close>

lemma efold_invariant:
  assumes "efold f xs s = Inr s'" and "P s"
    and "\<And>x t t'. x \<in> set xs \<Longrightarrow> P t \<Longrightarrow> f x t = Inr t' \<Longrightarrow> P t'"
  shows "P s'"
  using assms
proof (induction xs arbitrary: s)
  case Nil
  then show ?case by simp
next
  case (Cons x xs)
  from Cons.prems(1) obtain t where t: "f x s = Inr t" "efold f xs t = Inr s'" by auto
  from Cons.prems(3) [OF _ Cons.prems(2) t(1)] have "P t" by simp
  then show ?case by (rule Cons.IH [OF t(2)]) (rule Cons.prems(3); simp)
qed

text \<open>The same rule for loops that cannot fail under the invariant.\<close>

lemma efold_total:
  assumes "P s"
    and "\<And>x t. x \<in> set xs \<Longrightarrow> P t \<Longrightarrow> \<exists>t'. f x t = Inr t' \<and> P t'"
  shows "\<exists>s'. efold f xs s = Inr s' \<and> P s'"
  using assms
proof (induction xs arbitrary: s)
  case Nil
  then show ?case by simp
next
  case (Cons x xs)
  from Cons.prems(1) Cons.prems(2) [of x s] obtain t where t: "f x s = Inr t" "P t" by auto
  from Cons.IH [OF t(2)] Cons.prems(2) have "\<exists>s'. efold f xs t = Inr s' \<and> P s'" by simp
  with t(1) show ?case by simp
qed

text \<open>A loop that replaces every element of a container by the result of a fallible call.\<close>

fun emap :: "('a \<Rightarrow> 'b res) \<Rightarrow> 'a list \<Rightarrow> 'b list res" where
  "emap f [] = Inr []"
| "emap f (x # xs) = ebind (f x) (\<lambda>y. ebind (emap f xs) (\<lambda>ys. Inr (y # ys)))"

lemma emap_cong [fundef_cong]:
  "xs = ys \<Longrightarrow> (\<And>x. x \<in> set ys \<Longrightarrow> f x = g x) \<Longrightarrow> emap f xs = emap g ys"
  by (induction ys arbitrary: xs) auto

lemma emap_Inr: "(\<And>x. x \<in> set xs \<Longrightarrow> f x = Inr (g x)) \<Longrightarrow> emap f xs = Inr (map g xs)"
  by (induction xs) auto

section \<open>Checked arrays and pointers\<close>

text \<open>The front of an empty queue is undefined.\<close>

definition front :: "'a list \<Rightarrow> 'a res" where
  "front xs = (case xs of [] \<Rightarrow> Inl (Undefined ''front of an empty queue'') | x # _ \<Rightarrow> Inr x)"

definition deref :: "'a option \<Rightarrow> 'a res" where
  "deref p = (case p of None \<Rightarrow> Inl (Undefined ''null pointer'') | Some x \<Rightarrow> Inr x)"

lemma deref_simps [simp]:
  "deref (Some x) = Inr x"
  "deref p = Inr y \<longleftrightarrow> p = Some y"
  by (auto simp: deref_def split: option.splits)

definition arr_get :: "'a list \<Rightarrow> nat \<Rightarrow> 'a res" where
  "arr_get xs i = (if i < length xs then Inr (xs ! i) else Inl (Undefined ''array index''))"

definition arr_set :: "'a list \<Rightarrow> nat \<Rightarrow> 'a \<Rightarrow> 'a list res" where
  "arr_set xs i x = (if i < length xs then Inr (xs[i := x]) else Inl (Undefined ''array index''))"

definition vec_at :: "'a list \<Rightarrow> nat \<Rightarrow> 'a res" where
  "vec_at xs i = (if i < length xs then Inr (xs ! i) else Inl OutOfRange)"

lemma arr_get_Inr [simp]: "arr_get xs i = Inr x \<longleftrightarrow> i < length xs \<and> x = xs ! i"
  by (auto simp: arr_get_def)

lemma arr_set_Inr [simp]: "arr_set xs i x = Inr ys \<longleftrightarrow> i < length xs \<and> ys = xs[i := x]"
  by (auto simp: arr_set_def)

lemma vec_at_Inr [simp]: "vec_at xs i = Inr x \<longleftrightarrow> i < length xs \<and> x = xs ! i"
  by (auto simp: vec_at_def)

lemma checked_in_range [simp]:
  "i < length xs \<Longrightarrow> arr_get xs i = Inr (xs ! i)"
  "i < length xs \<Longrightarrow> arr_set xs i x = Inr (xs[i := x])"
  "i < length xs \<Longrightarrow> vec_at xs i = Inr (xs ! i)"
  by (auto simp: arr_get_def arr_set_def vec_at_def)

section \<open>Outcomes\<close>

text \<open>
  \<open>outcome F r Q\<close>: the run \<open>r\<close> ends in a state with \<open>Q\<close>, or in a fault with \<open>F\<close>. With
  \<open>F = (\<lambda>_. True)\<close> it is a partial statement about the successful runs, with
  \<open>F = (\<lambda>_. False)\<close> it says that the code does not fail, and with the faults of the environment
  for \<open>F\<close> that the code adds none of its own. The rules in the collection \<open>outcome\<close> follow
  the structure of the code.
\<close>

named_theorems outcome

definition outcome :: "(fault \<Rightarrow> bool) \<Rightarrow> 'a res \<Rightarrow> ('a \<Rightarrow> bool) \<Rightarrow> bool" where
  "outcome F r Q = (case r of Inl e \<Rightarrow> F e | Inr x \<Rightarrow> Q x)"

lemma outcome_simps [simp]:
  "outcome F (Inl e) Q = F e"
  "outcome F (Inr x) Q = Q x"
  by (simp_all add: outcome_def)

lemma outcome_bind [outcome]:
  "outcome F r (\<lambda>x. outcome F (f x) Q) \<Longrightarrow> outcome F (ebind r f) Q"
  by (cases r) auto

lemma outcome_mono:
  "outcome F r Q \<Longrightarrow> (\<And>x. r = Inr x \<Longrightarrow> Q x \<Longrightarrow> Q' x) \<Longrightarrow> outcome F r Q'"
  by (cases r) auto

lemma outcome_if [outcome]:
  "(b \<Longrightarrow> outcome F r Q) \<Longrightarrow> (\<not> b \<Longrightarrow> outcome F r' Q) \<Longrightarrow> outcome F (if b then r else r') Q"
  by simp

lemma outcome_Inr: "outcome F r Q \<Longrightarrow> r = Inr x \<Longrightarrow> Q x"
  by simp

lemma outcome_total: "outcome (\<lambda>_. False) r Q \<longleftrightarrow> (\<exists>x. r = Inr x \<and> Q x)"
  by (cases r) auto

lemma outcome_partial: "outcome (\<lambda>_. True) r Q \<longleftrightarrow> (\<forall>x. r = Inr x \<longrightarrow> Q x)"
  by (cases r) auto

text \<open>The rule of the index loop: \<open>P i\<close> holds before iteration \<open>i\<close>.\<close>

lemma outcome_loop:
  assumes "P m s" and "m \<le> n"
    and "\<And>i s. m \<le> i \<Longrightarrow> i < n \<Longrightarrow> P i s \<Longrightarrow> outcome F (f i s) (P (Suc i))"
  shows "outcome F (efold f [m..<n] s) (P n)"
  using assms
proof (induction "n - m" arbitrary: m s)
  case 0
  then show ?case by simp
next
  case (Suc d)
  then have less: "m < n" by simp
  have step: "outcome F (f m s) (P (Suc m))" using Suc.prems less by simp
  have "outcome F (efold f [Suc m..<n] t) (P n)" if "P (Suc m) t" for t
    by (rule Suc.hyps(1)) (use Suc.hyps(2) Suc.prems that less in auto)
  with step show ?case
    unfolding upt_conv_Cons [OF less] efold.simps
    by (intro outcome_bind outcome_mono [OF step]) simp
qed

text \<open>The rule of a loop over any container.\<close>

lemma outcome_efold:
  assumes "P s" and "\<And>x s. x \<in> set xs \<Longrightarrow> P s \<Longrightarrow> outcome F (f x s) P"
  shows "outcome F (efold f xs s) P"
  using assms
proof (induction xs arbitrary: s)
  case Nil
  then show ?case by simp
next
  case (Cons x xs)
  have step: "outcome F (f x s) P" using Cons.prems by simp
  show ?case
    unfolding efold.simps
    by (intro outcome_bind outcome_mono [OF step] Cons.IH) (use Cons.prems in auto)
qed

section \<open>Hash tables\<close>

text \<open>
  A \<open>std::unordered_map\<close> is an association list without duplicate keys: its order stands for the
  iteration order, which the standard leaves unspecified. \<open>find\<close> is \<open>map_of\<close>, assignment
  through an iterator is \<open>tbl_put\<close> on a present key, \<open>emplace\<close> of a fresh key is
  \<open>tbl_put\<close> as well, \<open>erase\<close> is \<open>tbl_del\<close>.
\<close>

fun tbl_put :: "'k \<Rightarrow> 'v \<Rightarrow> ('k \<times> 'v) list \<Rightarrow> ('k \<times> 'v) list" where
  "tbl_put k v [] = [(k, v)]"
| "tbl_put k v ((k', v') # xs) = (if k = k' then (k, v) # xs else (k', v') # tbl_put k v xs)"

definition tbl_del :: "'k \<Rightarrow> ('k \<times> 'v) list \<Rightarrow> ('k \<times> 'v) list" where
  "tbl_del k xs = filter (\<lambda>(k', _). k' \<noteq> k) xs"

lemma map_of_tbl_put [simp]: "map_of (tbl_put k v xs) = (map_of xs)(k \<mapsto> v)"
  by (induction k v xs rule: tbl_put.induct) auto

lemma map_of_tbl_del [simp]: "map_of (tbl_del k xs) = (map_of xs)(k := None)"
  unfolding tbl_del_def by (induction xs) (auto simp: fun_eq_iff)

lemma fst_set_tbl_put [simp]: "fst ` set (tbl_put k v xs) = insert k (fst ` set xs)"
  by (induction k v xs rule: tbl_put.induct) auto

lemma fst_set_tbl_del [simp]: "fst ` set (tbl_del k xs) = fst ` set xs - {k}"
  by (force simp: tbl_del_def)

lemma distinct_tbl_put [simp]:
  "distinct (map fst xs) \<Longrightarrow> distinct (map fst (tbl_put k v xs))"
  by (induction k v xs rule: tbl_put.induct) auto

lemma distinct_tbl_del [simp]: "distinct (map fst xs) \<Longrightarrow> distinct (map fst (tbl_del k xs))"
  by (induction xs) (auto simp: tbl_del_def)

lemma length_tbl_del:
  "distinct (map fst xs) \<Longrightarrow> k \<in> fst ` set xs \<Longrightarrow> length (tbl_del k xs) = length xs - 1"
proof (induction xs)
  case Nil
  then show ?case by simp
next
  case (Cons x xs)
  obtain k' v' where x: "x = (k', v')" by (cases x)
  show ?case
  proof (cases "k' = k")
    case True
    with Cons.prems x have "tbl_del k xs = xs"
      by (force simp: tbl_del_def intro!: filter_True)
    with True x show ?thesis by (simp add: tbl_del_def)
  next
    case False
    with Cons x show ?thesis by (cases xs) (auto simp: tbl_del_def)
  qed
qed

lemma map_of_in_fst: "map_of xs k = Some v \<Longrightarrow> k \<in> fst ` set xs"
  by (metis map_of_eq_None_iff option.distinct(1))

text \<open>The laws of a keyed store, and its instance: the association lists above.\<close>

locale keyed_store =
  fixes find :: "'m \<Rightarrow> 'k \<Rightarrow> 'v option"
    and put :: "'k \<Rightarrow> 'v \<Rightarrow> 'm \<Rightarrow> 'm"
    and del :: "'k \<Rightarrow> 'm \<Rightarrow> 'm"
  assumes find_put: "find (put k v m) = (find m)(k \<mapsto> v)"
    and find_del: "find (del k m) = (find m)(k := None)"
begin

lemma find_put_other: "k \<noteq> k' \<Longrightarrow> find (put k v m) k' = find m k'"
  by (simp add: find_put)

lemma find_del_other: "k \<noteq> k' \<Longrightarrow> find (del k m) k' = find m k'"
  by (simp add: find_del)

lemma all_put:
  assumes "\<And>k v. find m k = Some v \<Longrightarrow> P k v" and "P k v"
  shows "find (put k v m) k' = Some v' \<Longrightarrow> P k' v'"
  using assms by (auto simp: find_put split: if_splits)

lemma all_del:
  assumes "\<And>k v. find m k = Some v \<Longrightarrow> P k v"
  shows "find (del k m) k' = Some v' \<Longrightarrow> P k' v'"
  using assms by (auto simp: find_del split: if_splits)

end

interpretation tbl: keyed_store map_of tbl_put tbl_del
  by unfold_locales simp_all

text \<open>A sum of 64-bit words that fits does not wrap.\<close>

lemma unat_plus: "unat a + unat b < 2 ^ 64 \<Longrightarrow> unat (a + b) = unat a + unat (b :: u64)"
  by (simp add: unat_word_ariths)

end
