(* ===== verification/Algorithm.thy ===== *)
theory Algorithm
  imports Prelude
begin

text \<open>
  \<^verbatim>\<open>src/util/algorithm.hh\<close>: the rounding-up division, the minimum and maximum macros (the
  library's \<open>min\<close> and \<open>max\<close>) and the branch-free population count. \<open>popcount\<close> is a template;
  it is instantiated at \<open>uint8_t\<close> by the bit set, which is the instance modelled here.
\<close>

definition DIVCEIL :: "nat \<Rightarrow> nat \<Rightarrow> nat" where
  "DIVCEIL x y = (x - 1) div y + 1"

definition popcount8 :: "u8 \<Rightarrow> u8" where
  "popcount8 v =
     (let v1 = v - (drop_bit 1 v AND 85);
          v2 = (v1 AND 51) + (drop_bit 2 v1 AND 51);
          v3 = (v2 + drop_bit 4 v2) AND 15
      in drop_bit 0 (v3 * 1))"

lemma DIVCEIL_8: "0 < n \<Longrightarrow> n \<le> 8 * DIVCEIL n 8 \<and> 8 * DIVCEIL n 8 < n + 8"
  by (simp add: DIVCEIL_def) arith

text \<open>The branch-free count is the number of set bits: a case split over the eight bits.\<close>

lemma byte_bits:
  "(v::u8) = of_bool (bit v 0) + 2 * of_bool (bit v 1) + 4 * of_bool (bit v 2) +
     8 * of_bool (bit v 3) + 16 * of_bool (bit v 4) + 32 * of_bool (bit v 5) +
     64 * of_bool (bit v 6) + 128 * of_bool (bit v 7)"
proof -
  have "v = horner_sum of_bool 2 (map (bit v) [0..<8])"
    by (simp add: horner_sum_bit_eq_take_bit take_bit_word_eq_self)
  also have "[0..<8] = [0,1,2,3,4,5,6,7::nat]" by (simp add: upt_rec)
  finally show ?thesis by (simp add: algebra_simps)
qed

lemma popcount8_sum: "unat (popcount8 v) = (\<Sum>i\<leftarrow>[0,1,2,3,4,5,6,7]. of_bool (bit v i))"
proof -
  obtain a b c d e f g h where v: "v = of_bool a + 2 * of_bool b + 4 * of_bool c +
      8 * of_bool d + 16 * of_bool e + 32 * of_bool f + 64 * of_bool g + 128 * of_bool h"
    using byte_bits by blast
  show ?thesis
    unfolding v popcount8_def Let_def
    by (cases a; cases b; cases c; cases d; cases e; cases f; cases g; cases h) simp_all
qed

lemma sum_list_of_bool: "(\<Sum>i\<leftarrow>xs. of_bool (P i)) = length (filter P xs)"
  by (induction xs) auto

lemma popcount8_bits: "unat (popcount8 v) = length (filter (bit v) [0..<8])"
proof -
  have "[0..<8] = [0,1,2,3,4,5,6,7::nat]" by (simp add: upt_rec)
  then show ?thesis using popcount8_sum [of v] by (simp only: sum_list_of_bool)
qed

end
