(* ===== verification/Bitset.thy ===== *)
theory Bitset
  imports Algorithm
begin

text \<open>
  \<^verbatim>\<open>src/util/bitset.cc\<close> and \<^verbatim>\<open>bitset.hh\<close>: the packed bit set that carries I/O flags and page
  states. \<open>data\<close> is the heap array of bytes, \<open>dataSize\<close> the number of bits; \<open>allocSize\<close> is the
  length of the array, which every constructor and assignment sets together with it. The methods
  index the array without a check, so an index past the array is \<open>Undefined\<close>; so are \<open>all\<close>,
  \<open>set\<close> and \<open>flip\<close> on an empty set, where \<open>allocSize - 1\<close> wraps.

  The lemmas show that the byte arithmetic implements a vector of \<open>dataSize\<close> booleans:
  \<open>bget\<close> reads a bit, \<open>bs_wf\<close> says the array has the right length and its padding bits are zero.
\<close>

section \<open>Operations\<close>

record bitset =
  data :: "u8 list"
  dataSize :: nat

definition allocSize :: "bitset \<Rightarrow> nat" where
  "allocSize b = length (data b)"

definition Bitset_empty :: bitset where
  "Bitset_empty = \<lparr>data = [], dataSize = 0\<rparr>"

definition Bitset_new :: "nat \<Rightarrow> bitset" where
  "Bitset_new n =
     (if 0 < n then \<lparr>data = replicate (DIVCEIL n 8) 0, dataSize = n\<rparr> else Bitset_empty)"

definition Bitset_copy :: "bitset \<Rightarrow> bitset" where
  "Bitset_copy rhs =
     (let b = Bitset_new (dataSize rhs)
      in if data rhs \<noteq> [] then b\<lparr>data := take (allocSize b) (data rhs)\<rparr> else b)"

definition Bitset_move :: "bitset \<Rightarrow> bitset \<times> bitset" where
  "Bitset_move rhs = (rhs, Bitset_empty)"

definition bit_mask :: "nat \<Rightarrow> u8" where
  "bit_mask idx = push_bit (idx mod 8) 1"

definition bitset_test :: "bitset \<Rightarrow> nat \<Rightarrow> bool res" where
  "bitset_test b idx =
     ebind (arr_get (data b) (idx div 8)) (\<lambda>w. Inr (w AND bit_mask idx \<noteq> 0))"

definition bitset_all :: "bitset \<Rightarrow> bool res" where
  "bitset_all b =
     (if allocSize b = 0 then Inl (Undefined ''data[-1]'')
      else
        (let mask = push_bit (dataSize b + 8 - allocSize b * 8) (255 :: u8);
             ret = foldl (AND) 255 (take (allocSize b - 1) (data b));
             ret = ret AND (data b ! (allocSize b - 1) OR mask)
         in Inr (ret = 255)))"

definition bitset_none :: "bitset \<Rightarrow> bool" where
  "bitset_none b = (foldl (OR) 0 (data b) = 0)"

definition bitset_any :: "bitset \<Rightarrow> bool" where
  "bitset_any b = (\<not> bitset_none b)"

definition bitset_count :: "bitset \<Rightarrow> nat" where
  "bitset_count b = foldl (\<lambda>count w. count + unat (popcount8 w)) 0 (data b)"

definition bitset_size :: "bitset \<Rightarrow> nat" where
  "bitset_size b = dataSize b"

definition bitset_set_all :: "bitset \<Rightarrow> bitset res" where
  "bitset_set_all b =
     (if allocSize b = 0 then Inl (Undefined ''data[-1]'')
      else
        (let mask = drop_bit (allocSize b * 8 - dataSize b) (255 :: u8)
         in Inr (b\<lparr>data := replicate (allocSize b - 1) 255 @ [mask]\<rparr>)))"

definition bitset_set_to :: "bitset \<Rightarrow> nat \<Rightarrow> bool \<Rightarrow> bitset res" where
  "bitset_set_to b idx value =
     ebind (arr_get (data b) (idx div 8)) (\<lambda>w.
     let w1 = w AND NOT (bit_mask idx);
         w2 = (if value then w1 OR bit_mask idx else w1)
     in Inr (b\<lparr>data := (data b)[idx div 8 := w2]\<rparr>))"

definition bitset_set :: "bitset \<Rightarrow> nat \<Rightarrow> bitset res" where
  "bitset_set b idx = bitset_set_to b idx True"

definition bitset_reset_all :: "bitset \<Rightarrow> bitset" where
  "bitset_reset_all b = b\<lparr>data := map (\<lambda>_. 0) (data b)\<rparr>"

definition bitset_reset :: "bitset \<Rightarrow> nat \<Rightarrow> bitset res" where
  "bitset_reset b idx =
     ebind (arr_get (data b) (idx div 8)) (\<lambda>w.
     Inr (b\<lparr>data := (data b)[idx div 8 := w AND NOT (bit_mask idx)]\<rparr>))"

definition bitset_flip_all :: "bitset \<Rightarrow> bitset res" where
  "bitset_flip_all b =
     (if allocSize b = 0 then Inl (Undefined ''data[-1]'')
      else
        (let mask = drop_bit (allocSize b * 8 - dataSize b) (255 :: u8);
             d = map NOT (data b)
         in Inr (b\<lparr>data := d[allocSize b - 1 := d ! (allocSize b - 1) AND mask]\<rparr>)))"

definition bitset_flip :: "bitset \<Rightarrow> nat \<Rightarrow> bitset res" where
  "bitset_flip b idx =
     ebind (arr_get (data b) (idx div 8)) (\<lambda>w.
     Inr (b\<lparr>data := (data b)[idx div 8 :=
       (NOT w AND bit_mask idx) OR (w AND NOT (bit_mask idx))]\<rparr>))"

definition bitset_and :: "bitset \<Rightarrow> bitset \<Rightarrow> bitset res" where
  "bitset_and b rhs =
     (if dataSize b \<noteq> dataSize rhs then Inl (Panic ''Size does not match'')
      else Inr (b\<lparr>data := map2 (AND) (data b) (data rhs)\<rparr>))"

definition bitset_or :: "bitset \<Rightarrow> bitset \<Rightarrow> bitset res" where
  "bitset_or b rhs =
     (if dataSize b \<noteq> dataSize rhs then Inl (Panic ''Size does not match'')
      else Inr (b\<lparr>data := map2 (OR) (data b) (data rhs)\<rparr>))"

definition bitset_xor :: "bitset \<Rightarrow> bitset \<Rightarrow> bitset res" where
  "bitset_xor b rhs =
     (if dataSize b \<noteq> dataSize rhs then Inl (Panic ''Size does not match'')
      else Inr (b\<lparr>data := map2 (XOR) (data b) (data rhs)\<rparr>))"

definition bitset_assign :: "bitset \<Rightarrow> bitset \<Rightarrow> bitset" where
  "bitset_assign b rhs = Bitset_copy rhs"

definition bitset_not :: "bitset \<Rightarrow> bitset res" where
  "bitset_not b = bitset_flip_all (Bitset_copy b)"

fun bytes_eq :: "u8 list \<Rightarrow> u8 list \<Rightarrow> bool" where
  "bytes_eq (x # xs) (y # ys) = (if x \<noteq> y then False else bytes_eq xs ys)"
| "bytes_eq _ _ = True"

definition bitset_eq :: "bitset \<Rightarrow> bitset \<Rightarrow> bool res" where
  "bitset_eq lhs rhs =
     (if dataSize lhs \<noteq> dataSize rhs then Inl (Panic ''Size does not match'')
      else Inr (bytes_eq (data lhs) (data rhs)))"

definition bitset_neq :: "bitset \<Rightarrow> bitset \<Rightarrow> bool res" where
  "bitset_neq lhs rhs = ebind (bitset_eq lhs rhs) (\<lambda>r. Inr (\<not> r))"

section \<open>The bit vector behind the bytes\<close>

definition bget :: "bitset \<Rightarrow> nat \<Rightarrow> bool" where
  "bget b i = bit (data b ! (i div 8)) (i mod 8)"

definition bs_wf :: "bitset \<Rightarrow> bool" where
  "bs_wf b \<longleftrightarrow>
     0 < dataSize b \<and> allocSize b = DIVCEIL (dataSize b) 8 \<and>
     (\<forall>i. dataSize b \<le> i \<longrightarrow> i < 8 * allocSize b \<longrightarrow> \<not> bget b i)"

definition bools :: "bitset \<Rightarrow> bool list" where
  "bools b = map (bget b) [0..<dataSize b]"

lemma bs_wf_size: "bs_wf b \<Longrightarrow> dataSize b \<le> 8 * length (data b) \<and> 8 * length (data b) < dataSize b + 8"
  using DIVCEIL_8 [of "dataSize b"] by (simp add: bs_wf_def allocSize_def)

lemma bs_wf_index: "bs_wf b \<Longrightarrow> i < dataSize b \<Longrightarrow> i div 8 < length (data b)"
  using bs_wf_size [of b] by arith

lemma bs_wf_nonempty: "bs_wf b \<Longrightarrow> data b \<noteq> []"
  using bs_wf_size [of b] by (auto simp: bs_wf_def)

lemma bit_bit_mask: "bit (bit_mask idx) j \<longleftrightarrow> j = idx mod 8"
  proof -
  have "idx mod 8 < 8" by simp
  then show ?thesis by (auto simp: bit_mask_def bit_exp_iff)
qed

lemma and_bit_mask: "w AND bit_mask idx \<noteq> 0 \<longleftrightarrow> bit w (idx mod 8)"
proof -
  have "bit (w AND bit_mask idx) j \<longleftrightarrow> bit w (idx mod 8) \<and> j = idx mod 8" for j
    by (auto simp: bit_and_iff bit_bit_mask)
  then show ?thesis by (metis bit_0_eq bit_eqI bot_apply bot_bool_def)
qed

lemma div_mod_eq: "(i::nat) div 8 = j div 8 \<Longrightarrow> i mod 8 = j mod 8 \<Longrightarrow> i = j"
  by (metis div_mult_mod_eq)

lemma bget_update:
  assumes "idx div 8 < length (data b)"
  shows "bget (b\<lparr>data := (data b)[idx div 8 := w]\<rparr>) i =
    (if i div 8 = idx div 8 then bit w (i mod 8) else bget b i)"
  using assms by (auto simp: bget_def nth_list_update)

lemma bs_wf_update:
  assumes wf: "bs_wf b" and idx: "idx < dataSize b"
    and w: "\<And>i. i div 8 = idx div 8 \<Longrightarrow> i \<noteq> idx \<Longrightarrow> bit w (i mod 8) = bget b i"
  shows "bs_wf (b\<lparr>data := (data b)[idx div 8 := w]\<rparr>)"
proof -
  have "idx div 8 < length (data b)" using wf idx by (rule bs_wf_index)
  then show ?thesis
    using wf idx w by (auto simp: bs_wf_def allocSize_def bget_update)
qed

text \<open>The single-bit operations: read, write, clear and invert one flag.\<close>

lemma bitset_test_wf [simp]:
  "bs_wf b \<Longrightarrow> i < dataSize b \<Longrightarrow> bitset_test b i = Inr (bget b i)"
  by (simp add: bitset_test_def bs_wf_index and_bit_mask bget_def)

definition bs_upd :: "bitset \<Rightarrow> nat \<Rightarrow> bool \<Rightarrow> bitset" where
  "bs_upd b i v =
     (let w = data b ! (i div 8); w1 = w AND NOT (bit_mask i)
      in b\<lparr>data := (data b)[i div 8 := (if v then w1 OR bit_mask i else w1)]\<rparr>)"

lemma bitset_set_to_wf [simp]:
  "bs_wf b \<Longrightarrow> i < dataSize b \<Longrightarrow> bitset_set_to b i v = Inr (bs_upd b i v)"
  by (simp add: bitset_set_to_def bs_wf_index bs_upd_def Let_def)

lemma bitset_set_wf [simp]:
  "bs_wf b \<Longrightarrow> i < dataSize b \<Longrightarrow> bitset_set b i = Inr (bs_upd b i True)"
  by (simp add: bitset_set_def)

lemma bitset_reset_wf [simp]:
  "bs_wf b \<Longrightarrow> i < dataSize b \<Longrightarrow> bitset_reset b i = Inr (bs_upd b i False)"
  by (simp add: bitset_reset_def bs_wf_index bs_upd_def Let_def)

lemma bitset_flip_wf [simp]:
  assumes "bs_wf b" and "i < dataSize b"
  shows "bitset_flip b i = Inr (bs_upd b i (\<not> bget b i))"
proof -
  have "(NOT w AND bit_mask i) OR (w AND NOT (bit_mask i)) =
      (if \<not> bit w (i mod 8) then w AND NOT (bit_mask i) OR bit_mask i
       else w AND NOT (bit_mask i))" for w
    by (rule bit_eqI) (auto simp: bit_simps bit_bit_mask)
  with assms show ?thesis
    by (simp add: bitset_flip_def bs_wf_index bs_upd_def Let_def bget_def)
qed

lemma bs_upd_bit:
  "bit (if v then w AND NOT (bit_mask i) OR bit_mask i else w AND NOT (bit_mask i)) (j mod 8) \<longleftrightarrow>
     (if j mod 8 = i mod 8 then v else bit w (j mod 8))"
  by (auto simp: bit_simps bit_bit_mask)

lemma bget_bs_upd [simp]:
  assumes "bs_wf b" and "i < dataSize b"
  shows "bget (bs_upd b i v) = (bget b)(i := v)"
proof (rule ext)
  fix j
  have "bget (bs_upd b i v) j =
      (if j div 8 = i div 8 then (if j mod 8 = i mod 8 then v else bget b j) else bget b j)"
    unfolding bs_upd_def Let_def bget_update [OF bs_wf_index [OF assms]] bs_upd_bit
    by (simp add: bget_def)
  then show "bget (bs_upd b i v) j = ((bget b)(i := v)) j"
    using div_mod_eq [of j i] by auto
qed

lemma bs_wf_bs_upd [simp]: "bs_wf b \<Longrightarrow> i < dataSize b \<Longrightarrow> bs_wf (bs_upd b i v)"
  unfolding bs_upd_def Let_def
  by (rule bs_wf_update) (auto simp only: bs_upd_bit bget_def split: if_splits dest: div_mod_eq)

lemma dataSize_bs_upd [simp]: "dataSize (bs_upd b i v) = dataSize b"
  by (simp add: bs_upd_def Let_def)

text \<open>Construction.\<close>

lemma Bitset_new_wf [simp]:
  assumes "0 < n"
  shows "bs_wf (Bitset_new n)" and "dataSize (Bitset_new n) = n"
    and "i < n \<Longrightarrow> \<not> bget (Bitset_new n) i"
  using assms DIVCEIL_8 [of n]
  by (auto simp: Bitset_new_def bs_wf_def allocSize_def bget_def)

lemma Bitset_copy_id [simp]: "bs_wf b \<Longrightarrow> Bitset_copy b = b"
  using bs_wf_nonempty [of b]
  by (simp add: Bitset_copy_def Bitset_new_def bs_wf_def allocSize_def)

lemma bitset_assign_wf [simp]: "bs_wf b \<Longrightarrow> bitset_assign a b = b"
  by (simp add: bitset_assign_def)

text \<open>The whole-set operations.\<close>

lemma bitset_reset_all_wf [simp]:
  assumes "bs_wf b"
  shows "bs_wf (bitset_reset_all b)" and "dataSize (bitset_reset_all b) = dataSize b"
    and "i < dataSize b \<Longrightarrow> \<not> bget (bitset_reset_all b) i"
  using assms bs_wf_index [OF assms]
  by (auto simp: bitset_reset_all_def bs_wf_def allocSize_def bget_def)

lemma bit_foldl_and: "bit (foldl (AND) (a::u8) ws) j \<longleftrightarrow> bit a j \<and> (\<forall>w\<in>set ws. bit w j)"
  by (induction ws arbitrary: a) (auto simp: bit_and_iff)

lemma bit_foldl_or: "bit (foldl (OR) (a::u8) ws) j \<longleftrightarrow> bit a j \<or> (\<exists>w\<in>set ws. bit w j)"
  by (induction ws arbitrary: a) (auto simp: bit_or_iff)

lemma bit_255 [simp]: "bit (255::u8) j \<longleftrightarrow> j < 8" "bit (255::int) j \<longleftrightarrow> j < 8"
proof -
  have "(255::u8) = - 1" by simp
  then show "bit (255::u8) j \<longleftrightarrow> j < 8" by (simp only: bit_minus_1_iff) simp
  have "(255::int) = mask 8" by (simp add: mask_eq_exp_minus_1)
  then show "bit (255::int) j \<longleftrightarrow> j < 8" by (simp only: bit_mask_iff) simp
qed

lemma u8_eq_255: "(w::u8) = 255 \<longleftrightarrow> (\<forall>j<8. bit w j)"
  by (auto intro!: bit_word_eqI)

lemma u8_eq_0: "(w::u8) = 0 \<longleftrightarrow> (\<forall>j<8. \<not> bit w j)"
  by (auto intro!: bit_word_eqI)

text \<open>Quantifying over the bits of all bytes is quantifying over bit indices.\<close>

lemma all_bytes:
  "(\<forall>j<8. \<forall>k<n. P (8 * k + j)) \<longleftrightarrow> (\<forall>i<8 * n. P (i::nat))"
proof safe
  fix i
  assume h: "\<forall>j<8. \<forall>k<n. P (8 * k + j)" and i: "i < 8 * n"
  then have "i div 8 < n" by arith
  moreover have "i mod 8 < 8" by simp
  ultimately have "P (8 * (i div 8) + i mod 8)" using h by blast
  then show "P i" by (simp only: mult_div_mod_eq)
qed auto

lemma bget_split: "j < 8 \<Longrightarrow> bget b (8 * k + j) = bit (data b ! k) j"
  by (simp add: bget_def)

lemma bitset_none_wf [simp]:
  assumes "bs_wf b"
  shows "bitset_none b \<longleftrightarrow> (\<forall>i<dataSize b. \<not> bget b i)"
proof -
  have "bitset_none b \<longleftrightarrow> (\<forall>j<8. \<forall>k<length (data b). \<not> bget b (8 * k + j))"
    by (auto simp: bitset_none_def u8_eq_0 bit_foldl_or bget_split all_set_conv_all_nth)
  also have "\<dots> \<longleftrightarrow> (\<forall>i<8 * length (data b). \<not> bget b i)" by (rule all_bytes)
  also have "\<dots> \<longleftrightarrow> (\<forall>i<dataSize b. \<not> bget b i)"
    using assms bs_wf_size [OF assms] unfolding bs_wf_def allocSize_def
    by (meson le_less_trans less_le_trans linorder_not_less)
  finally show ?thesis .
qed

lemma bitset_any_wf [simp]: "bs_wf b \<Longrightarrow> bitset_any b \<longleftrightarrow> (\<exists>i<dataSize b. bget b i)"
  by (simp add: bitset_any_def)

lemma bitset_all_wf [simp]:
  assumes wf: "bs_wf b"
  shows "bitset_all b = Inr (\<forall>i<dataSize b. bget b i)"
proof -
  let ?n = "length (data b)" and ?m = "dataSize b + 8 - length (data b) * 8"
  have n: "0 < ?n" and sz: "dataSize b \<le> 8 * ?n" "8 * ?n < dataSize b + 8"
    using bs_wf_nonempty [OF wf] bs_wf_size [OF wf] by auto
  have mask: "bit (push_bit ?m (255 :: u8)) j \<longleftrightarrow> ?m \<le> j" if "j < 8" for j
    using that by (auto simp: bit_push_bit_iff)
  have "(foldl (AND) 255 (take (?n - 1) (data b)) AND (data b ! (?n - 1) OR push_bit ?m 255) = 255) \<longleftrightarrow>
      (\<forall>j<8. \<forall>k<?n. bget b (8 * k + j) \<or> dataSize b \<le> 8 * k + j)" (is "?l = (\<forall>j<8. ?r j)")
  proof -
    have "bit (foldl (AND) 255 (take (?n - 1) (data b)) AND (data b ! (?n - 1) OR push_bit ?m 255)) j
        \<longleftrightarrow> ?r j" if j: "j < 8" for j
    proof -
      have "(\<forall>w\<in>set (take (?n - 1) (data b)). bit w j) \<longleftrightarrow> (\<forall>k<?n - 1. bget b (8 * k + j))"
        using j by (auto simp: all_set_conv_all_nth bget_split)
      moreover have "(\<forall>k<?n - 1. bget b (8 * k + j)) \<longleftrightarrow>
          (\<forall>k<?n - 1. bget b (8 * k + j) \<or> dataSize b \<le> 8 * k + j)"
        using sz j by auto
      moreover have "bit (data b ! (?n - 1)) j \<or> ?m \<le> j \<longleftrightarrow>
          bget b (8 * (?n - 1) + j) \<or> dataSize b \<le> 8 * (?n - 1) + j"
      proof -
        have "?m \<le> j \<longleftrightarrow> dataSize b \<le> 8 * (?n - 1) + j" using n sz by linarith
        then show ?thesis by (simp only: bget_split [OF j])
      qed
      moreover have "(\<forall>k<?n. Q k) \<longleftrightarrow> (\<forall>k<?n - 1. Q k) \<and> Q (?n - 1)" for Q
        using n by (metis Suc_pred' less_Suc_eq)
      ultimately show ?thesis
        using j by (simp only: bit_and_iff bit_or_iff bit_foldl_and mask bit_255 simp_thms)
    qed
    then show ?thesis by (simp add: u8_eq_255)
  qed
  also have "\<dots> \<longleftrightarrow> (\<forall>i<8 * ?n. bget b i \<or> dataSize b \<le> i)" by (rule all_bytes)
  also have "\<dots> \<longleftrightarrow> (\<forall>i<dataSize b. bget b i)"
    using sz by (meson leD less_le_trans linorder_not_less)
  finally show ?thesis
    using n by (simp add: bitset_all_def allocSize_def Let_def)
qed

text \<open>
  The canonical bit set of a bit function. A well-formed bit set is determined by its size and its
  bits, so every whole-set operation has a value of this form.
\<close>

definition byte_of :: "(nat \<Rightarrow> bool) \<Rightarrow> u8" where
  "byte_of g = horner_sum of_bool 2 (map g [0..<8])"

definition bs_of :: "(nat \<Rightarrow> bool) \<Rightarrow> nat \<Rightarrow> bitset" where
  "bs_of f n = \<lparr>data = map (\<lambda>k. byte_of (\<lambda>j. f (8 * k + j) \<and> 8 * k + j < n)) [0..<DIVCEIL n 8],
                dataSize = n\<rparr>"

lemma bit_byte_of: "j < 8 \<Longrightarrow> bit (byte_of g) j \<longleftrightarrow> g j"
  by (simp add: byte_of_def bit_horner_sum_bit_word_iff)

lemma bs_of_wf [simp]:
  assumes "0 < n"
  shows "bs_wf (bs_of f n)" and "dataSize (bs_of f n) = n"
    and "i < n \<Longrightarrow> bget (bs_of f n) i = f i"
proof -
  have g: "bget (bs_of f n) i \<longleftrightarrow> f i \<and> i < n" if "i < 8 * DIVCEIL n 8" for i
  proof -
    from that have "i div 8 < DIVCEIL n 8" by arith
    then show ?thesis by (simp add: bget_def bs_of_def bit_byte_of)
  qed
  show "bs_wf (bs_of f n)"
    using assms g by (simp add: bs_wf_def) (simp add: bs_of_def allocSize_def)
  show "dataSize (bs_of f n) = n" by (simp add: bs_of_def)
  show "i < n \<Longrightarrow> bget (bs_of f n) i = f i"
    using g [of i] DIVCEIL_8 [OF assms] by simp
qed

lemma bs_ext:
  assumes a: "bs_wf a" and b: "bs_wf b" and n: "dataSize a = dataSize b"
    and g: "\<And>i. i < dataSize a \<Longrightarrow> bget a i = bget b i"
  shows "a = b"
proof -
  have len: "length (data a) = length (data b)"
    using a b n by (simp add: bs_wf_def allocSize_def)
  have g': "bget a i = bget b i" if "i < 8 * length (data a)" for i
    using a b n g [of i] that len by (cases "i < dataSize a") (auto simp: bs_wf_def allocSize_def)
  have "data a = data b"
  proof (rule nth_equalityI [OF len])
    fix k
    assume k: "k < length (data a)"
    show "data a ! k = data b ! k"
    proof (rule bit_word_eqI)
      fix j
      assume "j < LENGTH(8)"
      with g' [of "8 * k + j"] k show "bit (data a ! k) j = bit (data b ! k) j"
        by (simp add: bget_split)
    qed
  qed
  with n show ?thesis by simp
qed

lemma bs_of_bget: "bs_wf b \<Longrightarrow> bs_of (bget b) (dataSize b) = b"
  by (rule bs_ext) (auto simp: bs_wf_def [of b])

lemma bs_wf_bits:
  assumes "bs_wf b" and "length ds = length (data b)"
    and "\<And>i. dataSize b \<le> i \<Longrightarrow> i < 8 * length ds \<Longrightarrow> \<not> bit (ds ! (i div 8)) (i mod 8)"
  shows "b\<lparr>data := ds\<rparr> = bs_of (\<lambda>i. bit (ds ! (i div 8)) (i mod 8)) (dataSize b)"
proof -
  have n: "0 < dataSize b" using assms(1) by (simp add: bs_wf_def)
  have "bs_wf (b\<lparr>data := ds\<rparr>)"
    using assms by (simp add: bs_wf_def allocSize_def bget_def)
  then show ?thesis
    by (rule bs_ext) (simp_all add: n, simp add: bget_def [of "b\<lparr>data := ds\<rparr>"])
qed

lemma bs_of_cong:
  assumes "n = m" and "\<And>i. i < n \<Longrightarrow> f i = g i"
  shows "bs_of f n = bs_of g m"
proof -
  have "(\<lambda>j. f (8 * k + j) \<and> 8 * k + j < n) = (\<lambda>j. g (8 * k + j) \<and> 8 * k + j < m)" for k
    using assms by auto
  then show ?thesis using assms(1) by (simp add: bs_of_def)
qed

lemma bs_mask_bit:
  assumes "bs_wf b" and "i < 8 * length (data b)" and "i div 8 = length (data b) - 1"
  shows "bit (drop_bit (length (data b) * 8 - dataSize b) (255 :: u8)) (i mod 8) \<longleftrightarrow> i < dataSize b"
proof -
  have "bit (drop_bit (length (data b) * 8 - dataSize b) (255 :: u8)) (i mod 8) \<longleftrightarrow>
      length (data b) * 8 - dataSize b + i mod 8 < 8"
    by (simp add: bit_drop_bit_eq)
  moreover have "i = 8 * (length (data b) - 1) + i mod 8"
    using assms(3) by (metis mult_div_mod_eq)
  ultimately show ?thesis using bs_wf_size [OF assms(1)] assms(2) by linarith
qed

lemma bs_div_cases: "i < 8 * n \<Longrightarrow> i div 8 < n - 1 \<or> i div 8 = n - (1::nat)"
  by arith

lemma bitset_set_all_wf [simp]:
  assumes wf: "bs_wf b"
  shows "bitset_set_all b = Inr (bs_of (\<lambda>_. True) (dataSize b))"
proof -
  let ?n = "length (data b)" and ?w = "drop_bit (length (data b) * 8 - dataSize b) (255 :: u8)"
  let ?ds = "replicate (?n - 1) 255 @ [?w]"
  have n: "0 < ?n" using bs_wf_nonempty [OF wf] by simp
  have bits: "bit (?ds ! (i div 8)) (i mod 8) \<longleftrightarrow> i < dataSize b" if i: "i < 8 * ?n" for i
    using bs_div_cases [OF i]
  proof
    assume "i div 8 < ?n - 1"
    then show ?thesis using bs_wf_size [OF wf] by (simp add: nth_append) arith
  next
    assume "i div 8 = ?n - 1"
    then show ?thesis using bs_mask_bit [OF wf i] by (simp add: nth_append)
  qed
  have "b\<lparr>data := ?ds\<rparr> = bs_of (\<lambda>i. bit (?ds ! (i div 8)) (i mod 8)) (dataSize b)"
  proof (rule bs_wf_bits [OF wf])
    show len: "length ?ds = ?n" using n by simp
    show "\<not> bit (?ds ! (i div 8)) (i mod 8)" if "dataSize b \<le> i" "i < 8 * length ?ds" for i
      using bits [of i] that unfolding len by linarith
  qed
  also have "\<dots> = bs_of (\<lambda>_. True) (dataSize b)"
    by (rule bs_of_cong) (use bits bs_wf_size [OF wf] in auto)
  finally show ?thesis using n by (simp add: bitset_set_all_def allocSize_def Let_def)
qed

lemma bitset_flip_all_wf [simp]:
  assumes wf: "bs_wf b"
  shows "bitset_flip_all b = Inr (bs_of (\<lambda>i. \<not> bget b i) (dataSize b))"
proof -
  let ?n = "length (data b)" and ?w = "drop_bit (length (data b) * 8 - dataSize b) (255 :: u8)"
  let ?d = "map NOT (data b)"
  let ?ds = "?d[?n - 1 := ?d ! (?n - 1) AND ?w]"
  have n: "0 < ?n" using bs_wf_nonempty [OF wf] by simp
  have bits: "bit (?ds ! (i div 8)) (i mod 8) \<longleftrightarrow> \<not> bget b i \<and> i < dataSize b"
    if i: "i < 8 * ?n" for i
  proof -
    have k: "i div 8 < ?n" using i by arith
    then have d: "bit (?d ! (i div 8)) (i mod 8) \<longleftrightarrow> \<not> bget b i"
      by (simp add: bget_def bit_not_iff)
    show ?thesis using bs_div_cases [OF i]
    proof
      assume "i div 8 < ?n - 1"
      then have "?ds ! (i div 8) = ?d ! (i div 8)" and "i < dataSize b"
        using bs_wf_size [OF wf] by (auto simp: nth_list_update)
      then show ?thesis using d by simp
    next
      assume e: "i div 8 = ?n - 1"
      then have "?ds ! (i div 8) = ?d ! (i div 8) AND ?w" using k by simp
      then show ?thesis using d bs_mask_bit [OF wf i e] by (simp only: bit_and_iff)
    qed
  qed
  have "b\<lparr>data := ?ds\<rparr> = bs_of (\<lambda>i. bit (?ds ! (i div 8)) (i mod 8)) (dataSize b)"
  proof (rule bs_wf_bits [OF wf])
    show "length ?ds = ?n" by simp
    show "\<not> bit (?ds ! (i div 8)) (i mod 8)" if "dataSize b \<le> i" "i < 8 * length ?ds" for i
      using bits [of i] that by simp
  qed
  also have "\<dots> = bs_of (\<lambda>i. \<not> bget b i) (dataSize b)"
    by (rule bs_of_cong) (use bits bs_wf_size [OF wf] in auto)
  finally show ?thesis using n by (simp add: bitset_flip_all_def allocSize_def Let_def)
qed

lemma bs_map2_wf:
  assumes a: "bs_wf a" and b: "bs_wf b" and n: "dataSize a = dataSize b"
    and op: "\<And>x y j. j < 8 \<Longrightarrow> bit (op x y :: u8) j \<longleftrightarrow> g (bit x j) (bit y j)"
    and g: "\<not> g False False"
  shows "a\<lparr>data := map2 op (data a) (data b)\<rparr> = bs_of (\<lambda>i. g (bget a i) (bget b i)) (dataSize a)"
proof -
  let ?ds = "map2 op (data a) (data b)"
  have len: "length (data a) = length (data b)"
    using a b n by (simp add: bs_wf_def allocSize_def)
  have bits: "bit (?ds ! (i div 8)) (i mod 8) \<longleftrightarrow> g (bget a i) (bget b i)"
    if i: "i < 8 * length (data a)" for i
  proof -
    have "i div 8 < length (data a)" using i by arith
    then show ?thesis using len by (simp add: bget_def op)
  qed
  have "a\<lparr>data := ?ds\<rparr> = bs_of (\<lambda>i. bit (?ds ! (i div 8)) (i mod 8)) (dataSize a)"
  proof (rule bs_wf_bits [OF a])
    show "length ?ds = length (data a)" using len by simp
    show "\<not> bit (?ds ! (i div 8)) (i mod 8)" if "dataSize a \<le> i" "i < 8 * length ?ds" for i
      using bits [of i] that a b n len g by (auto simp: bs_wf_def allocSize_def)
  qed
  also have "\<dots> = bs_of (\<lambda>i. g (bget a i) (bget b i)) (dataSize a)"
    by (rule bs_of_cong) (use bits bs_wf_size [OF a] in auto)
  finally show ?thesis .
qed

lemma bitset_logic_wf [simp]:
  assumes "bs_wf a" and "bs_wf b" and "dataSize a = dataSize b"
  shows "bitset_and a b = Inr (bs_of (\<lambda>i. bget a i \<and> bget b i) (dataSize a))"
    and "bitset_or a b = Inr (bs_of (\<lambda>i. bget a i \<or> bget b i) (dataSize a))"
    and "bitset_xor a b = Inr (bs_of (\<lambda>i. bget a i \<noteq> bget b i) (dataSize a))"
  using assms(3) bs_map2_wf [OF assms, of "(AND)" "(\<and>)"] bs_map2_wf [OF assms, of "(OR)" "(\<or>)"]
    bs_map2_wf [OF assms, of "(XOR)" "(\<noteq>)"]
  by (simp_all add: bitset_and_def bitset_or_def bitset_xor_def bit_and_iff bit_or_iff bit_xor_iff)

lemma bitset_not_wf [simp]:
  "bs_wf b \<Longrightarrow> bitset_not b = Inr (bs_of (\<lambda>i. \<not> bget b i) (dataSize b))"
  by (simp add: bitset_not_def)

lemma bytes_eq_iff: "length xs = length ys \<Longrightarrow> bytes_eq xs ys \<longleftrightarrow> xs = ys"
  by (induction xs ys rule: bytes_eq.induct) auto

lemma bitset_eq_wf [simp]:
  assumes "bs_wf a" and "bs_wf b" and "dataSize a = dataSize b"
  shows "bitset_eq a b = Inr (a = b)"
proof -
  have "length (data a) = length (data b)"
    using assms by (simp add: bs_wf_def allocSize_def)
  moreover have "data a = data b \<longleftrightarrow> a = b" using assms(3) by (cases a; cases b) simp
  ultimately show ?thesis using assms(3) by (simp add: bitset_eq_def bytes_eq_iff)
qed

text \<open>Counting: the table-free byte counts add up to the number of set flags.\<close>

lemma foldl_count: "foldl (\<lambda>c w. c + f w) (a::nat) ws = a + (\<Sum>w\<leftarrow>ws. f w)"
  by (induction ws arbitrary: a) auto

lemma count_bytes:
  "(\<Sum>w\<leftarrow>ws. length (filter (bit (w::u8)) [0..<8])) =
     length (filter (\<lambda>i. bit (ws ! (i div 8)) (i mod 8)) [0..<8 * length ws])"
proof (induction ws rule: rev_induct)
  case Nil
  then show ?case by simp
next
  case (snoc w ws)
  let ?P = "\<lambda>vs i. bit (vs ! (i div 8) :: u8) (i mod 8)"
  have upt: "[0..<8 * length (ws @ [w])] =
      [0..<8 * length ws] @ map (\<lambda>j. 8 * length ws + j) [0..<8]"
    by (rule nth_equalityI) (auto simp: nth_append)
  have "filter (?P (ws @ [w])) [0..<8 * length ws] = filter (?P ws) [0..<8 * length ws]"
  proof (rule filter_cong [OF refl])
    fix i assume "i \<in> set [0..<8 * length ws]"
    then have "i div 8 < length ws" by simp
    then show "?P (ws @ [w]) i = ?P ws i" by (simp add: nth_append)
  qed
  moreover have "length (filter (?P (ws @ [w])) (map (\<lambda>j. 8 * length ws + j) [0..<8])) =
      length (filter (bit w) [0..<8])"
  proof -
    have "filter (\<lambda>j. ?P (ws @ [w]) (8 * length ws + j)) [0..<8] = filter (bit w) [0..<8]"
      by (rule filter_cong [OF refl]) (auto simp: nth_append)
    then show ?thesis by (simp add: filter_map o_def)
  qed
  moreover have "length (filter (?P (ws @ [w])) [0..<8 * length (ws @ [w])]) =
      length (filter (?P (ws @ [w])) [0..<8 * length ws]) +
      length (filter (?P (ws @ [w])) (map (\<lambda>j. 8 * length ws + j) [0..<8]))"
    by (subst upt, subst filter_append, subst length_append) (rule refl)
  ultimately have "length (filter (?P (ws @ [w])) [0..<8 * length (ws @ [w])]) =
      length (filter (?P ws) [0..<8 * length ws]) + length (filter (bit w) [0..<8])"
    by (simp only:)
  then show ?case using snoc.IH by simp
qed

lemma bitset_count_wf [simp]:
  assumes wf: "bs_wf b"
  shows "bitset_count b = length (filter (bget b) [0..<dataSize b])"
proof -
  have le: "dataSize b \<le> 8 * length (data b)" using bs_wf_size [OF wf] by simp
  have "bitset_count b = length (filter (bget b) [0..<8 * length (data b)])"
    by (simp add: bitset_count_def foldl_count popcount8_bits count_bytes bget_def [abs_def])
  also have "[0..<8 * length (data b)] = [0..<dataSize b] @ [dataSize b..<8 * length (data b)]"
    using le by (metis le_iff_add upt_add_eq_append zero_le)
  finally have "bitset_count b =
      length (filter (bget b) ([0..<dataSize b] @ [dataSize b..<8 * length (data b)]))" .
  moreover have "filter (bget b) [dataSize b..<8 * length (data b)] = []"
    using wf by (auto simp: bs_wf_def allocSize_def filter_empty_conv)
  ultimately show ?thesis by (simp only: filter_append append_Nil2)
qed

section \<open>The interface its clients use\<close>

text \<open>
  What blocks, caches and requests rely on: a set of \<open>size_of\<close> flags that can be tested and
  written one by one, with \<open>any\<close> and \<open>count\<close> agreeing with the flags. The client lemmas are
  proved from these laws and hold for the packed bytes through the interpretation below.
\<close>

locale flag_set =
  fixes ok :: "'b \<Rightarrow> bool"
    and size_of :: "'b \<Rightarrow> nat"
    and flag :: "'b \<Rightarrow> nat \<Rightarrow> bool"
    and test :: "'b \<Rightarrow> nat \<Rightarrow> bool res"
    and put_flag :: "'b \<Rightarrow> nat \<Rightarrow> bool \<Rightarrow> 'b res"
    and any_set :: "'b \<Rightarrow> bool"
    and count :: "'b \<Rightarrow> nat"
  assumes test_flag: "ok b \<Longrightarrow> i < size_of b \<Longrightarrow> test b i = Inr (flag b i)"
    and put_flag_law: "ok b \<Longrightarrow> i < size_of b \<Longrightarrow>
      \<exists>b'. put_flag b i v = Inr b' \<and> ok b' \<and> size_of b' = size_of b \<and> flag b' = (flag b)(i := v)"
    and any_flag: "ok b \<Longrightarrow> any_set b \<longleftrightarrow> (\<exists>i < size_of b. flag b i)"
    and count_flag: "ok b \<Longrightarrow> count b = length (filter (flag b) [0..<size_of b])"
begin

lemma write_Inr:
  assumes "ok b" and "i < size_of b" and "put_flag b i v = Inr b'"
  shows "ok b'" and "size_of b' = size_of b" and "flag b' = (flag b)(i := v)"
  using put_flag_law [OF assms(1,2), of v] assms(3) by auto

lemma read_own_write:
  assumes "ok b" and "i < size_of b" and "put_flag b i v = Inr b'"
  shows "test b' i = Inr v"
  using write_Inr [OF assms] assms(2) by (simp add: test_flag)

lemma read_other_write:
  assumes "ok b" and "i < size_of b" and "put_flag b i v = Inr b'" and "j < size_of b" and "j \<noteq> i"
  shows "test b' j = test b j"
  using write_Inr [OF assms(1-3)] assms by (simp add: test_flag)

lemma count_pos_iff_any: "ok b \<Longrightarrow> 0 < count b \<longleftrightarrow> any_set b"
  by (auto simp: count_flag any_flag filter_empty_conv)

lemma count_le_size: "ok b \<Longrightarrow> count b \<le> size_of b"
  using length_filter_le [of "flag b" "[0..<size_of b]"] by (simp add: count_flag)

lemma count_card: "ok b \<Longrightarrow> count b = card {i. i < size_of b \<and> flag b i}"
  proof -
  assume "ok b"
  then have "count b = card {i. i < length [0..<size_of b] \<and> flag b ([0..<size_of b] ! i)}"
    by (simp only: count_flag length_filter_conv_card)
  also have "{i. i < length [0..<size_of b] \<and> flag b ([0..<size_of b] ! i)} =
      {i. i < size_of b \<and> flag b i}"
    by auto
  finally show ?thesis .
qed

lemma count_after_set:
  assumes "ok b" and "i < size_of b" and "put_flag b i True = Inr b'" and "\<not> flag b i"
  shows "count b' = Suc (count b)"
proof -
  note w = write_Inr [OF assms(1-3)]
  have "{j. j < size_of b' \<and> flag b' j} = insert i {j. j < size_of b \<and> flag b j}"
    using w assms(2) by auto
  then show ?thesis using assms(1,4) w(1) by (simp add: count_card)
qed

lemma count_after_clear:
  assumes "ok b" and "i < size_of b" and "put_flag b i False = Inr b'" and "flag b i"
  shows "Suc (count b') = count b"
proof -
  note w = write_Inr [OF assms(1-3)]
  have "{j. j < size_of b \<and> flag b j} = insert i {j. j < size_of b' \<and> flag b' j}"
    using w assms(2,4) by auto
  moreover have "i \<notin> {j. j < size_of b' \<and> flag b' j}" using w by simp
  ultimately show ?thesis using assms(1) w(1) by (simp add: count_card)
qed

end

interpretation bs: flag_set bs_wf bitset_size bget bitset_test bitset_set_to bitset_any bitset_count
  by unfold_locales (simp_all add: bitset_size_def)

end
