(* ===== verification/Block.thy ===== *)
theory Block
  imports Bitset
begin

text \<open>
  \<^verbatim>\<open>src/ftl/common/block.cc\<close> and \<^verbatim>\<open>block.hh\<close>: one physical (super)block of the flash
  translation layer. A block has \<open>pageCount\<close> pages of \<open>ioUnitInPage\<close> I/O units. With one unit
  per page the page states are two bit sets over the pages behind pointers; with more units they
  are two vectors of bit sets, one set per page. \<open>pNextWritePageIndex\<close> holds, per unit, the page
  the next write must not precede.

  The observers \<open>bvalid\<close>, \<open>berased\<close>, \<open>blpn\<close> and \<open>bnext\<close> read both layouts uniformly;
  \<open>blk_inv\<close> is the invariant of every reachable block, and the laws at the end are what the
  page mapping relies on.
\<close>

section \<open>State and operations\<close>

record block =
  blkIdx :: nat
  pageCount :: nat
  ioUnitInPage :: nat
  pNextWritePageIndex :: "nat list"
  pValidBits :: "bitset option"
  pErasedBits :: "bitset option"
  pLPNs :: "u64 list"
  validBits :: "bitset list"
  erasedBits :: "bitset list"
  ppLPNs :: "u64 list list"
  lastAccessed :: tick
  eraseCount :: nat

definition block_erase :: "block \<Rightarrow> block res" where
  "block_erase b =
     ebind
       (if ioUnitInPage b = 1 then
          ebind (deref (pValidBits b)) (\<lambda>v.
          ebind (deref (pErasedBits b)) (\<lambda>e.
          ebind (bitset_set_all e) (\<lambda>e'.
          Inr (b\<lparr>pValidBits := Some (bitset_reset_all v), pErasedBits := Some e'\<rparr>))))
        else
          ebind (emap bitset_set_all (erasedBits b)) (\<lambda>es.
          Inr (b\<lparr>validBits := map bitset_reset_all (validBits b), erasedBits := es\<rparr>)))
       (\<lambda>b'. Inr (b'\<lparr>pNextWritePageIndex := replicate (ioUnitInPage b) 0,
                      eraseCount := (eraseCount b + 1) mod 2 ^ 32\<rparr>))"

definition Block_alloc :: "nat \<Rightarrow> nat \<Rightarrow> nat \<Rightarrow> block res" where
  "Block_alloc index count ioUnit =
     (if ioUnit = 1 then
        Inr \<lparr>blkIdx = index, pageCount = count, ioUnitInPage = ioUnit,
             pNextWritePageIndex = replicate ioUnit 0,
             pValidBits = Some (Bitset_new count), pErasedBits = Some (Bitset_new count),
             pLPNs = replicate count 0, validBits = [], erasedBits = [], ppLPNs = [],
             lastAccessed = 0, eraseCount = 0\<rparr>
      else if 1 < ioUnit then
        Inr \<lparr>blkIdx = index, pageCount = count, ioUnitInPage = ioUnit,
             pNextWritePageIndex = replicate ioUnit 0,
             pValidBits = None, pErasedBits = None, pLPNs = [],
             validBits = replicate count (Bitset_new ioUnit),
             erasedBits = replicate count (Bitset_new ioUnit),
             ppLPNs = replicate count (replicate ioUnit 0),
             lastAccessed = 0, eraseCount = 0\<rparr>
      else Inl (Panic ''Invalid I/O unit in page''))"

definition Block_new :: "nat \<Rightarrow> nat \<Rightarrow> nat \<Rightarrow> block res" where
  "Block_new index count ioUnit =
     ebind (Block_alloc index count ioUnit) (\<lambda>b.
     ebind (block_erase b) (\<lambda>b'. Inr (b'\<lparr>eraseCount := 0\<rparr>)))"

definition Block_copy :: "block \<Rightarrow> block res" where
  "Block_copy old =
     ebind (Block_new (blkIdx old) (pageCount old) (ioUnitInPage old)) (\<lambda>b.
     ebind
       (if ioUnitInPage b = 1 then
          ebind (deref (pValidBits old)) (\<lambda>v.
          ebind (deref (pErasedBits old)) (\<lambda>e.
          Inr (b\<lparr>pValidBits := Some (bitset_assign (the (pValidBits b)) v),
                 pErasedBits := Some (bitset_assign (the (pErasedBits b)) e),
                 pLPNs := take (pageCount b) (pLPNs old)\<rparr>)))
        else
          Inr (b\<lparr>validBits := validBits old, erasedBits := erasedBits old,
                 ppLPNs := map (take (ioUnitInPage b)) (take (pageCount b) (ppLPNs old))\<rparr>))
       (\<lambda>b'. Inr (b'\<lparr>pNextWritePageIndex := take (ioUnitInPage b) (pNextWritePageIndex old),
                      eraseCount := eraseCount old\<rparr>)))"

definition block_moved_out :: "block \<Rightarrow> block" where
  "block_moved_out old = old\<lparr>blkIdx := 0, pageCount := 0, ioUnitInPage := 0,
     pNextWritePageIndex := [], pValidBits := None, pErasedBits := None, pLPNs := [],
     validBits := [], erasedBits := [], ppLPNs := [], lastAccessed := 0, eraseCount := 0\<rparr>"

definition Block_move :: "block \<Rightarrow> block \<times> block" where
  "Block_move old = (old, block_moved_out old)"

definition getBlockIndex :: "block \<Rightarrow> nat" where
  "getBlockIndex b = blkIdx b"

definition getLastAccessedTime :: "block \<Rightarrow> tick" where
  "getLastAccessedTime b = lastAccessed b"

definition getEraseCount :: "block \<Rightarrow> nat" where
  "getEraseCount b = eraseCount b"

definition getValidPageCount :: "block \<Rightarrow> nat res" where
  "getValidPageCount b =
     (if ioUnitInPage b = 1 then ebind (deref (pValidBits b)) (\<lambda>v. Inr (bitset_count v))
      else Inr (foldl (\<lambda>ret v. if bitset_any v then ret + 1 else ret) 0 (validBits b)))"

definition getValidPageCountRaw :: "block \<Rightarrow> nat res" where
  "getValidPageCountRaw b =
     (if ioUnitInPage b = 1 then ebind (deref (pValidBits b)) (\<lambda>v. Inr (bitset_count v))
      else Inr (foldl (\<lambda>ret v. ret + bitset_count v) 0 (validBits b)))"

definition getDirtyPageCount :: "block \<Rightarrow> nat res" where
  "getDirtyPageCount b =
     (if ioUnitInPage b = 1 then
        ebind (deref (pValidBits b)) (\<lambda>v.
        ebind (deref (pErasedBits b)) (\<lambda>e.
        ebind (bitset_or v e) (\<lambda>u.
        ebind (bitset_not u) (\<lambda>n. Inr (bitset_count n)))))
      else
        efold (\<lambda>i ret.
          ebind (vec_at (validBits b) i) (\<lambda>v.
          ebind (vec_at (erasedBits b) i) (\<lambda>e.
          ebind (bitset_or v e) (\<lambda>u.
          ebind (bitset_not u) (\<lambda>n. Inr (if bitset_any n then ret + 1 else ret))))))
          [0..<pageCount b] 0)"

definition getNextWritePageIndex :: "block \<Rightarrow> nat res" where
  "getNextWritePageIndex b =
     efold (\<lambda>i index.
       ebind (arr_get (pNextWritePageIndex b) i) (\<lambda>n. Inr (if index < n then n else index)))
       [0..<ioUnitInPage b] 0"

definition getNextWritePageIndexAt :: "block \<Rightarrow> nat \<Rightarrow> nat res" where
  "getNextWritePageIndexAt b index = arr_get (pNextWritePageIndex b) index"

text \<open>The result: whether the returned map has a flag set, the LPNs and the map.\<close>

definition getPageInfo :: "block \<Rightarrow> nat \<Rightarrow> bitset \<Rightarrow> (bool \<times> u64 list \<times> bitset) res" where
  "getPageInfo b pageIndex m =
     ebind
       (if ioUnitInPage b = 1 \<and> bitset_size m = 1 then
          ebind (bitset_set_all m) (\<lambda>m'.
          ebind (arr_get (pLPNs b) pageIndex) (\<lambda>l. Inr ([l], m')))
        else if bitset_size m = ioUnitInPage b then
          ebind (vec_at (validBits b) pageIndex) (\<lambda>v.
          ebind (arr_get (ppLPNs b) pageIndex) (\<lambda>ls.
          Inr (take (ioUnitInPage b) ls, bitset_assign m v)))
        else Inl (Panic ''I/O map size mismatch''))
       (\<lambda>(lpn, m'). Inr (bitset_any m', lpn, m'))"

definition block_read :: "block \<Rightarrow> nat \<Rightarrow> nat \<Rightarrow> tick \<Rightarrow> (bool \<times> block) res" where
  "block_read b pageIndex index tk =
     ebind
       (if ioUnitInPage b = 1 \<and> index = 0 then
          ebind (deref (pValidBits b)) (\<lambda>v. bitset_test v pageIndex)
        else if index < ioUnitInPage b then
          ebind (vec_at (validBits b) pageIndex) (\<lambda>v. bitset_test v index)
        else Inl (Panic ''I/O map size mismatch''))
       (\<lambda>rd. Inr (rd, if rd then b\<lparr>lastAccessed := tk\<rparr> else b))"

definition block_write :: "block \<Rightarrow> nat \<Rightarrow> u64 \<Rightarrow> nat \<Rightarrow> tick \<Rightarrow> (bool \<times> block) res" where
  "block_write b pageIndex lpn index tk =
     ebind
       (if ioUnitInPage b = 1 \<and> index = 0 then
          ebind (deref (pErasedBits b)) (\<lambda>e. bitset_test e pageIndex)
        else if index < ioUnitInPage b then
          ebind (vec_at (erasedBits b) pageIndex) (\<lambda>e. bitset_test e index)
        else Inl (Panic ''I/O map size mismatch''))
       (\<lambda>wr.
     if \<not> wr then Inl (Panic ''Write to non erased page'')
     else
       ebind (arr_get (pNextWritePageIndex b) index) (\<lambda>n.
       if pageIndex < n then Inl (Panic ''Write to block should sequential'')
       else
         ebind
           (if ioUnitInPage b = 1 then
              ebind (deref (pErasedBits b)) (\<lambda>e.
              ebind (bitset_reset e pageIndex) (\<lambda>e'.
              ebind (deref (pValidBits b)) (\<lambda>v.
              ebind (bitset_set v pageIndex) (\<lambda>v'.
              ebind (arr_set (pLPNs b) pageIndex lpn) (\<lambda>ls.
              Inr (b\<lparr>pErasedBits := Some e', pValidBits := Some v', pLPNs := ls\<rparr>))))))
            else
              ebind (vec_at (erasedBits b) pageIndex) (\<lambda>e.
              ebind (bitset_reset e index) (\<lambda>e'.
              ebind (vec_at (validBits b) pageIndex) (\<lambda>v.
              ebind (bitset_set v index) (\<lambda>v'.
              ebind (arr_get (ppLPNs b) pageIndex) (\<lambda>ls.
              ebind (arr_set ls index lpn) (\<lambda>ls'.
              Inr (b\<lparr>erasedBits := (erasedBits b)[pageIndex := e'],
                     validBits := (validBits b)[pageIndex := v'],
                     ppLPNs := (ppLPNs b)[pageIndex := ls']\<rparr>))))))))
           (\<lambda>b'. Inr (True, b'\<lparr>lastAccessed := tk,
              pNextWritePageIndex := (pNextWritePageIndex b)[index := pageIndex + 1]\<rparr>))))"

definition block_invalidate :: "block \<Rightarrow> nat \<Rightarrow> nat \<Rightarrow> block res" where
  "block_invalidate b pageIndex index =
     (if ioUnitInPage b = 1 then
        ebind (deref (pValidBits b)) (\<lambda>v.
        ebind (bitset_reset v pageIndex) (\<lambda>v'.
        Inr (b\<lparr>pValidBits := Some v'\<rparr>)))
      else
        ebind (vec_at (validBits b) pageIndex) (\<lambda>v.
        ebind (bitset_reset v index) (\<lambda>v'.
        Inr (b\<lparr>validBits := (validBits b)[pageIndex := v']\<rparr>))))"

section \<open>Observers and invariant\<close>

definition bvalid :: "block \<Rightarrow> nat \<Rightarrow> nat \<Rightarrow> bool" where
  "bvalid b p i = (if ioUnitInPage b = 1 then bget (the (pValidBits b)) p
                   else bget (validBits b ! p) i)"

definition berased :: "block \<Rightarrow> nat \<Rightarrow> nat \<Rightarrow> bool" where
  "berased b p i = (if ioUnitInPage b = 1 then bget (the (pErasedBits b)) p
                    else bget (erasedBits b ! p) i)"

definition blpn :: "block \<Rightarrow> nat \<Rightarrow> nat \<Rightarrow> u64" where
  "blpn b p i = (if ioUnitInPage b = 1 then pLPNs b ! p else ppLPNs b ! p ! i)"

definition bnext :: "block \<Rightarrow> nat \<Rightarrow> nat" where
  "bnext b i = pNextWritePageIndex b ! i"

definition in_blk :: "block \<Rightarrow> nat \<Rightarrow> nat \<Rightarrow> bool" where
  "in_blk b p i \<longleftrightarrow> p < pageCount b \<and> i < ioUnitInPage b"

definition same_shape :: "block \<Rightarrow> block \<Rightarrow> bool" where
  "same_shape b b' \<longleftrightarrow> blkIdx b' = blkIdx b \<and> pageCount b' = pageCount b \<and>
     ioUnitInPage b' = ioUnitInPage b"

definition blk_wf :: "block \<Rightarrow> bool" where
  "blk_wf b \<longleftrightarrow>
     0 < pageCount b \<and> 0 < ioUnitInPage b \<and> length (pNextWritePageIndex b) = ioUnitInPage b \<and>
     (if ioUnitInPage b = 1 then
        (\<exists>v e. pValidBits b = Some v \<and> pErasedBits b = Some e \<and> bs_wf v \<and> bs_wf e \<and>
           dataSize v = pageCount b \<and> dataSize e = pageCount b) \<and> length (pLPNs b) = pageCount b
      else
        length (validBits b) = pageCount b \<and> length (erasedBits b) = pageCount b \<and>
        length (ppLPNs b) = pageCount b \<and>
        (\<forall>p<pageCount b. bs_wf (validBits b ! p) \<and> dataSize (validBits b ! p) = ioUnitInPage b \<and>
           bs_wf (erasedBits b ! p) \<and> dataSize (erasedBits b ! p) = ioUnitInPage b \<and>
           length (ppLPNs b ! p) = ioUnitInPage b))"

definition blk_inv :: "block \<Rightarrow> bool" where
  "blk_inv b \<longleftrightarrow>
     blk_wf b \<and>
     (\<forall>p i. in_blk b p i \<longrightarrow> (bvalid b p i \<longrightarrow> \<not> berased b p i) \<and> (bnext b i \<le> p \<longrightarrow> berased b p i)) \<and>
     (\<forall>i<ioUnitInPage b. bnext b i \<le> pageCount b)"

lemma blk_wf_pos: "blk_wf b \<Longrightarrow> 0 < pageCount b \<and> 0 < ioUnitInPage b"
  by (simp add: blk_wf_def)

lemma blk_wf_single:
  assumes "blk_wf b" and "ioUnitInPage b = 1"
  obtains v e where "pValidBits b = Some v" and "pErasedBits b = Some e" and "bs_wf v" and "bs_wf e"
    and "dataSize v = pageCount b" and "dataSize e = pageCount b" and "length (pLPNs b) = pageCount b"
    and "length (pNextWritePageIndex b) = 1" and "0 < pageCount b"
  using assms by (auto simp: blk_wf_def)

lemma blk_wf_multi:
  assumes "blk_wf b" and "ioUnitInPage b \<noteq> 1"
  shows "length (validBits b) = pageCount b" and "length (erasedBits b) = pageCount b"
    and "length (ppLPNs b) = pageCount b"
    and "p < pageCount b \<Longrightarrow> bs_wf (validBits b ! p) \<and> dataSize (validBits b ! p) = ioUnitInPage b \<and>
           bs_wf (erasedBits b ! p) \<and> dataSize (erasedBits b ! p) = ioUnitInPage b \<and>
           length (ppLPNs b ! p) = ioUnitInPage b"
  using assms by (auto simp: blk_wf_def)

section \<open>Invalidating one unit\<close>

definition blk_inval :: "block \<Rightarrow> nat \<Rightarrow> nat \<Rightarrow> block" where
  "blk_inval b p i =
     (if ioUnitInPage b = 1 then b\<lparr>pValidBits := Some (bs_upd (the (pValidBits b)) p False)\<rparr>
      else b\<lparr>validBits := (validBits b)[p := bs_upd (validBits b ! p) i False]\<rparr>)"

lemma block_invalidate_eq [simp]:
  assumes wf: "blk_wf b" and r: "in_blk b p i"
  shows "block_invalidate b p i = Inr (blk_inval b p i)"
proof (cases "ioUnitInPage b = 1")
  case True
  with wf r show ?thesis
    by (elim blk_wf_single) (auto simp: block_invalidate_def blk_inval_def in_blk_def)
next
  case False
  with wf r blk_wf_multi(1-3) [OF wf False] blk_wf_multi(4) [OF wf False, of p] show ?thesis
    by (simp add: block_invalidate_def blk_inval_def in_blk_def)
qed

lemma blk_inval_frame [simp]:
  "blkIdx (blk_inval b p i) = blkIdx b" "pageCount (blk_inval b p i) = pageCount b"
  "ioUnitInPage (blk_inval b p i) = ioUnitInPage b" "bnext (blk_inval b p i) = bnext b"
  "berased (blk_inval b p i) = berased b" "blpn (blk_inval b p i) = blpn b"
  "eraseCount (blk_inval b p i) = eraseCount b" "lastAccessed (blk_inval b p i) = lastAccessed b"
  "pNextWritePageIndex (blk_inval b p i) = pNextWritePageIndex b"
  by (auto simp: blk_inval_def bnext_def berased_def blpn_def fun_eq_iff)

lemma in_blk_inval [simp]: "in_blk (blk_inval b p i) = in_blk b"
  by (simp add: in_blk_def fun_eq_iff)

lemma blk_wf_inval [simp]: "blk_wf b \<Longrightarrow> in_blk b p i \<Longrightarrow> blk_wf (blk_inval b p i)"
proof (cases "ioUnitInPage b = 1")
  case True
  then show "blk_wf b \<Longrightarrow> in_blk b p i \<Longrightarrow> ?thesis"
    by (elim blk_wf_single) (auto simp: blk_inval_def blk_wf_def in_blk_def)
next
  case False
  then show "blk_wf b \<Longrightarrow> in_blk b p i \<Longrightarrow> ?thesis"
    by (auto simp: blk_inval_def blk_wf_def in_blk_def nth_list_update)
qed

lemma bvalid_inval [simp]:
  assumes wf: "blk_wf b" and r: "in_blk b p i" and q: "in_blk b q j"
  shows "bvalid (blk_inval b p i) q j \<longleftrightarrow> bvalid b q j \<and> (q, j) \<noteq> (p, i)"
proof (cases "ioUnitInPage b = 1")
  case True
  with wf r q show ?thesis
    by (elim blk_wf_single) (auto simp: blk_inval_def bvalid_def in_blk_def)
next
  case False
  with wf r q blk_wf_multi(1-3) [OF wf False] blk_wf_multi(4) [OF wf False, of p] show ?thesis
    by (auto simp: blk_inval_def bvalid_def in_blk_def nth_list_update split: if_splits)
qed

lemma blk_inv_inval [simp]: "blk_inv b \<Longrightarrow> in_blk b p i \<Longrightarrow> blk_inv (blk_inval b p i)"
  by (simp add: blk_inv_def)

section \<open>Programming one unit\<close>

definition blk_prog :: "block \<Rightarrow> nat \<Rightarrow> u64 \<Rightarrow> nat \<Rightarrow> tick \<Rightarrow> block" where
  "blk_prog b p l i tk =
     (if ioUnitInPage b = 1 then
        b\<lparr>pErasedBits := Some (bs_upd (the (pErasedBits b)) p False),
          pValidBits := Some (bs_upd (the (pValidBits b)) p True), pLPNs := (pLPNs b)[p := l]\<rparr>
      else
        b\<lparr>erasedBits := (erasedBits b)[p := bs_upd (erasedBits b ! p) i False],
          validBits := (validBits b)[p := bs_upd (validBits b ! p) i True],
          ppLPNs := (ppLPNs b)[p := (ppLPNs b ! p)[i := l]]\<rparr>)
     \<lparr>lastAccessed := tk, pNextWritePageIndex := (pNextWritePageIndex b)[i := p + 1]\<rparr>"

lemma block_write_eq:
  assumes wf: "blk_wf b" and r: "in_blk b p i"
  shows "block_write b p l i tk =
    (if \<not> berased b p i then Inl (Panic ''Write to non erased page'')
     else if p < bnext b i then Inl (Panic ''Write to block should sequential'')
     else Inr (True, blk_prog b p l i tk))"
proof (cases "ioUnitInPage b = 1")
  case True
  with wf r have "length (pNextWritePageIndex b) = 1" "i = 0"
    by (auto simp: blk_wf_def in_blk_def)
  with True wf r show ?thesis
    by (elim blk_wf_single)
       (auto simp: block_write_def blk_prog_def in_blk_def berased_def bnext_def)
next
  case False
  with wf r have "length (pNextWritePageIndex b) = ioUnitInPage b"
    by (auto simp: blk_wf_def in_blk_def)
  with False wf r blk_wf_multi(1-3) [OF wf False] blk_wf_multi(4) [OF wf False, of p] show ?thesis
    by (auto simp: block_write_def blk_prog_def in_blk_def berased_def bnext_def)
qed

lemma blk_prog_frame [simp]:
  "blkIdx (blk_prog b p l i tk) = blkIdx b" "pageCount (blk_prog b p l i tk) = pageCount b"
  "ioUnitInPage (blk_prog b p l i tk) = ioUnitInPage b"
  "eraseCount (blk_prog b p l i tk) = eraseCount b" "lastAccessed (blk_prog b p l i tk) = tk"
  by (auto simp: blk_prog_def)

lemma in_blk_prog [simp]: "in_blk (blk_prog b p l i tk) = in_blk b"
  by (simp add: in_blk_def fun_eq_iff)

lemma blk_wf_prog [simp]: "blk_wf b \<Longrightarrow> in_blk b p i \<Longrightarrow> blk_wf (blk_prog b p l i tk)"
proof (cases "ioUnitInPage b = 1")
  case True
  then show "blk_wf b \<Longrightarrow> in_blk b p i \<Longrightarrow> ?thesis"
    by (elim blk_wf_single) (auto simp: blk_prog_def blk_wf_def in_blk_def)
next
  case False
  then show "blk_wf b \<Longrightarrow> in_blk b p i \<Longrightarrow> ?thesis"
    by (auto simp: blk_prog_def blk_wf_def in_blk_def nth_list_update)
qed

lemma bvalid_prog:
  assumes wf: "blk_wf b" and r: "in_blk b p i" and q: "in_blk b q j"
  shows "bvalid (blk_prog b p l i tk) q j = (bvalid b q j \<or> (q, j) = (p, i))"
proof (cases "ioUnitInPage b = 1")
  case True
  with wf r q show ?thesis
    by (elim blk_wf_single) (auto simp: blk_prog_def bvalid_def in_blk_def)
next
  case False
  with wf r q blk_wf_multi(1-3) [OF wf False] blk_wf_multi(4) [OF wf False, of p] show ?thesis
    by (auto simp: blk_prog_def bvalid_def in_blk_def nth_list_update split: if_splits)
qed

lemma berased_prog:
  assumes wf: "blk_wf b" and r: "in_blk b p i" and q: "in_blk b q j"
  shows "berased (blk_prog b p l i tk) q j = (berased b q j \<and> (q, j) \<noteq> (p, i))"
proof (cases "ioUnitInPage b = 1")
  case True
  with wf r q show ?thesis
    by (elim blk_wf_single) (auto simp: blk_prog_def berased_def in_blk_def)
next
  case False
  with wf r q blk_wf_multi(1-3) [OF wf False] blk_wf_multi(4) [OF wf False, of p] show ?thesis
    by (auto simp: blk_prog_def berased_def in_blk_def nth_list_update split: if_splits)
qed

lemma blpn_prog:
  assumes wf: "blk_wf b" and r: "in_blk b p i" and q: "in_blk b q j"
  shows "blpn (blk_prog b p l i tk) q j = (if (q, j) = (p, i) then l else blpn b q j)"
proof (cases "ioUnitInPage b = 1")
  case True
  with wf r q show ?thesis
    by (elim blk_wf_single) (auto simp: blk_prog_def blpn_def in_blk_def)
next
  case False
  with wf r q blk_wf_multi(1-3) [OF wf False] blk_wf_multi(4) [OF wf False, of p] show ?thesis
    by (auto simp: blk_prog_def blpn_def in_blk_def nth_list_update split: if_splits)
qed

lemma bnext_prog:
  assumes "blk_wf b" and "in_blk b p i"
  shows "bnext (blk_prog b p l i tk) j = (if j = i then p + 1 else bnext b j)"
  using assms by (auto simp: blk_prog_def bnext_def in_blk_def blk_wf_def)

lemmas blk_prog_obs [simp] = bvalid_prog berased_prog blpn_prog bnext_prog

lemma blk_inv_prog:
  assumes "blk_inv b" and r: "in_blk b p i" and "bnext b i \<le> p"
  shows "blk_inv (blk_prog b p l i tk)"
proof -
  have wf: "blk_wf b" using assms by (simp add: blk_inv_def)
  show ?thesis unfolding blk_inv_def
  proof (intro conjI allI impI)
    show "blk_wf (blk_prog b p l i tk)" using wf r by simp
  next
    fix q j assume q: "in_blk (blk_prog b p l i tk) q j" "bvalid (blk_prog b p l i tk) q j"
    with assms wf show "\<not> berased (blk_prog b p l i tk) q j"
      by (auto simp: blk_inv_def)
  next
    fix q j assume q: "in_blk (blk_prog b p l i tk) q j" "bnext (blk_prog b p l i tk) j \<le> q"
    with assms wf show "berased (blk_prog b p l i tk) q j"
      by (auto simp: blk_inv_def split: if_splits)
  next
    fix j assume "j < ioUnitInPage (blk_prog b p l i tk)"
    moreover from this r have "in_blk b p j" by (simp add: in_blk_def)
    ultimately show "bnext (blk_prog b p l i tk) j \<le> pageCount (blk_prog b p l i tk)"
      using assms wf r by (auto simp: blk_inv_def in_blk_def)
  qed
qed

section \<open>Erasing and constructing\<close>

definition blk_erased :: "block \<Rightarrow> block" where
  "blk_erased b =
     (if ioUnitInPage b = 1 then
        b\<lparr>pValidBits := Some (bitset_reset_all (the (pValidBits b))),
          pErasedBits := Some (bs_of (\<lambda>_. True) (pageCount b))\<rparr>
      else
        b\<lparr>validBits := map bitset_reset_all (validBits b),
          erasedBits := map (\<lambda>e. bs_of (\<lambda>_. True) (dataSize e)) (erasedBits b)\<rparr>)
     \<lparr>pNextWritePageIndex := replicate (ioUnitInPage b) 0, eraseCount := (eraseCount b + 1) mod 2 ^ 32\<rparr>"

lemma block_erase_eq [simp]:
  assumes wf: "blk_wf b"
  shows "block_erase b = Inr (blk_erased b)"
proof (cases "ioUnitInPage b = 1")
  case True
  with wf show ?thesis
    by (elim blk_wf_single) (auto simp: block_erase_def blk_erased_def)
next
  case False
  have "emap bitset_set_all (erasedBits b) =
      Inr (map (\<lambda>e. bs_of (\<lambda>_. True) (dataSize e)) (erasedBits b))"
    by (rule emap_Inr)
       (use blk_wf_multi(2) [OF wf False] blk_wf_multi(4) [OF wf False] in \<open>auto simp: in_set_conv_nth\<close>)
  with False show ?thesis by (simp add: block_erase_def blk_erased_def)
qed

lemma blk_erased_frame [simp]:
  "blkIdx (blk_erased b) = blkIdx b" "pageCount (blk_erased b) = pageCount b"
  "ioUnitInPage (blk_erased b) = ioUnitInPage b" "in_blk (blk_erased b) = in_blk b"
  "eraseCount (blk_erased b) = (eraseCount b + 1) mod 2 ^ 32"
  "pNextWritePageIndex (blk_erased b) = replicate (ioUnitInPage b) 0"
  by (auto simp: blk_erased_def in_blk_def fun_eq_iff)

lemma blk_wf_erased [simp]: "blk_wf b \<Longrightarrow> blk_wf (blk_erased b)"
proof (cases "ioUnitInPage b = 1")
  case True
  then show "blk_wf b \<Longrightarrow> ?thesis"
    by (elim blk_wf_single) (auto simp: blk_erased_def blk_wf_def)
next
  case False
  then show "blk_wf b \<Longrightarrow> ?thesis"
    by (auto simp: blk_erased_def blk_wf_def)
qed

lemma blk_erased_obs [simp]:
  assumes wf: "blk_wf b" and q: "in_blk b q j"
  shows "\<not> bvalid (blk_erased b) q j" and "berased (blk_erased b) q j" and "bnext (blk_erased b) j = 0"
proof -
  show "bnext (blk_erased b) j = 0" using q by (simp add: bnext_def in_blk_def)
  show "\<not> bvalid (blk_erased b) q j"
  proof (cases "ioUnitInPage b = 1")
    case True
    with wf q show ?thesis
      by (elim blk_wf_single) (auto simp: blk_erased_def bvalid_def in_blk_def)
  next
    case False
    with wf q blk_wf_multi(1) [OF wf False] blk_wf_multi(4) [OF wf False, of q] show ?thesis
      by (auto simp: blk_erased_def bvalid_def in_blk_def)
  qed
  show "berased (blk_erased b) q j"
  proof (cases "ioUnitInPage b = 1")
    case True
    with wf q show ?thesis
      by (elim blk_wf_single) (auto simp: blk_erased_def berased_def in_blk_def)
  next
    case False
    with wf q blk_wf_multi(2) [OF wf False] blk_wf_multi(4) [OF wf False, of q] show ?thesis
      by (auto simp: blk_erased_def berased_def in_blk_def)
  qed
qed

lemma blk_inv_erased [simp]: "blk_wf b \<Longrightarrow> blk_inv (blk_erased b)"
  using blk_wf_pos [of b] by (auto simp: blk_inv_def in_blk_def)

lemma Block_alloc_wf:
  assumes "0 < count" and "0 < u"
  shows "\<exists>b. Block_alloc index count u = Inr b \<and> blk_wf b \<and> blkIdx b = index \<and>
    pageCount b = count \<and> ioUnitInPage b = u"
  using assms by (cases "u = 1") (simp_all add: Block_alloc_def blk_wf_def)

lemma Block_new_inv:
  assumes "0 < count" and "0 < u"
  shows "\<exists>b. Block_new index count u = Inr b \<and> blk_inv b \<and> blkIdx b = index \<and>
    pageCount b = count \<and> ioUnitInPage b = u \<and> eraseCount b = 0 \<and>
    (\<forall>p i. in_blk b p i \<longrightarrow> \<not> bvalid b p i \<and> berased b p i) \<and> (\<forall>i<u. bnext b i = 0)"
proof -
  from assms obtain b0 where b0: "blk_wf b0" "blkIdx b0 = index" "pageCount b0 = count"
      "ioUnitInPage b0 = u" and alloc: "Block_alloc index count u = Inr b0"
    using Block_alloc_wf by blast
  then have new: "Block_new index count u = Inr ((blk_erased b0)\<lparr>eraseCount := 0\<rparr>)"
    by (simp add: Block_new_def)
  let ?b = "(blk_erased b0)\<lparr>eraseCount := 0\<rparr>"
  have obs: "bvalid ?b = bvalid (blk_erased b0)" "berased ?b = berased (blk_erased b0)"
    "bnext ?b = bnext (blk_erased b0)" "in_blk ?b = in_blk (blk_erased b0)"
    "blk_wf ?b = blk_wf (blk_erased b0)"
    by (auto simp: bvalid_def berased_def bnext_def in_blk_def blk_wf_def fun_eq_iff)
  then have "blk_inv ?b = blk_inv (blk_erased b0)" by (simp add: blk_inv_def)
  moreover have "in_blk b0 0 i \<longleftrightarrow> i < u" for i using assms b0 by (simp add: in_blk_def)
  ultimately show ?thesis using b0 new blk_erased_obs(3) [OF b0(1), of 0]
    by (intro exI [of _ ?b]) (simp add: obs)
qed

section \<open>Reading and counting\<close>

lemma block_read_eq [simp]:
  assumes wf: "blk_wf b" and r: "in_blk b p i"
  shows "block_read b p i tk = Inr (bvalid b p i, if bvalid b p i then b\<lparr>lastAccessed := tk\<rparr> else b)"
proof (cases "ioUnitInPage b = 1")
  case True
  with wf r show ?thesis
    by (elim blk_wf_single) (auto simp: block_read_def bvalid_def in_blk_def)
next
  case False
  with wf r blk_wf_multi(1) [OF wf False] blk_wf_multi(4) [OF wf False, of p] show ?thesis
    by (auto simp: block_read_def bvalid_def in_blk_def)
qed

lemma touch_obs [simp]:
  "bvalid (b\<lparr>lastAccessed := t\<rparr>) = bvalid b" "berased (b\<lparr>lastAccessed := t\<rparr>) = berased b"
  "blpn (b\<lparr>lastAccessed := t\<rparr>) = blpn b" "bnext (b\<lparr>lastAccessed := t\<rparr>) = bnext b"
  "in_blk (b\<lparr>lastAccessed := t\<rparr>) = in_blk b" "blk_wf (b\<lparr>lastAccessed := t\<rparr>) = blk_wf b"
  "blk_inv (b\<lparr>lastAccessed := t\<rparr>) = blk_inv b"
proof -
  show obs: "bvalid (b\<lparr>lastAccessed := t\<rparr>) = bvalid b" "berased (b\<lparr>lastAccessed := t\<rparr>) = berased b"
    "blpn (b\<lparr>lastAccessed := t\<rparr>) = blpn b" "bnext (b\<lparr>lastAccessed := t\<rparr>) = bnext b"
    "in_blk (b\<lparr>lastAccessed := t\<rparr>) = in_blk b" "blk_wf (b\<lparr>lastAccessed := t\<rparr>) = blk_wf b"
    by (auto simp: bvalid_def berased_def bnext_def blpn_def in_blk_def blk_wf_def fun_eq_iff)
  show "blk_inv (b\<lparr>lastAccessed := t\<rparr>) = blk_inv b" by (simp add: blk_inv_def obs)
qed

lemma getNextWritePageIndexAt_eq [simp]:
  "blk_wf b \<Longrightarrow> i < ioUnitInPage b \<Longrightarrow> getNextWritePageIndexAt b i = Inr (bnext b i)"
  by (simp add: getNextWritePageIndexAt_def bnext_def blk_wf_def)

text \<open>The block's fill level is the largest of its per-unit write positions.\<close>

lemma getNextWritePageIndex_Max:
  assumes "blk_wf b"
  shows "\<exists>m. getNextWritePageIndex b = Inr m \<and> (\<forall>i<ioUnitInPage b. bnext b i \<le> m) \<and>
    (m = 0 \<or> (\<exists>i<ioUnitInPage b. m = bnext b i))"
proof -
  have len: "length (pNextWritePageIndex b) = ioUnitInPage b" using assms by (simp add: blk_wf_def)
  let ?f = "\<lambda>i index. ebind (arr_get (pNextWritePageIndex b) i) (\<lambda>n. Inr (if index < n then n else index))"
  have "k \<le> ioUnitInPage b \<Longrightarrow> \<exists>m. efold ?f [0..<k] 0 = Inr m \<and> (\<forall>i<k. bnext b i \<le> m) \<and>
      (m = 0 \<or> (\<exists>i<k. m = bnext b i))" for k
  proof (induction k)
    case 0
    then show ?case by simp
  next
    case (Suc k)
    then obtain m where m: "efold ?f [0..<k] 0 = Inr m" "\<forall>i<k. bnext b i \<le> m"
      "m = 0 \<or> (\<exists>i<k. m = bnext b i)" by auto
    have "efold ?f [0..<Suc k] 0 = Inr (if m < bnext b k then bnext b k else m)"
      using Suc.prems m(1) len by (simp add: efold_append bnext_def)
    moreover have "\<forall>i<Suc k. bnext b i \<le> (if m < bnext b k then bnext b k else m)"
      using m(2) by (auto simp: less_Suc_eq)
    ultimately show ?case using m(3) by (auto simp: less_Suc_eq)
  qed
  from this [of "ioUnitInPage b"] show ?thesis by (simp add: getNextWritePageIndex_def)
qed

text \<open>
  The page-state report. With several units per page it returns the page's valid flags and LPNs.
  With one unit per page it sets the whole map, whatever the state of the page.
\<close>

lemma getPageInfo_multi:
  assumes wf: "blk_wf b" and u: "ioUnitInPage b \<noteq> 1" and p: "p < pageCount b"
    and m: "bitset_size m = ioUnitInPage b"
  shows "getPageInfo b p m =
    Inr (\<exists>i<ioUnitInPage b. bvalid b p i, ppLPNs b ! p, validBits b ! p)"
  using blk_wf_multi(1-3) [OF wf u] blk_wf_multi(4) [OF wf u p] u p m
  by (simp add: getPageInfo_def bvalid_def)

lemma getPageInfo_single:
  assumes wf: "blk_wf b" and u: "ioUnitInPage b = 1" and p: "p < pageCount b"
    and m: "bs_wf m" "bitset_size m = 1"
  shows "getPageInfo b p m = Inr (True, [blpn b p 0], bs_of (\<lambda>_. True) 1)"
  using wf u p m by (elim blk_wf_single) (simp_all add: getPageInfo_def blpn_def bitset_size_def)

lemma foldl_count_if:
  "foldl (\<lambda>r x. if P x then r + 1 else r) (a::nat) xs = a + length (filter P xs)"
  by (induction xs arbitrary: a) auto

lemma filter_nth_upt: "length (filter P xs) = length (filter (\<lambda>i. P (xs ! i)) [0..<length xs])"
proof -
  have "filter P (map ((!) xs) [0..<length xs]) = map ((!) xs) (filter (\<lambda>i. P (xs ! i)) [0..<length xs])"
    by (simp only: filter_map o_def)
  then show ?thesis by (simp add: map_nth)
qed

lemma bvalid_single:
  "ioUnitInPage b = 1 \<Longrightarrow> bvalid b p = (\<lambda>_. bget (the (pValidBits b)) p)"
  by (simp add: bvalid_def fun_eq_iff)

lemma berased_single:
  "ioUnitInPage b = 1 \<Longrightarrow> berased b p = (\<lambda>_. bget (the (pErasedBits b)) p)"
  by (simp add: berased_def fun_eq_iff)

lemma getValidPageCount_eq:
  assumes wf: "blk_wf b"
  shows "getValidPageCount b =
    Inr (length (filter (\<lambda>p. \<exists>i<ioUnitInPage b. bvalid b p i) [0..<pageCount b]))"
proof (cases "ioUnitInPage b = 1")
  case True
  with wf show ?thesis
    by (elim blk_wf_single) (simp_all add: getValidPageCount_def bvalid_single)
next
  case False
  have "filter (\<lambda>p. bitset_any (validBits b ! p)) [0..<length (validBits b)] =
      filter (\<lambda>p. \<exists>i<ioUnitInPage b. bvalid b p i) [0..<pageCount b]"
    using blk_wf_multi(1) [OF wf False] blk_wf_multi(4) [OF wf False] False
    by (auto intro!: filter_cong simp: bvalid_def)
  with False show ?thesis
    by (simp add: getValidPageCount_def foldl_count_if filter_nth_upt [of bitset_any])
qed

lemma getValidPageCount_0:
  assumes "blk_wf b"
  shows "getValidPageCount b = Inr 0 \<longleftrightarrow> (\<forall>p i. in_blk b p i \<longrightarrow> \<not> bvalid b p i)"
  unfolding getValidPageCount_eq [OF assms] by (auto simp: filter_empty_conv in_blk_def)

lemma getValidPageCountRaw_eq:
  assumes wf: "blk_wf b"
  shows "getValidPageCountRaw b =
    Inr (\<Sum>p\<leftarrow>[0..<pageCount b]. length (filter (bvalid b p) [0..<ioUnitInPage b]))"
proof (cases "ioUnitInPage b = 1")
  case True
  have "(\<Sum>p\<leftarrow>xs. length (filter (\<lambda>i. P p) [0..<1])) = length (filter P xs)" for P and xs :: "nat list"
    by (induction xs) auto
  with True wf show ?thesis
    by (elim blk_wf_single) (simp_all add: getValidPageCountRaw_def bvalid_single)
next
  case False
  have "map (\<lambda>p. bitset_count (validBits b ! p)) [0..<length (validBits b)] =
      map (\<lambda>p. length (filter (bvalid b p) [0..<ioUnitInPage b])) [0..<pageCount b]"
    using blk_wf_multi(1) [OF wf False] blk_wf_multi(4) [OF wf False] False
    by (auto simp: bvalid_def [abs_def])
  moreover have "map bitset_count (validBits b) =
      map (\<lambda>p. bitset_count (validBits b ! p)) [0..<length (validBits b)]"
    by (rule nth_equalityI) simp_all
  ultimately show ?thesis using False
    by (simp add: getValidPageCountRaw_def foldl_count)
qed

lemma getDirtyPageCount_eq:
  assumes wf: "blk_wf b"
  shows "getDirtyPageCount b =
    Inr (length (filter (\<lambda>p. \<exists>i<ioUnitInPage b. \<not> bvalid b p i \<and> \<not> berased b p i) [0..<pageCount b]))"
proof (cases "ioUnitInPage b = 1")
  case True
  with wf show ?thesis
    by (elim blk_wf_single)
       (auto simp: getDirtyPageCount_def bvalid_single berased_single
          intro!: arg_cong [where f = length] filter_cong)
next
  case False
  let ?P = "\<lambda>p. \<exists>i<ioUnitInPage b. \<not> bvalid b p i \<and> \<not> berased b p i"
  let ?f = "\<lambda>i ret. ebind (vec_at (validBits b) i) (\<lambda>v. ebind (vec_at (erasedBits b) i) (\<lambda>e.
          ebind (bitset_or v e) (\<lambda>u. ebind (bitset_not u) (\<lambda>n.
          Inr (if bitset_any n then ret + 1 else ret)))))"
  have step: "?f p r = Inr (if ?P p then r + 1 else r)" if "p < pageCount b" for p and r :: nat
    using that blk_wf_multi(1,2) [OF wf False] blk_wf_multi(4) [OF wf False that] False
      wf [THEN blk_wf_pos]
    by (auto simp: bvalid_def berased_def)
  have "efold ?f [0..<k] 0 = Inr (length (filter ?P [0..<k]))" if "k \<le> pageCount b" for k
    using that
  proof (induction k)
    case 0
    then show ?case by simp
  next
    case (Suc k)
    then show ?case using step [of k] by (simp add: efold_append)
  qed
  from this [of "pageCount b"] False show ?thesis by (simp add: getDirtyPageCount_def)
qed

section \<open>The interface of the page mapping\<close>

text \<open>
  The flash translation layer treats a block as a store of units, each holding at most one logical
  owner: \<open>view b (page, unit)\<close> is \<open>Some lpn\<close> where the unit is valid and holds \<open>lpn\<close>. It
  programs the next free page of a unit column, discards single units, and wipes the block. The
  laws say what each operation promises; the lemmas give the effect on the view.
\<close>

locale unit_store =
  fixes inv :: "'b \<Rightarrow> bool"
    and npages :: "'b \<Rightarrow> nat"
    and nunits :: "'b \<Rightarrow> nat"
    and valid :: "'b \<Rightarrow> nat \<Rightarrow> nat \<Rightarrow> bool"
    and owner :: "'b \<Rightarrow> nat \<Rightarrow> nat \<Rightarrow> 'l"
    and nextp :: "'b \<Rightarrow> nat \<Rightarrow> nat"
    and program :: "'b \<Rightarrow> nat \<Rightarrow> 'l \<Rightarrow> nat \<Rightarrow> 't \<Rightarrow> (bool \<times> 'b) res"
    and discard :: "'b \<Rightarrow> nat \<Rightarrow> nat \<Rightarrow> 'b res"
    and wipe :: "'b \<Rightarrow> 'b res"
    and view :: "'b \<Rightarrow> nat \<times> nat \<Rightarrow> 'l option"
  assumes view_eq: "view b (q, j) =
      (if q < npages b \<and> j < nunits b \<and> valid b q j then Some (owner b q j) else None)"
    and fresh: "inv b \<Longrightarrow> i < nunits b \<Longrightarrow> nextp b i \<le> q \<Longrightarrow> q < npages b \<Longrightarrow> \<not> valid b q i"
    and program_law: "inv b \<Longrightarrow> i < nunits b \<Longrightarrow> nextp b i < npages b \<Longrightarrow>
      \<exists>b'. program b (nextp b i) l i t = Inr (True, b') \<and> inv b' \<and>
        npages b' = npages b \<and> nunits b' = nunits b \<and>
        (\<forall>q<npages b. \<forall>j<nunits b.
           (valid b' q j \<longleftrightarrow> valid b q j \<or> (q, j) = (nextp b i, i)) \<and>
           owner b' q j = (if (q, j) = (nextp b i, i) then l else owner b q j)) \<and>
        (\<forall>j<nunits b. nextp b' j = (if j = i then nextp b i + 1 else nextp b j))"
    and discard_law: "inv b \<Longrightarrow> i < nunits b \<Longrightarrow> p < npages b \<Longrightarrow>
      \<exists>b'. discard b p i = Inr b' \<and> inv b' \<and> npages b' = npages b \<and> nunits b' = nunits b \<and>
        (\<forall>q<npages b. \<forall>j<nunits b. (valid b' q j \<longleftrightarrow> valid b q j \<and> (q, j) \<noteq> (p, i))) \<and>
        owner b' = owner b \<and> nextp b' = nextp b"
    and wipe_law: "inv b \<Longrightarrow>
      \<exists>b'. wipe b = Inr b' \<and> inv b' \<and> npages b' = npages b \<and> nunits b' = nunits b \<and>
        (\<forall>q<npages b. \<forall>j<nunits b. \<not> valid b' q j) \<and> (\<forall>j<nunits b. nextp b' j = 0)"
begin

lemma program_view:
  assumes "inv b" and "i < nunits b" and "nextp b i < npages b"
    and "program b (nextp b i) l i t = Inr (r, b')"
  shows "view b' = (view b)((nextp b i, i) \<mapsto> l)" and "view b (nextp b i, i) = None"
    and "inv b'" and "\<And>j. j < nunits b \<Longrightarrow> nextp b' j = (if j = i then nextp b i + 1 else nextp b j)"
proof -
  from program_law [OF assms(1-3), of l t] assms(4)
  have b': "inv b'" "npages b' = npages b" "nunits b' = nunits b"
    "\<And>q j. q < npages b \<Longrightarrow> j < nunits b \<Longrightarrow> valid b' q j \<longleftrightarrow> valid b q j \<or> (q, j) = (nextp b i, i)"
    "\<And>q j. q < npages b \<Longrightarrow> j < nunits b \<Longrightarrow>
       owner b' q j = (if (q, j) = (nextp b i, i) then l else owner b q j)"
    "\<And>j. j < nunits b \<Longrightarrow> nextp b' j = (if j = i then nextp b i + 1 else nextp b j)"
    by auto
  show "view b' = (view b)((nextp b i, i) \<mapsto> l)"
  proof (rule ext)
    fix x :: "nat \<times> nat"
    obtain q j where x: "x = (q, j)" by (cases x)
    show "view b' x = ((view b)((nextp b i, i) \<mapsto> l)) x"
      using b'(2-5) assms(2,3) unfolding x by (auto simp: view_eq)
  qed
  show "view b (nextp b i, i) = None" using fresh [OF assms(1,2) order_refl] by (simp add: view_eq)
  show "inv b'" and "\<And>j. j < nunits b \<Longrightarrow> nextp b' j = (if j = i then nextp b i + 1 else nextp b j)"
    using b' by auto
qed

lemma discard_view:
  assumes "inv b" and "i < nunits b" and "p < npages b" and "discard b p i = Inr b'"
  shows "view b' = (view b)((p, i) := None)"
proof (rule ext)
  obtain b1 where b1: "discard b p i = Inr b1" "npages b1 = npages b" "nunits b1 = nunits b"
    "owner b1 = owner b"
    "\<forall>q<npages b. \<forall>j<nunits b. (valid b1 q j \<longleftrightarrow> valid b q j \<and> (q, j) \<noteq> (p, i))"
    using discard_law [OF assms(1-3)] by blast
  have "b1 = b'" using b1(1) assms(4) by simp
  note b' = b1(2-5) [unfolded this]
  fix x :: "nat \<times> nat"
  obtain q j where x: "x = (q, j)" by (cases x)
  show "view b' x = ((view b)((p, i) := None)) x"
  proof (cases "q < npages b \<and> j < nunits b")
    case True
    with b'(4) have v: "valid b' q j \<longleftrightarrow> valid b q j \<and> (q, j) \<noteq> (p, i)" by blast
    show ?thesis
      unfolding x fun_upd_apply view_eq b'(1-3) v by (cases "(q, j) = (p, i)") auto
  next
    case False
    then show ?thesis unfolding x fun_upd_apply view_eq b'(1-3) by auto
  qed
qed

lemma wipe_view:
  assumes "inv b" and "wipe b = Inr b'"
  shows "view b' = Map.empty" and "inv b'"
proof -
  from wipe_law [OF assms(1)] assms(2)
  have b': "npages b' = npages b" "nunits b' = nunits b" "inv b'"
    "\<And>q j. q < npages b \<Longrightarrow> j < nunits b \<Longrightarrow> \<not> valid b' q j" by auto
  then show "view b' = Map.empty" by (auto simp: fun_eq_iff view_eq)
  show "inv b'" by (fact b'(3))
qed

lemma view_None_iff: "view b = Map.empty \<longleftrightarrow> (\<forall>q<npages b. \<forall>j<nunits b. \<not> valid b q j)"
  by (auto simp: fun_eq_iff view_eq)

end

definition blk_view :: "block \<Rightarrow> nat \<times> nat \<Rightarrow> u64 option" where
  "blk_view b = (\<lambda>(p, i). if in_blk b p i \<and> bvalid b p i then Some (blpn b p i) else None)"

interpretation blk: unit_store blk_inv pageCount ioUnitInPage bvalid blpn bnext
    block_write block_invalidate block_erase blk_view
proof (unfold_locales, goal_cases)
  case (1 b q j)
  then show ?case by (simp add: blk_view_def in_blk_def)
next
  case (2 b i q)
  then show ?case by (auto simp: blk_inv_def in_blk_def)
next
  case (3 b i l t)
  then have wf: "blk_wf b" and r: "in_blk b (bnext b i) i" and e: "berased b (bnext b i) i"
    by (auto simp: blk_inv_def in_blk_def)
  have w: "block_write b (bnext b i) l i t = Inr (True, blk_prog b (bnext b i) l i t)"
    using e by (simp add: block_write_eq [OF wf r])
  show ?case
    unfolding w using blk_inv_prog [OF 3(1) r] wf r 3
    by (auto simp: in_blk_def)
next
  case (4 b i p)
  then have "blk_wf b" and "in_blk b p i" by (auto simp: blk_inv_def in_blk_def)
  with 4 show ?case by (auto simp: in_blk_def)
next
  case (5 b)
  then have "blk_wf b" by (simp add: blk_inv_def)
  with blk_wf_pos [OF this] show ?case
    using blk_erased_obs(3) [of b 0] by (auto simp: in_blk_def)
qed

end
