(* ===== verification/Requests.thy ===== *)
theory Requests
  imports Bitset
begin

text \<open>
  \<^verbatim>\<open>src/util/def.hh\<close> and \<^verbatim>\<open>def.cc\<close>: the requests that travel down the stack, one type per
  layer, and their conversions. The host-interface request's completion callback and context
  pointer are not data of the lower layers and are left out. \<^verbatim>\<open>src/cpu/def.hh\<close>: the names under
  which the layers charge firmware execution time.
\<close>

record lpn_range =
  slpn :: u64
  nlp :: u64

definition LPNRange_empty :: lpn_range where
  "LPNRange_empty = \<lparr>slpn = 0, nlp = 0\<rparr>"

definition LPNRange_new :: "u64 \<Rightarrow> u64 \<Rightarrow> lpn_range" where
  "LPNRange_new s n = \<lparr>slpn = s, nlp = n\<rparr>"

record hil_request =
  hilReqID :: u64
  hilReqSubID :: u64
  hilOffset :: u64
  hilLength :: u64
  hilRange :: lpn_range
  hilFinishedAt :: tick

definition HILRequest_new :: hil_request where
  "HILRequest_new = \<lparr>hilReqID = 0, hilReqSubID = 0, hilOffset = 0, hilLength = 0,
     hilRange = LPNRange_empty, hilFinishedAt = 0\<rparr>"

definition hil_request_later :: "hil_request \<Rightarrow> hil_request \<Rightarrow> bool" where
  "hil_request_later a b = (hilFinishedAt a > hilFinishedAt b)"

record icl_request =
  iclReqID :: u64
  iclReqSubID :: u64
  iclOffset :: u64
  iclLength :: u64
  iclRange :: lpn_range

definition ICLRequest_new :: icl_request where
  "ICLRequest_new = \<lparr>iclReqID = 0, iclReqSubID = 0, iclOffset = 0, iclLength = 0,
     iclRange = LPNRange_empty\<rparr>"

definition ICLRequest_of_HIL :: "hil_request \<Rightarrow> icl_request" where
  "ICLRequest_of_HIL r = \<lparr>iclReqID = hilReqID r, iclReqSubID = hilReqSubID r,
     iclOffset = hilOffset r, iclLength = hilLength r, iclRange = hilRange r\<rparr>"

record ftl_request =
  ftlReqID :: u64
  ftlReqSubID :: u64
  ftlLpn :: u64
  ftlIoFlag :: bitset

definition FTLRequest_new :: "nat \<Rightarrow> ftl_request" where
  "FTLRequest_new iocount = \<lparr>ftlReqID = 0, ftlReqSubID = 0, ftlLpn = 0, ftlIoFlag = Bitset_new iocount\<rparr>"

definition FTLRequest_of_ICL :: "nat \<Rightarrow> icl_request \<Rightarrow> ftl_request res" where
  "FTLRequest_of_ICL iocount r =
     (if iocount = 0 then Inl (Undefined ''division by zero'')
      else
        ebind (bitset_set (Bitset_new iocount) (unat (slpn (iclRange r)) mod iocount)) (\<lambda>f.
        Inr \<lparr>ftlReqID = iclReqID r, ftlReqSubID = iclReqSubID r,
             ftlLpn = slpn (iclRange r) div of_nat iocount, ftlIoFlag = f\<rparr>))"

record pal_request =
  palReqID :: u64
  palReqSubID :: u64
  palBlockIndex :: nat
  palPageIndex :: nat
  palIoFlag :: bitset

definition PALRequest_new :: "nat \<Rightarrow> pal_request" where
  "PALRequest_new iocount = \<lparr>palReqID = 0, palReqSubID = 0, palBlockIndex = 0, palPageIndex = 0,
     palIoFlag = Bitset_new iocount\<rparr>"

definition PALRequest_of_FTL :: "ftl_request \<Rightarrow> pal_request" where
  "PALRequest_of_FTL r = \<lparr>palReqID = ftlReqID r, palReqSubID = ftlReqSubID r,
     palBlockIndex = 0, palPageIndex = 0, palIoFlag = Bitset_copy (ftlIoFlag r)\<rparr>"

datatype cpu_namespace =
    FTL | FTL__PAGE_MAPPING | ICL | ICL__GENERIC_CACHE | HIL | NVME__CONTROLLER | NVME__PRPLIST
  | NVME__SGL | NVME__SUBSYSTEM | NVME__NAMESPACE | NVME__OCSSD | UFS__DEVICE | SATA__DEVICE

datatype cpu_function =
    READ | WRITE | FLUSH | TRIM | FORMAT
  | READ_INTERNAL | WRITE_INTERNAL | ERASE_INTERNAL | TRIM_INTERNAL | SELECT_VICTIM_BLOCK
  | DO_GARBAGE_COLLECTION
  | CREATE_CQ | CREATE_SQ | COLLECT_SQ | HANDLE_REQUEST | WORK | COMPLETION
  | GET_PRPLIST_FROM_PRP | PARSE_SGL_SEGMENT | SUBMIT_COMMAND | CONVERT_UNIT | FORMAT_NVM
  | DATASET_MANAGEMENT | VECTOR_CHUNK_READ | VECTOR_CHUNK_WRITE | VECTOR_CHUNK_RESET
  | PHYSICAL_PAGE_READ | PHYSICAL_PAGE_WRITE | PHYSICAL_BLOCK_ERASE
  | PROCESS_QUERY_COMMAND | PROCESS_COMMAND | PRDT_READ | PRDT_WRITE
  | READ_DMA | READ_NCQ | READ_DMA_SETUP | READ_DMA_DONE
  | WRITE_DMA | WRITE_NCQ | WRITE_DMA_SETUP | WRITE_DMA_DONE

text \<open>
  A cache line address (LCA) becomes the LPN of its superpage and one flag, so the conversion
  loses nothing: LPN and flag index give the LCA back.
\<close>

lemma FTLRequest_of_ICL_flag:
  assumes "0 < n" and "n < 2 ^ 32"
  shows "\<exists>q. FTLRequest_of_ICL n r = Inr q \<and> bs_wf (ftlIoFlag q) \<and> dataSize (ftlIoFlag q) = n \<and>
    (\<forall>i<n. bget (ftlIoFlag q) i \<longleftrightarrow> i = unat (slpn (iclRange r)) mod n) \<and>
    unat (ftlLpn q) = unat (slpn (iclRange r)) div n"
proof -
  have n: "unat (of_nat n :: u64) = n"
    using assms(2) by (simp add: unat_of_nat)
  have "unat (slpn (iclRange r)) mod n < n" using assms(1) by simp
  with assms n show ?thesis
    by (simp add: FTLRequest_of_ICL_def unat_div)
qed

end
