(* ===== verification/Float32.thy ===== *)
theory Float32
  imports Complex_Main Prelude
begin

text \<open>
  The C++ type \<open>float\<close> on the target: IEEE 754 binary32 with round-to-nearest-even, every
  operation rounding to \<open>float\<close> (FLT_EVAL_METHOD 0). A finite value is the rational it denotes;
  the two zeros are identified, since the code only divides by quantities that are not negative.
  Conversion to an unsigned integer truncates and is undefined outside the target's range.
\<close>

datatype f32 = Fin rat | PInf | NInf | NaN

fun nbits :: "nat \<Rightarrow> nat" where
  "nbits n = (if n = 0 then 0 else Suc (nbits (n div 2)))"

declare nbits.simps [simp del]

definition pow2 :: "int \<Rightarrow> rat" where
  "pow2 e = (if 0 \<le> e then 2 ^ nat e else 1 / 2 ^ nat (- e))"

definition flog2 :: "rat \<Rightarrow> int" where
  "flog2 x =
     (let (n, d) = quotient_of x;
          e = int (nbits (nat n)) - int (nbits (nat d))
      in if pow2 e \<le> x then e else e - 1)"

definition round_half_even :: "rat \<Rightarrow> int" where
  "round_half_even x =
     (let f = \<lfloor>x\<rfloor>; r = x - of_int f
      in if r < 1 / 2 then f else if 1 / 2 < r then f + 1 else if even f then f else f + 1)"

definition f32_round :: "rat \<Rightarrow> f32" where
  "f32_round x =
     (if x = 0 then Fin 0
      else
        (let e = max (flog2 \<bar>x\<bar> - 23) (-149);
             y = of_int (round_half_even (\<bar>x\<bar> / pow2 e)) * pow2 e
         in if y < pow2 128 then Fin (sgn x * y) else if 0 < x then PInf else NInf))"

definition f32_of_nat :: "nat \<Rightarrow> f32" where
  "f32_of_nat n = f32_round (of_nat n)"

fun f32_neg :: "f32 \<Rightarrow> f32" where
  "f32_neg (Fin x) = Fin (- x)"
| "f32_neg PInf = NInf"
| "f32_neg NInf = PInf"
| "f32_neg NaN = NaN"

fun f32_add :: "f32 \<Rightarrow> f32 \<Rightarrow> f32" where
  "f32_add (Fin x) (Fin y) = f32_round (x + y)"
| "f32_add NaN _ = NaN"
| "f32_add _ NaN = NaN"
| "f32_add PInf NInf = NaN"
| "f32_add NInf PInf = NaN"
| "f32_add PInf _ = PInf"
| "f32_add NInf _ = NInf"
| "f32_add (Fin _) y = y"

definition f32_sub :: "f32 \<Rightarrow> f32 \<Rightarrow> f32" where
  "f32_sub x y = f32_add x (f32_neg y)"

definition f32_inf :: "rat \<Rightarrow> f32" where
  "f32_inf s = (if 0 < s then PInf else if s < 0 then NInf else NaN)"

fun f32_sgn :: "f32 \<Rightarrow> rat" where
  "f32_sgn (Fin x) = sgn x"
| "f32_sgn PInf = 1"
| "f32_sgn NInf = -1"
| "f32_sgn NaN = 0"

fun f32_mul :: "f32 \<Rightarrow> f32 \<Rightarrow> f32" where
  "f32_mul (Fin x) (Fin y) = f32_round (x * y)"
| "f32_mul x y = f32_inf (f32_sgn x * f32_sgn y)"

fun f32_div :: "f32 \<Rightarrow> f32 \<Rightarrow> f32" where
  "f32_div (Fin x) (Fin y) = (if y = 0 then f32_inf (sgn x) else f32_round (x / y))"
| "f32_div (Fin _) NaN = NaN"
| "f32_div (Fin _) _ = Fin 0"
| "f32_div NaN _ = NaN"
| "f32_div x (Fin y) = f32_inf (f32_sgn x * (if y < 0 then -1 else 1))"
| "f32_div _ _ = NaN"

fun f32_less :: "f32 \<Rightarrow> f32 \<Rightarrow> bool" where
  "f32_less (Fin x) (Fin y) = (x < y)"
| "f32_less NaN _ = False"
| "f32_less _ NaN = False"
| "f32_less NInf y = (y \<noteq> NInf)"
| "f32_less _ NInf = False"
| "f32_less PInf _ = False"
| "f32_less (Fin _) PInf = True"

definition f32_ge :: "f32 \<Rightarrow> f32 \<Rightarrow> bool" where
  "f32_ge x y = (x \<noteq> NaN \<and> y \<noteq> NaN \<and> \<not> f32_less x y)"

text \<open>Truncation to an unsigned integer of \<open>w\<close> bits.\<close>

fun f32_to_uint :: "nat \<Rightarrow> f32 \<Rightarrow> nat res" where
  "f32_to_uint w (Fin x) =
     (if -1 < x \<and> x < 2 ^ w then Inr (nat \<lfloor>x\<rfloor>)
      else Inl (Undefined ''float to unsigned out of range''))"
| "f32_to_uint w _ = Inl (Undefined ''float to unsigned out of range'')"

lemma f32_less_irrefl: "\<not> f32_less x x"
  by (cases x) auto

lemma f32_less_trans: "f32_less x y \<Longrightarrow> f32_less y z \<Longrightarrow> f32_less x z"
  by (cases x; cases y; cases z) auto

text \<open>Integers up to \<open>2\<^sup>2\<^sup>4\<close> are represented exactly.\<close>

lemma nbits_bounds: "0 < n \<Longrightarrow> 2 ^ (nbits n - 1) \<le> n \<and> n < 2 ^ nbits n \<and> 0 < nbits n"
proof (induction n rule: nbits.induct)
  case (1 n)
  show ?case
  proof (cases "n = 1")
    case True
    then show ?thesis by (simp add: nbits.simps)
  next
    case False
    with 1 have IH: "2 ^ (nbits (n div 2) - 1) \<le> n div 2" "n div 2 < 2 ^ nbits (n div 2)"
      "0 < nbits (n div 2)" by auto
    obtain k where k: "nbits (n div 2) = Suc k" using IH(3) by (cases "nbits (n div 2)") auto
    have s: "nbits n = Suc (Suc k)" using 1(2) k by (simp add: nbits.simps [of n])
    show ?thesis using IH(1,2) unfolding s k by simp linarith
  qed
qed

lemma nbits_le: "n < 2 ^ k \<Longrightarrow> nbits n \<le> k"
proof (cases "n = 0")
  case False
  then have "2 ^ (nbits n - 1) \<le> n" and "0 < nbits n" using nbits_bounds [of n] by auto
  moreover assume "n < 2 ^ k"
  ultimately have "(2::nat) ^ (nbits n - 1) < 2 ^ k" by linarith
  then have "nbits n - 1 < k" by simp
  with \<open>0 < nbits n\<close> show ?thesis by linarith
qed (simp add: nbits.simps)

lemma flog2_of_nat:
  assumes "0 < n"
  shows "flog2 (of_nat n) = int (nbits n) - 1"
proof -
  let ?x = "of_nat n :: rat" and ?k = "nbits n - 1"
  have k: "2 ^ ?k \<le> n" "0 < nbits n" using nbits_bounds [OF assms] by auto
  have "quotient_of ?x = (int n, 1)" by (metis of_int_of_nat_eq quotient_of_int Rat.of_int_def)
  moreover have "nbits 1 = 1" by (simp add: nbits.simps)
  ultimately have "flog2 ?x = (let e = int (nbits n) - 1 in if pow2 e \<le> ?x then e else e - 1)"
    by (simp add: flog2_def)
  moreover have "pow2 (int (nbits n) - 1) \<le> ?x"
  proof -
    have "nat (int (nbits n) - 1) = ?k" using k(2) by simp
    then have "pow2 (int (nbits n) - 1) = of_nat (2 ^ ?k)" using k(2) by (simp add: pow2_def)
    also have "\<dots> \<le> ?x" using k(1) by (simp only: of_nat_le_iff)
    finally show ?thesis .
  qed
  ultimately show ?thesis by (simp add: Let_def)
qed

text \<open>A natural number of at most \<open>k + 1\<close> bits is its own significand at that precision.\<close>

lemma significand_exact:
  assumes "0 < n" and "n < 2 ^ Suc k"
  defines "e \<equiv> flog2 (of_nat n) - int k"
  shows "- int k \<le> e" and "of_int (round_half_even (of_nat n / pow2 e)) * pow2 e = (of_nat n :: rat)"
proof -
  have "0 < nbits n" "nbits n \<le> Suc k" using nbits_bounds [OF assms(1)] nbits_le [OF assms(2)] by auto
  then have e: "- int k \<le> e" "e \<le> 0" by (auto simp: e_def flog2_of_nat [OF assms(1)])
  then show "- int k \<le> e" by simp
  define m where "m = int n * 2 ^ nat (- e)"
  have "of_nat n / pow2 e = (of_int m :: rat)" using e(2) by (cases "e = 0") (auto simp: pow2_def m_def)
  moreover have "of_int m * pow2 e = (of_nat n :: rat)" using e(2) by (cases "e = 0") (auto simp: pow2_def m_def)
  moreover have "round_half_even (of_int m) = m" by (simp add: round_half_even_def)
  ultimately show "of_int (round_half_even (of_nat n / pow2 e)) * pow2 e = (of_nat n :: rat)" by simp
qed

lemma f32_of_nat_exact:
  assumes "n < 2 ^ 24"
  shows "f32_of_nat n = Fin (of_nat n)"
proof (cases "n = 0")
  case True
  then show ?thesis by (simp add: f32_of_nat_def f32_round_def)
next
  case False
  have S: "-23 \<le> flog2 (of_nat n) - 23"
    "of_int (round_half_even (of_nat n / pow2 (flog2 (of_nat n) - 23))) * pow2 (flog2 (of_nat n) - 23) = (of_nat n :: rat)"
    using significand_exact [of n 23] assms False by simp_all
  then have e: "max (flog2 (of_nat n) - 23) (-149) = flog2 (of_nat n) - 23" by simp
  have "n < 2 ^ 128" using assms by (rule less_trans) simp
  then have "(of_nat n :: rat) < of_nat (2 ^ 128)" by (simp only: of_nat_less_iff)
  then have "(of_nat n :: rat) < pow2 128" by (simp add: pow2_def)
  with False show ?thesis by (simp add: f32_of_nat_def f32_round_def Let_def e S(2))
qed

end
