(* ===== verification/PageMapping.thy ===== *)
theory PageMapping
  imports Block Requests Float32
begin

text \<open>
  \<^verbatim>\<open>src/ftl/page_mapping.cc\<close>, \<^verbatim>\<open>page_mapping.hh\<close>, \<^verbatim>\<open>abstract_ftl.hh\<close> and the parameter record of
  \<^verbatim>\<open>ftl.hh\<close>: the page-level flash translation layer. This theory holds its state and operations;
  \<open>PageMappingInv\<close> and \<open>PageMappingGC\<close> hold the lemmas.

  The state is the record \<open>page_mapping\<close>, its fields the members of the class. The hash tables
  \<open>table\<close> and \<open>blocks\<close> are association lists (see \<open>Prelude\<close>). Everything below and beside the
  FTL is reached through the record \<open>ftl_env\<close>: the virtual methods of the PAL and the DRAM, the
  firmware latency, and what the C++ library leaves open (the outcome of \<open>std::sort\<close>, the numbers
  a random device draws, the value of an uninitialised variable). All of them act on an abstract
  hardware state \<open>'h\<close>. The record \<open>ftl_conf\<close> holds the configuration values the class reads.

  Ticks are 64-bit words and wrap as in the code; block, page and unit indices are natural numbers,
  since each is bounded by the length of a container; the counters of \<open>stat\<close> are unbounded.
\<close>

section \<open>State\<close>

record ftl_param =
  totalPhysicalBlocks :: nat
  totalLogicalBlocks :: nat
  pagesInBlock :: nat
  ftlPageSize :: nat
  unitsInPage :: nat
  pageCountToMaxPerf :: nat

datatype gc_mode = GC_MODE_0 | GC_MODE_1 | GC_MODE_invalid
datatype ftl_evict_policy =
  POLICY_GREEDY | POLICY_COST_BENEFIT | POLICY_RANDOM | POLICY_DCHOICE | POLICY_invalid
datatype filling_mode = FILLING_MODE_0 | FILLING_MODE_1 | FILLING_MODE_2

record ftl_conf =
  cfRandomTweak :: bool
  cfGcThreshold :: f32
  cfBadBlockThreshold :: nat
  cfFillingMode :: filling_mode
  cfFillRatio :: f32
  cfInvalidRatio :: f32
  cfGcMode :: gc_mode
  cfReclaimBlock :: nat
  cfReclaimThreshold :: f32
  cfEvictPolicy :: ftl_evict_policy
  cfDChoice :: nat

record 'h ftl_env =
  palRead :: "pal_request \<Rightarrow> tick \<Rightarrow> 'h \<Rightarrow> (tick \<times> 'h) res"
  palWrite :: "pal_request \<Rightarrow> tick \<Rightarrow> 'h \<Rightarrow> (tick \<times> 'h) res"
  palErase :: "pal_request \<Rightarrow> tick \<Rightarrow> 'h \<Rightarrow> (tick \<times> 'h) res"
  dramRead :: "nat \<Rightarrow> tick \<Rightarrow> 'h \<Rightarrow> (tick \<times> 'h) res"
  dramWrite :: "nat \<Rightarrow> tick \<Rightarrow> 'h \<Rightarrow> (tick \<times> 'h) res"
  cpuLatency :: "cpu_namespace \<Rightarrow> cpu_function \<Rightarrow> 'h \<Rightarrow> (tick \<times> 'h) res"
  stdSort :: "(nat \<times> f32) list \<Rightarrow> (nat \<times> f32) list"
  draws :: "'h \<Rightarrow> nat \<Rightarrow> nat \<Rightarrow> nat"
  uninitTick :: tick

record ftl_stat =
  gcCount :: nat
  reclaimedBlocks :: nat
  validSuperPageCopies :: nat
  validPageCopies :: nat

type_synonym phys = "nat \<times> nat"

record page_mapping =
  param :: ftl_param
  table :: "(u64 \<times> phys list) list"
  blocks :: "(nat \<times> block) list"
  freeBlocks :: "block list"
  nFreeBlocks :: nat
  lastFreeBlock :: "nat list"
  lastFreeBlockIOMap :: bitset
  lastFreeBlockIndex :: nat
  bReclaimMore :: bool
  bRandomTweak :: bool
  bitsetSize :: nat
  stat :: ftl_stat

section \<open>Free blocks\<close>

definition freeBlockRatio :: "page_mapping \<Rightarrow> f32" where
  "freeBlockRatio s =
     f32_div (f32_of_nat (nFreeBlocks s)) (f32_of_nat (totalPhysicalBlocks (param s)))"

definition convertBlockIdx :: "page_mapping \<Rightarrow> nat \<Rightarrow> nat" where
  "convertBlockIdx s blockIdx = blockIdx mod pageCountToMaxPerf (param s)"

text \<open>The first free block in the residue class of \<open>index\<close>, and the list without it.\<close>

fun take_first :: "('a \<Rightarrow> bool) \<Rightarrow> 'a list \<Rightarrow> ('a \<times> 'a list) option" where
  "take_first P [] = None"
| "take_first P (x # xs) =
     (if P x then Some (x, xs)
      else map_option (\<lambda>(y, ys). (y, x # ys)) (take_first P xs))"

definition getFreeBlock :: "page_mapping \<Rightarrow> nat \<Rightarrow> (nat \<times> page_mapping) res" where
  "getFreeBlock s index =
     (if index \<ge> pageCountToMaxPerf (param s) then Inl (Panic ''Index out of range'')
      else if 0 < nFreeBlocks s then
        (case (case take_first (\<lambda>b. getBlockIndex b mod pageCountToMaxPerf (param s) = index)
                      (freeBlocks s) of
                 Some r \<Rightarrow> Some r
               | None \<Rightarrow> take_first (\<lambda>_. True) (freeBlocks s)) of
           None \<Rightarrow> Inl (Undefined ''begin of an empty list'')
         | Some (b, rest) \<Rightarrow>
             if map_of (blocks s) (getBlockIndex b) \<noteq> None then Inl (Panic ''Corrupted'')
             else Inr (getBlockIndex b,
               s\<lparr>blocks := tbl_put (getBlockIndex b) b (blocks s), freeBlocks := rest,
                 nFreeBlocks := nFreeBlocks s - 1\<rparr>))
      else Inl (Panic ''No free block left''))"

definition advance_stream :: "page_mapping \<Rightarrow> bitset \<Rightarrow> page_mapping res" where
  "advance_stream s iomap =
     ebind (if \<not> bRandomTweak s then Inr True
            else ebind (bitset_and (lastFreeBlockIOMap s) iomap) (\<lambda>m. Inr (bitset_any m)))
       (\<lambda>nxt.
     if nxt then
       (let i = lastFreeBlockIndex s + 1;
            i = (if i = pageCountToMaxPerf (param s) then 0 else i)
        in Inr (s\<lparr>lastFreeBlockIndex := i,
                  lastFreeBlockIOMap := bitset_assign (lastFreeBlockIOMap s) iomap\<rparr>))
     else
       ebind (bitset_or (lastFreeBlockIOMap s) iomap) (\<lambda>m.
       Inr (s\<lparr>lastFreeBlockIOMap := m\<rparr>)))"

definition getLastFreeBlock :: "page_mapping \<Rightarrow> bitset \<Rightarrow> (nat \<times> page_mapping) res" where
  "getLastFreeBlock s iomap =
     ebind (advance_stream s iomap) (\<lambda>s.
     ebind (vec_at (lastFreeBlock s) (lastFreeBlockIndex s)) (\<lambda>k.
     case map_of (blocks s) k of
       None \<Rightarrow> Inl (Panic ''Corrupted'')
     | Some b \<Rightarrow>
         ebind (getNextWritePageIndex b) (\<lambda>n.
         if n = pagesInBlock (param s) then
           ebind (getFreeBlock s (lastFreeBlockIndex s)) (\<lambda>(k', s').
           Inr (k', s'\<lparr>lastFreeBlock := (lastFreeBlock s')[lastFreeBlockIndex s' := k'],
                      bReclaimMore := True\<rparr>))
         else Inr (k, s))))"

section \<open>Victim selection\<close>

definition calculateVictimWeight ::
  "page_mapping \<Rightarrow> ftl_evict_policy \<Rightarrow> tick \<Rightarrow> (nat \<times> f32) list res" where
  "calculateVictimWeight s policy tk =
     (if policy = POLICY_GREEDY \<or> policy = POLICY_RANDOM \<or> policy = POLICY_DCHOICE then
        efold (\<lambda>(k, b) weight.
          ebind (getNextWritePageIndex b) (\<lambda>n.
          if n \<noteq> pagesInBlock (param s) then Inr weight
          else ebind (getValidPageCountRaw b) (\<lambda>v. Inr (weight @ [(k, f32_of_nat v)]))))
          (blocks s) []
      else if policy = POLICY_COST_BENEFIT then
        efold (\<lambda>(k, b) weight.
          ebind (getNextWritePageIndex b) (\<lambda>n.
          if n \<noteq> pagesInBlock (param s) then Inr weight
          else
            ebind (getValidPageCountRaw b) (\<lambda>v.
            let temp = f32_div (f32_of_nat v) (f32_of_nat (pagesInBlock (param s)));
                age = f32_of_nat (unat (tk - getLastAccessedTime b))
            in Inr (weight @ [(k, f32_div temp (f32_mul (f32_sub (Fin 1) temp) age))]))))
          (blocks s) []
      else Inl (Panic ''Invalid evict policy''))"

text \<open>
  The rejection loop of the random policies: draw an index, take the entry there unless it was
  taken before. A taken entry is marked with the key \<open>2\<^sup>3\<^sup>2 - 1\<close>. The draws are the sequence
  \<open>d\<close>; \<open>None\<close> means that \<open>fuel\<close> draws were not enough.
\<close>

definition TAKEN :: nat where
  "TAKEN = 2 ^ 32 - 1"

fun random_select :: "nat \<Rightarrow> (nat \<Rightarrow> nat) \<Rightarrow> nat \<Rightarrow> (nat \<times> f32) list \<Rightarrow> (nat \<times> f32) list \<Rightarrow>
    (nat \<times> f32) list res option" where
  "random_select fuel d rng weight selected =
     (if length selected < rng then
        (case fuel of
           0 \<Rightarrow> None
         | Suc fuel' \<Rightarrow>
             (let i = d 0 in
              if i < length weight then
                if fst (weight ! i) < TAKEN then
                  random_select fuel' (\<lambda>n. d (Suc n)) rng
                    (weight[i := (TAKEN, snd (weight ! i))]) (selected @ [weight ! i])
                else random_select fuel' (\<lambda>n. d (Suc n)) rng weight selected
              else Some (Inl OutOfRange)))
      else Some (Inr selected))"

declare random_select.simps [simp del]

text \<open>
  \<open>draws env h m i\<close> is the \<open>i\<close>-th number drawn uniformly from \<open>0, \<dots>, m\<close>. (On an empty vector
  the code's bound wraps to \<open>2\<^sup>6\<^sup>4 - 1\<close>; every draw then fails at \<open>weight.at\<close>, as here.) The result
  is \<open>None\<close> when the loop does not end within \<open>fuel\<close> draws.
\<close>

definition selectVictimBlock ::
  "'h ftl_env \<Rightarrow> ftl_conf \<Rightarrow> nat \<Rightarrow> page_mapping \<Rightarrow> 'h \<Rightarrow> tick \<Rightarrow>
     (nat list \<times> page_mapping \<times> 'h \<times> tick) res option" where
  "selectVictimBlock env cf fuel s h tk =
     (case
        (case cfGcMode cf of
           GC_MODE_0 \<Rightarrow> Inr (cfReclaimBlock cf)
         | GC_MODE_1 \<Rightarrow>
             f32_to_uint 64 (f32_sub (f32_mul (f32_of_nat (totalPhysicalBlocks (param s)))
               (cfReclaimThreshold cf)) (f32_of_nat (nFreeBlocks s)))
         | GC_MODE_invalid \<Rightarrow> Inl (Panic ''Invalid GC mode'')) of
        Inl e \<Rightarrow> Some (Inl e)
      | Inr n0 \<Rightarrow>
          let nBlocks = (if bReclaimMore s then n0 + pageCountToMaxPerf (param s) else n0);
              s = s\<lparr>bReclaimMore := False\<rparr>
          in
          case calculateVictimWeight s (cfEvictPolicy cf) tk of
            Inl e \<Rightarrow> Some (Inl e)
          | Inr weight \<Rightarrow>
              map_option (\<lambda>r. ebind r (\<lambda>weight.
                let weight = stdSort env weight; n = min nBlocks (length weight)
                in ebind (cpuLatency env FTL__PAGE_MAPPING SELECT_VICTIM_BLOCK h) (\<lambda>(l, h).
                   Inr (map fst (take n weight), s, h, tk + l))))
                (if cfEvictPolicy cf = POLICY_RANDOM then
                   random_select fuel (draws env h (length weight - 1)) nBlocks weight []
                 else if cfEvictPolicy cf = POLICY_DCHOICE then
                   random_select fuel (draws env h (length weight - 1)) (cfDChoice cf * nBlocks) weight []
                 else Some (Inr weight)))"

section \<open>Erasing\<close>

text \<open>
  The erased block goes back to the free list behind the last block erased at most as often; the
  search runs from the end of the list. (Decrementing the end iterator of an empty list is
  undefined.) A block erased \<open>FTL_BAD_BLOCK_THRESHOLD\<close> times is retired.
\<close>

fun insert_behind :: "nat \<Rightarrow> block \<Rightarrow> block list \<Rightarrow> block list" where
  "insert_behind c b [] = [b]"
| "insert_behind c b (x # xs) =
     (if getEraseCount x \<le> c then b # x # xs else x # insert_behind c b xs)"

definition emplaceFree :: "block \<Rightarrow> block list \<Rightarrow> block list res" where
  "emplaceFree b fs =
     (if fs = [] then Inl (Undefined ''decrement of begin'')
      else Inr (rev (insert_behind (getEraseCount b) b (rev fs))))"

definition eraseInternal ::
  "'h ftl_env \<Rightarrow> ftl_conf \<Rightarrow> pal_request \<Rightarrow> page_mapping \<Rightarrow> 'h \<Rightarrow> tick \<Rightarrow>
     (page_mapping \<times> 'h \<times> tick) res" where
  "eraseInternal env cf req s h tk =
     (case map_of (blocks s) (palBlockIndex req) of
        None \<Rightarrow> Inl (Panic ''No such block'')
      | Some b \<Rightarrow>
          ebind (getValidPageCount b) (\<lambda>v.
          if v \<noteq> 0 then Inl (Panic ''There are valid pages in victim block'')
          else
            ebind (block_erase b) (\<lambda>b'.
            ebind (palErase env req tk h) (\<lambda>(tk, h).
            ebind (if getEraseCount b' < cfBadBlockThreshold cf then
                     ebind (emplaceFree b' (freeBlocks s)) (\<lambda>fs.
                     Inr (s\<lparr>freeBlocks := fs, nFreeBlocks := nFreeBlocks s + 1\<rparr>))
                   else Inr s) (\<lambda>s.
            let s = s\<lparr>blocks := tbl_del (palBlockIndex req) (blocks s)\<rparr>
            in ebind (cpuLatency env FTL__PAGE_MAPPING ERASE_INTERNAL h) (\<lambda>(l, h).
               Inr (s, h, tk + l)))))))"

section \<open>Garbage collection\<close>

text \<open>
  First the requests of all victims are collected while the mapping is moved, then they are sent
  to the PAL: reads, then writes, then erases. The collection keeps the state, the tick advanced
  by the DRAM, and the three request vectors.
\<close>

record 'h gc_state =
  gcMap :: page_mapping
  gcHw :: 'h
  gcTick :: tick
  gcReads :: "pal_request list"
  gcWrites :: "pal_request list"
  gcErases :: "pal_request list"

definition unit_flag :: "page_mapping \<Rightarrow> nat \<Rightarrow> bitset \<Rightarrow> bitset res" where
  "unit_flag s idx f =
     (if bRandomTweak s then bitset_set (bitset_reset_all f) idx else bitset_set_all f)"

definition put_mapping :: "page_mapping \<Rightarrow> u64 \<Rightarrow> nat \<Rightarrow> phys \<Rightarrow> page_mapping res" where
  "put_mapping s lpn idx m =
     (case map_of (table s) lpn of
        None \<Rightarrow> Inl (Undefined ''end iterator'')
      | Some ml \<Rightarrow>
          ebind (vec_at ml idx) (\<lambda>_. Inr (s\<lparr>table := tbl_put lpn (ml[idx := m]) (table s)\<rparr>)))"

definition find_block :: "page_mapping \<Rightarrow> nat \<Rightarrow> block res" where
  "find_block s k =
     (case map_of (blocks s) k of None \<Rightarrow> Inl (Undefined ''end iterator'') | Some b \<Rightarrow> Inr b)"

definition put_block :: "page_mapping \<Rightarrow> nat \<Rightarrow> block \<Rightarrow> page_mapping" where
  "put_block s k b = s\<lparr>blocks := tbl_put k b (blocks s)\<rparr>"

definition gc_unit ::
  "'h ftl_env \<Rightarrow> nat \<Rightarrow> nat \<Rightarrow> nat \<Rightarrow> u64 list \<Rightarrow> bitset \<Rightarrow> nat \<Rightarrow> 'h gc_state \<Rightarrow> 'h gc_state res" where
  "gc_unit env victim pageIndex newBlockIdx lpns flags idx g =
     ebind (bitset_test flags idx) (\<lambda>on.
     if \<not> on then Inr g
     else
       let s = gcMap g in
       ebind (find_block s victim) (\<lambda>vb.
       ebind (block_invalidate vb pageIndex idx) (\<lambda>vb'.
       let s = put_block s victim vb' in
       ebind (vec_at lpns idx) (\<lambda>lpn.
       case map_of (table s) lpn of
         None \<Rightarrow> Inl (Panic ''Invalid mapping table entry'')
       | Some ml \<Rightarrow>
           ebind (dramRead env (8 * unitsInPage (param s)) (gcTick g) (gcHw g)) (\<lambda>(tk, h).
           ebind (find_block s newBlockIdx) (\<lambda>fb.
           ebind (getNextWritePageIndexAt fb idx) (\<lambda>newPageIdx.
           ebind (put_mapping s lpn idx (newBlockIdx, newPageIdx)) (\<lambda>s.
           ebind (block_write fb newPageIdx lpn idx (uninitTick env)) (\<lambda>(_, fb').
           let s = put_block s newBlockIdx fb' in
           ebind (unit_flag s idx flags) (\<lambda>f.
           let w = (PALRequest_new (unitsInPage (param s)))\<lparr>palBlockIndex := newBlockIdx,
                      palPageIndex := newPageIdx, palIoFlag := f\<rparr>;
               st = stat s
           in Inr (g\<lparr>gcMap := s\<lparr>stat := st\<lparr>validPageCopies := validPageCopies st + 1\<rparr>\<rparr>,
                     gcHw := h, gcTick := tk, gcWrites := gcWrites g @ [w]\<rparr>)))))))))))"

definition gc_page ::
  "'h ftl_env \<Rightarrow> nat \<Rightarrow> nat \<Rightarrow> 'h gc_state \<Rightarrow> 'h gc_state res" where
  "gc_page env victim pageIndex g =
     (let s = gcMap g in
      ebind (find_block s victim) (\<lambda>vb.
      ebind (getPageInfo vb pageIndex (Bitset_new (unitsInPage (param s)))) (\<lambda>(v, lpns, flags).
      if \<not> v then Inr g
      else
        ebind (if \<not> bRandomTweak s then bitset_set_all flags else Inr flags) (\<lambda>flags.
        ebind (getLastFreeBlock s flags) (\<lambda>(newBlockIdx, s).
        let r = (PALRequest_new (unitsInPage (param s)))\<lparr>palBlockIndex := victim,
                   palPageIndex := pageIndex, palIoFlag := flags\<rparr>
        in
        ebind (efold (gc_unit env victim pageIndex newBlockIdx lpns flags) [0..<bitsetSize s]
                (g\<lparr>gcMap := s, gcReads := gcReads g @ [r]\<rparr>)) (\<lambda>g.
        let s = gcMap g; st = stat s
        in Inr (g\<lparr>gcMap :=
             s\<lparr>stat := st\<lparr>validSuperPageCopies := validSuperPageCopies st + 1\<rparr>\<rparr>\<rparr>)))))))"

definition gc_block :: "'h ftl_env \<Rightarrow> nat \<Rightarrow> 'h gc_state \<Rightarrow> 'h gc_state res" where
  "gc_block env victim g =
     (case map_of (blocks (gcMap g)) victim of
        None \<Rightarrow> Inl (Panic ''Invalid block'')
      | Some _ \<Rightarrow>
          ebind (efold (gc_page env victim) [0..<pagesInBlock (param (gcMap g))] g) (\<lambda>g.
          ebind (bitset_set_all (Bitset_new (unitsInPage (param (gcMap g))))) (\<lambda>f.
          let e = (PALRequest_new (unitsInPage (param (gcMap g))))\<lparr>palBlockIndex := victim,
                     palPageIndex := 0, palIoFlag := f\<rparr>
          in Inr (g\<lparr>gcErases := gcErases g @ [e]\<rparr>))))"

definition gc_collect ::
  "'h ftl_env \<Rightarrow> nat list \<Rightarrow> page_mapping \<Rightarrow> 'h \<Rightarrow> tick \<Rightarrow> 'h gc_state res" where
  "gc_collect env victims s h tk =
     efold (gc_block env) victims
       \<lparr>gcMap = s, gcHw = h, gcTick = tk, gcReads = [], gcWrites = [], gcErases = []\<rparr>"

definition send_all ::
  "(pal_request \<Rightarrow> tick \<Rightarrow> 'h \<Rightarrow> (tick \<times> 'h) res) \<Rightarrow> pal_request list \<Rightarrow> tick \<Rightarrow> tick \<Rightarrow> 'h \<Rightarrow>
     (tick \<times> 'h) res" where
  "send_all op reqs beginTick finishedAt h =
     efold (\<lambda>r (fin, h). ebind (op r beginTick h) (\<lambda>(t, h). Inr (max fin t, h))) reqs (finishedAt, h)"

definition erase_all ::
  "'h ftl_env \<Rightarrow> ftl_conf \<Rightarrow> pal_request list \<Rightarrow> tick \<Rightarrow> tick \<Rightarrow> page_mapping \<Rightarrow> 'h \<Rightarrow>
     (tick \<times> page_mapping \<times> 'h) res" where
  "erase_all env cf reqs beginTick finishedAt s h =
     efold (\<lambda>r (fin, s, h). ebind (eraseInternal env cf r s h beginTick)
         (\<lambda>(s, h, t). Inr (max fin t, s, h))) reqs (finishedAt, s, h)"

definition doGarbageCollection ::
  "'h ftl_env \<Rightarrow> ftl_conf \<Rightarrow> nat list \<Rightarrow> page_mapping \<Rightarrow> 'h \<Rightarrow> tick \<Rightarrow>
     (page_mapping \<times> 'h \<times> tick) res" where
  "doGarbageCollection env cf blocksToReclaim s h tk =
     (if blocksToReclaim = [] then Inr (s, h, tk)
      else
        ebind (gc_collect env blocksToReclaim s h tk) (\<lambda>g.
        ebind (send_all (palRead env) (gcReads g) (gcTick g) tk (gcHw g)) (\<lambda>(readFinishedAt, h).
        ebind (send_all (palWrite env) (gcWrites g) readFinishedAt tk h) (\<lambda>(writeFinishedAt, h).
        ebind (erase_all env cf (gcErases g) readFinishedAt tk (gcMap g) h)
          (\<lambda>(eraseFinishedAt, s, h).
        ebind (cpuLatency env FTL__PAGE_MAPPING DO_GARBAGE_COLLECTION h) (\<lambda>(l, h).
        Inr (s, h, max writeFinishedAt eraseFinishedAt + l)))))))"

section \<open>Reading\<close>

definition dram_lookup ::
  "'h ftl_env \<Rightarrow> page_mapping \<Rightarrow> bitset \<Rightarrow> tick \<Rightarrow> 'h \<Rightarrow> (tick \<times> 'h) res" where
  "dram_lookup env s ioFlag tk h =
     dramRead env (if bRandomTweak s then 8 * bitset_count ioFlag else 8) tk h"

definition in_range :: "page_mapping \<Rightarrow> phys \<Rightarrow> bool" where
  "in_range s m = (fst m < totalPhysicalBlocks (param s) \<and> snd m < pagesInBlock (param s))"

definition read_unit ::
  "'h ftl_env \<Rightarrow> ftl_request \<Rightarrow> phys list \<Rightarrow> tick \<Rightarrow> nat \<Rightarrow> page_mapping \<times> 'h \<times> tick \<Rightarrow>
     (page_mapping \<times> 'h \<times> tick) res" where
  "read_unit env req ml tk idx = (\<lambda>(s, h, finishedAt).
     ebind (bitset_test (ftlIoFlag req) idx) (\<lambda>on.
     if on \<or> \<not> bRandomTweak s then
       ebind (vec_at ml idx) (\<lambda>m.
       if in_range s m then
         ebind (unit_flag s idx (palIoFlag (PALRequest_of_FTL req))) (\<lambda>f.
         case map_of (blocks s) (fst m) of
           None \<Rightarrow> Inl (Panic ''Block is not in use'')
         | Some b \<Rightarrow>
             ebind (block_read b (snd m) idx tk) (\<lambda>(_, b').
             ebind (palRead env ((PALRequest_of_FTL req)\<lparr>palBlockIndex := fst m,
                      palPageIndex := snd m, palIoFlag := f\<rparr>) tk h) (\<lambda>(beginAt, h).
             Inr (put_block s (fst m) b', h, max finishedAt beginAt))))
       else Inr (s, h, finishedAt))
     else Inr (s, h, finishedAt)))"

definition readInternal ::
  "'h ftl_env \<Rightarrow> ftl_request \<Rightarrow> page_mapping \<Rightarrow> 'h \<Rightarrow> tick \<Rightarrow> (page_mapping \<times> 'h \<times> tick) res" where
  "readInternal env req s h tk =
     (case map_of (table s) (ftlLpn req) of
        None \<Rightarrow> Inr (s, h, tk)
      | Some ml \<Rightarrow>
          ebind (dram_lookup env s (ftlIoFlag req) tk h) (\<lambda>(t, h).
          ebind (efold (read_unit env req ml t) [0..<bitsetSize s] (s, h, tk))
            (\<lambda>(s, h, finishedAt).
          ebind (cpuLatency env FTL__PAGE_MAPPING READ_INTERNAL h) (\<lambda>(l, h).
          Inr (s, h, finishedAt + l)))))"

section \<open>Writing\<close>

text \<open>The old location of every unit to be written is invalidated.\<close>

definition invalidate_unit ::
  "ftl_request \<Rightarrow> phys list \<Rightarrow> nat \<Rightarrow> page_mapping \<Rightarrow> page_mapping res" where
  "invalidate_unit req ml idx s =
     ebind (bitset_test (ftlIoFlag req) idx) (\<lambda>on.
     if on \<or> \<not> bRandomTweak s then
       ebind (vec_at ml idx) (\<lambda>m.
       if in_range s m then
         ebind (find_block s (fst m)) (\<lambda>b.
         ebind (block_invalidate b (snd m) idx) (\<lambda>b'.
         Inr (put_block s (fst m) b')))
       else Inr s)
     else Inr s)"

definition write_prepare :: "ftl_request \<Rightarrow> page_mapping \<Rightarrow> page_mapping res" where
  "write_prepare req s =
     (case map_of (table s) (ftlLpn req) of
        Some ml \<Rightarrow> efold (invalidate_unit req ml) [0..<bitsetSize s] s
      | None \<Rightarrow>
          Inr (s\<lparr>table := tbl_put (ftlLpn req)
             (replicate (bitsetSize s) (totalPhysicalBlocks (param s), pagesInBlock (param s)))
             (table s)\<rparr>))"

definition write_unit ::
  "'h ftl_env \<Rightarrow> ftl_request \<Rightarrow> nat \<Rightarrow> bool \<Rightarrow> bool \<Rightarrow> tick \<Rightarrow> nat \<Rightarrow> page_mapping \<times> 'h \<times> tick \<Rightarrow>
     (page_mapping \<times> 'h \<times> tick) res" where
  "write_unit env req k readBeforeWrite sendToPAL tk idx = (\<lambda>(s, h, finishedAt).
     ebind (bitset_test (ftlIoFlag req) idx) (\<lambda>on.
     if on \<or> \<not> bRandomTweak s then
       ebind (find_block s k) (\<lambda>b.
       ebind (getNextWritePageIndexAt b idx) (\<lambda>pageIndex.
       ebind (case map_of (table s) (ftlLpn req) of
                None \<Rightarrow> Inl (Undefined ''end iterator'') | Some ml \<Rightarrow> vec_at ml idx) (\<lambda>old.
       ebind (block_write b pageIndex (ftlLpn req) idx tk) (\<lambda>(_, b').
       let s = put_block s k b' in
       ebind (if readBeforeWrite \<and> sendToPAL then
                ebind (bitset_flip_all (bitset_assign (palIoFlag (PALRequest_of_FTL req)) (ftlIoFlag req)))
                  (\<lambda>f. palRead env ((PALRequest_of_FTL req)\<lparr>palBlockIndex := fst old,
                           palPageIndex := snd old, palIoFlag := f\<rparr>) tk h)
              else Inr (tk, h)) (\<lambda>(beginAt, h).
       ebind (put_mapping s (ftlLpn req) idx (k, pageIndex)) (\<lambda>s.
       ebind (if sendToPAL then
                ebind (unit_flag s idx (palIoFlag (PALRequest_of_FTL req))) (\<lambda>f.
                palWrite env ((PALRequest_of_FTL req)\<lparr>palBlockIndex := k,
                     palPageIndex := pageIndex, palIoFlag := f\<rparr>) beginAt h)
              else Inr (beginAt, h)) (\<lambda>(beginAt, h).
       Inr (s, h, max finishedAt beginAt))))))))
     else Inr (s, h, finishedAt)))"

text \<open>
  Everything up to the garbage collection check: \<open>write_block\<close> writes the request to the block
  chosen for it.
\<close>

definition write_block ::
  "'h ftl_env \<Rightarrow> ftl_request \<Rightarrow> bool \<Rightarrow> nat \<Rightarrow> page_mapping \<Rightarrow> 'h \<Rightarrow> tick \<Rightarrow>
     (page_mapping \<times> 'h \<times> tick) res" where
  "write_block env req sendToPAL k s h tk =
     (if map_of (blocks s) k = None then Inl (Panic ''No such block'')
      else
       ebind (if sendToPAL then
                ebind (dram_lookup env s (ftlIoFlag req) tk h) (\<lambda>(t, h).
                dramWrite env (if bRandomTweak s then 8 * bitset_count (ftlIoFlag req) else 8) t h)
              else Inr (tk, h)) (\<lambda>(t, h).
       ebind (if \<not> bRandomTweak s
              then ebind (bitset_all (ftlIoFlag req)) (\<lambda>a. Inr (\<not> a)) else Inr False) (\<lambda>rbw.
       ebind (efold (write_unit env req k rbw sendToPAL t) [0..<bitsetSize s] (s, h, tk))
         (\<lambda>(s, h, finishedAt).
       if sendToPAL then
         ebind (cpuLatency env FTL__PAGE_MAPPING WRITE_INTERNAL h) (\<lambda>(l, h).
         Inr (s, h, finishedAt + l))
       else Inr (s, h, t)))))"

definition write_place ::
  "'h ftl_env \<Rightarrow> ftl_request \<Rightarrow> bool \<Rightarrow> page_mapping \<Rightarrow> 'h \<Rightarrow> tick \<Rightarrow>
     (page_mapping \<times> 'h \<times> tick) res" where
  "write_place env req sendToPAL s h tk =
     ebind (write_prepare req s) (\<lambda>s.
     ebind (getLastFreeBlock s (ftlIoFlag req)) (\<lambda>(k, s). write_block env req sendToPAL k s h tk))"

text \<open>
  The tick of the collection is a local copy: the request does not wait for it. The result is
  \<open>None\<close> only when the victim selection does not end.
\<close>

definition write_gc ::
  "'h ftl_env \<Rightarrow> ftl_conf \<Rightarrow> nat \<Rightarrow> bool \<Rightarrow> page_mapping \<Rightarrow> 'h \<Rightarrow> tick \<Rightarrow>
     (page_mapping \<times> 'h \<times> tick) res option" where
  "write_gc env cf fuel sendToPAL s h tk =
     (if f32_less (freeBlockRatio s) (cfGcThreshold cf) then
        if \<not> sendToPAL then Some (Inl (Panic ''ftl: GC triggered while in initialization''))
        else
          map_option (\<lambda>r. ebind r (\<lambda>(list, s, h, t).
            ebind (doGarbageCollection env cf list s h t) (\<lambda>(s, h, _).
            let st = stat s
            in Inr (s\<lparr>stat := st\<lparr>gcCount := gcCount st + 1,
                      reclaimedBlocks := reclaimedBlocks st + length list\<rparr>\<rparr>, h, tk))))
            (selectVictimBlock env cf fuel s h tk)
      else Some (Inr (s, h, tk)))"

definition writeInternal ::
  "'h ftl_env \<Rightarrow> ftl_conf \<Rightarrow> nat \<Rightarrow> ftl_request \<Rightarrow> bool \<Rightarrow> page_mapping \<Rightarrow> 'h \<Rightarrow> tick \<Rightarrow>
     (page_mapping \<times> 'h \<times> tick) res option" where
  "writeInternal env cf fuel req sendToPAL s h tk =
     (case write_place env req sendToPAL s h tk of
        Inl e \<Rightarrow> Some (Inl e)
      | Inr (s, h, tk) \<Rightarrow> write_gc env cf fuel sendToPAL s h tk)"

section \<open>Trimming\<close>

definition trim_unit :: "phys list \<Rightarrow> nat \<Rightarrow> page_mapping \<Rightarrow> page_mapping res" where
  "trim_unit ml idx s =
     ebind (vec_at ml idx) (\<lambda>m.
     case map_of (blocks s) (fst m) of
       None \<Rightarrow> Inl (Panic ''Block is not in use'')
     | Some b \<Rightarrow>
         ebind (block_invalidate b (snd m) idx) (\<lambda>b'.
         Inr (put_block s (fst m) b')))"

definition trimInternal ::
  "'h ftl_env \<Rightarrow> ftl_request \<Rightarrow> page_mapping \<Rightarrow> 'h \<Rightarrow> tick \<Rightarrow> (page_mapping \<times> 'h \<times> tick) res" where
  "trimInternal env req s h tk =
     (case map_of (table s) (ftlLpn req) of
        None \<Rightarrow> Inr (s, h, tk)
      | Some ml \<Rightarrow>
          ebind (dram_lookup env s (ftlIoFlag req) tk h) (\<lambda>(t, h).
          ebind (efold (trim_unit ml) [0..<bitsetSize s] s) (\<lambda>s.
          let s = s\<lparr>table := tbl_del (ftlLpn req) (table s)\<rparr>
          in ebind (cpuLatency env FTL__PAGE_MAPPING TRIM_INTERNAL h) (\<lambda>(l, h).
             Inr (s, h, t + l)))))"

section \<open>The public operations\<close>

definition pm_read ::
  "'h ftl_env \<Rightarrow> ftl_request \<Rightarrow> page_mapping \<Rightarrow> 'h \<Rightarrow> tick \<Rightarrow> (page_mapping \<times> 'h \<times> tick) res" where
  "pm_read env req s h tk =
     ebind (if 0 < bitset_count (ftlIoFlag req) then readInternal env req s h tk
            else Inr (s, h, tk)) (\<lambda>(s, h, tk).
     ebind (cpuLatency env FTL__PAGE_MAPPING READ h) (\<lambda>(l, h). Inr (s, h, tk + l)))"

definition pm_write ::
  "'h ftl_env \<Rightarrow> ftl_conf \<Rightarrow> nat \<Rightarrow> ftl_request \<Rightarrow> page_mapping \<Rightarrow> 'h \<Rightarrow> tick \<Rightarrow>
     (page_mapping \<times> 'h \<times> tick) res option" where
  "pm_write env cf fuel req s h tk =
     map_option (\<lambda>r. ebind r (\<lambda>(s, h, tk).
       ebind (cpuLatency env FTL__PAGE_MAPPING WRITE h) (\<lambda>(l, h). Inr (s, h, tk + l))))
       (if 0 < bitset_count (ftlIoFlag req) then writeInternal env cf fuel req True s h tk
        else Some (Inr (s, h, tk)))"

definition pm_trim ::
  "'h ftl_env \<Rightarrow> ftl_request \<Rightarrow> page_mapping \<Rightarrow> 'h \<Rightarrow> tick \<Rightarrow> (page_mapping \<times> 'h \<times> tick) res" where
  "pm_trim env req s h tk =
     ebind (trimInternal env req s h tk) (\<lambda>(s, h, tk).
     ebind (cpuLatency env FTL__PAGE_MAPPING TRIM h) (\<lambda>(l, h). Inr (s, h, tk + l)))"

text \<open>
  Format walks the table in its iteration order, trims what lies in the range (the end of the range
  is computed in 64 bits), and collects the blocks it touched, sorted and without duplicates.
\<close>

definition in_lpn_range :: "lpn_range \<Rightarrow> u64 \<Rightarrow> bool" where
  "in_lpn_range r lpn = (slpn r \<le> lpn \<and> lpn < slpn r + nlp r)"

definition format_unit ::
  "phys list \<Rightarrow> nat \<Rightarrow> page_mapping \<times> nat list \<Rightarrow> (page_mapping \<times> nat list) res" where
  "format_unit ml idx = (\<lambda>(s, list).
     ebind (trim_unit ml idx s) (\<lambda>s. ebind (vec_at ml idx) (\<lambda>m. Inr (s, list @ [fst m]))))"

definition format_entry ::
  "lpn_range \<Rightarrow> u64 \<times> phys list \<Rightarrow> page_mapping \<times> nat list \<Rightarrow> (page_mapping \<times> nat list) res" where
  "format_entry r = (\<lambda>(lpn, ml) (s, list).
     if in_lpn_range r lpn then
       ebind (efold (format_unit ml) [0..<bitsetSize s] (s, list)) (\<lambda>(s, list).
       Inr (s\<lparr>table := tbl_del lpn (table s)\<rparr>, list))
     else Inr (s, list))"

definition pm_format ::
  "'h ftl_env \<Rightarrow> ftl_conf \<Rightarrow> lpn_range \<Rightarrow> page_mapping \<Rightarrow> 'h \<Rightarrow> tick \<Rightarrow>
     (page_mapping \<times> 'h \<times> tick) res" where
  "pm_format env cf r s h tk =
     ebind (efold (format_entry r) (table s) (s, [])) (\<lambda>(s, list).
     ebind (doGarbageCollection env cf (remdups (sort list)) s h tk) (\<lambda>(s, h, tk).
     ebind (cpuLatency env FTL__PAGE_MAPPING FORMAT h) (\<lambda>(l, h). Inr (s, h, tk + l))))"

record ftl_status =
  totalLogicalPages :: nat
  mappedLogicalPages :: nat
  freePhysicalBlocks :: nat

definition pm_getStatus :: "page_mapping \<Rightarrow> u64 \<Rightarrow> u64 \<Rightarrow> ftl_status" where
  "pm_getStatus s lpnBegin lpnEnd =
     (let total = totalLogicalBlocks (param s) * pagesInBlock (param s) in
      \<lparr>totalLogicalPages = total,
       mappedLogicalPages =
         (if lpnBegin = 0 \<and> total \<le> unat lpnEnd then length (table s)
          else length (filter (\<lambda>lpn. map_of (table s) (word_of_nat lpn) \<noteq> None)
                        [unat lpnBegin..<unat lpnEnd])),
       freePhysicalBlocks = nFreeBlocks s\<rparr>)"

section \<open>Construction and warm-up\<close>

definition PageMapping_new :: "ftl_conf \<Rightarrow> ftl_param \<Rightarrow> page_mapping res" where
  "PageMapping_new cf p =
     ebind (emap (\<lambda>i. Block_new i (pagesInBlock p) (unitsInPage p)) [0..<totalPhysicalBlocks p])
       (\<lambda>fbs.
     let s0 = \<lparr>param = p, table = [], blocks = [], freeBlocks = fbs,
               nFreeBlocks = totalPhysicalBlocks p,
               lastFreeBlock = replicate (pageCountToMaxPerf p) 0,
               lastFreeBlockIOMap = Bitset_new (unitsInPage p), lastFreeBlockIndex = 0,
               bReclaimMore = False, bRandomTweak = cfRandomTweak cf,
               bitsetSize = (if cfRandomTweak cf then unitsInPage p else 1),
               stat = \<lparr>gcCount = 0, reclaimedBlocks = 0, validSuperPageCopies = 0,
                       validPageCopies = 0\<rparr>\<rparr>
     in efold (\<lambda>i s. ebind (getFreeBlock s i) (\<lambda>(k, s).
                Inr (s\<lparr>lastFreeBlock := (lastFreeBlock s)[i := k]\<rparr>)))
          [0..<pageCountToMaxPerf p] s0)"

text \<open>One warm-up write per LPN, each at tick 0 and without PAL traffic.\<close>

fun write_lpns ::
  "'h ftl_env \<Rightarrow> ftl_conf \<Rightarrow> nat \<Rightarrow> ftl_request \<Rightarrow> nat list \<Rightarrow> page_mapping \<Rightarrow> 'h \<Rightarrow>
     (page_mapping \<times> 'h) res option" where
  "write_lpns env cf fuel req [] s h = Some (Inr (s, h))"
| "write_lpns env cf fuel req (l # ls) s h =
     (case writeInternal env cf fuel (req\<lparr>ftlLpn := word_of_nat l\<rparr>) False s h 0 of
        None \<Rightarrow> None
      | Some (Inl e) \<Rightarrow> Some (Inl e)
      | Some (Inr (s, h, _)) \<Rightarrow> write_lpns env cf fuel req ls s h)"

text \<open>
  The number of pages to fill and to invalidate: \<open>float\<close> products truncated to 64 bits; the
  adjustment subtracts in 64 bits, wrapping when the fill target alone exceeds the limit. So do the
  bounds of the random distributions of the filling modes 1 and 2.
\<close>

definition warmup_counts :: "ftl_conf \<Rightarrow> ftl_param \<Rightarrow> (nat \<times> nat) res" where
  "warmup_counts cf p =
     (let total = totalLogicalBlocks p * pagesInBlock p in
      ebind (f32_to_uint 64 (f32_mul (f32_of_nat total) (cfFillRatio cf))) (\<lambda>warm.
      ebind (f32_to_uint 64 (f32_mul (f32_of_nat total) (cfInvalidRatio cf))) (\<lambda>inval.
      ebind (f32_to_uint 64
        (f32_mul (f32_of_nat (pagesInBlock p))
          (f32_sub (f32_mul (f32_of_nat (totalPhysicalBlocks p)) (f32_sub (Fin 1) (cfGcThreshold cf)))
             (f32_of_nat (pageCountToMaxPerf p))))) (\<lambda>maxPages.
      Inr (warm, if maxPages < (warm + inval) mod 2 ^ 64
                 then (maxPages + 2 ^ 64 - warm) mod 2 ^ 64 else inval)))))"

definition pm_initialize ::
  "'h ftl_env \<Rightarrow> ftl_conf \<Rightarrow> nat \<Rightarrow> page_mapping \<Rightarrow> 'h \<Rightarrow> (page_mapping \<times> 'h) res option" where
  "pm_initialize env cf fuel s h =
     (case ebind (warmup_counts cf (param s)) (\<lambda>c.
           ebind (bitset_set_all (Bitset_new (unitsInPage (param s)))) (\<lambda>f.
           Inr (c, (FTLRequest_new (unitsInPage (param s)))\<lparr>ftlIoFlag := f\<rparr>))) of
        Inl e \<Rightarrow> Some (Inl e)
      | Inr ((warm, inval), req) \<Rightarrow>
          let total = totalLogicalBlocks (param s) * pagesInBlock (param s) in
          case write_lpns env cf fuel req
                 (if cfFillingMode cf = FILLING_MODE_0 \<or> cfFillingMode cf = FILLING_MODE_1
                  then [0..<warm] else map (draws env h ((total + 2 ^ 64 - 1) mod 2 ^ 64)) [0..<warm]) s h of
            None \<Rightarrow> None
          | Some (Inl e) \<Rightarrow> Some (Inl e)
          | Some (Inr (s, h)) \<Rightarrow>
              write_lpns env cf fuel req
                (if cfFillingMode cf = FILLING_MODE_0 then [0..<inval]
                 else if cfFillingMode cf = FILLING_MODE_1
                 then map (draws env h ((warm + 2 ^ 64 - 1) mod 2 ^ 64)) [0..<inval]
                 else map (draws env h ((total + 2 ^ 64 - 1) mod 2 ^ 64)) [0..<inval]) s h)"

section \<open>Statistics\<close>

definition calculateTotalPages :: "page_mapping \<Rightarrow> (nat \<times> nat) res" where
  "calculateTotalPages s =
     efold (\<lambda>(_, b) (valid, invalid).
       ebind (getValidPageCount b) (\<lambda>v. ebind (getDirtyPageCount b) (\<lambda>d.
       Inr (valid + v, invalid + d)))) (blocks s) (0, 0)"

text \<open>
  The free list is sorted by erase count, so the backward scan may stop at the first zero.
  Sums and products are computed in 64 bits.
\<close>

definition calculateWearLeveling :: "page_mapping \<Rightarrow> f32" where
  "calculateWearLeveling s =
     (let counts = map (\<lambda>(_, b). getEraseCount b) (blocks s) @
                   takeWhile (\<lambda>c. c \<noteq> 0) (map getEraseCount (rev (freeBlocks s)));
          total = sum_list counts mod 2 ^ 64;
          squares = (\<Sum>c\<leftarrow>counts. c * c) mod 2 ^ 64
      in if squares = 0 then Fin (-1)
         else f32_div (f32_mul (f32_of_nat total) (f32_of_nat total))
                (f32_of_nat ((totalLogicalBlocks (param s) * squares) mod 2 ^ 64)))"

definition pm_getStatValues :: "page_mapping \<Rightarrow> nat list \<times> f32" where
  "pm_getStatValues s =
     ([gcCount (stat s), reclaimedBlocks (stat s), validSuperPageCopies (stat s),
       validPageCopies (stat s)], calculateWearLeveling s)"

definition pm_resetStatValues :: "page_mapping \<Rightarrow> page_mapping" where
  "pm_resetStatValues s =
     s\<lparr>stat := \<lparr>gcCount = 0, reclaimedBlocks = 0, validSuperPageCopies = 0, validPageCopies = 0\<rparr>\<rparr>"

end
