(* ===== verification/PageMappingInv.thy ===== *)
theory PageMappingInv
  imports PageMapping
begin

text \<open>
  The invariant of the page mapping and the effect of its elementary steps.

  Two views abstract the state: \<open>lview s (lpn, unit)\<close> is the physical page the table records for a
  logical unit, \<open>pview s (page, unit)\<close> the logical page whose data a valid physical unit holds. The
  central part of the invariant, \<open>linked\<close>, says that they are inverse to each other: no logical unit
  points to a stale or foreign physical unit, no valid physical unit is unreachable, and no two
  logical units share one.
\<close>

section \<open>Views\<close>

definition pview :: "page_mapping \<Rightarrow> phys \<times> nat \<Rightarrow> u64 option" where
  "pview s = (\<lambda>(m, i). case map_of (blocks s) (fst m) of None \<Rightarrow> None
                        | Some b \<Rightarrow> blk_view b (snd m, i))"

definition lview :: "page_mapping \<Rightarrow> u64 \<times> nat \<Rightarrow> phys option" where
  "lview s = (\<lambda>(l, i). case map_of (table s) l of None \<Rightarrow> None
                        | Some ml \<Rightarrow> if i < length ml \<and> in_range s (ml ! i) then Some (ml ! i) else None)"

definition linked :: "('l \<times> nat \<Rightarrow> 'p option) \<Rightarrow> ('p \<times> nat \<Rightarrow> 'l option) \<Rightarrow> bool" where
  "linked lv pv \<longleftrightarrow> (\<forall>l i m. lv (l, i) = Some m \<longleftrightarrow> pv (m, i) = Some l)"

lemma linkedD: "linked lv pv \<Longrightarrow> lv (l, i) = Some m \<longleftrightarrow> pv (m, i) = Some l"
  by (simp add: linked_def)

lemma linked_inj: "linked lv pv \<Longrightarrow> lv (l, i) = Some m \<Longrightarrow> lv (l', i) = Some m \<Longrightarrow> l = l'"
  by (simp add: linkedD)

lemma linked_bind:
  assumes "linked lv pv" and "lv (l, i) = None" and "pv (m, i) = None"
  shows "linked (lv((l, i) \<mapsto> m)) (pv((m, i) \<mapsto> l))"
  unfolding linked_def
proof (intro allI)
  fix l' j m'
  show "(lv((l, i) \<mapsto> m)) (l', j) = Some m' \<longleftrightarrow> (pv((m, i) \<mapsto> l)) (m', j) = Some l'"
    using linkedD [OF assms(1), of l' j m'] linkedD [OF assms(1), of l j m']
      linkedD [OF assms(1), of l' j m] assms(2,3) by auto
qed

lemma linked_unbind:
  assumes "linked lv pv" and "lv (l, i) = Some m"
  shows "linked (lv((l, i) := None)) (pv((m, i) := None))"
  unfolding linked_def
proof (intro allI)
  fix l' j m'
  show "(lv((l, i) := None)) (l', j) = Some m' \<longleftrightarrow> (pv((m, i) := None)) (m', j) = Some l'"
    using linkedD [OF assms(1), of l' j m'] linkedD [OF assms(1), of l j m']
      linkedD [OF assms(1), of l' j m] assms(2) by auto
qed

lemma linked_rebind:
  assumes "linked lv pv" and "lv (l, i) = Some m" and "pv (m', i) = None"
  shows "linked (lv((l, i) \<mapsto> m')) ((pv((m, i) := None))((m', i) \<mapsto> l))"
proof -
  have "m \<noteq> m'" using assms by (auto simp: linkedD)
  with assms have "linked (lv((l, i) := None, (l, i) \<mapsto> m')) ((pv((m, i) := None))((m', i) \<mapsto> l))"
    by (intro linked_bind linked_unbind) auto
  then show ?thesis by simp
qed

text \<open>
  During a write or a trim some logical units are in flight: their old physical units are already
  invalid while the table still names them. \<open>off D\<close> removes the units in flight from the view.
\<close>

definition off :: "'k set \<Rightarrow> ('k \<Rightarrow> 'v option) \<Rightarrow> 'k \<Rightarrow> 'v option" where
  "off D lv = (\<lambda>x. if x \<in> D then None else lv x)"

lemma off_empty [simp]: "off {} lv = lv"
  by (simp add: off_def)

lemma off_in [simp]: "x \<in> D \<Longrightarrow> off D lv x = None"
  by (simp add: off_def)

lemma off_notin [simp]: "x \<notin> D \<Longrightarrow> off D lv x = lv x"
  by (simp add: off_def)

lemma off_insert: "off (insert x D) lv = (off D lv)(x := None)"
  by (auto simp: off_def fun_eq_iff)

lemma off_put: "off (D - {x}) (lv(x \<mapsto> m)) = (off D lv)(x \<mapsto> m)"
  by (auto simp: off_def fun_eq_iff)

section \<open>Invariant\<close>

definition params_ok :: "page_mapping \<Rightarrow> bool" where
  "params_ok s \<longleftrightarrow> 0 < pagesInBlock (param s) \<and> 0 < unitsInPage (param s) \<and>
     0 < pageCountToMaxPerf (param s) \<and>
     bitsetSize s = (if bRandomTweak s then unitsInPage (param s) else 1)"

definition blk_ok :: "ftl_param \<Rightarrow> block \<Rightarrow> bool" where
  "blk_ok p b \<longleftrightarrow> blk_inv b \<and> pageCount b = pagesInBlock p \<and> ioUnitInPage b = unitsInPage p \<and>
     blkIdx b < totalPhysicalBlocks p"

definition fresh_block :: "block \<Rightarrow> bool" where
  "fresh_block b \<longleftrightarrow> blk_view b = Map.empty \<and> (\<forall>i<ioUnitInPage b. bnext b i = 0)"

definition blocks_ok :: "page_mapping \<Rightarrow> bool" where
  "blocks_ok s \<longleftrightarrow> distinct (map fst (blocks s)) \<and>
     (\<forall>k b. map_of (blocks s) k = Some b \<longrightarrow> blk_ok (param s) b \<and> blkIdx b = k)"

definition free_ok :: "page_mapping \<Rightarrow> bool" where
  "free_ok s \<longleftrightarrow> nFreeBlocks s = length (freeBlocks s) \<and> distinct (map blkIdx (freeBlocks s)) \<and>
     (\<forall>b\<in>set (freeBlocks s). blk_ok (param s) b \<and> fresh_block b \<and> map_of (blocks s) (blkIdx b) = None)"

definition unmapped :: "page_mapping \<Rightarrow> phys" where
  "unmapped s = (totalPhysicalBlocks (param s), pagesInBlock (param s))"

definition table_ok :: "page_mapping \<Rightarrow> bool" where
  "table_ok s \<longleftrightarrow> distinct (map fst (table s)) \<and>
     (\<forall>l ml. map_of (table s) l = Some ml \<longrightarrow>
        length ml = bitsetSize s \<and> (\<forall>m\<in>set ml. in_range s m \<or> m = unmapped s))"

definition stream_ok :: "page_mapping \<Rightarrow> bool" where
  "stream_ok s \<longleftrightarrow> length (lastFreeBlock s) = pageCountToMaxPerf (param s) \<and>
     lastFreeBlockIndex s < pageCountToMaxPerf (param s) \<and>
     bs_wf (lastFreeBlockIOMap s) \<and>
     (bRandomTweak s \<longrightarrow> dataSize (lastFreeBlockIOMap s) = unitsInPage (param s))"

definition pm_base :: "page_mapping \<Rightarrow> bool" where
  "pm_base s \<longleftrightarrow> params_ok s \<and> blocks_ok s \<and> free_ok s \<and> table_ok s \<and> stream_ok s"

definition pm_inv :: "page_mapping \<Rightarrow> bool" where
  "pm_inv s \<longleftrightarrow> pm_base s \<and> linked (lview s) (pview s)"

text \<open>The open blocks of all streams are in use.\<close>

definition open_ok :: "page_mapping \<Rightarrow> bool" where
  "open_ok s \<longleftrightarrow> (\<forall>k\<in>set (lastFreeBlock s). map_of (blocks s) k \<noteq> None)"

text \<open>What a sequence of steps leaves alone.\<close>

definition same_config :: "page_mapping \<Rightarrow> page_mapping \<Rightarrow> bool" where
  "same_config s s' \<longleftrightarrow> param s' = param s \<and> bRandomTweak s' = bRandomTweak s \<and>
     bitsetSize s' = bitsetSize s"

lemma same_config_refl [simp]: "same_config s s"
  by (simp add: same_config_def)

lemma same_config_trans: "same_config s t \<Longrightarrow> same_config t u \<Longrightarrow> same_config s u"
  by (simp add: same_config_def)

lemma in_range_config: "same_config s s' \<Longrightarrow> in_range s' = in_range s"
  by (simp add: same_config_def in_range_def fun_eq_iff)

lemma pm_base_block:
  assumes "pm_base s" and "map_of (blocks s) k = Some b"
  shows "blk_inv b" and "pageCount b = pagesInBlock (param s)"
    and "ioUnitInPage b = unitsInPage (param s)" and "blkIdx b = k"
    and "k < totalPhysicalBlocks (param s)"
proof -
  have "blk_ok (param s) b" and "blkIdx b = k"
    using assms by (auto simp: pm_base_def blocks_ok_def)
  then show "blk_inv b" and "pageCount b = pagesInBlock (param s)"
    and "ioUnitInPage b = unitsInPage (param s)" and "blkIdx b = k"
    and "k < totalPhysicalBlocks (param s)"
    by (auto simp: blk_ok_def)
qed

lemma pview_SomeD:
  assumes "pm_base s" and "pview s ((k, p), i) = Some l"
  obtains b where "map_of (blocks s) k = Some b" and "p < pagesInBlock (param s)"
    and "i < unitsInPage (param s)" and "bvalid b p i" and "blpn b p i = l"
proof -
  from assms(2) obtain b where b: "map_of (blocks s) k = Some b" "blk_view b (p, i) = Some l"
    by (auto simp: pview_def split: option.splits)
  with pm_base_block [OF assms(1) b(1)] show ?thesis
    by (intro that [of b]) (auto simp: blk_view_def in_blk_def split: if_splits)
qed

lemma pview_block:
  assumes "map_of (blocks s) k = Some b"
  shows "pview s ((k, p), i) = blk_view b (p, i)"
  using assms by (simp add: pview_def)

section \<open>Steps on blocks and table\<close>

lemma put_block_frame [simp]:
  "param (put_block s k b) = param s" "table (put_block s k b) = table s"
  "blocks (put_block s k b) = tbl_put k b (blocks s)"
  "freeBlocks (put_block s k b) = freeBlocks s" "nFreeBlocks (put_block s k b) = nFreeBlocks s"
  "lastFreeBlock (put_block s k b) = lastFreeBlock s"
  "lastFreeBlockIOMap (put_block s k b) = lastFreeBlockIOMap s"
  "lastFreeBlockIndex (put_block s k b) = lastFreeBlockIndex s"
  "bReclaimMore (put_block s k b) = bReclaimMore s"
  "bRandomTweak (put_block s k b) = bRandomTweak s" "bitsetSize (put_block s k b) = bitsetSize s"
  "stat (put_block s k b) = stat s"
  by (simp_all add: put_block_def)

lemma same_config_put_block [simp]: "same_config s (put_block s k b)"
  by (simp add: same_config_def)

lemma in_range_put_block [simp]: "in_range (put_block s k b) m = in_range s m"
  by (simp add: in_range_def)

lemma lview_put_block [simp]: "lview (put_block s k b) = lview s"
  unfolding lview_def by (simp only: in_range_put_block put_block_frame)

lemma open_ok_put_block [simp]: "open_ok s \<Longrightarrow> open_ok (put_block s k b)"
  by (auto simp: open_ok_def)

lemma pview_put_block:
  "pview (put_block s k b) = (\<lambda>(m, i). if fst m = k then blk_view b (snd m, i) else pview s (m, i))"
  by (auto simp: pview_def fun_eq_iff)

lemma pm_base_put_block:
  assumes "pm_base s" and "map_of (blocks s) k = Some b" and "blk_inv b'" and "same_shape b b'"
  shows "pm_base (put_block s k b')"
proof -
  note B = pm_base_block [OF assms(1,2)]
  have ok: "blk_ok (param s) b'" and idx: "blkIdx b' = k"
    using B assms(3,4) by (auto simp: blk_ok_def same_shape_def)
  have "blocks_ok (put_block s k b')"
    using assms(1) ok idx by (auto simp: pm_base_def blocks_ok_def)
  moreover have "free_ok (put_block s k b')"
    using assms(1,2) by (auto simp: pm_base_def free_ok_def)
  ultimately show ?thesis
    using assms(1) by (simp add: pm_base_def params_ok_def table_ok_def stream_ok_def unmapped_def)
qed

lemma find_block_Inr [simp]: "find_block s k = Inr b \<longleftrightarrow> map_of (blocks s) k = Some b"
  by (simp add: find_block_def split: option.splits)

text \<open>Invalidating a unit removes it from the physical view.\<close>

lemma step_invalidate:
  assumes base: "pm_base s" and b: "map_of (blocks s) k = Some b"
    and p: "p < pagesInBlock (param s)" and i: "i < unitsInPage (param s)"
  obtains b' where "block_invalidate b p i = Inr b'" and "pm_base (put_block s k b')"
    and "pview (put_block s k b') = (pview s)(((k, p), i) := None)"
    and "bnext b' = bnext b"
proof -
  note B = pm_base_block [OF base b]
  have r: "in_blk b p i" and wf: "blk_wf b" using B p i by (auto simp: in_blk_def blk_inv_def)
  let ?b' = "blk_inval b p i"
  have inv: "block_invalidate b p i = Inr ?b'" using wf r by simp
  have view: "blk_view ?b' = (blk_view b)((p, i) := None)"
    by (rule blk.discard_view [OF B(1) _ _ inv]) (use r in \<open>auto simp: in_blk_def\<close>)
  show ?thesis
  proof (rule that [OF inv])
    show "pm_base (put_block s k ?b')"
      by (rule pm_base_put_block [OF base b]) (use B(1) r in \<open>auto simp: same_shape_def\<close>)
    show "pview (put_block s k ?b') = (pview s)(((k, p), i) := None)"
      by (auto simp: pview_put_block fun_eq_iff view pview_block [OF b])
    show "bnext ?b' = bnext b" by simp
  qed
qed

text \<open>Programming the next page of a unit column adds it to the physical view.\<close>

lemma step_program:
  assumes base: "pm_base s" and b: "map_of (blocks s) k = Some b"
    and i: "i < unitsInPage (param s)" and n: "bnext b i < pagesInBlock (param s)"
  obtains b' where "block_write b (bnext b i) l i t = Inr (True, b')" and "pm_base (put_block s k b')"
    and "pview (put_block s k b') = (pview s)(((k, bnext b i), i) \<mapsto> l)"
    and "pview s ((k, bnext b i), i) = None"
    and "\<And>j. j < unitsInPage (param s) \<Longrightarrow> bnext b' j = (if j = i then bnext b i + 1 else bnext b j)"
proof -
  note B = pm_base_block [OF base b]
  have r: "in_blk b (bnext b i) i" using B i n by (simp add: in_blk_def)
  have iu: "i < ioUnitInPage b" and np: "bnext b i < pageCount b" using B i n by auto
  obtain b' where w: "block_write b (bnext b i) l i t = Inr (True, b')"
    and shape: "pageCount b' = pageCount b" "ioUnitInPage b' = ioUnitInPage b"
    using blk.program_law [OF B(1) iu np, of l t] by blast
  have b': "b' = blk_prog b (bnext b i) l i t"
    using w r B(1) by (auto simp: block_write_eq blk_inv_def split: if_splits)
  note V = blk.program_view [OF B(1) iu np w]
  show ?thesis
  proof (rule that [OF w])
    show "pm_base (put_block s k b')"
      by (rule pm_base_put_block [OF base b V(3)]) (simp add: same_shape_def b')
    show "pview (put_block s k b') = (pview s)(((k, bnext b i), i) \<mapsto> l)"
      by (auto simp: pview_put_block fun_eq_iff V(1) pview_block [OF b])
    show "pview s ((k, bnext b i), i) = None" using V(2) by (simp add: pview_block [OF b])
    show "\<And>j. j < unitsInPage (param s) \<Longrightarrow> bnext b' j = (if j = i then bnext b i + 1 else bnext b j)"
      using V(4) B(3) by simp
  qed
qed

text \<open>Updating one entry of the table.\<close>

lemma step_put_mapping:
  assumes base: "pm_base s" and ml: "map_of (table s) l = Some ml" and i: "i < bitsetSize s"
    and m: "in_range s m"
  obtains s' where "put_mapping s l i m = Inr s'" and "pm_base s'"
    and "lview s' = (lview s)((l, i) \<mapsto> m)" and "pview s' = pview s"
    and "s' = s\<lparr>table := tbl_put l (ml[i := m]) (table s)\<rparr>"
proof -
  have len: "length ml = bitsetSize s" using base ml by (auto simp: pm_base_def table_ok_def)
  let ?s' = "s\<lparr>table := tbl_put l (ml[i := m]) (table s)\<rparr>"
  have "put_mapping s l i m = Inr ?s'" using ml i len by (simp add: put_mapping_def)
  moreover have "table_ok ?s'"
  proof -
    have r: "in_range ?s' = in_range s" and u: "unmapped ?s' = unmapped s"
      by (auto simp: fun_eq_iff in_range_def unmapped_def)
    have T: "table_ok s" using base by (simp add: pm_base_def)
    then have "\<forall>m'\<in>set ml. in_range s m' \<or> m' = unmapped s" using ml by (simp add: table_ok_def)
    then have "\<forall>m'\<in>set (ml[i := m]). in_range s m' \<or> m' = unmapped s"
      using m set_update_subset_insert [of ml i m] by blast
    with T len show ?thesis unfolding table_ok_def r u by simp
  qed
  then have "pm_base ?s'"
    using base by (simp add: pm_base_def params_ok_def blocks_ok_def free_ok_def stream_ok_def)
  moreover have "lview ?s' = (lview s)((l, i) \<mapsto> m)"
  proof (rule ext)
    fix x :: "u64 \<times> nat"
    obtain l' j where x: "x = (l', j)" by (cases x)
    show "lview ?s' x = ((lview s)((l, i) \<mapsto> m)) x"
      using ml i len m unfolding x
      by (cases "j = i") (auto simp: lview_def in_range_def nth_list_update split: option.splits)
  qed
  moreover have "pview ?s' = pview s" by (simp add: pview_def)
  ultimately show ?thesis by (rule that) simp
qed

end
