(* ===== verification/PageMappingWrite.thy ===== *)
theory PageMappingWrite
  imports PageMappingInv
begin

text \<open>
  The host operations of \<^verbatim>\<open>src/ftl/page_mapping.cc\<close> and the invariant: taking free blocks,
  placing a write, reading and trimming. Every lemma has the form \<open>outcome F run Q\<close>, with the
  faults \<open>F\<close> those of the environment, so that it says both what a successful run leaves behind
  and that the code adds no fault of its own.
\<close>

section \<open>Requests, environment, frame\<close>

definition env_faults :: "(fault \<Rightarrow> bool) \<Rightarrow> 'h ftl_env \<Rightarrow> bool" where
  "env_faults F env \<longleftrightarrow>
     (\<forall>r t h. outcome F (palRead env r t h) (\<lambda>_. True) \<and> outcome F (palWrite env r t h) (\<lambda>_. True) \<and>
        outcome F (palErase env r t h) (\<lambda>_. True)) \<and>
     (\<forall>n t h. outcome F (dramRead env n t h) (\<lambda>_. True) \<and> outcome F (dramWrite env n t h) (\<lambda>_. True)) \<and>
     (\<forall>ns f h. outcome F (cpuLatency env ns f h) (\<lambda>_. True))"

lemma outcome_weak: "outcome F r (\<lambda>_. True) \<Longrightarrow> (\<And>t h. Q (t, h)) \<Longrightarrow> outcome F r Q"
  by (cases r) auto

lemma env_outcome [outcome]:
  assumes "env_faults F env"
  shows "(\<And>t h. Q (t, h)) \<Longrightarrow> outcome F (palRead env r tk hw) Q"
    and "(\<And>t h. Q (t, h)) \<Longrightarrow> outcome F (palWrite env r tk hw) Q"
    and "(\<And>t h. Q (t, h)) \<Longrightarrow> outcome F (palErase env r tk hw) Q"
    and "(\<And>t h. Q (t, h)) \<Longrightarrow> outcome F (dramRead env n tk hw) Q"
    and "(\<And>t h. Q (t, h)) \<Longrightarrow> outcome F (dramWrite env n tk hw) Q"
    and "(\<And>t h. Q (t, h)) \<Longrightarrow> outcome F (cpuLatency env ns f hw) Q"
  using assms unfolding env_faults_def by (simp_all add: outcome_weak)

lemma dram_lookup_outcome [outcome]:
  "env_faults F env \<Longrightarrow> (\<And>t h. Q (t, h)) \<Longrightarrow> outcome F (dram_lookup env s f tk hw) Q"
  unfolding dram_lookup_def by (rule env_outcome(4))

definition req_ok :: "page_mapping \<Rightarrow> ftl_request \<Rightarrow> bool" where
  "req_ok s req \<longleftrightarrow> bs_wf (ftlIoFlag req) \<and>
     (bRandomTweak s \<longrightarrow> dataSize (ftlIoFlag req) = unitsInPage (param s))"

definition touched :: "page_mapping \<Rightarrow> ftl_request \<Rightarrow> nat \<Rightarrow> bool" where
  "touched s req j \<longleftrightarrow> j < bitsetSize s \<and> (bget (ftlIoFlag req) j \<or> \<not> bRandomTweak s)"

definition frame :: "page_mapping \<Rightarrow> page_mapping \<Rightarrow> bool" where
  "frame s s' \<longleftrightarrow> same_config s s' \<and> freeBlocks s' = freeBlocks s \<and> nFreeBlocks s' = nFreeBlocks s \<and>
     lastFreeBlock s' = lastFreeBlock s \<and> lastFreeBlockIOMap s' = lastFreeBlockIOMap s \<and>
     lastFreeBlockIndex s' = lastFreeBlockIndex s \<and> bReclaimMore s' = bReclaimMore s \<and>
     (\<forall>k. map_of (blocks s') k = None \<longleftrightarrow> map_of (blocks s) k = None)"

lemma frame_refl [simp]: "frame s s"
  by (simp add: frame_def)

lemma frame_trans: "frame s t \<Longrightarrow> frame t u \<Longrightarrow> frame s u"
  by (auto simp: frame_def elim: same_config_trans)

lemma frame_config: "frame s s' \<Longrightarrow> same_config s s'"
  by (simp add: frame_def)

lemma frame_put_block: "map_of (blocks s) k \<noteq> None \<Longrightarrow> frame s (put_block s k b)"
  by (auto simp: frame_def)

lemma config_units:
  assumes "same_config s s'"
  shows "req_ok s' req = req_ok s req" and "touched s' req j = touched s req j"
    and "bitsetSize s' = bitsetSize s" and "bRandomTweak s' = bRandomTweak s"
    and "param s' = param s" and "unmapped s' = unmapped s"
  using assms by (simp_all add: same_config_def req_ok_def touched_def unmapped_def)

lemma bitset_units:
  assumes "pm_base s"
  shows "bitsetSize s \<le> unitsInPage (param s)" and "0 < bitsetSize s"
    and "0 < unitsInPage (param s)" and "0 < pagesInBlock (param s)"
  using assms by (auto simp: pm_base_def params_ok_def)

definition same_next :: "page_mapping \<Rightarrow> page_mapping \<Rightarrow> bool" where
  "same_next s s' \<longleftrightarrow> (\<forall>k. map_option bnext (map_of (blocks s') k) = map_option bnext (map_of (blocks s) k))"

lemma same_next_refl [simp]: "same_next s s"
  by (simp add: same_next_def)

lemma same_next_trans: "same_next s t \<Longrightarrow> same_next t u \<Longrightarrow> same_next s u"
  by (simp add: same_next_def)

lemma same_next_put_block:
  "map_of (blocks s) k = Some b \<Longrightarrow> bnext b' = bnext b \<Longrightarrow> same_next s (put_block s k b')"
  by (simp add: same_next_def)

lemma req_flags:
  assumes "pm_base s" and "req_ok s req" and "idx < bitsetSize s"
  shows "bs_wf (ftlIoFlag req)" and "idx < dataSize (ftlIoFlag req)"
  using assms by (auto simp: req_ok_def pm_base_def params_ok_def bs_wf_def [of "ftlIoFlag req"]
      split: if_splits)

text \<open>A state some of whose logical units are in flight.\<close>

definition inflight :: "(u64 \<times> nat) set \<Rightarrow> page_mapping \<Rightarrow> bool" where
  "inflight D s \<longleftrightarrow> pm_base s \<and> linked (off D (lview s)) (pview s)"

lemma inflight_empty: "inflight {} s \<longleftrightarrow> pm_inv s"
  by (simp add: inflight_def pm_inv_def)

lemma inflight_None:
  assumes "inflight D s" and "lview s x = None"
  shows "inflight (insert x D) s"
proof -
  have "off (insert x D) (lview s) = off D (lview s)"
    using assms(2) by (auto simp: off_def fun_eq_iff)
  with assms(1) show ?thesis by (simp add: inflight_def)
qed

section \<open>Invalidating the old location\<close>

lemma invalidate_unit_outcome:
  assumes inf: "inflight D s" and ml: "map_of (table s) (ftlLpn req) = Some ml"
    and idx: "idx < bitsetSize s" and req: "req_ok s req" and notin: "(ftlLpn req, idx) \<notin> D"
  shows "outcome F (invalidate_unit req ml idx s)
    (\<lambda>s'. inflight (if touched s req idx then insert (ftlLpn req, idx) D else D) s' \<and> frame s s' \<and>
       table s' = table s \<and> lview s' = lview s \<and> same_next s s')"
proof -
  let ?l = "ftlLpn req"
  have base: "pm_base s" using inf by (simp add: inflight_def)
  have len: "length ml = bitsetSize s" using base ml by (auto simp: pm_base_def table_ok_def)
  have test: "bitset_test (ftlIoFlag req) idx = Inr (bget (ftlIoFlag req) idx)"
    using req_flags [OF base req idx] by simp
  have lv: "lview s (?l, idx) = (if in_range s (ml ! idx) then Some (ml ! idx) else None)"
    using ml idx len by (simp add: lview_def)
  show ?thesis
  proof (cases "touched s req idx \<and> in_range s (ml ! idx)")
    case False
    moreover from this have "invalidate_unit req ml idx s = Inr s"
      using idx len by (auto simp: invalidate_unit_def test touched_def)
    ultimately show ?thesis using inf lv by (auto intro: inflight_None)
  next
    case True
    obtain k p where m: "ml ! idx = (k, p)" by (cases "ml ! idx")
    have "lview s (?l, idx) = Some (k, p)" using lv True m by simp
    with notin have lk: "off D (lview s) (?l, idx) = Some (k, p)" by simp
    then have "pview s ((k, p), idx) = Some ?l"
      using inf linkedD [of "off D (lview s)" "pview s"] by (simp add: inflight_def)
    then obtain b where b: "map_of (blocks s) k = Some b" and p: "p < pagesInBlock (param s)"
      and i: "idx < unitsInPage (param s)" by (rule pview_SomeD [OF base])
    obtain b' where b': "block_invalidate b p idx = Inr b'" "pm_base (put_block s k b')"
      "pview (put_block s k b') = (pview s)(((k, p), idx) := None)" "bnext b' = bnext b"
      using step_invalidate [OF base b p i] by metis
    have run: "invalidate_unit req ml idx s = Inr (put_block s k b')"
      using True idx len b b'(1) m by (auto simp: invalidate_unit_def test touched_def find_block_def)
    have "inflight (insert (?l, idx) D) (put_block s k b')"
      using linked_unbind [where lv = "off D (lview s)" and l = ?l and i = idx and m = "(k, p)"]
        lk inf b'(2,3) by (simp add: inflight_def off_insert)
    with run True b b'(4) show ?thesis by (simp add: frame_put_block same_next_put_block)
  qed
qed

definition units_of :: "page_mapping \<Rightarrow> ftl_request \<Rightarrow> nat \<Rightarrow> nat \<Rightarrow> (u64 \<times> nat) set" where
  "units_of s req a b = {ftlLpn req} \<times> {j. touched s req j \<and> a \<le> j \<and> j < b}"

lemma units_of_Suc_up:
  "a \<le> b \<Longrightarrow> units_of s req a (Suc b) =
     (if touched s req b then insert (ftlLpn req, b) (units_of s req a b) else units_of s req a b)"
  by (auto simp: units_of_def less_Suc_eq)

lemma units_of_Suc_down:
  "a < b \<Longrightarrow> units_of s req (Suc a) b = units_of s req a b - {(ftlLpn req, a)}"
  by (auto simp: units_of_def Suc_le_eq order_less_le)

lemma units_of_empty [simp]: "units_of s req a a = {}"
  by (auto simp: units_of_def)

lemma units_of_config: "same_config s s' \<Longrightarrow> units_of s' req a b = units_of s req a b"
  by (simp add: units_of_def config_units)

lemma write_prepare_outcome:
  assumes inv: "pm_inv s" and req: "req_ok s req"
  shows "outcome F (write_prepare req s)
    (\<lambda>s'. inflight (units_of s req 0 (bitsetSize s)) s' \<and> frame s s' \<and> lview s' = lview s \<and>
       same_next s s' \<and> (\<exists>ml. map_of (table s') (ftlLpn req) = Some ml \<and> length ml = bitsetSize s) \<and>
       (\<forall>l. l \<noteq> ftlLpn req \<longrightarrow> map_of (table s') l = map_of (table s) l))"
proof -
  have base: "pm_base s" and lk: "linked (lview s) (pview s)" using inv by (simp_all add: pm_inv_def)
  show ?thesis
  proof (cases "map_of (table s) (ftlLpn req)")
    case None
    let ?s = "s\<lparr>table := tbl_put (ftlLpn req)
      (replicate (bitsetSize s) (totalPhysicalBlocks (param s), pagesInBlock (param s))) (table s)\<rparr>"
    have cfg: "same_config s ?s" by (simp add: same_config_def)
    note r = in_range_config [OF cfg] and u = config_units(6) [OF cfg]
    have lv: "lview ?s = lview s"
    proof (rule ext)
      fix x :: "u64 \<times> nat"
      obtain l j where x: "x = (l, j)" by (cases x)
      show "lview ?s x = lview s x"
        using None unfolding x lview_def r
        by (cases "l = ftlLpn req") (auto simp: in_range_def)
    qed
    have pv: "pview ?s = pview s" by (simp add: pview_def)
    have "table_ok ?s" using base unfolding pm_base_def table_ok_def r u
      by (auto simp: unmapped_def)
    then have b: "pm_base ?s"
      using base by (simp add: pm_base_def params_ok_def blocks_ok_def free_ok_def stream_ok_def)
    have "lview s (ftlLpn req, j) = None" for j using None by (simp add: lview_def)
    then have "off (units_of s req 0 (bitsetSize s)) (lview s) = lview s"
      by (auto simp: off_def units_of_def fun_eq_iff)
    with b lk have "inflight (units_of s req 0 (bitsetSize s)) ?s"
      by (simp add: inflight_def lv pv)
    with None cfg lv show ?thesis by (auto simp: write_prepare_def frame_def same_next_def)
  next
    case (Some ml)
    then have len: "length ml = bitsetSize s" using base by (auto simp: pm_base_def table_ok_def)
    let ?P = "\<lambda>i s'. inflight (units_of s req 0 i) s' \<and> frame s s' \<and> table s' = table s \<and>
      lview s' = lview s \<and> same_next s s'"
    have "outcome F (efold (invalidate_unit req ml) [0..<bitsetSize s] s) (?P (bitsetSize s))"
    proof (rule outcome_loop)
      show "?P 0 s" using inv by (simp add: inflight_empty)
    next
      fix i t
      assume i: "i < bitsetSize s" and P: "?P i t"
      note C = config_units [OF frame_config, of s t]
      have "outcome F (invalidate_unit req ml i t)
        (\<lambda>s'. inflight (if touched t req i then insert (ftlLpn req, i) (units_of s req 0 i)
                        else units_of s req 0 i) s' \<and> frame t s' \<and> table s' = table t \<and> lview s' = lview t \<and>
                        same_next t s')"
        by (rule invalidate_unit_outcome) (use P Some i req C in \<open>auto simp: units_of_def\<close>)
      then show "outcome F (invalidate_unit req ml i t) (?P (Suc i))"
        by (rule outcome_mono) (use P C in \<open>auto simp: units_of_Suc_up elim: frame_trans same_next_trans\<close>)
    qed simp
    then have "outcome F (write_prepare req s) (?P (bitsetSize s))"
      by (simp add: write_prepare_def Some)
    then show ?thesis by (rule outcome_mono) (use Some len in auto)
  qed
qed

section \<open>Taking a free block\<close>

lemma take_first_Some:
  "take_first P xs = Some (x, ys) \<Longrightarrow>
     \<exists>as bs. xs = as @ x # bs \<and> ys = as @ bs \<and> P x \<and> (\<forall>a\<in>set as. \<not> P a)"
proof (induction xs arbitrary: ys)
  case Nil
  then show ?case by simp
next
  case (Cons z zs)
  show ?case
  proof (cases "P z")
    case True
    with Cons.prems have "z = x" "zs = ys" "P x" by auto
    then show ?thesis by (intro exI [of _ "[]"] exI [of _ ys]) simp
  next
    case False
    with Cons.prems obtain ws where w: "take_first P zs = Some (x, ws)" "ys = z # ws"
      by (auto split: if_splits)
    from Cons.IH [OF w(1)] obtain as bs where
      "zs = as @ x # bs" "ws = as @ bs" "P x" "\<forall>a\<in>set as. \<not> P a" by blast
    with w(2) False show ?thesis by (intro exI [of _ "z # as"] exI [of _ bs]) auto
  qed
qed

lemma take_first_None: "take_first P xs = None \<longleftrightarrow> (\<forall>x\<in>set xs. \<not> P x)"
  by (induction xs) auto

lemma pview_fresh:
  assumes "map_of (blocks s) k = None" and "fresh_block b"
    and "map_of (blocks s') = (map_of (blocks s))(k \<mapsto> b)"
  shows "pview s' = pview s"
  using assms by (auto simp: pview_def fun_eq_iff fresh_block_def split: option.splits)

lemma getFreeBlock_ok:
  assumes base: "pm_base s" and i: "i < pageCountToMaxPerf (param s)" and n: "0 < nFreeBlocks s"
  obtains k b s' where "getFreeBlock s i = Inr (k, s')" and "pm_base s'"
    and "map_of (blocks s) k = None" and "map_of (blocks s') = (map_of (blocks s))(k \<mapsto> b)"
    and "b \<in> set (freeBlocks s)" and "blkIdx b = k" and "fresh_block b" and "pview s' = pview s"
    and "s' = s\<lparr>blocks := tbl_put k b (blocks s), freeBlocks := freeBlocks s', nFreeBlocks := nFreeBlocks s - 1\<rparr>"
    and "k mod pageCountToMaxPerf (param s) = i \<or>
         (\<forall>c\<in>set (freeBlocks s). blkIdx c mod pageCountToMaxPerf (param s) \<noteq> i)"
proof -
  let ?P = "\<lambda>b. getBlockIndex b mod pageCountToMaxPerf (param s) = i"
  let ?sel = "case take_first ?P (freeBlocks s) of
                 Some r \<Rightarrow> Some r | None \<Rightarrow> take_first (\<lambda>_. True) (freeBlocks s)"
  have free: "free_ok s" using base by (simp add: pm_base_def)
  have "freeBlocks s \<noteq> []" using free n by (auto simp: free_ok_def)
  then obtain b rest where sel: "?sel = Some (b, rest)"
    by (cases "freeBlocks s"; cases "take_first ?P (freeBlocks s)") auto
  then obtain as bs where split: "freeBlocks s = as @ b # bs" "rest = as @ bs"
    and choice: "?P b \<or> (\<forall>c\<in>set (freeBlocks s). \<not> ?P c)"
    by (cases "take_first ?P (freeBlocks s)")
       (auto dest!: take_first_Some [of ?P] take_first_Some [of "\<lambda>_. True"] simp: take_first_None)
  let ?k = "getBlockIndex b"
  let ?s = "s\<lparr>blocks := tbl_put ?k b (blocks s), freeBlocks := rest, nFreeBlocks := nFreeBlocks s - 1\<rparr>"
  have b: "blk_ok (param s) b" "fresh_block b" "map_of (blocks s) ?k = None"
    using free split by (auto simp: free_ok_def getBlockIndex_def)
  have run: "getFreeBlock s i = Inr (?k, ?s)"
    using i n sel b(3) by (simp add: getFreeBlock_def)
  have dom: "map_of (blocks ?s) = (map_of (blocks s))(?k \<mapsto> b)" by simp
  have "blocks_ok ?s" using base b(1) by (auto simp: pm_base_def blocks_ok_def getBlockIndex_def)
  moreover have "free_ok ?s"
  proof -
    have "distinct (map blkIdx (as @ b # bs))" using free split by (simp add: free_ok_def)
    then have "\<forall>c\<in>set (as @ bs). blkIdx c \<noteq> blkIdx b" and "distinct (map blkIdx (as @ bs))"
      by (auto dest: sym)
    with free split show ?thesis by (auto simp: free_ok_def getBlockIndex_def)
  qed
  ultimately have "pm_base ?s"
    using base by (simp add: pm_base_def params_ok_def table_ok_def stream_ok_def in_range_def unmapped_def)
  from run this b(3) dom _ _ b(2) pview_fresh [OF b(3) b(2) dom] _ _ show ?thesis
    by (rule that) (use split choice in \<open>auto simp: getBlockIndex_def\<close>)
qed

section \<open>The open block of a write stream\<close>

lemma advance_stream_ok:
  assumes base: "pm_base s" and m: "bs_wf m" "bRandomTweak s \<longrightarrow> dataSize m = unitsInPage (param s)"
  obtains i f where "advance_stream s m = Inr (s\<lparr>lastFreeBlockIndex := i, lastFreeBlockIOMap := f\<rparr>)"
    and "pm_base (s\<lparr>lastFreeBlockIndex := i, lastFreeBlockIOMap := f\<rparr>)"
    and "i < pageCountToMaxPerf (param s)"
proof -
  have so: "stream_ok s" and pos: "0 < unitsInPage (param s)"
    using base bitset_units by (auto simp: pm_base_def)
  have keep: "pm_base (s\<lparr>lastFreeBlockIndex := i, lastFreeBlockIOMap := f\<rparr>)"
    if "i < pageCountToMaxPerf (param s)" "bs_wf f" "bRandomTweak s \<longrightarrow> dataSize f = unitsInPage (param s)" for i f
    using base that by (simp add: pm_base_def params_ok_def blocks_ok_def free_ok_def table_ok_def
        stream_ok_def in_range_def unmapped_def)
  have set_only: "s\<lparr>lastFreeBlockIOMap := f\<rparr> = s\<lparr>lastFreeBlockIndex := lastFreeBlockIndex s, lastFreeBlockIOMap := f\<rparr>"
    for f by simp
  let ?nxt = "if \<not> bRandomTweak s then True
              else \<exists>i<unitsInPage (param s). bget (lastFreeBlockIOMap s) i \<and> bget m i"
  have nxt: "(if \<not> bRandomTweak s then Inr True
              else ebind (bitset_and (lastFreeBlockIOMap s) m) (\<lambda>m. Inr (bitset_any m))) = Inr ?nxt"
    using so m pos by (auto simp: stream_ok_def)
  let ?j = "if lastFreeBlockIndex s + 1 = pageCountToMaxPerf (param s) then 0 else lastFreeBlockIndex s + 1"
  have j: "?j < pageCountToMaxPerf (param s)" using so base by (auto simp: stream_ok_def pm_base_def params_ok_def)
  show ?thesis
  proof (cases ?nxt)
    case True
    then have "advance_stream s m = Inr (s\<lparr>lastFreeBlockIndex := ?j, lastFreeBlockIOMap := m\<rparr>)"
      unfolding advance_stream_def nxt using m by (simp add: Let_def)
    then show ?thesis using keep [OF j m] j by (rule that)
  next
    case False
    let ?f = "bs_of (\<lambda>i. bget (lastFreeBlockIOMap s) i \<or> bget m i) (unitsInPage (param s))"
    have "advance_stream s m = Inr (s\<lparr>lastFreeBlockIndex := lastFreeBlockIndex s, lastFreeBlockIOMap := ?f\<rparr>)"
      unfolding advance_stream_def nxt using False so m by (simp add: stream_ok_def split: if_splits)
    then show ?thesis
      by (rule that) (use so pos keep [of "lastFreeBlockIndex s" ?f] in \<open>simp_all add: stream_ok_def\<close>)
  qed
qed

lemma views_cong:
  "table s' = table s \<Longrightarrow> param s' = param s \<Longrightarrow> lview s' = lview s"
  "blocks s' = blocks s \<Longrightarrow> pview s' = pview s"
proof -
  assume "table s' = table s" and "param s' = param s"
  moreover from this(2) have "in_range s' = in_range s" by (simp add: in_range_def fun_eq_iff)
  ultimately show "lview s' = lview s" by (simp only: lview_def)
next
  assume "blocks s' = blocks s"
  then show "pview s' = pview s" by (simp add: pview_def)
qed

lemma stream_views:
  "lview (s\<lparr>lastFreeBlockIndex := i, lastFreeBlockIOMap := f\<rparr>) = lview s"
  "pview (s\<lparr>lastFreeBlockIndex := i, lastFreeBlockIOMap := f\<rparr>) = pview s"
  by (rule views_cong; simp)+

text \<open>
  The block returned is in use and every unit column of it has a free page; the mapping and the
  contents of the flash are as before.
\<close>

lemma getLastFreeBlock_outcome:
  assumes inf: "inflight D s" and m: "bs_wf m" "bRandomTweak s \<longrightarrow> dataSize m = unitsInPage (param s)"
    and opn: "open_ok s \<or> F (Panic ''Corrupted'')"
    and free: "0 < nFreeBlocks s \<or> F (Panic ''No free block left'')"
  shows "outcome F (getLastFreeBlock s m) (\<lambda>(k, s').
    inflight D s' \<and> same_config s s' \<and> lview s' = lview s \<and> pview s' = pview s \<and> table s' = table s \<and>
    (\<exists>b. map_of (blocks s') k = Some b \<and> (\<forall>i<unitsInPage (param s). bnext b i < pagesInBlock (param s))) \<and>
    (\<forall>k'. map_of (blocks s) k' \<noteq> None \<longrightarrow> map_of (blocks s') k' = map_of (blocks s) k') \<and>
    lastFreeBlock s' ! lastFreeBlockIndex s' = k \<and>
    set (lastFreeBlock s') \<subseteq> insert k (set (lastFreeBlock s)) \<and> (open_ok s \<longrightarrow> open_ok s') \<and>
    nFreeBlocks s \<le> nFreeBlocks s' + 1)"
proof -
  have base: "pm_base s" using inf by (simp add: inflight_def)
  obtain i f where adv: "advance_stream s m = Inr (s\<lparr>lastFreeBlockIndex := i, lastFreeBlockIOMap := f\<rparr>)"
    and bt: "pm_base (s\<lparr>lastFreeBlockIndex := i, lastFreeBlockIOMap := f\<rparr>)"
    and i: "i < pageCountToMaxPerf (param s)"
    by (rule advance_stream_ok [OF base m])
  let ?t = "s\<lparr>lastFreeBlockIndex := i, lastFreeBlockIOMap := f\<rparr>"
  have len: "length (lastFreeBlock s) = pageCountToMaxPerf (param s)"
    using base by (simp add: pm_base_def stream_ok_def)
  have inft: "inflight D ?t" using inf bt by (simp add: inflight_def stream_views)
  let ?k = "lastFreeBlock s ! i"
  show ?thesis
  proof (cases "map_of (blocks s) ?k")
    case None
    then have "\<not> open_ok s" using i len by (auto simp: open_ok_def)
    then show ?thesis using opn None i len by (simp add: getLastFreeBlock_def adv)
  next
    case (Some b)
    note B = pm_base_block [OF base Some]
    obtain n where nw: "getNextWritePageIndex b = Inr n"
      and n: "\<forall>j<unitsInPage (param s). bnext b j \<le> n" "n = 0 \<or> (\<exists>j<unitsInPage (param s). n = bnext b j)"
      using getNextWritePageIndex_Max [of b] B(1,3) by (auto simp: blk_inv_def)
    have le: "\<forall>j<unitsInPage (param s). bnext b j \<le> pagesInBlock (param s)"
      using B by (auto simp: blk_inv_def)
    show ?thesis
    proof (cases "n = pagesInBlock (param s)")
      case False
      then have "\<forall>j<unitsInPage (param s). bnext b j < pagesInBlock (param s)"
        using le n bitset_units(4) [OF base] by (metis le_antisym le_trans nat_less_le)
      moreover have "getLastFreeBlock s m = Inr (?k, ?t)"
        using False Some i len by (simp add: getLastFreeBlock_def adv nw)
      ultimately show ?thesis
        using inft Some by (auto simp: stream_views same_config_def open_ok_def)
    next
      case full: True
      show ?thesis
      proof (cases "0 < nFreeBlocks s")
        case False
        then show ?thesis using free full Some i len
          by (simp add: getLastFreeBlock_def adv nw getFreeBlock_def)
      next
        case True
        obtain k b' s' where g: "getFreeBlock ?t i = Inr (k, s')" and bs': "pm_base s'"
          and new: "map_of (blocks ?t) k = None" "map_of (blocks s') = (map_of (blocks ?t))(k \<mapsto> b')"
          and fr: "b' \<in> set (freeBlocks ?t)" "fresh_block b'" and pv: "pview s' = pview ?t"
          and s': "s' = ?t\<lparr>blocks := tbl_put k b' (blocks ?t), freeBlocks := freeBlocks s',
                         nFreeBlocks := nFreeBlocks ?t - 1\<rparr>"
          by (rule getFreeBlock_ok [OF bt, of i]) (use i True in auto)
        let ?u = "s'\<lparr>lastFreeBlock := (lastFreeBlock s')[lastFreeBlockIndex s' := k], bReclaimMore := True\<rparr>"
        have eqs: "param s' = param s" "table s' = table s" "lastFreeBlock s' = lastFreeBlock s"
          "lastFreeBlockIndex s' = i" "nFreeBlocks s' = nFreeBlocks s - 1"
          "bRandomTweak s' = bRandomTweak s" "bitsetSize s' = bitsetSize s"
          by (subst s', simp)+
        have run: "getLastFreeBlock s m = Inr (k, ?u)"
          using full Some i len g by (simp add: getLastFreeBlock_def adv nw)
        have lu: "lview ?u = lview s"
          by (rule views_cong(1)) (use eqs in simp_all)
        have pu: "pview ?u = pview s"
          using pv by (simp add: pview_def)
        have "pm_base ?u"
          using bs' i by (simp add: pm_base_def params_ok_def blocks_ok_def free_ok_def table_ok_def
              stream_ok_def in_range_def unmapped_def)
        then have "inflight D ?u" using inf by (simp add: inflight_def lu pu)
        moreover have "b' \<in> set (freeBlocks s)" using fr by simp
        then have "ioUnitInPage b' = unitsInPage (param s)"
          using base by (auto simp: pm_base_def free_ok_def blk_ok_def)
        then have "\<forall>j<unitsInPage (param s). bnext b' j < pagesInBlock (param s)"
          using fr(2) bitset_units(4) [OF base] by (simp add: fresh_block_def)
        moreover have "open_ok s \<longrightarrow> open_ok ?u"
          using new(2) eqs set_update_subset_insert [of "lastFreeBlock s" i k]
          by (auto simp: open_ok_def)
        ultimately show ?thesis
          using run new eqs lu pu i len set_update_subset_insert [of "lastFreeBlock s" i k]
          by (auto simp: same_config_def)
      qed
    qed
  qed
qed

section \<open>Writing the units\<close>

lemma unit_flag_ok:
  assumes "bs_wf f" and "idx < dataSize f"
  shows "outcome F (unit_flag s idx f) (\<lambda>f'. bs_wf f' \<and> dataSize f' = dataSize f \<and>
    (\<forall>j<dataSize f. bget f' j \<longleftrightarrow> j = idx \<or> \<not> bRandomTweak s))"
  using assms by (auto simp: unit_flag_def bs_wf_def [of f])

lemma write_unit_outcome:
  assumes inf: "inflight D s" and mem: "(ftlLpn req, idx) \<in> D" and t: "touched s req idx"
    and req: "req_ok s req" and env: "env_faults F env"
    and ml: "map_of (table s) (ftlLpn req) = Some ml"
    and b: "map_of (blocks s) k = Some b" and n: "bnext b idx < pagesInBlock (param s)"
  shows "outcome F (write_unit env req k rbw send tk idx (s, h, fin)) (\<lambda>(s', h', fin').
    inflight (D - {(ftlLpn req, idx)}) s' \<and> frame s s' \<and>
    lview s' = (lview s)((ftlLpn req, idx) \<mapsto> (k, bnext b idx)) \<and>
    map_of (table s') = (map_of (table s))(ftlLpn req \<mapsto> ml[idx := (k, bnext b idx)]) \<and>
    pview s ((k, bnext b idx), idx) = None \<and>
    (\<exists>b'. map_of (blocks s') k = Some b' \<and>
       (\<forall>j<unitsInPage (param s). bnext b' j = (if j = idx then bnext b idx + 1 else bnext b j))))"
proof -
  let ?l = "ftlLpn req" and ?n = "bnext b idx"
  have base: "pm_base s" and lk: "linked (off D (lview s)) (pview s)" using inf by (simp_all add: inflight_def)
  note B = pm_base_block [OF base b]
  have i: "idx < bitsetSize s" and iu: "idx < unitsInPage (param s)"
    using t bitset_units(1) [OF base] by (auto simp: touched_def)
  have len: "length ml = bitsetSize s" using base ml by (auto simp: pm_base_def table_ok_def)
  note flags = req_flags [OF base req i]
  obtain b' where bw: "block_write b ?n ?l idx tk = Inr (True, b')"
    and b1: "pm_base (put_block s k b')" "pview (put_block s k b') = (pview s)(((k, ?n), idx) \<mapsto> ?l)"
    and fresh: "pview s ((k, ?n), idx) = None"
    and nx: "\<And>j. j < unitsInPage (param s) \<Longrightarrow> bnext b' j = (if j = idx then ?n + 1 else bnext b j)"
    using step_program [OF base b iu n] by metis
  let ?s1 = "put_block s k b'"
  have "in_range ?s1 (k, ?n)" using B(5) n by (simp add: in_range_def)
  then obtain s2 where pm: "put_mapping ?s1 ?l idx (k, ?n) = Inr s2"
    and s2: "pm_base s2" "lview s2 = (lview ?s1)((?l, idx) \<mapsto> (k, ?n))" "pview s2 = pview ?s1"
      "s2 = ?s1\<lparr>table := tbl_put ?l (ml[idx := (k, ?n)]) (table ?s1)\<rparr>"
    using step_put_mapping [OF b1(1), of ?l ml idx "(k, ?n)"] ml i by auto
  have "linked (off (D - {(?l, idx)}) (lview s2)) (pview s2)"
    using linked_bind [where lv = "off D (lview s)" and pv = "pview s" and l = ?l and i = idx
        and m = "(k, ?n)"] lk mem fresh by (simp add: s2(2,3) b1(2) off_put)
  with s2(1) have inf2: "inflight (D - {(?l, idx)}) s2" by (simp add: inflight_def)
  have fr: "frame s s2" using b by (auto simp: s2(4) frame_def same_config_def)
  have post: "inflight (D - {(?l, idx)}) s2 \<and> frame s s2 \<and>
    lview s2 = (lview s)((?l, idx) \<mapsto> (k, ?n)) \<and>
    map_of (table s2) = (map_of (table s))(?l \<mapsto> ml[idx := (k, ?n)]) \<and>
    pview s ((k, ?n), idx) = None \<and>
    (\<exists>b'. map_of (blocks s2) k = Some b' \<and>
       (\<forall>j<unitsInPage (param s). bnext b' j = (if j = idx then ?n + 1 else bnext b j)))"
    using inf2 fr fresh nx by (simp add: s2(2)) (simp add: s2(4))
  have sel: "(bget (ftlIoFlag req) idx \<or> \<not> bRandomTweak s) = True"
    using t by (simp add: touched_def)
  have nxt: "getNextWritePageIndexAt b idx = Inr ?n" using B iu by (simp add: blk_inv_def)
  have tst: "bitset_test (ftlIoFlag req) idx = Inr (bget (ftlIoFlag req) idx)" using flags by simp
  have lk1: "find_block s k = Inr b" using b by simp
  have flip: "outcome F (bitset_flip_all (bitset_assign (palIoFlag (PALRequest_of_FTL req)) (ftlIoFlag req)))
      (\<lambda>_. True)" using flags by simp
  have "outcome F (unit_flag s2 idx (palIoFlag (PALRequest_of_FTL req))) (\<lambda>_. True)"
    by (rule outcome_mono [OF unit_flag_ok]) (use flags iu in \<open>auto simp: PALRequest_of_FTL_def\<close>)
  note uf = this
  show ?thesis
    unfolding write_unit_def prod.case tst ebind_simps if_cancel sel if_True lk1 nxt ml option.case bw
    using post i len
    by (auto simp: Let_def pm intro!: outcome_bind outcome_mono [OF flip] outcome_mono [OF uf]
        env_outcome [OF env])
qed

lemma write_unit_skip:
  assumes "\<not> touched s req idx" and "idx < bitsetSize s" and "pm_base s" and "req_ok s req"
  shows "write_unit env req k rbw send tk idx (s, h, fin) = Inr (s, h, fin)"
  using assms req_flags [OF assms(3,4,2)] by (auto simp: write_unit_def touched_def)

text \<open>The mapping after the units \<open>0, \<dots>, i - 1\<close> are placed on block \<open>k\<close> at the pages \<open>nx\<close>.\<close>

definition placed ::
  "page_mapping \<Rightarrow> ftl_request \<Rightarrow> nat \<Rightarrow> (nat \<Rightarrow> nat) \<Rightarrow> nat \<Rightarrow> (u64 \<times> nat \<Rightarrow> phys option) \<Rightarrow>
     u64 \<times> nat \<Rightarrow> phys option" where
  "placed s req k nx i lv = (\<lambda>(l, j).
     if l = ftlLpn req \<and> touched s req j \<and> j < i then Some (k, nx j) else lv (l, j))"

lemma placed_0: "placed s req k nx 0 lv = lv"
  by (auto simp: placed_def fun_eq_iff)

lemma placed_Suc:
  "placed s req k nx (Suc i) lv =
     (if touched s req i then (placed s req k nx i lv)((ftlLpn req, i) \<mapsto> (k, nx i))
      else placed s req k nx i lv)"
  by (auto simp: placed_def fun_eq_iff less_Suc_eq)

definition placing ::
  "page_mapping \<Rightarrow> ftl_request \<Rightarrow> nat \<Rightarrow> (nat \<Rightarrow> nat) \<Rightarrow> nat \<Rightarrow> page_mapping \<times> 'h \<times> tick \<Rightarrow> bool" where
  "placing s0 req k nx i = (\<lambda>(s, _, _).
     inflight (units_of s0 req i (bitsetSize s0)) s \<and> frame s0 s \<and>
     lview s = placed s0 req k nx i (lview s0) \<and>
     (\<exists>ml. map_of (table s) (ftlLpn req) = Some ml) \<and>
     (\<forall>l. l \<noteq> ftlLpn req \<longrightarrow> map_of (table s) l = map_of (table s0) l) \<and>
     (\<exists>b. map_of (blocks s) k = Some b \<and> (\<forall>j<unitsInPage (param s0). i \<le> j \<longrightarrow> bnext b j = nx j)))"

lemma placing_step:
  assumes P: "placing s0 req k nx i x" and i: "i < bitsetSize s0" and req: "req_ok s0 req"
    and env: "env_faults F env" and nx: "\<forall>j<unitsInPage (param s0). nx j < pagesInBlock (param s0)"
  shows "outcome F (write_unit env req k rbw send tk i x) (placing s0 req k nx (Suc i))"
proof -
  obtain s h fin where x: "x = (s, h, fin)" by (cases x)
  from P obtain ml b where inf: "inflight (units_of s0 req i (bitsetSize s0)) s" and fr: "frame s0 s"
    and lv: "lview s = placed s0 req k nx i (lview s0)"
    and ml: "map_of (table s) (ftlLpn req) = Some ml"
    and oth: "\<forall>l. l \<noteq> ftlLpn req \<longrightarrow> map_of (table s) l = map_of (table s0) l"
    and b: "map_of (blocks s) k = Some b" and bn: "\<forall>j<unitsInPage (param s0). i \<le> j \<longrightarrow> bnext b j = nx j"
    by (auto simp: placing_def x)
  note C = config_units [OF frame_config [OF fr]]
  have base: "pm_base s" using inf by (simp add: inflight_def)
  have iu: "i < unitsInPage (param s0)" using bitset_units(1) [OF base] i C by simp
  show ?thesis
  proof (cases "touched s0 req i")
    case False
    then have "units_of s0 req (Suc i) (bitsetSize s0) = units_of s0 req i (bitsetSize s0)"
      by (auto simp: units_of_def Suc_le_eq order_less_le)
    moreover have "write_unit env req k rbw send tk i x = Inr x"
      unfolding x by (rule write_unit_skip) (use False i C base req in auto)
    moreover have "placed s0 req k nx (Suc i) (lview s0) = lview s" using False lv by (simp add: placed_Suc)
    ultimately show ?thesis using inf fr ml oth b bn by (auto simp: placing_def x)
  next
    case True
    have bi: "bnext b i = nx i" using bn iu by simp
    have mem: "(ftlLpn req, i) \<in> units_of s0 req i (bitsetSize s0)" using True i by (simp add: units_of_def)
    have "outcome F (write_unit env req k rbw send tk i (s, h, fin)) (\<lambda>(s', h', fin').
      inflight (units_of s0 req i (bitsetSize s0) - {(ftlLpn req, i)}) s' \<and> frame s s' \<and>
      lview s' = (lview s)((ftlLpn req, i) \<mapsto> (k, bnext b i)) \<and>
      map_of (table s') = (map_of (table s))(ftlLpn req \<mapsto> ml[i := (k, bnext b i)]) \<and>
      pview s ((k, bnext b i), i) = None \<and>
      (\<exists>b'. map_of (blocks s') k = Some b' \<and>
         (\<forall>j<unitsInPage (param s). bnext b' j = (if j = i then bnext b i + 1 else bnext b j))))"
      by (rule write_unit_outcome [OF inf mem _ _ env ml b])
         (use True req C nx iu bi in auto)
    then show ?thesis unfolding x
      by (rule outcome_mono)
         (use True i lv oth bn C fr in
           \<open>auto simp: placing_def placed_Suc units_of_Suc_down bi elim: frame_trans\<close>)
  qed
qed

text \<open>
  The pages a write is placed on were programmed for no one since the last erase: data is never
  overwritten in place.
\<close>

lemma next_page_unused:
  assumes "pm_base s" and "map_of (blocks s) k = Some b" and "i < unitsInPage (param s)"
  shows "pview s ((k, bnext b i), i) = None"
  using pm_base_block [OF assms(1,2)] assms(3) blk.fresh [of b i "bnext b i"]
  by (auto simp: pview_block [OF assms(2)] blk_view_def in_blk_def)

definition write_post :: "page_mapping \<Rightarrow> ftl_request \<Rightarrow> page_mapping \<Rightarrow> bool" where
  "write_post s req s' \<longleftrightarrow>
    pm_inv s' \<and> same_config s s' \<and> (open_ok s \<longrightarrow> open_ok s') \<and> nFreeBlocks s \<le> nFreeBlocks s' + 1 \<and>
    (\<forall>l. l \<noteq> ftlLpn req \<longrightarrow> map_of (table s') l = map_of (table s) l) \<and>
    (\<exists>k nx. lview s' = placed s req k nx (bitsetSize s) (lview s) \<and>
       (\<forall>j<unitsInPage (param s). nx j < pagesInBlock (param s) \<and> pview s ((k, nx j), j) = None))"

theorem write_place_outcome:
  assumes inv: "pm_inv s" and req: "req_ok s req" and env: "env_faults F env"
    and opn: "open_ok s \<or> F (Panic ''Corrupted'')"
    and free: "0 < nFreeBlocks s \<or> F (Panic ''No free block left'')"
  shows "outcome F (write_place env req send s h tk) (\<lambda>(s', _, _). write_post s req s')"
proof -
  let ?L = "ftlLpn req" and ?n = "bitsetSize s"
  let ?D = "units_of s req 0 ?n"
  have base: "pm_base s" using inv by (simp add: pm_inv_def)
  have flags: "bs_wf (ftlIoFlag req)" "bRandomTweak s \<longrightarrow> dataSize (ftlIoFlag req) = unitsInPage (param s)"
    using req by (auto simp: req_ok_def)
  let ?Q = "\<lambda>(s', _, _). write_post s req s'"
  have main: "outcome F (write_block env req send k s2 h tk) ?Q"
    if s1: "inflight ?D s1" "frame s s1" "lview s1 = lview s" "same_next s s1"
        "\<exists>ml. map_of (table s1) ?L = Some ml" "\<forall>l. l \<noteq> ?L \<longrightarrow> map_of (table s1) l = map_of (table s) l"
      and s2: "inflight ?D s2" "same_config s1 s2" "lview s2 = lview s1" "table s2 = table s1"
        "map_of (blocks s2) k = Some b" "\<forall>i<unitsInPage (param s1). bnext b i < pagesInBlock (param s1)"
        "\<forall>k'. map_of (blocks s1) k' \<noteq> None \<longrightarrow> map_of (blocks s2) k' = map_of (blocks s1) k'"
        "open_ok s1 \<longrightarrow> open_ok s2" "nFreeBlocks s1 \<le> nFreeBlocks s2 + 1"
    for s1 s2 k b
  proof -
    have cfg: "same_config s s2" using s1(2) s2(2) by (auto elim: same_config_trans dest: frame_config)
    note C = config_units [OF cfg] and C1 = config_units [OF frame_config [OF s1(2)]]
    have unused: "pview s ((k, bnext b j), j) = None" if "j < unitsInPage (param s)" for j
    proof (cases "map_of (blocks s) k")
      case None
      then show ?thesis by (simp add: pview_def)
    next
      case (Some b0)
      then have "map_of (blocks s2) k = map_of (blocks s1) k" using s1(2) s2(7) by (simp add: frame_def)
      moreover have "map_option bnext (map_of (blocks s1) k) = Some (bnext b0)"
        using s1(4) Some by (simp add: same_next_def)
      ultimately have "bnext b = bnext b0" using s2(5) by auto
      then show ?thesis using next_page_unused [OF base Some that] by simp
    qed
    have loop: "outcome F (efold (write_unit env req k rbw send t) [0..<bitsetSize s2] (s2, h', tk)) ?Q"
      for rbw t h'
    proof (rule outcome_mono)
      show "outcome F (efold (write_unit env req k rbw send t) [0..<bitsetSize s2] (s2, h', tk))
        (placing s2 req k (bnext b) (bitsetSize s2))"
      proof (rule outcome_loop)
        show "placing s2 req k (bnext b) 0 (s2, h', tk)"
          using s1 s2 C units_of_config [OF cfg] by (auto simp: placing_def placed_0)
        show "outcome F (write_unit env req k rbw send t i x) (placing s2 req k (bnext b) (Suc i))"
          if "i < bitsetSize s2" "placing s2 req k (bnext b) i x" for i x
          by (rule placing_step [OF that(2,1) _ env]) (use req C C1 s2(6) in auto)
      qed simp
    next
      fix x
      assume P: "placing s2 req k (bnext b) (bitsetSize s2) x"
      obtain s' h'' fin where x: "x = (s', h'', fin)" by (cases x)
      from P have inf: "inflight {} s'" and fr: "frame s2 s'"
        and lv: "lview s' = placed s2 req k (bnext b) (bitsetSize s2) (lview s2)"
        and oth: "\<forall>l. l \<noteq> ?L \<longrightarrow> map_of (table s') l = map_of (table s2) l"
        by (auto simp: placing_def x)
      have "placed s2 req k (bnext b) (bitsetSize s2) (lview s2) = placed s req k (bnext b) ?n (lview s)"
        using s1(3) s2(3) C by (simp add: placed_def)
      then have "\<exists>k nx. lview s' = placed s req k nx ?n (lview s) \<and>
         (\<forall>j<unitsInPage (param s). nx j < pagesInBlock (param s) \<and> pview s ((k, nx j), j) = None)"
        using lv s2(6) C1 unused by (intro exI [of _ k] exI [of _ "bnext b"]) auto
      moreover have "open_ok s \<longrightarrow> open_ok s'"
        using s1(2) s2(8) fr by (simp add: open_ok_def frame_def)
      moreover have "nFreeBlocks s \<le> nFreeBlocks s' + 1"
        using s1(2) s2(9) fr by (simp add: frame_def)
      moreover have "same_config s s'" using cfg fr by (auto elim: same_config_trans dest: frame_config)
      ultimately show "?Q x"
        using inf oth s1(6) s2(4) by (simp add: x inflight_empty write_post_def)
    qed
    have fin: "outcome F (ebind (efold (write_unit env req k rbw send t) [0..<bitsetSize s2] (s2, h', tk))
        (\<lambda>(s, h, finishedAt). if send then
           ebind (cpuLatency env FTL__PAGE_MAPPING WRITE_INTERNAL h) (\<lambda>(l, h). Inr (s, h, finishedAt + l))
         else Inr (s, h, t))) ?Q" for rbw t h'
      by (rule outcome_bind, rule outcome_mono [OF loop])
         (auto intro!: outcome_bind env_outcome [OF env])
    obtain rbw where rbw: "(if \<not> bRandomTweak s2 then ebind (bitset_all (ftlIoFlag req)) (\<lambda>a. Inr (\<not> a))
        else Inr False) = Inr rbw"
      using flags by (cases "bRandomTweak s2") auto
    have dram: "outcome F (if send then
                ebind (dram_lookup env s2 (ftlIoFlag req) tk h) (\<lambda>(t, h).
                dramWrite env (if bRandomTweak s2 then 8 * bitset_count (ftlIoFlag req) else 8) t h)
              else Inr (tk, h)) (\<lambda>_. True)"
      by (auto intro!: outcome_bind env_outcome [OF env] dram_lookup_outcome [OF env])
    have there: "(map_of (blocks s2) k = None) = False" by (simp add: s2(5))
    show ?thesis
      unfolding write_block_def rbw ebind_simps there if_False
      by (rule outcome_bind, rule outcome_weak [OF dram]) (simp only: prod.case, rule fin)
  qed
  show ?thesis
    unfolding write_place_def
  proof (intro outcome_bind, rule outcome_mono [OF write_prepare_outcome [OF inv req]], elim conjE)
    fix s1
    assume s1: "inflight ?D s1" "frame s s1" "lview s1 = lview s" "same_next s s1"
        "\<exists>ml. map_of (table s1) ?L = Some ml \<and> length ml = bitsetSize s"
        "\<forall>l. l \<noteq> ?L \<longrightarrow> map_of (table s1) l = map_of (table s) l"
    note C1 = config_units [OF frame_config [OF s1(2)]]
    have "open_ok s1 \<or> F (Panic ''Corrupted'')" and "0 < nFreeBlocks s1 \<or> F (Panic ''No free block left'')"
      using opn free s1(2) by (auto simp: open_ok_def frame_def)
    note got = getLastFreeBlock_outcome [OF s1(1) flags(1) flags(2) [folded C1(4,5)] this]
    have "outcome F (getLastFreeBlock s1 (ftlIoFlag req)) (\<lambda>(k, s2). outcome F (write_block env req send k s2 h tk) ?Q)"
      by (rule outcome_mono [OF got]) (use main [OF s1(1-4) _ s1(6)] s1(5) in auto)
    then show "outcome F (ebind (getLastFreeBlock s1 (ftlIoFlag req))
        (\<lambda>(k, s). write_block env req send k s h tk)) ?Q"
      by (intro outcome_bind) (erule outcome_mono, auto)
  qed
qed


end
