(* ===== verification/PageMappingRead.thy ===== *)
theory PageMappingRead
  imports PageMappingWrite
begin

text \<open>
  Reading and trimming in \<^verbatim>\<open>src/ftl/page_mapping.cc\<close>. A read leaves mapping and contents alone,
  and what it asks of the flash is the list \<open>read_plan\<close>: one request per mapped unit, at the
  place the table records. A trim forgets one logical page, provided all of its units are mapped.
\<close>

section \<open>The flash requests of a read\<close>

definition unit_request :: "page_mapping \<Rightarrow> ftl_request \<Rightarrow> phys \<Rightarrow> nat \<Rightarrow> pal_request" where
  "unit_request s req m idx =
     (PALRequest_of_FTL req)\<lparr>palBlockIndex := fst m, palPageIndex := snd m,
       palIoFlag := bs_of (\<lambda>j. j = idx \<or> \<not> bRandomTweak s) (dataSize (ftlIoFlag req))\<rparr>"

definition read_plan :: "page_mapping \<Rightarrow> ftl_request \<Rightarrow> nat list \<Rightarrow> pal_request list" where
  "read_plan s req js =
     map (\<lambda>j. unit_request s req (the (lview s (ftlLpn req, j))) j)
       (filter (\<lambda>j. touched s req j \<and> lview s (ftlLpn req, j) \<noteq> None) js)"

lemma unit_flag_eq:
  assumes "bs_wf f" and "idx < dataSize f"
  shows "unit_flag s idx f = Inr (bs_of (\<lambda>j. j = idx \<or> \<not> bRandomTweak s) (dataSize f))"
proof -
  have "outcome (\<lambda>_. False) (unit_flag s idx f) (\<lambda>f'. bs_wf f' \<and> dataSize f' = dataSize f \<and>
    (\<forall>j<dataSize f. bget f' j \<longleftrightarrow> j = idx \<or> \<not> bRandomTweak s))"
    by (rule unit_flag_ok [OF assms])
  then obtain f' where f': "unit_flag s idx f = Inr f'" "bs_wf f'" "dataSize f' = dataSize f"
    "\<forall>j<dataSize f. bget f' j \<longleftrightarrow> j = idx \<or> \<not> bRandomTweak s"
    unfolding outcome_total by blast
  have "f' = bs_of (\<lambda>j. j = idx \<or> \<not> bRandomTweak s) (dataSize f)"
    by (rule bs_ext) (use f' assms in \<open>auto simp: bs_wf_def [of f]\<close>)
  with f'(1) show ?thesis by simp
qed

text \<open>The state a read may leave: only access times differ.\<close>

definition read_equiv :: "page_mapping \<Rightarrow> page_mapping \<Rightarrow> bool" where
  "read_equiv s s' \<longleftrightarrow> pm_base s' \<and> frame s s' \<and> table s' = table s \<and> pview s' = pview s \<and> same_next s s'"

lemma read_equiv_refl: "pm_base s \<Longrightarrow> read_equiv s s"
  by (simp add: read_equiv_def)

lemma read_equiv_trans: "read_equiv s t \<Longrightarrow> read_equiv t u \<Longrightarrow> read_equiv s u"
  by (auto simp: read_equiv_def elim: frame_trans same_next_trans)

lemma read_equiv_lview: "read_equiv s s' \<Longrightarrow> lview s' = lview s"
  by (rule views_cong) (auto simp: read_equiv_def frame_def same_config_def)

lemma read_equiv_inv: "read_equiv s s' \<Longrightarrow> pm_inv s \<Longrightarrow> pm_inv s'"
  using read_equiv_lview by (auto simp: read_equiv_def pm_inv_def)

lemma read_equiv_plan:
  assumes "read_equiv s s'"
  shows "read_plan s' req js = read_plan s req js" and "unit_request s' = unit_request s"
proof -
  have C: "param s' = param s" "bRandomTweak s' = bRandomTweak s" "touched s' = touched s"
    using assms config_units [of s s'] by (auto simp: read_equiv_def frame_def fun_eq_iff)
  then show u: "unit_request s' = unit_request s" by (simp add: unit_request_def fun_eq_iff)
  show "read_plan s' req js = read_plan s req js"
    using C u read_equiv_lview [OF assms] by (simp add: read_plan_def)
qed

lemma put_read_block:
  assumes base: "pm_base s" and b: "map_of (blocks s) k = Some b"
  shows "read_equiv s (put_block s k (b\<lparr>lastAccessed := tk\<rparr>))"
proof -
  let ?b = "b\<lparr>lastAccessed := tk\<rparr>"
  have obs: "bvalid ?b = bvalid b" "berased ?b = berased b" "bnext ?b = bnext b" "blpn ?b = blpn b"
    "in_blk ?b = in_blk b" "blk_wf ?b = blk_wf b"
    by (auto simp: bvalid_def berased_def bnext_def blpn_def in_blk_def blk_wf_def fun_eq_iff)
  have frm: "pageCount ?b = pageCount b" "ioUnitInPage ?b = ioUnitInPage b" by simp_all
  have inv: "blk_inv ?b = blk_inv b" unfolding blk_inv_def obs frm ..
  have view: "blk_view ?b = blk_view b" unfolding blk_view_def obs ..
  have "pm_base (put_block s k ?b)"
    by (rule pm_base_put_block [OF base b])
       (use pm_base_block(1) [OF base b] inv in \<open>auto simp: same_shape_def\<close>)
  moreover have "pview (put_block s k ?b) = pview s"
    by (auto simp: pview_put_block fun_eq_iff view pview_block [OF b])
  ultimately show ?thesis
    using b obs(3) by (simp add: read_equiv_def frame_put_block same_next_put_block)
qed

lemma read_unit_eq:
  assumes inv: "pm_inv s" and req: "req_ok s req" and ml: "map_of (table s) (ftlLpn req) = Some ml"
    and idx: "idx < bitsetSize s"
  obtains s' where "read_equiv s s'" and "read_unit env req ml t idx (s, h, fin) =
    (if touched s req idx \<and> lview s (ftlLpn req, idx) \<noteq> None then
       ebind (palRead env (unit_request s req (the (lview s (ftlLpn req, idx))) idx) t h)
         (\<lambda>(t', h'). Inr (s', h', max fin t'))
     else Inr (s, h, fin))"
proof -
  let ?L = "ftlLpn req"
  have base: "pm_base s" and lk: "linked (lview s) (pview s)" using inv by (simp_all add: pm_inv_def)
  have len: "length ml = bitsetSize s" using base ml by (auto simp: pm_base_def table_ok_def)
  have iu: "idx < unitsInPage (param s)" using bitset_units(1) [OF base] idx by simp
  note flags = req_flags [OF base req idx]
  have tst: "bitset_test (ftlIoFlag req) idx = Inr (bget (ftlIoFlag req) idx)" using flags by simp
  have lv: "lview s (?L, idx) = (if in_range s (ml ! idx) then Some (ml ! idx) else None)"
    using ml idx len by (simp add: lview_def)
  show ?thesis
  proof (cases "touched s req idx \<and> in_range s (ml ! idx)")
    case False
    then have "read_unit env req ml t idx (s, h, fin) = Inr (s, h, fin)"
      using idx len by (auto simp: read_unit_def tst touched_def)
    then show ?thesis using that [OF read_equiv_refl [OF base]] False lv by auto
  next
    case True
    obtain k p where m: "ml ! idx = (k, p)" by (cases "ml ! idx")
    have lv': "lview s (?L, idx) = Some (k, p)" using lv True m by simp
    then have "pview s ((k, p), idx) = Some ?L" using linkedD [OF lk] by simp
    then obtain b where b: "map_of (blocks s) k = Some b" and p: "p < pagesInBlock (param s)"
      and v: "bvalid b p idx"
      by (rule pview_SomeD [OF base])
    note B = pm_base_block [OF base b]
    have r: "in_blk b p idx" and wf: "blk_wf b" using B p iu by (auto simp: in_blk_def blk_inv_def)
    have rd: "block_read b p idx t = Inr (True, b\<lparr>lastAccessed := t\<rparr>)" using wf r v by simp
    have fl: "unit_flag s idx (palIoFlag (PALRequest_of_FTL req)) =
        Inr (bs_of (\<lambda>j. j = idx \<or> \<not> bRandomTweak s) (dataSize (ftlIoFlag req)))"
      using flags by (subst unit_flag_eq) (simp_all add: PALRequest_of_FTL_def)
    have sel: "(bget (ftlIoFlag req) idx \<or> \<not> bRandomTweak s) = True"
      using True by (simp add: touched_def)
    have "read_unit env req ml t idx (s, h, fin) =
      ebind (palRead env (unit_request s req (k, p) idx) t h)
        (\<lambda>(t', h'). Inr (put_block s k (b\<lparr>lastAccessed := t\<rparr>), h', max fin t'))"
      unfolding read_unit_def prod.case tst ebind_simps sel if_True
      using idx len True m b by (simp add: fl rd unit_request_def)
    with True lv' show ?thesis by (intro that [OF put_read_block [OF base b]]) simp
  qed
qed

lemma read_plan_Cons:
  "read_plan s req (j # js) =
     (if touched s req j \<and> lview s (ftlLpn req, j) \<noteq> None
      then [unit_request s req (the (lview s (ftlLpn req, j))) j] else []) @ read_plan s req js"
  by (simp add: read_plan_def)

lemma send_all_simps:
  "send_all op [] t fin h = Inr (fin, h)"
  "send_all op (r # rs) t fin h = ebind (op r t h) (\<lambda>(t', h'). send_all op rs t (max fin t') h')"
  by (auto simp: send_all_def ebind_assoc split: prod.splits intro!: ebind_cong)

lemma read_loop:
  assumes inv: "pm_inv s" and req: "req_ok s req" and ml: "map_of (table s) (ftlLpn req) = Some ml"
    and eq: "read_equiv s s1" and js: "\<forall>j\<in>set js. j < bitsetSize s"
  shows "\<exists>s'. read_equiv s s' \<and> efold (read_unit env req ml t) js (s1, h, fin) =
    ebind (send_all (palRead env) (read_plan s req js) t fin h) (\<lambda>(fin', h'). Inr (s', h', fin'))"
  using eq js
proof (induction js arbitrary: s1 h fin)
  case Nil
  then show ?case by (auto simp: read_plan_def send_all_simps)
next
  case (Cons j js)
  have C: "req_ok s1 req = req_ok s req" "bitsetSize s1 = bitsetSize s" "touched s1 = touched s"
    using Cons.prems(1) config_units [of s s1] by (auto simp: read_equiv_def frame_def fun_eq_iff)
  have inv1: "pm_inv s1" using read_equiv_inv [OF Cons.prems(1) inv] .
  note lv = read_equiv_lview [OF Cons.prems(1)] and ur = read_equiv_plan(2) [OF Cons.prems(1)]
  obtain s2 where s2: "read_equiv s1 s2" "read_unit env req ml t j (s1, h, fin) =
    (if touched s1 req j \<and> lview s1 (ftlLpn req, j) \<noteq> None then
       ebind (palRead env (unit_request s1 req (the (lview s1 (ftlLpn req, j))) j) t h)
         (\<lambda>(t', h'). Inr (s2, h', max fin t'))
     else Inr (s1, h, fin))"
    by (rule read_unit_eq [OF inv1, of req ml j env t h fin])
       (use C req ml Cons.prems in \<open>auto simp: read_equiv_def\<close>)
  show ?case
  proof (cases "touched s req j \<and> lview s (ftlLpn req, j) \<noteq> None")
    case False
    then show ?thesis using Cons.IH [OF Cons.prems(1)] Cons.prems(2) s2(2) C lv
      by (auto simp: read_plan_Cons)
  next
    case True
    have e: "read_equiv s s2" using Cons.prems(1) s2(1) by (rule read_equiv_trans)
    show ?thesis
    proof (cases "palRead env (unit_request s req (the (lview s (ftlLpn req, j))) j) t h")
      case (Inl e')
      then show ?thesis using True s2 C lv ur e by (auto simp: read_plan_Cons send_all_simps)
    next
      case (Inr x)
      obtain t' h' where x: "x = (t', h')" by (cases x)
      from Cons.IH [OF e, of h' "max fin t'"] Cons.prems(2) show ?thesis
        using True s2 C lv ur Inr x by (auto simp: read_plan_Cons send_all_simps)
    qed
  qed
qed

theorem readInternal_eq:
  assumes inv: "pm_inv s" and req: "req_ok s req"
  obtains s' where "read_equiv s s'" and "readInternal env req s h tk =
    (if map_of (table s) (ftlLpn req) = None then Inr (s, h, tk)
     else
       ebind (dram_lookup env s (ftlIoFlag req) tk h) (\<lambda>(t, h1).
       ebind (send_all (palRead env) (read_plan s req [0..<bitsetSize s]) t tk h1) (\<lambda>(fin, h2).
       ebind (cpuLatency env FTL__PAGE_MAPPING READ_INTERNAL h2) (\<lambda>(l, h3).
       Inr (s', h3, fin + l)))))"
proof (cases "map_of (table s) (ftlLpn req)")
  case None
  then show ?thesis
    using that [OF read_equiv_refl [of s]] inv by (simp add: readInternal_def pm_inv_def)
next
  case (Some ml)
  show ?thesis
  proof (cases "dram_lookup env s (ftlIoFlag req) tk h")
    case (Inl e)
    then show ?thesis
      using that [OF read_equiv_refl [of s]] inv Some by (simp add: readInternal_def pm_inv_def)
  next
    case (Inr x)
    obtain t h1 where x: "x = (t, h1)" by (cases x)
    have base: "pm_base s" using inv by (simp add: pm_inv_def)
    obtain s' where s': "read_equiv s s'"
      "efold (read_unit env req ml t) [0..<bitsetSize s] (s, h1, tk) =
        ebind (send_all (palRead env) (read_plan s req [0..<bitsetSize s]) t tk h1)
          (\<lambda>(fin', h'). Inr (s', h', fin'))"
      using read_loop [OF inv req Some read_equiv_refl [OF base], of "[0..<bitsetSize s]" env t h1 tk]
      by auto
    show ?thesis
      by (rule that [OF s'(1)])
         (simp add: readInternal_def Some Inr x s'(2) ebind_assoc case_prod_unfold)
  qed
qed

section \<open>The flash requests of a write\<close>

text \<open>
  A write that needs no read before programming sends one request per unit written, to the place
  chosen for it.
\<close>

definition write_plan :: "page_mapping \<Rightarrow> ftl_request \<Rightarrow> nat \<Rightarrow> (nat \<Rightarrow> nat) \<Rightarrow> nat list \<Rightarrow> pal_request list" where
  "write_plan s req k nx js =
     map (\<lambda>j. unit_request s req (k, nx j) j) (filter (touched s req) js)"

lemma unit_request_config: "same_config s s' \<Longrightarrow> unit_request s' = unit_request s"
  by (simp add: unit_request_def same_config_def fun_eq_iff)

lemma write_unit_hw:
  assumes P: "placing s0 req k nx i (s, h, fin)" and i: "i < bitsetSize s0" and req: "req_ok s0 req"
    and nx: "\<forall>j<unitsInPage (param s0). nx j < pagesInBlock (param s0)"
  shows "\<exists>s'. write_unit env req k False True tk i (s, h, fin) =
    (if touched s0 req i then
       ebind (palWrite env (unit_request s0 req (k, nx i) i) tk h) (\<lambda>(t', h'). Inr (s', h', max fin t'))
     else Inr (s, h, fin))"
proof -
  from P obtain ml b where inf: "inflight (units_of s0 req i (bitsetSize s0)) s" and fr: "frame s0 s"
    and ml: "map_of (table s) (ftlLpn req) = Some ml"
    and b: "map_of (blocks s) k = Some b" and bn: "\<forall>j<unitsInPage (param s0). i \<le> j \<longrightarrow> bnext b j = nx j"
    by (auto simp: placing_def)
  note cfg = frame_config [OF fr] and C = config_units [OF frame_config [OF fr]]
  have base: "pm_base s" using inf by (simp add: inflight_def)
  have iu: "i < unitsInPage (param s)" using bitset_units(1) [OF base] i C by simp
  show ?thesis
  proof (cases "touched s0 req i")
    case False
    then show ?thesis using write_unit_skip [of s req i] i C base req by simp
  next
    case True
    have bi: "bnext b i = nx i" and n: "nx i < pagesInBlock (param s)" using bn nx iu C by auto
    have len: "length ml = bitsetSize s" using base ml by (auto simp: pm_base_def table_ok_def)
    have flags: "bs_wf (ftlIoFlag req)" "i < dataSize (ftlIoFlag req)"
      using req_flags [OF base, of req i] req i C by auto
    obtain b' where bw: "block_write b (nx i) (ftlLpn req) i tk = Inr (True, b')"
      using step_program [OF base b iu] bi n by metis
    have nxt: "getNextWritePageIndexAt b i = Inr (nx i)"
      using pm_base_block [OF base b] iu bi by (simp add: blk_inv_def)
    have tst: "bitset_test (ftlIoFlag req) i = Inr (bget (ftlIoFlag req) i)" using flags iu by simp
    have sel: "(bget (ftlIoFlag req) i \<or> \<not> bRandomTweak s) = True"
      using True C by (simp add: touched_def)
    have fb: "find_block s k = Inr b" using b by simp
    let ?s2 = "(put_block s k b')\<lparr>table := tbl_put (ftlLpn req) (ml[i := (k, nx i)]) (table s)\<rparr>"
    have pm: "put_mapping (put_block s k b') (ftlLpn req) i (k, nx i) = Inr ?s2"
      using ml i len C by (simp add: put_mapping_def)
    have uf: "unit_flag ?s2 i (palIoFlag (PALRequest_of_FTL req)) =
        Inr (bs_of (\<lambda>j. j = i \<or> \<not> bRandomTweak s) (dataSize (ftlIoFlag req)))"
      using flags iu by (subst unit_flag_eq) (simp_all add: PALRequest_of_FTL_def)
    have "write_unit env req k False True tk i (s, h, fin) =
      ebind (palWrite env (unit_request s req (k, nx i) i) tk h) (\<lambda>(t', h'). Inr (?s2, h', max fin t'))"
      unfolding write_unit_def prod.case tst ebind_simps sel if_True fb nxt ml option.case bw
      using i len C by (simp add: Let_def pm uf unit_request_def)
    then show ?thesis using True by (auto simp: unit_request_config [OF cfg])
  qed
qed

lemma write_loop_hw:
  assumes "placing s0 req k nx i (s, h, fin)" and req: "req_ok s0 req"
    and nx: "\<forall>j<unitsInPage (param s0). nx j < pagesInBlock (param s0)" and "i \<le> bitsetSize s0"
  shows "\<exists>s'. efold (write_unit env req k False True tk) [i..<bitsetSize s0] (s, h, fin) =
    ebind (send_all (palWrite env) (write_plan s0 req k nx [i..<bitsetSize s0]) tk fin h)
      (\<lambda>(fin', h'). Inr (s', h', fin'))"
  using assms(1,4)
proof (induction "bitsetSize s0 - i" arbitrary: i s h fin)
  case 0
  then show ?case by (auto simp: write_plan_def send_all_simps)
next
  case (Suc d)
  then have i: "i < bitsetSize s0" by simp
  have env: "env_faults (\<lambda>_. True) env" by (simp add: env_faults_def outcome_partial)
  note upt = upt_conv_Cons [OF i]
  obtain s1 where run: "write_unit env req k False True tk i (s, h, fin) =
    (if touched s0 req i then
       ebind (palWrite env (unit_request s0 req (k, nx i) i) tk h) (\<lambda>(t', h'). Inr (s1, h', max fin t'))
     else Inr (s, h, fin))"
    using write_unit_hw [OF Suc.prems(1) i req nx] by blast
  have next_P: "placing s0 req k nx (Suc i) x"
    if "write_unit env req k False True tk i (s, h, fin) = Inr x" for x
    using placing_step [OF Suc.prems(1) i req env nx, of False True tk] that
    by simp
  show ?case
  proof (cases "touched s0 req i")
    case False
    with run next_P have "placing s0 req k nx (Suc i) (s, h, fin)" by simp
    from Suc.hyps(1) [OF _ this] Suc.hyps(2) i False run show ?thesis
      by (simp add: upt write_plan_def)
  next
    case True
    show ?thesis
    proof (cases "palWrite env (unit_request s0 req (k, nx i) i) tk h")
      case (Inl e)
      with True run show ?thesis by (simp add: upt write_plan_def send_all_simps)
    next
      case (Inr x)
      obtain t' h' where x: "x = (t', h')" by (cases x)
      with True run Inr next_P have "placing s0 req k nx (Suc i) (s1, h', max fin t')" by simp
      from Suc.hyps(1) [OF _ this] Suc.hyps(2) i True run Inr x show ?thesis
        by (simp add: upt write_plan_def send_all_simps)
    qed
  qed
qed

text \<open>The requests a write sends are those a later read of the same units will send.\<close>

lemma plans_agree:
  assumes cfg: "same_config s s'" and lv: "lview s' = placed s req k nx (bitsetSize s) lv0"
    and js: "\<forall>j\<in>set js. j < bitsetSize s"
  shows "read_plan s' req js = write_plan s req k nx js"
proof -
  have "filter (\<lambda>j. touched s' req j \<and> lview s' (ftlLpn req, j) \<noteq> None) js = filter (touched s req) js"
    using js by (intro filter_cong) (auto simp: lv placed_def config_units [OF cfg])
  moreover have "the (lview s' (ftlLpn req, j)) = (k, nx j)" if "touched s req j" "j < bitsetSize s" for j
    using that by (simp add: lv placed_def)
  ultimately show ?thesis
    using js by (simp add: read_plan_def write_plan_def unit_request_config [OF cfg])
qed

lemma write_start:
  assumes inv: "pm_inv s" and req: "req_ok s req" and prep: "write_prepare req s = Inr s1"
    and last: "getLastFreeBlock s1 (ftlIoFlag req) = Inr (k, s2)"
  obtains b where "placing s2 req k (bnext b) 0 (s2, h, tk)" and "same_config s s2"
    and "lview s2 = lview s" and "map_of (blocks s2) k = Some b"
    and "\<forall>j<unitsInPage (param s2). bnext b j < pagesInBlock (param s2)"
proof -
  have flags: "bs_wf (ftlIoFlag req)" "bRandomTweak s \<longrightarrow> dataSize (ftlIoFlag req) = unitsInPage (param s)"
    using req by (auto simp: req_ok_def)
  from write_prepare_outcome [OF inv req, of "\<lambda>_. True"] prep
  have s1: "inflight (units_of s req 0 (bitsetSize s)) s1" "frame s s1" "lview s1 = lview s"
    "\<exists>ml. map_of (table s1) (ftlLpn req) = Some ml"
    by auto
  note C1 = config_units [OF frame_config [OF s1(2)]]
  from getLastFreeBlock_outcome [OF s1(1) flags(1) flags(2) [folded C1(4,5)], of "\<lambda>_. True"] last
  obtain b where s2: "inflight (units_of s req 0 (bitsetSize s)) s2" "same_config s1 s2"
    "lview s2 = lview s1" "table s2 = table s1" "map_of (blocks s2) k = Some b"
    "\<forall>i<unitsInPage (param s1). bnext b i < pagesInBlock (param s1)"
    by auto
  have cfg: "same_config s s2" using s1(2) s2(2) by (auto elim: same_config_trans dest: frame_config)
  note C = config_units [OF cfg]
  show ?thesis
    by (rule that [of b])
       (use s1 s2 C C1 cfg units_of_config [OF cfg] in \<open>auto simp: placing_def placed_0\<close>)
qed

theorem write_place_hw:
  assumes inv: "pm_inv s" and req: "req_ok s req"
    and full: "bRandomTweak s \<or> (\<forall>j<dataSize (ftlIoFlag req). bget (ftlIoFlag req) j)"
    and run: "write_place env req True s h tk = Inr (s', h', t')"
  shows "\<exists>t0 h0 fin h1 l.
    ebind (dram_lookup env s (ftlIoFlag req) tk h) (\<lambda>(t, h).
      dramWrite env (if bRandomTweak s then 8 * bitset_count (ftlIoFlag req) else 8) t h) = Inr (t0, h0) \<and>
    send_all (palWrite env) (read_plan s' req [0..<bitsetSize s]) t0 tk h0 = Inr (fin, h1) \<and>
    cpuLatency env FTL__PAGE_MAPPING WRITE_INTERNAL h1 = Inr (l, h') \<and> t' = fin + l"
proof -
  have env: "env_faults (\<lambda>_. True) env" by (simp add: env_faults_def outcome_partial)
  from run obtain s1 k s2 where prep: "write_prepare req s = Inr s1"
    and last: "getLastFreeBlock s1 (ftlIoFlag req) = Inr (k, s2)"
    and blk: "write_block env req True k s2 h tk = Inr (s', h', t')"
    by (auto simp: write_place_def)
  obtain b where P: "placing s2 req k (bnext b) 0 (s2, h, tk)" and cfg: "same_config s s2"
    and lv: "lview s2 = lview s" and b: "map_of (blocks s2) k = Some b"
    and nx: "\<forall>j<unitsInPage (param s2). bnext b j < pagesInBlock (param s2)"
    by (rule write_start [OF inv req prep last])
  note C = config_units [OF cfg]
  have rbw: "(if \<not> bRandomTweak s2 then ebind (bitset_all (ftlIoFlag req)) (\<lambda>a. Inr (\<not> a))
      else Inr False) = Inr False"
    using full req C by (auto simp: req_ok_def)
  have lk: "dram_lookup env s2 = dram_lookup env s" by (simp add: dram_lookup_def C fun_eq_iff)
  from blk obtain t0 h0 x where
    d: "ebind (dram_lookup env s (ftlIoFlag req) tk h) (\<lambda>(t, h).
      dramWrite env (if bRandomTweak s then 8 * bitset_count (ftlIoFlag req) else 8) t h) = Inr (t0, h0)"
    and loop: "efold (write_unit env req k False True t0) [0..<bitsetSize s2] (s2, h0, tk) = Inr x"
    and fin: "(case x of (s, h, finishedAt) \<Rightarrow>
      ebind (cpuLatency env FTL__PAGE_MAPPING WRITE_INTERNAL h) (\<lambda>(l, h). Inr (s, h, finishedAt + l))) = Inr (s', h', t')"
    unfolding write_block_def rbw using b C lk by (auto simp: case_prod_unfold)
  obtain s3 h3 f3 where x: "x = (s3, h3, f3)" by (cases x)
  have P0: "placing s2 req k (bnext b) 0 (s2, h0, tk)" using P by (simp add: placing_def)
  obtain s4 where eq: "efold (write_unit env req k False True t0) [0..<bitsetSize s2] (s2, h0, tk) =
    ebind (send_all (palWrite env) (write_plan s2 req k (bnext b) [0..<bitsetSize s2]) t0 tk h0)
      (\<lambda>(fin', h'). Inr (s4, h', fin'))"
    using write_loop_hw [OF P0 _ nx, of env t0] req C by auto
  have "outcome (\<lambda>_. True) (efold (write_unit env req k False True t0) [0..<bitsetSize s2] (s2, h0, tk))
      (placing s2 req k (bnext b) (bitsetSize s2))"
    by (rule outcome_loop [where P = "placing s2 req k (bnext b)", OF P0])
       (use placing_step [OF _ _ _ env nx] req C in auto)
  then have Pn: "placing s2 req k (bnext b) (bitsetSize s2) (s3, h3, f3)" using loop x by simp
  have "s3 = s'" using fin x by auto
  with Pn have "lview s' = placed s2 req k (bnext b) (bitsetSize s2) (lview s2)" and "same_config s2 s'"
    by (auto simp: placing_def dest: frame_config)
  then have "read_plan s' req [0..<bitsetSize s] = write_plan s2 req k (bnext b) [0..<bitsetSize s2]"
    using plans_agree [of s2 s' req k "bnext b" "lview s2" "[0..<bitsetSize s2]"] C by simp
  note rp = this
  from trans [OF eq [symmetric] loop] x obtain f1 h1 where
    sent: "send_all (palWrite env) (write_plan s2 req k (bnext b) [0..<bitsetSize s2]) t0 tk h0 = Inr (f1, h1)"
    and h1: "h1 = h3" and f1: "f1 = f3"
    by (auto simp: case_prod_unfold)
  from fin x obtain l where l: "cpuLatency env FTL__PAGE_MAPPING WRITE_INTERNAL h3 = Inr (l, h')" "t' = f3 + l"
    by auto
  show ?thesis
    by (rule exI [of _ t0], rule exI [of _ h0], rule exI [of _ f1], rule exI [of _ h1], rule exI [of _ l],
        intro conjI d) (simp_all only: rp sent l h1 f1)
qed

section \<open>Trimming\<close>

lemma trim_unit_outcome:
  assumes inf: "inflight D s" and ml: "map_of (table s) l = Some ml" and idx: "idx < bitsetSize s"
    and notin: "(l, idx) \<notin> D"
    and rF: "in_range s (ml ! idx) \<or> F (Panic ''Block is not in use'')"
  shows "outcome F (trim_unit ml idx s) (\<lambda>s'. inflight (insert (l, idx) D) s' \<and> frame s s' \<and>
    table s' = table s \<and> lview s' = lview s)"
proof -
  have base: "pm_base s" using inf by (simp add: inflight_def)
  have len: "length ml = bitsetSize s" and mls: "\<forall>m\<in>set ml. in_range s m \<or> m = unmapped s"
    using base ml by (auto simp: pm_base_def table_ok_def)
  have m_cases: "in_range s (ml ! idx) \<or> ml ! idx = unmapped s" using mls len idx by auto
  have total: "map_of (blocks s) (totalPhysicalBlocks (param s)) = None"
    using pm_base_block(5) [OF base] by (cases "map_of (blocks s) (totalPhysicalBlocks (param s))") auto
  show ?thesis
  proof (cases "in_range s (ml ! idx)")
    case False
    with m_cases total idx len have "trim_unit ml idx s = Inl (Panic ''Block is not in use'')"
      by (simp add: trim_unit_def unmapped_def)
    with rF False show ?thesis by simp
  next
    case r: True
    obtain k p where m: "ml ! idx = (k, p)" by (cases "ml ! idx")
    have "lview s (l, idx) = Some (k, p)" using ml idx len r m by (simp add: lview_def)
    with notin have lk: "off D (lview s) (l, idx) = Some (k, p)" by simp
    then have "pview s ((k, p), idx) = Some l"
      using inf linkedD [of "off D (lview s)" "pview s"] by (simp add: inflight_def)
    then obtain b where b: "map_of (blocks s) k = Some b" and p: "p < pagesInBlock (param s)"
      and i: "idx < unitsInPage (param s)" by (rule pview_SomeD [OF base])
    obtain b' where b': "block_invalidate b p idx = Inr b'" "pm_base (put_block s k b')"
      "pview (put_block s k b') = (pview s)(((k, p), idx) := None)"
      using step_invalidate [OF base b p i] by metis
    have run: "trim_unit ml idx s = Inr (put_block s k b')"
      using idx len b b'(1) m by (simp add: trim_unit_def)
    have "inflight (insert (l, idx) D) (put_block s k b')"
      using linked_unbind [where lv = "off D (lview s)" and l = l and i = idx and m = "(k, p)"]
        lk inf b'(2,3) by (simp add: inflight_def off_insert)
    with run b show ?thesis by (simp add: frame_put_block)
  qed
qed

lemma trim_units_outcome:
  assumes inf: "inflight D s" and ml: "map_of (table s) l = Some ml" and n: "n \<le> bitsetSize s"
    and D: "\<forall>j. (l, j) \<notin> D"
    and r: "(\<forall>j<n. in_range s (ml ! j)) \<or> F (Panic ''Block is not in use'')"
  shows "outcome F (efold (trim_unit ml) [0..<n] s)
    (\<lambda>s'. inflight (D \<union> {l} \<times> {..<n}) s' \<and> frame s s' \<and> table s' = table s \<and> lview s' = lview s)"
proof -
  let ?P = "\<lambda>i s'. inflight (D \<union> {l} \<times> {..<i}) s' \<and> frame s s' \<and> table s' = table s \<and> lview s' = lview s"
  show ?thesis
  proof (rule outcome_loop [where P = ?P])
    show "?P 0 s" using inf by simp
  next
    fix i t
    assume i: "i < n" and P: "?P i t"
    have cfg: "same_config s t" using P by (auto dest: frame_config)
    have "outcome F (trim_unit ml i t) (\<lambda>s'. inflight (insert (l, i) (D \<union> {l} \<times> {..<i})) s' \<and>
        frame t s' \<and> table s' = table t \<and> lview s' = lview t)"
      by (rule trim_unit_outcome)
         (use P ml i n D r config_units [OF cfg] in_range_config [OF cfg] in auto)
    moreover have "insert (l, i) (D \<union> {l} \<times> {..<i}) = D \<union> {l} \<times> {..<Suc i}" by auto
    ultimately show "outcome F (trim_unit ml i t) (?P (Suc i))"
      by (elim outcome_mono) (use P in \<open>auto elim: frame_trans\<close>)
  qed simp
qed

lemma drop_entry:
  assumes inf: "inflight ({l} \<times> {..<bitsetSize s}) s"
  defines "s' \<equiv> s\<lparr>table := tbl_del l (table s)\<rparr>"
  shows "pm_inv s'" and "lview s' = (\<lambda>(l', j). if l' = l then None else lview s (l', j))"
proof -
  have base: "pm_base s" using inf by (simp add: inflight_def)
  have cfg: "same_config s s'" by (simp add: s'_def same_config_def)
  note r = in_range_config [OF cfg]
  show lv: "lview s' = (\<lambda>(l', j). if l' = l then None else lview s (l', j))"
    unfolding lview_def r by (auto simp: s'_def fun_eq_iff)
  have len: "lview s (l, j) = None" if "\<not> j < bitsetSize s" for j
    using base that by (auto simp: lview_def pm_base_def table_ok_def split: option.splits)
  have "lview s' = off ({l} \<times> {..<bitsetSize s}) (lview s)"
    unfolding lv off_def using len by (auto simp: fun_eq_iff)
  moreover have "pview s' = pview s" by (simp add: s'_def pview_def)
  moreover have "table_ok s'"
    using base unfolding pm_base_def table_ok_def r config_units(6) [OF cfg]
    by (auto simp: s'_def split: if_splits)
  then have "pm_base s'"
    using base by (simp add: s'_def pm_base_def params_ok_def blocks_ok_def free_ok_def stream_ok_def)
  ultimately show "pm_inv s'" using inf by (simp add: pm_inv_def inflight_def)
qed

theorem trimInternal_outcome:
  assumes inv: "pm_inv s" and env: "env_faults F env" and ml: "map_of (table s) (ftlLpn req) = Some ml"
    and full: "(\<forall>j<bitsetSize s. in_range s (ml ! j)) \<or> F (Panic ''Block is not in use'')"
  shows "outcome F (trimInternal env req s h tk) (\<lambda>(s', _, _). pm_inv s' \<and>
    map_of (table s') = (map_of (table s))(ftlLpn req := None) \<and>
    lview s' = (\<lambda>(l, j). if l = ftlLpn req then None else lview s (l, j)) \<and>
    frame s s')"
proof -
  have "inflight {} s" using inv by (simp add: inflight_empty)
  note loop = trim_units_outcome [where F = F, OF this ml order_refl _ full]
  show ?thesis
    unfolding trimInternal_def ml option.case
  proof (intro outcome_bind dram_lookup_outcome [OF env], simp only: prod.case,
      intro outcome_bind, rule outcome_mono, rule loop)
    fix s1 :: page_mapping
    assume "inflight ({} \<union> {ftlLpn req} \<times> {..<bitsetSize s}) s1 \<and> frame s s1 \<and>
      table s1 = table s \<and> lview s1 = lview s"
    then have s1: "inflight ({ftlLpn req} \<times> {..<bitsetSize s1}) s1" "frame s s1" "table s1 = table s"
      "lview s1 = lview s"
      by (auto simp: frame_def same_config_def)
    let ?s = "s1\<lparr>table := tbl_del (ftlLpn req) (table s1)\<rparr>"
    have "frame s ?s" using s1(2) by (simp add: frame_def same_config_def)
    with drop_entry [OF s1(1), unfolded s1(4)] s1(3) show "\<And>t h. outcome F (let s = ?s
        in ebind (cpuLatency env FTL__PAGE_MAPPING TRIM_INTERNAL h) (\<lambda>(l, h). Inr (s, h, t + l)))
        (\<lambda>(s', _, _). pm_inv s' \<and> map_of (table s') = (map_of (table s))(ftlLpn req := None) \<and>
          lview s' = (\<lambda>(l, j). if l = ftlLpn req then None else lview s (l, j)) \<and> frame s s')"
      by (auto simp: Let_def intro!: outcome_bind env_outcome [OF env])
  qed simp
qed

text \<open>A logical page with an unmapped unit cannot be trimmed: the code takes the invalid entry for a block.\<close>

theorem trimInternal_partial:
  assumes inv: "pm_inv s" and ml: "map_of (table s) (ftlLpn req) = Some ml"
    and j: "j < bitsetSize s" "lview s (ftlLpn req, j) = None"
    and dram: "dram_lookup env s (ftlIoFlag req) tk h = Inr th"
  shows "trimInternal env req s h tk = Inl (Panic ''Block is not in use'')"
proof -
  have base: "pm_base s" using inv by (simp add: pm_inv_def)
  have len: "length ml = bitsetSize s" and mls: "\<forall>m\<in>set ml. in_range s m \<or> m = unmapped s"
    using base ml by (auto simp: pm_base_def table_ok_def)
  let ?bad = "\<lambda>j. j < bitsetSize s \<and> \<not> in_range s (ml ! j)"
  have "?bad j" using j ml len by (auto simp: lview_def split: if_splits)
  then obtain i where i: "?bad i" and least: "\<forall>j<i. in_range s (ml ! j)"
    using exists_least_iff [of ?bad] by (metis less_trans)
  have "inflight {} s" using inv by (simp add: inflight_empty)
  from trim_units_outcome [OF this ml, of i "\<lambda>_. False"] i least
  obtain s1 where s1: "efold (trim_unit ml) [0..<i] s = Inr s1" "frame s s1"
    by (auto simp: outcome_total)
  have "ml ! i = unmapped s" using mls i len nth_mem [of i ml] by auto
  moreover have "map_of (blocks s1) (totalPhysicalBlocks (param s)) = None"
  proof -
    have "map_of (blocks s) (totalPhysicalBlocks (param s)) = None"
      using pm_base_block(5) [OF base] by (cases "map_of (blocks s) (totalPhysicalBlocks (param s))") auto
    with s1(2) show ?thesis by (simp add: frame_def)
  qed
  ultimately have "trim_unit ml i s1 = Inl (Panic ''Block is not in use'')"
    using i len by (simp add: trim_unit_def unmapped_def)
  moreover have "[0..<bitsetSize s] = [0..<i] @ i # [Suc i..<bitsetSize s]"
    using i by (metis less_imp_le_nat upt_add_eq_append upt_conv_Cons le_add_diff_inverse zero_le)
  ultimately have "efold (trim_unit ml) [0..<bitsetSize s] s = Inl (Panic ''Block is not in use'')"
    using s1(1) by (simp add: efold_append)
  then show ?thesis using ml dram by (cases th) (simp add: trimInternal_def)
qed

end
