(* ===== verification/PageMappingGC.thy ===== *)
theory PageMappingGC
  imports PageMappingRead
begin

text \<open>
  Garbage collection in \<^verbatim>\<open>src/ftl/page_mapping.cc\<close>: collecting a victim moves its valid units to
  open blocks and keeps the invariant; erasing a block without valid units returns it to the free
  list. The lemmas on collection assume more than one unit per page: with a single unit
  \<open>getPageInfo\<close> reports every page as valid, and the lemma \<open>gc_page_stale\<close> of \<open>PageMappingTop\<close> shows what follows.
\<close>

section \<open>The effect of collection\<close>

definition fullb :: "page_mapping \<Rightarrow> nat \<Rightarrow> bool" where
  "fullb s k \<longleftrightarrow> (\<exists>b. map_of (blocks s) k = Some b \<and>
     (\<exists>i<unitsInPage (param s). bnext b i = pagesInBlock (param s)))"

definition next_mono :: "page_mapping \<Rightarrow> page_mapping \<Rightarrow> bool" where
  "next_mono s s' \<longleftrightarrow> (\<forall>k b. map_of (blocks s) k = Some b \<longrightarrow>
     (\<exists>b'. map_of (blocks s') k = Some b' \<and> (\<forall>j<unitsInPage (param s). bnext b j \<le> bnext b' j)))"

text \<open>
  What moving the data of the blocks \<open>V\<close> may change: the same logical units stay mapped, those
  outside \<open>V\<close> stay where they are, and nothing is placed on a block that was full.
\<close>

definition relocates :: "nat set \<Rightarrow> page_mapping \<Rightarrow> page_mapping \<Rightarrow> bool" where
  "relocates V s s' \<longleftrightarrow> pm_inv s' \<and> same_config s s' \<and> next_mono s s' \<and> (open_ok s \<longrightarrow> open_ok s') \<and>
     set (lastFreeBlock s') \<subseteq> set (lastFreeBlock s) \<union> {k. \<not> fullb s k} \<and>
     dom (lview s') = dom (lview s) \<and>
     (\<forall>x m. lview s x = Some m \<longrightarrow> fst m \<notin> V \<longrightarrow> lview s' x = Some m) \<and>
     (\<forall>x m. lview s' x = Some m \<longrightarrow> lview s x = Some m \<or> \<not> fullb s (fst m))"

lemma next_monoD:
  assumes "next_mono s s'" and "map_of (blocks s) k = Some b"
  obtains b' where "map_of (blocks s') k = Some b'"
    and "\<And>j. j < unitsInPage (param s) \<Longrightarrow> bnext b j \<le> bnext b' j"
  using assms unfolding next_mono_def by blast

lemma fullb_mono:
  assumes "pm_base s'" and "same_config s s'" and "next_mono s s'" and "fullb s k"
  shows "fullb s' k"
proof -
  from assms(4) obtain b i where b: "map_of (blocks s) k = Some b" "i < unitsInPage (param s)"
    "bnext b i = pagesInBlock (param s)" by (auto simp: fullb_def)
  obtain b' where b': "map_of (blocks s') k = Some b'" "bnext b i \<le> bnext b' i"
    using next_monoD [OF assms(3) b(1)] b(2) by metis
  note C = config_units(5) [OF assms(2)] and B = pm_base_block [OF assms(1) b'(1)]
  have "bnext b' i \<le> pagesInBlock (param s')" using B b(2) C by (auto simp: blk_inv_def)
  with b b' C show ?thesis by (auto simp: fullb_def intro!: exI [of _ i])
qed

lemma next_mono_refl [simp]: "next_mono s s"
  by (simp add: next_mono_def)

lemma next_mono_trans:
  assumes "next_mono s t" and "next_mono t u" and "param t = param s"
  shows "next_mono s u"
  unfolding next_mono_def
proof (intro allI impI)
  fix k b
  assume "map_of (blocks s) k = Some b"
  then obtain b1 where b1: "map_of (blocks t) k = Some b1"
    "\<And>j. j < unitsInPage (param s) \<Longrightarrow> bnext b j \<le> bnext b1 j" using next_monoD [OF assms(1)] by metis
  obtain b2 where "map_of (blocks u) k = Some b2"
    "\<And>j. j < unitsInPage (param t) \<Longrightarrow> bnext b1 j \<le> bnext b2 j" using next_monoD [OF assms(2) b1(1)] by metis
  with b1 assms(3) show "\<exists>b'. map_of (blocks u) k = Some b' \<and> (\<forall>j<unitsInPage (param s). bnext b j \<le> bnext b' j)"
    by (auto intro: order_trans)
qed

lemma same_next_mono: "same_next s s' \<Longrightarrow> next_mono s s'"
  unfolding same_next_def next_mono_def
  by (metis (no_types, lifting) le_refl map_option_eq_Some option.simps(9))

lemma relocates_refl: "pm_inv s \<Longrightarrow> relocates V s s"
  by (simp add: relocates_def)

lemma relocates_mono: "relocates V s s' \<Longrightarrow> V \<subseteq> W \<Longrightarrow> relocates W s s'"
  unfolding relocates_def by blast

lemma relocates_trans:
  assumes "relocates V s t" and "relocates V t u"
  shows "relocates V s u"
proof -
  have b: "pm_base t" using assms(1) by (simp add: relocates_def pm_inv_def)
  have "fullb s k \<Longrightarrow> fullb t k" for k
    using fullb_mono [OF b, of s k] assms(1) by (simp add: relocates_def)
  moreover have "next_mono s u"
    using assms next_mono_trans [of s t u] by (simp add: relocates_def same_config_def)
  moreover have "same_config s u"
    using assms same_config_trans [of s t u] by (simp add: relocates_def)
  moreover have "set (lastFreeBlock u) \<subseteq> set (lastFreeBlock s) \<union> {k. \<not> fullb s k}"
    using assms calculation(1) unfolding relocates_def by blast
  moreover have "lview s x = Some m \<or> \<not> fullb s (fst m)" if "lview u x = Some m" for x m
    using assms calculation(1) that unfolding relocates_def by blast
  ultimately show ?thesis
    using assms unfolding relocates_def by simp
qed

text \<open>An empty full block stays empty.\<close>

lemma relocates_empty:
  assumes "relocates V s s'" and inv: "pm_inv s" and "fullb s k" and "pview s ((k, p), i) = None"
  shows "pview s' ((k, p), i) = None"
proof (rule ccontr)
  assume "pview s' ((k, p), i) \<noteq> None"
  then obtain l where "pview s' ((k, p), i) = Some l" by auto
  then have "lview s' (l, i) = Some (k, p)"
    using assms(1) linkedD [of "lview s'" "pview s'"] by (simp add: relocates_def pm_inv_def)
  then have "lview s (l, i) = Some (k, p)" using assms(1,3) by (force simp: relocates_def)
  then have "pview s ((k, p), i) = Some l"
    using inv linkedD [of "lview s" "pview s"] by (simp add: pm_inv_def)
  with assms(4) show False by simp
qed

section \<open>One unit\<close>

definition gc_moved ::
  "nat \<Rightarrow> nat \<Rightarrow> nat \<Rightarrow> block \<Rightarrow> u64 \<Rightarrow> nat \<Rightarrow> page_mapping \<Rightarrow> page_mapping \<Rightarrow> bool" where
  "gc_moved v p k b l idx s s' \<longleftrightarrow> pm_inv s' \<and> frame s s' \<and>
     lview s' = (lview s)((l, idx) \<mapsto> (k, bnext b idx)) \<and>
     pview s' = ((pview s)(((v, p), idx) := None))(((k, bnext b idx), idx) \<mapsto> l) \<and>
     next_mono s s' \<and>
     (\<exists>b'. map_of (blocks s') k = Some b' \<and>
        (\<forall>j<unitsInPage (param s). bnext b' j = (if j = idx then bnext b idx + 1 else bnext b j)))"

lemma gc_unit_outcome:
  assumes inv: "pm_inv (gcMap g)" and env: "env_faults F env"
    and flags: "bs_wf flags" "dataSize flags = unitsInPage (param (gcMap g))" "bget flags idx"
    and idx: "idx < bitsetSize (gcMap g)" "idx < length lpns"
    and pv: "pview (gcMap g) ((v, p), idx) = Some (lpns ! idx)"
    and b: "map_of (blocks (gcMap g)) k = Some b" and n: "bnext b idx < pagesInBlock (param (gcMap g))"
  shows "outcome F (gc_unit env v p k lpns flags idx g)
    (\<lambda>g'. gc_moved v p k b (lpns ! idx) idx (gcMap g) (gcMap g'))"
proof -
  let ?s = "gcMap g" and ?l = "lpns ! idx" and ?n = "bnext b idx"
  have base: "pm_base ?s" and lk: "linked (lview ?s) (pview ?s)" using inv by (simp_all add: pm_inv_def)
  obtain vb where vb: "map_of (blocks ?s) v = Some vb" and p: "p < pagesInBlock (param ?s)"
    and iu: "idx < unitsInPage (param ?s)" by (rule pview_SomeD [OF base pv])
  have lv: "lview ?s (?l, idx) = Some (v, p)" using pv linkedD [OF lk] by simp
  then obtain ml where ml: "map_of (table ?s) ?l = Some ml" by (auto simp: lview_def split: option.splits)
  have len: "length ml = bitsetSize ?s" using base ml by (auto simp: pm_base_def table_ok_def)
  obtain vb' where i1: "block_invalidate vb p idx = Inr vb'" and b1: "pm_base (put_block ?s v vb')"
    and pv1: "pview (put_block ?s v vb') = (pview ?s)(((v, p), idx) := None)" and nx1: "bnext vb' = bnext vb"
    by (rule step_invalidate [OF base vb p iu])
  let ?s1 = "put_block ?s v vb'"
  obtain fb where fb: "map_of (blocks ?s1) k = Some fb" and nxf: "bnext fb = bnext b"
    using b vb nx1 by (cases "k = v") auto
  obtain fb' where w: "block_write fb ?n ?l idx (uninitTick env) = Inr (True, fb')"
    and b2: "pm_base (put_block ?s1 k fb')"
    and pv2: "pview (put_block ?s1 k fb') = (pview ?s1)(((k, ?n), idx) \<mapsto> ?l)"
    and fresh: "pview ?s1 ((k, ?n), idx) = None"
    and nx2: "\<And>j. j < unitsInPage (param ?s1) \<Longrightarrow> bnext fb' j = (if j = idx then ?n + 1 else bnext fb j)"
    using step_program [OF b1 fb, of idx ?l "uninitTick env"] iu n nxf by (metis put_block_frame(1))
  let ?s2 = "put_block ?s1 k fb'"
  have k: "k < totalPhysicalBlocks (param ?s)" using pm_base_block(5) [OF base b] .
  obtain s3 where s3: "put_mapping ?s2 ?l idx (k, ?n) = Inr s3" "pm_base s3"
    "lview s3 = (lview ?s2)((?l, idx) \<mapsto> (k, ?n))" "pview s3 = pview ?s2"
    "s3 = ?s2\<lparr>table := tbl_put ?l (ml[idx := (k, ?n)]) (table ?s2)\<rparr>"
    using step_put_mapping [OF b2, of ?l ml idx "(k, ?n)"] ml idx n k by (auto simp: in_range_def)
  have pm: "put_mapping ?s1 ?l idx (k, ?n) =
      Inr (?s1\<lparr>table := tbl_put ?l (ml[idx := (k, ?n)]) (table ?s)\<rparr>)"
    using ml idx len by (simp add: put_mapping_def)
  have comm: "put_block (?s1\<lparr>table := tbl_put ?l (ml[idx := (k, ?n)]) (table ?s)\<rparr>) k fb' = s3"
    by (simp add: s3(5) put_block_def)
  have "linked (lview s3) (pview s3)"
    using linked_rebind [where lv = "lview ?s" and pv = "pview ?s" and l = ?l and i = idx and m = "(v, p)"
        and m' = "(k, ?n)"] lk lv fresh pv1 next_page_unused [OF base b iu]
    by (simp add: s3(3,4) pv2)
  with s3(2) have inv3: "pm_inv s3" by (simp add: pm_inv_def)
  have fr: "frame ?s s3" using vb b by (auto simp: s3(5) frame_def same_config_def)
  have mono: "next_mono ?s s3"
    unfolding next_mono_def s3(5) using b vb nx1 nx2 nxf by auto
  have nxb: "\<exists>b'. map_of (blocks s3) k = Some b' \<and>
       (\<forall>j<unitsInPage (param ?s). bnext b' j = (if j = idx then ?n + 1 else bnext b j))"
    using nx2 nxf by (simp add: s3(5))
  have tst: "bitset_test flags idx = Inr True" using flags iu by simp
  have f1: "find_block ?s v = Inr vb" "find_block ?s1 k = Inr fb" using vb fb by simp_all
  have nxt: "getNextWritePageIndexAt fb idx = Inr ?n"
    using pm_base_block [OF b1 fb] iu nxf by (simp add: blk_inv_def)
  have at: "vec_at lpns idx = Inr ?l" using idx by simp
  have uf: "outcome F (unit_flag s3 idx flags) (\<lambda>_. True)"
    by (rule outcome_mono [OF unit_flag_ok]) (use flags iu in auto)
  have stat: "pm_inv (s3\<lparr>stat := st\<rparr>)" "lview (s3\<lparr>stat := st\<rparr>) = lview s3"
    "pview (s3\<lparr>stat := st\<rparr>) = pview s3" "frame ?s (s3\<lparr>stat := st\<rparr>)" "next_mono ?s (s3\<lparr>stat := st\<rparr>)" for st
  proof -
    show lv: "lview (s3\<lparr>stat := st\<rparr>) = lview s3" and pv: "pview (s3\<lparr>stat := st\<rparr>) = pview s3"
      by (rule views_cong; simp)+
    show "pm_inv (s3\<lparr>stat := st\<rparr>)"
      using inv3 by (simp add: pm_inv_def lv pv pm_base_def params_ok_def blocks_ok_def free_ok_def
          table_ok_def stream_ok_def in_range_def unmapped_def)
    show "frame ?s (s3\<lparr>stat := st\<rparr>)" using fr by (simp add: frame_def same_config_def)
    show "next_mono ?s (s3\<lparr>stat := st\<rparr>)" using mono by (simp add: next_mono_def)
  qed
  have post: "pview s3 = ((pview ?s)(((v, p), idx) := None))(((k, ?n), idx) \<mapsto> ?l)"
    "lview s3 = (lview ?s)((?l, idx) \<mapsto> (k, ?n))"
    by (simp_all add: s3(3,4) pv2 pv1)
  have post3: "gc_moved v p k b ?l idx ?s (s3\<lparr>stat := st\<rparr>)" for st
    using stat [of st] nxb by (simp add: gc_moved_def post)
  show ?thesis
    unfolding gc_unit_def Let_def tst ebind_simps not_True_eq_False if_False f1 i1 at
    using ml
    by (simp only: put_block_frame option.case)
       (intro outcome_bind env_outcome [OF env], simp only: prod.case f1 ebind_simps nxt pm w comm,
        intro outcome_bind outcome_mono [OF uf], simp add: post3)
qed

section \<open>One page\<close>

lemma relocates_moved:
  assumes r: "relocates V s t" and m: "gc_moved v p k b l idx t t'" and v: "v \<in> V"
    and lv: "lview t (l, idx) = Some (v, p)" and k: "\<not> fullb s k"
  shows "relocates V s t'"
proof -
  have R: "same_config s t" "next_mono s t" "open_ok s \<longrightarrow> open_ok t" "dom (lview t) = dom (lview s)"
    "\<And>x m. lview s x = Some m \<Longrightarrow> fst m \<notin> V \<Longrightarrow> lview t x = Some m"
    "\<And>x m. lview t x = Some m \<Longrightarrow> lview s x = Some m \<or> \<not> fullb s (fst m)"
    using r unfolding relocates_def by blast+
  have M: "pm_inv t'" "frame t t'" "lview t' = (lview t)((l, idx) \<mapsto> (k, bnext b idx))" "next_mono t t'"
    using m by (simp_all add: gc_moved_def)
  have "same_config s t'" using R(1) M(2) by (auto elim: same_config_trans dest: frame_config)
  moreover have "next_mono s t'" using next_mono_trans [OF R(2) M(4)] R(1) by (simp add: same_config_def)
  moreover have "open_ok s \<longrightarrow> open_ok t'" using R(3) M(2) by (auto simp: open_ok_def frame_def)
  moreover have "(l, idx) \<in> dom (lview s)" using R(4) lv by blast
  then have "dom (lview t') = dom (lview s)" using R(4) M(3) by auto
  moreover have "lview t' x = Some m" if "lview s x = Some m" "fst m \<notin> V" for x m
    using R(5) [OF that] lv v that(2) M(3) by (cases "x = (l, idx)") auto
  moreover have "lview s x = Some m \<or> \<not> fullb s (fst m)" if "lview t' x = Some m" for x m
    using that R(6) [of x m] M(3) k by (cases "x = (l, idx)") auto
  moreover have "set (lastFreeBlock t') \<subseteq> set (lastFreeBlock s) \<union> {k. \<not> fullb s k}"
    using r M(2) by (simp add: relocates_def frame_def)
  ultimately show ?thesis using M(1) unfolding relocates_def by blast
qed

lemma stat_views [simp]:
  "lview (s\<lparr>stat := st\<rparr>) = lview s" "pview (s\<lparr>stat := st\<rparr>) = pview s"
  "pm_inv (s\<lparr>stat := st\<rparr>) = pm_inv s" "fullb (s\<lparr>stat := st\<rparr>) = fullb s"
proof -
  show lv: "lview (s\<lparr>stat := st\<rparr>) = lview s" and pv: "pview (s\<lparr>stat := st\<rparr>) = pview s"
    by (rule views_cong; simp)+
  show "pm_inv (s\<lparr>stat := st\<rparr>) = pm_inv s"
    by (simp add: pm_inv_def lv pv pm_base_def params_ok_def blocks_ok_def free_ok_def
        table_ok_def stream_ok_def in_range_def unmapped_def)
  show "fullb (s\<lparr>stat := st\<rparr>) = fullb s" by (simp add: fullb_def fun_eq_iff)
qed

lemma relocates_stat [simp]: "relocates V s (t\<lparr>stat := st\<rparr>) = relocates V s t"
  by (simp add: relocates_def same_config_def next_mono_def open_ok_def)

lemma pview_bitset:
  assumes "pm_inv s" and "pview s (m, j) = Some l"
  shows "j < bitsetSize s"
proof -
  have "lview s (l, j) = Some m" using assms linkedD [of "lview s" "pview s"] by (simp add: pm_inv_def)
  then show ?thesis
    using assms(1) by (auto simp: lview_def pm_inv_def pm_base_def table_ok_def split: option.splits if_splits)
qed

text \<open>The state of the loop over the units of a page.\<close>

definition gc_looping ::
  "page_mapping \<Rightarrow> page_mapping \<Rightarrow> nat \<Rightarrow> nat \<Rightarrow> nat \<Rightarrow> block \<Rightarrow> nat \<Rightarrow> page_mapping \<Rightarrow> bool" where
  "gc_looping s s2 v p k b i t \<longleftrightarrow> relocates {v} s t \<and> frame s2 t \<and>
     (\<exists>b'. map_of (blocks t) k = Some b' \<and> (\<forall>j<unitsInPage (param s). i \<le> j \<longrightarrow> bnext b' j = bnext b j)) \<and>
     (\<forall>j. i \<le> j \<longrightarrow> pview s ((v, p), j) \<noteq> None \<longrightarrow> pview t ((v, p), j) = pview s ((v, p), j)) \<and>
     (v \<noteq> k \<longrightarrow> (\<forall>j. j < i \<or> pview s ((v, p), j) = None \<longrightarrow> pview t ((v, p), j) = None))"

lemma gc_looping_step:
  assumes L: "gc_looping s s2 v p k b i t" and k: "\<not> fullb s k"
    and n: "\<forall>j<unitsInPage (param s). bnext b j < pagesInBlock (param s)"
    and i: "i < bitsetSize s" and env: "env_faults F env" and t: "gcMap g = t"
    and flags: "bs_wf flags" "dataSize flags = unitsInPage (param s)"
      "\<And>j. j < bitsetSize s \<Longrightarrow> bget flags j \<longleftrightarrow> pview s ((v, p), j) \<noteq> None"
    and lpns: "length lpns = unitsInPage (param s)"
      "\<And>j l. pview s ((v, p), j) = Some l \<Longrightarrow> lpns ! j = l"
  shows "outcome F (gc_unit env v p k lpns flags i g) (\<lambda>g'. gc_looping s s2 v p k b (Suc i) (gcMap g'))"
proof -
  from L obtain b' where R: "relocates {v} s t" and fr: "frame s2 t"
    and b': "map_of (blocks t) k = Some b'" "\<forall>j<unitsInPage (param s). i \<le> j \<longrightarrow> bnext b' j = bnext b j"
    and keep: "\<forall>j. i \<le> j \<longrightarrow> pview s ((v, p), j) \<noteq> None \<longrightarrow> pview t ((v, p), j) = pview s ((v, p), j)"
    and gone: "v \<noteq> k \<longrightarrow> (\<forall>j. j < i \<or> pview s ((v, p), j) = None \<longrightarrow> pview t ((v, p), j) = None)"
    by (auto simp: gc_looping_def)
  have inv: "pm_inv t" and cfg: "same_config s t" using R by (simp_all add: relocates_def)
  note C = config_units [OF cfg]
  have base: "pm_base t" and lk: "linked (lview t) (pview t)" using inv by (simp_all add: pm_inv_def)
  have iu: "i < unitsInPage (param s)" using bitset_units(1) [OF base] i C by simp
  show ?thesis
  proof (cases "pview s ((v, p), i)")
    case None
    then have "gc_unit env v p k lpns flags i g = Inr g"
      using flags(1,2) flags(3) [OF i] iu by (simp add: gc_unit_def)
    moreover have "gc_looping s s2 v p k b (Suc i) t"
      unfolding gc_looping_def
    proof (intro conjI R fr impI allI)
      show "\<exists>b'. map_of (blocks t) k = Some b' \<and> (\<forall>j<unitsInPage (param s). Suc i \<le> j \<longrightarrow> bnext b' j = bnext b j)"
        using b' by auto
      show "pview t ((v, p), j) = pview s ((v, p), j)" if "Suc i \<le> j" "pview s ((v, p), j) \<noteq> None" for j
        using keep that by auto
      show "pview t ((v, p), j) = None" if "v \<noteq> k" "j < Suc i \<or> pview s ((v, p), j) = None" for j
        using gone None that by (cases "j = i") auto
    qed
    ultimately show ?thesis using t by simp
  next
    case (Some l)
    with keep have pv: "pview t ((v, p), i) = Some l" by simp
    have li: "lpns ! i = l" using lpns(2) [OF Some] .
    have lv: "lview t (l, i) = Some (v, p)" using pv linkedD [OF lk] by simp
    have bi: "bnext b' i = bnext b i" using b'(2) iu by simp
    have "outcome F (gc_unit env v p k lpns flags i g) (\<lambda>g'. gc_moved v p k b' (lpns ! i) i (gcMap g) (gcMap g'))"
      by (rule gc_unit_outcome)
         (use inv env flags i iu lpns(1) pv b'(1) bi n C Some in \<open>auto simp: t li\<close>)
    then show ?thesis
    proof (rule outcome_mono)
      fix g'
      assume M: "gc_moved v p k b' (lpns ! i) i (gcMap g) (gcMap g')"
      let ?u = "gcMap g'"
      have M': "frame t ?u"
        "pview ?u = ((pview t)(((v, p), i) := None))(((k, bnext b' i), i) \<mapsto> l)"
        "\<exists>b''. map_of (blocks ?u) k = Some b'' \<and>
          (\<forall>j<unitsInPage (param t). bnext b'' j = (if j = i then bnext b' i + 1 else bnext b' j))"
        using M by (simp_all add: gc_moved_def t li)
      show "gc_looping s s2 v p k b (Suc i) ?u"
        unfolding gc_looping_def
      proof (intro conjI impI allI)
        show "relocates {v} s ?u"
          using relocates_moved [OF R, of v p k b' l i ?u] M lv k by (simp add: t li)
        show "frame s2 ?u" using fr M'(1) by (rule frame_trans)
        show "\<exists>b'. map_of (blocks ?u) k = Some b' \<and> (\<forall>j<unitsInPage (param s). Suc i \<le> j \<longrightarrow> bnext b' j = bnext b j)"
          using M'(3) b'(2) C by auto
        show "pview ?u ((v, p), j) = pview s ((v, p), j)" if "Suc i \<le> j" "pview s ((v, p), j) \<noteq> None" for j
          using keep that M'(2) by auto
        show "pview ?u ((v, p), j) = None" if "v \<noteq> k" "j < Suc i \<or> pview s ((v, p), j) = None" for j
          using gone that M'(2) by (cases "j = i") auto
      qed
    qed
  qed
qed

lemma gc_unit_erases: "gc_unit env v p k lpns flags i g = Inr g' \<Longrightarrow> gcErases g' = gcErases g"
  by (auto simp: gc_unit_def Let_def split: if_splits option.splits)

lemma gc_page_erases: "gc_page env v p g = Inr g' \<Longrightarrow> gcErases g' = gcErases g"
proof -
  have "gcErases g2 = gcErases g1"
    if "efold (gc_unit env v p k lpns flags) xs g1 = Inr g2" for k lpns flags xs g1 g2
    by (rule efold_invariant [OF that, where P = "\<lambda>g'. gcErases g' = gcErases g1"])
       (auto dest: gc_unit_erases)
  then show "gc_page env v p g = Inr g' \<Longrightarrow> gcErases g' = gcErases g"
    by (fastforce simp: gc_page_def Let_def split: if_splits prod.splits)
qed

text \<open>Collecting a page moves its valid units away.\<close>

definition gc_page_post :: "page_mapping \<Rightarrow> nat \<Rightarrow> nat \<Rightarrow> page_mapping \<Rightarrow> bool" where
  "gc_page_post s v p t \<longleftrightarrow> relocates {v} s t \<and> (fullb s v \<longrightarrow> (\<forall>j. pview t ((v, p), j) = None))"

lemma gc_page_post_stat [simp]: "gc_page_post s v p (t\<lparr>stat := st\<rparr>) = gc_page_post s v p t"
  by (simp add: gc_page_post_def)

lemma gc_page_outcome:
  assumes inv: "pm_inv (gcMap g)" and env: "env_faults F env" and u: "unitsInPage (param (gcMap g)) \<noteq> 1"
    and v: "map_of (blocks (gcMap g)) v = Some vb" and p: "p < pagesInBlock (param (gcMap g))"
    and opn: "open_ok (gcMap g) \<or> F (Panic ''Corrupted'')" and free: "F (Panic ''No free block left'')"
  shows "outcome F (gc_page env v p g) (\<lambda>g'. gc_page_post (gcMap g) v p (gcMap g'))"
proof -
  let ?s = "gcMap g" and ?n = "unitsInPage (param (gcMap g))"
  have base: "pm_base ?s" using inv by (simp add: pm_inv_def)
  note B = pm_base_block [OF base v] and pos = bitset_units [OF base]
  have wf: "blk_wf vb" using B(1) by (simp add: blk_inv_def)
  have multi: "ioUnitInPage vb \<noteq> 1" using B(3) u by simp
  note W = blk_wf_multi(3) [OF wf multi] blk_wf_multi(4) [OF wf multi, of p]
  have pv: "pview ?s ((v, p), j) = (if j < ?n \<and> bvalid vb p j then Some (ppLPNs vb ! p ! j) else None)" for j
    using B p u by (simp add: pview_block [OF v] blk_view_def in_blk_def blpn_def)
  let ?any = "\<exists>i<?n. bvalid vb p i"
  have info: "getPageInfo vb p (Bitset_new ?n) = Inr (?any, ppLPNs vb ! p, validBits vb ! p)"
    using getPageInfo_multi [OF wf multi, of p "Bitset_new ?n"] B(2,3) p pos(3)
    by (simp add: bitset_size_def)
  have fb: "find_block ?s v = Inr vb" using v by simp
  show ?thesis
  proof (cases ?any)
    case False
    then have "gc_page env v p g = Inr g" by (simp add: gc_page_def fb info)
    then show ?thesis using False relocates_refl [OF inv] by (simp add: gc_page_post_def pv)
  next
    case True
    let ?flags = "if \<not> bRandomTweak ?s then bs_of (\<lambda>_. True) ?n else validBits vb ! p"
    have Wf: "bs_wf (validBits vb ! p)" "dataSize (validBits vb ! p) = ?n" using W B(2,3) p by auto
    have flags: "bs_wf ?flags" "dataSize ?flags = ?n" using Wf pos(3) by auto
    have flag_iff: "bget ?flags j \<longleftrightarrow> pview ?s ((v, p), j) \<noteq> None" if j: "j < bitsetSize ?s" for j
    proof (cases "bRandomTweak ?s")
      case True
      then show ?thesis using j pos(1) multi by (simp add: pv bvalid_def)
    next
      case False
      then have "bitsetSize ?s = 1" using base by (auto simp: pm_base_def params_ok_def)
      moreover from \<open>?any\<close> obtain i where i: "i < ?n" "bvalid vb p i" by auto
      then have "i < bitsetSize ?s" by (intro pview_bitset [OF inv, of "(v, p)"]) (simp add: pv)
      ultimately show ?thesis using False i j pos(3) by (simp add: pv)
    qed
    have set_flags: "(if \<not> bRandomTweak ?s then bitset_set_all (validBits vb ! p) else Inr (validBits vb ! p)) = Inr ?flags"
      using Wf by simp
    have inf: "inflight {} ?s" using inv by (simp add: inflight_empty)
    have free': "0 < nFreeBlocks ?s \<or> F (Panic ''No free block left'')" using free ..
    have fl: "bRandomTweak ?s \<longrightarrow> dataSize ?flags = ?n" using flags(2) by (rule impI)
    note got = getLastFreeBlock_outcome [where F = F, OF inf flags(1) fl opn free']
    have any: "(\<not> ?any) = False" using True by simp
    show ?thesis
      unfolding gc_page_def Let_def fb info ebind_simps prod.case any if_False set_flags
    proof (intro outcome_bind, rule outcome_mono [OF got])
      fix x
      assume x: "case x of (k, s') \<Rightarrow>
        inflight {} s' \<and> same_config ?s s' \<and> lview s' = lview ?s \<and> pview s' = pview ?s \<and> table s' = table ?s \<and>
        (\<exists>b. map_of (blocks s') k = Some b \<and> (\<forall>i<?n. bnext b i < pagesInBlock (param ?s))) \<and>
        (\<forall>k'. map_of (blocks ?s) k' \<noteq> None \<longrightarrow> map_of (blocks s') k' = map_of (blocks ?s) k') \<and>
        lastFreeBlock s' ! lastFreeBlockIndex s' = k \<and>
        set (lastFreeBlock s') \<subseteq> insert k (set (lastFreeBlock ?s)) \<and> (open_ok ?s \<longrightarrow> open_ok s') \<and>
        nFreeBlocks ?s \<le> nFreeBlocks s' + 1"
      obtain k s2 where xk: "x = (k, s2)" by (cases x)
      from x obtain b where s2: "inflight {} s2" "same_config ?s s2" "lview s2 = lview ?s" "pview s2 = pview ?s"
        "map_of (blocks s2) k = Some b" "\<forall>i<?n. bnext b i < pagesInBlock (param ?s)"
        "\<forall>k'. map_of (blocks ?s) k' \<noteq> None \<longrightarrow> map_of (blocks s2) k' = map_of (blocks ?s) k'"
        "open_ok ?s \<longrightarrow> open_ok s2" "set (lastFreeBlock s2) \<subseteq> insert k (set (lastFreeBlock ?s))"
        by (auto simp: xk)
      note C2 = config_units [OF s2(2)]
      have notfull: "\<not> fullb ?s k" using s2(5-7) by (force simp: fullb_def)
      have "next_mono ?s s2" unfolding next_mono_def using s2(7) by auto
      then have rel: "relocates {v} ?s s2"
        using s2 notfull by (auto simp: relocates_def inflight_empty)
      have start: "gc_looping ?s s2 v p k b 0 s2"
        using rel s2(4,5) by (auto simp: gc_looping_def)
      let ?g = "g\<lparr>gcMap := s2, gcReads := gcReads g @ [(PALRequest_new (unitsInPage (param s2)))
                   \<lparr>palBlockIndex := v, palPageIndex := p, palIoFlag := ?flags\<rparr>]\<rparr>"
      have "outcome F (efold (gc_unit env v p k (ppLPNs vb ! p) ?flags) [0..<bitsetSize s2] ?g)
          (\<lambda>g'. gc_looping ?s s2 v p k b (bitsetSize s2) (gcMap g'))"
      proof (rule outcome_loop [where P = "\<lambda>i g'. gc_looping ?s s2 v p k b i (gcMap g')"])
        show "gc_looping ?s s2 v p k b 0 (gcMap ?g)" using start by simp
        show "outcome F (gc_unit env v p k (ppLPNs vb ! p) ?flags i g')
            (\<lambda>g'. gc_looping ?s s2 v p k b (Suc i) (gcMap g'))"
          if "i < bitsetSize s2" "gc_looping ?s s2 v p k b i (gcMap g')" for i g'
          by (rule gc_looping_step [OF that(2) notfull s2(6) _ env refl flags flag_iff])
             (use that(1) C2 W B(2,3) p in \<open>auto simp: pv split: if_splits\<close>)
      qed simp
      then have "outcome F (efold (gc_unit env v p k (ppLPNs vb ! p) ?flags) [0..<bitsetSize s2] ?g)
          (\<lambda>g'. gc_page_post ?s v p (gcMap g'))"
      proof (rule outcome_mono)
        fix g'
        assume L: "gc_looping ?s s2 v p k b (bitsetSize s2) (gcMap g')"
        have "pview (gcMap g') ((v, p), j) = None" if "fullb ?s v" for j
        proof -
          have "v \<noteq> k" using that notfull by auto
          moreover have "j < bitsetSize s2 \<or> pview ?s ((v, p), j) = None"
            using pview_bitset [OF inv, of "(v, p)" j] C2 by (cases "pview ?s ((v, p), j)") auto
          ultimately show ?thesis using L unfolding gc_looping_def by blast
        qed
        with L show "gc_page_post ?s v p (gcMap g')" by (simp add: gc_page_post_def gc_looping_def)
      qed
      then show "outcome F (case x of (newBlockIdx, s) \<Rightarrow>
            ebind (efold (gc_unit env v p newBlockIdx (ppLPNs vb ! p) ?flags) [0..<bitsetSize s]
              (g\<lparr>gcMap := s, gcReads := gcReads g @ [(PALRequest_new (unitsInPage (param s)))
                   \<lparr>palBlockIndex := v, palPageIndex := p, palIoFlag := ?flags\<rparr>]\<rparr>))
            (\<lambda>g. Inr (g\<lparr>gcMap := gcMap g\<lparr>stat := stat (gcMap g)
               \<lparr>validSuperPageCopies := validSuperPageCopies (stat (gcMap g)) + 1\<rparr>\<rparr>\<rparr>)))
          (\<lambda>g'. gc_page_post ?s v p (gcMap g'))"
        unfolding xk prod.case by (intro outcome_bind) (erule outcome_mono, simp)
    qed
  qed
qed

end
