(* ===== verification/PageMappingCollect.thy ===== *)
theory PageMappingCollect
  imports PageMappingGC
begin

text \<open>
  Whole garbage collections in \<^verbatim>\<open>src/ftl/page_mapping.cc\<close>: collecting a list of victims,
  erasing them, and what a write or a format leaves behind when it collects.
\<close>

section \<open>Collecting blocks\<close>

definition gc_empty :: "page_mapping \<Rightarrow> nat \<Rightarrow> page_mapping \<Rightarrow> bool" where
  "gc_empty s v t \<longleftrightarrow> (fullb s v \<longrightarrow> (\<forall>p j. pview t ((v, p), j) = None))"

lemma relocates_block:
  assumes "relocates V s t" and "map_of (blocks s) k \<noteq> None"
  shows "map_of (blocks t) k \<noteq> None"
  using assms by (auto simp: relocates_def elim!: next_monoD)

lemma relocates_full:
  "relocates V s t \<Longrightarrow> fullb s k \<Longrightarrow> fullb t k"
  using fullb_mono [of t s k] by (simp add: relocates_def pm_inv_def)

lemma relocates_param: "relocates V s t \<Longrightarrow> param t = param s"
  by (simp add: relocates_def same_config_def)

lemma gc_block_outcome:
  assumes inv: "pm_inv (gcMap g)" and env: "env_faults F env" and u: "unitsInPage (param (gcMap g)) \<noteq> 1"
    and v: "map_of (blocks (gcMap g)) v \<noteq> None"
    and opn: "open_ok (gcMap g) \<or> F (Panic ''Corrupted'')" and free: "F (Panic ''No free block left'')"
  shows "outcome F (gc_block env v g) (\<lambda>g'. relocates {v} (gcMap g) (gcMap g') \<and>
    gc_empty (gcMap g) v (gcMap g') \<and>
    map palBlockIndex (gcErases g') = map palBlockIndex (gcErases g) @ [v])"
proof -
  let ?s = "gcMap g"
  have base: "pm_base ?s" using inv by (simp add: pm_inv_def)
  let ?P = "\<lambda>q g'. relocates {v} ?s (gcMap g') \<and> gcErases g' = gcErases g \<and>
    (fullb ?s v \<longrightarrow> (\<forall>p<q. \<forall>j. pview (gcMap g') ((v, p), j) = None))"
  have loop: "outcome F (efold (gc_page env v) [0..<pagesInBlock (param ?s)] g) (?P (pagesInBlock (param ?s)))"
  proof (rule outcome_loop [where P = ?P])
    show "?P 0 g" using relocates_refl [OF inv] by simp
  next
    fix q and g1 :: "'a gc_state"
    assume q: "q < pagesInBlock (param ?s)" and P: "?P q g1"
    then have r: "relocates {v} ?s (gcMap g1)" by simp
    then have inv1: "pm_inv (gcMap g1)" and o1: "open_ok ?s \<longrightarrow> open_ok (gcMap g1)"
      by (simp_all add: relocates_def)
    obtain vb where vb: "map_of (blocks (gcMap g1)) v = Some vb" using relocates_block [OF r v] by auto
    have "outcome F (gc_page env v q g1) (\<lambda>g'. gc_page_post (gcMap g1) v q (gcMap g'))"
      by (rule gc_page_outcome [OF inv1 env _ vb])
         (use u q opn free o1 relocates_param [OF r] in auto)
    then show "outcome F (gc_page env v q g1) (?P (Suc q))"
    proof (rule outcome_mono)
      fix g2 :: "'a gc_state"
      assume run: "gc_page env v q g1 = Inr g2" and post: "gc_page_post (gcMap g1) v q (gcMap g2)"
      then have r2: "relocates {v} (gcMap g1) (gcMap g2)" by (simp add: gc_page_post_def)
      have "pview (gcMap g2) ((v, p), j) = None" if "fullb ?s v" "p < Suc q" for p j
      proof (cases "p = q")
        case True
        then show ?thesis using post relocates_full [OF r that(1)] by (simp add: gc_page_post_def)
      next
        case False
        then show ?thesis
          using relocates_empty [OF r2 inv1 relocates_full [OF r that(1)]] P that by simp
      qed
      then show "?P (Suc q) g2"
        using relocates_trans [OF r r2] P gc_page_erases [OF run] by auto
    qed
  qed simp
  have empty: "gc_empty ?s v t" if "relocates {v} ?s t"
    "fullb ?s v \<longrightarrow> (\<forall>p<pagesInBlock (param ?s). \<forall>j. pview t ((v, p), j) = None)" for t
    unfolding gc_empty_def
  proof (intro impI allI)
    fix p j
    assume f: "fullb ?s v"
    show "pview t ((v, p), j) = None"
    proof (cases "p < pagesInBlock (param ?s)")
      case False
      moreover have "pm_base t" using that(1) by (simp add: relocates_def pm_inv_def)
      ultimately show ?thesis
        using relocates_param [OF that(1)] by (cases "pview t ((v, p), j)") (auto elim: pview_SomeD)
    qed (use that f in auto)
  qed
  obtain vb where vb: "map_of (blocks ?s) v = Some vb" using v by auto
  have pos: "0 < unitsInPage (param t)" if "relocates {v} ?s t" for t
    using bitset_units(3) [OF base] relocates_param [OF that] by simp
  show ?thesis
    unfolding gc_block_def vb option.case
    by (intro outcome_bind, rule outcome_mono [OF loop]) (auto simp: Let_def pos intro: empty)
qed

text \<open>
  A collection over a list of victims: nothing is lost, the victims end up empty, and the erase
  requests name the victims in order.
\<close>

lemma gc_blocks_outcome:
  assumes "pm_inv (gcMap g)" and "set vs \<subseteq> V" and env: "env_faults F env"
    and "unitsInPage (param (gcMap g)) \<noteq> 1"
    and "\<forall>v\<in>set vs. map_of (blocks (gcMap g)) v \<noteq> None"
    and "open_ok (gcMap g) \<or> F (Panic ''Corrupted'')" and free: "F (Panic ''No free block left'')"
  shows "outcome F (efold (gc_block env) vs g) (\<lambda>g'. relocates V (gcMap g) (gcMap g') \<and>
    (\<forall>v\<in>set vs. gc_empty (gcMap g) v (gcMap g')) \<and>
    map palBlockIndex (gcErases g') = map palBlockIndex (gcErases g) @ vs)"
  using assms(1,2,4-6)
proof (induction vs arbitrary: g)
  case Nil
  then show ?case by (simp add: relocates_refl)
next
  case (Cons v vs)
  have "outcome F (gc_block env v g) (\<lambda>g'. relocates {v} (gcMap g) (gcMap g') \<and>
    gc_empty (gcMap g) v (gcMap g') \<and> map palBlockIndex (gcErases g') = map palBlockIndex (gcErases g) @ [v])"
    by (rule gc_block_outcome [OF Cons.prems(1) env Cons.prems(3) _ Cons.prems(5) free])
       (use Cons.prems in auto)
  then have step: "outcome F (gc_block env v g) (\<lambda>g'. relocates V (gcMap g) (gcMap g') \<and>
    gc_empty (gcMap g) v (gcMap g') \<and> map palBlockIndex (gcErases g') = map palBlockIndex (gcErases g) @ [v])"
    by (rule outcome_mono) (use Cons.prems(2) relocates_mono [of "{v}" _ _ V] in auto)
  show ?case
    unfolding efold.simps
  proof (rule outcome_bind, rule outcome_mono [OF step], elim conjE)
    fix g1 :: "'a gc_state"
    assume r: "relocates V (gcMap g) (gcMap g1)" and e: "gc_empty (gcMap g) v (gcMap g1)"
      and er: "map palBlockIndex (gcErases g1) = map palBlockIndex (gcErases g) @ [v]"
    have inv1: "pm_inv (gcMap g1)" using r by (simp add: relocates_def)
    have "outcome F (efold (gc_block env) vs g1) (\<lambda>g'. relocates V (gcMap g1) (gcMap g') \<and>
      (\<forall>v\<in>set vs. gc_empty (gcMap g1) v (gcMap g')) \<and>
      map palBlockIndex (gcErases g') = map palBlockIndex (gcErases g1) @ vs)"
      by (rule Cons.IH [OF inv1])
         (use Cons.prems(2-5) relocates_block [OF r] relocates_param [OF r] r in
           \<open>auto simp: relocates_def\<close>)
    then show "outcome F (efold (gc_block env) vs g1) (\<lambda>g'. relocates V (gcMap g) (gcMap g') \<and>
      (\<forall>v'\<in>set (v # vs). gc_empty (gcMap g) v' (gcMap g')) \<and>
      map palBlockIndex (gcErases g') = map palBlockIndex (gcErases g) @ v # vs)"
    proof (rule outcome_mono, elim conjE, intro conjI)
      fix g2 :: "'a gc_state"
      assume r2: "relocates V (gcMap g1) (gcMap g2)" and e2: "\<forall>v\<in>set vs. gc_empty (gcMap g1) v (gcMap g2)"
      show "relocates V (gcMap g) (gcMap g2)" using relocates_trans [OF r r2] .
      show "\<forall>v'\<in>set (v # vs). gc_empty (gcMap g) v' (gcMap g2)"
        using e e2 relocates_full [OF r] relocates_empty [OF r2 inv1] by (auto simp: gc_empty_def)
    qed (use er in simp)
  qed
qed

section \<open>Erasing\<close>

lemma set_insert_behind: "set (insert_behind c b xs) = insert b (set xs)"
  by (induction xs) auto

lemma length_insert_behind: "length (insert_behind c b xs) = Suc (length xs)"
  by (induction xs) auto

lemma distinct_insert_behind:
  "distinct (map f (insert_behind c b xs)) \<longleftrightarrow> f b \<notin> f ` set xs \<and> distinct (map f xs)"
  by (induction xs) (auto simp: set_insert_behind)

lemma sorted_insert_behind:
  "sorted_wrt (\<ge>) (map getEraseCount xs) \<Longrightarrow>
     sorted_wrt (\<ge>) (map getEraseCount (insert_behind (getEraseCount b) b xs))"
  by (induction xs) (auto simp: set_insert_behind)

text \<open>The free list stays ordered by wear, so that the least worn block is taken first.\<close>

lemma emplaceFree_sorted:
  assumes "emplaceFree b fs = Inr fs'" and "sorted (map getEraseCount fs)"
  shows "sorted (map getEraseCount fs')"
proof -
  have "sorted_wrt (\<ge>) (map getEraseCount (rev fs))"
    using assms(2) by (simp add: sorted_wrt_rev rev_map [symmetric])
  then have "sorted_wrt (\<ge>) (map getEraseCount (insert_behind (getEraseCount b) b (rev fs)))"
    by (rule sorted_insert_behind)
  then show ?thesis
    using assms(1) by (auto simp: emplaceFree_def sorted_wrt_rev rev_map [symmetric] split: if_splits)
qed

lemma emplaceFree_ok:
  assumes "emplaceFree b fs = Inr fs'"
  shows "set fs' = insert b (set fs)" and "length fs' = Suc (length fs)"
    and "distinct (map f fs') \<longleftrightarrow> f b \<notin> f ` set fs \<and> distinct (map f fs)"
  using assms by (auto simp: emplaceFree_def set_insert_behind length_insert_behind distinct_insert_behind
      rev_map [symmetric] split: if_splits)

definition erased_post :: "ftl_conf \<Rightarrow> nat \<Rightarrow> page_mapping \<Rightarrow> page_mapping \<Rightarrow> bool" where
  "erased_post cf v s s' \<longleftrightarrow> pm_inv s' \<and> same_config s s' \<and> lview s' = lview s \<and>
     table s' = table s \<and> blocks s' = tbl_del v (blocks s) \<and> lastFreeBlock s' = lastFreeBlock s \<and>
     (sorted (map getEraseCount (freeBlocks s)) \<longrightarrow> sorted (map getEraseCount (freeBlocks s'))) \<and>
     (\<forall>b. map_of (blocks s) v = Some b \<longrightarrow>
        nFreeBlocks s' = (if (eraseCount b + 1) mod 2 ^ 32 < cfBadBlockThreshold cf
                          then nFreeBlocks s + 1 else nFreeBlocks s))"

lemma pview_tbl_del:
  assumes "\<And>p j. pview s ((v, p), j) = None" and "blocks s' = tbl_del v (blocks s)"
  shows "pview s' = pview s"
proof (rule ext)
  fix x :: "phys \<times> nat"
  obtain k p j where x: "x = ((k, p), j)" by (cases x) auto
  show "pview s' x = pview s x"
    using assms(1) [of p j] unfolding x by (cases "k = v") (simp_all add: pview_def assms(2))
qed

lemma eraseInternal_outcome:
  assumes inv: "pm_inv s" and env: "env_faults F env"
    and b: "map_of (blocks s) (palBlockIndex req) = Some b"
    and empty: "\<And>p j. pview s ((palBlockIndex req, p), j) = None"
    and pool: "freeBlocks s \<noteq> [] \<or> F (Undefined ''decrement of begin'') \<or>
      cfBadBlockThreshold cf \<le> (eraseCount b + 1) mod 2 ^ 32"
  shows "outcome F (eraseInternal env cf req s h tk) (\<lambda>(s', _, _). erased_post cf (palBlockIndex req) s s')"
proof -
  let ?v = "palBlockIndex req" and ?b = "blk_erased b"
  have base: "pm_base s" and lk: "linked (lview s) (pview s)" using inv by (simp_all add: pm_inv_def)
  note B = pm_base_block [OF base b]
  have wf: "blk_wf b" using B(1) by (simp add: blk_inv_def)
  have free: "free_ok s" using base by (simp add: pm_base_def)
  have invalid: "\<not> bvalid b p j" if "p < pageCount b" "j < ioUnitInPage b" for p j
    using empty [of p j] that by (auto simp: pview_block [OF b] blk_view_def in_blk_def split: if_splits)
  then have cnt: "getValidPageCount b = Inr 0" using getValidPageCount_0 [OF wf] by (auto simp: in_blk_def)
  have fresh: "fresh_block ?b" and ok: "blk_ok (param s) ?b"
  proof -
    show "fresh_block ?b" using wf blk_wf_pos [OF wf]
      by (auto simp: fresh_block_def blk_view_def fun_eq_iff bnext_def)
    show "blk_ok (param s) ?b" using B wf by (auto simp: blk_ok_def)
  qed
  have post: "erased_post cf ?v s (s\<lparr>freeBlocks := fs, nFreeBlocks := n, blocks := tbl_del ?v (blocks s)\<rparr>)"
    if fs: "if eraseCount ?b < cfBadBlockThreshold cf then emplaceFree ?b (freeBlocks s) = Inr fs \<and> n = nFreeBlocks s + 1
            else fs = freeBlocks s \<and> n = nFreeBlocks s" for fs n
  proof -
    let ?s = "s\<lparr>freeBlocks := fs, nFreeBlocks := n, blocks := tbl_del ?v (blocks s)\<rparr>"
    have lv: "lview ?s = lview s" by (rule views_cong) simp_all
    have pv: "pview ?s = pview s" by (rule pview_tbl_del [OF empty]) simp
    have "free_ok ?s"
    proof (cases "eraseCount ?b < cfBadBlockThreshold cf")
      case True
      with fs have e: "emplaceFree ?b (freeBlocks s) = Inr fs" "n = nFreeBlocks s + 1" by auto
      have "blkIdx ?b \<notin> blkIdx ` set (freeBlocks s)" using free b B(4) by (auto simp: free_ok_def)
      with free fresh ok B(4) show ?thesis
        using emplaceFree_ok(1,2) [OF e(1)] emplaceFree_ok(3) [OF e(1), of blkIdx] e(2)
        by (auto simp: free_ok_def)
    next
      case False
      with fs free show ?thesis by (auto simp: free_ok_def)
    qed
    moreover have "blocks_ok ?s" using base by (auto simp: pm_base_def blocks_ok_def)
    ultimately have "pm_base ?s"
      using base by (simp add: pm_base_def params_ok_def table_ok_def stream_ok_def in_range_def unmapped_def)
    with lk have "pm_inv ?s" by (simp add: pm_inv_def lv pv)
    moreover have "sorted (map getEraseCount (freeBlocks s)) \<longrightarrow> sorted (map getEraseCount fs)"
      using fs emplaceFree_sorted by (auto split: if_splits)
    ultimately show ?thesis
      using lv fs b by (auto simp: erased_post_def same_config_def split: if_splits)
  qed
  have pool': "outcome F (if getEraseCount ?b < cfBadBlockThreshold cf then
        ebind (emplaceFree ?b (freeBlocks s)) (\<lambda>fs. Inr (s\<lparr>freeBlocks := fs, nFreeBlocks := nFreeBlocks s + 1\<rparr>))
      else Inr s) (\<lambda>t. erased_post cf ?v s (t\<lparr>blocks := tbl_del ?v (blocks t)\<rparr>))"
  proof (cases "eraseCount ?b < cfBadBlockThreshold cf")
    case True
    show ?thesis
    proof (cases "emplaceFree ?b (freeBlocks s)")
      case (Inl e)
      then have "e = Undefined ''decrement of begin''" "freeBlocks s = []"
        by (auto simp: emplaceFree_def split: if_splits)
      with pool True Inl show ?thesis by (auto simp: getEraseCount_def)
    next
      case (Inr fs)
      with True post [of fs "nFreeBlocks s + 1"] show ?thesis by (simp add: getEraseCount_def)
    qed
  next
    case False
    with post [of "freeBlocks s" "nFreeBlocks s"] show ?thesis by (simp add: getEraseCount_def)
  qed
  show ?thesis
    unfolding eraseInternal_def b option.case cnt ebind_simps block_erase_eq [OF wf]
    by (simp only: if_False simp_thms)
       (intro outcome_bind env_outcome [OF env], simp only: prod.case, intro outcome_bind,
        rule outcome_mono [OF pool'], simp add: Let_def, intro outcome_bind env_outcome [OF env], simp)
qed

text \<open>Erasing a list of empty blocks.\<close>

definition erased_all :: "nat set \<Rightarrow> page_mapping \<Rightarrow> page_mapping \<Rightarrow> bool" where
  "erased_all V s s' \<longleftrightarrow> pm_inv s' \<and> same_config s s' \<and> lview s' = lview s \<and>
     lastFreeBlock s' = lastFreeBlock s \<and> nFreeBlocks s \<le> nFreeBlocks s' \<and>
     (sorted (map getEraseCount (freeBlocks s)) \<longrightarrow> sorted (map getEraseCount (freeBlocks s'))) \<and>
     (\<forall>k. map_of (blocks s') k = (if k \<in> V then None else map_of (blocks s) k))"

lemma erase_all_outcome:
  assumes "pm_inv s" and env: "env_faults F env" and "distinct (map palBlockIndex reqs)"
    and "\<forall>r\<in>set reqs. map_of (blocks s) (palBlockIndex r) \<noteq> None \<and>
      (\<forall>p j. pview s ((palBlockIndex r, p), j) = None)"
    and "0 < nFreeBlocks s \<or> F (Undefined ''decrement of begin'')"
  shows "outcome F (erase_all env cf reqs t fin s h)
    (\<lambda>(_, s', _). erased_all (palBlockIndex ` set reqs) s s')"
  using assms(1,3-5) unfolding erase_all_def
proof (induction reqs arbitrary: fin s h)
  case Nil
  then show ?case by (simp add: erased_all_def same_config_refl)
next
  case (Cons r rs)
  let ?v = "palBlockIndex r" and ?W = "palBlockIndex ` set rs"
  obtain b where b: "map_of (blocks s) ?v = Some b" using Cons.prems(3) by auto
  have "nFreeBlocks s = length (freeBlocks s)"
    using Cons.prems(1) by (simp add: pm_inv_def pm_base_def free_ok_def)
  then have pool: "freeBlocks s \<noteq> [] \<or> F (Undefined ''decrement of begin'') \<or>
      cfBadBlockThreshold cf \<le> (eraseCount b + 1) mod 2 ^ 32"
    using Cons.prems(4) by auto
  note er = eraseInternal_outcome [OF Cons.prems(1) env b _ pool, of h t]
  have ne: "\<forall>q\<in>set rs. palBlockIndex q \<noteq> ?v" using Cons.prems(2) by (auto simp: image_iff)
  have "outcome F (eraseInternal env cf r s h t) (\<lambda>(s', _, _). erased_post cf ?v s s')"
    by (rule er) (use Cons.prems(3) in auto)
  then show ?case
    unfolding efold.simps prod.case
  proof (intro outcome_bind, elim outcome_mono, clarsimp simp del: efold.simps)
    fix s1 h1 t1
    assume P: "erased_post cf ?v s s1"
    then have inv1: "pm_inv s1" and bl: "blocks s1 = tbl_del ?v (blocks s)"
      and n: "nFreeBlocks s \<le> nFreeBlocks s1" using b by (auto simp: erased_post_def)
    have pv: "pview s1 = pview s" by (rule pview_tbl_del [OF _ bl]) (use Cons.prems(3) in simp)
    have "outcome F (efold (\<lambda>r (fin, s, h). ebind (eraseInternal env cf r s h t)
        (\<lambda>(s, h, t). Inr (max fin t, s, h))) rs (max fin t1, s1, h1)) (\<lambda>(_, s', _). erased_all ?W s1 s')"
      by (rule Cons.IH [OF inv1]) (use Cons.prems(2-4) n ne in \<open>auto simp: bl pv\<close>)
    then show "outcome F (efold (\<lambda>r (fin, s, h). ebind (eraseInternal env cf r s h t)
        (\<lambda>(s, h, t). Inr (max fin t, s, h))) rs (max fin t1, s1, h1))
        (\<lambda>(_, s', _). erased_all (insert ?v ?W) s s')"
      by (rule outcome_mono)
         (use P n bl in \<open>auto simp: erased_all_def erased_post_def elim: same_config_trans\<close>)
  qed
qed

section \<open>Whole collections\<close>

lemma send_all_outcome:
  "(\<And>r t h. outcome F (op r t h) (\<lambda>_. True)) \<Longrightarrow> outcome F (send_all op reqs t fin h) (\<lambda>_. True)"
  unfolding send_all_def
  by (rule outcome_efold [where P = "\<lambda>_. True"])
     (auto intro!: outcome_bind intro: outcome_weak)

text \<open>
  After a collection of full blocks the victims are free (or retired) and every logical unit is
  still mapped, at the place it had unless that was on a victim.
\<close>

definition collected :: "nat set \<Rightarrow> page_mapping \<Rightarrow> page_mapping \<Rightarrow> bool" where
  "collected V s s' \<longleftrightarrow> pm_inv s' \<and> same_config s s' \<and> dom (lview s') = dom (lview s) \<and>
     (\<forall>x m. lview s x = Some m \<longrightarrow> fst m \<notin> V \<longrightarrow> lview s' x = Some m) \<and>
     (\<forall>x m. lview s' x = Some m \<longrightarrow> fst m \<notin> V) \<and>
     (\<forall>k\<in>V. map_of (blocks s') k = None) \<and>
     (open_ok s \<and> V \<inter> set (lastFreeBlock s) = {} \<longrightarrow> open_ok s')"

lemma collected_Nil: "pm_inv s \<Longrightarrow> collected {} s s"
  by (simp add: collected_def)

lemma collectedI:
  assumes r: "relocates V s t" and e: "erased_all V t s'" and full: "\<forall>v\<in>V. fullb s v"
  shows "collected V s s'"
proof -
  have E: "pm_inv s'" "same_config t s'" "lview s' = lview t" "lastFreeBlock s' = lastFreeBlock t"
    "\<And>k. map_of (blocks s') k = (if k \<in> V then None else map_of (blocks t) k)"
    using e by (simp_all add: erased_all_def)
  have R: "same_config s t" "dom (lview t) = dom (lview s)" "open_ok s \<longrightarrow> open_ok t"
    "set (lastFreeBlock t) \<subseteq> set (lastFreeBlock s) \<union> {k. \<not> fullb s k}"
    "\<And>x m. lview s x = Some m \<Longrightarrow> fst m \<notin> V \<Longrightarrow> lview t x = Some m"
    using r unfolding relocates_def by blast+
  have "fst m \<notin> V" if "lview s' x = Some m" for x m
  proof -
    obtain k p where m: "m = (k, p)" by (cases m)
    obtain l j where x: "x = (l, j)" by (cases x)
    have "pview s' ((k, p), j) = Some l"
      using that E(1) linkedD [of "lview s'" "pview s'"] by (simp add: pm_inv_def m x)
    then have "map_of (blocks s') k \<noteq> None" by (auto simp: pview_def split: option.splits)
    then show ?thesis using E(5) [of k] by (auto simp: m split: if_splits)
  qed
  moreover have "open_ok s'" if "open_ok s" "V \<inter> set (lastFreeBlock s) = {}"
    unfolding open_ok_def
  proof
    fix k
    assume k: "k \<in> set (lastFreeBlock s')"
    then have "k \<notin> V" using R(4) E(4) that(2) full by auto
    then show "map_of (blocks s') k \<noteq> None" using k E(4,5) R(3) that(1) by (simp add: open_ok_def)
  qed
  moreover have "same_config s s'" using same_config_trans [OF R(1) E(2)] .
  ultimately show ?thesis
    unfolding collected_def
  proof (intro conjI E(1))
    show "dom (lview s') = dom (lview s)" by (simp only: E(3) R(2))
    show "\<forall>x m. lview s x = Some m \<longrightarrow> fst m \<notin> V \<longrightarrow> lview s' x = Some m"
      unfolding E(3) using R(5) by blast
    show "\<forall>k\<in>V. map_of (blocks s') k = None" using E(5) by simp
  qed blast+
qed

theorem doGarbageCollection_outcome:
  assumes inv: "pm_inv s" and env: "env_faults F env" and u: "unitsInPage (param s) \<noteq> 1"
    and vs: "distinct vs" "\<forall>v\<in>set vs. fullb s v"
    and opn: "open_ok s \<or> F (Panic ''Corrupted'')"
    and free: "F (Panic ''No free block left'')" "F (Undefined ''decrement of begin'')"
  shows "outcome F (doGarbageCollection env cf vs s h tk) (\<lambda>(s', _, _). collected (set vs) s s')"
proof (cases "vs = []")
  case True
  then show ?thesis using collected_Nil [OF inv] by (simp add: doGarbageCollection_def)
next
  case False
  let ?g = "\<lparr>gcMap = s, gcHw = h, gcTick = tk, gcReads = [], gcWrites = [], gcErases = []\<rparr>"
  have there: "\<forall>v\<in>set vs. map_of (blocks s) v \<noteq> None" using vs(2) by (auto simp: fullb_def)
  have coll: "outcome F (gc_collect env vs s h tk) (\<lambda>g. relocates (set vs) s (gcMap g) \<and>
    (\<forall>v\<in>set vs. gc_empty s v (gcMap g)) \<and> map palBlockIndex (gcErases g) = vs)"
    using gc_blocks_outcome [of ?g vs "set vs", OF _ order_refl env _ _ _ free(1)] inv u there opn
    by (simp add: gc_collect_def)
  show ?thesis
    unfolding doGarbageCollection_def if_not_P [OF False]
  proof (intro outcome_bind, rule outcome_mono [OF coll], elim conjE)
    fix g :: "'a gc_state"
    assume r: "relocates (set vs) s (gcMap g)" and e: "\<forall>v\<in>set vs. gc_empty s v (gcMap g)"
      and er: "map palBlockIndex (gcErases g) = vs"
    have idx: "palBlockIndex ` set (gcErases g) = set vs" using er by (metis set_map)
    have erase: "outcome F (erase_all env cf (gcErases g) t fin (gcMap g) h')
        (\<lambda>(_, s', _). erased_all (palBlockIndex ` set (gcErases g)) (gcMap g) s')" for t fin h'
    proof (rule erase_all_outcome [OF _ env])
      show "pm_inv (gcMap g)" using r by (simp add: relocates_def)
      show "distinct (map palBlockIndex (gcErases g))" using er vs(1) by simp
      show "\<forall>q\<in>set (gcErases g). map_of (blocks (gcMap g)) (palBlockIndex q) \<noteq> None \<and>
          (\<forall>p j. pview (gcMap g) ((palBlockIndex q, p), j) = None)"
      proof
        fix q
        assume "q \<in> set (gcErases g)"
        then have "palBlockIndex q \<in> set vs" using idx by blast
        then show "map_of (blocks (gcMap g)) (palBlockIndex q) \<noteq> None \<and>
            (\<forall>p j. pview (gcMap g) ((palBlockIndex q, p), j) = None)"
          using there relocates_block [OF r] e vs(2) by (simp add: gc_empty_def)
      qed
    qed (use free in simp)
    have sends: "outcome F (send_all (palRead env) q t fin h') (\<lambda>_. True)"
      "outcome F (send_all (palWrite env) q t fin h') (\<lambda>_. True)" for q t fin h'
      using env by (simp_all add: send_all_outcome env_faults_def)
    show "outcome F (ebind (send_all (palRead env) (gcReads g) (gcTick g) tk (gcHw g)) (\<lambda>(readFinishedAt, h).
        ebind (send_all (palWrite env) (gcWrites g) readFinishedAt tk h) (\<lambda>(writeFinishedAt, h).
        ebind (erase_all env cf (gcErases g) readFinishedAt tk (gcMap g) h) (\<lambda>(eraseFinishedAt, s, h).
        ebind (cpuLatency env FTL__PAGE_MAPPING DO_GARBAGE_COLLECTION h) (\<lambda>(l, h).
        Inr (s, h, max writeFinishedAt eraseFinishedAt + l))))))
        (\<lambda>(s', _, _). collected (set vs) s s')"
      by (intro outcome_bind outcome_weak [OF sends(1)] outcome_weak [OF sends(2)], simp only: prod.case,
          intro outcome_bind outcome_weak [OF sends(2)], simp only: prod.case,
          intro outcome_bind, rule outcome_mono [OF erase])
         (auto simp: idx intro!: outcome_bind env_outcome [OF env] collectedI [OF r] vs(2))
  qed
qed

end
