(* ===== verification/PageMappingSelect.thy ===== *)
theory PageMappingSelect
  imports PageMappingCollect "HOL-Library.Multiset"
begin

text \<open>
  Victim selection in \<^verbatim>\<open>src/ftl/page_mapping.cc\<close>. The candidates are exactly the full blocks in
  use. Without a random policy the victims are the first of the candidates in the order
  \<open>std::sort\<close> gives them; the rejection loop of the random policies takes distinct candidates, and
  does not end when it is asked for more of them than there are.
\<close>

section \<open>Candidates\<close>

definition full_blocks :: "page_mapping \<Rightarrow> (nat \<times> block) list" where
  "full_blocks s = filter (\<lambda>(k, b). fullb s k) (blocks s)"

lemma blocks_mem:
  assumes "pm_base s" and "(k, b) \<in> set (blocks s)"
  shows "map_of (blocks s) k = Some b"
  using assms by (simp add: pm_base_def blocks_ok_def)

lemma next_full:
  assumes base: "pm_base s" and mem: "(k, b) \<in> set (blocks s)"
  obtains n where "getNextWritePageIndex b = Inr n" and "n = pagesInBlock (param s) \<longleftrightarrow> fullb s k"
proof -
  have m: "map_of (blocks s) k = Some b" using blocks_mem [OF base mem] .
  note B = pm_base_block [OF base m] and pos = bitset_units(4) [OF base]
  have le: "\<forall>i<unitsInPage (param s). bnext b i \<le> pagesInBlock (param s)" using B by (auto simp: blk_inv_def)
  obtain n where n: "getNextWritePageIndex b = Inr n" "\<forall>i<unitsInPage (param s). bnext b i \<le> n"
    "n = 0 \<or> (\<exists>i<unitsInPage (param s). n = bnext b i)"
    using getNextWritePageIndex_Max [of b] B by (auto simp: blk_inv_def)
  have "n = pagesInBlock (param s) \<longleftrightarrow> (\<exists>i<unitsInPage (param s). bnext b i = pagesInBlock (param s))"
    using n(2,3) le pos by (metis le_antisym nat_less_le)
  with n(1) m show ?thesis by (intro that) (auto simp: fullb_def)
qed

definition units_valid :: "block \<Rightarrow> nat" where
  "units_valid b = (\<Sum>p\<leftarrow>[0..<pageCount b]. length (filter (bvalid b p) [0..<ioUnitInPage b]))"

lemma weigh_loop:
  assumes base: "pm_base s" and "set xs \<subseteq> set (blocks s)"
    and w: "\<And>k b. (k, b) \<in> set xs \<Longrightarrow> getValidPageCountRaw b = Inr (cnt b)"
  shows "efold (\<lambda>(k, b) weight.
      ebind (getNextWritePageIndex b) (\<lambda>n.
      if n \<noteq> pagesInBlock (param s) then Inr weight
      else ebind (getValidPageCountRaw b) (\<lambda>v. Inr (weight @ [(k, f k b v)])))) xs acc =
    Inr (acc @ map (\<lambda>(k, b). (k, f k b (cnt b))) (filter (\<lambda>(k, b). fullb s k) xs))"
  using assms(2,3)
proof (induction xs arbitrary: acc)
  case Nil
  then show ?case by simp
next
  case (Cons x xs)
  obtain k b where x: "x = (k, b)" by (cases x)
  obtain n where n: "getNextWritePageIndex b = Inr n" "n = pagesInBlock (param s) \<longleftrightarrow> fullb s k"
    using next_full [OF base, of k b] Cons.prems(1) x by auto
  have v: "getValidPageCountRaw b = Inr (cnt b)" using Cons.prems(2) [of k b] x by simp
  have w': "\<And>k b. (k, b) \<in> set xs \<Longrightarrow> getValidPageCountRaw b = Inr (cnt b)" and sub: "set xs \<subseteq> set (blocks s)"
    using Cons.prems by auto
  show ?case using Cons.IH [OF sub w'] n v x by (cases "fullb s k") simp_all
qed

text \<open>The candidates and their weights, for every policy the code accepts.\<close>

definition weight_of :: "page_mapping \<Rightarrow> ftl_evict_policy \<Rightarrow> tick \<Rightarrow> nat \<Rightarrow> block \<Rightarrow> f32" where
  "weight_of s policy tk v b =
     (if policy = POLICY_COST_BENEFIT then
        (let temp = f32_div (f32_of_nat v) (f32_of_nat (pagesInBlock (param s)));
             age = f32_of_nat (unat (tk - getLastAccessedTime b))
         in f32_div temp (f32_mul (f32_sub (Fin 1) temp) age))
      else f32_of_nat v)"

theorem calculateVictimWeight_eq:
  assumes base: "pm_base s" and pol: "policy \<noteq> POLICY_invalid"
  shows "calculateVictimWeight s policy tk =
    Inr (map (\<lambda>(k, b). (k, weight_of s policy tk (units_valid b) b)) (full_blocks s))"
proof -
  have w: "getValidPageCountRaw b = Inr (units_valid b)" if mem: "(k, b) \<in> set (blocks s)" for k b
    using getValidPageCountRaw_eq [of b] pm_base_block(1) [OF base blocks_mem [OF base mem]]
    by (simp add: blk_inv_def units_valid_def)
  show ?thesis
  proof (cases "policy = POLICY_COST_BENEFIT")
    case True
    with weigh_loop [OF base order_refl w, where acc = "[]" and f = "\<lambda>k b v. weight_of s policy tk v b"]
    show ?thesis
      unfolding calculateVictimWeight_def full_blocks_def weight_of_def Let_def True
        ftl_evict_policy.distinct simp_thms if_True if_False by simp
  next
    case False
    then have "policy = POLICY_GREEDY \<or> policy = POLICY_RANDOM \<or> policy = POLICY_DCHOICE"
      using pol by (cases policy) auto
    with False weigh_loop [OF base order_refl w, where acc = "[]" and f = "\<lambda>k b v. f32_of_nat v"]
    show ?thesis
      by (simp add: calculateVictimWeight_def full_blocks_def weight_of_def)
  qed
qed

lemma full_blocks_keys:
  assumes "pm_base s"
  shows "distinct (map fst (full_blocks s))" and "set (map fst (full_blocks s)) = {k. fullb s k}"
proof -
  show "distinct (map fst (full_blocks s))"
    using assms by (simp add: full_blocks_def pm_base_def blocks_ok_def distinct_map_filter)
  show "set (map fst (full_blocks s)) = {k. fullb s k}"
  proof
    show "set (map fst (full_blocks s)) \<subseteq> {k. fullb s k}" by (auto simp: full_blocks_def)
    show "{k. fullb s k} \<subseteq> set (map fst (full_blocks s))"
    proof
      fix k
      assume k: "k \<in> {k. fullb s k}"
      then obtain b where "map_of (blocks s) k = Some b" by (auto simp: fullb_def)
      then have "(k, b) \<in> set (full_blocks s)"
        using k by (auto simp: full_blocks_def dest: map_of_SomeD)
      then show "k \<in> set (map fst (full_blocks s))" by force
    qed
  qed
qed

section \<open>The sorted policies\<close>

text \<open>
  What \<open>std::sort\<close> promises: a permutation in ascending order. The comparison must be a strict weak
  ordering, which excludes weights that are not a number.
\<close>

definition sort_ok :: "'h ftl_env \<Rightarrow> bool" where
  "sort_ok env \<longleftrightarrow> (\<forall>w. (\<forall>x\<in>set w. snd x \<noteq> NaN) \<longrightarrow>
     mset (stdSort env w) = mset w \<and> sorted_wrt (\<lambda>a b. \<not> f32_less (snd b) (snd a)) (stdSort env w))"

definition weights_ok :: "page_mapping \<Rightarrow> ftl_evict_policy \<Rightarrow> tick \<Rightarrow> bool" where
  "weights_ok s policy tk \<longleftrightarrow> (\<forall>(k, b)\<in>set (full_blocks s). weight_of s policy tk (units_valid b) b \<noteq> NaN)"

definition victim_goal :: "ftl_conf \<Rightarrow> page_mapping \<Rightarrow> nat res" where
  "victim_goal cf s = ebind (case cfGcMode cf of
      GC_MODE_0 \<Rightarrow> Inr (cfReclaimBlock cf)
    | GC_MODE_1 \<Rightarrow> f32_to_uint 64 (f32_sub (f32_mul (f32_of_nat (totalPhysicalBlocks (param s)))
                     (cfReclaimThreshold cf)) (f32_of_nat (nFreeBlocks s)))
    | GC_MODE_invalid \<Rightarrow> Inl (Panic ''Invalid GC mode''))
    (\<lambda>n. Inr (if bReclaimMore s then n + pageCountToMaxPerf (param s) else n))"

lemma pm_base_reclaim [simp]:
  "pm_base (s\<lparr>bReclaimMore := r\<rparr>) = pm_base s" "fullb (s\<lparr>bReclaimMore := r\<rparr>) = fullb s"
  "full_blocks (s\<lparr>bReclaimMore := r\<rparr>) = full_blocks s" "lview (s\<lparr>bReclaimMore := r\<rparr>) = lview s"
  "pview (s\<lparr>bReclaimMore := r\<rparr>) = pview s" "pm_inv (s\<lparr>bReclaimMore := r\<rparr>) = pm_inv s"
  "weight_of (s\<lparr>bReclaimMore := r\<rparr>) = weight_of s" "open_ok (s\<lparr>bReclaimMore := r\<rparr>) = open_ok s"
proof -
  show lv: "lview (s\<lparr>bReclaimMore := r\<rparr>) = lview s" and pv: "pview (s\<lparr>bReclaimMore := r\<rparr>) = pview s"
    by (rule views_cong; simp)+
  show b: "pm_base (s\<lparr>bReclaimMore := r\<rparr>) = pm_base s"
    by (simp add: pm_base_def params_ok_def blocks_ok_def free_ok_def table_ok_def stream_ok_def
        in_range_def unmapped_def)
  show "pm_inv (s\<lparr>bReclaimMore := r\<rparr>) = pm_inv s" by (simp add: pm_inv_def lv pv b)
  show f: "fullb (s\<lparr>bReclaimMore := r\<rparr>) = fullb s" by (simp add: fullb_def fun_eq_iff)
  show "full_blocks (s\<lparr>bReclaimMore := r\<rparr>) = full_blocks s" by (simp add: full_blocks_def f)
  show "weight_of (s\<lparr>bReclaimMore := r\<rparr>) = weight_of s" by (simp add: weight_of_def fun_eq_iff)
  show "open_ok (s\<lparr>bReclaimMore := r\<rparr>) = open_ok s" by (simp add: open_ok_def)
qed

definition victims_ok :: "page_mapping \<Rightarrow> nat list \<Rightarrow> bool" where
  "victims_ok s vs \<longleftrightarrow> distinct vs \<and> (\<forall>v\<in>set vs. fullb s v)"

lemma selectVictimBlock_sorted:
  assumes base: "pm_base s" and pol: "cfEvictPolicy cf = POLICY_GREEDY \<or> cfEvictPolicy cf = POLICY_COST_BENEFIT"
  shows "selectVictimBlock env cf fuel s h tk = Some
    (ebind (victim_goal cf s) (\<lambda>n.
     let w = stdSort env (map (\<lambda>(k, b). (k, weight_of s (cfEvictPolicy cf) tk (units_valid b) b)) (full_blocks s))
     in ebind (cpuLatency env FTL__PAGE_MAPPING SELECT_VICTIM_BLOCK h) (\<lambda>(l, h).
        Inr (map fst (take (min n (length w)) w), s\<lparr>bReclaimMore := False\<rparr>, h, tk + l))))"
proof -
  have np: "cfEvictPolicy cf \<noteq> POLICY_invalid" "cfEvictPolicy cf \<noteq> POLICY_RANDOM" "cfEvictPolicy cf \<noteq> POLICY_DCHOICE"
    using pol by auto
  have base': "pm_base (s\<lparr>bReclaimMore := False\<rparr>)" using base by simp
  let ?n0 = "case cfGcMode cf of
      GC_MODE_0 \<Rightarrow> Inr (cfReclaimBlock cf)
    | GC_MODE_1 \<Rightarrow> f32_to_uint 64 (f32_sub (f32_mul (f32_of_nat (totalPhysicalBlocks (param s)))
                     (cfReclaimThreshold cf)) (f32_of_nat (nFreeBlocks s)))
    | GC_MODE_invalid \<Rightarrow> Inl (Panic ''Invalid GC mode'')"
  show ?thesis
  proof (cases ?n0)
    case (Inl e)
    then show ?thesis by (simp add: selectVictimBlock_def victim_goal_def)
  next
    case (Inr n)
    show ?thesis
      unfolding selectVictimBlock_def victim_goal_def Inr
      by (simp only: sum.case Let_def calculateVictimWeight_eq [OF base' np(1)] np if_False ebind_simps
          pm_base_reclaim option.map)
  qed
qed

lemma sorted_victims_ok:
  fixes f :: "nat \<Rightarrow> block \<Rightarrow> f32"
  assumes base: "pm_base s" and srt: "sort_ok env" and nan: "\<forall>(k, b)\<in>set (full_blocks s). f k b \<noteq> NaN"
  defines "w \<equiv> stdSort env (map (\<lambda>(k, b). (k, f k b)) (full_blocks s))"
  shows "victims_ok s (map fst (take n w))" and "set w = (\<lambda>(k, b). (k, f k b)) ` set (full_blocks s)"
    and "sorted_wrt (\<lambda>a b. \<not> f32_less (snd b) (snd a)) w"
proof -
  have S: "mset w = mset (map (\<lambda>(k, b). (k, f k b)) (full_blocks s))"
    "sorted_wrt (\<lambda>a b. \<not> f32_less (snd b) (snd a)) w"
  proof -
    have "\<forall>x\<in>set (map (\<lambda>(k, b). (k, f k b)) (full_blocks s)). snd x \<noteq> NaN" using nan by auto
    with srt show "mset w = mset (map (\<lambda>(k, b). (k, f k b)) (full_blocks s))"
      and "sorted_wrt (\<lambda>a b. \<not> f32_less (snd b) (snd a)) w"
      unfolding w_def sort_ok_def by blast+
  qed
  show "sorted_wrt (\<lambda>a b. \<not> f32_less (snd b) (snd a)) w" by (rule S(2))
  show "set w = (\<lambda>(k, b). (k, f k b)) ` set (full_blocks s)" using mset_eq_setD [OF S(1)] by simp
  have m: "mset (map fst w) = mset (map fst (full_blocks s))"
  proof -
    have "mset (map fst w) = mset (map fst (map (\<lambda>(k, b). (k, f k b)) (full_blocks s)))"
      using S(1) by (simp only: mset_map)
    also have "map fst (map (\<lambda>(k, b). (k, f k b)) (full_blocks s)) = map fst (full_blocks s)" by auto
    finally show ?thesis .
  qed
  have d: "distinct (map fst w)" using full_blocks_keys(1) [OF base] m mset_eq_imp_distinct_iff by metis
  have "set (map fst w) = {k. fullb s k}" using full_blocks_keys(2) [OF base] m mset_eq_setD by metis
  then have "\<forall>v\<in>set (map fst (take n w)). fullb s v" using set_take_subset [of n w] by auto
  moreover have "distinct (map fst (take n w))" using d by (simp add: take_map [symmetric])
  ultimately show "victims_ok s (map fst (take n w))" by (simp add: victims_ok_def)
qed

lemma f32_of_nat_not_NaN: "f32_of_nat n \<noteq> NaN"
  by (auto simp: f32_of_nat_def f32_round_def Let_def)

text \<open>The greedy policy takes blocks with the fewest valid units: no candidate left out has fewer.\<close>

lemma units_valid_le:
  "units_valid b \<le> pageCount b * ioUnitInPage b"
proof -
  have "(\<Sum>p\<leftarrow>xs. length (filter (bvalid b p) [0..<ioUnitInPage b])) \<le> length xs * ioUnitInPage b" for xs
  proof (induction xs)
    case (Cons x xs)
    then show ?case using length_filter_le [of "bvalid b x" "[0..<ioUnitInPage b]"] by simp
  qed simp
  from this [of "[0..<pageCount b]"] show ?thesis by (simp add: units_valid_def)
qed

theorem greedy_minimal:
  assumes base: "pm_base s" and pol: "cfEvictPolicy cf = POLICY_GREEDY" and srt: "sort_ok env"
    and small: "pagesInBlock (param s) * unitsInPage (param s) < 2 ^ 24"
    and sel: "selectVictimBlock env cf fuel s h tk = Some (Inr (vs, s', h', t'))"
    and v: "v \<in> set vs" "map_of (blocks s) v = Some bv"
    and k: "fullb s k" "k \<notin> set vs" "map_of (blocks s) k = Some bk"
  shows "units_valid bv \<le> units_valid bk"
proof -
  let ?f = "\<lambda>k b. weight_of s POLICY_GREEDY tk (units_valid b) b"
  let ?w = "stdSort env (map (\<lambda>(k, b). (k, ?f k b)) (full_blocks s))"
  have f: "?f k b = f32_of_nat (units_valid b)" for k b by (simp add: weight_of_def)
  have nan: "\<forall>(k, b)\<in>set (full_blocks s). ?f k b \<noteq> NaN" using f f32_of_nat_not_NaN by auto
  note W = sorted_victims_ok [OF base srt nan]
  from sel pol obtain n where vs: "vs = map fst (take n ?w)"
    by (auto simp: selectVictimBlock_sorted [OF base] Let_def)
  from v(1) obtain i where i: "i < n" "i < length ?w" "v = fst (?w ! i)" unfolding vs by (auto simp: in_set_conv_nth)
  have "(k, bk) \<in> set (full_blocks s)" using k(1,3) by (auto simp: full_blocks_def dest: map_of_SomeD)
  then have "(k, ?f k bk) \<in> set ?w" unfolding W(2) by force
  then obtain j where j: "j < length ?w" "?w ! j = (k, ?f k bk)" by (auto simp: in_set_conv_nth)
  have "\<not> j < n"
  proof
    assume "j < n"
    with j(1) have "?w ! j \<in> set (take n ?w)" by (auto simp: in_set_conv_nth intro!: exI [of _ j])
    then have "fst (?w ! j) \<in> set vs" unfolding vs by simp
    then show False using j k(2) by simp
  qed
  with i(1) have ij: "i < j" by simp
  have "?w ! i \<in> (\<lambda>(k, b). (k, ?f k b)) ` set (full_blocks s)" using nth_mem [OF i(2)] unfolding W(2) .
  then obtain q b where "(q, b) \<in> set (full_blocks s)" "?w ! i = (q, ?f q b)"
    by (elim imageE) (simp only: case_prod_unfold, metis prod.collapse)
  with i(3) have b: "(v, b) \<in> set (full_blocks s)" "?w ! i = (v, ?f v b)" by (simp_all only: fst_conv)
  have "b = bv" using b(1) v(2) blocks_mem [OF base, of v b] by (auto simp: full_blocks_def)
  then have "\<not> f32_less (?f k bk) (?f v bv)"
    using sorted_wrt_nth_less [OF W(3) ij j(1)] j(2) b(2) by simp
  moreover have "f32_of_nat (units_valid c) = Fin (of_nat (units_valid c))" if "map_of (blocks s) q = Some c" for q c
  proof (rule f32_of_nat_exact)
    note B = pm_base_block [OF base that]
    have "units_valid c \<le> pagesInBlock (param s) * unitsInPage (param s)" using units_valid_le [of c] B by simp
    then show "units_valid c < 2 ^ 24" using small by simp
  qed
  ultimately show ?thesis using f v(2) k(3) by simp
qed

section \<open>The random policies\<close>

text \<open>
  Every round of the rejection loop adds at most one entry, and each entry at most once: with a
  target above the number of candidates the loop never ends.
\<close>

lemma random_select_stuck:
  assumes "length selected + length (filter (\<lambda>x. fst x < TAKEN) weight) < rng"
    and "\<forall>n. d n < length weight"
  shows "random_select fuel d rng weight selected = None"
  using assms
proof (induction fuel arbitrary: d weight selected)
  case 0
  then show ?case by (simp add: random_select.simps)
next
  case (Suc fuel)
  let ?i = "d 0"
  have i: "?i < length weight" using Suc.prems(2) by simp
  have lt: "length selected < rng" using Suc.prems(1) by simp
  show ?case
  proof (cases "fst (weight ! ?i) < TAKEN")
    case False
    then show ?thesis
      using Suc.IH [of selected weight "\<lambda>n. d (Suc n)"] Suc.prems lt i
      by (subst random_select.simps) (simp add: Let_def)
  next
    case True
    let ?w = "weight[?i := (TAKEN, snd (weight ! ?i))]"
    have split: "weight = take ?i weight @ weight ! ?i # drop (Suc ?i) weight" using i by (rule id_take_nth_drop)
    have upd: "?w = take ?i weight @ (TAKEN, snd (weight ! ?i)) # drop (Suc ?i) weight"
      using i by (rule upd_conv_take_nth_drop)
    have "length (filter (\<lambda>x. fst x < TAKEN) weight) = Suc (length (filter (\<lambda>x. fst x < TAKEN) ?w))"
      by (subst split, subst upd) (use True in simp)
    then show ?thesis
      using Suc.IH [of "selected @ [weight ! ?i]" ?w "\<lambda>n. d (Suc n)"] Suc.prems lt i True
      by (subst random_select.simps) (simp add: Let_def)
  qed
qed

end
