(* ===== verification/PageMappingTop.thy ===== *)
theory PageMappingTop
  imports PageMappingSelect
begin

text \<open>
  The page mapping as a whole: construction, the public operations of \<^verbatim>\<open>src/ftl/page_mapping.cc\<close>,
  and the states reachable through them, all of which satisfy the invariant.
\<close>

lemma any_env: "env_faults (\<lambda>_. True) env"
  by (simp add: env_faults_def outcome_partial)

section \<open>Construction\<close>

definition param_valid :: "ftl_param \<Rightarrow> bool" where
  "param_valid p \<longleftrightarrow> 0 < pagesInBlock p \<and> 0 < unitsInPage p \<and> 0 < pageCountToMaxPerf p \<and>
     pageCountToMaxPerf p \<le> totalPhysicalBlocks p"

lemma emap_fresh:
  assumes "0 < c" and "0 < u"
  shows "\<exists>bs. emap (\<lambda>i. Block_new i c u) is = Inr bs \<and> map blkIdx bs = is \<and>
    (\<forall>b\<in>set bs. blk_inv b \<and> pageCount b = c \<and> ioUnitInPage b = u \<and> eraseCount b = 0 \<and> fresh_block b)"
proof (induction "is")
  case Nil
  then show ?case by simp
next
  case (Cons i "is")
  from Block_new_inv [OF assms, of i] obtain b where b: "Block_new i c u = Inr b" "blk_inv b" "blkIdx b = i"
    "pageCount b = c" "ioUnitInPage b = u" "eraseCount b = 0"
    "\<forall>p i. in_blk b p i \<longrightarrow> \<not> bvalid b p i \<and> berased b p i" "\<forall>i<u. bnext b i = 0"
    by blast
  have "fresh_block b" using b by (auto simp: fresh_block_def blk_view_def fun_eq_iff)
  with Cons b show ?case by auto
qed

definition starting :: "ftl_param \<Rightarrow> nat \<Rightarrow> page_mapping \<Rightarrow> bool" where
  "starting p i s \<longleftrightarrow> pm_base s \<and> param s = p \<and> table s = [] \<and> pview s = Map.empty \<and>
     nFreeBlocks s = totalPhysicalBlocks p - i \<and>
     (\<forall>j<i. map_of (blocks s) (lastFreeBlock s ! j) \<noteq> None) \<and>
     (\<forall>k b. map_of (blocks s) k = Some b \<longrightarrow> fresh_block b)"

theorem PageMapping_new_ok:
  assumes p: "param_valid p"
  shows "outcome (\<lambda>_. False) (PageMapping_new cf p) (\<lambda>s. pm_inv s \<and> open_ok s \<and> param s = p \<and>
    lview s = Map.empty \<and> nFreeBlocks s = totalPhysicalBlocks p - pageCountToMaxPerf p)"
proof -
  have pos: "0 < pagesInBlock p" "0 < unitsInPage p" "0 < pageCountToMaxPerf p"
    "pageCountToMaxPerf p \<le> totalPhysicalBlocks p" using p by (auto simp: param_valid_def)
  obtain bs where bs: "emap (\<lambda>i. Block_new i (pagesInBlock p) (unitsInPage p)) [0..<totalPhysicalBlocks p] = Inr bs"
    "map blkIdx bs = [0..<totalPhysicalBlocks p]"
    "\<forall>b\<in>set bs. blk_inv b \<and> pageCount b = pagesInBlock p \<and> ioUnitInPage b = unitsInPage p \<and>
      eraseCount b = 0 \<and> fresh_block b"
    using emap_fresh [OF pos(1,2)] by blast
  have len: "length bs = totalPhysicalBlocks p" using arg_cong [OF bs(2), of length] by simp
  have idx: "blkIdx b < totalPhysicalBlocks p" if "b \<in> set bs" for b
  proof -
    have "blkIdx b \<in> set (map blkIdx bs)" using that by simp
    then show ?thesis by (simp add: bs(2))
  qed
  let ?s0 = "\<lparr>param = p, table = [], blocks = [], freeBlocks = bs,
               nFreeBlocks = totalPhysicalBlocks p,
               lastFreeBlock = replicate (pageCountToMaxPerf p) 0,
               lastFreeBlockIOMap = Bitset_new (unitsInPage p), lastFreeBlockIndex = 0,
               bReclaimMore = False, bRandomTweak = cfRandomTweak cf,
               bitsetSize = (if cfRandomTweak cf then unitsInPage p else 1),
               stat = \<lparr>gcCount = 0, reclaimedBlocks = 0, validSuperPageCopies = 0, validPageCopies = 0\<rparr>\<rparr>"
  have base0: "pm_base ?s0"
    using pos bs(2,3) len idx
    by (simp add: pm_base_def params_ok_def blocks_ok_def free_ok_def table_ok_def stream_ok_def blk_ok_def)
  have start: "starting p 0 ?s0" using base0 by (auto simp: starting_def pview_def fun_eq_iff)
  let ?f = "\<lambda>i s. ebind (getFreeBlock s i) (\<lambda>(k, s). Inr (s\<lparr>lastFreeBlock := (lastFreeBlock s)[i := k]\<rparr>))"
  have "outcome (\<lambda>_. False) (efold ?f [0..<pageCountToMaxPerf p] ?s0) (starting p (pageCountToMaxPerf p))"
  proof (rule outcome_loop [where P = "starting p", OF start])
    fix i s
    assume i: "i < pageCountToMaxPerf p" and S: "starting p i s"
    then have base: "pm_base s" and ps: "param s = p" and n: "nFreeBlocks s = totalPhysicalBlocks p - i"
      by (auto simp: starting_def)
    obtain k b s' where g: "getFreeBlock s i = Inr (k, s')" "pm_base s'" "map_of (blocks s) k = None"
      "map_of (blocks s') = (map_of (blocks s))(k \<mapsto> b)" "fresh_block b" "pview s' = pview s"
      "s' = s\<lparr>blocks := tbl_put k b (blocks s), freeBlocks := freeBlocks s', nFreeBlocks := nFreeBlocks s - 1\<rparr>"
      by (rule getFreeBlock_ok [OF base, of i]) (use i pos n ps in auto)
    have eqs: "param s' = p" "table s' = []" "lastFreeBlock s' = lastFreeBlock s"
      "nFreeBlocks s' = totalPhysicalBlocks p - Suc i"
      using S n by (subst g(7), simp add: starting_def)+
    have ll: "length (lastFreeBlock s) = pageCountToMaxPerf p"
      using base ps by (simp add: pm_base_def stream_ok_def)
    have "pm_base (s'\<lparr>lastFreeBlock := (lastFreeBlock s')[i := k]\<rparr>)"
      using g(2) by (simp add: pm_base_def params_ok_def blocks_ok_def free_ok_def table_ok_def
          stream_ok_def in_range_def unmapped_def)
    moreover have "pview (s'\<lparr>lastFreeBlock := (lastFreeBlock s')[i := k]\<rparr>) = Map.empty"
      using S g(6) by (simp add: starting_def pview_def)
    ultimately have "starting p (Suc i) (s'\<lparr>lastFreeBlock := (lastFreeBlock s')[i := k]\<rparr>)"
      using S g(4,5) eqs i ll by (auto simp: starting_def nth_list_update less_Suc_eq)
    then show "outcome (\<lambda>_. False) (?f i s) (starting p (Suc i))" using g(1) by simp
  qed simp
  then have "outcome (\<lambda>_. False) (PageMapping_new cf p) (starting p (pageCountToMaxPerf p))"
    by (simp add: PageMapping_new_def bs(1))
  then show ?thesis
  proof (rule outcome_mono)
    fix s
    assume S: "starting p (pageCountToMaxPerf p) s"
    have "lview s = Map.empty" using S by (auto simp: starting_def lview_def fun_eq_iff)
    then show "pm_inv s \<and> open_ok s \<and> param s = p \<and> lview s = Map.empty \<and>
        nFreeBlocks s = totalPhysicalBlocks p - pageCountToMaxPerf p"
      using S by (auto simp: starting_def pm_inv_def linked_def open_ok_def in_set_conv_nth
          pm_base_def stream_ok_def)
  qed
qed

section \<open>Writing with garbage collection\<close>

text \<open>The configurations whose victim selection always ends.\<close>

definition greedy :: "ftl_conf \<Rightarrow> 'h ftl_env \<Rightarrow> bool" where
  "greedy cf env \<longleftrightarrow> cfEvictPolicy cf = POLICY_GREEDY \<and> sort_ok env"

lemma select_greedy:
  assumes base: "pm_base s" and g: "greedy cf env"
    and sel: "selectVictimBlock env cf fuel s h tk = Some (Inr (vs, s1, h1, t1))"
  shows "victims_ok s vs" and "s1 = s\<lparr>bReclaimMore := False\<rparr>"
proof -
  have pol: "cfEvictPolicy cf = POLICY_GREEDY" and srt: "sort_ok env" using g by (auto simp: greedy_def)
  let ?f = "\<lambda>k b. weight_of s POLICY_GREEDY tk (units_valid b) b"
  have nan: "\<forall>(k, b)\<in>set (full_blocks s). ?f k b \<noteq> NaN"
    using f32_of_nat_not_NaN by (auto simp: weight_of_def)
  from sel pol obtain n where
    "vs = map fst (take n (stdSort env (map (\<lambda>(k, b). (k, ?f k b)) (full_blocks s))))"
    and s1: "s1 = s\<lparr>bReclaimMore := False\<rparr>"
    by (auto simp: selectVictimBlock_sorted [OF base] Let_def)
  then show "victims_ok s vs" using sorted_victims_ok(1) [OF base srt nan] by simp
  show "s1 = s\<lparr>bReclaimMore := False\<rparr>" by (rule s1)
qed

lemma write_gc_ends:
  assumes "pm_base s" and "greedy cf env"
  shows "write_gc env cf fuel send s h tk \<noteq> None"
  using assms by (simp add: write_gc_def greedy_def selectVictimBlock_sorted)

lemma write_gc_ok:
  assumes inv: "pm_inv s" and u: "unitsInPage (param s) \<noteq> 1" and g: "greedy cf env"
    and run: "write_gc env cf fuel send s h tk = Some (Inr (s', h', t'))"
  shows "pm_inv s'" and "same_config s s'" and "dom (lview s') = dom (lview s)" and "t' = tk"
proof -
  have base: "pm_base s" using inv by (simp add: pm_inv_def)
  have "pm_inv s' \<and> same_config s s' \<and> dom (lview s') = dom (lview s) \<and> t' = tk"
  proof (cases "f32_less (freeBlockRatio s) (cfGcThreshold cf)")
    case False
    with run inv show ?thesis by (auto simp: write_gc_def)
  next
    case True
    with run obtain vs s1 h1 t1 s2 h2 t2 where
      sel: "selectVictimBlock env cf fuel s h tk = Some (Inr (vs, s1, h1, t1))"
      and gc: "doGarbageCollection env cf vs s1 h1 t1 = Inr (s2, h2, t2)"
      and s': "s' = s2\<lparr>stat := (stat s2)\<lparr>gcCount := gcCount (stat s2) + 1,
                 reclaimedBlocks := reclaimedBlocks (stat s2) + length vs\<rparr>\<rparr>" and t': "t' = tk"
      by (auto simp: write_gc_def Let_def split: if_splits)
    note S = select_greedy [OF base g sel]
    have V: "distinct vs" "\<forall>v\<in>set vs. fullb s1 v" using S by (auto simp: victims_ok_def)
    have "outcome (\<lambda>_. True) (doGarbageCollection env cf vs s1 h1 t1) (\<lambda>(s', _, _). collected (set vs) s1 s')"
      by (rule doGarbageCollection_outcome [OF _ any_env _ V]) (use inv u in \<open>auto simp: S(2)\<close>)
    then have C: "collected (set vs) s1 s2" using gc by simp
    then have "pm_inv s2" "same_config s1 s2" "dom (lview s2) = dom (lview s1)" by (simp_all add: collected_def)
    then show ?thesis using s' t' by (simp add: S(2) same_config_def)
  qed
  then show "pm_inv s'" and "same_config s s'" and "dom (lview s') = dom (lview s)" and "t' = tk" by simp_all
qed

lemma dom_placed:
  "dom (placed s req k nx (bitsetSize s) lv) = dom lv \<union> {(ftlLpn req, j) | j. touched s req j}"
  by (auto simp: placed_def dom_def touched_def split: if_splits)

theorem writeInternal_ok:
  assumes inv: "pm_inv s" and u: "unitsInPage (param s) \<noteq> 1" and g: "greedy cf env" and req: "req_ok s req"
    and run: "writeInternal env cf fuel req send s h tk = Some (Inr (s', h', t'))"
  shows "pm_inv s'" and "same_config s s'"
    and "dom (lview s') = dom (lview s) \<union> {(ftlLpn req, j) | j. touched s req j}"
proof -
  from run obtain s1 h1 t1 where place: "write_place env req send s h tk = Inr (s1, h1, t1)"
    and gc: "write_gc env cf fuel send s1 h1 t1 = Some (Inr (s', h', t'))"
    by (auto simp: writeInternal_def split: sum.splits)
  have W: "write_post s req s1"
    using write_place_outcome [where F = "\<lambda>_. True", OF inv req any_env] place
    by (metis (no_types, lifting) outcome_Inr prod.case)
  have u1: "unitsInPage (param s1) \<noteq> 1" using W u by (simp add: write_post_def same_config_def)
  have inv1: "pm_inv s1" using W by (simp add: write_post_def)
  note G = write_gc_ok [OF inv1 u1 g gc]
  show "pm_inv s'" by (rule G(1))
  show "same_config s s'" using W G(2) same_config_trans [of s s1 s'] by (simp add: write_post_def)
  obtain k nx where lv: "lview s1 = placed s req k nx (bitsetSize s) (lview s)"
    using W by (auto simp: write_post_def)
  show "dom (lview s') = dom (lview s) \<union> {(ftlLpn req, j) | j. touched s req j}"
    unfolding G(3) lv by (rule dom_placed)
qed

section \<open>Formatting\<close>

text \<open>
  A format collects blocks that need not be full, so what is known of its collection is known of
  the runs that succeed: the erase refuses a block that still has valid units.
\<close>

lemma eraseInternal_ok:
  assumes inv: "pm_inv s" and run: "eraseInternal env cf req s h tk = Inr (s', h', t')"
  shows "erased_post cf (palBlockIndex req) s s'"
proof -
  from run obtain b where b: "map_of (blocks s) (palBlockIndex req) = Some b"
    by (auto simp: eraseInternal_def split: option.splits)
  note B = pm_base_block [OF _ b]
  have wf: "blk_wf b" using B(1) inv by (simp add: pm_inv_def blk_inv_def)
  from run b have "getValidPageCount b = Inr 0"
    by (auto simp: eraseInternal_def split: if_splits)
  then have "\<forall>p i. in_blk b p i \<longrightarrow> \<not> bvalid b p i" using getValidPageCount_0 [OF wf] by simp
  then have empty: "pview s ((palBlockIndex req, p), j) = None" for p j
    by (simp add: pview_block [OF b] blk_view_def)
  have "outcome (\<lambda>_. True) (eraseInternal env cf req s h tk) (\<lambda>(s', _, _). erased_post cf (palBlockIndex req) s s')"
    by (rule eraseInternal_outcome [OF inv any_env b empty]) simp
  then show ?thesis using run by simp
qed

lemma doGarbageCollection_ok:
  assumes inv: "pm_inv s" and u: "unitsInPage (param s) \<noteq> 1"
    and run: "doGarbageCollection env cf vs s h tk = Inr (s', h', t')"
  shows "pm_inv s' \<and> same_config s s' \<and> dom (lview s') = dom (lview s)"
proof (cases "vs = []")
  case True
  with run inv show ?thesis by (simp add: doGarbageCollection_def)
next
  case False
  let ?I = "\<lambda>t. pm_inv t \<and> same_config s t \<and> dom (lview t) = dom (lview s)"
  from False run obtain g h1 h2 f1 f2 f3 where coll: "gc_collect env vs s h tk = Inr g"
    and er: "erase_all env cf (gcErases g) f1 tk (gcMap g) h1 = Inr (f2, s', h2)"
    by (auto simp: doGarbageCollection_def)
  have "?I (gcMap g)"
  proof (rule efold_invariant [where P = "\<lambda>g. ?I (gcMap g)", OF coll [unfolded gc_collect_def]])
    fix v and g1 g2 :: "'a gc_state"
    assume P: "?I (gcMap g1)" and step: "gc_block env v g1 = Inr g2"
    have "map_of (blocks (gcMap g1)) v \<noteq> None" using step by (auto simp: gc_block_def split: option.splits)
    moreover have "unitsInPage (param (gcMap g1)) \<noteq> 1" using P u by (simp add: same_config_def)
    ultimately have "outcome (\<lambda>_. True) (gc_block env v g1) (\<lambda>g'. relocates {v} (gcMap g1) (gcMap g') \<and>
      gc_empty (gcMap g1) v (gcMap g') \<and> map palBlockIndex (gcErases g') = map palBlockIndex (gcErases g1) @ [v])"
      using P by (intro gc_block_outcome any_env) simp_all
    then have "relocates {v} (gcMap g1) (gcMap g2)" using step by simp
    then show "?I (gcMap g2)" using P same_config_trans [of s "gcMap g1" "gcMap g2"]
      by (simp add: relocates_def)
  qed (use inv in simp)
  then have "case (f2, s', h2) of (_, t, _) \<Rightarrow> ?I t"
  proof (intro efold_invariant [where P = "\<lambda>(_, t, _). ?I t", OF er [unfolded erase_all_def]], goal_cases)
    case (2 r x y)
    then obtain fin t hw where x: "x = (fin, t, hw)" by (cases x)
    from 2 x obtain t2 h3 tk3 where e: "eraseInternal env cf r t hw f1 = Inr (t2, h3, tk3)"
      and y: "y = (max fin tk3, t2, h3)" by auto
    from eraseInternal_ok [OF _ e] 2 x have "erased_post cf (palBlockIndex r) t t2" by simp
    with 2 x y show ?case using same_config_trans [of s t t2] by (simp add: erased_post_def)
  qed simp
  then show ?thesis by simp
qed

lemma format_units_eq:
  assumes "\<forall>j\<in>set js. j < length ml"
  shows "efold (format_unit ml) js (s, acc) =
    ebind (efold (trim_unit ml) js s) (\<lambda>s'. Inr (s', acc @ map (\<lambda>j. fst (ml ! j)) js))"
  using assms
proof (induction js arbitrary: s acc)
  case Nil
  then show ?case by simp
next
  case (Cons j js)
  then show ?case by (cases "trim_unit ml j s") (simp_all add: format_unit_def)
qed

definition formatted :: "lpn_range \<Rightarrow> u64 set \<Rightarrow> page_mapping \<Rightarrow> page_mapping \<Rightarrow> bool" where
  "formatted r L s t \<longleftrightarrow> pm_inv t \<and> frame s t \<and>
     lview t = (\<lambda>(l, j). if l \<in> L \<and> in_lpn_range r l then None else lview s (l, j)) \<and>
     (\<forall>l. l \<notin> L \<longrightarrow> map_of (table t) l = map_of (table s) l)"

lemma format_entry_ok:
  assumes F: "formatted r L s t" and ml: "map_of (table s) l = Some ml" and l: "l \<notin> L"
    and run: "format_entry r (l, ml) (t, acc) = Inr (t', acc')"
  shows "formatted r (insert l L) s t'"
proof (cases "in_lpn_range r l")
  case False
  with run have "t' = t" by (simp add: format_entry_def)
  with F False show ?thesis by (auto simp: formatted_def fun_eq_iff)
next
  case True
  have inv: "pm_inv t" and fr: "frame s t" and lv: "\<And>l j. lview t (l, j) =
      (if l \<in> L \<and> in_lpn_range r l then None else lview s (l, j))" and mlt: "map_of (table t) l = Some ml"
    using F ml l by (auto simp: formatted_def)
  have inf: "inflight {} t" using inv by (simp add: inflight_empty)
  have len: "length ml = bitsetSize t" using inv mlt by (auto simp: pm_inv_def pm_base_def table_ok_def)
  from True run len obtain t1 where t1: "efold (trim_unit ml) [0..<bitsetSize t] t = Inr t1"
    and t': "t' = t1\<lparr>table := tbl_del l (table t1)\<rparr>"
    by (auto simp: format_entry_def format_units_eq)
  have "outcome (\<lambda>_. True) (efold (trim_unit ml) [0..<bitsetSize t] t)
    (\<lambda>s'. inflight ({} \<union> {l} \<times> {..<bitsetSize t}) s' \<and> frame t s' \<and> table s' = table t \<and> lview s' = lview t)"
    by (rule trim_units_outcome [OF inf mlt]) auto
  then have T: "inflight ({l} \<times> {..<bitsetSize t1}) t1" "frame t t1" "table t1 = table t" "lview t1 = lview t"
    using t1 by (auto simp: frame_def same_config_def)
  note D = drop_entry [OF T(1)]
  have "frame s t'" using fr T(2) frame_trans [of s t t1] by (simp add: t' frame_def same_config_def)
  moreover have "lview t' = (\<lambda>(l', j). if l' \<in> insert l L \<and> in_lpn_range r l' then None else lview s (l', j))"
    unfolding t' D(2) T(4) using lv True by (auto simp: fun_eq_iff)
  ultimately show ?thesis
    using D(1) F T(3) by (auto simp: formatted_def t')
qed

lemma format_loop_ok:
  assumes "efold (format_entry r) es (t, acc) = Inr (t', acc')" and "formatted r L s t"
    and "\<forall>(l, ml)\<in>set es. map_of (table s) l = Some ml \<and> l \<notin> L" and "distinct (map fst es)"
  shows "formatted r (L \<union> fst ` set es) s t'"
  using assms
proof (induction es arbitrary: t acc L)
  case Nil
  then show ?case by simp
next
  case (Cons e es)
  obtain l ml where e: "e = (l, ml)" by (cases e)
  from Cons.prems(1) obtain t1 acc1 where run: "format_entry r (l, ml) (t, acc) = Inr (t1, acc1)"
    "efold (format_entry r) es (t1, acc1) = Inr (t', acc')" by (auto simp: e)
  have "map_of (table s) l = Some ml" "l \<notin> L" using Cons.prems(3) e by auto
  note step = format_entry_ok [OF Cons.prems(2) this run(1)]
  have "formatted r (insert l L \<union> fst ` set es) s t'"
    by (rule Cons.IH [OF run(2) step]) (use Cons.prems(3,4) e in \<open>force+\<close>)
  then show ?case by (simp add: e)
qed

theorem pm_format_ok:
  assumes inv: "pm_inv s" and u: "unitsInPage (param s) \<noteq> 1"
    and run: "pm_format env cf r s h tk = Inr (s', h', t')"
  shows "pm_inv s'" and "same_config s s'" and "dom (lview s') = {(l, j) \<in> dom (lview s). \<not> in_lpn_range r l}"
proof -
  from run obtain s1 bl h2 t2 where
    loop: "efold (format_entry r) (table s) (s, []) = Inr (s1, bl)"
    and gc: "doGarbageCollection env cf (remdups (sort bl)) s1 h tk = Inr (s', h2, t2)"
    by (auto simp: pm_format_def)
  have d: "distinct (map fst (table s))" using inv by (simp add: pm_inv_def pm_base_def table_ok_def)
  have "formatted r {} s s" using inv by (auto simp: formatted_def fun_eq_iff)
  from format_loop_ok [OF loop this _ d] d
  have F: "formatted r (fst ` set (table s)) s s1" by auto
  then have cfg: "same_config s s1" by (auto simp: formatted_def dest: frame_config)
  have inv1: "pm_inv s1" using F by (simp add: formatted_def)
  have "lview s (l, j) = None" if "l \<notin> fst ` set (table s)" for l j
    using that by (simp add: lview_def map_of_eq_None_iff [symmetric])
  then have lv: "lview s1 (l, j) = (if in_lpn_range r l then None else lview s (l, j))" for l j
    using F by (auto simp: formatted_def)
  from doGarbageCollection_ok [OF inv1 _ gc] u cfg
  have G: "pm_inv s'" "same_config s1 s'" "dom (lview s') = dom (lview s1)" by (auto simp: same_config_def)
  show "pm_inv s'" by (rule G(1))
  show "same_config s s'" using cfg G(2) by (rule same_config_trans)
  show "dom (lview s') = {(l, j) \<in> dom (lview s). \<not> in_lpn_range r l}"
    unfolding G(3) using lv by (auto simp: dom_def split: if_splits)
qed

section \<open>Reachable states\<close>

inductive ftl_step :: "'h ftl_env \<Rightarrow> ftl_conf \<Rightarrow> page_mapping \<times> 'h \<Rightarrow> page_mapping \<times> 'h \<Rightarrow> bool"
  for env cf where
  warm: "req_ok s req \<Longrightarrow> writeInternal env cf fuel req False s h 0 = Some (Inr (s', h', t')) \<Longrightarrow>
           ftl_step env cf (s, h) (s', h')"
| rd: "req_ok s req \<Longrightarrow> pm_read env req s h tk = Inr (s', h', t') \<Longrightarrow> ftl_step env cf (s, h) (s', h')"
| wr: "req_ok s req \<Longrightarrow> pm_write env cf fuel req s h tk = Some (Inr (s', h', t')) \<Longrightarrow>
         ftl_step env cf (s, h) (s', h')"
| tr: "pm_trim env req s h tk = Inr (s', h', t') \<Longrightarrow> ftl_step env cf (s, h) (s', h')"
| fmt: "pm_format env cf r s h tk = Inr (s', h', t') \<Longrightarrow> ftl_step env cf (s, h) (s', h')"

inductive ftl_reach :: "'h ftl_env \<Rightarrow> ftl_conf \<Rightarrow> ftl_param \<Rightarrow> page_mapping \<times> 'h \<Rightarrow> bool"
  for env cf p where
  start: "PageMapping_new cf p = Inr s \<Longrightarrow> ftl_reach env cf p (s, h)"
| step: "ftl_reach env cf p x \<Longrightarrow> ftl_step env cf x y \<Longrightarrow> ftl_reach env cf p y"

inductive_cases ftl_stepE: "ftl_step env cf (s, h) (s', h')"

lemma pm_read_ok:
  assumes inv: "pm_inv s" and req: "req_ok s req" and run: "pm_read env req s h tk = Inr (s', h', t')"
  shows "read_equiv s s'"
proof (cases "0 < bitset_count (ftlIoFlag req)")
  case False
  with run inv show ?thesis by (auto simp: pm_read_def pm_inv_def read_equiv_refl)
next
  case True
  with run obtain h1 t1 where int: "readInternal env req s h tk = Inr (s', h1, t1)"
    by (auto simp: pm_read_def)
  obtain s'' where s'': "read_equiv s s''" "readInternal env req s h tk =
    (if map_of (table s) (ftlLpn req) = None then Inr (s, h, tk)
     else
       ebind (dram_lookup env s (ftlIoFlag req) tk h) (\<lambda>(t, h1).
       ebind (send_all (palRead env) (read_plan s req [0..<bitsetSize s]) t tk h1) (\<lambda>(fin, h2).
       ebind (cpuLatency env FTL__PAGE_MAPPING READ_INTERNAL h2) (\<lambda>(l, h3).
       Inr (s'', h3, fin + l)))))"
    by (rule readInternal_eq [OF inv req])
  with int have "s' = s \<or> s' = s''" by (auto split: if_splits)
  with s'' inv show ?thesis by (auto simp: pm_inv_def read_equiv_refl)
qed

lemma pm_write_ok:
  assumes inv: "pm_inv s" and u: "unitsInPage (param s) \<noteq> 1" and g: "greedy cf env" and req: "req_ok s req"
    and run: "pm_write env cf fuel req s h tk = Some (Inr (s', h', t'))"
  shows "pm_inv s' \<and> same_config s s'"
  using assms writeInternal_ok [OF inv u g req]
  by (cases "writeInternal env cf fuel req True s h tk") (auto simp: pm_write_def split: if_splits)

lemma pm_trim_ok:
  assumes inv: "pm_inv s" and run: "pm_trim env req s h tk = Inr (s', h', t')"
  shows "pm_inv s' \<and> same_config s s'"
proof -
  from run obtain h1 t1 where int: "trimInternal env req s h tk = Inr (s', h1, t1)"
    by (auto simp: pm_trim_def)
  show ?thesis
  proof (cases "map_of (table s) (ftlLpn req)")
    case None
    with int inv show ?thesis by (simp add: trimInternal_def)
  next
    case (Some ml)
    have "outcome (\<lambda>_. True) (trimInternal env req s h tk) (\<lambda>(s', _, _). pm_inv s' \<and>
      map_of (table s') = (map_of (table s))(ftlLpn req := None) \<and>
      lview s' = (\<lambda>(l, j). if l = ftlLpn req then None else lview s (l, j)) \<and> frame s s')"
      by (rule trimInternal_outcome [OF inv any_env Some]) simp
    then show ?thesis using int by (auto dest: frame_config)
  qed
qed

lemma ftl_step_inv:
  assumes "ftl_step env cf (s, h) (s', h')" and inv: "pm_inv s" and u: "unitsInPage (param s) \<noteq> 1"
    and g: "greedy cf env"
  shows "pm_inv s' \<and> same_config s s'"
  using assms(1)
proof (elim ftl_stepE, goal_cases)
  case (1 req fuel t')
  then show ?case using writeInternal_ok [OF inv u g] by blast
next
  case (2 req tk t')
  then have "read_equiv s s'" by (rule pm_read_ok [OF inv])
  then show ?case using read_equiv_inv [OF _ inv] by (auto simp: read_equiv_def dest: frame_config)
next
  case (3 req fuel tk t')
  then show ?case using pm_write_ok [OF inv u g] by blast
next
  case (4 req tk t')
  then show ?case by (rule pm_trim_ok [OF inv])
next
  case (5 r tk t')
  then show ?case by (intro conjI pm_format_ok(1,2) [OF inv u])
qed

lemma ftl_reach_inv:
  assumes "ftl_reach env cf p x" and "param_valid p" and "unitsInPage p \<noteq> 1" and "greedy cf env"
  shows "pm_inv (fst x) \<and> param (fst x) = p"
  using assms(1)
proof induction
  case (start s h)
  then show ?case using PageMapping_new_ok [OF assms(2), of cf] by (simp add: outcome_total)
next
  case (step x y)
  obtain s h s' h' where xy: "x = (s, h)" "y = (s', h')" by (cases x; cases y)
  from ftl_step_inv [OF step.hyps(2) [unfolded xy]] step.IH assms(3,4) show ?case
    by (simp add: xy same_config_def)
qed

section \<open>One unit per page\<close>

text \<open>
  With one unit per page \<open>getPageInfo\<close> reports a stale page like a valid one. Collecting a block
  that holds an old copy of a logical page then copies the old data and redirects the table to it,
  while the current copy stays marked valid: the last write is lost.
\<close>

definition stale_at :: "page_mapping \<Rightarrow> nat \<Rightarrow> nat \<Rightarrow> u64 \<Rightarrow> bool" where
  "stale_at s v p l \<longleftrightarrow> (\<exists>vb. map_of (blocks s) v = Some vb \<and> p < pagesInBlock (param s) \<and>
     blpn vb p 0 = l \<and> \<not> bvalid vb p 0)"

lemma gc_page_stale:
  assumes inv: "pm_inv (gcMap g)" and u: "unitsInPage (param (gcMap g)) = 1"
    and stale: "stale_at (gcMap g) v p l" and cur: "lview (gcMap g) (l, 0) = Some m"
    and run: "gc_page env v p g = Inr g'"
  shows "\<exists>m'. m' \<noteq> m \<and> lview (gcMap g') (l, 0) = Some m' \<and>
    pview (gcMap g') (m, 0) = Some l \<and> pview (gcMap g') (m', 0) = Some l"
proof -
  let ?s = "gcMap g"
  have base: "pm_base ?s" and lk: "linked (lview ?s) (pview ?s)" using inv by (simp_all add: pm_inv_def)
  have bz: "bitsetSize ?s = 1" using base u by (simp add: pm_base_def params_ok_def split: if_splits)
  obtain vb where vb: "map_of (blocks ?s) v = Some vb" and p: "p < pagesInBlock (param ?s)"
    and l: "blpn vb p 0 = l" and nv: "\<not> bvalid vb p 0" using stale by (auto simp: stale_at_def)
  note B = pm_base_block [OF base vb]
  have info: "getPageInfo vb p (Bitset_new 1) = Inr (True, [l], bs_of (\<lambda>_. True) 1)"
    using getPageInfo_single [of vb p "Bitset_new 1"] B p u l by (simp add: blk_inv_def bitset_size_def)
  have fl: "(if \<not> bRandomTweak ?s then bitset_set_all (bs_of (\<lambda>_. True) 1) else Inr (bs_of (\<lambda>_. True) 1)) =
      Inr (bs_of (\<lambda>_. True) 1)" by simp
  let ?F = "bs_of (\<lambda>_. True) 1" and ?bump = "\<lambda>g. g\<lparr>gcMap := gcMap g\<lparr>stat := stat (gcMap g)
       \<lparr>validSuperPageCopies := validSuperPageCopies (stat (gcMap g)) + 1\<rparr>\<rparr>\<rparr>"
  have fbv: "find_block ?s v = Inr vb" using vb by simp
  have eq: "gc_page env v p g = ebind (getLastFreeBlock ?s ?F) (\<lambda>(k, s).
      ebind (efold (gc_unit env v p k [l] ?F) [0..<bitsetSize s] (g\<lparr>gcMap := s,
        gcReads := gcReads g @ [(PALRequest_new (unitsInPage (param s)))
          \<lparr>palBlockIndex := v, palPageIndex := p, palIoFlag := ?F\<rparr>]\<rparr>)) (\<lambda>g. Inr (?bump g)))"
    unfolding gc_page_def Let_def u fbv ebind_simps info prod.case fl not_True_eq_False if_False ..
  from run obtain k s2 where last: "getLastFreeBlock ?s ?F = Inr (k, s2)"
    unfolding eq by (elim ebind_InrE) auto
  have inf: "inflight {} ?s" using inv by (simp add: inflight_empty)
  obtain b where s2: "inflight {} s2" "same_config ?s s2" "lview s2 = lview ?s" "pview s2 = pview ?s"
    "table s2 = table ?s" "map_of (blocks s2) k = Some b" "bnext b 0 < pagesInBlock (param ?s)"
    "map_of (blocks s2) v = Some vb"
    using getLastFreeBlock_outcome [OF inf, of "bs_of (\<lambda>_. True) 1" "\<lambda>_. True"] last vb u by auto
  note C = config_units [OF s2(2)]
  have base2: "pm_base s2" using s2(1) by (simp add: inflight_def)
  obtain ml where ml: "map_of (table s2) l = Some ml"
    using cur s2(5) by (auto simp: lview_def split: option.splits)
  let ?g = "g\<lparr>gcMap := s2, gcReads := gcReads g @ [(PALRequest_new (unitsInPage (param s2)))
               \<lparr>palBlockIndex := v, palPageIndex := p, palIoFlag := bs_of (\<lambda>_. True) 1\<rparr>]\<rparr>"
  have "bitsetSize s2 = Suc 0" using bz C by simp
  then have "[0..<bitsetSize s2] = [0]" by simp
  with run last obtain g1 where unit: "gc_unit env v p k [l] ?F 0 ?g = Inr g1" and g'0: "g' = ?bump g1"
    unfolding eq by (auto simp del: One_nat_def)
  have g': "gcMap g' = gcMap g1\<lparr>stat := stat (gcMap g')\<rparr>" using g'0 by simp
  obtain vb' where i1: "block_invalidate vb p 0 = Inr vb'" and b1: "pm_base (put_block s2 v vb')"
    and pv1: "pview (put_block s2 v vb') = (pview s2)(((v, p), 0) := None)" and nx1: "bnext vb' = bnext vb"
    by (rule step_invalidate [OF base2 s2(8), of p 0]) (use p u C in auto)
  let ?s1 = "put_block s2 v vb'"
  obtain fb where fb: "map_of (blocks ?s1) k = Some fb" and nxf: "bnext fb = bnext b"
    using s2(6,8) nx1 by (cases "k = v") auto
  obtain fb' where w: "block_write fb (bnext b 0) l 0 (uninitTick env) = Inr (True, fb')"
    and pv2: "pview (put_block ?s1 k fb') = (pview ?s1)(((k, bnext b 0), 0) \<mapsto> l)"
    and fresh: "pview ?s1 ((k, bnext b 0), 0) = None" and b2: "pm_base (put_block ?s1 k fb')"
    using step_program [OF b1 fb, of 0 l "uninitTick env"] s2(7) nxf u C by (metis put_block_frame(1) zero_less_one)
  have kr: "in_range ?s1 (k, bnext b 0)"
    using pm_base_block(5) [OF base2 s2(6)] s2(7) C by (simp add: in_range_def)
  have len: "length ml = 1" using base2 ml bz C by (auto simp: pm_base_def table_ok_def)
  let ?s3 = "put_block (?s1\<lparr>table := tbl_put l (ml[0 := (k, bnext b 0)]) (table ?s1)\<rparr>) k fb'"
  have nxt: "getNextWritePageIndexAt fb 0 = Inr (bnext b 0)"
    using pm_base_block [OF b1 fb] nxf u C by (simp add: blk_inv_def)
  from unit have "\<exists>st. gcMap g1 = ?s3\<lparr>stat := st\<rparr>"
    using s2(8) i1 ml fb w nxt len by (auto simp: gc_unit_def Let_def find_block_def put_mapping_def)
  then obtain st where g1: "gcMap g' = ?s3\<lparr>stat := st\<rparr>" using g' by auto
  have lv: "lview (gcMap g') (l, 0) = Some (k, bnext b 0)"
    using len kr by (simp add: g1 lview_def in_range_def)
  have "pview ?s3 = pview (put_block ?s1 k fb')" by (simp add: pview_def)
  then have pv: "pview (gcMap g') = (pview ?s1)(((k, bnext b 0), 0) \<mapsto> l)" by (simp add: g1 pv2)
  have curp: "pview s2 (m, 0) = Some l" using cur linkedD [OF lk] s2(4) by simp
  have "m \<noteq> (v, p)"
    using curp nv by (auto simp: pview_block [OF s2(8)] blk_view_def split: if_splits)
  then have "pview ?s1 (m, 0) = Some l" using curp pv1 by simp
  moreover from this fresh have "(k, bnext b 0) \<noteq> m" by auto
  ultimately show ?thesis using lv pv by (intro exI [of _ "(k, bnext b 0)"]) auto
qed

end
