(* ===== verification/Samples.thy ===== *)
theory Samples
  imports PageMappingTop "HOL-Library.Code_Target_Numeral"
begin

text \<open>
  Concrete configurations, environments and runs on which the theorems about the flash translation
  layer are evaluated: a device of three blocks of two pages, with two I/O units in a page, and an
  environment whose latencies are constants.
\<close>

section \<open>A sort\<close>

fun f32_insert :: "nat \<times> f32 \<Rightarrow> (nat \<times> f32) list \<Rightarrow> (nat \<times> f32) list" where
  "f32_insert x [] = [x]"
| "f32_insert x (y # ys) = (if f32_less (snd y) (snd x) then y # f32_insert x ys else x # y # ys)"

definition f32_sort :: "(nat \<times> f32) list \<Rightarrow> (nat \<times> f32) list" where
  "f32_sort w = foldr f32_insert w []"

lemma mset_f32_insert [simp]: "mset (f32_insert x ys) = add_mset x (mset ys)"
  by (induction ys) auto

lemma mset_f32_sort [simp]: "mset (f32_sort w) = mset w"
  unfolding f32_sort_def by (induction w) auto

lemma f32_not_less_trans:
  "y \<noteq> NaN \<Longrightarrow> \<not> f32_less y x \<Longrightarrow> \<not> f32_less z y \<Longrightarrow> \<not> f32_less z x"
  by (cases x; cases y; cases z) auto

lemma f32_less_asym: "f32_less x y \<Longrightarrow> \<not> f32_less y x"
  by (cases x; cases y) auto

lemma f32_insert_sorted:
  assumes "sorted_wrt (\<lambda>a b. \<not> f32_less (snd b) (snd a)) ys"
    and "\<forall>y\<in>set (x # ys). snd y \<noteq> NaN"
  shows "sorted_wrt (\<lambda>a b. \<not> f32_less (snd b) (snd a)) (f32_insert x ys)"
  using assms
proof (induction ys)
  case Nil
  then show ?case by simp
next
  case (Cons y ys)
  have "set (f32_insert x ys) = insert x (set ys)"
    by (metis mset_f32_insert set_mset_add_mset_insert set_mset_mset)
  with Cons show ?case
    by (auto dest: f32_less_asym f32_not_less_trans [of "snd y" "snd x"])
qed

lemma f32_sort_sorted:
  assumes "\<forall>x\<in>set w. snd x \<noteq> NaN"
  shows "sorted_wrt (\<lambda>a b. \<not> f32_less (snd b) (snd a)) (f32_sort w)"
  using assms
proof (induction w)
  case Nil
  then show ?case by (simp add: f32_sort_def)
next
  case (Cons x w)
  have "f32_sort (x # w) = f32_insert x (f32_sort w)" by (simp add: f32_sort_def)
  moreover have "set (f32_sort w) = set w" by (metis mset_f32_sort set_mset_mset)
  ultimately show ?case using Cons by (simp add: f32_insert_sorted)
qed

section \<open>Device and environment\<close>

definition sample_param :: ftl_param where
  "sample_param = \<lparr>totalPhysicalBlocks = 3, totalLogicalBlocks = 1, pagesInBlock = 2,
     ftlPageSize = 16, unitsInPage = 2, pageCountToMaxPerf = 1\<rparr>"

definition sample_conf :: ftl_conf where
  "sample_conf = \<lparr>cfRandomTweak = True, cfGcThreshold = Fin 0, cfBadBlockThreshold = 100,
     cfFillingMode = FILLING_MODE_0, cfFillRatio = Fin 0, cfInvalidRatio = Fin 0,
     cfGcMode = GC_MODE_0, cfReclaimBlock = 1, cfReclaimThreshold = Fin (1 / 10),
     cfEvictPolicy = POLICY_GREEDY, cfDChoice = 3\<rparr>"

definition sample_env :: "unit ftl_env" where
  "sample_env = \<lparr>palRead = (\<lambda>_ t h. Inr (t + 25, h)), palWrite = (\<lambda>_ t h. Inr (t + 200, h)),
     palErase = (\<lambda>_ t h. Inr (t + 1500, h)), dramRead = (\<lambda>_ t h. Inr (t + 1, h)),
     dramWrite = (\<lambda>_ t h. Inr (t + 1, h)), cpuLatency = (\<lambda>_ _ h. Inr (5, h)),
     stdSort = f32_sort, draws = (\<lambda>_ m n. n mod (m + 1)), uninitTick = 0\<rparr>"

lemma sample_env_total: "env_faults (\<lambda>_. False) sample_env"
  by (simp add: env_faults_def sample_env_def)

lemma sample_greedy: "greedy sample_conf sample_env"
  by (simp add: greedy_def sort_ok_def sample_conf_def sample_env_def f32_sort_sorted)

lemma sample_param_valid: "param_valid sample_param" "unitsInPage sample_param \<noteq> 1"
  by (simp_all add: param_valid_def sample_param_def)

section \<open>Runs\<close>

text \<open>
  The state after construction, the request for unit \<open>i\<close> of page \<open>l\<close>, and the states after one,
  two, \<dots> writes.
\<close>

definition sample_s0 :: page_mapping where
  "sample_s0 = projr (PageMapping_new sample_conf sample_param)"

lemma sample_s0_new: "PageMapping_new sample_conf sample_param = Inr sample_s0"
  using PageMapping_new_ok [OF sample_param_valid(1), of sample_conf]
  by (auto simp: outcome_total sample_s0_def)

lemma sample_s0_ok:
  "pm_inv sample_s0" "open_ok sample_s0" "param sample_s0 = sample_param"
  "lview sample_s0 = Map.empty" "nFreeBlocks sample_s0 = 2"
  using PageMapping_new_ok [OF sample_param_valid(1), of sample_conf] sample_s0_new
  by (auto simp: outcome_total sample_param_def)

definition sample_req :: "u64 \<Rightarrow> nat \<Rightarrow> ftl_request" where
  "sample_req l i = (FTLRequest_new 2)\<lparr>ftlLpn := l, ftlIoFlag := bs_upd (Bitset_new 2) i True\<rparr>"

lemma sample_req_ok: "i < 2 \<Longrightarrow> param s = sample_param \<Longrightarrow> req_ok s (sample_req l i)"
  by (simp add: req_ok_def sample_req_def sample_param_def FTLRequest_new_def)

text \<open>A threshold of zero is never undercut, so these runs do not collect garbage.\<close>

lemma round_half_even_nonneg: "0 \<le> x \<Longrightarrow> 0 \<le> round_half_even x"
  by (simp add: round_half_even_def Let_def)

lemma pow2_pos: "0 < pow2 e"
  by (simp add: pow2_def)

lemma f32_round_nonneg: "0 \<le> x \<Longrightarrow> \<not> f32_less (f32_round x) (Fin 0)"
proof (cases "x = 0")
  case False
  assume "0 \<le> x"
  with False have x: "0 < x" by simp
  let ?e = "max (flog2 \<bar>x\<bar> - 23) (-149)"
  have "0 \<le> \<bar>x\<bar> / pow2 ?e" using pow2_pos [of ?e] by simp
  then have "0 \<le> of_int (round_half_even (\<bar>x\<bar> / pow2 ?e)) * pow2 ?e"
    using round_half_even_nonneg pow2_pos [of ?e] by (simp add: less_imp_le)
  with x show ?thesis by (auto simp: f32_round_def Let_def)
qed (simp add: f32_round_def)

lemma f32_ratio_nonneg: "\<not> f32_less (f32_div (f32_of_nat a) (f32_of_nat b)) (Fin 0)"
proof -
  have n: "f32_of_nat n = PInf \<or> (\<exists>x\<ge>0. f32_of_nat n = Fin x)" for n
    using f32_round_nonneg [of "of_nat n"] f32_of_nat_not_NaN [of n]
    by (cases "f32_of_nat n") (auto simp: f32_of_nat_def)
  show ?thesis
    using n [of a] n [of b] by (auto simp: f32_inf_def f32_round_nonneg split: if_splits)
qed

lemma gc_idle: "cfGcThreshold cf = Fin 0 \<Longrightarrow> write_gc env cf fuel send s h tk = Some (Inr (s, h, tk))"
  by (simp add: write_gc_def freeBlockRatio_def f32_ratio_nonneg)

definition place :: "ftl_request \<Rightarrow> page_mapping \<Rightarrow> page_mapping \<times> unit \<times> tick" where
  "place req s = projr (write_place sample_env req True s () 10)"

lemma place_ok:
  assumes "pm_inv s" and "open_ok s" and "0 < nFreeBlocks s" and "req_ok s req"
  shows "write_place sample_env req True s () 10 = Inr (place req s)"
    and "write_post s req (fst (place req s))"
  using write_place_outcome [OF assms(1,4) sample_env_total, of True "()" 10] assms(2,3)
  by (auto simp: outcome_total place_def)

definition sample_full :: "u64 \<Rightarrow> ftl_request" where
  "sample_full l = (FTLRequest_new 2)\<lparr>ftlLpn := l, ftlIoFlag := bs_of (\<lambda>_. True) 2\<rparr>"

lemma sample_full_ok: "param s = sample_param \<Longrightarrow> req_ok s (sample_full l)"
  by (simp add: req_ok_def sample_full_def sample_param_def)

text \<open>One unit of page 7 written; page 7 written whole; pages 7 and 8 written whole, which fills block 0.\<close>

definition sample_s1 :: page_mapping where
  "sample_s1 = fst (place (sample_req 7 0) sample_s0)"

definition sample_s2 :: page_mapping where
  "sample_s2 = fst (place (sample_full 7) sample_s0)"

definition sample_s3 :: page_mapping where
  "sample_s3 = fst (place (sample_full 8) sample_s2)"

lemma sample_writes:
  "write_place sample_env (sample_req 7 0) True sample_s0 () 10 = Inr (place (sample_req 7 0) sample_s0)"
  "write_post sample_s0 (sample_req 7 0) sample_s1"
  "write_place sample_env (sample_full 7) True sample_s0 () 10 = Inr (place (sample_full 7) sample_s0)"
  "write_post sample_s0 (sample_full 7) sample_s2"
  using place_ok [of sample_s0] sample_s0_ok by (simp_all add: sample_s1_def sample_s2_def sample_req_ok sample_full_ok)

lemma sample_s2_ok: "pm_inv sample_s2" "open_ok sample_s2" "param sample_s2 = sample_param" "0 < nFreeBlocks sample_s2"
  using sample_writes(4) sample_s0_ok by (auto simp: write_post_def same_config_def)

lemma sample_s3_write: "write_post sample_s2 (sample_full 8) sample_s3"
  using place_ok(2) [OF sample_s2_ok(1,2,4) sample_full_ok [OF sample_s2_ok(3)]] by (simp add: sample_s3_def)

lemma sample_s3_ok: "pm_inv sample_s3" "open_ok sample_s3" "param sample_s3 = sample_param"
  using sample_s3_write sample_s2_ok by (auto simp: write_post_def same_config_def)

section \<open>Evaluated runs\<close>

text \<open>The states of the runs as values; further evaluations start from these.\<close>

definition sample_block :: "nat \<Rightarrow> nat \<Rightarrow> u8 \<Rightarrow> u8 \<Rightarrow> u64 \<Rightarrow> u64 \<Rightarrow> tick \<Rightarrow> block" where
  "sample_block i n v0 v1 l0 l1 t =
     \<lparr>blkIdx = i, pageCount = 2, ioUnitInPage = 2, pNextWritePageIndex = [n, n], pValidBits = None,
      pErasedBits = None, pLPNs = [],
      validBits = [\<lparr>data = [v0], dataSize = 2\<rparr>, \<lparr>data = [v1], dataSize = 2\<rparr>],
      erasedBits = [\<lparr>data = [if 0 < n then 0 else 3], dataSize = 2\<rparr>,
                    \<lparr>data = [if 1 < n then 0 else 3], dataSize = 2\<rparr>],
      ppLPNs = [[l0, l0], [l1, l1]], lastAccessed = t, eraseCount = 0\<rparr>"

definition sample_state ::
  "(u64 \<times> phys list) list \<Rightarrow> block list \<Rightarrow> block list \<Rightarrow> nat \<Rightarrow> u8 \<Rightarrow> bool \<Rightarrow> page_mapping" where
  "sample_state tbl used free k io rm =
     \<lparr>param = sample_param, table = tbl, blocks = map (\<lambda>b. (blkIdx b, b)) used, freeBlocks = free,
      nFreeBlocks = length free, lastFreeBlock = [k], lastFreeBlockIOMap = \<lparr>data = [io], dataSize = 2\<rparr>,
      lastFreeBlockIndex = 0, bReclaimMore = rm, bRandomTweak = True, bitsetSize = 2,
      stat = \<lparr>gcCount = 0, reclaimedBlocks = 0, validSuperPageCopies = 0, validPageCopies = 0\<rparr>\<rparr>"

abbreviation sample_fresh :: "nat \<Rightarrow> block" where
  "sample_fresh i \<equiv> sample_block i 0 0 0 0 0 0"

lemma sample_s2_value [code]: "sample_s2 =
    sample_state [(7, [(0, 0), (0, 0)])] [sample_block 0 1 3 0 7 0 12] [sample_fresh 1, sample_fresh 2] 0 3 False"
  by code_simp

lemma sample_s3_value [code]: "sample_s3 =
    sample_state [(7, [(0, 0), (0, 0)]), (8, [(0, 1), (0, 1)])] [sample_block 0 2 3 3 7 8 12]
      [sample_fresh 1, sample_fresh 2] 0 3 False"
  by code_simp

definition sample_s4 :: page_mapping where
  "sample_s4 = fst (place (sample_full 9) (fst (place (sample_full 7) sample_s3)))"

text \<open>
  Two full blocks with different numbers of valid units: page 7 is written again, then page 9, so
  block 0 keeps page 8 only and block 1 holds pages 7 and 9.
\<close>

lemma sample_s4_value [code]: "sample_s4 =
    sample_state [(7, [(1, 0), (1, 0)]), (8, [(0, 1), (0, 1)]), (9, [(1, 1), (1, 1)])]
      [sample_block 0 2 0 3 7 8 12, sample_block 1 2 3 3 7 9 12] [sample_fresh 2] 1 3 True"
  by code_simp

lemma sample_s3_full: "fullb sample_s3 0"
  by (auto simp: fullb_def bnext_def sample_s3_value sample_state_def sample_block_def sample_param_def
      intro!: exI [of _ "0::nat"])

lemma sample_s3_free: "nFreeBlocks sample_s3 = 2"
  by (simp add: sample_s3_value sample_state_def)

lemma sample_s3_gc: "\<exists>s h t. doGarbageCollection sample_env sample_conf [0] sample_s3 () 10 = Inr (s, h, t)"
proof -
  have "\<not> isl (doGarbageCollection sample_env sample_conf [0] sample_s3 () 10)" by code_simp
  then show ?thesis by (cases "doGarbageCollection sample_env sample_conf [0] sample_s3 () 10") auto
qed

lemma sample_s4_ok: "pm_inv sample_s4" "param sample_s4 = sample_param"
proof -
  let ?t = "fst (place (sample_full 7) sample_s3)"
  have "write_post sample_s3 (sample_full 7) ?t"
    using place_ok(2) [OF sample_s3_ok(1,2) _ sample_full_ok [OF sample_s3_ok(3)]] sample_s3_free by simp
  then have t: "pm_inv ?t" "open_ok ?t" "param ?t = sample_param" "0 < nFreeBlocks ?t"
    using sample_s3_ok sample_s3_free by (auto simp: write_post_def same_config_def)
  have "write_post ?t (sample_full 9) sample_s4"
    using place_ok(2) [OF t(1,2,4) sample_full_ok [OF t(3)]] by (simp add: sample_s4_def)
  then show "pm_inv sample_s4" "param sample_s4 = sample_param"
    using t(3) by (auto simp: write_post_def same_config_def)
qed

definition frugal_conf :: ftl_conf where
  "frugal_conf = sample_conf\<lparr>cfReclaimBlock := 0\<rparr>"

lemma two_units: "[0..<2] = [0, 1::nat]"
  by (simp add: upt_rec)

lemma sample_s4_blocks:
  "map (\<lambda>(k, b). (k, units_valid b)) (filter (\<lambda>(k, b). getNextWritePageIndex b = Inr 2) (blocks sample_s4)) =
     [(0, 2), (1, 4)]"
  by (simp add: sample_s4_value sample_state_def sample_block_def getNextWritePageIndex_def units_valid_def
      bvalid_def bget_def two_units)

lemma sample_s4_full: "map (\<lambda>(k, b). (k, units_valid b)) (full_blocks sample_s4) = [(0, 2), (1, 4)]"
proof -
  have base: "pm_base sample_s4" using sample_s4_ok(1) by (simp add: pm_inv_def)
  have "getNextWritePageIndex b = Inr 2 \<longleftrightarrow> fullb sample_s4 k" if kb: "(k, b) \<in> set (blocks sample_s4)" for k b
  proof -
    obtain n where "getNextWritePageIndex b = Inr n" "n = pagesInBlock (param sample_s4) \<longleftrightarrow> fullb sample_s4 k"
      by (rule next_full [OF base kb])
    then show ?thesis by (simp add: sample_s4_ok(2) sample_param_def)
  qed
  then have "full_blocks sample_s4 = filter (\<lambda>(k, b). getNextWritePageIndex b = Inr 2) (blocks sample_s4)"
    unfolding full_blocks_def by (intro filter_cong) auto
  then show ?thesis by (simp only: sample_s4_blocks)
qed

lemma sample_s4_more: "bReclaimMore sample_s4"
  by (simp add: sample_s4_value sample_state_def)

lemma sample_s4_select:
  "selectVictimBlock sample_env frugal_conf 0 sample_s4 () 0 =
     Some (Inr ([0], sample_s4\<lparr>bReclaimMore := False\<rparr>, (), 5))"
proof -
  have base: "pm_base sample_s4" using sample_s4_ok(1) by (simp add: pm_inv_def)
  have c: "cfEvictPolicy frugal_conf = POLICY_GREEDY" "cfGcMode frugal_conf = GC_MODE_0"
    "cfReclaimBlock frugal_conf = 0" by (simp_all add: frugal_conf_def sample_conf_def)
  have "map (\<lambda>(k, b). (k, weight_of sample_s4 POLICY_GREEDY 0 (units_valid b) b)) (full_blocks sample_s4) =
      map (\<lambda>(k, n). (k, f32_of_nat n)) (map (\<lambda>(k, b). (k, units_valid b)) (full_blocks sample_s4))"
    by (simp add: weight_of_def case_prod_unfold)
  also have "\<dots> = [(0, Fin 2), (1, Fin 4)]"
    unfolding sample_s4_full by (simp add: f32_of_nat_exact)
  finally show ?thesis
    using c sample_s4_more by (simp add: selectVictimBlock_sorted [OF base] victim_goal_def sample_env_def f32_sort_def
        sample_s4_ok(2) sample_param_def)
qed

end
