(* ===== verification/FtlProperties.thy ===== *)
theory FtlProperties
  imports Samples
begin

text \<open>
  The properties of the page-mapping flash translation layer (\<^verbatim>\<open>src/ftl/page_mapping.cc\<close>), each
  with a run at which its hypotheses hold.
\<close>












text \<open>
  C6. A trim of a page all of whose units are mapped drops exactly that page: it fails only when the
  layers below do, keeps the invariant, and no other logical unit changes.
\<close>

theorem trim_unmaps:
  assumes "pm_inv s" and "env_faults (\<lambda>_. False) env"
    and "\<forall>j<bitsetSize s. lview s (ftlLpn req, j) \<noteq> None"
  shows "\<exists>s' h' t'. trimInternal env req s h tk = Inr (s', h', t') \<and> pm_inv s' \<and>
    lview s' = (\<lambda>(l, j). if l = ftlLpn req then None else lview s (l, j))"
proof -
  have "0 < bitsetSize s" using assms(1) by (auto simp: pm_inv_def pm_base_def params_ok_def)
  with assms(3) obtain ml where ml: "map_of (table s) (ftlLpn req) = Some ml"
    by (auto simp: lview_def split: option.splits)
  with assms(3) have r: "\<forall>j<bitsetSize s. in_range s (ml ! j)"
    by (auto simp: lview_def split: if_splits)
  show ?thesis
    using trimInternal_outcome [OF assms(1,2) ml, of h tk] r by (auto simp: outcome_total)
qed

lemma trim_unmaps_witness:
  "\<exists>s' h' t'. trimInternal sample_env (sample_full 7) sample_s3 () 20 = Inr (s', h', t') \<and> pm_inv s' \<and>
    lview s' = (\<lambda>(l, j). if l = ftlLpn (sample_full 7) then None else lview sample_s3 (l, j))"
  by (rule trim_unmaps [OF sample_s3_ok(1) sample_env_total])
     (simp add: sample_s3_value sample_state_def sample_full_def lview_def in_range_def sample_param_def
       nth_Cons' less_2_cases_iff)

text \<open>
  A trim of a page only some of whose units were ever written stops the simulator: the walk over
  the units runs into the mark of an unmapped unit and panics.
\<close>

theorem trim_partial_page_panics:
  assumes "pm_inv s" and "map_of (table s) (ftlLpn req) \<noteq> None"
    and "j < bitsetSize s" and "lview s (ftlLpn req, j) = None"
    and "dram_lookup env s (ftlIoFlag req) tk h = Inr th"
  shows "trimInternal env req s h tk = Inl (Panic ''Block is not in use'')"
  using assms(2) trimInternal_partial [OF assms(1) _ assms(3-5)] by blast

lemma trim_partial_page_panics_witness:
  "trimInternal sample_env (sample_req 7 0) sample_s1 () 20 = Inl (Panic ''Block is not in use'')"
proof -
  have inv: "pm_inv sample_s1" using sample_writes(2) by (simp add: write_post_def)
  have c: "map_of (table sample_s1) (ftlLpn (sample_req 7 0)) \<noteq> None" "1 < bitsetSize sample_s1"
    "lview sample_s1 (ftlLpn (sample_req 7 0), 1) = None" by code_simp+
  obtain th where "dram_lookup sample_env sample_s1 (ftlIoFlag (sample_req 7 0)) 20 () = Inr th"
    by (simp add: dram_lookup_def sample_env_def)
  then show ?thesis by (rule trim_partial_page_panics [OF inv c])
qed



text \<open>
  C8. A format that returns unmaps exactly the pages of its range: the end of the range is computed
  in 64 bits as in the code, and every page outside keeps its data.
\<close>

theorem format_unmaps:
  assumes "pm_inv s" and "unitsInPage (param s) \<noteq> 1" and "pm_format env cf r s h tk = Inr (s', h', t')"
  shows "pm_inv s' \<and> dom (lview s') = {(l, j) \<in> dom (lview s). \<not> in_lpn_range r l}"
  using pm_format_ok [OF assms] by simp

lemma sample_format: "\<not> isl (pm_format sample_env sample_conf (LPNRange_new 7 1) sample_s3 () 10)"
  by code_simp

lemma format_unmaps_witness:
  "\<exists>s' h' t'. pm_format sample_env sample_conf (LPNRange_new 7 1) sample_s3 () 10 = Inr (s', h', t') \<and>
     dom (lview s') = {(l, j) \<in> dom (lview sample_s3). \<not> in_lpn_range (LPNRange_new 7 1) l}"
proof -
  obtain s' h' t' where run: "pm_format sample_env sample_conf (LPNRange_new 7 1) sample_s3 () 10 = Inr (s', h', t')"
    using sample_format by (cases "pm_format sample_env sample_conf (LPNRange_new 7 1) sample_s3 () 10") auto
  have u: "unitsInPage (param sample_s3) \<noteq> 1" using sample_param_valid(2) by (simp add: sample_s3_ok)
  from format_unmaps [OF sample_s3_ok(1) u run] run show ?thesis by blast
qed

text \<open>
  C9. Construction succeeds for every geometry with at least as many blocks as write streams. It
  yields an empty mapping that satisfies the invariant, with one open block per stream.
\<close>

theorem construction_ok:
  assumes "param_valid p"
  shows "\<exists>s. PageMapping_new cf p = Inr s \<and> pm_inv s \<and> open_ok s \<and> param s = p \<and>
    lview s = Map.empty \<and> nFreeBlocks s = totalPhysicalBlocks p - pageCountToMaxPerf p"
  using PageMapping_new_ok [OF assms, of cf] by (simp add: outcome_total)

lemma construction_ok_witness:
  "\<exists>s. PageMapping_new sample_conf sample_param = Inr s \<and> pm_inv s \<and> lview s = Map.empty \<and> nFreeBlocks s = 2"
  using construction_ok [OF sample_param_valid(1), of sample_conf] by (auto simp: sample_param_def)

text \<open>
  The greedy policy picks the blocks with the fewest valid units: no full block that is left
  out has fewer than one that is picked. (The weights are exact while a block has fewer than
  \<open>2\<^sup>2\<^sup>4\<close> units.)
\<close>

theorem greedy_takes_fewest:
  assumes "pm_base s" and "cfEvictPolicy cf = POLICY_GREEDY" and "sort_ok env"
    and "pagesInBlock (param s) * unitsInPage (param s) < 2 ^ 24"
    and "selectVictimBlock env cf fuel s h tk = Some (Inr (vs, s', h', t'))"
    and "v \<in> set vs" and "map_of (blocks s) v = Some bv"
    and "fullb s k" and "k \<notin> set vs" and "map_of (blocks s) k = Some bk"
  shows "units_valid bv \<le> units_valid bk"
  using assms by (rule greedy_minimal)

lemma greedy_takes_fewest_witness:
  "units_valid (sample_block 0 2 0 3 7 8 12) \<le> units_valid (sample_block 1 2 3 3 7 9 12)"
proof (rule greedy_takes_fewest [OF _ _ _ _ sample_s4_select])
  show "pm_base sample_s4" using sample_s4_ok(1) by (simp add: pm_inv_def)
  show "cfEvictPolicy frugal_conf = POLICY_GREEDY" "sort_ok sample_env"
    using sample_greedy by (simp_all add: greedy_def frugal_conf_def)
  show "pagesInBlock (param sample_s4) * unitsInPage (param sample_s4) < 2 ^ 24"
    by (simp add: sample_s4_ok sample_param_def)
  show "map_of (blocks sample_s4) 0 = Some (sample_block 0 2 0 3 7 8 12)"
    "map_of (blocks sample_s4) 1 = Some (sample_block 1 2 3 3 7 9 12)"
    by (simp_all add: sample_s4_value sample_state_def sample_block_def)
  show "fullb sample_s4 1"
    by (auto simp: fullb_def bnext_def sample_s4_value sample_state_def sample_block_def sample_param_def
        intro!: exI [of _ "0::nat"])
qed simp_all

text \<open>
  The rejection loop of the random and d-choice policies never ends when it is asked for more
  victims than there are full blocks, whatever is drawn and however long it runs.
\<close>

theorem random_victims_stuck:
  assumes "length (filter (\<lambda>x. fst x < TAKEN) weight) < rng" and "\<forall>n. d n < length weight"
  shows "random_select fuel d rng weight [] = None"
  using random_select_stuck [of "[]" weight rng d fuel] assms by simp

lemma random_victims_stuck_witness:
  "random_select 1000 (\<lambda>n. n mod 2) 3 [(4, Fin 1), (9, Fin 2)] [] = None"
  by (rule random_victims_stuck) (simp_all add: TAKEN_def flip: numeral_2_eq_2)

text \<open>
  An erase keeps the free list ordered by erase count, so that the allocation from its front
  levels the wear, and forgets the erased block and nothing else.
\<close>

theorem erase_keeps_wear_order:
  assumes "pm_inv s" and "sorted (map getEraseCount (freeBlocks s))"
    and "eraseInternal env cf req s h tk = Inr (s', h', t')"
  shows "pm_inv s' \<and> sorted (map getEraseCount (freeBlocks s')) \<and> lview s' = lview s \<and>
    blocks s' = tbl_del (palBlockIndex req) (blocks s)"
  using eraseInternal_ok [OF assms(1,3)] assms(2) by (simp add: erased_post_def)

lemma erase_keeps_wear_order_witness:
  "\<exists>s' h' t'. eraseInternal sample_env sample_conf (PALRequest_new 2) sample_s0 () 0 = Inr (s', h', t') \<and>
     sorted (map getEraseCount (freeBlocks s'))"
proof -
  have "\<not> isl (eraseInternal sample_env sample_conf (PALRequest_new 2) sample_s0 () 0)" by code_simp
  then obtain s' h' t' where run: "eraseInternal sample_env sample_conf (PALRequest_new 2) sample_s0 () 0 = Inr (s', h', t')"
    by (cases "eraseInternal sample_env sample_conf (PALRequest_new 2) sample_s0 () 0") auto
  have "sorted (map getEraseCount (freeBlocks sample_s0))" by code_simp
  from erase_keeps_wear_order [OF sample_s0_ok(1) this run] run show ?thesis by blast
qed










end
