(* ===== verification/GenericCache.thy ===== *)
theory GenericCache
  imports Requests Float32
begin

text \<open>
  \<^verbatim>\<open>src/icl/generic_cache.cc\<close>, \<^verbatim>\<open>generic_cache.hh\<close> and \<^verbatim>\<open>abstract_cache.hh\<close>: the set-associative
  write-back cache of the internal cache layer. The record \<open>cache_param\<close> holds the members that are
  fixed by the constructor, the record \<open>cache\<close> the mutable ones. A \<open>Line *\<close> is a pair of set and
  way, so \<open>evictData\<close> is a matrix of optional pairs. The layers the cache calls (FTL and DRAM), the
  firmware latency and the random device are the record \<open>cache_env\<close>.

  The raw arrays are accessed with checks: an index out of range is \<open>Undefined\<close>.
\<close>

section \<open>State\<close>

record line =
  lnTag :: u64
  lnLastAccessed :: tick
  lnInsertedAt :: tick
  lnDirty :: bool
  lnValid :: bool

definition Line_empty :: line where
  "Line_empty = \<lparr>lnTag = 0, lnLastAccessed = 0, lnInsertedAt = 0, lnDirty = False, lnValid = False\<rparr>"

definition Line_new :: "u64 \<Rightarrow> bool \<Rightarrow> line" where
  "Line_new t d = \<lparr>lnTag = t, lnLastAccessed = 0, lnInsertedAt = 0, lnDirty = d, lnValid = True\<rparr>"

datatype icl_evict_policy = ICL_RANDOM | ICL_FIFO | ICL_LEAST_RECENTLY_USED | ICL_POLICY_invalid
datatype granularity = MODE_SUPERPAGE | MODE_ALL | MODE_invalid

record cache_param =
  superPageSize :: nat
  parallelIO :: nat
  lineCountInSuperPage :: nat
  lineCountInMaxIO :: nat
  lineSize :: nat
  setSize :: nat
  waySize :: nat
  prefetchIOCount :: nat
  prefetchIORatio :: f32
  useReadCaching :: bool
  useWriteCaching :: bool
  useReadPrefetch :: bool
  bSuperPage :: bool
  prefetchMode :: granularity
  evictMode :: granularity
  evictPolicy :: icl_evict_policy
  distMax :: nat
  cacheLatency :: u64
  coreCount :: u64

record sequential_detect =
  sdEnabled :: bool
  sdLast :: icl_request
  sdHits :: nat
  sdAccess :: nat

record cache_stat =
  readRequests :: nat
  readFromCache :: nat
  writeRequests :: nat
  writeToCache :: nat

type_synonym slot = "nat \<times> nat"

record cache =
  cacheData :: "line list list"
  evictData :: "slot option list list"
  readDetect :: sequential_detect
  prefetchTrigger :: u64
  lastPrefetched :: u64
  cacheStat :: cache_stat

record 'h cache_env =
  ftlRead :: "ftl_request \<Rightarrow> tick \<Rightarrow> 'h \<Rightarrow> (tick \<times> 'h) res"
  ftlWrite :: "ftl_request \<Rightarrow> tick \<Rightarrow> 'h \<Rightarrow> (tick \<times> 'h) res"
  ftlTrim :: "ftl_request \<Rightarrow> tick \<Rightarrow> 'h \<Rightarrow> (tick \<times> 'h) res"
  ftlFormat :: "lpn_range \<Rightarrow> tick \<Rightarrow> 'h \<Rightarrow> (tick \<times> 'h) res"
  memRead :: "nat \<Rightarrow> tick \<Rightarrow> 'h \<Rightarrow> (tick \<times> 'h) res"
  memWrite :: "nat \<Rightarrow> tick \<Rightarrow> 'h \<Rightarrow> (tick \<times> 'h) res"
  memScheduling :: "bool \<Rightarrow> 'h \<Rightarrow> 'h"
  firmware :: "cpu_namespace \<Rightarrow> cpu_function \<Rightarrow> 'h \<Rightarrow> (tick \<times> 'h) res"
  randomWay :: "nat \<Rightarrow> 'h \<Rightarrow> nat \<times> 'h"

section \<open>Construction\<close>

record cache_conf =
  cfSuperPageSize :: nat
  cfParallelIO :: nat
  cfIoUnitInPage :: nat
  cfTweak :: bool
  cfWaySize :: nat
  cfCacheSize :: nat
  cfPrefetchCount :: nat
  cfPrefetchRatio :: f32
  cfReadCache :: bool
  cfWriteCache :: bool
  cfReadPrefetch :: bool
  cfPrefetchMode :: granularity
  cfEvictMode :: granularity
  cfPolicy :: icl_evict_policy
  cfCacheLatency :: u64
  cfCore :: u64
  cfUninitSuperPage :: bool
  cfUninitStat :: cache_stat

text \<open>
  The member \<open>bSuperPage\<close> is only ever assigned \<open>true\<close>; otherwise it keeps whatever value the
  memory had, here \<open>cfUninitSuperPage\<close>; likewise the statistics of a cache that is switched off. The distribution of the random policies is built from the
  configured way size, before a fully associative cache replaces it.
\<close>

definition cache_geometry :: "cache_conf \<Rightarrow> cache_param res" where
  "cache_geometry c =
     (if cfIoUnitInPage c = 0 then Inl (Undefined ''division by zero'')
      else
        let line0 = cfSuperPageSize c div cfIoUnitInPage c;
            super = (if line0 \<noteq> cfSuperPageSize c then True else cfUninitSuperPage c);
            tweak = cfTweak c;
            lsize = (if tweak then line0 else cfSuperPageSize c);
            lcount = (if tweak then cfIoUnitInPage c else 1);
            maxio = (if tweak then cfParallelIO c * cfIoUnitInPage c mod 2 ^ 32 else cfParallelIO c);
            p = \<lparr>superPageSize = cfSuperPageSize c, parallelIO = cfParallelIO c,
                 lineCountInSuperPage = lcount, lineCountInMaxIO = maxio, lineSize = lsize,
                 setSize = 0, waySize = cfWaySize c mod 2 ^ 32,
                 prefetchIOCount = cfPrefetchCount c, prefetchIORatio = cfPrefetchRatio c,
                 useReadCaching = cfReadCache c, useWriteCaching = cfWriteCache c,
                 useReadPrefetch = cfReadPrefetch c, bSuperPage = super,
                 prefetchMode = cfPrefetchMode c, evictMode = cfEvictMode c,
                 evictPolicy = cfPolicy c,
                 distMax = (cfWaySize c + 2 ^ 32 - 1) mod 2 ^ 32,
                 cacheLatency = cfCacheLatency c, coreCount = cfCore c\<rparr>
        in if \<not> cfReadCache c \<and> \<not> cfWriteCache c then Inr p
           else if lsize = 0 then Inl (Undefined ''division by zero'')
           else if waySize p = 0
           then Inr (p\<lparr>setSize := 1, waySize := max (cfCacheSize c div lsize) 1 mod 2 ^ 32\<rparr>)
           else Inr (p\<lparr>setSize := max (cfCacheSize c div lsize div waySize p) 1 mod 2 ^ 32\<rparr>))"

definition GenericCache_new :: "cache_conf \<Rightarrow> (cache_param \<times> cache) res" where
  "GenericCache_new c =
     ebind (cache_geometry c) (\<lambda>p.
     let s = \<lparr>cacheData = replicate (setSize p) (replicate (waySize p) Line_empty),
              evictData = replicate (lineCountInSuperPage p) (replicate (parallelIO p) None),
              readDetect = \<lparr>sdEnabled = False, sdLast = ICLRequest_new\<lparr>iclReqID := 1\<rparr>,
                            sdHits = 0, sdAccess = 0\<rparr>,
              prefetchTrigger = - 1, lastPrefetched = 0,
              cacheStat = \<lparr>readRequests = 0, readFromCache = 0, writeRequests = 0, writeToCache = 0\<rparr>\<rparr>
     in if \<not> useReadCaching p \<and> \<not> useWriteCaching p
        then Inr (p, s\<lparr>cacheData := [], evictData := [], cacheStat := cfUninitStat c\<rparr>)
        else if evictPolicy p = ICL_POLICY_invalid then Inl (Panic ''Undefined cache evict policy'')
        else Inr (p, s))"

section \<open>Lines and positions\<close>

definition line_get :: "cache \<Rightarrow> slot \<Rightarrow> line res" where
  "line_get s a = ebind (arr_get (cacheData s) (fst a)) (\<lambda>ws. arr_get ws (snd a))"

definition line_put :: "cache \<Rightarrow> slot \<Rightarrow> line \<Rightarrow> cache res" where
  "line_put s a li =
     ebind (arr_get (cacheData s) (fst a)) (\<lambda>ws.
     ebind (arr_set ws (snd a) li) (\<lambda>ws'. Inr (s\<lparr>cacheData := (cacheData s)[fst a := ws']\<rparr>)))"

definition evict_get :: "cache \<Rightarrow> nat \<Rightarrow> nat \<Rightarrow> slot option res" where
  "evict_get s row col = ebind (arr_get (evictData s) row) (\<lambda>cs. arr_get cs col)"

definition evict_set :: "cache \<Rightarrow> nat \<Rightarrow> nat \<Rightarrow> slot option \<Rightarrow> cache res" where
  "evict_set s row col a =
     ebind (arr_get (evictData s) row) (\<lambda>cs.
     ebind (arr_set cs col a) (\<lambda>cs'. Inr (s\<lparr>evictData := (evictData s)[row := cs']\<rparr>)))"

definition getCacheLatency :: "cache_param \<Rightarrow> u64" where
  "getCacheLatency p = (if coreCount p = 0 then 0 else cacheLatency p div coreCount p)"

definition calcSetIndex :: "cache_param \<Rightarrow> u64 \<Rightarrow> nat" where
  "calcSetIndex p lca = unat lca mod setSize p"

definition calcIOPosition :: "cache_param \<Rightarrow> u64 \<Rightarrow> nat \<times> nat" where
  "calcIOPosition p lca =
     (let tmp = unat lca mod lineCountInMaxIO p
      in (tmp mod lineCountInSuperPage p, tmp div lineCountInSuperPage p))"

definition getEmptyWay :: "cache_param \<Rightarrow> cache \<Rightarrow> nat \<Rightarrow> tick \<Rightarrow> (nat \<times> tick) res" where
  "getEmptyWay p s setIdx tk =
     ebind (efold (\<lambda>w (ret, mn, tk).
         ebind (line_get s (setIdx, w)) (\<lambda>li.
         if \<not> lnValid li then
           (let tk = tk + getCacheLatency p * 8
            in if mn > lnInsertedAt li then Inr (w, lnInsertedAt li, tk) else Inr (ret, mn, tk))
         else Inr (ret, mn, tk)))
       [0..<waySize p] (waySize p, - 1, tk))
     (\<lambda>(ret, _, tk). Inr (ret, tk))"

fun findWay :: "cache_param \<Rightarrow> cache \<Rightarrow> nat \<Rightarrow> u64 \<Rightarrow> nat list \<Rightarrow> tick \<Rightarrow> (nat \<times> tick) res" where
  "findWay p s setIdx lca [] tk = Inr (waySize p, tk)"
| "findWay p s setIdx lca (w # ws) tk =
     ebind (line_get s (setIdx, w)) (\<lambda>li.
     let tk = tk + getCacheLatency p * 8
     in if lnValid li \<and> lnTag li = lca then Inr (w, tk) else findWay p s setIdx lca ws tk)"

definition getValidWay :: "cache_param \<Rightarrow> cache \<Rightarrow> u64 \<Rightarrow> tick \<Rightarrow> (nat \<times> tick) res" where
  "getValidWay p s lca tk = findWay p s (calcSetIndex p lca) lca [0..<waySize p] tk"

section \<open>Replacement policies\<close>

text \<open>The first way of the set with the least key; each way costs one metadata access.\<close>

definition leastWay ::
  "(line \<Rightarrow> tick) \<Rightarrow> cache_param \<Rightarrow> cache \<Rightarrow> nat \<Rightarrow> tick \<Rightarrow> (nat \<times> tick) res" where
  "leastWay key p s setIdx tk =
     ebind (efold (\<lambda>w (way, mn, tk).
         ebind (line_get s (setIdx, w)) (\<lambda>li.
         let tk = tk + getCacheLatency p * 8
         in if key li < mn then Inr (w, key li, tk) else Inr (way, mn, tk)))
       [0..<waySize p] (0, - 1, tk))
     (\<lambda>(way, _, tk). Inr (way, tk))"

definition evictFunction ::
  "'h cache_env \<Rightarrow> cache_param \<Rightarrow> cache \<Rightarrow> nat \<Rightarrow> tick \<Rightarrow> 'h \<Rightarrow> (nat \<times> tick \<times> 'h) res" where
  "evictFunction env p s setIdx tk h =
     (case evictPolicy p of
        ICL_RANDOM \<Rightarrow> (case randomWay env (distMax p) h of (w, h) \<Rightarrow> Inr (w, tk, h))
      | ICL_FIFO \<Rightarrow> ebind (leastWay lnInsertedAt p s setIdx tk) (\<lambda>(w, tk). Inr (w, tk, h))
      | ICL_LEAST_RECENTLY_USED \<Rightarrow>
          ebind (leastWay lnLastAccessed p s setIdx tk) (\<lambda>(w, tk). Inr (w, tk, h))
      | ICL_POLICY_invalid \<Rightarrow> Inl (Undefined ''empty function object''))"

definition olderSlot ::
  "(line \<Rightarrow> tick) \<Rightarrow> cache \<Rightarrow> slot option \<Rightarrow> slot option \<Rightarrow> slot option res" where
  "olderSlot key s a b =
     (case (a, b) of
        (Some x, Some y) \<Rightarrow>
          ebind (line_get s x) (\<lambda>lx. ebind (line_get s y) (\<lambda>ly.
          Inr (if key lx < key ly then a else b)))
      | (Some x, None) \<Rightarrow> Inr a
      | (None, _) \<Rightarrow> Inr b)"

definition compareFunction ::
  "'h cache_env \<Rightarrow> cache_param \<Rightarrow> cache \<Rightarrow> slot option \<Rightarrow> slot option \<Rightarrow> 'h \<Rightarrow> (slot option \<times> 'h) res" where
  "compareFunction env p s a b h =
     (case evictPolicy p of
        ICL_RANDOM \<Rightarrow>
          if a \<noteq> None \<and> b \<noteq> None then
            (case randomWay env (distMax p) h of (r, h) \<Rightarrow>
               Inr (if r > waySize p div 2 then a else b, h))
          else Inr (if a \<noteq> None then a else b, h)
      | ICL_FIFO \<Rightarrow> ebind (olderSlot lnInsertedAt s a b) (\<lambda>c. Inr (c, h))
      | ICL_LEAST_RECENTLY_USED \<Rightarrow> ebind (olderSlot lnLastAccessed s a b) (\<lambda>c. Inr (c, h))
      | ICL_POLICY_invalid \<Rightarrow> Inl (Undefined ''empty function object''))"

section \<open>Sequential access detection\<close>

definition checkSequential ::
  "cache_param \<Rightarrow> icl_request \<Rightarrow> sequential_detect \<Rightarrow> sequential_detect" where
  "checkSequential p req d =
     (if iclReqID (sdLast d) = iclReqID req then
        d\<lparr>sdLast := (sdLast d)\<lparr>iclRange := iclRange req, iclOffset := iclOffset req,
                              iclLength := iclLength req\<rparr>\<rparr>
      else
        (let last = sdLast d;
             lsz = of_nat (lineSize p);
             d = (if slpn (iclRange last) * lsz + iclOffset last + iclLength last =
                     slpn (iclRange req) * lsz + iclOffset req then
                    (if \<not> sdEnabled d then
                       (let hits = (sdHits d + 1) mod 2 ^ 32;
                            acc = unat (of_nat (sdAccess d) + iclOffset last + iclLength last) mod 2 ^ 32;
                            on = prefetchIOCount p \<le> hits \<and>
                                 f32_ge (f32_div (f32_of_nat acc) (f32_of_nat (superPageSize p)))
                                   (prefetchIORatio p)
                        in d\<lparr>sdHits := hits, sdAccess := acc, sdEnabled := on\<rparr>)
                     else d)
                  else d\<lparr>sdEnabled := False, sdHits := 0, sdAccess := 0\<rparr>)
         in d\<lparr>sdLast := req\<rparr>))"

section \<open>Eviction\<close>

definition evict_slot ::
  "'h cache_env \<Rightarrow> cache_param \<Rightarrow> tick \<Rightarrow> bool \<Rightarrow> nat \<Rightarrow> nat \<Rightarrow> cache \<times> 'h \<Rightarrow> (cache \<times> 'h) res" where
  "evict_slot env p tk fl row col = (\<lambda>(s, h).
     ebind (evict_get s row col) (\<lambda>ptr.
     case ptr of
       None \<Rightarrow> Inr (s, h)
     | Some a \<Rightarrow>
         ebind (line_get s a) (\<lambda>li.
         ebind
           (if lnValid li \<and> lnDirty li then
              ebind (bitset_set (bitset_reset_all (Bitset_new (lineCountInSuperPage p))) row) (\<lambda>f.
              ftlWrite env ((FTLRequest_new (lineCountInSuperPage p))
                \<lparr>ftlLpn := lnTag li div of_nat (lineCountInSuperPage p), ftlIoFlag := f\<rparr>) tk h)
            else Inr (tk, h))
           (\<lambda>(beginAt, h).
         let li = (if fl then li\<lparr>lnValid := False, lnTag := 0\<rparr> else li);
             li = li\<lparr>lnInsertedAt := beginAt, lnLastAccessed := beginAt, lnDirty := False\<rparr>
         in ebind (line_put s a li) (\<lambda>s.
            ebind (evict_set s row col None) (\<lambda>s. Inr (s, h)))))))"

definition evictCache ::
  "'h cache_env \<Rightarrow> cache_param \<Rightarrow> tick \<Rightarrow> bool \<Rightarrow> cache \<Rightarrow> 'h \<Rightarrow> (cache \<times> 'h) res" where
  "evictCache env p tk fl s h =
     efold (\<lambda>row. efold (evict_slot env p tk fl row) [0..<parallelIO p])
       [0..<lineCountInSuperPage p] (s, h)"

section \<open>Reading\<close>

text \<open>First a way is chosen for every line to read, then the dirty victims are evicted, then the lines are read.\<close>

definition fill_victim ::
  "'h cache_env \<Rightarrow> cache_param \<Rightarrow> nat \<Rightarrow> tick \<Rightarrow> cache \<Rightarrow> 'h \<Rightarrow> (nat \<times> tick \<times> cache \<times> 'h) res" where
  "fill_victim env p setIdx beginAt s h =
     ebind (evictFunction env p s setIdx beginAt h) (\<lambda>(way, beginAt, h).
     ebind (line_get s (setIdx, way)) (\<lambda>li.
     if lnDirty li then
       (case calcIOPosition p (lnTag li) of (row, col) \<Rightarrow>
          ebind (evict_set s row col (Some (setIdx, way))) (\<lambda>s. Inr (way, beginAt, s, h)))
     else Inr (way, beginAt, s, h)))"

definition fill_pick ::
  "'h cache_env \<Rightarrow> cache_param \<Rightarrow> tick \<Rightarrow> u64 \<Rightarrow> cache \<times> 'h \<times> tick \<times> (u64 \<times> slot) list \<Rightarrow>
     (cache \<times> 'h \<times> tick \<times> (u64 \<times> slot) list) res" where
  "fill_pick env p tk lca = (\<lambda>(s, h, finishedAt, readList).
     ebind (getValidWay p s lca tk) (\<lambda>(way, beginAt).
     if way \<noteq> waySize p then Inr (s, h, finishedAt, readList)
     else
       let setIdx = calcSetIndex p lca in
       ebind (getEmptyWay p s setIdx beginAt) (\<lambda>(way, beginAt).
       ebind
         (if way = waySize p then fill_victim env p setIdx beginAt s h
          else Inr (way, beginAt, s, h))
         (\<lambda>(way, beginAt, s, h).
       ebind (line_get s (setIdx, way)) (\<lambda>li.
       ebind (line_put s (setIdx, way) (li\<lparr>lnInsertedAt := beginAt, lnLastAccessed := beginAt,
                lnValid := True, lnDirty := False\<rparr>)) (\<lambda>s.
       Inr (s, h, max finishedAt beginAt, readList @ [(lca, (setIdx, way))])))))))"

definition fill_line ::
  "'h cache_env \<Rightarrow> cache_param \<Rightarrow> icl_request \<Rightarrow> ftl_request \<Rightarrow> tick \<Rightarrow> u64 \<times> slot \<Rightarrow>
     cache \<times> 'h \<times> tick \<Rightarrow> (cache \<times> 'h \<times> tick) res" where
  "fill_line env p req reqInternal tk = (\<lambda>(lca, a) (s, h, finishedAt).
     ebind (bitset_set (bitset_reset_all (ftlIoFlag reqInternal)) (unat lca mod lineCountInSuperPage p)) (\<lambda>f.
     ebind (ftlRead env (reqInternal\<lparr>ftlLpn := lca div of_nat (lineCountInSuperPage p), ftlIoFlag := f\<rparr>) tk h)
       (\<lambda>(beginAt, h).
     ebind (line_get s a) (\<lambda>li.
     ebind (memWrite env (lineSize p) (lnInsertedAt li) h) (\<lambda>(dramAt, h).
     let beginAt = max beginAt dramAt in
     ebind (line_put s a (li\<lparr>lnInsertedAt := beginAt, lnLastAccessed := beginAt, lnTag := lca\<rparr>)) (\<lambda>s.
     Inr (s, h, if lca = slpn (iclRange req) then beginAt else finishedAt)))))))"

definition cache_fill ::
  "'h cache_env \<Rightarrow> cache_param \<Rightarrow> icl_request \<Rightarrow> bool \<Rightarrow> tick \<Rightarrow> cache \<Rightarrow> 'h \<Rightarrow> tick \<Rightarrow>
     (cache \<times> 'h \<times> tick) res" where
  "cache_fill env p req ret arrived s h tk =
     ebind (FTLRequest_of_ICL (lineCountInSuperPage p) req) (\<lambda>reqInternal.
     let on = sdEnabled (readDetect s);
         h = (if on then memScheduling env False h else h);
         beginLCA = slpn (iclRange req);
         n = (if prefetchMode p = MODE_ALL \<or> \<not> bSuperPage p then lineCountInMaxIO p
              else lineCountInSuperPage p);
         endLCA = beginLCA + (if on then of_nat n else 1);
         s = (if on then s\<lparr>prefetchTrigger := beginLCA + of_nat (n div 2), lastPrefetched := endLCA\<rparr>
              else s)
     in ebind (efold (fill_pick env p tk) (map word_of_nat [unat beginLCA..<unat endLCA]) (s, h, tk, []))
          (\<lambda>(s, h, finishedAt, readList).
        ebind (evictCache env p finishedAt True s h) (\<lambda>(s, h).
        ebind (efold (fill_line env p req reqInternal finishedAt) readList (s, h, finishedAt))
          (\<lambda>(s, h, tk).
        if sdEnabled (readDetect s)
        then Inr (s, memScheduling env True h, if ret then arrived else tk)
        else Inr (s, h, tk)))))"

definition count_read :: "bool \<Rightarrow> cache \<Rightarrow> cache" where
  "count_read hit s = s\<lparr>cacheStat := (cacheStat s)
     \<lparr>readRequests := readRequests (cacheStat s) + 1,
      readFromCache := readFromCache (cacheStat s) + (if hit then 1 else 0)\<rparr>\<rparr>"

text \<open>
  A hit reads the line from the DRAM and, at the trigger, goes on to prefetch; the time stamp of the
  line is set before the access. \<open>tk\<close> is the time the look-up ends.
\<close>

definition read_hit ::
  "'h cache_env \<Rightarrow> cache_param \<Rightarrow> icl_request \<Rightarrow> slot \<Rightarrow> cache \<Rightarrow> 'h \<Rightarrow> tick \<Rightarrow> (bool \<times> cache \<times> 'h \<times> tick) res" where
  "read_hit env p req a s h tk1 =
     ebind (line_get s a) (\<lambda>li.
     let tk2 = (if tk1 < lnInsertedAt li then lnInsertedAt li else tk1) in
     ebind (line_put s a (li\<lparr>lnLastAccessed := tk2\<rparr>)) (\<lambda>s.
     ebind (memRead env (unat (iclLength req)) tk2 h) (\<lambda>(tk3, h).
     if useReadPrefetch p \<and> slpn (iclRange req) = prefetchTrigger s then
       ebind (cache_fill env p (req\<lparr>iclRange := (iclRange req)\<lparr>slpn := lastPrefetched s\<rparr>\<rparr>)
                True tk3 s h tk1) (\<lambda>(s, h, tk). Inr (True, s, h, tk))
     else Inr (True, s, h, tk3))))"

definition read_cached ::
  "'h cache_env \<Rightarrow> cache_param \<Rightarrow> icl_request \<Rightarrow> cache \<Rightarrow> 'h \<Rightarrow> tick \<Rightarrow> (bool \<times> cache \<times> 'h \<times> tick) res" where
  "read_cached env p req s h tk =
     (let lca = slpn (iclRange req);
          s = (if useReadPrefetch p
               then s\<lparr>readDetect := checkSequential p req (readDetect s)\<rparr> else s)
      in ebind (getValidWay p s lca tk) (\<lambda>(way, tk1).
         ebind
           (if way \<noteq> waySize p then read_hit env p req (calcSetIndex p lca, way) s h tk1
            else ebind (cache_fill env p req False tk s h tk1) (\<lambda>(s, h, tk). Inr (False, s, h, tk)))
           (\<lambda>(ret, s, h, tk).
         ebind (firmware env ICL__GENERIC_CACHE READ h) (\<lambda>(l, h). Inr (ret, s, h, tk + l)))))"

definition cache_read ::
  "'h cache_env \<Rightarrow> cache_param \<Rightarrow> icl_request \<Rightarrow> cache \<Rightarrow> 'h \<Rightarrow> tick \<Rightarrow> (bool \<times> cache \<times> 'h \<times> tick) res" where
  "cache_read env p req s h tk =
     ebind
       (if useReadCaching p then read_cached env p req s h tk
        else
          ebind (FTLRequest_of_ICL (lineCountInSuperPage p) req) (\<lambda>q.
          ebind (memWrite env (unat (iclLength req)) tk h) (\<lambda>(tk, h).
          ebind (ftlRead env q tk h) (\<lambda>(tk, h). Inr (False, s, h, tk)))))
       (\<lambda>(ret, s, h, tk). Inr (ret, count_read ret s, h, tk))"

section \<open>Writing\<close>

text \<open>
  \<open>flush_pick\<close> chooses the lines a write that finds no empty way evicts: per I/O position the
  oldest valid line of the cache, and in any case one line of the set the write needs.
\<close>

definition pick_line ::
  "'h cache_env \<Rightarrow> cache_param \<Rightarrow> slot \<Rightarrow> cache \<times> 'h \<Rightarrow> (cache \<times> 'h) res" where
  "pick_line env p a = (\<lambda>(s, h).
     ebind (line_get s a) (\<lambda>li.
     if lnValid li then
       (case calcIOPosition p (lnTag li) of (row, col) \<Rightarrow>
          ebind (evict_get s row col) (\<lambda>old.
          ebind (compareFunction env p s old (Some a) h) (\<lambda>(best, h).
          ebind (evict_set s row col best) (\<lambda>s. Inr (s, h)))))
     else Inr (s, h)))"

definition pick_right ::
  "'h cache_env \<Rightarrow> cache_param \<Rightarrow> nat \<Rightarrow> nat \<Rightarrow> cache \<times> 'h \<Rightarrow> (cache \<times> 'h) res" where
  "pick_right env p row col = (\<lambda>(s, h).
     ebind (evict_get s row col) (\<lambda>a.
     ebind (evict_get s row (col + 1)) (\<lambda>b.
     ebind (compareFunction env p s a b h) (\<lambda>(best, h).
     ebind (evict_set s row (col + 1) best) (\<lambda>s.
     ebind (evict_set s row col None) (\<lambda>s. Inr (s, h)))))))"

definition picks_set :: "cache_param \<Rightarrow> cache \<Rightarrow> nat \<Rightarrow> bool res" where
  "picks_set p s setToFlush =
     efold (\<lambda>row. efold (\<lambda>col have.
         ebind (evict_get s row col) (\<lambda>ptr.
         case ptr of
           None \<Rightarrow> Inr have
         | Some a \<Rightarrow> ebind (line_get s a) (\<lambda>li.
             Inr (if calcSetIndex p (lnTag li) = setToFlush then True else have))))
         [0..<parallelIO p])
       [0..<lineCountInSuperPage p] False"

definition oldest_of_set ::
  "'h cache_env \<Rightarrow> cache_param \<Rightarrow> cache \<Rightarrow> nat \<Rightarrow> 'h \<Rightarrow> (slot option \<times> 'h) res" where
  "oldest_of_set env p s setIdx h =
     efold (\<lambda>w (best, h).
         ebind (line_get s (setIdx, w)) (\<lambda>li.
         if lnValid li then compareFunction env p s best (Some (setIdx, w)) h else Inr (best, h)))
       [0..<waySize p] (None, h)"

definition flush_pick ::
  "'h cache_env \<Rightarrow> cache_param \<Rightarrow> nat \<Rightarrow> cache \<Rightarrow> 'h \<Rightarrow> (cache \<times> 'h) res" where
  "flush_pick env p setToFlush s h =
     ebind (efold (\<lambda>i. efold (\<lambda>w. pick_line env p (i, w)) [0..<waySize p]) [0..<setSize p] (s, h))
       (\<lambda>(s, h).
     ebind (if evictMode p = MODE_SUPERPAGE then
              efold (\<lambda>row. efold (pick_right env p row) [0..<parallelIO p - 1])
                [0..<lineCountInSuperPage p] (s, h)
            else Inr (s, h)) (\<lambda>(s, h).
     ebind (picks_set p s setToFlush) (\<lambda>have.
     if have then Inr (s, h)
     else
       ebind (oldest_of_set env p s setToFlush h) (\<lambda>(best, h).
       case best of
         None \<Rightarrow> Inr (s, h)
       | Some a \<Rightarrow>
           ebind (line_get s a) (\<lambda>li.
           case calcIOPosition p (lnTag li) of (row, col) \<Rightarrow>
             ebind (evict_set s row col (Some a)) (\<lambda>s. Inr (s, h)))))))"

text \<open>The line of a write: \<open>t\<close> is its time stamp.\<close>

definition written_line :: "u64 \<Rightarrow> tick \<Rightarrow> bool \<Rightarrow> line \<Rightarrow> line" where
  "written_line lca t d li =
     li\<lparr>lnInsertedAt := t, lnLastAccessed := t, lnValid := True, lnDirty := d, lnTag := lca\<rparr>"

definition write_hit ::
  "'h cache_env \<Rightarrow> cache_param \<Rightarrow> nat \<Rightarrow> bool \<Rightarrow> tick \<Rightarrow> slot \<Rightarrow> cache \<Rightarrow> 'h \<Rightarrow> tick \<Rightarrow>
     (bool \<times> cache \<times> 'h \<times> tick) res" where
  "write_hit env p len dirty flash a s h tk =
     ebind (line_get s a) (\<lambda>li.
     let tk = (if tk < lnInsertedAt li then lnInsertedAt li else tk);
         t = (if dirty then tk else flash)
     in ebind (line_put s a (li\<lparr>lnInsertedAt := t, lnLastAccessed := t, lnDirty := dirty\<rparr>)) (\<lambda>s.
        ebind (memWrite env len tk h) (\<lambda>(tk, h). Inr (True, s, h, tk))))"

definition write_empty ::
  "'h cache_env \<Rightarrow> cache_param \<Rightarrow> u64 \<Rightarrow> nat \<Rightarrow> bool \<Rightarrow> tick \<Rightarrow> slot \<Rightarrow> cache \<Rightarrow> 'h \<Rightarrow> tick \<Rightarrow>
     (bool \<times> cache \<times> 'h \<times> tick) res" where
  "write_empty env p lca len dirty flash a s h tk =
     ebind (line_get s a) (\<lambda>li.
     let tk = (if tk < lnInsertedAt li then lnInsertedAt li else tk)
     in ebind (line_put s a (written_line lca (if dirty then tk else flash) dirty li)) (\<lambda>s.
        ebind (memWrite env len tk h) (\<lambda>(tk, h). Inr (True, s, h, tk))))"

definition write_evict ::
  "'h cache_env \<Rightarrow> cache_param \<Rightarrow> u64 \<Rightarrow> nat \<Rightarrow> nat \<Rightarrow> cache \<Rightarrow> 'h \<Rightarrow> tick \<Rightarrow>
     (bool \<times> cache \<times> 'h \<times> tick) res" where
  "write_evict env p lca len setIdx s h tk =
     ebind (flush_pick env p setIdx s h) (\<lambda>(s, h).
     let tk = tk + getCacheLatency p * of_nat (setSize p) * of_nat (waySize p) * 8 in
     ebind (evictCache env p tk True s h) (\<lambda>(s, h).
     ebind (getEmptyWay p s setIdx tk) (\<lambda>(way, tk).
     if way = waySize p then Inl (Panic ''Cache corrupted!'')
     else
       ebind (memWrite env len tk h) (\<lambda>(tk, h).
       ebind (line_get s (setIdx, way)) (\<lambda>li.
       ebind (line_put s (setIdx, way) (written_line lca tk True li)) (\<lambda>s.
       Inr (False, s, h, tk)))))))"

definition write_cached ::
  "'h cache_env \<Rightarrow> cache_param \<Rightarrow> icl_request \<Rightarrow> bool \<Rightarrow> tick \<Rightarrow> cache \<Rightarrow> 'h \<Rightarrow> tick \<Rightarrow>
     (bool \<times> cache \<times> 'h \<times> tick) res" where
  "write_cached env p req dirty flash s h tk =
     (let lca = slpn (iclRange req); setIdx = calcSetIndex p lca; len = unat (iclLength req) in
      ebind (getValidWay p s lca tk) (\<lambda>(way, tk).
      if way \<noteq> waySize p then write_hit env p len dirty flash (setIdx, way) s h tk
      else
        ebind (getEmptyWay p s setIdx tk) (\<lambda>(way, tk).
        if way \<noteq> waySize p then write_empty env p lca len dirty flash (setIdx, way) s h tk
        else write_evict env p lca len setIdx s h tk)))"

definition count_write :: "bool \<Rightarrow> cache \<Rightarrow> cache" where
  "count_write hit s = s\<lparr>cacheStat := (cacheStat s)
     \<lparr>writeRequests := writeRequests (cacheStat s) + 1,
      writeToCache := writeToCache (cacheStat s) + (if hit then 1 else 0)\<rparr>\<rparr>"

definition cache_write ::
  "'h cache_env \<Rightarrow> cache_param \<Rightarrow> icl_request \<Rightarrow> cache \<Rightarrow> 'h \<Rightarrow> tick \<Rightarrow> (bool \<times> cache \<times> 'h \<times> tick) res" where
  "cache_write env p req s h tk =
     ebind (FTLRequest_of_ICL (lineCountInSuperPage p) req) (\<lambda>q.
     let dirty = iclLength req < of_nat (lineSize p) in
     ebind (if dirty then Inr (tk, h) else ftlWrite env q tk h) (\<lambda>(flash, h).
     ebind
       (if useWriteCaching p then
          ebind (write_cached env p req dirty flash s h tk) (\<lambda>(ret, s, h, tk).
          ebind (firmware env ICL__GENERIC_CACHE WRITE h) (\<lambda>(l, h). Inr (ret, s, h, tk + l)))
        else
          ebind (if dirty then ftlWrite env q tk h else Inr (flash, h)) (\<lambda>(tk, h).
          ebind (memRead env (unat (iclLength req)) tk (memScheduling env False h)) (\<lambda>(tk, h).
          Inr (False, s, memScheduling env True h, tk))))
       (\<lambda>(ret, s, h, tk). Inr (ret, count_write ret s, h, tk))))"

section \<open>Flush, trim, format\<close>

text \<open>Both walk over all lines; the I/O flags of the internal request accumulate on the way.\<close>

definition in_cache_range :: "lpn_range \<Rightarrow> u64 \<Rightarrow> bool" where
  "in_cache_range r lca = (slpn r \<le> lca \<and> lca < slpn r + nlp r)"

definition flush_line ::
  "'h cache_env \<Rightarrow> cache_param \<Rightarrow> lpn_range \<Rightarrow> slot \<Rightarrow> cache \<times> 'h \<times> ftl_request \<times> tick \<times> tick \<Rightarrow>
     (cache \<times> 'h \<times> ftl_request \<times> tick \<times> tick) res" where
  "flush_line env p r a = (\<lambda>(s, h, q, tk, finishedAt).
     ebind (line_get s a) (\<lambda>li.
     let tk = tk + getCacheLatency p * 8 in
     if in_cache_range r (lnTag li) then
       ebind
         (if lnDirty li then
            ebind (bitset_set (ftlIoFlag q) (unat (lnTag li) mod lineCountInSuperPage p)) (\<lambda>f.
            let q = q\<lparr>ftlLpn := lnTag li div of_nat (lineCountInSuperPage p), ftlIoFlag := f\<rparr> in
            ebind (ftlWrite env q tk h) (\<lambda>(ftlTick, h). Inr (h, q, max finishedAt ftlTick)))
          else Inr (h, q, finishedAt))
         (\<lambda>(h, q, finishedAt).
       ebind (line_put s a (li\<lparr>lnValid := False\<rparr>)) (\<lambda>s. Inr (s, h, q, tk, finishedAt)))
     else Inr (s, h, q, tk, finishedAt)))"

definition cache_flush ::
  "'h cache_env \<Rightarrow> cache_param \<Rightarrow> lpn_range \<Rightarrow> cache \<Rightarrow> 'h \<Rightarrow> tick \<Rightarrow> (cache \<times> 'h \<times> tick) res" where
  "cache_flush env p r s h tk =
     (if useReadCaching p \<or> useWriteCaching p then
        ebind (efold (\<lambda>i. efold (\<lambda>w. flush_line env p r (i, w)) [0..<waySize p]) [0..<setSize p]
                 (s, h, FTLRequest_new (lineCountInSuperPage p), tk, tk))
          (\<lambda>(s, h, _, tk, finishedAt).
        ebind (firmware env ICL__GENERIC_CACHE FLUSH h) (\<lambda>(l, h). Inr (s, h, max tk finishedAt + l)))
      else Inr (s, h, tk))"

definition trim_line ::
  "'h cache_env \<Rightarrow> cache_param \<Rightarrow> lpn_range \<Rightarrow> slot \<Rightarrow> cache \<times> 'h \<times> ftl_request \<times> tick \<times> tick \<Rightarrow>
     (cache \<times> 'h \<times> ftl_request \<times> tick \<times> tick) res" where
  "trim_line env p r a = (\<lambda>(s, h, q, tk, finishedAt).
     ebind (line_get s a) (\<lambda>li.
     let tk = tk + getCacheLatency p * 8 in
     if in_cache_range r (lnTag li) then
       ebind (bitset_set (ftlIoFlag q) (unat (lnTag li) mod lineCountInSuperPage p)) (\<lambda>f.
       let q = q\<lparr>ftlLpn := lnTag li div of_nat (lineCountInSuperPage p), ftlIoFlag := f\<rparr> in
       ebind (ftlTrim env q tk h) (\<lambda>(ftlTick, h).
       ebind (line_put s a (li\<lparr>lnValid := False\<rparr>)) (\<lambda>s.
       Inr (s, h, q, tk, max finishedAt ftlTick))))
     else Inr (s, h, q, tk, finishedAt)))"

definition cache_trim ::
  "'h cache_env \<Rightarrow> cache_param \<Rightarrow> lpn_range \<Rightarrow> cache \<Rightarrow> 'h \<Rightarrow> tick \<Rightarrow> (cache \<times> 'h \<times> tick) res" where
  "cache_trim env p r s h tk =
     (if useReadCaching p \<or> useWriteCaching p then
        ebind (efold (\<lambda>i. efold (\<lambda>w. trim_line env p r (i, w)) [0..<waySize p]) [0..<setSize p]
                 (s, h, FTLRequest_new (lineCountInSuperPage p), tk, tk))
          (\<lambda>(s, h, _, tk, finishedAt).
        ebind (firmware env ICL__GENERIC_CACHE TRIM h) (\<lambda>(l, h). Inr (s, h, max tk finishedAt + l)))
      else Inr (s, h, tk))"

definition cache_format ::
  "'h cache_env \<Rightarrow> cache_param \<Rightarrow> lpn_range \<Rightarrow> cache \<Rightarrow> 'h \<Rightarrow> tick \<Rightarrow> (cache \<times> 'h \<times> tick) res" where
  "cache_format env p r s h tk =
     ebind
       (if useReadCaching p \<or> useWriteCaching p then
          efold (\<lambda>i (s, tk).
              let lpn = slpn r + of_nat i; setIdx = calcSetIndex p lpn in
              ebind (getValidWay p s lpn tk) (\<lambda>(way, tk).
              if way \<noteq> waySize p then
                ebind (line_get s (setIdx, way)) (\<lambda>li.
                ebind (line_put s (setIdx, way) (li\<lparr>lnValid := False\<rparr>)) (\<lambda>s. Inr (s, tk)))
              else Inr (s, tk)))
            [0..<unat (nlp r)] (s, tk)
        else Inr (s, tk))
       (\<lambda>(s, tk).
     if lineCountInSuperPage p = 0 then Inl (Undefined ''division by zero'')
     else
       let r = \<lparr>slpn = slpn r div of_nat (lineCountInSuperPage p),
                nlp = (nlp r - 1) div of_nat (lineCountInSuperPage p) + 1\<rparr>
       in ebind (ftlFormat env r tk h) (\<lambda>(tk, h).
          ebind (firmware env ICL__GENERIC_CACHE FORMAT h) (\<lambda>(l, h). Inr (s, h, tk + l))))"

definition cache_getStatValues :: "cache \<Rightarrow> nat list" where
  "cache_getStatValues s = [readRequests (cacheStat s), readFromCache (cacheStat s),
     writeRequests (cacheStat s), writeToCache (cacheStat s)]"

definition cache_resetStatValues :: "cache \<Rightarrow> cache" where
  "cache_resetStatValues s = s\<lparr>cacheStat :=
     \<lparr>readRequests = 0, readFromCache = 0, writeRequests = 0, writeToCache = 0\<rparr>\<rparr>"

end
