(* ===== verification/CacheProps.thy ===== *)
theory CacheProps
  imports GenericCache
begin

text \<open>
  Properties of the cache of \<^verbatim>\<open>src/icl/generic_cache.cc\<close>: its address arithmetic, the lookup,
  the replacement policies, what a write leaves in the cache, and what an eviction writes back.
\<close>

section \<open>Address arithmetic\<close>

definition geometry_ok :: "cache_param \<Rightarrow> bool" where
  "geometry_ok p \<longleftrightarrow> 0 < lineCountInSuperPage p \<and> 0 < parallelIO p \<and> 0 < setSize p \<and> 0 < waySize p \<and>
     lineCountInMaxIO p = parallelIO p * lineCountInSuperPage p \<and> lineCountInSuperPage p < 2 ^ 32"

lemma calcSetIndex_bound: "geometry_ok p \<Longrightarrow> calcSetIndex p lca < setSize p"
  by (simp add: geometry_ok_def calcSetIndex_def)

lemma calcIOPosition_bounds:
  assumes "geometry_ok p" and "calcIOPosition p lca = (row, col)"
  shows "row < lineCountInSuperPage p" and "col < parallelIO p"
    and "col * lineCountInSuperPage p + row = unat lca mod lineCountInMaxIO p"
  using assms by (auto simp: geometry_ok_def calcIOPosition_def Let_def less_mult_imp_div_less)

text \<open>The unit of an I/O position is the unit of the address, so LPN and row give the address back.\<close>

lemma calcIOPosition_row:
  assumes "geometry_ok p" and "calcIOPosition p lca = (row, col)"
  shows "row = unat lca mod lineCountInSuperPage p"
    and "unat (lca div of_nat (lineCountInSuperPage p)) * lineCountInSuperPage p + row = unat lca"
proof -
  have "unat (of_nat (lineCountInSuperPage p) :: u64) = lineCountInSuperPage p"
    using assms(1) by (simp add: geometry_ok_def unat_of_nat)
  moreover show row: "row = unat lca mod lineCountInSuperPage p"
    using assms by (auto simp: geometry_ok_def calcIOPosition_def Let_def mod_mod_cancel)
  ultimately show "unat (lca div of_nat (lineCountInSuperPage p)) * lineCountInSuperPage p + row = unat lca"
    by (simp add: unat_div)
qed

section \<open>Shape\<close>

definition cache_wf :: "cache_param \<Rightarrow> cache \<Rightarrow> bool" where
  "cache_wf p s \<longleftrightarrow> geometry_ok p \<and> length (cacheData s) = setSize p \<and>
     (\<forall>ws\<in>set (cacheData s). length ws = waySize p) \<and>
     length (evictData s) = lineCountInSuperPage p \<and>
     (\<forall>cs\<in>set (evictData s). length cs = parallelIO p)"

definition slot_ok :: "cache_param \<Rightarrow> slot \<Rightarrow> bool" where
  "slot_ok p a \<longleftrightarrow> fst a < setSize p \<and> snd a < waySize p"

definition line_at :: "cache \<Rightarrow> slot \<Rightarrow> line" where
  "line_at s a = cacheData s ! fst a ! snd a"

definition pick_at :: "cache \<Rightarrow> nat \<Rightarrow> nat \<Rightarrow> slot option" where
  "pick_at s row col = evictData s ! row ! col"

lemma line_get_eq [simp]:
  assumes "cache_wf p s"
  shows "line_get s a = (if slot_ok p a then Inr (line_at s a) else Inl (Undefined ''array index''))"
proof (cases "fst a < setSize p")
  case True
  then have "length (cacheData s ! fst a) = waySize p"
    using assms by (auto simp: cache_wf_def)
  with True assms show ?thesis
    by (simp add: cache_wf_def line_get_def line_at_def slot_ok_def arr_get_def)
next
  case False
  with assms show ?thesis by (simp add: cache_wf_def line_get_def slot_ok_def arr_get_def)
qed

definition with_line :: "cache \<Rightarrow> slot \<Rightarrow> line \<Rightarrow> cache" where
  "with_line s a li = s\<lparr>cacheData := (cacheData s)[fst a := (cacheData s ! fst a)[snd a := li]]\<rparr>"

lemma line_put_eq [simp]:
  assumes "cache_wf p s" and "slot_ok p a"
  shows "line_put s a li = Inr (with_line s a li)"
proof -
  have "length (cacheData s ! fst a) = waySize p" using assms by (auto simp: cache_wf_def slot_ok_def)
  with assms show ?thesis by (simp add: cache_wf_def slot_ok_def line_put_def with_line_def)
qed

definition with_pick :: "cache \<Rightarrow> nat \<Rightarrow> nat \<Rightarrow> slot option \<Rightarrow> cache" where
  "with_pick s row col a = s\<lparr>evictData := (evictData s)[row := (evictData s ! row)[col := a]]\<rparr>"

lemma evict_eq [simp]:
  assumes "cache_wf p s" and "row < lineCountInSuperPage p" and "col < parallelIO p"
  shows "evict_get s row col = Inr (pick_at s row col)"
    and "evict_set s row col a = Inr (with_pick s row col a)"
proof -
  have "length (evictData s ! row) = parallelIO p" using assms by (auto simp: cache_wf_def)
  with assms show "evict_get s row col = Inr (pick_at s row col)"
    and "evict_set s row col a = Inr (with_pick s row col a)"
    by (simp_all add: cache_wf_def evict_get_def evict_set_def pick_at_def with_pick_def)
qed

lemma cache_wf_with [simp]:
  "cache_wf p s \<Longrightarrow> slot_ok p a \<Longrightarrow> cache_wf p (with_line s a li)"
  "cache_wf p s \<Longrightarrow> row < lineCountInSuperPage p \<Longrightarrow> cache_wf p (with_pick s row col b)"
  by (auto simp: cache_wf_def with_line_def with_pick_def slot_ok_def dest!: subsetD [OF set_update_subset_insert])

lemma line_at_with_line:
  assumes "cache_wf p s" and "slot_ok p a"
  shows "line_at (with_line s a li) b = (if b = a then li else line_at s b)"
proof -
  have "length (cacheData s ! fst a) = waySize p" using assms by (auto simp: cache_wf_def slot_ok_def)
  with assms show ?thesis
    by (cases a; cases b) (auto simp: cache_wf_def slot_ok_def line_at_def with_line_def nth_list_update)
qed

lemma at_with_other [simp]:
  "line_at (with_pick s row col b) a = line_at s a" "pick_at (with_line s a li) row col = pick_at s row col"
  by (simp_all add: line_at_def with_pick_def pick_at_def with_line_def)

lemma pick_at_with_pick:
  assumes "cache_wf p s" and "row < lineCountInSuperPage p" and "col < parallelIO p"
  shows "pick_at (with_pick s row col b) r c = (if (r, c) = (row, col) then b else pick_at s r c)"
proof -
  have "length (evictData s ! row) = parallelIO p" using assms by (auto simp: cache_wf_def)
  with assms show ?thesis
    by (auto simp: cache_wf_def pick_at_def with_pick_def nth_list_update)
qed

section \<open>Lookup\<close>

text \<open>
  The lookup returns the first way of the set that holds the address, or the number of ways, and
  charges one metadata access per way it looked at.
\<close>

lemma findWay_spec:
  assumes wf: "cache_wf p s" and i: "setIdx < setSize p" and "n \<le> waySize p"
    and "findWay p s setIdx lca [n..<waySize p] tk = Inr (way, tk')"
  shows "if way = waySize p
    then (\<forall>w. n \<le> w \<longrightarrow> w < waySize p \<longrightarrow> \<not> (lnValid (line_at s (setIdx, w)) \<and> lnTag (line_at s (setIdx, w)) = lca)) \<and>
      tk' = tk + of_nat (waySize p - n) * (getCacheLatency p * 8)
    else n \<le> way \<and> way < waySize p \<and> lnValid (line_at s (setIdx, way)) \<and> lnTag (line_at s (setIdx, way)) = lca \<and>
      (\<forall>w. n \<le> w \<longrightarrow> w < way \<longrightarrow> \<not> (lnValid (line_at s (setIdx, w)) \<and> lnTag (line_at s (setIdx, w)) = lca)) \<and>
      tk' = tk + of_nat (way - n + 1) * (getCacheLatency p * 8)"
  using assms(3,4)
proof (induction "waySize p - n" arbitrary: n tk)
  case 0
  then show ?case by auto
next
  case (Suc d)
  then have n: "n < waySize p" by simp
  let ?hit = "\<lambda>w. lnValid (line_at s (setIdx, w)) \<and> lnTag (line_at s (setIdx, w)) = lca"
  have get: "line_get s (setIdx, n) = Inr (line_at s (setIdx, n))"
    using line_get_eq [OF wf, of "(setIdx, n)"] i n by (simp add: slot_ok_def)
  show ?case
  proof (cases "?hit n")
    case True
    with Suc.prems(2) get have "way = n" "tk' = tk + getCacheLatency p * 8"
      by (simp_all add: upt_conv_Cons [OF n] Let_def)
    with n True show ?thesis by simp
  next
    case False
    with Suc.prems(2) get have "findWay p s setIdx lca [Suc n..<waySize p] (tk + getCacheLatency p * 8) = Inr (way, tk')"
      by (simp add: upt_conv_Cons [OF n] Let_def del: findWay.simps(1))
    from Suc.hyps(1) [OF _ _ this] Suc.hyps(2) n
    have IH: "if way = waySize p
      then (\<forall>w. Suc n \<le> w \<longrightarrow> w < waySize p \<longrightarrow> \<not> ?hit w) \<and>
        tk' = tk + getCacheLatency p * 8 + of_nat (waySize p - Suc n) * (getCacheLatency p * 8)
      else Suc n \<le> way \<and> way < waySize p \<and> ?hit way \<and> (\<forall>w. Suc n \<le> w \<longrightarrow> w < way \<longrightarrow> \<not> ?hit w) \<and>
        tk' = tk + getCacheLatency p * 8 + of_nat (way - Suc n + 1) * (getCacheLatency p * 8)"
      by simp
    have less: "Suc n \<le> w \<or> w = n" if "n \<le> w" for w using that by auto
    have c1: "of_nat (waySize p - n) * (getCacheLatency p * 8) =
        getCacheLatency p * 8 + of_nat (waySize p - Suc n) * (getCacheLatency p * 8)"
    proof -
      have "waySize p - n = Suc (waySize p - Suc n)" using n by simp
      then show ?thesis by (simp only: of_nat_Suc distrib_right mult_1)
    qed
    have c2: "of_nat (way - n + 1) * (getCacheLatency p * 8) =
        getCacheLatency p * 8 + of_nat (way - Suc n + 1) * (getCacheLatency p * 8)" if "Suc n \<le> way"
    proof -
      have "way - n + 1 = Suc (way - Suc n + 1)" using that by simp
      then show ?thesis by (simp only: of_nat_Suc distrib_right mult_1) 
    qed
    show ?thesis
    proof (cases "way = waySize p")
      case True
      with IH c1 False less show ?thesis by (auto simp: add.assoc)
    next
      case ne: False
      with IH c2 False less show ?thesis by (auto simp: add.assoc)
    qed
  qed
qed

lemma findWay_total:
  assumes wf: "cache_wf p s" and i: "setIdx < setSize p" and ws: "\<forall>w\<in>set ws. w < waySize p"
  shows "\<exists>way tk'. findWay p s setIdx lca ws tk = Inr (way, tk')"
  using ws
proof (induction ws arbitrary: tk)
  case Nil
  then show ?case by simp
next
  case (Cons w ws)
  then show ?case using line_get_eq [OF wf, of "(setIdx, w)"] i by (simp add: slot_ok_def Let_def)
qed

definition holds :: "cache_param \<Rightarrow> cache \<Rightarrow> u64 \<Rightarrow> nat \<Rightarrow> bool" where
  "holds p s lca w \<longleftrightarrow> w < waySize p \<and> lnValid (line_at s (calcSetIndex p lca, w)) \<and>
     lnTag (line_at s (calcSetIndex p lca, w)) = lca"

theorem getValidWay_spec:
  assumes wf: "cache_wf p s"
  obtains way tk' where "getValidWay p s lca tk = Inr (way, tk')"
    and "way = waySize p \<Longrightarrow> (\<forall>w. \<not> holds p s lca w) \<and> tk' = tk + of_nat (waySize p) * (getCacheLatency p * 8)"
    and "way \<noteq> waySize p \<Longrightarrow> holds p s lca way \<and> (\<forall>w<way. \<not> holds p s lca w) \<and>
      tk' = tk + of_nat (way + 1) * (getCacheLatency p * 8)"
proof -
  have i: "calcSetIndex p lca < setSize p" using wf by (simp add: cache_wf_def calcSetIndex_bound)
  obtain way tk' where f: "findWay p s (calcSetIndex p lca) lca [0..<waySize p] tk = Inr (way, tk')"
    using findWay_total [OF wf i, of "[0..<waySize p]" lca tk] by auto
  note S = findWay_spec [OF wf i le0 f]
  show ?thesis
  proof (rule that)
    show "getValidWay p s lca tk = Inr (way, tk')" using f by (simp add: getValidWay_def)
    show "(\<forall>w. \<not> holds p s lca w) \<and> tk' = tk + of_nat (waySize p) * (getCacheLatency p * 8)" if "way = waySize p"
      using S that by (auto simp: holds_def)
    show "holds p s lca way \<and> (\<forall>w<way. \<not> holds p s lca w) \<and>
        tk' = tk + of_nat (way + 1) * (getCacheLatency p * 8)" if "way \<noteq> waySize p"
      using S that by (auto simp: holds_def)
  qed
qed

text \<open>The empty way is an invalid one; a metadata time stamp of all ones hides an invalid line.\<close>

theorem getEmptyWay_spec:
  assumes wf: "cache_wf p s" and i: "setIdx < setSize p"
  obtains way tk' where "getEmptyWay p s setIdx tk = Inr (way, tk')"
    and "way = waySize p \<Longrightarrow> \<forall>w<waySize p. lnValid (line_at s (setIdx, w)) \<or> lnInsertedAt (line_at s (setIdx, w)) = - 1"
    and "way \<noteq> waySize p \<Longrightarrow> way < waySize p \<and> \<not> lnValid (line_at s (setIdx, way)) \<and>
      (\<forall>w<waySize p. \<not> lnValid (line_at s (setIdx, w)) \<longrightarrow>
         lnInsertedAt (line_at s (setIdx, way)) \<le> lnInsertedAt (line_at s (setIdx, w)))"
proof -
  let ?L = "\<lambda>w. line_at s (setIdx, w)"
  let ?P = "\<lambda>n (ret, mn, tk :: tick).
      (ret = waySize p \<and> mn = - 1 \<or> ret < n \<and> \<not> lnValid (?L ret) \<and> mn = lnInsertedAt (?L ret) \<and> ret < waySize p) \<and>
      (\<forall>w<n. lnValid (?L w) \<or> mn \<le> lnInsertedAt (?L w))"
  let ?f = "\<lambda>w (ret, mn, tk). ebind (line_get s (setIdx, w)) (\<lambda>li.
         if \<not> lnValid li then
           (let tk = tk + getCacheLatency p * 8
            in if mn > lnInsertedAt li then Inr (w, lnInsertedAt li, tk) else Inr (ret, mn, tk))
         else Inr (ret, mn, tk))"
  have "outcome (\<lambda>_. False) (efold ?f [0..<waySize p] (waySize p, - 1, tk)) (?P (waySize p))"
  proof (rule outcome_loop [where P = ?P])
    fix n x
    assume n: "n < waySize p" and P: "?P n x"
    have get: "line_get s (setIdx, n) = Inr (?L n)" using wf i n by (simp add: slot_ok_def)
    show "outcome (\<lambda>_. False) (?f n x) (?P (Suc n))"
      using P n get by (cases x) (auto simp: Let_def less_Suc_eq not_less)
  qed auto
  then obtain way mn tk' where r: "efold ?f [0..<waySize p] (waySize p, - 1, tk) = Inr (way, mn, tk')"
    and P: "?P (waySize p) (way, mn, tk')"
    by (auto simp: outcome_total)
  show ?thesis
  proof (rule that)
    show "getEmptyWay p s setIdx tk = Inr (way, tk')" using r by (simp add: getEmptyWay_def)
    show "\<forall>w<waySize p. lnValid (?L w) \<or> lnInsertedAt (?L w) = - 1" if "way = waySize p"
    proof -
      have "mn = - 1" using P that by auto
      then have "\<forall>w<waySize p. lnValid (?L w) \<or> - 1 \<le> lnInsertedAt (?L w)" using P by auto
      then show ?thesis using word_order.extremum_unique by blast
    qed
    show "way < waySize p \<and> \<not> lnValid (?L way) \<and> (\<forall>w<waySize p. \<not> lnValid (?L w) \<longrightarrow>
        lnInsertedAt (?L way) \<le> lnInsertedAt (?L w))" if "way \<noteq> waySize p"
      using P that by auto
  qed
qed

section \<open>Replacement\<close>

text \<open>FIFO and LRU evict a line with the least time stamp of its set.\<close>

theorem leastWay_spec:
  assumes wf: "cache_wf p s" and i: "setIdx < setSize p"
  obtains way tk' where "leastWay key p s setIdx tk = Inr (way, tk')" and "way < waySize p"
    and "\<forall>w<waySize p. key (line_at s (setIdx, way)) \<le> key (line_at s (setIdx, w))"
proof -
  let ?L = "\<lambda>w. line_at s (setIdx, w)"
  have pos: "0 < waySize p" using wf by (simp add: cache_wf_def geometry_ok_def)
  let ?P = "\<lambda>n (way, mn, tk :: tick). way < waySize p \<and> (way = 0 \<and> mn = - 1 \<or> mn = key (?L way)) \<and>
      (\<forall>w<n. mn \<le> key (?L w))"
  let ?f = "\<lambda>w (way, mn, tk). ebind (line_get s (setIdx, w)) (\<lambda>li.
         let tk = tk + getCacheLatency p * 8
         in if key li < mn then Inr (w, key li, tk) else Inr (way, mn, tk))"
  have "outcome (\<lambda>_. False) (efold ?f [0..<waySize p] (0, - 1, tk)) (?P (waySize p))"
  proof (rule outcome_loop [where P = ?P])
    show "?P 0 (0, - 1, tk)" using pos by simp
    fix n x
    assume n: "n < waySize p" and P: "?P n x"
    have get: "line_get s (setIdx, n) = Inr (?L n)" using wf i n by (simp add: slot_ok_def)
    show "outcome (\<lambda>_. False) (?f n x) (?P (Suc n))"
      using P n get by (cases x) (auto simp: Let_def less_Suc_eq not_less)
  qed simp
  then obtain way mn tk' where r: "efold ?f [0..<waySize p] (0, - 1, tk) = Inr (way, mn, tk')"
    and P: "?P (waySize p) (way, mn, tk')"
    by (auto simp: outcome_total)
  show ?thesis
  proof (rule that)
    show "leastWay key p s setIdx tk = Inr (way, tk')" using r by (simp add: leastWay_def)
    show "way < waySize p" using P by simp
    have le: "mn \<le> key (?L w)" if "w < waySize p" for w using P that by simp
    have "key (?L way) \<le> mn"
    proof (cases "mn = key (?L way)")
      case False
      then have "mn = - 1" using P by simp
      then show ?thesis by simp
    qed simp
    then show "\<forall>w<waySize p. key (?L way) \<le> key (?L w)" using le order_trans by blast
  qed
qed

section \<open>Eviction writes back\<close>

text \<open>
  What evicting a matrix of picks asks of the FTL: one write per valid dirty pick, in the order of
  the rows and columns, each for the address of its line.
\<close>

definition evict_request :: "cache_param \<Rightarrow> nat \<Rightarrow> line \<Rightarrow> ftl_request" where
  "evict_request p row li = (FTLRequest_new (lineCountInSuperPage p))
     \<lparr>ftlLpn := lnTag li div of_nat (lineCountInSuperPage p),
      ftlIoFlag := bs_upd (bitset_reset_all (Bitset_new (lineCountInSuperPage p))) row True\<rparr>"

definition evicted :: "bool \<Rightarrow> tick \<Rightarrow> line \<Rightarrow> line" where
  "evicted fl t li = (if fl then li\<lparr>lnValid := False, lnTag := 0\<rparr> else li)
     \<lparr>lnInsertedAt := t, lnLastAccessed := t, lnDirty := False\<rparr>"

lemma evict_slot_eq:
  assumes wf: "cache_wf p s" and row: "row < lineCountInSuperPage p" and col: "col < parallelIO p"
  shows "evict_slot env p tk fl row col (s, h) =
    (case pick_at s row col of
       None \<Rightarrow> Inr (s, h)
     | Some a \<Rightarrow>
         if \<not> slot_ok p a then Inl (Undefined ''array index'')
         else
           ebind (if lnValid (line_at s a) \<and> lnDirty (line_at s a)
                  then ftlWrite env (evict_request p row (line_at s a)) tk h else Inr (tk, h)) (\<lambda>(t, h).
           Inr (with_pick (with_line s a (evicted fl t (line_at s a))) row col None, h)))"
proof (cases "pick_at s row col")
  case None
  with assms show ?thesis by (simp add: evict_slot_def)
next
  case (Some a)
  have f: "bitset_set (bitset_reset_all (Bitset_new (lineCountInSuperPage p))) row =
      Inr (bs_upd (bitset_reset_all (Bitset_new (lineCountInSuperPage p))) row True)"
    using row by (cases "lineCountInSuperPage p") (simp_all)
  show ?thesis
  proof (cases "slot_ok p a")
    case False
    with Some assms show ?thesis by (simp add: evict_slot_def)
  next
    case True
    have wl: "cache_wf p (with_line s a li)" for li using wf True by simp
    show ?thesis
      unfolding evict_slot_def prod.case
      using Some assms True wl evict_eq(2) [OF wl row col]
      by (simp add: f evict_request_def evicted_def Let_def)
  qed
qed

text \<open>Without dirty picks nothing is written back: the FTL is not called at all.\<close>

definition clean_picks :: "cache_param \<Rightarrow> cache \<Rightarrow> bool" where
  "clean_picks p s \<longleftrightarrow> (\<forall>row<lineCountInSuperPage p. \<forall>col<parallelIO p.
     \<forall>a. pick_at s row col = Some a \<longrightarrow> slot_ok p a \<and> \<not> lnDirty (line_at s a))"

lemma clean_picksD:
  "clean_picks p s \<Longrightarrow> row < lineCountInSuperPage p \<Longrightarrow> col < parallelIO p \<Longrightarrow>
   pick_at s row col = Some a \<Longrightarrow> slot_ok p a \<and> \<not> lnDirty (line_at s a)"
  unfolding clean_picks_def by blast

lemma evict_slot_clean:
  assumes wf: "cache_wf p s" and cl: "clean_picks p s"
    and row: "row < lineCountInSuperPage p" and col: "col < parallelIO p"
  shows "\<exists>s'. (\<forall>env h. evict_slot env p tk fl row col (s, h) = Inr (s', h)) \<and> cache_wf p s' \<and> clean_picks p s'"
proof (cases "pick_at s row col")
  case None
  with assms show ?thesis by (auto simp: evict_slot_eq)
next
  case (Some a)
  with cl row col have a: "slot_ok p a" "\<not> lnDirty (line_at s a)" 
    unfolding clean_picks_def by blast+
  let ?s = "with_pick (with_line s a (evicted fl tk (line_at s a))) row col None"
  have pk: "pick_at ?s r c = (if (r, c) = (row, col) then None else pick_at s r c)" for r c
    using pick_at_with_pick [of p "with_line s a (evicted fl tk (line_at s a))" row col None r c] wf a row col
    by simp
  have ln: "line_at ?s b = (if b = a then evicted fl tk (line_at s a) else line_at s b)" for b
    using line_at_with_line [OF wf a(1)] by simp
  have "clean_picks p ?s"
    unfolding clean_picks_def
  proof (intro allI impI)
    fix r c b
    assume rc: "r < lineCountInSuperPage p" "c < parallelIO p" and "pick_at ?s r c = Some b"
    then have "pick_at s r c = Some b" by (simp add: pk split: if_splits)
    from clean_picksD [OF cl rc this] show "slot_ok p b \<and> \<not> lnDirty (line_at ?s b)"
      unfolding ln by (simp add: evicted_def)
  qed
  moreover have "cache_wf p ?s" using wf a row by simp
  moreover have "\<forall>env h. evict_slot env p tk fl row col (s, h) = Inr (?s, h)"
    using Some a assms by (simp add: evict_slot_eq)
  ultimately show ?thesis by blast
qed

lemma efold_pure:
  assumes "P s" and "\<And>x s. x \<in> set xs \<Longrightarrow> P s \<Longrightarrow> \<exists>s'. (\<forall>env h. f env x (s, h) = Inr (s', h)) \<and> P s'"
  shows "\<exists>s'. (\<forall>env h. efold (f env) xs (s, h) = Inr (s', h)) \<and> P s'"
  using assms
proof (induction xs arbitrary: s)
  case Nil
  then show ?case by simp
next
  case (Cons x xs)
  from Cons.prems(2) [OF _ Cons.prems(1), of x] obtain t where t: "\<forall>env h. f env x (s, h) = Inr (t, h)" "P t"
    by auto
  from Cons.IH [OF t(2)] Cons.prems(2) have "\<exists>s'. (\<forall>env h. efold (f env) xs (t, h) = Inr (s', h)) \<and> P s'"
    by simp
  with t(1) show ?case by simp
qed

lemma evictCache_clean:
  assumes "cache_wf p s" and "clean_picks p s"
  shows "\<exists>s'. (\<forall>env h. evictCache env p tk fl s h = Inr (s', h)) \<and> cache_wf p s' \<and> clean_picks p s'"
  unfolding evictCache_def
proof (rule efold_pure [where P = "\<lambda>s. cache_wf p s \<and> clean_picks p s"])
  show "\<exists>s'. (\<forall>env h. efold (evict_slot env p tk fl row) [0..<parallelIO p] (s, h) = Inr (s', h)) \<and>
      cache_wf p s' \<and> clean_picks p s'"
    if "row \<in> set [0..<lineCountInSuperPage p]" "cache_wf p s \<and> clean_picks p s" for row s
    by (rule efold_pure [where P = "\<lambda>s. cache_wf p s \<and> clean_picks p s"
          and f = "\<lambda>env. evict_slot env p tk fl row"])
       (use that evict_slot_clean in auto)
qed (use assms in simp)

end
