(* ===== verification/Pal.thy ===== *)
theory Pal
  imports Requests
begin

text \<open>
  The address side of the flash abstraction: \<^verbatim>\<open>src/pal/pal.cc\<close> computes the geometry of super
  blocks and super pages, \<^verbatim>\<open>src/pal/pal_old.cc\<close> translates a page request on a super block into
  the physical pages it touches. The fields of \<open>pal_param\<close> are 32-bit unsigned integers, so the
  products wrap at \<open>2\<^sup>3\<^sup>2\<close>.
\<close>

section \<open>Geometry\<close>

text \<open>The bits of \<open>ADDR_INDEX\<close>, used both as a set (superblock) and as a name (page allocation).\<close>

definition INDEX_CHANNEL :: u8 where "INDEX_CHANNEL = 1"
definition INDEX_PACKAGE :: u8 where "INDEX_PACKAGE = 2"
definition INDEX_DIE :: u8 where "INDEX_DIE = 4"
definition INDEX_PLANE :: u8 where "INDEX_PLANE = 8"

lemmas index_defs = INDEX_CHANNEL_def INDEX_PACKAGE_def INDEX_DIE_def INDEX_PLANE_def

record pal_param =
  pChannel :: nat
  pPackage :: nat
  pDie :: nat
  pPlane :: nat
  pBlock :: nat
  pPage :: nat
  superBlock :: nat
  pPageSize :: nat
  pSuperPageSize :: nat
  pageInSuperPage :: nat

record pal_conf =
  pcChannel :: nat
  pcPackage :: nat
  pcDie :: nat
  pcPlane :: nat
  pcBlock :: nat
  pcPage :: nat
  pcPageSize :: nat
  pcMultiPlane :: bool
  pcSuperblock :: u8
  pcAllocation :: "u8 list"
  pcRandomTweak :: bool

abbreviation u32mul :: "nat \<Rightarrow> nat \<Rightarrow> nat" where
  "u32mul a b \<equiv> a * b mod 2 ^ 32"

text \<open>One dimension: either the super page grows by its factor, or the number of super blocks does.\<close>

definition widen :: "bool \<Rightarrow> nat \<Rightarrow> nat \<times> nat \<Rightarrow> nat \<times> nat" where
  "widen inside n = (\<lambda>(blk, psize). if inside then (blk, u32mul psize n) else (u32mul blk n, psize))"

definition PAL_new :: "pal_conf \<Rightarrow> pal_param res" where
  "PAL_new c =
     (let sb = pcSuperblock c;
          (blk, psize) =
            widen (pcMultiPlane c \<or> sb AND INDEX_PLANE \<noteq> 0) (pcPlane c)
             (widen (sb AND INDEX_DIE \<noteq> 0) (pcDie c)
               (widen (sb AND INDEX_PACKAGE \<noteq> 0) (pcPackage c)
                 (widen (sb AND INDEX_CHANNEL \<noteq> 0) (pcChannel c) (pcBlock c, pcPageSize c))))
      in if pcPageSize c = 0 \<or> (pcMultiPlane c \<and> pcPlane c = 0)
         then Inl (Undefined ''division by zero'')
         else
           let n = psize div pcPageSize c;
               n = (if pcMultiPlane c then n div pcPlane c else n)
           in Inr \<lparr>pChannel = pcChannel c, pPackage = pcPackage c, pDie = pcDie c, pPlane = pcPlane c,
                  pBlock = pcBlock c, pPage = pcPage c, superBlock = blk, pPageSize = pcPageSize c,
                  pSuperPageSize = psize, pageInSuperPage = n\<rparr>)"

section \<open>Address translation\<close>

record cpdpbp =
  aChannel :: nat
  aPackage :: nat
  aDie :: nat
  aPlane :: nat
  aBlock :: nat
  aPage :: nat

text \<open>
  The array \<open>ptr\<close> holds pointers to the address fields that lie inside the super block, in
  allocation order; here their names. \<open>value\<close> holds the corresponding sizes.
\<close>

datatype field = Channel | Package | Die | Plane

fun put_field :: "field \<Rightarrow> nat \<Rightarrow> cpdpbp \<Rightarrow> cpdpbp" where
  "put_field Channel v a = a\<lparr>aChannel := v\<rparr>"
| "put_field Package v a = a\<lparr>aPackage := v\<rparr>"
| "put_field Die v a = a\<lparr>aDie := v\<rparr>"
| "put_field Plane v a = a\<lparr>aPlane := v\<rparr>"

fun get_field :: "field \<Rightarrow> cpdpbp \<Rightarrow> nat" where
  "get_field Channel a = aChannel a"
| "get_field Package a = aPackage a"
| "get_field Die a = aDie a"
| "get_field Plane a = aPlane a"

fun field_size :: "pal_param \<Rightarrow> field \<Rightarrow> nat" where
  "field_size p Channel = pChannel p"
| "field_size p Package = pPackage p"
| "field_size p Die = pDie p"
| "field_size p Plane = pPlane p"

definition split_field ::
  "pal_param \<Rightarrow> bool \<Rightarrow> field \<Rightarrow> cpdpbp \<times> nat \<times> field list \<Rightarrow> (cpdpbp \<times> nat \<times> field list) res" where
  "split_field p inside f = (\<lambda>(addr, tmp, ptr).
     if inside then Inr (addr, tmp, ptr @ [f])
     else if field_size p f = 0 then Inl (Undefined ''division by zero'')
     else Inr (put_field f (tmp mod field_size p f) addr, tmp div field_size p f, ptr))"

definition split_index ::
  "pal_conf \<Rightarrow> pal_param \<Rightarrow> u8 \<Rightarrow> cpdpbp \<times> nat \<times> field list \<Rightarrow> (cpdpbp \<times> nat \<times> field list) res" where
  "split_index c p idx x =
     (let sb = pcSuperblock c in
      if idx = INDEX_CHANNEL then split_field p (sb AND INDEX_CHANNEL \<noteq> 0) Channel x
      else if idx = INDEX_PACKAGE then split_field p (sb AND INDEX_PACKAGE \<noteq> 0) Package x
      else if idx = INDEX_DIE then split_field p (sb AND INDEX_DIE \<noteq> 0) Die x
      else if idx = INDEX_PLANE then
        (if pcMultiPlane c then Inr x else split_field p (sb AND INDEX_PLANE \<noteq> 0) Plane x)
      else Inr x)"

text \<open>
  The nested loops over the fields inside the super block: the first field runs fastest. The code
  spells them out for zero to four fields; with no field there is a single page.
\<close>

fun units :: "pal_param \<Rightarrow> field list \<Rightarrow> cpdpbp \<Rightarrow> cpdpbp list" where
  "units p [] a = [a]"
| "units p (f # fs) a = concat (map (\<lambda>b. map (\<lambda>v. put_field f v b) [0..<field_size p f]) (units p fs a))"

definition pick_units :: "bitset \<Rightarrow> cpdpbp list \<Rightarrow> (nat \<times> cpdpbp list) res" where
  "pick_units flag us =
     efold (\<lambda>a (tmp, out). ebind (bitset_test flag tmp) (\<lambda>on. Inr (tmp + 1, if on then out @ [a] else out)))
       us (0, [])"

text \<open>
  The request's flag is replaced when the random-I/O tweak is off and its size does not fit; the
  request is passed by reference, so the flag used is part of the result. Every field of the local
  variable \<open>addr\<close> that the loop leaves unset is set by the nested loops or is the plane.
\<close>

definition convertCPDPBP ::
  "pal_conf \<Rightarrow> pal_param \<Rightarrow> pal_request \<Rightarrow> (bitset \<times> cpdpbp list) res" where
  "convertCPDPBP c p req =
     (if pcRandomTweak c \<and> bitset_size (palIoFlag req) \<noteq> pageInSuperPage p
      then Inl (Panic ''Invalid size of I/O flag'')
      else
        ebind (if bitset_size (palIoFlag req) \<noteq> pageInSuperPage p
               then bitset_set_all (Bitset_new (pageInSuperPage p)) else Inr (palIoFlag req)) (\<lambda>flag.
        ebind (efold (split_index c p) (pcAllocation c)
                 (\<lparr>aChannel = 0, aPackage = 0, aDie = 0, aPlane = 0, aBlock = 0, aPage = 0\<rparr>,
                  palBlockIndex req, [])) (\<lambda>(addr, tmp, ptr).
        ebind (pick_units flag
                 (units p ptr (addr\<lparr>aBlock := tmp mod 2 ^ 32, aPage := palPageIndex req\<rparr>)))
          (\<lambda>(n, out).
        if n \<noteq> pageInSuperPage p then Inl (Panic ''I/O flag size != # pages in super page'')
        else Inr (flag, out)))))"

end
