(* ===== verification/PalProps.thy ===== *)
theory PalProps
  imports Pal
begin

text \<open>
  The address translation of super blocks is a bijection: block index, page and unit together name
  every physical page exactly once, within the bounds of the geometry.
\<close>

section \<open>Fields\<close>

lemma UNIV_field: "UNIV = {Channel, Package, Die, Plane}"
  by (auto intro: field.exhaust)

lemma finite_field: "finite (UNIV :: field set)"
  by (simp add: UNIV_field)

lemma get_put_field [simp]: "get_field f (put_field g v a) = (if f = g then v else get_field f a)"
  by (cases f; cases g) auto

lemma put_field_rest [simp]:
  "aBlock (put_field f v a) = aBlock a" "aPage (put_field f v a) = aPage a"
  by (cases f; simp)+

lemma get_field_block [simp]: "get_field f (a\<lparr>aBlock := b, aPage := q\<rparr>) = get_field f a"
  by (cases f) auto

lemma cpdpbp_eqI:
  assumes "\<And>f. get_field f a = get_field f b" and "aBlock a = aBlock b" and "aPage a = aPage b"
  shows "(a :: cpdpbp) = b"
  using assms(1) [of Channel] assms(1) [of Package] assms(1) [of Die] assms(1) [of Plane] assms(2,3)
  by (cases a; cases b) simp

section \<open>The units of a super page\<close>

definition agree :: "field set \<Rightarrow> cpdpbp \<Rightarrow> cpdpbp \<Rightarrow> bool" where
  "agree F a b \<longleftrightarrow> (\<forall>f. f \<notin> F \<longrightarrow> get_field f b = get_field f a) \<and> aBlock b = aBlock a \<and> aPage b = aPage a"

lemma length_units: "length (units p fs a) = prod_list (map (field_size p) fs)"
proof (induction fs)
  case (Cons f fs)
  have "length (concat (map (\<lambda>b. map (\<lambda>v. put_field f v b) [0..<field_size p f]) us)) =
      length us * field_size p f" for us
    by (induction us) auto
  with Cons show ?case by simp
qed simp

lemma units_iff:
  assumes "distinct fs"
  shows "b \<in> set (units p fs a) \<longleftrightarrow> agree (set fs) a b \<and> (\<forall>f\<in>set fs. get_field f b < field_size p f)"
  using assms
proof (induction fs arbitrary: b)
  case Nil
  then show ?case by (auto simp: agree_def intro: cpdpbp_eqI)
next
  case (Cons f fs)
  show ?case
  proof
    assume "b \<in> set (units p (f # fs) a)"
    then obtain b' v where b': "b' \<in> set (units p fs a)" "v < field_size p f" "b = put_field f v b'" by auto
    with Cons show "agree (set (f # fs)) a b \<and> (\<forall>g\<in>set (f # fs). get_field g b < field_size p g)"
      by (auto simp: agree_def)
  next
    assume A: "agree (set (f # fs)) a b \<and> (\<forall>g\<in>set (f # fs). get_field g b < field_size p g)"
    let ?b = "put_field f (get_field f a) b"
    have "?b \<in> set (units p fs a)" using A Cons by (auto simp: agree_def)
    moreover have "b = put_field f (get_field f b) ?b" by (rule cpdpbp_eqI) auto
    ultimately show "b \<in> set (units p (f # fs) a)" using A by (auto intro!: bexI [of _ ?b] image_eqI)
  qed
qed

lemma distinct_units:
  assumes "distinct fs"
  shows "distinct (units p fs a)"
  using assms
proof (induction fs)
  case (Cons f fs)
  have fixed: "get_field f b = get_field f a" if "b \<in> set (units p fs a)" for b
    using that Cons.prems by (simp add: units_iff agree_def)
  have inj: "b = b' \<and> v = v'"
    if "b \<in> set (units p fs a)" "b' \<in> set (units p fs a)" "put_field f v b = put_field f v' b'" for b b' v v'
  proof
    have eq: "get_field g (put_field f v b) = get_field g (put_field f v' b')" for g using that(3) by simp
    show "v = v'" using eq [of f] by simp
    show "b = b'"
    proof (rule cpdpbp_eqI)
      show "get_field g b = get_field g b'" for g
        using eq [of g] fixed [OF that(1)] fixed [OF that(2)] by (cases "g = f") simp_all
      show "aBlock b = aBlock b'" "aPage b = aPage b'"
        using arg_cong [OF that(3), of aBlock] arg_cong [OF that(3), of aPage] by simp_all
    qed
  qed
  have "distinct (concat (map (\<lambda>b. map (\<lambda>v. put_field f v b) [0..<n]) us))"
    if "distinct us" "set us \<subseteq> set (units p fs a)" for n us
    using that
  proof (induction us)
    case (Cons u us)
    have "distinct (map (\<lambda>v. put_field f v u) [0..<n])"
      using inj Cons.prems by (auto simp: distinct_map inj_on_def)
    moreover have "put_field f v u \<noteq> put_field f v' u'" if "u' \<in> set us" for v v' u'
      using inj [of u u' v v'] Cons.prems that by auto
    ultimately show ?case using Cons by auto
  qed simp
  with Cons show ?case by simp
qed simp

section \<open>Mixed radix\<close>

text \<open>What the loop over the allocation does to the fields outside the super block, and its inverse.\<close>

fun peel :: "pal_param \<Rightarrow> field list \<Rightarrow> cpdpbp \<times> nat \<Rightarrow> cpdpbp \<times> nat" where
  "peel p [] x = x"
| "peel p (f # fs) (a, t) = peel p fs (put_field f (t mod field_size p f) a, t div field_size p f)"

fun join :: "pal_param \<Rightarrow> field list \<Rightarrow> cpdpbp \<Rightarrow> nat \<Rightarrow> nat" where
  "join p [] a t = t"
| "join p (f # fs) a t = get_field f a + field_size p f * join p fs a t"

lemma peel_spec:
  assumes "distinct fs" and "\<forall>f\<in>set fs. 0 < field_size p f" and "peel p fs (a, t) = (b, u)"
  shows "agree (set fs) a b \<and> (\<forall>f\<in>set fs. get_field f b < field_size p f) \<and> join p fs b u = t"
  using assms
proof (induction fs arbitrary: a t)
  case Nil
  then show ?case by (simp add: agree_def)
next
  case (Cons f fs)
  let ?a = "put_field f (t mod field_size p f) a" and ?t = "t div field_size p f"
  from Cons.IH [of ?a ?t] Cons.prems
  have IH: "agree (set fs) ?a b" "\<forall>f\<in>set fs. get_field f b < field_size p f" "join p fs b u = ?t" by simp_all
  moreover have "get_field f b = t mod field_size p f" using IH(1) Cons.prems(1) by (simp add: agree_def)
  ultimately show ?case using Cons.prems(2) by (auto simp: agree_def)
qed

lemma join_bound:
  assumes "\<forall>f\<in>set fs. 0 < field_size p f" and "join p fs a u < prod_list (map (field_size p) fs) * n"
  shows "u < n"
  using assms
proof (induction fs)
  case (Cons f fs)
  have "field_size p f * join p fs a u \<le> join p (f # fs) a u" by simp
  also have "\<dots> < field_size p f * (prod_list (map (field_size p) fs) * n)"
    using Cons.prems(2) by (simp add: mult.assoc)
  finally show ?case using Cons by simp
qed simp

section \<open>Geometry\<close>

fun conf_size :: "pal_conf \<Rightarrow> field \<Rightarrow> nat" where
  "conf_size c Channel = pcChannel c"
| "conf_size c Package = pcPackage c"
| "conf_size c Die = pcDie c"
| "conf_size c Plane = pcPlane c"

fun field_index :: "field \<Rightarrow> u8" where
  "field_index Channel = INDEX_CHANNEL"
| "field_index Package = INDEX_PACKAGE"
| "field_index Die = INDEX_DIE"
| "field_index Plane = INDEX_PLANE"

definition inside :: "pal_conf \<Rightarrow> field \<Rightarrow> bool" where
  "inside c f \<longleftrightarrow> \<not> (f = Plane \<and> pcMultiPlane c) \<and> pcSuperblock c AND field_index f \<noteq> 0"

definition outside :: "pal_conf \<Rightarrow> field \<Rightarrow> bool" where
  "outside c f \<longleftrightarrow> \<not> (f = Plane \<and> pcMultiPlane c) \<and> pcSuperblock c AND field_index f = 0"

definition alloc_ok :: "pal_conf \<Rightarrow> field list \<Rightarrow> bool" where
  "alloc_ok c fl \<longleftrightarrow> pcAllocation c = map field_index fl \<and> distinct fl \<and> set fl = UNIV"

text \<open>A geometry whose products fit into 32 bits.\<close>

definition pal_ok :: "pal_conf \<Rightarrow> bool" where
  "pal_ok c \<longleftrightarrow> (\<forall>f. 0 < conf_size c f) \<and> 0 < pcBlock c \<and> 0 < pcPageSize c \<and>
     pcBlock c * (pcChannel c * pcPackage c * pcDie c * pcPlane c) < 2 ^ 32 \<and>
     pcPageSize c * (pcChannel c * pcPackage c * pcDie c * pcPlane c) < 2 ^ 32"

definition volume :: "(field \<Rightarrow> nat) \<Rightarrow> (field \<Rightarrow> bool) \<Rightarrow> nat" where
  "volume g P = (\<Prod>f\<in>{f. P f}. g f)"

lemma volume_eq:
  "volume g P = (if P Channel then g Channel else 1) * (if P Package then g Package else 1) *
     (if P Die then g Die else 1) * (if P Plane then g Plane else 1)"
proof -
  have "volume g P = (\<Prod>f\<in>UNIV. if P f then g f else 1)"
    unfolding volume_def by (rule prod.mono_neutral_cong_left) (simp_all add: UNIV_field [symmetric] finite_field)
  then show ?thesis by (simp add: UNIV_field mult.assoc)
qed

lemma volume_list: "distinct fl \<Longrightarrow> set fl = UNIV \<Longrightarrow> prod_list (map g (filter P fl)) = volume g P"
  by (simp add: volume_def prod.distinct_set_conv_list [symmetric] Collect_conj_eq [symmetric])

lemma widen_fits:
  assumes "b \<le> B * k" and "s \<le> S * k" and "B * (k * n) < 2 ^ 32" and "S * (k * n) < 2 ^ 32" and "0 < n"
  shows "widen i n (b, s) = (if i then (b, s * n) else (b * n, s))"
    and "(if i then b else b * n) \<le> B * (k * n)" and "(if i then s * n else s) \<le> S * (k * n)"
proof -
  have bn: "b * n \<le> B * (k * n)" and sn: "s * n \<le> S * (k * n)"
    using mult_le_mono1 [OF assms(1), of n] mult_le_mono1 [OF assms(2), of n] by (simp_all add: mult.assoc)
  have "b \<le> b * n" "s \<le> s * n" using assms(5) by auto
  with bn sn have "b \<le> B * (k * n)" "s \<le> S * (k * n)" by (blast intro: order_trans)+
  with bn sn show "(if i then b else b * n) \<le> B * (k * n)" "(if i then s * n else s) \<le> S * (k * n)" by (cases i; simp only: if_True if_False)+
  show "widen i n (b, s) = (if i then (b, s * n) else (b * n, s))"
  proof -
    have "b * n < 2 ^ 32" "s * n < 2 ^ 32"
      using le_less_trans [OF bn assms(3)] le_less_trans [OF sn assms(4)] by blast+
    then show ?thesis by (simp add: widen_def)
  qed
qed

theorem PAL_new_geometry:
  assumes ok: "pal_ok c"
  shows "\<exists>p. PAL_new c = Inr p \<and> field_size p = conf_size c \<and> pPage p = pcPage c \<and>
    superBlock p = pcBlock c * volume (conf_size c) (outside c) \<and>
    pageInSuperPage p = volume (conf_size c) (inside c) \<and> pBlock p = pcBlock c"
proof -
  define B where "B = pcBlock c"
  define S where "S = pcPageSize c"
  define C where "C = pcChannel c"
  define K where "K = pcPackage c"
  define D where "D = pcDie c"
  define P where "P = pcPlane c"
  note defs = B_def S_def C_def K_def D_def P_def
  have pos: "0 < C" "0 < K" "0 < D" "0 < P" "0 < S"
    using ok by (auto simp: pal_ok_def defs dest: spec [of _ Channel] spec [of _ Package] spec [of _ Die] spec [of _ Plane])
  have tot: "B * (C * K * D * P) < 2 ^ 32" "S * (C * K * D * P) < 2 ^ 32"
    using ok by (simp_all add: pal_ok_def defs)
  have part: "X * k < 2 ^ 32" if "X * (C * K * D * P) < 2 ^ 32" "k \<le> C * K * D * P" for X k
    using that(1) mult_le_mono2 [OF that(2), of X] by linarith
  have le: "C \<le> C * K * D * P" "C * K \<le> C * K * D * P" "C * K * D \<le> C * K * D * P"
    using pos by (simp_all add: mult.assoc)
  define i1 where "i1 = (pcSuperblock c AND INDEX_CHANNEL \<noteq> 0)"
  define i2 where "i2 = (pcSuperblock c AND INDEX_PACKAGE \<noteq> 0)"
  define i3 where "i3 = (pcSuperblock c AND INDEX_DIE \<noteq> 0)"
  define i4 where "i4 = (pcMultiPlane c \<or> pcSuperblock c AND INDEX_PLANE \<noteq> 0)"
  define b1 s1 where "b1 = (if i1 then B else B * C)" and "s1 = (if i1 then S * C else S)"
  define b2 s2 where "b2 = (if i2 then b1 else b1 * K)" and "s2 = (if i2 then s1 * K else s1)"
  define b3 s3 where "b3 = (if i3 then b2 else b2 * D)" and "s3 = (if i3 then s2 * D else s2)"
  define b4 s4 where "b4 = (if i4 then b3 else b3 * P)" and "s4 = (if i4 then s3 * P else s3)"
  have w1: "widen i1 C (B, S) = (b1, s1)" "b1 \<le> B * C" "s1 \<le> S * C"
    using widen_fits [of B B 1 S S C i1] pos part [OF tot(1) le(1)] part [OF tot(2) le(1)]
    by (simp_all add: b1_def s1_def)
  have w2: "widen i2 K (b1, s1) = (b2, s2)" "b2 \<le> B * (C * K)" "s2 \<le> S * (C * K)"
    using widen_fits [OF w1(2,3), of K i2] pos part [OF tot(1) le(2)] part [OF tot(2) le(2)]
    by (simp_all add: b2_def s2_def)
  have w3: "widen i3 D (b2, s2) = (b3, s3)" "b3 \<le> B * (C * K * D)" "s3 \<le> S * (C * K * D)"
    using widen_fits [OF w2(2,3), of D i3] pos part [OF tot(1) le(3)] part [OF tot(2) le(3)]
    by (simp_all add: b3_def s3_def)
  have w4: "widen i4 P (b3, s3) = (b4, s4)"
    using widen_fits [OF w3(2,3), of P i4] pos tot by (simp add: b4_def s4_def)
  let ?p = "\<lparr>pChannel = C, pPackage = K, pDie = D, pPlane = P, pBlock = B, pPage = pcPage c, superBlock = b4,
     pPageSize = S, pSuperPageSize = s4,
     pageInSuperPage = (if pcMultiPlane c then s4 div S div P else s4 div S)\<rparr>"
  have new: "PAL_new c = Inr ?p"
    using w1(1) w2(1) w3(1) w4 pos
    by (simp add: PAL_new_def i1_def i2_def i3_def i4_def defs [symmetric] Let_def)
  have fs: "field_size ?p f = conf_size c f" for f by (cases f) (simp_all add: defs)
  have out: "b4 = B * volume (conf_size c) (outside c)"
    by (auto simp: volume_eq outside_def b1_def b2_def b3_def b4_def i1_def i2_def i3_def i4_def defs)
  have "(if pcMultiPlane c then s4 div S div P else s4 div S) = volume (conf_size c) (inside c)"
  proof (cases "pcMultiPlane c")
    case True
    then have "s4 = S * (volume (conf_size c) (inside c) * P)"
      by (auto simp: volume_eq inside_def s1_def s2_def s3_def s4_def i1_def i2_def i3_def i4_def defs)
    with True pos show ?thesis by simp
  next
    case False
    then have "s4 = S * volume (conf_size c) (inside c)"
      by (auto simp: volume_eq inside_def s1_def s2_def s3_def s4_def i1_def i2_def i3_def i4_def defs)
    with False pos show ?thesis by simp
  qed
  with new fs out show ?thesis by (intro exI [of _ ?p]) (simp add: B_def fun_eq_iff)
qed

section \<open>Translation of a request\<close>

text \<open>
  The physical pages of unit numbers \<open>0, 1, \<dots>\<close> of page \<open>q\<close> of super block \<open>b\<close>, and the ones a
  request's flag picks among them.
\<close>

definition zero_addr :: cpdpbp where
  "zero_addr = \<lparr>aChannel = 0, aPackage = 0, aDie = 0, aPlane = 0, aBlock = 0, aPage = 0\<rparr>"

definition super_page :: "pal_conf \<Rightarrow> pal_param \<Rightarrow> field list \<Rightarrow> nat \<Rightarrow> nat \<Rightarrow> cpdpbp list" where
  "super_page c p fl b q =
     (case peel p (filter (outside c) fl) (zero_addr, b) of
       (a, t) \<Rightarrow> units p (filter (inside c) fl) (a\<lparr>aBlock := t, aPage := q\<rparr>))"

definition picked :: "bitset \<Rightarrow> 'a list \<Rightarrow> 'a list" where
  "picked flag us = map ((!) us) (filter (bget flag) [0..<length us])"

lemma index_neq:
  "INDEX_CHANNEL \<noteq> INDEX_PACKAGE" "INDEX_CHANNEL \<noteq> INDEX_DIE" "INDEX_CHANNEL \<noteq> INDEX_PLANE"
  "INDEX_PACKAGE \<noteq> INDEX_DIE" "INDEX_PACKAGE \<noteq> INDEX_PLANE" "INDEX_DIE \<noteq> INDEX_PLANE"
  by (simp_all add: index_defs)

lemma split_index_field:
  assumes "0 < field_size p f"
  shows "split_index c p (field_index f) (a, t, ptr) =
    Inr (if inside c f then (a, t, ptr @ [f])
         else if outside c f then (put_field f (t mod field_size p f) a, t div field_size p f, ptr)
         else (a, t, ptr))"
  using assms index_neq
  by (cases f) (simp_all add: split_index_def split_field_def inside_def outside_def Let_def index_neq [symmetric])

lemma split_all:
  assumes "\<forall>f\<in>set fl. 0 < field_size p f"
  shows "efold (split_index c p) (map field_index fl) (a, t, ptr) =
    Inr (fst (peel p (filter (outside c) fl) (a, t)), snd (peel p (filter (outside c) fl) (a, t)),
         ptr @ filter (inside c) fl)"
  using assms
proof (induction fl arbitrary: a t ptr)
  case (Cons f fl)
  then show ?case
    by (auto simp: split_index_field inside_def outside_def)
qed simp

lemma pick_units_eq:
  assumes "bs_wf flag" and "length us \<le> bitset_size flag"
  shows "pick_units flag us = Inr (length us, picked flag us)"
proof -
  have "pick_units flag (take n us) = Inr (n, picked flag (take n us))" if "n \<le> length us" for n
    using that
  proof (induction n)
    case 0
    then show ?case by (simp add: pick_units_def picked_def)
  next
    case (Suc n)
    have t: "take (Suc n) us = take n us @ [us ! n]" using Suc.prems by (simp add: take_Suc_conv_app_nth)
    have "picked flag (take (Suc n) us) =
        map ((!) (take (Suc n) us)) (filter (bget flag) [0..<n]) @ (if bget flag n then [us ! n] else [])"
      using Suc.prems by (simp add: picked_def min_absorb2)
    also have "map ((!) (take (Suc n) us)) (filter (bget flag) [0..<n]) = picked flag (take n us)"
      using Suc.prems by (simp add: picked_def min_absorb2)
    finally show ?case
      using Suc assms by (simp add: t pick_units_def efold_append bitset_size_def)
  qed
  from this [of "length us"] show ?thesis by simp
qed

lemma set_picked: "set (picked flag us) = {us ! i |i. i < length us \<and> bget flag i}"
  by (auto simp: picked_def)

lemma picked_subset: "x \<in> set (picked flag us) \<Longrightarrow> x \<in> set us"
  by (auto simp: set_picked)

lemma picked_all:
  assumes "\<And>i. i < length us \<Longrightarrow> bget flag i"
  shows "picked flag us = us"
proof -
  have "filter (bget flag) [0..<length us] = [0..<length us]" using assms by (simp add: filter_id_conv)
  then show ?thesis by (simp add: picked_def map_nth)
qed

lemma distinct_picked: "distinct us \<Longrightarrow> distinct (picked flag us)"
  by (auto simp: picked_def distinct_map inj_on_def nth_eq_iff_index_eq)

text \<open>A physical page within the bounds of the geometry; multi-plane operation uses plane 0.\<close>

definition in_geometry :: "pal_conf \<Rightarrow> cpdpbp \<Rightarrow> bool" where
  "in_geometry c a \<longleftrightarrow> (\<forall>f. get_field f a < conf_size c f) \<and> aBlock a < pcBlock c \<and>
     (pcMultiPlane c \<longrightarrow> aPlane a = 0)"

lemma outer_inner:
  assumes "alloc_ok c fl"
  shows "distinct (filter (outside c) fl)" and "distinct (filter (inside c) fl)"
    and "set (filter (outside c) fl) = {f. outside c f}" and "set (filter (inside c) fl) = {f. inside c f}"
  using assms by (auto simp: alloc_ok_def)

lemma in_out: "inside c f \<Longrightarrow> \<not> outside c f" "\<not> inside c f \<Longrightarrow> \<not> outside c f \<Longrightarrow> f = Plane \<and> pcMultiPlane c"
  by (auto simp: inside_def outside_def)

lemma get_zero [simp]: "get_field f zero_addr = 0" "aBlock zero_addr = 0" "aPage zero_addr = 0"
  by (cases f) (simp_all add: zero_addr_def)

lemma super_page_iff:
  assumes ok: "pal_ok c" "alloc_ok c fl" and fs: "field_size p = conf_size c"
    and b: "b < pcBlock c * volume (conf_size c) (outside c)"
  shows "x \<in> set (super_page c p fl b q) \<longleftrightarrow>
    in_geometry c x \<and> aPage x = q \<and> join p (filter (outside c) fl) x (aBlock x) = b"
proof -
  obtain a t where at: "peel p (filter (outside c) fl) (zero_addr, b) = (a, t)" by (metis surj_pair)
  have pos: "0 < conf_size c f" for f using ok(1) by (simp add: pal_ok_def)
  note o = outer_inner [OF ok(2)]
  have vol: "prod_list (map (field_size p) (filter (outside c) fl)) = volume (conf_size c) (outside c)"
    using ok(2) fs by (simp add: volume_list alloc_ok_def)
  have spec: "agree {f. outside c f} zero_addr a" "\<And>f. outside c f \<Longrightarrow> get_field f a < conf_size c f"
    "join p (filter (outside c) fl) a t = b"
    using peel_spec [OF o(1) _ at] pos fs o(3) by auto
  have t: "t < pcBlock c"
    by (rule join_bound [of "filter (outside c) fl" p a]) (use pos fs spec(3) b vol in \<open>auto simp: mult.commute\<close>)
  have joined: "join p fs x u = join p fs y u" if "\<forall>f\<in>set fs. get_field f x = get_field f y" for fs x y u
    using that by (induction fs) auto
  have out_only: "get_field f a = 0" if "\<not> outside c f" for f using spec(1) that by (simp add: agree_def)
  have iff: "x \<in> set (super_page c p fl b q) \<longleftrightarrow>
     (\<forall>f. \<not> inside c f \<longrightarrow> get_field f x = get_field f a) \<and> aBlock x = t \<and> aPage x = q \<and>
     (\<forall>f. inside c f \<longrightarrow> get_field f x < conf_size c f)"
    using units_iff [OF o(2)] o(4) fs by (auto simp: super_page_def at agree_def)
  show ?thesis
  proof
    assume "x \<in> set (super_page c p fl b q)"
    then have x: "\<And>f. \<not> inside c f \<Longrightarrow> get_field f x = get_field f a" "aBlock x = t" "aPage x = q"
      "\<And>f. inside c f \<Longrightarrow> get_field f x < conf_size c f" by (auto simp: iff)
    have "get_field f x < conf_size c f" for f
      using x(1,4) [of f] spec(2) [of f] out_only [of f] pos [of f] in_out by (cases "inside c f"; cases "outside c f") auto
    moreover have "pcMultiPlane c \<Longrightarrow> aPlane x = 0"
      using x(1) [of Plane] out_only [of Plane] by (simp add: inside_def outside_def)
    moreover have "join p (filter (outside c) fl) x t = b"
      using joined [of "filter (outside c) fl" x a t] x(1) in_out spec(3) by auto
    ultimately show "in_geometry c x \<and> aPage x = q \<and> join p (filter (outside c) fl) x (aBlock x) = b"
      using x(2,3) t by (simp add: in_geometry_def)
  next
    assume A: "in_geometry c x \<and> aPage x = q \<and> join p (filter (outside c) fl) x (aBlock x) = b"
    have inj: "(\<forall>f\<in>set fs. get_field f x = get_field f a) \<and> u = t"
      if "\<forall>f\<in>set fs. get_field f x < field_size p f" "\<forall>f\<in>set fs. get_field f a < field_size p f"
        "join p fs x u = join p fs a t" for fs u
      using that
    proof (induction fs)
      case (Cons f fs)
      have "get_field f x = get_field f a \<and> join p fs x u = join p fs a t"
        using Cons.prems by (auto dest: arg_cong [of _ _ "\<lambda>n. n mod field_size p f"] arg_cong [of _ _ "\<lambda>n. n div field_size p f"])
      with Cons show ?case by simp
    qed simp
    have same: "\<forall>f. outside c f \<longrightarrow> get_field f x = get_field f a" "aBlock x = t"
      using inj [of "filter (outside c) fl" "aBlock x"] A spec(2,3) fs o(3) by (auto simp: in_geometry_def)
    have "get_field f x = get_field f a" if "\<not> inside c f" for f
      using same(1) out_only [of f] in_out(2) [OF that] A by (cases "outside c f") (auto simp: in_geometry_def)
    with A same(2) show "x \<in> set (super_page c p fl b q)" by (auto simp: iff in_geometry_def)
  qed
qed

lemma length_super_page:
  assumes "alloc_ok c fl" and "field_size p = conf_size c"
  shows "length (super_page c p fl b q) = volume (conf_size c) (inside c)"
  using assms by (simp add: super_page_def length_units volume_list alloc_ok_def split: prod.split)

lemma distinct_super_page: "alloc_ok c fl \<Longrightarrow> distinct (super_page c p fl b q)"
  by (simp add: super_page_def distinct_units outer_inner split: prod.split)

lemma volume_pos: "pal_ok c \<Longrightarrow> 0 < volume (conf_size c) P"
  unfolding volume_def by (rule prod_pos) (simp add: pal_ok_def)

lemma pal_ok_pos: "pal_ok c \<Longrightarrow> 0 < pcChannel c \<and> 0 < pcPackage c \<and> 0 < pcDie c \<and> 0 < pcPlane c"
  by (metis conf_size.simps pal_ok_def)

text \<open>The flag the translation ends up with: the request's, or a full one when its size does not fit.\<close>

definition used_flag :: "pal_param \<Rightarrow> bitset \<Rightarrow> bitset" where
  "used_flag p flag = (if bitset_size flag = pageInSuperPage p then flag else bs_of (\<lambda>_. True) (pageInSuperPage p))"

lemma used_flag_wf:
  assumes "0 < pageInSuperPage p" and "bs_wf flag"
  shows "bs_wf (used_flag p flag)" and "bitset_size (used_flag p flag) = pageInSuperPage p"
  using assms by (auto simp: used_flag_def bitset_size_def)

text \<open>A request the translation accepts.\<close>

definition fits :: "pal_conf \<Rightarrow> pal_param \<Rightarrow> pal_request \<Rightarrow> bool" where
  "fits c p r \<longleftrightarrow> bs_wf (palIoFlag r) \<and> palBlockIndex r < superBlock p \<and>
     (pcRandomTweak c \<longrightarrow> bitset_size (palIoFlag r) = pageInSuperPage p)"

lemma convert_eq:
  assumes ok: "pal_ok c" "alloc_ok c fl" and new: "PAL_new c = Inr p" and r: "fits c p r"
  shows "convertCPDPBP c p r = Inr (used_flag p (palIoFlag r),
    picked (used_flag p (palIoFlag r)) (super_page c p fl (palBlockIndex r) (palPageIndex r)))"
proof -
  have geo: "field_size p = conf_size c" "superBlock p = pcBlock c * volume (conf_size c) (outside c)"
    "pageInSuperPage p = volume (conf_size c) (inside c)"
    using PAL_new_geometry [OF ok(1)] new by auto
  obtain a t where at: "peel p (filter (outside c) fl) (zero_addr, palBlockIndex r) = (a, t)" by (metis surj_pair)
  let ?flag = "used_flag p (palIoFlag r)"
  let ?us = "super_page c p fl (palBlockIndex r) (palPageIndex r)"
  have us: "units p (filter (inside c) fl) (a\<lparr>aBlock := t, aPage := palPageIndex r\<rparr>) = ?us"
    by (simp add: super_page_def at)
  have len: "length ?us = pageInSuperPage p" using geo ok(2) by (simp add: length_super_page)
  then obtain x where "x \<in> set ?us" using volume_pos [OF ok(1)] geo(3) by (metis length_greater_0_conv list.set_sel(1))
  moreover from this have "aBlock x = t"
    using units_iff [OF outer_inner(2) [OF ok(2)]] by (simp add: us [symmetric] agree_def)
  moreover have "palBlockIndex r < pcBlock c * volume (conf_size c) (outside c)" using r geo by (simp add: fits_def)
  ultimately have "t < pcBlock c" using super_page_iff [OF ok geo(1)] by (auto simp: in_geometry_def)
  moreover have "pcBlock c \<le> pcBlock c * (pcChannel c * pcPackage c * pcDie c * pcPlane c)"
    using pal_ok_pos [OF ok(1)] by simp
  moreover have "pcBlock c * (pcChannel c * pcPackage c * pcDie c * pcPlane c) < 2 ^ 32"
    using ok(1) by (simp add: pal_ok_def)
  ultimately have "t < 2 ^ 32" by linarith
  then have t: "t mod 4294967296 = t" by simp
  have wf: "bs_wf ?flag" "bitset_size ?flag = pageInSuperPage p"
    using used_flag_wf volume_pos [OF ok(1)] geo(3) r by (simp_all add: fits_def)
  have pos: "0 < pageInSuperPage p" using volume_pos [OF ok(1)] geo(3) by simp
  have flag: "(if bitset_size (palIoFlag r) \<noteq> pageInSuperPage p
      then bitset_set_all (Bitset_new (pageInSuperPage p)) else Inr (palIoFlag r)) = Inr ?flag"
    using pos by (simp add: used_flag_def Bitset_new_wf)
  have split: "efold (split_index c p) (pcAllocation c)
      (\<lparr>aChannel = 0, aPackage = 0, aDie = 0, aPlane = 0, aBlock = 0, aPage = 0\<rparr>, palBlockIndex r, []) =
      Inr (a, t, filter (inside c) fl)"
    using split_all [of fl p c zero_addr "palBlockIndex r" "[]"] ok geo at
    by (simp add: alloc_ok_def pal_ok_def zero_addr_def)
  have "\<not> (pcRandomTweak c \<and> bitset_size (palIoFlag r) \<noteq> pageInSuperPage p)" using r by (auto simp: fits_def)
  then show ?thesis
    using wf len by (simp add: convertCPDPBP_def flag split us t pick_units_eq)
qed

text \<open>A page a translation yields determines page number and super block of the request.\<close>

lemma convert_key:
  assumes "pal_ok c" and "alloc_ok c fl" and "PAL_new c = Inr p" and "fits c p r"
    and "convertCPDPBP c p r = Inr (f, out)" and "a \<in> set out"
  shows "aPage a = palPageIndex r \<and> join p (filter (outside c) fl) a (aBlock a) = palBlockIndex r"
proof -
  have geo: "field_size p = conf_size c" "superBlock p = pcBlock c * volume (conf_size c) (outside c)"
    using PAL_new_geometry [OF assms(1)] assms(3) by auto
  have b: "palBlockIndex r < pcBlock c * volume (conf_size c) (outside c)"
    using assms(4) geo(2) by (simp add: fits_def)
  show ?thesis
    using assms(5,6) convert_eq [OF assms(1-4)] super_page_iff [OF assms(1,2) geo(1) b]
    by (auto dest: picked_subset)
qed

section \<open>A sample geometry\<close>

text \<open>Two channels, two packages and two planes; a super block spans the channels and the planes.\<close>

definition pal_sample_conf :: pal_conf where
  "pal_sample_conf = \<lparr>pcChannel = 2, pcPackage = 2, pcDie = 1, pcPlane = 2, pcBlock = 4, pcPage = 8,
     pcPageSize = 4096, pcMultiPlane = False, pcSuperblock = INDEX_CHANNEL OR INDEX_PLANE,
     pcAllocation = [INDEX_CHANNEL, INDEX_PACKAGE, INDEX_DIE, INDEX_PLANE], pcRandomTweak = True\<rparr>"

definition pal_sample :: pal_param where
  "pal_sample = \<lparr>pChannel = 2, pPackage = 2, pDie = 1, pPlane = 2, pBlock = 4, pPage = 8, superBlock = 8,
     pPageSize = 4096, pSuperPageSize = 16384, pageInSuperPage = 4\<rparr>"

definition pal_sample_request :: "nat \<Rightarrow> pal_request" where
  "pal_sample_request b = \<lparr>palReqID = 0, palReqSubID = 0, palBlockIndex = b, palPageIndex = 3,
     palIoFlag = bs_of (\<lambda>i. i \<noteq> 2) 4\<rparr>"

lemma all_field: "(\<forall>f. Q f) \<longleftrightarrow> Q Channel \<and> Q Package \<and> Q Die \<and> Q Plane"
  by (metis (full_types) field.exhaust)

lemma pal_sample_ok:
  "pal_ok pal_sample_conf" "alloc_ok pal_sample_conf [Channel, Package, Die, Plane]"
  by (auto simp: pal_ok_def alloc_ok_def pal_sample_conf_def all_field intro: field.exhaust)

lemma pal_sample_new: "PAL_new pal_sample_conf = Inr pal_sample"
  by (simp add: PAL_new_def pal_sample_conf_def pal_sample_def widen_def index_defs)

lemma pal_sample_fits: "b < 8 \<Longrightarrow> fits pal_sample_conf pal_sample (pal_sample_request b)"
  by (simp add: fits_def pal_sample_def pal_sample_request_def bitset_size_def)

text \<open>What a translation yields.\<close>

lemma convert_pages:
  assumes "pal_ok c" and "alloc_ok c fl" and "PAL_new c = Inr p" and "fits c p r"
  shows "\<exists>flag out. convertCPDPBP c p r = Inr (flag, out) \<and> bitset_size flag = pageInSuperPage p \<and>
    (bitset_size (palIoFlag r) = pageInSuperPage p \<longrightarrow> flag = palIoFlag r) \<and>
    distinct out \<and> length out = card {i. i < pageInSuperPage p \<and> bget flag i} \<and>
    (\<forall>a\<in>set out. in_geometry c a \<and> aPage a = palPageIndex r)"
proof -
  have geo: "field_size p = conf_size c" "superBlock p = pcBlock c * volume (conf_size c) (outside c)"
    "pageInSuperPage p = volume (conf_size c) (inside c)"
    using PAL_new_geometry [OF assms(1)] assms(3) by auto
  let ?f = "used_flag p (palIoFlag r)" and ?us = "super_page c p fl (palBlockIndex r) (palPageIndex r)"
  have len: "length ?us = pageInSuperPage p" using length_super_page [OF assms(2) geo(1)] geo(3) by simp
  have b: "palBlockIndex r < pcBlock c * volume (conf_size c) (outside c)"
    using assms(4) geo(2) by (simp add: fits_def)
  have "bitset_size ?f = pageInSuperPage p"
    using used_flag_wf(2) [of p "palIoFlag r"] volume_pos [OF assms(1)] geo(3) assms(4) by (simp add: fits_def)
  moreover have "length (picked ?f ?us) = card {i. i < pageInSuperPage p \<and> bget ?f i}"
    using len by (simp add: picked_def distinct_card [symmetric] distinct_filter conj_commute)
  moreover have "in_geometry c a \<and> aPage a = palPageIndex r" if "a \<in> set (picked ?f ?us)" for a
    using super_page_iff [OF assms(1,2) geo(1) b] picked_subset [OF that] by simp
  ultimately show ?thesis
    using convert_eq [OF assms] distinct_picked [OF distinct_super_page [OF assms(2)]]
    by (auto simp: used_flag_def)
qed

section \<open>The claims\<close>

text \<open>C11. A request on a super block within range is translated without a fault: the pages it
  yields are distinct pages of the geometry with the request's page number, one for each set flag.\<close>

theorem convert_in_bounds:
  assumes "pal_ok c" and "alloc_ok c fl" and "PAL_new c = Inr p" and "fits c p r"
  shows "\<exists>flag out. convertCPDPBP c p r = Inr (flag, out) \<and> bitset_size flag = pageInSuperPage p \<and>
    (bitset_size (palIoFlag r) = pageInSuperPage p \<longrightarrow> flag = palIoFlag r) \<and>
    distinct out \<and> length out = card {i. i < pageInSuperPage p \<and> bget flag i} \<and>
    (\<forall>a\<in>set out. in_geometry c a \<and> aPage a = palPageIndex r)"
  by (rule convert_pages [OF assms])

lemma convert_in_bounds_witness:
  "\<exists>flag out. convertCPDPBP pal_sample_conf pal_sample (pal_sample_request 5) = Inr (flag, out) \<and>
    length out = card {i. i < 4 \<and> bget flag i}"
  using convert_in_bounds [OF pal_sample_ok pal_sample_new pal_sample_fits [of 5]]
  by (auto simp: pal_sample_def)

text \<open>C12. Requests on different super blocks, or on different pages of one, never touch the same
  physical page.\<close>

theorem convert_disjoint:
  assumes "pal_ok c" and "alloc_ok c fl" and "PAL_new c = Inr p" and "fits c p r" and "fits c p s"
    and "convertCPDPBP c p r = Inr (f, out)" and "convertCPDPBP c p s = Inr (g, outs)"
    and "(palBlockIndex r, palPageIndex r) \<noteq> (palBlockIndex s, palPageIndex s)"
  shows "set out \<inter> set outs = {}"
  using convert_key [OF assms(1-4,6)] convert_key [OF assms(1-3,5,7)] assms(8) by fastforce

lemma convert_disjoint_witness:
  "\<exists>f out g outs. convertCPDPBP pal_sample_conf pal_sample (pal_sample_request 5) = Inr (f, out) \<and>
   convertCPDPBP pal_sample_conf pal_sample (pal_sample_request 6) = Inr (g, outs) \<and>
   set out \<inter> set outs = {}"
proof -
  have fits: "fits pal_sample_conf pal_sample (pal_sample_request 5)"
    "fits pal_sample_conf pal_sample (pal_sample_request 6)" by (simp_all add: pal_sample_fits)
  note out = convert_eq [OF pal_sample_ok pal_sample_new fits(1)] convert_eq [OF pal_sample_ok pal_sample_new fits(2)]
  show ?thesis
    using out convert_disjoint [OF pal_sample_ok pal_sample_new fits out]
    by (simp add: pal_sample_request_def)
qed

text \<open>Super blocks cover the device: every physical page within the geometry belongs to the
  translation of exactly one super block index, for its own page number and a full flag.\<close>

theorem convert_covers:
  assumes "pal_ok c" and "alloc_ok c fl" and "PAL_new c = Inr p" and "in_geometry c a"
  shows "\<exists>!b. b < superBlock p \<and> (\<exists>f out. convertCPDPBP c p
    \<lparr>palReqID = 0, palReqSubID = 0, palBlockIndex = b, palPageIndex = aPage a,
     palIoFlag = bs_of (\<lambda>_. True) (pageInSuperPage p)\<rparr> = Inr (f, out) \<and> a \<in> set out)"
proof -
  have geo: "field_size p = conf_size c" "superBlock p = pcBlock c * volume (conf_size c) (outside c)"
    "pageInSuperPage p = volume (conf_size c) (inside c)"
    using PAL_new_geometry [OF assms(1)] assms(3) by auto
  have pos: "0 < pageInSuperPage p" using geo(3) volume_pos [OF assms(1)] by simp
  let ?full = "bs_of (\<lambda>_. True) (pageInSuperPage p)"
  let ?r = "\<lambda>b. \<lparr>palReqID = 0, palReqSubID = 0, palBlockIndex = b, palPageIndex = aPage a, palIoFlag = ?full\<rparr>"
  let ?b = "join p (filter (outside c) fl) a (aBlock a)"
  have all: "picked ?full (super_page c p fl b q) = super_page c p fl b q" for b q
    by (rule picked_all) (use length_super_page [OF assms(2) geo(1), of b q] geo(3) bs_of_wf(3) [OF pos] in simp)
  have hit: "(\<exists>f out. convertCPDPBP c p (?r b) = Inr (f, out) \<and> a \<in> set out) \<longleftrightarrow> b = ?b"
    if "b < superBlock p" for b
  proof -
    have "fits c p (?r b)" using that pos by (simp add: fits_def bitset_size_def)
    from convert_eq [OF assms(1-3) this] super_page_iff [OF assms(1,2) geo(1), of b a "aPage a"] that geo(2) assms(4)
    show ?thesis using pos by (auto simp: used_flag_def bitset_size_def all)
  qed
  have "join p fs a u < prod_list (map (field_size p) fs) * n" if "u < n" for fs u n
  proof (induction fs)
    case (Cons f fs)
    have "get_field f a < field_size p f" using assms(4) geo(1) by (simp add: in_geometry_def)
    moreover have "Suc (join p fs a u) \<le> prod_list (map (field_size p) fs) * n" using Cons by simp
    then have "field_size p f * Suc (join p fs a u) \<le> field_size p f * (prod_list (map (field_size p) fs) * n)"
      by (rule mult_le_mono2)
    ultimately show ?case by (simp add: mult.assoc)
  qed (use that in simp)
  from this [of "aBlock a" "pcBlock c" "filter (outside c) fl"]
  have "?b < superBlock p"
    using assms(2,4) geo(1,2) by (simp add: in_geometry_def volume_list alloc_ok_def mult.commute)
  with hit show ?thesis by metis
qed

lemma convert_covers_witness:
  "\<exists>!b. b < 8 \<and> (\<exists>f out. convertCPDPBP pal_sample_conf pal_sample
    \<lparr>palReqID = 0, palReqSubID = 0, palBlockIndex = b, palPageIndex = 6,
     palIoFlag = bs_of (\<lambda>_. True) 4\<rparr> = Inr (f, out) \<and>
    \<lparr>aChannel = 1, aPackage = 1, aDie = 0, aPlane = 0, aBlock = 3, aPage = 6\<rparr> \<in> set out)"
  using convert_covers [OF pal_sample_ok pal_sample_new,
      of "\<lparr>aChannel = 1, aPackage = 1, aDie = 0, aPlane = 0, aBlock = 3, aPage = 6\<rparr>"]
  by (simp add: in_geometry_def all_field pal_sample_def pal_sample_conf_def)

end
