(* ===== verification/Ftl.thy ===== *)
theory Ftl
  imports PageMappingTop PalProps
begin

text \<open>
  The FTL layer, \<^verbatim>\<open>src/ftl/ftl.cc\<close>: it derives the geometry of the mapping from the one of the
  flash, builds and warms up the page mapping, and forwards every request, adding its own firmware
  latency. \<open>ftl\<close> is the object, \<open>'h\<close> the state of the hardware below it.
\<close>

section \<open>Construction\<close>

record ftl =
  ftlParam :: ftl_param
  ftlMap :: page_mapping

text \<open>
  \<open>superBlock * (1 - ratio)\<close> is computed in \<open>float\<close> and truncated to 64 bits. The only mapping mode
  is \<open>PAGE_MAPPING\<close>; any other value leaves the pointer uninitialised, and \<open>initialize\<close> is called
  through it.
\<close>

definition FTL_param :: "f32 \<Rightarrow> pal_param \<Rightarrow> ftl_param res" where
  "FTL_param overProvision p =
     ebind (f32_to_uint 64 (f32_mul (f32_of_nat (superBlock p)) (f32_sub (Fin 1) overProvision)))
       (\<lambda>logical.
     if pBlock p = 0 then Inl (Undefined ''division by zero'')
     else Inr \<lparr>totalPhysicalBlocks = superBlock p, totalLogicalBlocks = logical,
            pagesInBlock = pPage p, ftlPageSize = pSuperPageSize p, unitsInPage = pageInSuperPage p,
            pageCountToMaxPerf = superBlock p div pBlock p\<rparr>)"

definition over_provisioned :: "ftl_param \<Rightarrow> bool" where
  "over_provisioned q =
     (\<not> totalPhysicalBlocks q \<le> (totalLogicalBlocks q + pageCountToMaxPerf q) mod 2 ^ 64)"

definition FTL_build :: "ftl_conf \<Rightarrow> f32 \<Rightarrow> bool \<Rightarrow> pal_param \<Rightarrow> ftl res" where
  "FTL_build cf overProvision pageMappingMode p =
     ebind (FTL_param overProvision p) (\<lambda>q.
     if \<not> pageMappingMode then
       (if over_provisioned q then Inl (Undefined ''uninitialised pointer'')
        else Inl (Panic ''FTL Over-Provision Ratio is too small''))
     else
       ebind (PageMapping_new cf q) (\<lambda>s.
       if over_provisioned q then Inr \<lparr>ftlParam = q, ftlMap = s\<rparr>
       else Inl (Panic ''FTL Over-Provision Ratio is too small'')))"

definition FTL_new ::
  "'h ftl_env \<Rightarrow> ftl_conf \<Rightarrow> f32 \<Rightarrow> bool \<Rightarrow> nat \<Rightarrow> pal_param \<Rightarrow> 'h \<Rightarrow> (ftl \<times> 'h) res option" where
  "FTL_new env cf overProvision pageMappingMode fuel p h =
     (case FTL_build cf overProvision pageMappingMode p of
        Inl e \<Rightarrow> Some (Inl e)
      | Inr f \<Rightarrow> map_option (\<lambda>r. ebind r (\<lambda>(s, h). Inr (f\<lparr>ftlMap := s\<rparr>, h)))
                  (pm_initialize env cf fuel (ftlMap f) h))"

section \<open>Requests\<close>

text \<open>
  Every operation runs the one of the page mapping and adds the latency of the FTL's own
  function. \<open>fuel\<close> bounds the victim selection of a write; \<open>None\<close> is a selection that does not end.
\<close>

definition ftl_after ::
  "'h ftl_env \<Rightarrow> cpu_function \<Rightarrow> ftl \<Rightarrow> (page_mapping \<times> 'h \<times> tick) res \<Rightarrow> (ftl \<times> 'h \<times> tick) res" where
  "ftl_after env fct f r =
     ebind r (\<lambda>(s, h, tk).
     ebind (cpuLatency env FTL fct h) (\<lambda>(l, h). Inr (f\<lparr>ftlMap := s\<rparr>, h, tk + l)))"

definition ftl_read ::
  "'h ftl_env \<Rightarrow> ftl_request \<Rightarrow> ftl \<Rightarrow> 'h \<Rightarrow> tick \<Rightarrow> (ftl \<times> 'h \<times> tick) res" where
  "ftl_read env req f h tk = ftl_after env READ f (pm_read env req (ftlMap f) h tk)"

definition ftl_write ::
  "'h ftl_env \<Rightarrow> ftl_conf \<Rightarrow> nat \<Rightarrow> ftl_request \<Rightarrow> ftl \<Rightarrow> 'h \<Rightarrow> tick \<Rightarrow> (ftl \<times> 'h \<times> tick) res option" where
  "ftl_write env cf fuel req f h tk =
     map_option (ftl_after env WRITE f) (pm_write env cf fuel req (ftlMap f) h tk)"

definition ftl_trim ::
  "'h ftl_env \<Rightarrow> ftl_request \<Rightarrow> ftl \<Rightarrow> 'h \<Rightarrow> tick \<Rightarrow> (ftl \<times> 'h \<times> tick) res" where
  "ftl_trim env req f h tk = ftl_after env TRIM f (pm_trim env req (ftlMap f) h tk)"

definition ftl_format ::
  "'h ftl_env \<Rightarrow> ftl_conf \<Rightarrow> lpn_range \<Rightarrow> ftl \<Rightarrow> 'h \<Rightarrow> tick \<Rightarrow> (ftl \<times> 'h \<times> tick) res" where
  "ftl_format env cf r f h tk = ftl_after env FORMAT f (pm_format env cf r (ftlMap f) h tk)"

definition ftl_getInfo :: "ftl \<Rightarrow> ftl_param" where
  "ftl_getInfo f = ftlParam f"

definition ftl_getUsedPageCount :: "ftl \<Rightarrow> u64 \<Rightarrow> u64 \<Rightarrow> nat" where
  "ftl_getUsedPageCount f lpnBegin lpnEnd = mappedLogicalPages (pm_getStatus (ftlMap f) lpnBegin lpnEnd)"

definition ftl_getStatValues :: "ftl \<Rightarrow> nat list \<times> f32" where
  "ftl_getStatValues f = pm_getStatValues (ftlMap f)"

definition ftl_resetStatValues :: "ftl \<Rightarrow> ftl" where
  "ftl_resetStatValues f = f\<lparr>ftlMap := pm_resetStatValues (ftlMap f)\<rparr>"

end
