(* ===== verification/Icl.thy ===== *)
theory Icl
  imports GenericCache Ftl
begin

text \<open>
  The internal cache layer, \<^verbatim>\<open>src/icl/icl.cc\<close>: it cuts a host request into one request per logical
  page, runs them all from the same tick, and ends when the last of them ends. The cache below it
  works on the FTL; \<open>icl_env\<close> is the environment this gives the cache.
\<close>

section \<open>Construction\<close>

record icl =
  totalPages :: nat
  pageBytes :: nat

text \<open>The members hold 64 and 32 bits; the products of 64-bit block and page counts wrap.\<close>

definition icl_size :: "bool \<Rightarrow> ftl_param \<Rightarrow> icl res" where
  "icl_size tweak q =
     (if tweak then
        if unitsInPage q = 0 then Inl (Undefined ''division by zero'')
        else Inr \<lparr>totalPages = (totalLogicalBlocks q * pagesInBlock q * unitsInPage q) mod 2 ^ 64,
               pageBytes = ftlPageSize q div unitsInPage q\<rparr>
      else Inr \<lparr>totalPages = (totalLogicalBlocks q * pagesInBlock q) mod 2 ^ 64, pageBytes = ftlPageSize q\<rparr>)"

definition ICL_new ::
  "bool \<Rightarrow> 'h ftl_env \<Rightarrow> ftl_conf \<Rightarrow> f32 \<Rightarrow> bool \<Rightarrow> nat \<Rightarrow> pal_param \<Rightarrow> (ftl_param \<Rightarrow> cache_conf) \<Rightarrow> 'h \<Rightarrow>
     (icl \<times> cache_param \<times> cache \<times> ftl \<times> 'h) res option" where
  "ICL_new simpleDRAM env cf overProvision pageMappingMode fuel pal cc h =
     (if \<not> simpleDRAM then Some (Inl (Panic ''Undefined DRAM model''))
      else
        map_option (\<lambda>r. ebind r (\<lambda>(f, h).
          ebind (icl_size (cfRandomTweak cf) (ftl_getInfo f)) (\<lambda>i.
          ebind (GenericCache_new (cc (ftl_getInfo f))) (\<lambda>(p, s). Inr (i, p, s, f, h)))))
        (FTL_new env cf overProvision pageMappingMode fuel pal h))"

section \<open>The cache's view of the FTL\<close>

text \<open>A victim selection that does not end is a fault of the call.\<close>

definition up :: "(ftl \<times> 'h \<times> tick) res \<Rightarrow> (tick \<times> ftl \<times> 'h) res" where
  "up r = ebind r (\<lambda>(f, h, tk). Inr (tk, f, h))"

definition beside :: "('h \<Rightarrow> (tick \<times> 'h) res) \<Rightarrow> ftl \<times> 'h \<Rightarrow> (tick \<times> ftl \<times> 'h) res" where
  "beside g = (\<lambda>(f, h). ebind (g h) (\<lambda>(tk, h). Inr (tk, f, h)))"

definition icl_env ::
  "'h ftl_env \<Rightarrow> ftl_conf \<Rightarrow> nat \<Rightarrow> (bool \<Rightarrow> 'h \<Rightarrow> 'h) \<Rightarrow> (nat \<Rightarrow> 'h \<Rightarrow> nat \<times> 'h) \<Rightarrow> (ftl \<times> 'h) cache_env" where
  "icl_env env cf fuel schedule random =
     \<lparr>ftlRead = \<lambda>q tk (f, h). up (ftl_read env q f h tk),
      ftlWrite = \<lambda>q tk (f, h). (case ftl_write env cf fuel q f h tk of
        None \<Rightarrow> Inl (Undefined ''does not return'') | Some r \<Rightarrow> up r),
      ftlTrim = \<lambda>q tk (f, h). up (ftl_trim env q f h tk),
      ftlFormat = \<lambda>r tk (f, h). up (ftl_format env cf r f h tk),
      memRead = \<lambda>n tk. beside (dramRead env n tk),
      memWrite = \<lambda>n tk. beside (dramWrite env n tk),
      memScheduling = \<lambda>b (f, h). (f, schedule b h),
      firmware = \<lambda>ns fct. beside (cpuLatency env ns fct),
      randomWay = \<lambda>n (f, h). (case random n h of (w, h) \<Rightarrow> (w, f, h))\<rparr>"

section \<open>Requests\<close>

text \<open>The sub-request of iteration \<open>i\<close>, when \<open>remain\<close> bytes are left and the page starts at \<open>offs\<close>.\<close>

definition icl_slice :: "icl \<Rightarrow> icl_request \<Rightarrow> nat \<Rightarrow> u64 \<Rightarrow> u64 \<Rightarrow> icl_request" where
  "icl_slice c req i remain offs =
     \<lparr>iclReqID = iclReqID req, iclReqSubID = of_nat i + 1, iclOffset = offs,
      iclLength = min remain (of_nat (pageBytes c) - offs),
      iclRange = \<lparr>slpn = slpn (iclRange req) + of_nat i, nlp = 0\<rparr>\<rparr>"

definition icl_access ::
  "(icl_request \<Rightarrow> cache \<Rightarrow> 'h \<Rightarrow> tick \<Rightarrow> (bool \<times> cache \<times> 'h \<times> tick) res) \<Rightarrow> icl \<Rightarrow> icl_request \<Rightarrow>
     cache \<Rightarrow> 'h \<Rightarrow> tick \<Rightarrow> (cache \<times> 'h \<times> tick) res" where
  "icl_access op c req s h tk =
     ebind (efold (\<lambda>i (s, h, remain, offs, fin).
         let r = icl_slice c req i remain offs in
         ebind (op r s h tk) (\<lambda>(_, s, h, t). Inr (s, h, remain - iclLength r, 0, max fin t)))
       [0..<unat (nlp (iclRange req))] (s, h, iclLength req, iclOffset req, tk))
     (\<lambda>(s, h, _, _, fin). Inr (s, h, fin))"

definition icl_after ::
  "'h cache_env \<Rightarrow> cpu_function \<Rightarrow> (cache \<times> 'h \<times> tick) res \<Rightarrow> (cache \<times> 'h \<times> tick) res" where
  "icl_after env fct r =
     ebind r (\<lambda>(s, h, tk). ebind (firmware env ICL fct h) (\<lambda>(l, h). Inr (s, h, tk + l)))"

definition icl_read ::
  "'h cache_env \<Rightarrow> cache_param \<Rightarrow> icl \<Rightarrow> icl_request \<Rightarrow> cache \<Rightarrow> 'h \<Rightarrow> tick \<Rightarrow> (cache \<times> 'h \<times> tick) res" where
  "icl_read env p c req s h tk = icl_after env READ (icl_access (cache_read env p) c req s h tk)"

definition icl_write ::
  "'h cache_env \<Rightarrow> cache_param \<Rightarrow> icl \<Rightarrow> icl_request \<Rightarrow> cache \<Rightarrow> 'h \<Rightarrow> tick \<Rightarrow> (cache \<times> 'h \<times> tick) res" where
  "icl_write env p c req s h tk = icl_after env WRITE (icl_access (cache_write env p) c req s h tk)"

definition icl_flush ::
  "'h cache_env \<Rightarrow> cache_param \<Rightarrow> lpn_range \<Rightarrow> cache \<Rightarrow> 'h \<Rightarrow> tick \<Rightarrow> (cache \<times> 'h \<times> tick) res" where
  "icl_flush env p r s h tk = icl_after env FLUSH (cache_flush env p r s h tk)"

definition icl_trim ::
  "'h cache_env \<Rightarrow> cache_param \<Rightarrow> lpn_range \<Rightarrow> cache \<Rightarrow> 'h \<Rightarrow> tick \<Rightarrow> (cache \<times> 'h \<times> tick) res" where
  "icl_trim env p r s h tk = icl_after env TRIM (cache_trim env p r s h tk)"

definition icl_format ::
  "'h cache_env \<Rightarrow> cache_param \<Rightarrow> lpn_range \<Rightarrow> cache \<Rightarrow> 'h \<Rightarrow> tick \<Rightarrow> (cache \<times> 'h \<times> tick) res" where
  "icl_format env p r s h tk = icl_after env FORMAT (cache_format env p r s h tk)"

definition icl_getLPNInfo :: "icl \<Rightarrow> nat \<times> nat" where
  "icl_getLPNInfo c = (totalPages c, pageBytes c)"

text \<open>The ratio holds 32 bits and the product wraps at 64.\<close>

definition icl_getUsedPageCount :: "ftl \<Rightarrow> u64 \<Rightarrow> u64 \<Rightarrow> nat res" where
  "icl_getUsedPageCount f lcaBegin lcaEnd =
     (let ratio = unitsInPage (ftl_getInfo f) in
      if ratio = 0 then Inl (Undefined ''division by zero'')
      else Inr ((ftl_getUsedPageCount f (lcaBegin div of_nat ratio) (lcaEnd div of_nat ratio) * ratio) mod 2 ^ 64))"

definition icl_getStatValues :: "cache \<Rightarrow> ftl \<Rightarrow> nat list \<times> nat list \<times> f32" where
  "icl_getStatValues s f = (cache_getStatValues s, ftl_getStatValues f)"

definition icl_resetStatValues :: "cache \<Rightarrow> ftl \<Rightarrow> cache \<times> ftl" where
  "icl_resetStatValues s f = (cache_resetStatValues s, ftl_resetStatValues f)"

end
