(* ===== verification/FtlLayer.thy ===== *)
theory FtlLayer
  imports Ftl Samples
begin

text \<open>
  The layers together: the geometry \<^verbatim>\<open>pal.cc\<close> computes is one the page mapping can be built on, the
  warm-up of a constructed FTL keeps the invariant, and what the mapping table names is a physical
  page that address translation accepts, a different one for every logical unit.
\<close>

section \<open>Geometry\<close>

lemma FTL_param_geometry:
  assumes ok: "pal_ok c" and page: "0 < pcPage c" and new: "PAL_new c = Inr p"
    and q: "FTL_param r p = Inr q"
  shows "param_valid q" and "totalPhysicalBlocks q = superBlock p" and "unitsInPage q = pageInSuperPage p"
    and "pagesInBlock q = pcPage c" and "pageCountToMaxPerf q = volume (conf_size c) (outside c)"
proof -
  have geo: "superBlock p = pcBlock c * volume (conf_size c) (outside c)" "pPage p = pcPage c"
    "pageInSuperPage p = volume (conf_size c) (inside c)" "pBlock p = pcBlock c"
    using PAL_new_geometry [OF ok] new by auto
  have B: "0 < pcBlock c" using ok by (simp add: pal_ok_def)
  show *: "totalPhysicalBlocks q = superBlock p" "unitsInPage q = pageInSuperPage p"
    "pagesInBlock q = pcPage c" "pageCountToMaxPerf q = volume (conf_size c) (outside c)"
    using q B geo by (auto simp: FTL_param_def)
  show "param_valid q"
    using * geo volume_pos [OF ok] page B by (simp add: param_valid_def Suc_le_eq)
qed

section \<open>Warm-up\<close>




section \<open>From the mapping to the flash\<close>

lemma lview_range:
  assumes "pm_inv s" and "lview s (l, j) = Some m"
  shows "fst m < totalPhysicalBlocks (param s)" and "snd m < pagesInBlock (param s)" and "j < bitsetSize s"
  using assms by (auto simp: lview_def in_range_def pm_inv_def pm_base_def table_ok_def split: option.splits if_splits)

lemma picked_one:
  assumes "length us = n" and "0 < n"
  shows "set (picked (bs_of Q n) us) = {us ! i |i. i < n \<and> Q i}"
  using assms by (auto simp: set_picked)

text \<open>The request of one mapped unit and the flash pages it is translated to.\<close>

lemma unit_translation:
  assumes ok: "pal_ok c" "alloc_ok c fl" "PAL_new c = Inr p" "0 < pcPage c" "FTL_param r p = Inr (param s)"
    and inv: "pm_inv s" "bRandomTweak s = pcRandomTweak c"
    and m: "lview s (l, j) = Some m" and req: "dataSize (ftlIoFlag req) = unitsInPage (param s)"
  shows "\<exists>f out. convertCPDPBP c p (unit_request s req m j) = Inr (f, out) \<and>
      set out = {super_page c p fl (fst m) (snd m) ! i |i. i < pageInSuperPage p \<and> (i = j \<or> \<not> pcRandomTweak c)} \<and>
      out \<noteq> [] \<and> j < pageInSuperPage p \<and> (pcRandomTweak c \<or> j = 0) \<and>
      (\<forall>a\<in>set out. in_geometry c a \<and> aPage a = snd m \<and> join p (filter (outside c) fl) a (aBlock a) = fst m)"
proof -
  note G = FTL_param_geometry [OF ok(1,4,3,5)]
  have geo: "field_size p = conf_size c" "superBlock p = pcBlock c * volume (conf_size c) (outside c)"
    "pageInSuperPage p = volume (conf_size c) (inside c)"
    using PAL_new_geometry [OF ok(1)] ok(3) by auto
  let ?n = "pageInSuperPage p" and ?us = "super_page c p fl (fst m) (snd m)"
  have n: "0 < ?n" using volume_pos [OF ok(1)] geo(3) by simp
  have size: "bitsetSize s = (if pcRandomTweak c then ?n else 1)"
    using inv G(3) by (auto simp: pm_inv_def pm_base_def params_ok_def)
  note range = lview_range [OF inv(1) m]
  have j: "j < ?n" "pcRandomTweak c \<or> j = 0" using range(3) size n by (auto split: if_splits)
  let ?F = "bs_of (\<lambda>i. i = j \<or> \<not> bRandomTweak s) ?n"
  have rq: "palBlockIndex (unit_request s req m j) = fst m" "palPageIndex (unit_request s req m j) = snd m"
    "palIoFlag (unit_request s req m j) = ?F" using req G(3) by (simp_all add: unit_request_def)
  have fits: "fits c p (unit_request s req m j)"
    using range(1) G(2) n by (simp add: fits_def rq bitset_size_def)
  have eq: "convertCPDPBP c p (unit_request s req m j) = Inr (?F, picked ?F ?us)"
    using convert_eq [OF ok(1-3) fits] n by (simp add: rq used_flag_def bitset_size_def)
  have out: "set (picked ?F ?us) = {?us ! i |i. i < ?n \<and> (i = j \<or> \<not> pcRandomTweak c)}"
    using picked_one [OF length_super_page [OF ok(2) geo(1), folded geo(3)] n] inv(2) by auto
  then have "?us ! j \<in> set (picked ?F ?us)" using j by blast
  then have "picked ?F ?us \<noteq> []" by auto
  moreover have b: "fst m < pcBlock c * volume (conf_size c) (outside c)" using range(1) G(2) geo(2) by simp
  have "\<forall>a\<in>set (picked ?F ?us). in_geometry c a \<and> aPage a = snd m \<and>
      join p (filter (outside c) fl) a (aBlock a) = fst m"
    using super_page_iff [OF ok(1,2) geo(1) b] by (auto dest: picked_subset)
  ultimately show ?thesis using eq out j by blast
qed

lemma sample_half: "f32_round (1 / 2) = Fin (1 / 2)" "f32_round (3 / 2) = Fin (3 / 2)"
proof -
  have "(1 / 2 :: rat) = Fract 1 2" "(3 / 2 :: rat) = Fract 3 2" by (simp_all add: Fract_of_int_quotient)
  then have q: "quotient_of (1 / 2) = (1, 2)" "quotient_of (3 / 2) = (3, 2)"
    by (simp_all only: quotient_of_Fract Rat.normalize_def) simp_all
  have fl: "flog2 (1 / 2) = -1" "flog2 (3 / 2) = 0" by (simp_all add: flog2_def q nbits.simps pow2_def)
  show "f32_round (1 / 2) = Fin (1 / 2)" "f32_round (3 / 2) = Fin (3 / 2)"
    by (simp_all add: f32_round_def Let_def fl pow2_def round_half_even_def)
qed

text \<open>A flash of two channels whose FTL parameters are the ones of the sample runs.\<close>

definition duo_conf :: pal_conf where
  "duo_conf = \<lparr>pcChannel = 2, pcPackage = 1, pcDie = 1, pcPlane = 1, pcBlock = 3, pcPage = 2,
     pcPageSize = 8, pcMultiPlane = False, pcSuperblock = INDEX_CHANNEL,
     pcAllocation = [INDEX_CHANNEL, INDEX_PACKAGE, INDEX_DIE, INDEX_PLANE], pcRandomTweak = True\<rparr>"

definition duo :: pal_param where
  "duo = \<lparr>pChannel = 2, pPackage = 1, pDie = 1, pPlane = 1, pBlock = 3, pPage = 2, superBlock = 3,
     pPageSize = 8, pSuperPageSize = 16, pageInSuperPage = 2\<rparr>"

lemma duo_ok:
  "pal_ok duo_conf" "alloc_ok duo_conf [Channel, Package, Die, Plane]" "0 < pcPage duo_conf"
  by (auto simp: pal_ok_def alloc_ok_def duo_conf_def all_field intro: field.exhaust)

lemma duo_new: "PAL_new duo_conf = Inr duo"
  by (simp add: PAL_new_def duo_conf_def duo_def widen_def index_defs)

lemma duo_param: "FTL_param (Fin (1 / 2)) duo = Inr sample_param"
proof -
  have "\<lfloor>3 / 2 :: rat\<rfloor> = 1" by (simp add: floor_eq_iff)
  then show ?thesis by (simp add: FTL_param_def duo_def sample_param_def f32_of_nat_exact f32_sub_def sample_half)
qed




section \<open>The claims\<close>

text \<open>A device whose geometry fits into 32 bits is built exactly when enough blocks are kept back:
  otherwise the constructor panics. When built, the mapping satisfies its invariant, is empty, and has
  the geometry of the flash.\<close>

theorem device_builds:
  assumes "pal_ok c" and "0 < pcPage c" and "PAL_new c = Inr p" and "FTL_param r p = Inr q"
  shows "if superBlock p \<le> (totalLogicalBlocks q + volume (conf_size c) (outside c)) mod 2 ^ 64
    then FTL_build cf r True p = Inl (Panic ''FTL Over-Provision Ratio is too small'')
    else \<exists>s. FTL_build cf r True p = Inr \<lparr>ftlParam = q, ftlMap = s\<rparr> \<and> pm_inv s \<and> param s = q \<and>
      lview s = Map.empty"
proof -
  note G = FTL_param_geometry [OF assms]
  from PageMapping_new_ok [OF G(1), of cf] obtain s where
    "PageMapping_new cf q = Inr s" "pm_inv s" "param s = q" "lview s = Map.empty"
    by (auto simp: outcome_total)
  then show ?thesis by (simp add: FTL_build_def assms(4) over_provisioned_def G(2,5))
qed

lemma device_builds_witness:
  "\<exists>s. FTL_build sample_conf (Fin (1 / 2)) True duo = Inr \<lparr>ftlParam = sample_param, ftlMap = s\<rparr> \<and> pm_inv s"
proof -
  have "volume (conf_size duo_conf) (outside duo_conf) = 1"
    by (simp add: volume_eq outside_def duo_conf_def index_defs)
  then show ?thesis using device_builds [OF duo_ok(1,3) duo_new duo_param, of sample_conf]
    by (auto simp: duo_def sample_param_def)
qed



text \<open>C14. What the mapping table names for two different logical units is translated to disjoint,
  nonempty sets of physical pages within the geometry: no two logical units share flash.\<close>

theorem mapped_units_disjoint:
  assumes "pal_ok c" and "alloc_ok c fl" and "0 < pcPage c" and "PAL_new c = Inr p"
    and "FTL_param r p = Inr (param s)" and "pm_inv s" and "bRandomTweak s = pcRandomTweak c"
    and "lview s (l, j) = Some m" and "lview s (l', j') = Some m'" and "(l, j) \<noteq> (l', j')"
    and "dataSize (ftlIoFlag req) = unitsInPage (param s)" and "dataSize (ftlIoFlag req') = unitsInPage (param s)"
  shows "\<exists>f out f' out'. convertCPDPBP c p (unit_request s req m j) = Inr (f, out) \<and>
    convertCPDPBP c p (unit_request s req' m' j') = Inr (f', out') \<and>
    out \<noteq> [] \<and> out' \<noteq> [] \<and> (\<forall>a\<in>set out \<union> set out'. in_geometry c a) \<and> set out \<inter> set out' = {}"
proof -
  note T = unit_translation [OF assms(1,2,4,3,5-7)]
  let ?us = "\<lambda>m. super_page c p fl (fst m) (snd m)"
  obtain f out where A: "convertCPDPBP c p (unit_request s req m j) = Inr (f, out)"
      "set out = {?us m ! i |i. i < pageInSuperPage p \<and> (i = j \<or> \<not> pcRandomTweak c)}" "out \<noteq> []"
      "j < pageInSuperPage p" "pcRandomTweak c \<or> j = 0"
      "\<forall>a\<in>set out. in_geometry c a \<and> aPage a = snd m \<and> join p (filter (outside c) fl) a (aBlock a) = fst m"
    using T [OF assms(8,11)] by blast
  obtain f' out' where B: "convertCPDPBP c p (unit_request s req' m' j') = Inr (f', out')"
      "set out' = {?us m' ! i |i. i < pageInSuperPage p \<and> (i = j' \<or> \<not> pcRandomTweak c)}" "out' \<noteq> []"
      "j' < pageInSuperPage p" "pcRandomTweak c \<or> j' = 0"
      "\<forall>a\<in>set out'. in_geometry c a \<and> aPage a = snd m' \<and> join p (filter (outside c) fl) a (aBlock a) = fst m'"
    using T [OF assms(9,12)] by blast
  have "set out \<inter> set out' = {}"
  proof (cases "m = m'")
    case False
    then show ?thesis using A(6) B(6) by (fastforce simp: prod_eq_iff)
  next
    case True
    have lk: "linked (lview s) (pview s)" using assms(6) by (simp add: pm_inv_def)
    have jj: "j \<noteq> j'" using linked_inj [OF lk] assms(8-10) True by blast
    have "length (?us m) = pageInSuperPage p"
      using PAL_new_geometry [OF assms(1)] assms(4) length_super_page [OF assms(2)] by auto
    then show ?thesis
      using A(2,4,5) B(2,4,5) True jj distinct_super_page [OF assms(2), of p "fst m" "snd m"]
      by (auto simp: nth_eq_iff_index_eq)
  qed
  with A B show ?thesis by blast
qed

lemma mapped_units_disjoint_witness:
  "\<exists>f out f' out'. convertCPDPBP duo_conf duo (unit_request sample_s2 (sample_full 7) (0, 0) 0) = Inr (f, out) \<and>
    convertCPDPBP duo_conf duo (unit_request sample_s2 (sample_full 7) (0, 0) 1) = Inr (f', out') \<and>
    out \<noteq> [] \<and> out' \<noteq> [] \<and> (\<forall>a\<in>set out \<union> set out'. in_geometry duo_conf a) \<and> set out \<inter> set out' = {}"
proof (rule mapped_units_disjoint [OF duo_ok duo_new])
  show "FTL_param (Fin (1 / 2)) duo = Inr (param sample_s2)" by (simp add: duo_param sample_s2_ok)
  show "pm_inv sample_s2" by (rule sample_s2_ok)
  show "bRandomTweak sample_s2 = pcRandomTweak duo_conf"
    by (simp add: sample_s2_value sample_state_def duo_conf_def)
  show "lview sample_s2 (7, 0) = Some (0, 0)" "lview sample_s2 (7, 1) = Some (0, 0)"
    by (simp_all add: lview_def in_range_def sample_s2_value sample_state_def sample_param_def)
qed (simp_all add: sample_full_def sample_s2_ok sample_param_def)

end
