(* ===== verification/CacheSafe.thy ===== *)
theory CacheSafe
  imports CacheProps
begin

text \<open>
  The interface of the cache to the layers below it, and what the cache promises when they keep
  their part: whatever invariant the operations of the FTL, the DRAM and the firmware keep, every
  operation of the cache keeps as well, together with the shape of its own arrays, and it adds no
  fault of its own but the panic of a write that finds no empty way after an eviction.
\<close>

section \<open>The invariant of the cache\<close>

definition flag_ok :: "cache_param \<Rightarrow> ftl_request \<Rightarrow> bool" where
  "flag_ok p q \<longleftrightarrow> bs_wf (ftlIoFlag q) \<and> dataSize (ftlIoFlag q) = lineCountInSuperPage p"

definition picks_ok :: "cache_param \<Rightarrow> cache \<Rightarrow> bool" where
  "picks_ok p s \<longleftrightarrow> (\<forall>row<lineCountInSuperPage p. \<forall>col<parallelIO p. pred_option (slot_ok p) (pick_at s row col))"

definition policy_ok :: "cache_param \<Rightarrow> bool" where
  "policy_ok p \<longleftrightarrow> evictPolicy p \<noteq> ICL_POLICY_invalid \<and> distMax p < waySize p"

definition cache_ok :: "cache_param \<Rightarrow> cache \<Rightarrow> bool" where
  "cache_ok p s \<longleftrightarrow> cache_wf p s \<and> picks_ok p s \<and> policy_ok p"

lemma cache_ok_wf: "cache_ok p s \<Longrightarrow> cache_wf p s"
  by (simp add: cache_ok_def)

lemma cache_ok_geometry: "cache_ok p s \<Longrightarrow> geometry_ok p"
  by (simp add: cache_ok_def cache_wf_def)

lemma cache_ok_pick:
  "cache_ok p s \<Longrightarrow> row < lineCountInSuperPage p \<Longrightarrow> col < parallelIO p \<Longrightarrow>
   pred_option (slot_ok p) (pick_at s row col)"
  unfolding cache_ok_def picks_ok_def by blast

lemma cache_ok_line [intro]:
  assumes "cache_ok p s" and "slot_ok p a"
  shows "cache_ok p (with_line s a li)"
  using assms by (simp add: cache_ok_def picks_ok_def)

lemma cache_ok_pick_set [intro]:
  assumes "cache_ok p s" and "row < lineCountInSuperPage p" and "col < parallelIO p"
    and "pred_option (slot_ok p) b"
  shows "cache_ok p (with_pick s row col b)"
proof -
  have "picks_ok p (with_pick s row col b)"
    unfolding picks_ok_def
  proof (intro allI impI)
    fix r c assume "r < lineCountInSuperPage p" "c < parallelIO p"
    then show "pred_option (slot_ok p) (pick_at (with_pick s row col b) r c)"
      using pick_at_with_pick [OF cache_ok_wf [OF assms(1)] assms(2,3), of b r c] assms(4)
        cache_ok_pick [OF assms(1), of r c] by simp
  qed
  with assms show ?thesis by (simp add: cache_ok_def)
qed

lemma cache_ok_fields [simp]:
  "cache_ok p (s\<lparr>readDetect := d\<rparr>) = cache_ok p s"
  "cache_ok p (s\<lparr>prefetchTrigger := x, lastPrefetched := y\<rparr>) = cache_ok p s"
  "cache_ok p (s\<lparr>cacheStat := st\<rparr>) = cache_ok p s"
  by (simp_all add: cache_ok_def cache_wf_def picks_ok_def pick_at_def)

lemma set_way_ok: "cache_ok p s \<Longrightarrow> w < waySize p \<Longrightarrow> slot_ok p (calcSetIndex p lca, w)"
  by (simp add: slot_ok_def calcSetIndex_bound cache_ok_geometry)

lemma slot_get [simp]: "cache_ok p s \<Longrightarrow> slot_ok p a \<Longrightarrow> line_get s a = Inr (line_at s a)"
  by (simp add: line_get_eq [OF cache_ok_wf])

lemma slot_put [simp]: "cache_ok p s \<Longrightarrow> slot_ok p a \<Longrightarrow> line_put s a li = Inr (with_line s a li)"
  by (simp add: line_put_eq [OF cache_ok_wf])

lemma pick_ops [simp]:
  "cache_ok p s \<Longrightarrow> row < lineCountInSuperPage p \<Longrightarrow> col < parallelIO p \<Longrightarrow>
    evict_get s row col = Inr (pick_at s row col)"
  "cache_ok p s \<Longrightarrow> row < lineCountInSuperPage p \<Longrightarrow> col < parallelIO p \<Longrightarrow>
    evict_set s row col a = Inr (with_pick s row col a)"
  by (simp_all add: evict_eq [OF cache_ok_wf])

lemma getValidWay_ok:
  assumes "cache_ok p s"
  shows "outcome F (getValidWay p s lca tk) (\<lambda>(w, _). w \<le> waySize p)"
proof -
  obtain way tk' where r: "getValidWay p s lca tk = Inr (way, tk')"
    "way \<noteq> waySize p \<Longrightarrow> holds p s lca way \<and> (\<forall>w<way. \<not> holds p s lca w) \<and>
      tk' = tk + of_nat (way + 1) * (getCacheLatency p * 8)"
    by (rule getValidWay_spec [OF cache_ok_wf [OF assms], of lca tk], rule that) blast+
  then show ?thesis by (cases "way = waySize p") (auto simp: holds_def)
qed

lemma getEmptyWay_ok:
  assumes "cache_ok p s" and "i < setSize p"
  shows "outcome F (getEmptyWay p s i tk) (\<lambda>(w, _). w \<le> waySize p)"
proof -
  obtain way tk' where r: "getEmptyWay p s i tk = Inr (way, tk')"
    "way \<noteq> waySize p \<Longrightarrow> way < waySize p \<and> \<not> lnValid (line_at s (i, way)) \<and>
      (\<forall>w<waySize p. \<not> lnValid (line_at s (i, w)) \<longrightarrow>
         lnInsertedAt (line_at s (i, way)) \<le> lnInsertedAt (line_at s (i, w)))"
    by (rule getEmptyWay_spec [OF cache_ok_wf [OF assms(1)] assms(2), of tk], rule that) blast+
  then show ?thesis by (cases "way = waySize p") auto
qed

lemma leastWay_ok:
  assumes "cache_ok p s" and "i < setSize p"
  shows "outcome F (leastWay key p s i tk) (\<lambda>(w, _). w < waySize p)"
proof -
  obtain way tk' where "leastWay key p s i tk = Inr (way, tk')" "way < waySize p"
    by (rule leastWay_spec [OF cache_ok_wf [OF assms(1)] assms(2), of key tk], rule that) blast+
  then show ?thesis by simp
qed

lemma way_found:
  assumes "cache_ok p s"
  obtains w b where "getValidWay p s lca tk = Inr (w, b)" and "w \<le> waySize p"
  using getValidWay_ok [OF assms, of "\<lambda>_. False" lca tk] by (auto simp: outcome_total)

lemma way_empty:
  assumes "cache_ok p s" and "i < setSize p"
  obtains w b where "getEmptyWay p s i tk = Inr (w, b)" and "w \<le> waySize p"
  using getEmptyWay_ok [OF assms, of "\<lambda>_. False" tk] by (auto simp: outcome_total)

lemma io_bounds:
  assumes "cache_ok p s"
  shows "fst (calcIOPosition p lca) < lineCountInSuperPage p" and "snd (calcIOPosition p lca) < parallelIO p"
  using calcIOPosition_bounds(1,2) [OF cache_ok_geometry [OF assms], of lca] by (metis prod.collapse)+

lemma olderSlot_ok:
  assumes "cache_ok p s" and "pred_option (slot_ok p) a" and "pred_option (slot_ok p) b"
  shows "outcome F (olderSlot key s a b) (pred_option (slot_ok p))"
  using assms by (cases a; cases b) (auto simp: olderSlot_def)

text \<open>A set-associative cache whose sizes fit into 32 bits is built with its invariant.\<close>

definition cache_conf_ok :: "cache_conf \<Rightarrow> bool" where
  "cache_conf_ok c \<longleftrightarrow> (cfReadCache c \<or> cfWriteCache c) \<and> 0 < cfParallelIO c \<and>
     0 < cfIoUnitInPage c \<and> cfParallelIO c * cfIoUnitInPage c < 2 ^ 32 \<and>
     0 < cfWaySize c \<and> cfWaySize c < 2 ^ 32 \<and> cfCacheSize c < 2 ^ 32"

definition sized :: "cache_conf \<Rightarrow> nat \<Rightarrow> cache_param" where
  "sized c l =
     \<lparr>superPageSize = cfSuperPageSize c, parallelIO = cfParallelIO c,
      lineCountInSuperPage = (if cfTweak c then cfIoUnitInPage c else 1),
      lineCountInMaxIO = cfParallelIO c * (if cfTweak c then cfIoUnitInPage c else 1), lineSize = l,
      setSize = max (cfCacheSize c div l div cfWaySize c) 1 mod 2 ^ 32, waySize = cfWaySize c,
      prefetchIOCount = cfPrefetchCount c, prefetchIORatio = cfPrefetchRatio c,
      useReadCaching = cfReadCache c, useWriteCaching = cfWriteCache c,
      useReadPrefetch = cfReadPrefetch c,
      bSuperPage = (if cfSuperPageSize c div cfIoUnitInPage c \<noteq> cfSuperPageSize c then True else cfUninitSuperPage c),
      prefetchMode = cfPrefetchMode c, evictMode = cfEvictMode c, evictPolicy = cfPolicy c,
      distMax = cfWaySize c - 1, cacheLatency = cfCacheLatency c, coreCount = cfCore c\<rparr>"

lemma cache_geometry_eq:
  assumes c: "cache_conf_ok c" and run: "cache_geometry c = Inr p"
  shows "p = sized c (if cfTweak c then cfSuperPageSize c div cfIoUnitInPage c else cfSuperPageSize c)"
proof -
  have m: "cfWaySize c mod 2 ^ 32 = cfWaySize c" "(cfWaySize c + 2 ^ 32 - 1) mod 2 ^ 32 = cfWaySize c - 1"
    "cfParallelIO c * cfIoUnitInPage c mod 2 ^ 32 = cfParallelIO c * cfIoUnitInPage c"
    "cfIoUnitInPage c \<noteq> 0" "cfWaySize c \<noteq> 0" "cfReadCache c \<or> cfWriteCache c"
    using c by (auto simp: cache_conf_ok_def mod_if)
  show ?thesis
    using run m(4-6) unfolding cache_geometry_def Let_def m(1-3)
    by (cases "cfTweak c") (simp_all add: sized_def split: if_split_asm)
qed

lemma GenericCache_new_ok:
  assumes c: "cache_conf_ok c" and new: "GenericCache_new c = Inr (p, s)"
  shows "cache_ok p s" and "lineCountInSuperPage p = (if cfTweak c then cfIoUnitInPage c else 1)"
proof -
  have pos: "0 < cfParallelIO c" "0 < cfIoUnitInPage c" "0 < cfWaySize c" "cfReadCache c \<or> cfWriteCache c"
    using c by (simp_all add: cache_conf_ok_def)
  have "1 * cfIoUnitInPage c \<le> cfParallelIO c * cfIoUnitInPage c"
    using pos by (intro mult_le_mono) simp_all
  then have b: "cfIoUnitInPage c < 2 ^ 32" using c unfolding cache_conf_ok_def by linarith
  from new have geo: "cache_geometry c = Inr p"
    by (auto simp: GenericCache_new_def Let_def split: if_splits)
  obtain l where p: "p = sized c l" using cache_geometry_eq [OF c geo] by blast
  have size: "0 < setSize p"
  proof -
    have "cfCacheSize c div l div cfWaySize c \<le> cfCacheSize c" by (meson div_le_dividend le_trans)
    then have "max (cfCacheSize c div l div cfWaySize c) 1 < 2 ^ 32" using c by (simp add: cache_conf_ok_def)
    then show ?thesis by (simp add: p sized_def)
  qed
  have f: "waySize p = cfWaySize c" "parallelIO p = cfParallelIO c" "distMax p = cfWaySize c - 1"
    "lineCountInMaxIO p = parallelIO p * lineCountInSuperPage p"
    "useReadCaching p = cfReadCache c" "useWriteCaching p = cfWriteCache c"
    "lineCountInSuperPage p = (if cfTweak c then cfIoUnitInPage c else 1)"
    by (simp_all add: p sized_def)
  show "lineCountInSuperPage p = (if cfTweak c then cfIoUnitInPage c else 1)" by (rule f)
  have s: "evictPolicy p \<noteq> ICL_POLICY_invalid"
      "cacheData s = replicate (setSize p) (replicate (waySize p) Line_empty)"
      "evictData s = replicate (lineCountInSuperPage p) (replicate (parallelIO p) None)"
    using new geo pos(4) f(5,6) by (auto simp: GenericCache_new_def Let_def split: if_splits)
  have "geometry_ok p"
    unfolding geometry_ok_def using pos b size f by (cases "cfTweak c") simp_all
  moreover from this have "picks_ok p s"
    by (simp add: picks_ok_def pick_at_def s)
  ultimately show "cache_ok p s"
    using pos s(1) f(1,3) by (simp add: cache_ok_def cache_wf_def policy_ok_def s(2,3))
qed

section \<open>The interface\<close>

locale lower_layer =
  fixes env :: "'h cache_env" and p :: cache_param and F :: "fault \<Rightarrow> bool" and inv :: "'h \<Rightarrow> bool"
  assumes rd: "inv h \<Longrightarrow> flag_ok p q \<Longrightarrow> outcome F (ftlRead env q tk h) (\<lambda>(_, h). inv h)"
    and wr: "inv h \<Longrightarrow> flag_ok p q \<Longrightarrow> outcome F (ftlWrite env q tk h) (\<lambda>(_, h). inv h)"
    and tr: "inv h \<Longrightarrow> flag_ok p q \<Longrightarrow> outcome F (ftlTrim env q tk h) (\<lambda>(_, h). inv h)"
    and fm: "inv h \<Longrightarrow> outcome F (ftlFormat env r tk h) (\<lambda>(_, h). inv h)"
    and mr: "inv h \<Longrightarrow> outcome F (memRead env n tk h) (\<lambda>(_, h). inv h)"
    and mw: "inv h \<Longrightarrow> outcome F (memWrite env n tk h) (\<lambda>(_, h). inv h)"
    and fw: "inv h \<Longrightarrow> outcome F (firmware env ns fct h) (\<lambda>(_, h). inv h)"
    and sched: "inv h \<Longrightarrow> inv (memScheduling env b h)"
    and rnd: "inv h \<Longrightarrow> randomWay env n h = (w, h') \<Longrightarrow> w \<le> n \<and> inv h'"
begin

definition good :: "cache \<times> 'h \<Rightarrow> bool" where
  "good x \<longleftrightarrow> cache_ok p (fst x) \<and> inv (snd x)"

lemma good_pair [simp]: "good (s, h) \<longleftrightarrow> cache_ok p s \<and> inv h"
  by (simp add: good_def)

definition good3 :: "cache \<times> 'h \<times> 'r \<Rightarrow> bool" where
  "good3 x \<longleftrightarrow> good (fst x, fst (snd x))"

definition good4 :: "'r \<times> cache \<times> 'h \<times> tick \<Rightarrow> bool" where
  "good4 x \<longleftrightarrow> good3 (snd x)"

lemma good34 [simp]: "good3 (s, h, r) \<longleftrightarrow> good (s, h)" "good4 (c, s, h, tk) \<longleftrightarrow> good (s, h)"
  by (simp_all add: good3_def good4_def)

lemma evictFunction_ok:
  assumes ok: "cache_ok p s" and h: "inv h" and i: "i < setSize p"
  shows "outcome F (evictFunction env p s i tk h) (\<lambda>(w, _, h). w < waySize p \<and> inv h)"
proof -
  have pol: "evictPolicy p \<noteq> ICL_POLICY_invalid" "distMax p < waySize p"
    using ok by (simp_all add: cache_ok_def policy_ok_def)
  obtain w h' where w: "randomWay env (distMax p) h = (w, h')" by (cases "randomWay env (distMax p) h")
  have "w < waySize p \<and> inv h'" using rnd [OF h w] pol(2) by auto
  then show ?thesis
    using pol(1) w h
    by (auto simp: evictFunction_def split: icl_evict_policy.split
        intro!: outcome_bind outcome_mono [OF leastWay_ok [OF ok i]])
qed

lemma compareFunction_ok:
  assumes ok: "cache_ok p s" and h: "inv h" and a: "pred_option (slot_ok p) a" and b: "pred_option (slot_ok p) b"
  shows "outcome F (compareFunction env p s a b h) (\<lambda>(c, h). pred_option (slot_ok p) c \<and> inv h)"
proof -
  have pol: "evictPolicy p \<noteq> ICL_POLICY_invalid" using ok by (simp add: cache_ok_def policy_ok_def)
  obtain w h' where w: "randomWay env (distMax p) h = (w, h')" by (cases "randomWay env (distMax p) h")
  have "inv h'" using rnd [OF h w] by simp
  moreover have "outcome F (ebind (olderSlot key s a b) (\<lambda>c. Inr (c, h)))
      (\<lambda>(c, h). pred_option (slot_ok p) c \<and> inv h)" for key
    by (intro outcome_bind outcome_mono [OF olderSlot_ok [OF ok a b]]) (simp add: h)
  ultimately show ?thesis
    using pol w h a b by (cases "evictPolicy p") (auto simp: compareFunction_def)
qed

lemma evict_slot_ok:
  assumes g: "good x" and row: "row < lineCountInSuperPage p" and col: "col < parallelIO p"
  shows "outcome F (evict_slot env p tk fl row col x) good"
proof -
  obtain s h where x: "x = (s, h)" by (cases x)
  have ok: "cache_ok p s" and h: "inv h" using g by (simp_all add: x)
  have fl: "flag_ok p (evict_request p row li)" for li
    using row by (cases "lineCountInSuperPage p") (simp_all add: flag_ok_def evict_request_def)
  have po: "pred_option (slot_ok p) (pick_at s row col)" by (rule cache_ok_pick [OF ok row col])
  show ?thesis
  proof (cases "pick_at s row col")
    case None
    with ok h show ?thesis by (simp add: x evict_slot_eq [OF cache_ok_wf [OF ok] row col])
  next
    case (Some a)
    with po have a: "slot_ok p a" by simp
    have ok': "cache_ok p (with_pick (with_line s a li) row col None)" for li
      by (intro cache_ok_pick_set cache_ok_line) (simp_all add: ok a row col)
    show ?thesis
      using Some a ok' h wr [OF h fl]
      by (auto simp: x evict_slot_eq [OF cache_ok_wf [OF ok] row col] intro!: outcome_bind
          intro: outcome_mono [OF wr [OF h fl]])
  qed
qed

lemma evictCache_ok:
  assumes "cache_ok p s" and "inv h"
  shows "outcome F (evictCache env p tk fl s h) good"
  unfolding evictCache_def
  by (intro outcome_efold) (use assms evict_slot_ok in auto)

lemma fill_victim_ok:
  assumes ok: "cache_ok p s" and h: "inv h" and i: "i < setSize p"
  shows "outcome F (fill_victim env p i b s h) (\<lambda>(w, _, s, h). w < waySize p \<and> good (s, h))"
  unfolding fill_victim_def
proof (intro outcome_bind outcome_mono [OF evictFunction_ok [OF ok h i]], clarify, goal_cases)
  case (1 w b h)
  then have a: "slot_ok p (i, w)" using i by (simp add: slot_ok_def)
  have "cache_ok p (with_pick s (fst (calcIOPosition p t)) (snd (calcIOPosition p t)) (Some (i, w)))" for t
    by (rule cache_ok_pick_set [OF ok io_bounds [OF ok]]) (simp add: a)
  then show ?case using 1 a ok by (simp add: io_bounds [OF ok] split_beta)
qed

definition picking :: "cache \<times> 'h \<times> tick \<times> (u64 \<times> slot) list \<Rightarrow> bool" where
  "picking x \<longleftrightarrow> good3 x \<and> (\<forall>(l, a)\<in>set (snd (snd (snd x))). slot_ok p a)"

lemma picking_eq [simp]: "picking (s, h, fin, rl) \<longleftrightarrow> good (s, h) \<and> (\<forall>(l, a)\<in>set rl. slot_ok p a)"
  by (simp add: picking_def)

lemma fill_pick_ok:
  assumes g: "good (s, h)" and rl: "\<forall>(l, a)\<in>set rl. slot_ok p a"
  shows "outcome F (fill_pick env p tk lca (s, h, fin, rl))
    picking"
proof -
  have ok: "cache_ok p s" and h: "inv h" using g by simp_all
  let ?i = "calcSetIndex p lca"
  have i: "?i < setSize p" using ok by (simp add: calcSetIndex_bound cache_ok_geometry)
  obtain w0 b0 where v: "getValidWay p s lca tk = Inr (w0, b0)" "w0 \<le> waySize p" by (rule way_found [OF ok])
  obtain w1 b1 where e: "getEmptyWay p s ?i b0 = Inr (w1, b1)" "w1 \<le> waySize p" by (rule way_empty [OF ok i])
  consider "w0 \<noteq> waySize p" | "w0 = waySize p" "w1 < waySize p" | "w0 = waySize p" "w1 = waySize p"
    using e(2) by linarith
  then show ?thesis
  proof cases
    case 1
    with v g rl show ?thesis by (simp add: fill_pick_def)
  next
    case 2
    with v e g rl set_way_ok [OF ok 2(2), of lca] show ?thesis
      by (auto simp: fill_pick_def Let_def intro: cache_ok_line)
  next
    case 3
    have store: "outcome F (ebind (line_get s (?i, w)) (\<lambda>li. ebind (line_put s (?i, w) (f li)) (\<lambda>s. Inr (s, h, x, rl @ [(lca, (?i, w))]))))
        picking"
      if "good (s, h)" "w < waySize p" for s h w f x
      using that rl set_way_ok [of p s w lca] by (auto intro: cache_ok_line)
    show ?thesis
      unfolding fill_pick_def prod.case v(1) ebind_simps Let_def e(1) 3
      by (simp del: good_pair, intro outcome_bind outcome_mono [OF fill_victim_ok [OF ok h i]], clarify) (rule store)
  qed
qed

lemma fill_line_ok:
  assumes g: "good (s, h)" and a: "slot_ok p a" and q: "flag_ok p q"
  shows "outcome F (fill_line env p req q tk (lca, a) (s, h, fin)) good3"
proof -
  have ok: "cache_ok p s" and h: "inv h" using g by simp_all
  have n: "0 < lineCountInSuperPage p" using cache_ok_geometry [OF ok] by (simp add: geometry_ok_def)
  let ?k = "unat lca mod lineCountInSuperPage p"
  let ?f = "bs_upd (bitset_reset_all (ftlIoFlag q)) ?k True"
  have f: "bitset_set (bitset_reset_all (ftlIoFlag q)) ?k = Inr ?f"
    and fl: "flag_ok p (q\<lparr>ftlLpn := l, ftlIoFlag := ?f\<rparr>)" for l
    using q n by (simp_all add: flag_ok_def)
  show ?thesis
    unfolding fill_line_def prod.case f ebind_simps
  proof (intro outcome_bind outcome_mono [OF rd [OF h fl]], clarify)
    fix b h assume h: "inv h"
    have ok': "cache_ok p (with_line s a li)" for li using ok a by blast
    show "outcome F (ebind (line_get s a) (\<lambda>li. ebind (memWrite env (lineSize p) (lnInsertedAt li) h)
        (\<lambda>(dramAt, h). let beginAt = max b dramAt in
     ebind (line_put s a (li\<lparr>lnInsertedAt := beginAt, lnLastAccessed := beginAt, lnTag := lca\<rparr>)) (\<lambda>s.
     Inr (s, h, if lca = slpn (iclRange req) then beginAt else fin))))) good3"
      using ok a ok' by (auto simp: Let_def intro!: outcome_bind outcome_mono [OF mw [OF h]])
  qed
qed

lemma cache_fill_ok:
  assumes g: "good (s, h)"
  shows "outcome F (cache_fill env p req ret t0 s h tk) good3"
proof -
  have n: "0 < lineCountInSuperPage p" "lineCountInSuperPage p < 2 ^ 32"
    using g cache_ok_geometry by (auto simp: geometry_ok_def)
  obtain q where q: "FTLRequest_of_ICL (lineCountInSuperPage p) req = Inr q" "flag_ok p q"
    using n by (auto simp: FTLRequest_of_ICL_def flag_ok_def)
  define x where "x = (if sdEnabled (readDetect s) then memScheduling env False h else h)"
  have x: "inv x" using g sched by (simp add: x_def)
  have pick: "outcome F (efold (fill_pick env p tk) ls (s', x, tk, []))
      picking"
    if "cache_ok p s'" for ls s'
    by (rule outcome_efold) (use that x fill_pick_ok in \<open>auto simp: case_prod_unfold\<close>)
  have lines: "outcome F (efold (fill_line env p req q fin) rl (s, h, fin)) good3"
    if "good (s, h)" "\<forall>(l, a)\<in>set rl. slot_ok p a" for s h fin rl
    by (rule outcome_efold [where P = good3]) (use that fill_line_ok [OF _ _ q(2)] in auto)
  show ?thesis
    unfolding cache_fill_def q(1) ebind_simps Let_def x_def [symmetric]
  proof (intro outcome_bind outcome_mono [OF pick], goal_cases)
    case (2 r)
    obtain s1 h1 fin rl where r: "r = (s1, h1, fin, rl)" by (cases r)
    have E: "outcome F (evictCache env p fin True s1 h1) good" using 2 r evictCache_ok by simp
    show ?case
      unfolding r prod.case
    proof (intro outcome_bind outcome_mono [OF E], clarify)
      fix s2 h2 assume g2: "good (s2, h2)"
      show "outcome F (ebind (efold (fill_line env p req q fin) rl (s2, h2, fin)) (\<lambda>(s, h, tk).
          if sdEnabled (readDetect s) then Inr (s, memScheduling env True h, if ret then t0 else tk)
          else Inr (s, h, tk))) good3"
        by (intro outcome_bind outcome_mono [OF lines [OF g2]]) (use 2 r sched in auto)
    qed
  qed (use g in auto)
qed

lemma firmware_ok:
  assumes "outcome F r good4"
  shows "outcome F (ebind r (\<lambda>(ret, s, h, tk). ebind (firmware env ns fct h)
    (\<lambda>(l, h). Inr (ret, s, h, tk + l)))) good4"
  by (intro outcome_bind outcome_mono [OF assms]) (auto intro!: outcome_bind outcome_mono [OF fw])

lemma request_ok:
  assumes "good (s, h)"
  obtains q where "FTLRequest_of_ICL (lineCountInSuperPage p) req = Inr q" and "flag_ok p q"
  using assms cache_ok_geometry by (auto simp: FTLRequest_of_ICL_def flag_ok_def geometry_ok_def)

lemma read_hit_ok:
  assumes g: "good (s, h)" and a: "slot_ok p a"
  shows "outcome F (read_hit env p req a s h tk) good4"
proof -
  have ok: "cache_ok p s" "cache_ok p (with_line s a li)" and h: "inv h" for li using g a by auto
  have fill: "outcome F (ebind (cache_fill env p rq b t s h tk) (\<lambda>(s, h, tk). Inr (c, s, h, tk)))
      good4" if "good (s, h)" for rq b t s h tk and c :: bool
    by (intro outcome_bind outcome_mono [OF cache_fill_ok [OF that]]) auto
  show ?thesis
    unfolding read_hit_def Let_def slot_get [OF ok(1) a] slot_put [OF ok(1) a] ebind_simps
    by (intro outcome_bind outcome_mono [OF mr [OF h]]) (auto simp: ok intro!: outcome_if fill)
qed

lemma read_cached_ok:
  assumes g: "good (s, h)"
  shows "outcome F (read_cached env p req s h tk) good4"
proof -
  define s1 where "s1 = (if useReadPrefetch p
      then s\<lparr>readDetect := checkSequential p req (readDetect s)\<rparr> else s)"
  have g1: "good (s1, h)" using g by (simp add: s1_def)
  then have ok1: "cache_ok p s1" by simp
  obtain w t1 where w: "getValidWay p s1 (slpn (iclRange req)) tk = Inr (w, t1)" "w \<le> waySize p"
    by (rule way_found [OF ok1])
  let ?a = "(calcSetIndex p (slpn (iclRange req)), w)"
  have a: "w \<noteq> waySize p \<Longrightarrow> slot_ok p ?a" using w(2) set_way_ok [OF ok1, of w] by simp
  show ?thesis
    unfolding read_cached_def Let_def s1_def [symmetric] w(1) ebind_simps prod.case
    by (intro firmware_ok outcome_if read_hit_ok [OF g1 a] outcome_bind outcome_mono [OF cache_fill_ok [OF g1]])
      auto
qed

lemma count_ok:
  assumes "outcome F r good4"
  shows "outcome F (ebind r (\<lambda>(ret, s, h, tk). Inr (ret, count_read ret s, h, tk))) good4"
    and "outcome F (ebind r (\<lambda>(ret, s, h, tk). Inr (ret, count_write ret s, h, tk))) good4"
  by (rule outcome_bind, rule outcome_mono [OF assms], auto simp: count_read_def count_write_def)+

lemma cache_read_ok:
  assumes g: "good (s, h)"
  shows "outcome F (cache_read env p req s h tk) good4"
proof -
  obtain q where q: "FTLRequest_of_ICL (lineCountInSuperPage p) req = Inr q" "flag_ok p q"
    by (rule request_ok [OF g])
  have h: "inv h" using g by simp
  have "outcome F (ebind (memWrite env (unat (iclLength req)) tk h) (\<lambda>(tk, h).
      ebind (ftlRead env q tk h) (\<lambda>(tk, h). Inr (False, s, h, tk)))) good4"
    by (intro outcome_bind outcome_mono [OF mw [OF h]])
      (use g q in \<open>auto intro!: outcome_bind outcome_mono [OF rd]\<close>)
  then show ?thesis
    unfolding cache_read_def q(1) ebind_simps by (intro count_ok outcome_if read_cached_ok [OF g])
qed

section \<open>Writes\<close>

lemma pick_line_ok:
  assumes g: "good x" and a: "slot_ok p a"
  shows "outcome F (pick_line env p a x) good"
proof -
  obtain s h where x: "x = (s, h)" by (cases x)
  have ok: "cache_ok p s" and h: "inv h" using g x by simp_all
  note io = io_bounds [OF ok]
  have "outcome F (compareFunction env p s (pick_at s (fst (calcIOPosition p t)) (snd (calcIOPosition p t)))
      (Some a) h) (\<lambda>(c, h). pred_option (slot_ok p) c \<and> inv h)" for t
    using compareFunction_ok [OF ok h cache_ok_pick [OF ok io]] a by simp
  note cmp = this [of "lnTag (line_at s a)"]
  have set_ok: "cache_ok p (with_pick s (fst (calcIOPosition p t)) (snd (calcIOPosition p t)) c)"
    if "pred_option (slot_ok p) c" for c t by (rule cache_ok_pick_set [OF ok io that])
  let ?t = "lnTag (line_at s a)"
  let ?row = "fst (calcIOPosition p ?t)" and ?col = "snd (calcIOPosition p ?t)"
  have "outcome F (ebind (compareFunction env p s (pick_at s ?row ?col) (Some a) h) (\<lambda>(best, h).
      ebind (evict_set s ?row ?col best) (\<lambda>s. Inr (s, h)))) good"
    by (intro outcome_bind outcome_mono [OF cmp]) (use ok in \<open>auto simp: io set_ok\<close>)
  then show ?thesis using ok h a io by (simp add: pick_line_def x split_beta)
qed

lemma pick_right_ok:
  assumes g: "good x" and row: "row < lineCountInSuperPage p" and col: "Suc col < parallelIO p"
  shows "outcome F (pick_right env p row col x) good"
proof -
  obtain s h where x: "x = (s, h)" by (cases x)
  have ok: "cache_ok p s" and h: "inv h" using g x by simp_all
  have c: "col < parallelIO p" using col by simp
  have ok1: "cache_ok p (with_pick s row (Suc col) b)" if "pred_option (slot_ok p) b" for b
    by (rule cache_ok_pick_set [OF ok row col that])
  have step: "cache_ok p (with_pick (with_pick s row (Suc col) b) row col None)" if "pred_option (slot_ok p) b" for b
    using cache_ok_pick_set [OF ok1 [OF that] row c] by simp
  have "outcome F (compareFunction env p s (pick_at s row col) (pick_at s row (Suc col)) h)
      (\<lambda>(c, h). pred_option (slot_ok p) c \<and> inv h)"
    by (rule compareFunction_ok [OF ok h cache_ok_pick [OF ok row c] cache_ok_pick [OF ok row col]])
  then show ?thesis
    unfolding pick_right_def x prod.case Suc_eq_plus1 [symmetric]
      pick_ops(1) [OF ok row c] pick_ops(1) [OF ok row col] ebind_simps
    by (intro outcome_bind, elim outcome_mono)
      (auto simp: pick_ops(2) [OF ok row col] pick_ops(2) [OF ok1 row c] step)
qed

lemma picks_set_ok:
  assumes ok: "cache_ok p s"
  shows "outcome F (picks_set p s i) (\<lambda>_. True)"
proof -
  have one: "outcome F (ebind (evict_get s row col) (\<lambda>ptr. case ptr of None \<Rightarrow> Inr b
      | Some a \<Rightarrow> ebind (line_get s a) (\<lambda>li. Inr (if calcSetIndex p (lnTag li) = i then True else b))))
    (\<lambda>_. True)" if rc: "row < lineCountInSuperPage p" "col < parallelIO p" for row col b
    using cache_ok_pick [OF ok rc] ok rc by (cases "pick_at s row col") auto
  show ?thesis unfolding picks_set_def by (intro outcome_efold) (auto intro: one)
qed

lemma oldest_of_set_ok:
  assumes ok: "cache_ok p s" and h: "inv h" and i: "i < setSize p"
  shows "outcome F (oldest_of_set env p s i h) (\<lambda>(b, h). pred_option (slot_ok p) b \<and> inv h)"
  unfolding oldest_of_set_def
proof (rule outcome_efold)
  show "case (None, h) of (b, h) \<Rightarrow> pred_option (slot_ok p) b \<and> inv h" using h by simp
  fix w x assume "w \<in> set [0..<waySize p]" and x: "case x of (b, h) \<Rightarrow> pred_option (slot_ok p) b \<and> inv h"
  then have a: "slot_ok p (i, w)" using i by (simp add: slot_ok_def)
  show "outcome F (case x of (best, h) \<Rightarrow> ebind (line_get s (i, w)) (\<lambda>li.
      if lnValid li then compareFunction env p s best (Some (i, w)) h else Inr (best, h)))
      (\<lambda>(b, h). pred_option (slot_ok p) b \<and> inv h)"
    using x ok a compareFunction_ok [OF ok, of _ _ "Some (i, w)"] by (auto split: prod.splits)
qed

lemma flush_pick_ok:
  assumes g: "good (s, h)" and i: "i < setSize p"
  shows "outcome F (flush_pick env p i s h) good"
proof -
  have all: "outcome F (efold (\<lambda>i. efold (\<lambda>w. pick_line env p (i, w)) [0..<waySize p]) [0..<setSize p] (s, h)) good"
    by (intro outcome_efold g) (auto simp: slot_ok_def pick_line_ok)
  have right: "outcome F (efold (\<lambda>row. efold (pick_right env p row) [0..<parallelIO p - 1])
      [0..<lineCountInSuperPage p] x) good" if "good x" for x
    by (intro outcome_efold that) (auto simp: pick_right_ok)
  have last: "outcome F (ebind (oldest_of_set env p s i h) (\<lambda>(best, h).
       case best of None \<Rightarrow> Inr (s, h)
       | Some a \<Rightarrow> ebind (line_get s a) (\<lambda>li. case calcIOPosition p (lnTag li) of (row, col) \<Rightarrow>
             ebind (evict_set s row col (Some a)) (\<lambda>s. Inr (s, h))))) good"
    if "good (s, h)" for s h
  proof -
    have ok: "cache_ok p s" and h: "inv h" using that by simp_all
    show ?thesis
      using ok io_bounds [OF ok]
      by (intro outcome_bind outcome_mono [OF oldest_of_set_ok [OF ok h i]])
        (auto simp: split_beta split: option.splits intro!: cache_ok_pick_set)
  qed
  show ?thesis
    unfolding flush_pick_def
  proof (intro outcome_bind outcome_mono [OF all], goal_cases)
    case (1 x)
    have "outcome F (if evictMode p = MODE_SUPERPAGE
        then efold (\<lambda>row. efold (pick_right env p row) [0..<parallelIO p - 1]) [0..<lineCountInSuperPage p] x
        else Inr x) good"
      by (intro outcome_if right 1) (simp add: 1)
    then show ?case
      by (cases x) (auto intro!: outcome_bind outcome_mono [OF picks_set_ok] outcome_if last
          elim!: outcome_mono)
  qed
qed

lemma store_after:
  assumes "cache_ok p s" and h: "inv h"
  shows "outcome F (ebind (memWrite env len tk h) (\<lambda>(tk, h). Inr (c, s, h, tk))) good4"
  using assms(1) by (auto intro!: outcome_bind outcome_mono [OF mw [OF h]])

lemma write_evict_ok:
  assumes g: "good (s, h)" and i: "i < setSize p" and panic: "F (Panic ''Cache corrupted!'')"
  shows "outcome F (write_evict env p lca len i s h tk) good4"
  unfolding write_evict_def Let_def
proof (intro outcome_bind outcome_mono [OF flush_pick_ok [OF g i]], clarify,
    intro outcome_bind outcome_mono [OF evictCache_ok], goal_cases)
  case (3 s h x)
  obtain s1 h1 where x: "x = (s1, h1)" by (cases x)
  have ok: "cache_ok p s1" and h: "inv h1" using 3 x by simp_all
  obtain w b where e: "getEmptyWay p s1 i (tk + getCacheLatency p * of_nat (setSize p) * of_nat (waySize p) * 8) = Inr (w, b)"
    "w \<le> waySize p" by (rule way_empty [OF ok i])
  have "outcome F (ebind (memWrite env len b h1) (\<lambda>(tk, h). ebind (line_get s1 (i, w)) (\<lambda>li.
      ebind (line_put s1 (i, w) (written_line lca tk True li)) (\<lambda>s. Inr (False, s, h, tk))))) good4"
    if "w < waySize p"
  proof -
    have a: "slot_ok p (i, w)" using that i by (simp add: slot_ok_def)
    show ?thesis
      by (intro outcome_bind outcome_mono [OF mw [OF h]]) (use ok a cache_ok_line [OF ok a] in auto)
  qed
  then show ?case using e panic by (auto simp: x)
qed auto

lemma write_cached_ok:
  assumes g: "good (s, h)" and panic: "F (Panic ''Cache corrupted!'')"
  shows "outcome F (write_cached env p req dirty flash s h tk) good4"
proof -
  have ok: "cache_ok p s" and h: "inv h" using g by simp_all
  let ?i = "calcSetIndex p (slpn (iclRange req))"
  have i: "?i < setSize p" using ok by (simp add: calcSetIndex_bound cache_ok_geometry)
  obtain w0 b0 where v: "getValidWay p s (slpn (iclRange req)) tk = Inr (w0, b0)" "w0 \<le> waySize p"
    by (rule way_found [OF ok])
  obtain w1 b1 where e: "getEmptyWay p s ?i b0 = Inr (w1, b1)" "w1 \<le> waySize p" by (rule way_empty [OF ok i])
  have a: "w \<noteq> waySize p \<Longrightarrow> w \<le> waySize p \<Longrightarrow> slot_ok p (?i, w)" for w
    using set_way_ok [OF ok, of w] by simp
  have hit: "outcome F (write_hit env p len dirty flash a s h tk) good4"
    "outcome F (write_empty env p lca len dirty flash a s h tk) good4" if "slot_ok p a" for a len tk lca
    using ok that by (simp_all add: write_hit_def write_empty_def Let_def store_after [OF cache_ok_line [OF ok that] h])
  show ?thesis
    unfolding write_cached_def Let_def v(1) ebind_simps prod.case e(1)
    using hit a v(2) e(2) write_evict_ok [OF g i panic] by (auto intro!: outcome_if)
qed

lemma cache_write_ok:
  assumes g: "good (s, h)" and panic: "F (Panic ''Cache corrupted!'')"
  shows "outcome F (cache_write env p req s h tk) good4"
proof -
  obtain q where q: "FTLRequest_of_ICL (lineCountInSuperPage p) req = Inr q" "flag_ok p q"
    by (rule request_ok [OF g])
  let ?d = "iclLength req < of_nat (lineSize p)"
  have ok: "cache_ok p s" and h: "inv h" using g by simp_all
  have first: "outcome F (if ?d then Inr (tk, h) else ftlWrite env q tk h) (\<lambda>(_, h). inv h)"
    using h wr [OF h q(2)] by simp
  have uncached: "outcome F (ebind (if ?d then ftlWrite env q tk h else Inr (fl, h)) (\<lambda>(tk, h).
      ebind (memRead env (unat (iclLength req)) tk (memScheduling env False h)) (\<lambda>(tk, h).
      Inr (False, s, memScheduling env True h, tk)))) good4" if h: "inv h" for h fl
  proof -
    have "outcome F (if ?d then ftlWrite env q tk h else Inr (fl, h)) (\<lambda>(_, h). inv h)"
      using h wr [OF h q(2)] by simp
    then show ?thesis
      using ok by (auto intro!: outcome_bind outcome_mono [OF mr] sched elim!: outcome_mono)
  qed
  show ?thesis
    unfolding cache_write_def q(1) ebind_simps Let_def
    by (intro outcome_bind outcome_mono [OF first], clarify)
      (intro count_ok outcome_if firmware_ok write_cached_ok panic uncached, simp_all add: ok)
qed

section \<open>Flush, trim and format\<close>

definition walking :: "cache \<times> 'h \<times> ftl_request \<times> tick \<times> tick \<Rightarrow> bool" where
  "walking = (\<lambda>(s, h, q, _, _). good (s, h) \<and> flag_ok p q)"

lemma flag_step:
  assumes "flag_ok p q" and "0 < lineCountInSuperPage p"
  obtains f where "bitset_set (ftlIoFlag q) (n mod lineCountInSuperPage p) = Inr f"
    and "\<And>l. flag_ok p (q\<lparr>ftlLpn := l, ftlIoFlag := f\<rparr>)"
  using assms by (simp add: flag_ok_def)

lemma flush_line_ok:
  assumes w: "walking x" and a: "slot_ok p a"
  shows "outcome F (flush_line env p r a x) walking"
proof -
  obtain s h q tk fin where x: "x = (s, h, q, tk, fin)" by (cases x)
  have ok: "cache_ok p s" and h: "inv h" and q: "flag_ok p q" using w x by (simp_all add: walking_def)
  have n: "0 < lineCountInSuperPage p" using cache_ok_geometry [OF ok] by (simp add: geometry_ok_def)
  obtain f where f: "bitset_set (ftlIoFlag q) (unat (lnTag (line_at s a)) mod lineCountInSuperPage p) = Inr f"
    "\<And>l. flag_ok p (q\<lparr>ftlLpn := l, ftlIoFlag := f\<rparr>)" by (rule flag_step [OF q n, of "unat (lnTag (line_at s a))"], rule that) blast+
  show ?thesis
    using ok a h q cache_ok_line [OF ok a]
    by (auto simp: flush_line_def x Let_def f walking_def intro!: outcome_bind outcome_if
        outcome_mono [OF wr [OF h f(2)]])
qed

lemma trim_line_ok:
  assumes w: "walking x" and a: "slot_ok p a"
  shows "outcome F (trim_line env p r a x) walking"
proof -
  obtain s h q tk fin where x: "x = (s, h, q, tk, fin)" by (cases x)
  have ok: "cache_ok p s" and h: "inv h" and q: "flag_ok p q" using w x by (simp_all add: walking_def)
  have n: "0 < lineCountInSuperPage p" using cache_ok_geometry [OF ok] by (simp add: geometry_ok_def)
  obtain f where f: "bitset_set (ftlIoFlag q) (unat (lnTag (line_at s a)) mod lineCountInSuperPage p) = Inr f"
    "\<And>l. flag_ok p (q\<lparr>ftlLpn := l, ftlIoFlag := f\<rparr>)" by (rule flag_step [OF q n, of "unat (lnTag (line_at s a))"], rule that) blast+
  show ?thesis
    using ok a h q cache_ok_line [OF ok a]
    by (auto simp: trim_line_def x Let_def f walking_def intro!: outcome_bind outcome_if
        outcome_mono [OF tr [OF h f(2)]])
qed

lemma walk_ok:
  assumes g: "good (s, h)" and step: "\<And>a x. walking x \<Longrightarrow> slot_ok p a \<Longrightarrow> outcome F (f a x) walking"
  shows "outcome F (ebind (efold (\<lambda>i. efold (\<lambda>w. f (i, w)) [0..<waySize p]) [0..<setSize p]
      (s, h, FTLRequest_new (lineCountInSuperPage p), tk, tk))
    (\<lambda>(s, h, _, tk, fin). ebind (firmware env ns fct h) (\<lambda>(l, h). Inr (s, h, max tk fin + l)))) good3"
proof -
  have "0 < lineCountInSuperPage p" using g cache_ok_geometry by (auto simp: geometry_ok_def)
  then have "walking (s, h, FTLRequest_new (lineCountInSuperPage p), tk, tk)"
    using g by (simp add: walking_def flag_ok_def FTLRequest_new_def)
  then have "outcome F (efold (\<lambda>i. efold (\<lambda>w. f (i, w)) [0..<waySize p]) [0..<setSize p]
      (s, h, FTLRequest_new (lineCountInSuperPage p), tk, tk)) walking"
    by (intro outcome_efold step) (auto simp: slot_ok_def)
  then show ?thesis
    by (intro outcome_bind) (auto elim!: outcome_mono simp: walking_def intro!: outcome_bind outcome_mono [OF fw])
qed

lemma cache_flush_ok: "good (s, h) \<Longrightarrow> outcome F (cache_flush env p r s h tk) good3"
  unfolding cache_flush_def by (intro outcome_if walk_ok flush_line_ok) simp_all

lemma cache_trim_ok: "good (s, h) \<Longrightarrow> outcome F (cache_trim env p r s h tk) good3"
  unfolding cache_trim_def by (intro outcome_if walk_ok trim_line_ok) simp_all

lemma cache_format_ok:
  assumes g: "good (s, h)"
  shows "outcome F (cache_format env p r s h tk) good3"
proof -
  have ok: "cache_ok p s" and h: "inv h" using g by simp_all
  have n: "0 < lineCountInSuperPage p" using cache_ok_geometry [OF ok] by (simp add: geometry_ok_def)
  let ?f = "\<lambda>i (s, tk). let lpn = slpn r + of_nat i; setIdx = calcSetIndex p lpn in
              ebind (getValidWay p s lpn tk) (\<lambda>(way, tk).
              if way \<noteq> waySize p then
                ebind (line_get s (setIdx, way)) (\<lambda>li.
                ebind (line_put s (setIdx, way) (li\<lparr>lnValid := False\<rparr>)) (\<lambda>s. Inr (s, tk)))
              else Inr (s, tk))"
  have step: "outcome F (?f i x) (\<lambda>(s, _). cache_ok p s)" if x: "(\<lambda>(s, _). cache_ok p s) x" for i x
  proof -
    obtain s tk where x: "x = (s, tk)" and ok: "cache_ok p s" using x by (cases x) auto
    obtain w b where v: "getValidWay p s (slpn r + of_nat i) tk = Inr (w, b)" "w \<le> waySize p"
      by (rule way_found [OF ok])
    have "w \<noteq> waySize p \<Longrightarrow> slot_ok p (calcSetIndex p (slpn r + of_nat i), w)"
      using set_way_ok [OF ok, of w] v(2) by simp
    then show ?thesis using ok v(1) by (auto simp: x Let_def intro: cache_ok_line)
  qed
  have "outcome F (if useReadCaching p \<or> useWriteCaching p then efold ?f [0..<unat (nlp r)] (s, tk)
      else Inr (s, tk)) (\<lambda>(s, _). cache_ok p s)"
    by (intro outcome_if outcome_efold step) (use ok in auto)
  then show ?thesis
    unfolding cache_format_def
    by (intro outcome_bind, elim outcome_mono)
      (use n h in \<open>auto simp: Let_def intro!: outcome_bind outcome_mono [OF fm] outcome_mono [OF fw]\<close>)
qed

end

end
