(* ===== verification/Drive.thy ===== *)
theory Drive
  imports Icl FtlLayer CacheSafe
begin

text \<open>
  The storage stack as a whole: host requests go through the internal cache, the cache reads and
  writes the FTL, and whatever the cache decides to evict, fill or flush, the mapping of the FTL
  stays consistent. The contract of the layers below the cache is the locale \<open>lower_layer\<close>, here
  interpreted on the FTL model.
\<close>

section \<open>The FTL keeps the contract\<close>






section \<open>Runs of the drive\<close>


section \<open>Slicing\<close>

text \<open>The sub-requests of a host request, as a list.\<close>

fun slices :: "icl \<Rightarrow> icl_request \<Rightarrow> nat list \<Rightarrow> u64 \<Rightarrow> u64 \<Rightarrow> icl_request list" where
  "slices c req [] remain offs = []"
| "slices c req (i # is) remain offs =
     icl_slice c req i remain offs # slices c req is (remain - iclLength (icl_slice c req i remain offs)) 0"

lemma icl_access_slices:
  "icl_access op c req s h tk =
     efold (\<lambda>r (s, h, fin). ebind (op r s h tk) (\<lambda>(_, s, h, t). Inr (s, h, max fin t)))
       (slices c req [0..<unat (nlp (iclRange req))] (iclLength req) (iclOffset req)) (s, h, tk)"
proof -
  have "ebind (efold (\<lambda>i (s, h, remain, offs, fin). let r = icl_slice c req i remain offs in
         ebind (op r s h tk) (\<lambda>(_, s, h, t). Inr (s, h, remain - iclLength r, 0, max fin t)))
       is (s, h, remain, offs, fin)) (\<lambda>(s, h, _, _, fin). Inr (s, h, fin)) =
     efold (\<lambda>r (s, h, fin). ebind (op r s h tk) (\<lambda>(_, s, h, t). Inr (s, h, max fin t)))
       (slices c req is remain offs) (s, h, fin)" for "is" remain offs fin
  proof (induction "is" arbitrary: s h remain offs fin)
    case (Cons i "is")
    show ?case
      by (cases "op (icl_slice c req i remain offs) s h tk") (auto simp: Let_def Cons.IH [unfolded Let_def])
  qed simp
  then show ?thesis by (simp add: icl_access_def)
qed

text \<open>The bytes of a request that starts \<open>offs\<close> bytes into its first page.\<close>

lemma slices_lengths:
  assumes "unat remain + unat offs \<le> length is * pageBytes c" and "unat offs \<le> pageBytes c"
    and "pageBytes c < 2 ^ 32"
  shows "(\<Sum>r\<leftarrow>slices c req is remain offs. unat (iclLength r)) = unat remain"
  using assms(1,2)
proof (induction "is" arbitrary: remain offs)
  case (Cons i "is")
  have pb: "unat (of_nat (pageBytes c) :: u64) = pageBytes c" using assms(3) by (simp add: unat_of_nat)
  have room: "unat (of_nat (pageBytes c) - offs) = pageBytes c - unat offs"
    using Cons.prems(2) pb by (simp add: unat_sub word_le_nat_alt)
  let ?l = "iclLength (icl_slice c req i remain offs)"
  have l: "unat ?l = min (unat remain) (pageBytes c - unat offs)"
    by (simp add: icl_slice_def min_def word_le_nat_alt room)
  then have "unat (remain - ?l) = unat remain - unat ?l" by (simp add: unat_sub word_le_nat_alt)
  moreover have "unat remain - unat ?l \<le> length is * pageBytes c" using Cons.prems l by auto
  ultimately have "(\<Sum>r\<leftarrow>slices c req is (remain - ?l) 0. unat (iclLength r)) = unat remain - unat ?l"
    using Cons.IH [of "remain - ?l" 0] by simp
  with l show ?case by simp
qed simp

lemma slices_shape:
  assumes "k < length is" and "unat offs \<le> pageBytes c" and "pageBytes c < 2 ^ 32"
  shows "slpn (iclRange (slices c req is remain offs ! k)) = slpn (iclRange req) + of_nat (is ! k) \<and>
    iclOffset (slices c req is remain offs ! k) = (if k = 0 then offs else 0) \<and>
    unat (iclOffset (slices c req is remain offs ! k)) + unat (iclLength (slices c req is remain offs ! k)) \<le> pageBytes c"
  using assms(1,2)
proof (induction "is" arbitrary: remain offs k)
  case (Cons i "is")
  have pb: "unat (of_nat (pageBytes c) :: u64) = pageBytes c" using assms(3) by (simp add: unat_of_nat)
  have room: "unat (of_nat (pageBytes c) - offs) = pageBytes c - unat offs"
    using Cons.prems(2) pb by (simp add: unat_sub word_le_nat_alt)
  show ?case
  proof (cases k)
    case 0
    then show ?thesis using room Cons.prems(2) by (auto simp: icl_slice_def min_def word_le_nat_alt)
  next
    case (Suc m)
    with Cons.IH [of m 0 "remain - iclLength (icl_slice c req i remain offs)"] Cons.prems show ?thesis by simp
  qed
qed simp

lemma length_slices [simp]: "length (slices c req is remain offs) = length is"
  by (induction "is" arbitrary: remain offs) auto

section \<open>Reachable states\<close>









section \<open>A sample drive\<close>





definition duo_icl :: icl where
  "duo_icl = \<lparr>totalPages = 4, pageBytes = 8\<rparr>"





definition duo_request :: "u64 \<Rightarrow> u64 \<Rightarrow> u64 \<Rightarrow> icl_request" where
  "duo_request offs len n = ICLRequest_new\<lparr>iclOffset := offs, iclLength := len, iclRange := \<lparr>slpn = 1, nlp = n\<rparr>\<rparr>"

section \<open>The claims\<close>





text \<open>A host request is cut into one sub-request per logical page: consecutive pages, the offset in
  the first only, none crossing its page, together as long as the request. All start at the same
  tick, and the request ends with the last of them.\<close>

theorem request_slices:
  assumes "unat (iclLength req) + unat (iclOffset req) \<le> unat (nlp (iclRange req)) * pageBytes c"
    and "unat (iclOffset req) \<le> pageBytes c" and "pageBytes c < 2 ^ 32"
  shows "\<exists>rs. (\<forall>op s h tk. icl_access op c req (s :: cache) (h :: 'h) tk =
        efold (\<lambda>r (s, h, fin). ebind (op r s h tk) (\<lambda>(_, s, h, t). Inr (s, h, max fin t))) rs (s, h, tk)) \<and>
      length rs = unat (nlp (iclRange req)) \<and>
      (\<Sum>r\<leftarrow>rs. unat (iclLength r)) = unat (iclLength req) \<and>
      (\<forall>k<length rs. slpn (iclRange (rs ! k)) = slpn (iclRange req) + of_nat k \<and>
        iclOffset (rs ! k) = (if k = 0 then iclOffset req else 0) \<and>
        unat (iclOffset (rs ! k)) + unat (iclLength (rs ! k)) \<le> pageBytes c)"
proof -
  let ?is = "[0..<unat (nlp (iclRange req))]"
  let ?rs = "slices c req ?is (iclLength req) (iclOffset req)"
  have sum: "(\<Sum>r\<leftarrow>?rs. unat (iclLength r)) = unat (iclLength req)"
    by (rule slices_lengths) (use assms in auto)
  have shape: "slpn (iclRange (?rs ! k)) = slpn (iclRange req) + of_nat k \<and>
        iclOffset (?rs ! k) = (if k = 0 then iclOffset req else 0) \<and>
        unat (iclOffset (?rs ! k)) + unat (iclLength (?rs ! k)) \<le> pageBytes c" if "k < length ?rs" for k
  proof -
    have k: "k < length ?is" "?is ! k = k" using that by simp_all
    show ?thesis using slices_shape [OF k(1) assms(2,3), of req "iclLength req"] unfolding k(2) .
  qed
  have len: "length ?rs = unat (nlp (iclRange req))" by simp
  show ?thesis
    by (rule exI [of _ ?rs], intro conjI allI impI) (rule icl_access_slices len sum shape [THEN conjunct1]
      shape [THEN conjunct2, THEN conjunct1] shape [THEN conjunct2, THEN conjunct2], assumption?)+
qed

lemma request_slices_witness:
  "\<exists>rs :: icl_request list. length rs = 2 \<and> (\<Sum>r\<leftarrow>rs. unat (iclLength r)) = 10 \<and> (\<forall>k<2. slpn (iclRange (rs ! k)) = 1 + of_nat k)"
proof -
  have q: "iclLength (duo_request 3 10 2) = 10" "iclOffset (duo_request 3 10 2) = 3"
    "nlp (iclRange (duo_request 3 10 2)) = 2" "slpn (iclRange (duo_request 3 10 2)) = 1" "pageBytes duo_icl = 8"
    by (simp_all add: duo_request_def duo_icl_def)
  have "unat (10 :: u64) + unat (3 :: u64) \<le> unat (2 :: u64) * 8" "unat (3 :: u64) \<le> 8" "(8 :: nat) < 2 ^ 32"
    by simp_all
  from request_slices [of "duo_request 3 10 2" duo_icl, where 'h = unit, unfolded q, OF this]
  have "\<exists>rs :: icl_request list. length rs = unat (2 :: u64) \<and> (\<Sum>r\<leftarrow>rs. unat (iclLength r)) = unat (10 :: u64) \<and>
    (\<forall>k<length rs. slpn (iclRange (rs ! k)) = 1 + of_nat k)"
    by (elim ex_forward) simp
  then show ?thesis by auto
qed

end
