(* ===== verification/Latency.thy ===== *)
theory Latency
  imports Prelude
begin

text \<open>
  The latency classes of \<^verbatim>\<open>src/pal/old\<close>: how long an operation keeps the bus or a die busy, for each
  kind of flash. The three subclasses of \<open>Latency\<close> are one function over the kind of flash.
\<close>

datatype nand_type = NAND_SLC | NAND_MLC | NAND_TLC

datatype pal_operation = OPER_READ | OPER_WRITE | OPER_ERASE

datatype busy_type = BUSY_DMA0WAIT | BUSY_DMA0 | BUSY_MEM | BUSY_DMA1WAIT | BUSY_DMA1 | BUSY_END

text \<open>\<open>PAGE_LSB\<close>, \<open>PAGE_CSB\<close> and \<open>PAGE_MSB\<close> are the values 0, 1 and 2 of a byte.\<close>

definition PAGE_LSB :: u8 where "PAGE_LSB = 0"
definition PAGE_CSB :: u8 where "PAGE_CSB = 1"
definition PAGE_MSB :: u8 where "PAGE_MSB = 2"

record page_timing =
  tRead :: u64
  tWrite :: u64

record dma_timing =
  dRead :: u64
  dWrite :: u64
  dErase :: u64

record nand_timing =
  tmLsb :: page_timing
  tmCsb :: page_timing
  tmMsb :: page_timing
  tmDma0 :: dma_timing
  tmDma1 :: dma_timing
  tmErase :: u64

record nand_power =
  pwVoltage :: u64
  pwRead :: u64
  pwProgram :: u64
  pwErase :: u64
  pwBusIdle :: u64
  pwStandby :: u64

section \<open>Page types\<close>

definition LatencySLC_GetPageType :: "u32 \<Rightarrow> u8" where
  "LatencySLC_GetPageType page = PAGE_LSB"

definition LatencyMLC_GetPageType :: "u32 \<Rightarrow> u8" where
  "LatencyMLC_GetPageType page = ucast (page mod 2)"

definition LatencyTLC_GetPageType :: "u32 \<Rightarrow> u8" where
  "LatencyTLC_GetPageType page =
     (if page \<le> 5 then PAGE_LSB else if page \<le> 7 then PAGE_CSB
      else ucast (drop_bit 1 (page - 8) mod 3))"

section \<open>Latencies\<close>

definition dma_latency :: "dma_timing \<Rightarrow> pal_operation \<Rightarrow> u64" where
  "dma_latency t oper =
     (case oper of OPER_READ \<Rightarrow> dRead t | OPER_WRITE \<Rightarrow> dWrite t | OPER_ERASE \<Rightarrow> dErase t)"

definition page_latency :: "page_timing \<Rightarrow> pal_operation \<Rightarrow> u64" where
  "page_latency t oper = (if oper = OPER_READ then tRead t else tWrite t)"

definition LatencySLC_GetLatency :: "nand_timing \<Rightarrow> u32 \<Rightarrow> pal_operation \<Rightarrow> busy_type \<Rightarrow> u64" where
  "LatencySLC_GetLatency t page oper b =
     (case b of
        BUSY_DMA0 \<Rightarrow> dma_latency (tmDma0 t) oper
      | BUSY_DMA1 \<Rightarrow> dma_latency (tmDma1 t) oper
      | BUSY_MEM \<Rightarrow>
          (case oper of OPER_READ \<Rightarrow> tRead (tmLsb t) | OPER_WRITE \<Rightarrow> tWrite (tmLsb t) | OPER_ERASE \<Rightarrow> tmErase t)
      | _ \<Rightarrow> 10)"

definition LatencyMLC_GetLatency :: "nand_timing \<Rightarrow> u32 \<Rightarrow> pal_operation \<Rightarrow> busy_type \<Rightarrow> u64" where
  "LatencyMLC_GetLatency t page oper b =
     (case b of
        BUSY_DMA0 \<Rightarrow> dma_latency (tmDma0 t) oper
      | BUSY_DMA1 \<Rightarrow> dma_latency (tmDma1 t) oper
      | BUSY_MEM \<Rightarrow>
          (if oper = OPER_ERASE then tmErase t
           else page_latency (if LatencyMLC_GetPageType page = PAGE_LSB then tmLsb t else tmMsb t) oper)
      | _ \<Rightarrow> 10)"

definition LatencyTLC_GetLatency :: "nand_timing \<Rightarrow> u32 \<Rightarrow> pal_operation \<Rightarrow> busy_type \<Rightarrow> u64" where
  "LatencyTLC_GetLatency t page oper b =
     (case b of
        BUSY_DMA0 \<Rightarrow> dma_latency (tmDma0 t) oper
      | BUSY_DMA1 \<Rightarrow> dma_latency (tmDma1 t) oper
      | BUSY_MEM \<Rightarrow>
          (if oper = OPER_ERASE then tmErase t
           else
             (let pType = LatencyTLC_GetPageType page in
              page_latency (if pType = PAGE_LSB then tmLsb t else if pType = PAGE_CSB then tmCsb t else tmMsb t) oper))
      | _ \<Rightarrow> 10)"

definition GetLatency :: "nand_type \<Rightarrow> nand_timing \<Rightarrow> u32 \<Rightarrow> pal_operation \<Rightarrow> busy_type \<Rightarrow> u64" where
  "GetLatency nand t page oper b =
     (case nand of
        NAND_SLC \<Rightarrow> LatencySLC_GetLatency t page oper b
      | NAND_MLC \<Rightarrow> LatencyMLC_GetLatency t page oper b
      | NAND_TLC \<Rightarrow> LatencyTLC_GetLatency t page oper b)"

text \<open>Millivolt times microampere is nanowatt.\<close>

definition GetPower :: "nand_power \<Rightarrow> pal_operation \<Rightarrow> busy_type \<Rightarrow> u64" where
  "GetPower p oper b =
     (case b of
        BUSY_DMA0 \<Rightarrow> pwVoltage p * pwBusIdle p
      | BUSY_DMA1 \<Rightarrow> pwVoltage p * pwBusIdle p
      | BUSY_MEM \<Rightarrow>
          pwVoltage p * (case oper of OPER_READ \<Rightarrow> pwRead p | OPER_WRITE \<Rightarrow> pwProgram p | OPER_ERASE \<Rightarrow> pwErase p)
      | _ \<Rightarrow> pwVoltage p * pwStandby p)"

section \<open>Properties\<close>

text \<open>On a flash whose pages are all alike the kinds agree.\<close>

lemma GetLatency_uniform:
  assumes "tmCsb t = tmLsb t" and "tmMsb t = tmLsb t"
  shows "GetLatency nand t page oper b = GetLatency NAND_SLC t page oper b"
  using assms
  by (cases nand; cases b; cases oper)
    (simp_all add: GetLatency_def LatencySLC_GetLatency_def LatencyMLC_GetLatency_def LatencyTLC_GetLatency_def
      page_latency_def Let_def)

end
