(* ===== verification/Pal2.thy ===== *)
theory Pal2
  imports Latency Pal
begin

text \<open>
  The scheduler of the flash, \<^verbatim>\<open>src/pal/old/PAL2.cc\<close>: for every channel and every die a store of
  free intervals, sorted by size class and start, and the point from which on everything is free. A
  command occupies its channel twice (command and data transfer) and its die in between.

  A \<open>std::map\<close> is the list of its entries in the order of the keys. Ticks are 64-bit words, so sums
  wrap. A failed \<open>assert\<close> stops the program.
\<close>

section \<open>Sorted maps\<close>

text \<open>\<open>insert\<close> keeps an entry that is there; \<open>operator[]\<close> followed by an assignment replaces it.\<close>

fun sm_insert :: "u64 \<Rightarrow> 'v \<Rightarrow> (u64 \<times> 'v) list \<Rightarrow> (u64 \<times> 'v) list" where
  "sm_insert k v [] = [(k, v)]"
| "sm_insert k v ((k', v') # m) =
     (if k < k' then (k, v) # (k', v') # m else if k = k' then (k', v') # m else (k', v') # sm_insert k v m)"

fun sm_put :: "u64 \<Rightarrow> 'v \<Rightarrow> (u64 \<times> 'v) list \<Rightarrow> (u64 \<times> 'v) list" where
  "sm_put k v [] = [(k, v)]"
| "sm_put k v ((k', v') # m) =
     (if k < k' then (k, v) # (k', v') # m else if k = k' then (k, v) # m else (k', v') # sm_put k v m)"

definition sm_erase :: "u64 \<Rightarrow> (u64 \<times> 'v) list \<Rightarrow> (u64 \<times> 'v) list" where
  "sm_erase k m = filter (\<lambda>(k', _). k' \<noteq> k) m"

text \<open>The entries before and from \<open>upper_bound(t)\<close> on.\<close>

definition sm_upto :: "u64 \<Rightarrow> (u64 \<times> 'v) list \<Rightarrow> (u64 \<times> 'v) list" where
  "sm_upto t m = takeWhile (\<lambda>(k, _). k \<le> t) m"

definition sm_above :: "u64 \<Rightarrow> (u64 \<times> 'v) list \<Rightarrow> (u64 \<times> 'v) list" where
  "sm_above t m = dropWhile (\<lambda>(k, _). k \<le> t) m"

section \<open>Free intervals\<close>

text \<open>An interval is its first and last tick. A class holds the intervals it is responsible for.\<close>

type_synonym interval = "u64 \<times> u64"
type_synonym slots = "(u64 \<times> interval list) list"

definition AddFreeSlot :: "slots \<Rightarrow> u64 \<Rightarrow> u64 \<Rightarrow> slots" where
  "AddFreeSlot tgt tickLen tickFrom =
     (let lo = sm_upto tickLen tgt; hi = sm_above tickLen tgt in
      if lo = [] then tgt
      else butlast lo @ [(fst (last lo), sm_insert tickFrom (tickFrom + tickLen - 1) (snd (last lo)))] @ hi)"

text \<open>
  Within a class: the interval that starts at or before \<open>tickFrom\<close>, when the rest of it is long
  enough (\<open>True\<close>), else the first later one that is.
\<close>

definition class_fit :: "u64 \<Rightarrow> u64 \<Rightarrow> interval list \<Rightarrow> (bool \<times> u64) option" where
  "class_fit tickLen tickFrom m =
     (let lo = sm_upto tickFrom m; hi = sm_above tickFrom m in
      if lo \<noteq> [] \<and> tickLen + tickFrom - 1 \<le> snd (last lo) then Some (True, fst (last lo))
      else map_option (\<lambda>(s, _). (False, s)) (find (\<lambda>(s, e). tickLen + s - 1 \<le> e) hi))"

text \<open>The smallest later start over the classes, all ones standing for none.\<close>

fun fit_over :: "u64 \<Rightarrow> u64 \<Rightarrow> slots \<Rightarrow> u64 \<Rightarrow> (u64 \<times> bool) option" where
  "fit_over tickLen tickFrom [] minTick = (if minTick = - 1 then None else Some (minTick, True))"
| "fit_over tickLen tickFrom ((_, m) # cs) minTick =
     (case class_fit tickLen tickFrom m of
        Some (True, s) \<Rightarrow> Some (s, False)
      | Some (False, s) \<Rightarrow> fit_over tickLen tickFrom cs (if minTick = - 1 \<or> s < minTick then s else minTick)
      | None \<Rightarrow> fit_over tickLen tickFrom cs minTick)"

text \<open>\<open>Some (start, conflicts)\<close> when a free interval is found. An empty store is not expected.\<close>

definition FindFreeTime :: "slots \<Rightarrow> u64 \<Rightarrow> u64 \<Rightarrow> (u64 \<times> bool) option res" where
  "FindFreeTime tgt tickLen tickFrom =
     (let lo = sm_upto tickLen tgt; hi = sm_above tickLen tgt in
      if hi = [] then
        (if lo = [] then Inl (Undefined ''decrement of begin'')
         else Inr (map_option (\<lambda>(exact, s). (s, \<not> exact)) (class_fit tickLen tickFrom (snd (last lo)))))
      else Inr (fit_over tickLen tickFrom ((if lo = [] then [] else [last lo]) @ hi) (- 1)))"

text \<open>The class, from that of \<open>tickLen\<close> on, that holds an interval starting at \<open>startTick\<close>; it is removed.\<close>

fun take_slot :: "u64 \<Rightarrow> slots \<Rightarrow> (u64 \<times> slots) option" where
  "take_slot startTick [] = None"
| "take_slot startTick ((k, m) # cs) =
     (case map_of m startTick of
        Some e \<Rightarrow> Some (e, (k, sm_erase startTick m) # cs)
      | None \<Rightarrow> map_option (\<lambda>(e, cs). (e, (k, m) # cs)) (take_slot startTick cs))"

definition InsertFreeSlot :: "slots \<Rightarrow> u64 \<Rightarrow> u64 \<Rightarrow> u64 \<Rightarrow> u64 \<Rightarrow> bool \<Rightarrow> (slots \<times> u64) res" where
  "InsertFreeSlot tgt tickLen tickFrom startTick startPoint split =
     (if startTick = startPoint then
        if tickFrom = startTick then
          Inr (if split then AddFreeSlot tgt tickLen startPoint else tgt, startPoint + tickLen)
        else if \<not> startTick < tickFrom then Inl (Panic ''assert'')
        else
          Inr (AddFreeSlot (if split then AddFreeSlot tgt tickLen tickFrom else tgt) (tickFrom - startTick) startTick,
               tickFrom + tickLen)
      else
        let lo = sm_upto tickLen tgt; hi = sm_above tickLen tgt;
            before = butlast lo; from = (if lo = [] then [] else [last lo]) @ hi
        in
        case take_slot startTick from of
          None \<Rightarrow> Inr (tgt, startPoint)
        | Some (tmpEnd, from') \<Rightarrow>
            let tgt = before @ from' in
            if startTick < tickFrom then
              (let tgt = AddFreeSlot tgt (tickFrom - startTick) startTick;
                   tgt = (if split then AddFreeSlot tgt tickLen tickFrom else tgt)
               in if tmpEnd - tickFrom + 1 < tickLen then Inl (Panic ''assert'')
                  else Inr (if tickLen + tickFrom - 1 < tmpEnd
                            then AddFreeSlot tgt (tmpEnd - (tickFrom + tickLen - 1)) (tickFrom + tickLen)
                            else tgt, startPoint))
            else if startTick \<noteq> tickFrom then Inl (Panic ''assert'')
            else if tmpEnd - tickFrom + 1 < tickLen then Inl (Panic ''assert'')
            else
              (let tgt = (if split then AddFreeSlot tgt tickLen startTick else tgt)
               in Inr (if tickLen + tickFrom - 1 < tmpEnd
                       then AddFreeSlot tgt (tmpEnd - (tickFrom + tickLen - 1)) (startTick + tickLen)
                       else tgt, startPoint)))"

definition FlushAFreeSlot :: "slots \<Rightarrow> u64 \<Rightarrow> slots" where
  "FlushAFreeSlot tgt currentTick = map (\<lambda>(k, m). (k, dropWhile (\<lambda>(_, e). e < currentTick) m)) tgt"

section \<open>Busy time\<close>

text \<open>\<open>TimeSlot\<close> by start and duration.\<close>

definition TimeSlot :: "u64 \<Rightarrow> u64 \<Rightarrow> interval" where
  "TimeSlot startTick duration = (startTick, startTick + duration - 1)"

definition FlushATimeSlotBusyTime :: "interval list \<Rightarrow> u64 \<Rightarrow> u64 \<Rightarrow> interval list \<times> u64" where
  "FlushATimeSlotBusyTime tgt currentTick timeSum =
     (dropWhile (\<lambda>(_, e). e < currentTick) tgt,
      timeSum + (\<Sum>(s, e)\<leftarrow>takeWhile (\<lambda>(_, e). e < currentTick) tgt. e - s + 1))"

text \<open>One operation kind of \<open>FlushOpTimeStamp\<close>: all entries are consumed.\<close>

fun op_busy :: "(u64 \<times> u64) list \<Rightarrow> u64 \<Rightarrow> u64 \<Rightarrow> u64 \<Rightarrow> u64" where
  "op_busy [] st en busy = busy + (en - st + 1)"
| "op_busy ((s, e) # m) st en busy =
     (if st = - 1 \<and> en = - 1 then op_busy m s e busy
      else if s < en \<and> e \<le> en then op_busy m st en busy
      else if s < en \<and> en < e then op_busy m st e busy
      else op_busy m s e (busy + (en - st + 1)))"

text \<open>
  \<open>MergedTimeSlots\<close>: the position of a tick is the interval that holds it (\<open>False\<close>) or the one to
  the left of it (\<open>True\<close>); a tick before the first interval counts as right of the first.
\<close>

fun slot_pos :: "interval list \<Rightarrow> nat \<Rightarrow> u64 \<Rightarrow> (nat \<times> bool) option" where
  "slot_pos [] i x = None"
| "slot_pos ((s, e) # m) i x =
     (if s \<le> x \<and> x \<le> e then Some (i, False)
      else if m = [] \<or> x < fst (hd m) then Some (i, True)
      else slot_pos m (Suc i) x)"

text \<open>Set the end of entry \<open>i\<close>, then remove the entries after it up to and including \<open>j\<close>.\<close>

definition merge_upto :: "interval list \<Rightarrow> nat \<Rightarrow> nat \<Rightarrow> u64 \<Rightarrow> interval list" where
  "merge_upto m i j e = take i m @ [(fst (m ! i), e)] @ drop (Suc j) m"

definition MergeTimeSlot :: "interval list \<Rightarrow> interval \<Rightarrow> interval list res" where
  "MergeTimeSlot m ts =
     (case (slot_pos m 0 (fst ts), slot_pos m 0 (snd ts)) of
        (Some (si, sr), Some (ei, er)) \<Rightarrow>
          if si = ei \<and> \<not> sr \<and> \<not> er then Inr m
          else if sr then
            (let m' = take (Suc si) m @ [ts] @ drop (Suc si) m;
                 ej = (if ei = si then Suc si else if ei < si then ei else Suc ei);
                 e = (if er then snd ts else snd (m' ! ej))
             in if ej < si then Inl (Undefined ''erase of end iterator'') else Inr (merge_upto m' si ej e))
          else
            (let e = (if er then snd ts else snd (m ! ei))
             in Inr (merge_upto ((fst ts, fst ts + 999 - 1) # m) 0 (Suc ei) e))
      | _ \<Rightarrow> Inr [ts])"

section \<open>State\<close>

record pal2_param =
  p2Chan :: nat
  p2Dies :: nat
  rearranged :: "nat list"

text \<open>
  Of the statistics the busy times are kept, which the scheduler updates itself; the tables of
  \<open>PALStatistics::AddLatency\<close> are not.
\<close>

record pal2 =
  chSlots :: "slots list"
  chStart :: "u64 list"
  dieSlots :: "slots list"
  dieStart :: "u64 list"
  mergedSlots :: "interval list"
  opStamps :: "(u64 \<times> u64) list list"
  exactBusy :: u64
  opBusy :: "u64 list"
  lastTick :: u64

text \<open>\<open>CPDPBPtoDieIdx\<close> and the totals are computed in 32 bits.\<close>

definition CPDPBPtoDieIdx :: "pal_param \<Rightarrow> cpdpbp \<Rightarrow> nat" where
  "CPDPBPtoDieIdx p a =
     (aDie a + aPackage a * pDie p + aChannel a * pDie p * pPackage p) mod 2 ^ 32"

text \<open>The size classes of the stores; \<open>sp\<close> and \<open>pg\<close> are the speed and page size divisors.\<close>

definition chClasses :: "nat \<Rightarrow> nat \<Rightarrow> nat list" where
  "chClasses sp pg =
     [100000 div sp, 100000 div sp + 100000 div sp, 185000000 div (pg * sp mod 2 ^ 32),
      185000000 div (pg * sp mod 2 ^ 32) + 100000 div sp, 1500000 div sp]"

definition dieClasses :: "nand_type \<Rightarrow> nat \<Rightarrow> nat list" where
  "dieClasses nand sp =
     map (\<lambda>t. t + 100000 div sp)
       (case nand of
          NAND_SLC \<Rightarrow> [25000000, 300000000, 2000000000]
        | NAND_MLC \<Rightarrow> [40000000, 90000000, 500000000, 1300000000, 3500000000]
        | NAND_TLC \<Rightarrow> [58000000, 78000000, 107000000, 558000000, 2201000000, 5001000000, 2274000000])"

definition empty_classes :: "nat list \<Rightarrow> slots" where
  "empty_classes ks = fold (\<lambda>k. sm_put (of_nat k) []) ks []"

definition PAL2_new :: "nand_type \<Rightarrow> nat \<Rightarrow> nat \<Rightarrow> bool \<Rightarrow> pal_param \<Rightarrow> (pal2_param \<times> pal2) res" where
  "PAL2_new nand dmaSpeed pageSize multiPlane p =
     (if pageSize = 0 then Inl (Undefined ''division by zero'')
      else
        let sp = dmaSpeed div 50 mod 2 ^ 32; pg = 16384 div pageSize in
        if sp = 0 \<or> pg = 0 then Inl (Panic ''SPDIV or PGDIV is 0'')
        else if pg * sp mod 2 ^ 32 = 0 then Inl (Undefined ''division by zero'')
        else
          let dies = pChannel p * pPackage p * pDie p mod 2 ^ 32 in
          Inr (\<lparr>p2Chan = pChannel p, p2Dies = dies,
                 rearranged = [pPage p, pBlock p, if multiPlane then 1 else pPlane p, pDie p, pPackage p,
                               pChannel p, 0]\<rparr>,
               \<lparr>chSlots = replicate (pChannel p) (empty_classes (chClasses sp pg)),
                chStart = replicate (pChannel p) 0,
                dieSlots = replicate dies (empty_classes (dieClasses nand sp)),
                dieStart = replicate dies 0,
                mergedSlots = [], opStamps = [[], [], []], exactBusy = 0, opBusy = [0, 0, 0], lastTick = 0\<rparr>))"

section \<open>Page numbers\<close>

text \<open>
  \<open>AddrRemap\<close> orders page, block, plane, die, package, channel; the constructor leaves no remaining
  bits, so \<open>RearrangedSizes[6]\<close> is zero. The products of sizes hold 32 bits, and so do the terms of
  the sum.
\<close>

definition prod32 :: "nat list \<Rightarrow> nat" where
  "prod32 ns = prod_list ns mod 2 ^ 32"

definition AssemblePPN :: "pal2_param \<Rightarrow> cpdpbp \<Rightarrow> nat" where
  "AssemblePPN q a =
     (let rs = rearranged q in
      (aChannel a + u32mul (aPackage a) (rs ! 5) + u32mul (aDie a) (prod32 [rs ! 5, rs ! 4]) +
       u32mul (aPlane a) (prod32 [rs ! 5, rs ! 4, rs ! 3]) +
       u32mul (aBlock a) (prod32 [rs ! 5, rs ! 4, rs ! 3, rs ! 2]) +
       u32mul (aPage a) (prod32 [rs ! 5, rs ! 4, rs ! 3, rs ! 2, rs ! 1])) mod 2 ^ 64)"

definition PPNdisassemble :: "pal2_param \<Rightarrow> nat \<Rightarrow> cpdpbp res" where
  "PPNdisassemble q ppn =
     (let rs = rearranged q;
          m1 = prod32 [rs ! 5, rs ! 4, rs ! 3, rs ! 2, rs ! 1]; m2 = prod32 [rs ! 5, rs ! 4, rs ! 3, rs ! 2];
          m3 = prod32 [rs ! 5, rs ! 4, rs ! 3]; m4 = prod32 [rs ! 5, rs ! 4]; m5 = rs ! 5
      in if 0 \<in> {m1, m2, m3, m4, m5} then Inl (Undefined ''division by zero'')
         else Inr \<lparr>aChannel = ppn mod m1 mod m2 mod m3 mod m4 mod m5 mod 2 ^ 32,
                   aPackage = ppn mod m1 mod m2 mod m3 mod m4 div m5 mod 2 ^ 32,
                   aDie = ppn mod m1 mod m2 mod m3 div m4 mod 2 ^ 32,
                   aPlane = ppn mod m1 mod m2 div m3 mod 2 ^ 32,
                   aBlock = ppn mod m1 div m2 mod 2 ^ 32,
                   aPage = ppn div m1 mod 2 ^ 32\<rparr>)"

section \<open>Scheduling\<close>

record pal_command =
  cmdArrived :: tick
  cmdFinished :: tick
  cmdPpn :: u64
  cmdOper :: pal_operation
  cmdMerge :: bool
  cmdSize :: u64

definition Command_new :: "tick \<Rightarrow> u64 \<Rightarrow> pal_operation \<Rightarrow> u64 \<Rightarrow> pal_command" where
  "Command_new t a op sz = \<lparr>cmdArrived = t, cmdFinished = 0, cmdPpn = a, cmdOper = op, cmdMerge = False, cmdSize = sz\<rparr>"

definition getLatency :: "pal_command \<Rightarrow> u64" where
  "getLatency c = (if 0 < cmdFinished c then cmdFinished c - cmdArrived c else 0)"

definition CONFLICT_DMA0 :: u8 where "CONFLICT_DMA0 = 1"
definition CONFLICT_MEM :: u8 where "CONFLICT_MEM = 2"
definition CONFLICT_DMA1 :: u8 where "CONFLICT_DMA1 = 4"

text \<open>
  Find a free interval, or fall back on the start point: the tick to begin at, the tick the free
  interval begins at, and whether the command has to wait.
\<close>

definition find_or_start :: "slots \<Rightarrow> u64 \<Rightarrow> u64 \<Rightarrow> u64 \<Rightarrow> (u64 \<times> u64 \<times> bool) res" where
  "find_or_start tgt startPoint tickLen from =
     ebind (FindFreeTime tgt tickLen from) (\<lambda>r.
     Inr (case r of
            None \<Rightarrow> if from < startPoint then (startPoint, startPoint, True) else (from, startPoint, False)
          | Some (t, c) \<Rightarrow> (if c then t else from, t, c)))"

text \<open>The start of a free interval, to verify a choice.\<close>

definition verify_start :: "slots \<Rightarrow> u64 \<Rightarrow> u64 \<Rightarrow> u64 \<Rightarrow> (u64 \<times> bool) res" where
  "verify_start tgt startPoint tickLen from =
     ebind (FindFreeTime tgt tickLen from) (\<lambda>r.
     Inr (case r of None \<Rightarrow> (startPoint, False) | Some tc \<Rightarrow> tc))"

definition note_conflict :: "bool \<Rightarrow> u8 \<Rightarrow> u8 \<Rightarrow> u8 \<Rightarrow> u8" where
  "note_conflict c other this conf = (if c \<and> conf AND other = 0 then conf OR this else conf)"

text \<open>\<open>LOOP1\<close>: a start at which the channel and the die are both free. \<open>None\<close> when the fuel is used up.\<close>

fun loop1 ::
  "nat \<Rightarrow> slots \<Rightarrow> u64 \<Rightarrow> slots \<Rightarrow> u64 \<Rightarrow> u64 \<Rightarrow> u64 \<Rightarrow> u64 \<Rightarrow> u8 \<Rightarrow> (u64 \<times> u64 \<times> u64 \<times> u8) res option" where
  "loop1 fuel ch cs die ds latDMA0 latMEM from conf =
     (case find_or_start ch cs latDMA0 from of
        Inl e \<Rightarrow> Some (Inl e)
      | Inr (from, tickDMA0, c) \<Rightarrow>
          let conf = note_conflict c CONFLICT_MEM CONFLICT_DMA0 conf in
          (case find_or_start die ds (latDMA0 + latMEM) from of
             Inl e \<Rightarrow> Some (Inl e)
           | Inr (mfrom, tickMEM, _) \<Rightarrow>
               if tickMEM = tickDMA0 then Some (Inr (from, tickDMA0, tickMEM, conf))
               else
                 (case verify_start ch cs latDMA0 mfrom of
                    Inl e \<Rightarrow> Some (Inl e)
                  | Inr (v, c) \<Rightarrow>
                      if v = tickDMA0 then Some (Inr (mfrom, tickDMA0, tickMEM, conf))
                      else
                        (case fuel of
                           0 \<Rightarrow> None
                         | Suc fuel' \<Rightarrow> loop1 fuel' ch cs die ds latDMA0 latMEM mfrom
                             (note_conflict c CONFLICT_DMA0 CONFLICT_MEM conf)))))"

declare loop1.simps [simp del]

record placement =
  plFrom0 :: u64
  plTick0 :: u64
  plTickMem :: u64
  plFrom1 :: u64
  plTick1 :: u64
  plTotal :: u64
  plConf :: u8

text \<open>\<open>LOOP0\<close>: the data transfer too, and the die free from the command to the end of the transfer.\<close>

fun loop0 ::
  "nat \<Rightarrow> slots \<Rightarrow> u64 \<Rightarrow> slots \<Rightarrow> u64 \<Rightarrow> u64 \<Rightarrow> u64 \<Rightarrow> u64 \<Rightarrow> u64 \<Rightarrow> u64 \<Rightarrow> u8 \<Rightarrow> placement res option" where
  "loop0 fuel ch cs die ds latDMA0 latMEM latDMA1 latANTI from conf =
     (case loop1 fuel ch cs die ds latDMA0 latMEM from conf of
        None \<Rightarrow> None
      | Some (Inl e) \<Rightarrow> Some (Inl e)
      | Some (Inr (from, tickDMA0, tickMEM, conf)) \<Rightarrow>
          (case find_or_start ch cs (latDMA1 + latANTI) (from + (latDMA0 + latMEM)) of
             Inl e \<Rightarrow> Some (Inl e)
           | Inr (from1, tickDMA1, _) \<Rightarrow>
               let total = (from1 + latDMA1 + latANTI) - from in
               (case verify_start die ds total from of
                  Inl e \<Rightarrow> Some (Inl e)
                | Inr (v, _) \<Rightarrow>
                    if v = tickMEM then
                      Some (Inr \<lparr>plFrom0 = from, plTick0 = tickDMA0, plTickMem = tickMEM, plFrom1 = from1,
                                 plTick1 = tickDMA1, plTotal = total, plConf = conf\<rparr>)
                    else
                      (case fuel of
                         0 \<Rightarrow> None
                       | Suc fuel' \<Rightarrow> loop0 fuel' ch cs die ds latDMA0 latMEM latDMA1 latANTI v
                           (conf OR CONFLICT_DMA1)))))"

declare loop0.simps [simp del]

text \<open>
  The bookings: command, data transfer, die, and the piece of the channel after the command that is
  kept as a free interval of its own. The result also has the intervals used.
\<close>

record booking =
  bkCh :: slots
  bkCs :: u64
  bkDie :: slots
  bkDs :: u64
  tsDMA0 :: interval
  tsMEM :: interval
  tsDMA1 :: interval

definition book_all ::
  "slots \<Rightarrow> u64 \<Rightarrow> slots \<Rightarrow> u64 \<Rightarrow> u64 \<Rightarrow> u64 \<Rightarrow> u64 \<Rightarrow> placement \<Rightarrow> booking res" where
  "book_all ch cs die ds latDMA0 latDMA1 latANTI pl =
     (let from0 = plFrom0 pl; tick0 = plTick0 pl; tickMEM = plTickMem pl; total = plTotal pl in
      ebind (InsertFreeSlot ch latDMA0 from0 tick0 cs False) (\<lambda>(ch, cs).
      ebind (find_or_start ch cs (latDMA1 + latANTI) (plFrom1 pl)) (\<lambda>(from1, tick1, _).
      ebind (InsertFreeSlot ch latDMA1 (if tick1 < from1 then from1 + latANTI else tick1 + latANTI)
               tick1 cs False) (\<lambda>(ch, cs).
      ebind (InsertFreeSlot die total from0 tickMEM ds False) (\<lambda>(die, ds).
      let ts0 = TimeSlot (if from0 < tick0 then tick0 else from0) latDMA0;
          ts1 = TimeSlot (if from1 < tick1 then tick1 + latANTI else from1 + latANTI) latDMA1;
          tsm = TimeSlot (if from0 < tickMEM then tickMEM else from0) total;
          next = (if tick0 < from0 then from0 + latDMA0 else tick0 + latDMA0)
      in ebind (find_or_start ch cs (latANTI * 2) next) (\<lambda>(next', tick0, _).
         ebind (if next' = next then InsertFreeSlot ch (latANTI * 2) next' tick0 cs True else Inr (ch, cs))
           (\<lambda>(ch, cs).
         Inr \<lparr>bkCh = ch, bkCs = cs, bkDie = die, bkDs = ds, tsDMA0 = ts0, tsMEM = tsm, tsDMA1 = ts1\<rparr>)))))))"

text \<open>\<open>OpTimeStamp\<close> takes the command in and is then flushed, for all three kinds of operation.\<close>

fun oper_index :: "pal_operation \<Rightarrow> nat" where
  "oper_index OPER_READ = 0"
| "oper_index OPER_WRITE = 1"
| "oper_index OPER_ERASE = 2"

definition note_operation :: "pal_operation \<Rightarrow> interval \<Rightarrow> interval \<Rightarrow> pal2 \<Rightarrow> pal2" where
  "note_operation op ts0 ts1 s =
     (let m = opStamps s ! oper_index op;
          m' = (case map_of m (fst ts0) of
                  Some e \<Rightarrow> if e < snd ts1 then sm_put (fst ts0) (snd ts1) m else m
                | None \<Rightarrow> sm_put (fst ts0) (snd ts1) m)
      in s\<lparr>opStamps := (opStamps s)[oper_index op := m']\<rparr>)"

definition FlushOpTimeStamp :: "pal2 \<Rightarrow> pal2" where
  "FlushOpTimeStamp s =
     s\<lparr>opBusy := map2 (\<lambda>m b. op_busy m (- 1) (- 1) b) (opStamps s) (opBusy s),
       opStamps := map (\<lambda>_. []) (opStamps s)\<rparr>"

definition UpdateLastTick :: "u64 \<Rightarrow> pal2 \<Rightarrow> pal2" where
  "UpdateLastTick t s = (if lastTick s < t then s\<lparr>lastTick := t\<rparr> else s)"

text \<open>The intervals a command gets, with the kinds of conflict it met.\<close>

definition schedule_booking ::
  "(u32 \<Rightarrow> pal_operation \<Rightarrow> busy_type \<Rightarrow> u64) \<Rightarrow> pal_param \<Rightarrow> nat \<Rightarrow> pal_command \<Rightarrow> cpdpbp \<Rightarrow> pal2 \<Rightarrow>
     (booking \<times> u8) res option" where
  "schedule_booking lat p fuel req a s =
     (let c = aChannel a; d = CPDPBPtoDieIdx p a; page = of_nat (aPage a);
          latDMA0 = lat page (cmdOper req) BUSY_DMA0; latMEM = lat page (cmdOper req) BUSY_MEM;
          latDMA1 = lat page (cmdOper req) BUSY_DMA1; latANTI = lat page OPER_READ BUSY_DMA0
      in if length (chSlots s) \<le> c \<or> length (chStart s) \<le> c \<or> length (dieSlots s) \<le> d \<or> length (dieStart s) \<le> d
         then Some (Inl (Undefined ''array index''))
         else
           map_option (\<lambda>r. ebind r (\<lambda>pl.
               ebind (book_all (chSlots s ! c) (chStart s ! c) (dieSlots s ! d) (dieStart s ! d)
                        latDMA0 latDMA1 latANTI pl) (\<lambda>b. Inr (b, plConf pl))))
             (loop0 fuel (chSlots s ! c) (chStart s ! c) (dieSlots s ! d) (dieStart s ! d)
                latDMA0 latMEM latDMA1 latANTI (cmdArrived req) 0))"

definition commit_booking :: "pal_param \<Rightarrow> cpdpbp \<Rightarrow> booking \<Rightarrow> pal2 \<Rightarrow> pal2" where
  "commit_booking p a b s =
     (let c = aChannel a; d = CPDPBPtoDieIdx p a in
      s\<lparr>chSlots := (chSlots s)[c := bkCh b], chStart := (chStart s)[c := bkCs b],
        dieSlots := (dieSlots s)[d := bkDie b], dieStart := (dieStart s)[d := bkDs b]\<rparr>)"

definition TimelineScheduling ::
  "(u32 \<Rightarrow> pal_operation \<Rightarrow> busy_type \<Rightarrow> u64) \<Rightarrow> pal_param \<Rightarrow> nat \<Rightarrow> pal_command \<Rightarrow> cpdpbp \<Rightarrow> pal2 \<Rightarrow>
     (pal_command \<times> pal2 \<times> u8) res option" where
  "TimelineScheduling lat p fuel req a s =
     map_option (\<lambda>r. ebind r (\<lambda>(b, conf).
         ebind (MergeTimeSlot (mergedSlots s) (tsMEM b)) (\<lambda>m.
         let s = FlushOpTimeStamp (note_operation (cmdOper req) (tsDMA0 b) (tsDMA1 b)
                   ((commit_booking p a b s)\<lparr>mergedSlots := m\<rparr>))
         in Inr (req\<lparr>cmdFinished := snd (tsDMA1 b)\<rparr>, UpdateLastTick (snd (tsDMA1 b)) s, conf))))
       (schedule_booking lat p fuel req a s)"

definition submit ::
  "(u32 \<Rightarrow> pal_operation \<Rightarrow> busy_type \<Rightarrow> u64) \<Rightarrow> pal_param \<Rightarrow> nat \<Rightarrow> pal_command \<Rightarrow> cpdpbp \<Rightarrow> pal2 \<Rightarrow>
     (pal_command \<times> pal2) res option" where
  "submit lat p fuel req a s =
     map_option (\<lambda>r. ebind r (\<lambda>(req, s, _). Inr (req, s))) (TimelineScheduling lat p fuel req a s)"

definition FlushTimeSlots :: "u64 \<Rightarrow> pal2 \<Rightarrow> pal2" where
  "FlushTimeSlots t s =
     (case FlushATimeSlotBusyTime (mergedSlots s) t (exactBusy s) of
        (m, b) \<Rightarrow> s\<lparr>mergedSlots := m, exactBusy := b\<rparr>)"

definition FlushFreeSlots :: "u64 \<Rightarrow> pal2 \<Rightarrow> pal2" where
  "FlushFreeSlots t s =
     FlushTimeSlots t (s\<lparr>chSlots := map (\<lambda>m. FlushAFreeSlot m t) (chSlots s),
                         dieSlots := map (\<lambda>m. FlushAFreeSlot m t) (dieSlots s)\<rparr>)"

end
