(* ===== verification/Pal2Slots.thy ===== *)
theory Pal2Slots
  imports Pal2 "HOL-Library.Multiset"
begin

text \<open>
  The free intervals of one channel or die. \<open>store_ok\<close> is the invariant of a store: classes and
  intervals are sorted, no two intervals share a tick, all of them lie before the start point, and
  every interval is in the class its length belongs to. Finding a free interval yields the earliest
  start with enough room; booking takes exactly ticks that were free and never frees one.

  Ticks are natural numbers here, so that the statements say when the 64-bit sums do not wrap.
\<close>

section \<open>Words without wrap-around\<close>

lemma unat_bound: "unat (a :: u64) < 2 ^ 64"
  using unsigned_less [where ?'b = 64 and w = a] by simp

lemma unat_minus: "b \<le> a \<Longrightarrow> unat (a - b) = unat a - unat (b :: u64)"
  by (rule unat_sub)

lemma unat_last:
  fixes l f :: u64
  assumes "0 < l" and "unat l + unat f < 2 ^ 64"
  shows "unat (l + f - 1) = unat l + unat f - 1"
proof -
  have s: "unat (l + f) = unat l + unat f" using assms(2) by (rule unat_plus)
  have pos: "0 < unat l" using assms(1) by (simp add: word_less_nat_alt)
  have "(1 :: u64) \<le> l + f" using s pos by (simp add: word_le_nat_alt)
  from unat_minus [OF this] s show ?thesis by simp
qed

lemma last_le_iff:
  fixes l f e :: u64
  assumes "0 < l" and "unat l + unat f < 2 ^ 64"
  shows "l + f - 1 \<le> e \<longleftrightarrow> unat f + unat l \<le> Suc (unat e)"
  using unat_last [OF assms] assms(1) by (simp add: word_le_nat_alt word_less_nat_alt; linarith)

section \<open>Sorted maps\<close>

lemma sm_insert_mset:
  "k \<notin> fst ` set m \<Longrightarrow> mset (sm_insert k v m) = add_mset (k, v) (mset m)"
  by (induction k v m rule: sm_insert.induct) auto

lemma sm_insert_mset_sub: "mset (sm_insert k v m) \<subseteq># add_mset (k, v) (mset m)"
  by (induction k v m rule: sm_insert.induct)
    (auto simp: subset_mset.add_increasing add_mset_commute intro: mset_subset_eq_multiset_union_diff_commute)

lemma sm_insert_keys: "fst ` set (sm_insert k v m) = insert k (fst ` set m)"
  by (induction k v m rule: sm_insert.induct) auto

lemma sm_insert_sorted:
  "sorted_wrt (<) (map fst m) \<Longrightarrow> sorted_wrt (<) (map fst (sm_insert k v m))"
proof (induction k v m rule: sm_insert.induct)
  case (2 k v k' v' m)
  have "fst ` set (sm_insert k v m) = insert k (fst ` set m)" by (rule sm_insert_keys)
  then have "x \<in> set (sm_insert k v m) \<Longrightarrow> fst x = k \<or> fst x \<in> fst ` set m" for x by blast
  with 2 show ?case by fastforce
qed simp

lemma sm_split: "sm_upto t m @ sm_above t m = m"
  by (simp add: sm_upto_def sm_above_def)

lemma sm_parts:
  assumes "sorted_wrt (<) (map fst m)"
  shows "sorted_wrt (<) (map fst (sm_upto t m))" and "sorted_wrt (<) (map fst (sm_above t m))"
proof -
  have "sorted_wrt (<) (map fst (sm_upto t m @ sm_above t m))" using assms unfolding sm_split .
  then show "sorted_wrt (<) (map fst (sm_upto t m))" and "sorted_wrt (<) (map fst (sm_above t m))"
    unfolding map_append sorted_wrt_append by blast+
qed

lemma sm_upto_le: "x \<in> set (sm_upto t m) \<Longrightarrow> fst x \<le> t"
  by (auto simp: sm_upto_def dest: set_takeWhileD)

lemma sm_above_gt:
  assumes "sorted_wrt (<) (map fst m)" and "x \<in> set (sm_above t m)"
  shows "t < fst x"
  using assms
proof (induction m)
  case (Cons y m)
  then show ?case
    by (cases "fst y \<le> t") (auto simp: sm_above_def split: prod.splits)
qed (simp add: sm_above_def)

lemma sm_upto_iff:
  assumes "sorted_wrt (<) (map fst m)" and "x \<in> set m"
  shows "x \<in> set (sm_upto t m) \<longleftrightarrow> fst x \<le> t"
proof -
  have "x \<in> set (sm_upto t m) \<or> x \<in> set (sm_above t m)" using assms(2) sm_split [of t m] by (metis Un_iff set_append)
  then show ?thesis using sm_upto_le [of x t m] sm_above_gt [OF assms(1), of x t] by fastforce
qed

section \<open>Pairwise disjoint intervals\<close>

definition apart :: "interval \<Rightarrow> interval \<Rightarrow> bool" where
  "apart i j \<longleftrightarrow> snd i < fst j \<or> snd j < fst i"

definition all_apart :: "interval multiset \<Rightarrow> bool" where
  "all_apart M \<longleftrightarrow> (\<forall>i j. {#i, j#} \<subseteq># M \<longrightarrow> apart i j)"

lemma apart_sym: "apart i j \<longleftrightarrow> apart j i"
  by (auto simp: apart_def)

lemma all_apart_sub: "all_apart M \<Longrightarrow> N \<subseteq># M \<Longrightarrow> all_apart N"
  unfolding all_apart_def by (blast intro: subset_mset.order_trans)

lemma all_apart_empty [simp]: "all_apart {#}"
  by (simp add: all_apart_def)

lemma all_apart_add: "all_apart (add_mset i M) \<longleftrightarrow> (\<forall>j\<in>#M. apart i j) \<and> all_apart M"
proof (intro iffI conjI ballI)
  assume A: "all_apart (add_mset i M)"
  show "apart i j" if "j \<in># M" for j
    using A that unfolding all_apart_def by (metis mset_subset_eq_add_mset_cancel mset_subset_eq_single)
  show "all_apart M" using all_apart_sub [OF A] by simp
next
  assume A: "(\<forall>j\<in>#M. apart i j) \<and> all_apart M"
  show "all_apart (add_mset i M)"
    unfolding all_apart_def
  proof (intro allI impI)
    fix a b assume s: "{#a, b#} \<subseteq># add_mset i M"
    consider "a = i" | "b = i" | "a \<noteq> i" "b \<noteq> i" by blast
    then show "apart a b"
    proof cases
      case 1
      with s have "b \<in># M" by simp
      with A 1 show ?thesis by blast
    next
      case 2
      with s have "a \<in># M" by (simp add: add_mset_commute [of a b])
      with A 2 show ?thesis using apart_sym by blast
    next
      case 3
      with s have "{#a, b#} \<subseteq># M" by (simp add: insert_subset_eq_iff)
      with A show ?thesis unfolding all_apart_def by blast
    qed
  qed
qed

lemma all_apart_pair:
  assumes "all_apart M" and "i \<in># M" and "j \<in># M" and "i \<noteq> j"
  shows "apart i j"
proof -
  obtain N where N: "M = add_mset i N" using assms(2) by (rule mset_add)
  with assms(3,4) have "j \<in># N" by simp
  with assms(1) N show ?thesis by (simp add: all_apart_add)
qed

section \<open>The invariant\<close>

definition ivals :: "slots \<Rightarrow> interval multiset" where
  "ivals tgt = mset (concat (map snd tgt))"

definition classed :: "slots \<Rightarrow> bool" where
  "classed tgt \<longleftrightarrow> (\<forall>(k, m)\<in>set tgt. \<forall>(s, e)\<in>set m. \<forall>k'\<in>fst ` set tgt. k' \<le> e - s + 1 \<longrightarrow> k' \<le> k)"

definition in_order :: "slots \<Rightarrow> bool" where
  "in_order tgt \<longleftrightarrow> sorted_wrt (<) (map fst tgt) \<and> (\<forall>(k, m)\<in>set tgt. sorted_wrt (<) (map fst m))"

definition within :: "interval multiset \<Rightarrow> u64 \<Rightarrow> bool" where
  "within M sp \<longleftrightarrow> (\<forall>(s, e)\<in>#M. s \<le> e \<and> e < sp)"

definition store_ok :: "slots \<Rightarrow> u64 \<Rightarrow> bool" where
  "store_ok tgt sp \<longleftrightarrow> tgt \<noteq> [] \<and> in_order tgt \<and> classed tgt \<and> all_apart (ivals tgt) \<and> within (ivals tgt) sp"

text \<open>The ticks a store offers: those of its intervals and everything from the start point on.\<close>

definition ticks :: "interval \<Rightarrow> nat set" where
  "ticks i = {unat (fst i)..unat (snd i)}"

definition free_ticks :: "slots \<Rightarrow> u64 \<Rightarrow> nat set" where
  "free_ticks tgt sp = (\<Union>i\<in>set_mset (ivals tgt). ticks i) \<union> {unat sp..}"

lemma apart_ticks: "s \<le> e \<Longrightarrow> s' \<le> e' \<Longrightarrow> apart (s, e) (s', e') \<longleftrightarrow> ticks (s, e) \<inter> ticks (s', e') = {}"
  by (auto simp: apart_def ticks_def word_less_nat_alt word_le_nat_alt)

lemma ivals_simps [simp]:
  "ivals [] = {#}"
  "ivals (c # cs) = mset (snd c) + ivals cs"
  "ivals (cs @ ds) = ivals cs + ivals ds"
  by (simp_all add: ivals_def)

lemma in_ivals: "i \<in># ivals tgt \<longleftrightarrow> (\<exists>(k, m)\<in>set tgt. i \<in> set m)"
  by (force simp: ivals_def)

lemma within_sub: "within M sp \<Longrightarrow> N \<subseteq># M \<Longrightarrow> within N sp"
  unfolding within_def by (auto dest!: mset_subset_eqD)

lemma within_add: "within (add_mset (s, e) M) sp \<longleftrightarrow> s \<le> e \<and> e < sp \<and> within M sp"
  by (auto simp: within_def)

lemma within_mono: "within M sp \<Longrightarrow> sp \<le> sp' \<Longrightarrow> within M sp'"
  by (fastforce simp: within_def)

section \<open>Adding a free interval\<close>

lemma AddFreeSlot_keys [simp]: "map fst (AddFreeSlot tgt l f) = map fst tgt"
proof (cases "sm_upto l tgt = []")
  case False
  then have "map fst (AddFreeSlot tgt l f) = map fst (butlast (sm_upto l tgt) @ [last (sm_upto l tgt)] @ sm_above l tgt)"
    by (simp add: AddFreeSlot_def Let_def)
  also have "butlast (sm_upto l tgt) @ [last (sm_upto l tgt)] @ sm_above l tgt = tgt"
    using False sm_split [of l tgt] by (metis append.assoc append_butlast_last_id)
  finally show ?thesis .
qed (simp add: AddFreeSlot_def)

lemma AddFreeSlot_eq:
  assumes "sm_upto l tgt \<noteq> []"
  obtains before k m after where "tgt = before @ (k, m) # after" and "k \<le> l"
    and "AddFreeSlot tgt l f = before @ (k, sm_insert f (f + l - 1) m) # after"
    and "after = sm_above l tgt"
proof -
  obtain k m where l: "last (sm_upto l tgt) = (k, m)" by (cases "last (sm_upto l tgt)")
  have "(k, m) \<in> set (sm_upto l tgt)" using assms l last_in_set by metis
  then have "k \<le> l" using sm_upto_le by fastforce
  moreover have "tgt = butlast (sm_upto l tgt) @ (k, m) # sm_above l tgt"
    using assms sm_split [of l tgt] l by (metis append.assoc append_Cons append_Nil append_butlast_last_id)
  moreover have "AddFreeSlot tgt l f = butlast (sm_upto l tgt) @ (k, sm_insert f (f + l - 1) m) # sm_above l tgt"
    using assms l by (simp add: AddFreeSlot_def Let_def)
  ultimately show thesis using that by blast
qed

lemma AddFreeSlot_ivals: "ivals (AddFreeSlot tgt l f) \<subseteq># add_mset (f, f + l - 1) (ivals tgt)"
proof (cases "sm_upto l tgt = []")
  case True
  then show ?thesis by (simp add: AddFreeSlot_def subset_mset.add_increasing)
next
  case False
  obtain before k m after where E: "tgt = before @ (k, m) # after"
    "AddFreeSlot tgt l f = before @ (k, sm_insert f (f + l - 1) m) # after"
    by (rule AddFreeSlot_eq [OF False, of f])
  show ?thesis
    unfolding E(2) unfolding E(1)
    using subset_mset.add_right_mono [OF sm_insert_mset_sub [of f "f + l - 1" m], of "ivals before + ivals after"]
    by (simp add: ac_simps)
qed

lemma in_order_keys: "in_order tgt \<Longrightarrow> x \<in> set tgt \<Longrightarrow> y \<in> set tgt \<Longrightarrow> fst x = fst y \<Longrightarrow> x = y"
  unfolding in_order_def using strict_sorted_iff [of "map fst tgt"]
  by (metis distinct_map inj_onD)

lemma AddFreeSlot_in_order: "in_order tgt \<Longrightarrow> in_order (AddFreeSlot tgt l f)"
proof (cases "sm_upto l tgt = []")
  case True
  then show "in_order tgt \<Longrightarrow> ?thesis" by (simp add: AddFreeSlot_def)
next
  case False
  assume I: "in_order tgt"
  obtain before k m after where E: "tgt = before @ (k, m) # after"
    "AddFreeSlot tgt l f = before @ (k, sm_insert f (f + l - 1) m) # after"
    by (rule AddFreeSlot_eq [OF False, of f])
  have keys: "sorted_wrt (<) (map fst (AddFreeSlot tgt l f))" using I by (simp add: in_order_def)
  have "sorted_wrt (<) (map fst m')" if "(k', m') \<in> set (AddFreeSlot tgt l f)" for k' m'
    using that unfolding E(2) using I E(1) by (auto simp: in_order_def sm_insert_sorted)
  with keys show ?thesis by (auto simp: in_order_def)
qed

lemma AddFreeSlot_classed:
  assumes "in_order tgt" and "classed tgt" and "f \<le> f + l - 1"
  shows "classed (AddFreeSlot tgt l f)"
proof (cases "sm_upto l tgt = []")
  case True
  with assms(2) show ?thesis by (simp add: AddFreeSlot_def)
next
  case False
  obtain before k m after where E: "tgt = before @ (k, m) # after" "k \<le> l"
    "AddFreeSlot tgt l f = before @ (k, sm_insert f (f + l - 1) m) # after" "after = sm_above l tgt"
    by (rule AddFreeSlot_eq [OF False, of f])
  have top: "k' \<le> k" if k': "k' \<in> fst ` set tgt" "k' \<le> l" for k'
  proof -
    from k' obtain x where x: "x \<in> set tgt" "fst x = k'" by auto
    from assms(1) have s: "sorted_wrt (<) (map fst tgt)" by (simp add: in_order_def)
    have "x \<notin> set after" using sm_above_gt [OF s] k'(2) x(2) E(4) by fastforce
    with x E(1) have "x \<in> set before \<or> x = (k, m)" by auto
    with s x(2) show ?thesis unfolding E(1) by (fastforce simp: sorted_wrt_append)
  qed
  have new: "set (sm_insert f (f + l - 1) m) \<subseteq> insert (f, f + l - 1) (set m)"
    using set_mset_mono [OF sm_insert_mset_sub [of f "f + l - 1" m]] by simp
  have len: "f + l - 1 - f + 1 = l" by simp
  have keys: "fst ` set (AddFreeSlot tgt l f) = fst ` set tgt" using AddFreeSlot_keys [of tgt l f] by (metis set_map)
  show ?thesis
    unfolding classed_def keys
  proof (clarify)
    fix k0 m0 s e k' m'
    assume A: "(k0, m0) \<in> set (AddFreeSlot tgt l f)" "(s, e) \<in> set m0" "(k', m') \<in> set tgt"
      and le: "fst (k', m') \<le> e - s + 1"
    have k': "k' \<in> fst ` set tgt" using A(3) by force
    consider "(k0, m0) \<in> set tgt" | "k0 = k" "m0 = sm_insert f (f + l - 1) m"
      using A(1) unfolding E(3) using E(1) by auto
    then show "fst (k', m') \<le> k0"
    proof cases
      case 1
      with assms(2) have "\<forall>(s, e)\<in>set m0. \<forall>k'\<in>fst ` set tgt. k' \<le> e - s + 1 \<longrightarrow> k' \<le> k0"
        unfolding classed_def by blast
      with A(2) have "\<forall>k'\<in>fst ` set tgt. k' \<le> e - s + 1 \<longrightarrow> k' \<le> k0" by blast
      with k' le show ?thesis by auto
    next
      case 2
      with new A(2) consider "(s, e) = (f, f + l - 1)" | "(s, e) \<in> set m" by auto
      then show ?thesis
      proof cases
        case 1
        then have "e - s + 1 = l" using len by simp
        with top [OF k'] le 2 show ?thesis by simp
      next
        case old: 2
        have "(k, m) \<in> set tgt" using E(1) by simp
        with assms(2) have "\<forall>(s, e)\<in>set m. \<forall>k'\<in>fst ` set tgt. k' \<le> e - s + 1 \<longrightarrow> k' \<le> k"
          unfolding classed_def by blast
        with old have "\<forall>k'\<in>fst ` set tgt. k' \<le> e - s + 1 \<longrightarrow> k' \<le> k" by blast
        with k' le 2(1) show ?thesis by auto
      qed
    qed
  qed
qed

lemma AddFreeSlot_ok:
  assumes "store_ok tgt sp" and "0 < l" and "unat l + unat f \<le> unat sp"
    and "\<forall>j\<in>#ivals tgt. apart (f, f + l - 1) j"
  shows "store_ok (AddFreeSlot tgt l f) sp"
proof -
  have b: "unat l + unat f < 2 ^ 64" using assms(3) unat_bound [of sp] by linarith
  note u = unat_last [OF assms(2) b]
  have pos: "0 < unat l" using assms(2) by (simp add: word_less_nat_alt)
  have iv: "f \<le> f + l - 1" "f + l - 1 < sp"
    using u pos assms(3) by (simp_all add: word_le_nat_alt word_less_nat_alt add.commute)
  have "all_apart (ivals (AddFreeSlot tgt l f)) \<and> within (ivals (AddFreeSlot tgt l f)) sp"
    using all_apart_sub [OF _ AddFreeSlot_ivals] within_sub [OF _ AddFreeSlot_ivals] assms(1,4) iv
    by (metis all_apart_add store_ok_def within_add)
  moreover have "AddFreeSlot tgt l f \<noteq> []" using AddFreeSlot_keys [of tgt l f] assms(1)
    by (metis list.map_disc_iff store_ok_def)
  ultimately show ?thesis
    using assms(1) AddFreeSlot_in_order AddFreeSlot_classed [OF _ _ iv(1)] by (simp add: store_ok_def)
qed

section \<open>Finding a free interval\<close>

text \<open>\<open>room X l t\<close>: some interval of \<open>X\<close> has \<open>l\<close> free ticks from \<open>t\<close> on.\<close>

definition fits_at :: "nat \<Rightarrow> nat \<Rightarrow> interval \<Rightarrow> bool" where
  "fits_at l t i \<longleftrightarrow> unat (fst i) \<le> t \<and> t + l \<le> Suc (unat (snd i))"

definition room :: "interval set \<Rightarrow> nat \<Rightarrow> nat \<Rightarrow> bool" where
  "room X l t \<longleftrightarrow> (\<exists>i\<in>X. fits_at l t i)"

lemma room_Un [simp]: "room (X \<union> Y) l t \<longleftrightarrow> room X l t \<or> room Y l t"
  by (auto simp: room_def)

lemma room_empty [simp]: "\<not> room {} l t"
  by (simp add: room_def)

lemma find_first: "find P xs = Some x \<Longrightarrow> \<exists>ys zs. xs = ys @ x # zs \<and> P x \<and> (\<forall>y\<in>set ys. \<not> P y)"
proof (induction xs)
  case (Cons a xs)
  show ?case
  proof (cases "P a")
    case True
    with Cons.prems show ?thesis by (intro exI [of _ "[]"] exI [of _ xs]) simp
  next
    case False
    with Cons obtain ys zs where "xs = ys @ x # zs" "P x" "\<forall>y\<in>set ys. \<not> P y" by auto
    with False have "a # xs = (a # ys) @ x # zs \<and> P x \<and> (\<forall>y\<in>set (a # ys). \<not> P y)" by simp
    then show ?thesis by blast
  qed
qed simp

text \<open>One class: its intervals are in order and apart, and sums do not wrap.\<close>

definition class_ok :: "interval list \<Rightarrow> u64 \<Rightarrow> bool" where
  "class_ok m sp \<longleftrightarrow> sorted_wrt (<) (map fst m) \<and> all_apart (mset m) \<and> within (mset m) sp"

lemma class_ok_later:
  assumes "class_ok (m1 @ (s, e) # m2) sp" and "i \<in> set m1"
  shows "snd i < s"
proof -
  have "fst i < s" using assms by (auto simp: class_ok_def sorted_wrt_append)
  moreover have "apart (s, e) i"
    using assms by (auto simp: class_ok_def all_apart_add)
  moreover have "s \<le> e" using assms(1) by (auto simp: class_ok_def within_def)
  ultimately show ?thesis by (auto simp: apart_def)
qed

lemma class_fit_spec:
  assumes "class_ok m sp" and "0 < l" and "unat l + unat f < 2 ^ 64" and "unat l + unat sp < 2 ^ 64"
  shows "case class_fit l f m of
      None \<Rightarrow> (\<forall>t\<ge>unat f. \<not> room (set m) (unat l) t)
    | Some (True, s) \<Rightarrow> (\<exists>e. (s, e) \<in> set m \<and> fits_at (unat l) (unat f) (s, e))
    | Some (False, s) \<Rightarrow> f < s \<and> (\<exists>e. (s, e) \<in> set m \<and> fits_at (unat l) (unat s) (s, e)) \<and>
        (\<forall>t\<ge>unat f. t < unat s \<longrightarrow> \<not> room (set m) (unat l) t)"
proof -
  let ?lo = "sm_upto f m" and ?hi = "sm_above f m"
  have m: "?lo @ ?hi = m" by (rule sm_split)
  have pos: "0 < unat l" using assms(2) by (simp add: word_less_nat_alt)
  have sorted: "sorted_wrt (<) (map fst m)" using assms(1) by (simp add: class_ok_def)
  have exact: "tl_ok \<longleftrightarrow> unat f + unat l \<le> Suc (unat (snd (last ?lo)))"
    if "tl_ok = (l + f - 1 \<le> snd (last ?lo))" for tl_ok
    using last_le_iff [OF assms(2,3)] that by simp
  have later: "l + fst i - 1 \<le> snd i \<longleftrightarrow> fits_at (unat l) (unat (fst i)) i" if "i \<in> set m" for i
  proof -
    have "unat (fst i) \<le> unat sp"
      using assms(1) that by (cases i) (fastforce simp: class_ok_def within_def word_less_nat_alt word_le_nat_alt)
    then have "unat l + unat (fst i) < 2 ^ 64" using assms(4) by simp
    from last_le_iff [OF assms(2) this, of "snd i"] show ?thesis by (simp add: fits_at_def)
  qed
  have nolo: "\<not> fits_at (unat l) t i" if "i \<in> set ?lo" "unat f \<le> t" "\<not> (?lo \<noteq> [] \<and> l + f - 1 \<le> snd (last ?lo))" for i t
  proof (cases "i = last ?lo")
    case True
    with that have "Suc (unat (snd i)) < unat f + unat l" using exact [OF refl] by auto
    with that(2) show ?thesis by (simp add: fits_at_def)
  next
    case False
    have lo: "?lo = butlast ?lo @ [last ?lo]" using that(1) by (cases ?lo rule: rev_cases) auto
    with that(1) False have i: "i \<in> set (butlast ?lo)" by (metis UnE set_append list.set(1) list.set(2) empty_iff insertE)
    have "class_ok (butlast ?lo @ (fst (last ?lo), snd (last ?lo)) # ?hi) sp"
      using assms(1) m lo by (metis append.assoc append_Cons append_Nil prod.collapse)
    from class_ok_later [OF this i] have "snd i < fst (last ?lo)" .
    moreover have "fst (last ?lo) \<le> f" using lo by (intro sm_upto_le [of "last ?lo" f m] last_in_set) auto
    ultimately have "unat (snd i) < unat f" by (simp add: word_less_nat_alt word_le_nat_alt)
    with that(2) pos show ?thesis by (simp add: fits_at_def)
  qed
  have nohi: "t < unat (fst i) \<Longrightarrow> \<not> fits_at (unat l) t i" for i t by (simp add: fits_at_def)
  show ?thesis
  proof (cases "?lo \<noteq> [] \<and> l + f - 1 \<le> snd (last ?lo)")
    case True
    then have mem: "(fst (last ?lo), snd (last ?lo)) \<in> set m" using m by (metis UnCI last_in_set set_append prod.collapse)
    have "fst (last ?lo) \<le> f" using True by (intro sm_upto_le [of "last ?lo" f m] last_in_set) auto
    moreover have "class_fit l f m = Some (True, fst (last ?lo))" using True by (simp add: class_fit_def Let_def)
    ultimately have "class_fit l f m = Some (True, fst (last ?lo)) \<and> fits_at (unat l) (unat f) (fst (last ?lo), snd (last ?lo))"
      using exact [OF refl] True by (simp add: fits_at_def word_le_nat_alt)
    with mem have "class_fit l f m = Some (True, fst (last ?lo)) \<and>
        (\<exists>e. (fst (last ?lo), e) \<in> set m \<and> fits_at (unat l) (unat f) (fst (last ?lo), e))"
      by blast
    then show ?thesis by simp
  next
    case F: False
    have cf: "class_fit l f m = map_option (\<lambda>(s, _). (False, s)) (find (\<lambda>(s, e). l + s - 1 \<le> e) ?hi)"
      unfolding class_fit_def Let_def if_not_P [OF F] ..
    show ?thesis
    proof (cases "find (\<lambda>(s, e). l + s - 1 \<le> e) ?hi")
      case None
      have "\<not> fits_at (unat l) t i" if "i \<in> set ?hi" "unat f \<le> t" for i t
      proof
        assume c: "fits_at (unat l) t i"
        have im: "i \<in> set m" using that(1) m by (metis UnCI set_append)
        have "\<not> l + fst i - 1 \<le> snd i" using None that(1) by (cases i) (auto simp: find_None_iff)
        with later [OF im] c show False by (simp add: fits_at_def)
      qed
      with nolo F have "\<forall>t\<ge>unat f. \<not> room (set (?lo @ ?hi)) (unat l) t" by (auto simp: room_def)
      with cf None show ?thesis unfolding m by simp
    next
      case (Some i)
      obtain s e where i: "i = (s, e)" by (cases i)
      with Some obtain ys zs where hi: "?hi = ys @ (s, e) # zs" "l + s - 1 \<le> e"
        "\<forall>(s, e)\<in>set ys. \<not> l + s - 1 \<le> e"
        using find_first [OF Some] by auto
      have sm: "(s, e) \<in> set m" using m hi(1) by (metis UnCI in_set_conv_decomp set_append)
      have fs: "f < s" using sm_above_gt [OF sorted, of "(s, e)" f] hi(1) by simp
      have "\<not> fits_at (unat l) t j" if "j \<in> set m" "unat f \<le> t" "t < unat s" for t j
      proof -
        have "j \<in> set ?lo \<or> j \<in> set ys \<or> j \<in> set ((s, e) # zs)" using that(1) m hi(1) by (metis Un_iff set_append)
        then consider "j \<in> set ?lo" | "j \<in> set ys" | "j \<in> set ((s, e) # zs)" by blast
        then show ?thesis
        proof cases
          case 1
          then show ?thesis using nolo F that(2) by blast
        next
          case 2
          then have "\<not> fits_at (unat l) (unat (fst j)) j" using later [OF that(1)] hi(3) by (cases j) auto
          then show ?thesis by (auto simp: fits_at_def)
        next
          case 3
          have "sorted_wrt (<) (map fst ((s, e) # zs))"
            using sm_parts [OF sorted, of f] unfolding hi(1) map_append sorted_wrt_append by blast
          with 3 have "s \<le> fst j" by auto
          with that(3) show ?thesis by (simp add: fits_at_def word_le_nat_alt)
        qed
      qed
      with cf Some i fs sm hi(2) later [OF sm] show ?thesis by (auto simp: room_def)
    qed
  qed
qed

lemma room_classes: "room (\<Union>(set ` snd ` set (c # cs))) l t \<longleftrightarrow> room (set (snd c)) l t \<or> room (\<Union>(set ` snd ` set cs)) l t"
  by (auto simp: room_def)

text \<open>All classes searched; \<open>mt\<close> is the best later start so far, all ones for none.\<close>

lemma fit_over_spec:
  assumes "\<forall>(k, m)\<in>set cs. class_ok m sp" and "0 < l" and "unat l + unat f < 2 ^ 64" and "unat l + unat sp < 2 ^ 64"
    and "mt = - 1 \<or> f < mt"
  shows "case fit_over l f cs mt of
      None \<Rightarrow> mt = - 1 \<and> (\<forall>t\<ge>unat f. \<not> room (\<Union>(set ` snd ` set cs)) (unat l) t)
    | Some (s, False) \<Rightarrow> (\<exists>i\<in>\<Union>(set ` snd ` set cs). fst i = s \<and> fits_at (unat l) (unat f) i)
    | Some (s, True) \<Rightarrow> f < s \<and> s \<noteq> - 1 \<and> (s = mt \<or> (\<exists>i\<in>\<Union>(set ` snd ` set cs). fst i = s \<and> fits_at (unat l) (unat s) i)) \<and>
        (mt = - 1 \<or> s \<le> mt) \<and> (\<forall>t\<ge>unat f. t < unat s \<longrightarrow> \<not> room (\<Union>(set ` snd ` set cs)) (unat l) t)"
  using assms
proof (induction cs arbitrary: mt)
  case Nil
  then show ?case by auto
next
  case (Cons c cs)
  obtain k m where c: "c = (k, m)" by (cases c)
  have ok: "class_ok m sp" and rest: "\<forall>(k, m)\<in>set cs. class_ok m sp" using Cons.prems(1) c by auto
  note spec = class_fit_spec [OF ok Cons.prems(2-4)]
  show ?case
  proof (cases "class_fit l f m")
    case None
    with spec have "\<forall>t\<ge>unat f. \<not> room (set m) (unat l) t" by simp
    with Cons.IH [OF rest Cons.prems(2-5)] None show ?thesis
      unfolding c room_classes by (auto split: option.splits bool.splits)
  next
    case (Some x)
    obtain b s where x: "x = (b, s)" by (cases x)
    show ?thesis
    proof (cases b)
      case True
      with spec Some x show ?thesis unfolding c by force
    next
      case False
      with spec Some x have s: "f < s" "\<exists>e. (s, e) \<in> set m \<and> fits_at (unat l) (unat s) (s, e)"
        "\<forall>t\<ge>unat f. t < unat s \<longrightarrow> \<not> room (set m) (unat l) t"
        by auto
      let ?mt = "if mt = - 1 \<or> s < mt then s else mt"
      from s(2) obtain e where "(s, e) \<in> set m" by blast
      then have "s \<le> e \<and> e < sp" using ok unfolding class_ok_def within_def by fastforce
      then have "s \<noteq> - 1" by (metis leD word_n1_ge order_le_less_trans)
      then have mt: "?mt \<noteq> - 1" "f < ?mt" "?mt \<le> s" "mt = - 1 \<or> ?mt \<le> mt" "?mt = s \<or> ?mt = mt \<and> mt \<noteq> - 1"
        using s(1) Cons.prems(5) by auto
      have eq: "fit_over l f (c # cs) mt = fit_over l f cs ?mt" using Some x False by (simp add: c)
      have "f < ?mt" by (rule mt(2))
      then have IH: "case fit_over l f cs ?mt of
          None \<Rightarrow> ?mt = - 1 \<and> (\<forall>t\<ge>unat f. \<not> room (\<Union>(set ` snd ` set cs)) (unat l) t)
        | Some (s, False) \<Rightarrow> (\<exists>i\<in>\<Union>(set ` snd ` set cs). fst i = s \<and> fits_at (unat l) (unat f) i)
        | Some (s, True) \<Rightarrow> f < s \<and> s \<noteq> - 1 \<and> (s = ?mt \<or> (\<exists>i\<in>\<Union>(set ` snd ` set cs). fst i = s \<and> fits_at (unat l) (unat s) i)) \<and>
            (?mt = - 1 \<or> s \<le> ?mt) \<and> (\<forall>t\<ge>unat f. t < unat s \<longrightarrow> \<not> room (\<Union>(set ` snd ` set cs)) (unat l) t)"
        using Cons.IH [OF rest Cons.prems(2-4), of ?mt] by simp
      show ?thesis
      proof (cases "fit_over l f cs ?mt")
        case None
        with IH mt(1) show ?thesis by simp
      next
        case (Some y)
        obtain v late where y: "y = (v, late)" by (cases y)
        show ?thesis
        proof (cases late)
          case False
          with IH Some y eq show ?thesis by auto
        next
          case True
          with IH Some y have v: "f < v" "v \<noteq> - 1" "v = ?mt \<or> (\<exists>i\<in>\<Union>(set ` snd ` set cs). fst i = v \<and> fits_at (unat l) (unat v) i)"
            "v \<le> ?mt" "\<forall>t\<ge>unat f. t < unat v \<longrightarrow> \<not> room (\<Union>(set ` snd ` set cs)) (unat l) t"
            using mt(1) by auto
          have vs: "v \<le> s" "mt = - 1 \<or> v \<le> mt" using v(4) mt(3,4) by auto
          have "v = mt \<or> (\<exists>i\<in>\<Union>(set ` snd ` set (c # cs)). fst i = v \<and> fits_at (unat l) (unat v) i)"
            using v(3) mt(5) s(2) by (auto simp: c)
          moreover have "\<forall>t\<ge>unat f. t < unat v \<longrightarrow> \<not> room (\<Union>(set ` snd ` set (c # cs))) (unat l) t"
            unfolding room_classes using v(5) s(3) vs(1) by (auto simp: c word_le_nat_alt)
          ultimately show ?thesis using Some y eq True v(1,2) vs(2) by simp
        qed
      qed
    qed
  qed
qed

text \<open>The classes a search looks at, and why the others cannot help.\<close>

definition searched :: "slots \<Rightarrow> u64 \<Rightarrow> slots" where
  "searched tgt l = (let lo = sm_upto l tgt in (if lo = [] then [] else [last lo]) @ sm_above l tgt)"

lemma set_ivals: "set_mset (ivals tgt) = \<Union>(set ` snd ` set tgt)"
  by (simp add: ivals_def)

lemma searched_split: "\<exists>before. tgt = before @ searched tgt l \<and> (before \<noteq> [] \<longrightarrow> sm_upto l tgt \<noteq> []) \<and>
    before = butlast (sm_upto l tgt)"
proof (cases "sm_upto l tgt = []")
  case True
  then show ?thesis using sm_split [of l tgt] by (simp add: searched_def)
next
  case False
  then have "butlast (sm_upto l tgt) @ searched tgt l = (butlast (sm_upto l tgt) @ [last (sm_upto l tgt)]) @ sm_above l tgt"
    by (simp add: searched_def)
  also have "\<dots> = tgt" using sm_split [of l tgt] append_butlast_last_id [OF False] by simp
  finally show ?thesis using False by auto
qed

lemma store_class_ok:
  assumes "store_ok tgt sp" and "(k, m) \<in> set tgt"
  shows "class_ok m sp"
proof -
  from split_list [OF assms(2)] obtain a b where t: "tgt = a @ (k, m) # b" by blast
  have "mset m \<subseteq># ivals tgt" unfolding t by (simp add: subset_mset.add_increasing subset_mset.add_increasing2)
  with assms show ?thesis
    unfolding store_ok_def class_ok_def in_order_def by (auto intro: all_apart_sub within_sub)
qed

lemma length_bound:
  assumes "s \<le> e" and "e < (sp :: u64)"
  shows "unat (e - s + 1) = Suc (unat e) - unat s"
proof -
  have d: "unat (e - s) = unat e - unat s" by (rule unat_minus [OF assms(1)])
  have "unat e < unat sp" using assms(2) by (simp add: word_less_nat_alt)
  then have "unat (e - s) + unat (1 :: u64) < 2 ^ 64" using d unat_bound [of sp] by simp
  from unat_plus [OF this] d assms(1) show ?thesis by (simp add: word_le_nat_alt)
qed

lemma fits_at_searched:
  assumes "store_ok tgt sp" and "i \<in># ivals tgt" and "fits_at (unat l) t i"
  shows "i \<in># ivals (searched tgt l)"
proof -
  obtain before where b: "tgt = before @ searched tgt l" "before \<noteq> [] \<longrightarrow> sm_upto l tgt \<noteq> []"
    "before = butlast (sm_upto l tgt)" using searched_split [of tgt l] by blast
  have "\<not> fits_at (unat l) t (s, e)" if km: "(k, m) \<in> set before" "(s, e) \<in> set m" for k m s e
  proof
    assume F: "fits_at (unat l) t (s, e)"
    have lo: "sm_upto l tgt \<noteq> []" using b(2) km(1) by auto
    define k' where "k' = fst (last (sm_upto l tgt))"
    have k'l: "k' \<le> l" unfolding k'_def using lo by (intro sm_upto_le [of _ l tgt] last_in_set)
    have "last (sm_upto l tgt) \<in> set tgt" using lo sm_split [of l tgt] by (metis UnCI last_in_set set_append)
    then have k't: "k' \<in> fst ` set tgt" by (simp add: k'_def)
    have kmt: "(k, m) \<in> set tgt" using b(1) km(1) by (metis UnCI set_append)
    have "in_order tgt" "classed tgt" "within (ivals tgt) sp" using assms(1) by (auto simp: store_ok_def)
    have "sorted_wrt (<) (map fst (sm_upto l tgt))"
      using \<open>in_order tgt\<close> sm_parts unfolding in_order_def by blast
    then have "sorted_wrt (<) (map fst (before @ [last (sm_upto l tgt)]))"
      using append_butlast_last_id [OF lo] b(3) by simp
    then have less: "k < k'" using km(1) unfolding k'_def by (force simp: sorted_wrt_append)
    have "(s, e) \<in># ivals tgt" using kmt km(2) by (auto simp: in_ivals)
    with \<open>within (ivals tgt) sp\<close> have se: "s \<le> e" "e < sp" by (auto simp: within_def)
    have "unat l \<le> Suc (unat e) - unat s" using F unfolding fits_at_def fst_conv snd_conv by linarith
    then have "l \<le> e - s + 1" using length_bound [OF se] by (simp add: word_le_nat_alt)
    with k'l have "k' \<le> e - s + 1" by simp
    with \<open>classed tgt\<close> kmt km(2) k't have "k' \<le> k" unfolding classed_def by blast
    with less show False by simp
  qed
  with assms(3) have "\<not> (\<exists>(k, m)\<in>set before. i \<in> set m)" by (cases i) auto
  then have "i \<notin># ivals before" by (simp add: in_ivals)
  moreover have "ivals tgt = ivals before + ivals (searched tgt l)" by (subst b(1)) simp
  ultimately show ?thesis using assms(2) by simp
qed

lemma searched_ivals: "ivals (searched tgt l) \<subseteq># ivals tgt"
proof -
  obtain before where "tgt = before @ searched tgt l" using searched_split [of tgt l] by blast
  then have "ivals tgt = ivals before + ivals (searched tgt l)" by (metis ivals_simps(3))
  then show ?thesis by simp
qed

lemma room_searched:
  assumes "store_ok tgt sp"
  shows "room (set_mset (ivals tgt)) (unat l) t \<longleftrightarrow> room (set_mset (ivals (searched tgt l))) (unat l) t"
  using fits_at_searched [OF assms] mset_subset_eqD [OF searched_ivals] unfolding room_def by blast

lemma FindFreeTime_searched:
  assumes "tgt \<noteq> []" and "\<forall>(k, m)\<in>set tgt. class_ok m sp" and "0 < l"
    and "unat l + unat f < 2 ^ 64" and "unat l + unat sp < 2 ^ 64"
  shows "FindFreeTime tgt l f = Inr (fit_over l f (searched tgt l) (- 1))"
proof (cases "sm_above l tgt = []")
  case False
  then show ?thesis by (simp add: FindFreeTime_def searched_def Let_def)
next
  case True
  then have lo: "sm_upto l tgt \<noteq> []" using sm_split [of l tgt] assms(1) by auto
  define km where "km = last (sm_upto l tgt)"
  have "km \<in> set tgt" using lo sm_split [of l tgt] unfolding km_def by (metis UnCI last_in_set set_append)
  then have ok: "class_ok (snd km) sp" using assms(2) by auto
  have "fit_over l f [km] (- 1) = map_option (\<lambda>(exact, s). (s, \<not> exact)) (class_fit l f (snd km))"
  proof (cases "class_fit l f (snd km)")
    case (Some x)
    obtain b s where x: "x = (b, s)" by (cases x)
    from class_fit_spec [OF ok assms(3-5)] Some x obtain e where "(s, e) \<in> set (snd km)"
      by (auto split: bool.splits)
    then have "s \<le> e \<and> e < sp" using ok unfolding class_ok_def within_def by fastforce
    then have "s \<noteq> - 1" by (metis leD word_n1_ge order_le_less_trans)
    with Some x show ?thesis by (cases km; cases b) auto
  qed (cases km, simp)
  with True lo show ?thesis by (simp add: FindFreeTime_def searched_def Let_def km_def)
qed

text \<open>The specification: the earliest start, from \<open>f\<close> on, at which some free interval has room.\<close>

lemma FindFreeTime_spec:
  assumes ok: "store_ok tgt sp" and "0 < l" and "unat l + unat f < 2 ^ 64" and "unat l + unat sp < 2 ^ 64"
  shows "\<exists>r. FindFreeTime tgt l f = Inr r \<and> (case r of
      None \<Rightarrow> \<forall>t\<ge>unat f. \<not> room (set_mset (ivals tgt)) (unat l) t
    | Some (s, late) \<Rightarrow> \<exists>t e. (s, e) \<in># ivals tgt \<and> fits_at (unat l) t (s, e) \<and> unat f \<le> t \<and>
        t = (if late then unat s else unat f) \<and> (late \<longrightarrow> f < s) \<and>
        (\<forall>u\<ge>unat f. u < t \<longrightarrow> \<not> room (set_mset (ivals tgt)) (unat l) u))"
proof -
  obtain before where b: "tgt = before @ searched tgt l" using searched_split [of tgt l] by blast
  have sub: "set (searched tgt l) \<subseteq> set tgt" by (subst b) auto
  have cls: "\<forall>(k, m)\<in>set tgt. class_ok m sp" using store_class_ok [OF ok] by blast
  then have scls: "\<forall>(k, m)\<in>set (searched tgt l). class_ok m sp" using sub by blast
  have ne: "tgt \<noteq> []" using ok by (simp add: store_ok_def)
  note eq = FindFreeTime_searched [OF ne cls assms(2-4)]
  note spec = fit_over_spec [OF scls assms(2-4), of "- 1", folded set_ivals, simplified]
  note rm = room_searched [OF ok, symmetric]
  have mem: "i \<in># ivals tgt" if "i \<in># ivals (searched tgt l)" for i
    using that sub by (auto simp: in_ivals)
  show ?thesis
  proof (cases "fit_over l f (searched tgt l) (- 1)")
    case None
    with spec have "\<forall>t\<ge>unat f. \<not> room (set_mset (ivals tgt)) (unat l) t" by (simp add: rm)
    with eq None show ?thesis by simp
  next
    case (Some x)
    obtain s late where x: "x = (s, late)" by (cases x)
    show ?thesis
    proof (cases late)
      case False
      with spec Some x obtain i where i: "i \<in># ivals (searched tgt l)" "fst i = s" "fits_at (unat l) (unat f) i" by auto
      with mem [OF i(1)] eq Some x False show ?thesis by (cases i) auto
    next
      case True
      with spec Some x have A: "f < s" "(\<exists>i\<in>set_mset (ivals (searched tgt l)). fst i = s \<and> fits_at (unat l) (unat s) i)"
        "\<forall>t\<ge>unat f. t < unat s \<longrightarrow> \<not> room (set_mset (ivals tgt)) (unat l) t"
        by (auto simp: rm)
      from A(2) obtain i where i: "i \<in># ivals (searched tgt l)" "fst i = s" "fits_at (unat l) (unat s) i" by blast
      have "unat f \<le> unat s" using A(1) by (simp add: word_less_nat_alt)
      with mem [OF i(1)] i eq Some x True A(1,3) show ?thesis by (cases i) auto
    qed
  qed
qed

section \<open>Adding several intervals\<close>

definition adds :: "slots \<Rightarrow> (u64 \<times> u64) list \<Rightarrow> slots" where
  "adds tgt ps = foldl (\<lambda>tgt (l, f). AddFreeSlot tgt l f) tgt ps"

lemma adds_simps [simp]:
  "adds tgt [] = tgt"
  "adds tgt ((l, f) # ps) = adds (AddFreeSlot tgt l f) ps"
  by (simp_all add: adds_def)

definition span :: "u64 \<times> u64 \<Rightarrow> nat set" where
  "span lf = {unat (snd lf)..<unat (snd lf) + unat (fst lf)}"

definition piece_ok :: "slots \<Rightarrow> u64 \<Rightarrow> u64 \<times> u64 \<Rightarrow> bool" where
  "piece_ok tgt sp lf \<longleftrightarrow> 0 < fst lf \<and> unat (fst lf) + unat (snd lf) \<le> unat sp \<and>
     (\<forall>i\<in>#ivals tgt. span lf \<inter> ticks i = {})"

lemma piece_interval:
  assumes "0 < l" and "unat l + unat f \<le> unat sp"
  shows "f \<le> f + l - 1" and "f + l - 1 < sp" and "ticks (f, f + l - 1) = span (l, f)"
proof -
  have b: "unat l + unat f < 2 ^ 64" using assms(2) unat_bound [of sp] by linarith
  have u: "unat (f + l - 1) = unat l + unat f - 1" using unat_last [OF assms(1) b] by (simp add: add.commute)
  have pos: "0 < unat l" using assms(1) by (simp add: word_less_nat_alt)
  show "f \<le> f + l - 1" "f + l - 1 < sp"
    using u pos assms(2) by (simp_all add: word_le_nat_alt word_less_nat_alt)
  show "ticks (f, f + l - 1) = span (l, f)" using u pos by (auto simp: ticks_def span_def)
qed

lemma AddFreeSlot_piece:
  assumes "store_ok tgt sp" and "piece_ok tgt sp (l, f)"
  shows "store_ok (AddFreeSlot tgt l f) sp"
    and "set_mset (ivals tgt) \<subseteq> set_mset (ivals (AddFreeSlot tgt l f))"
    and "set_mset (ivals (AddFreeSlot tgt l f)) \<subseteq> insert (f, f + l - 1) (set_mset (ivals tgt))"
    and "k \<in> fst ` set tgt \<Longrightarrow> k \<le> l \<Longrightarrow> (f, f + l - 1) \<in># ivals (AddFreeSlot tgt l f)"
proof -
  have P: "0 < l" "unat l + unat f \<le> unat sp" "\<forall>i\<in>#ivals tgt. span (l, f) \<inter> ticks i = {}"
    using assms(2) by (auto simp: piece_ok_def)
  note I = piece_interval [OF P(1,2)]
  have ap: "\<forall>j\<in>#ivals tgt. apart (f, f + l - 1) j"
  proof
    fix j assume j: "j \<in># ivals tgt"
    obtain s e where se: "j = (s, e)" by (cases j)
    have "within (ivals tgt) sp" using assms(1) by (simp add: store_ok_def)
    with j se have "s \<le> e" by (auto simp: within_def)
    from apart_ticks [OF I(1) this] P(3) j se I(3) show "apart (f, f + l - 1) j" by auto
  qed
  show "store_ok (AddFreeSlot tgt l f) sp" by (rule AddFreeSlot_ok [OF assms(1) P(1,2) ap])
  have new: "(f, f + l - 1) \<notin># ivals tgt" using ap I(1) by (auto simp: apart_def)
  show "set_mset (ivals (AddFreeSlot tgt l f)) \<subseteq> insert (f, f + l - 1) (set_mset (ivals tgt))"
    using set_mset_mono [OF AddFreeSlot_ivals [of tgt l f]] by simp
  have eq: "sm_upto l tgt \<noteq> [] \<Longrightarrow> ivals (AddFreeSlot tgt l f) = add_mset (f, f + l - 1) (ivals tgt)"
  proof -
    assume ne: "sm_upto l tgt \<noteq> []"
    obtain before k m after where E: "tgt = before @ (k, m) # after"
      "AddFreeSlot tgt l f = before @ (k, sm_insert f (f + l - 1) m) # after"
      by (rule AddFreeSlot_eq [OF ne, of f])
    have "f \<notin> fst ` set m"
    proof
      assume "f \<in> fst ` set m"
      then obtain e where fe: "(f, e) \<in> set m" by force
      then have "(f, e) \<in># ivals tgt" using E(1) by (simp add: in_ivals)
      with ap I(1) have "e < f" by (fastforce simp: apart_def)
      moreover have "f \<le> e" using \<open>(f, e) \<in># ivals tgt\<close> assms(1) by (auto simp: store_ok_def within_def)
      ultimately show False by simp
    qed
    from sm_insert_mset [OF this, of "f + l - 1"] show ?thesis unfolding E(2) unfolding E(1) by simp
  qed
  have none: "sm_upto l tgt = [] \<Longrightarrow> AddFreeSlot tgt l f = tgt" by (simp add: AddFreeSlot_def)
  show "set_mset (ivals tgt) \<subseteq> set_mset (ivals (AddFreeSlot tgt l f))"
    using eq none by (cases "sm_upto l tgt = []") auto
  show "(f, f + l - 1) \<in># ivals (AddFreeSlot tgt l f)" if k: "k \<in> fst ` set tgt" "k \<le> l"
  proof -
    obtain m where "(k, m) \<in> set tgt" using k(1) by force
    moreover have "sorted_wrt (<) (map fst tgt)" using assms(1) by (simp add: store_ok_def in_order_def)
    ultimately have "(k, m) \<in> set (sm_upto l tgt)" using sm_upto_iff k(2) by fastforce
    then have "sm_upto l tgt \<noteq> []" by auto
    from eq [OF this] show ?thesis by simp
  qed
qed

lemma adds_spec:
  assumes "store_ok tgt sp" and "\<forall>p\<in>set ps. piece_ok tgt sp p" and "sorted_wrt (\<lambda>p q. span p \<inter> span q = {}) ps"
  shows "store_ok (adds tgt ps) sp \<and> map fst (adds tgt ps) = map fst tgt \<and>
    set_mset (ivals tgt) \<subseteq> set_mset (ivals (adds tgt ps)) \<and>
    set_mset (ivals (adds tgt ps)) \<subseteq> set_mset (ivals tgt) \<union> (\<lambda>(l, f). (f, f + l - 1)) ` set ps \<and>
    (\<forall>(l, f)\<in>set ps. (\<exists>k\<in>fst ` set tgt. k \<le> l) \<longrightarrow> (f, f + l - 1) \<in># ivals (adds tgt ps))"
  using assms
proof (induction ps arbitrary: tgt)
  case Nil
  then show ?case by simp
next
  case (Cons p ps)
  obtain l f where p: "p = (l, f)" by (cases p)
  have ok: "piece_ok tgt sp (l, f)" using Cons.prems(2) p by simp
  note A = AddFreeSlot_piece [OF Cons.prems(1) ok]
  have keys: "fst ` set (AddFreeSlot tgt l f) = fst ` set tgt" by (metis AddFreeSlot_keys set_map)
  have sp: "ticks (f, f + l - 1) = span (l, f)" using ok by (intro piece_interval(3) [of _ _ sp]) (simp_all add: piece_ok_def)
  have "piece_ok (AddFreeSlot tgt l f) sp q" if q: "q \<in> set ps" for q
  proof -
    have "piece_ok tgt sp q" "span (l, f) \<inter> span q = {}" using Cons.prems(2,3) q p by auto
    then show ?thesis using A(3) sp unfolding piece_ok_def by blast
  qed
  with Cons.IH [OF A(1)] Cons.prems(3) have IH: "store_ok (adds tgt (p # ps)) sp"
    "map fst (adds tgt (p # ps)) = map fst tgt"
    "set_mset (ivals (AddFreeSlot tgt l f)) \<subseteq> set_mset (ivals (adds tgt (p # ps)))"
    "set_mset (ivals (adds tgt (p # ps))) \<subseteq> set_mset (ivals (AddFreeSlot tgt l f)) \<union> (\<lambda>(l, f). (f, f + l - 1)) ` set ps"
    "\<forall>(l, f)\<in>set ps. (\<exists>k\<in>fst ` set tgt. k \<le> l) \<longrightarrow> (f, f + l - 1) \<in># ivals (adds tgt (p # ps))"
    by (simp_all add: p keys)
  have "set_mset (ivals (adds tgt (p # ps))) \<subseteq> set_mset (ivals tgt) \<union> (\<lambda>(l, f). (f, f + l - 1)) ` set (p # ps)"
    using IH(4) A(3) p by auto
  moreover have "(\<exists>k\<in>fst ` set tgt. k \<le> l) \<longrightarrow> (f, f + l - 1) \<in># ivals (adds tgt (p # ps))"
    using A(4) IH(3) by blast
  moreover have "set_mset (ivals tgt) \<subseteq> set_mset (ivals (adds tgt (p # ps)))" using A(2) IH(3) by (rule subset_trans)
  ultimately show ?case using IH(1,2,5) unfolding p by (intro conjI) auto
qed

section \<open>Taking an interval out\<close>

definition shrunk :: "slots \<Rightarrow> slots \<Rightarrow> bool" where
  "shrunk = list_all2 (\<lambda>c d. fst d = fst c \<and> mset (snd d) \<subseteq># mset (snd c) \<and> sorted_wrt (<) (map fst (snd d)))"

lemma shrunk_ivals: "shrunk tgt tgt' \<Longrightarrow> ivals tgt' \<subseteq># ivals tgt"
  unfolding shrunk_def by (induction rule: list_all2_induct) (auto intro: subset_mset.add_mono)

lemma shrunk_keys: "shrunk tgt tgt' \<Longrightarrow> map fst tgt' = map fst tgt"
  unfolding shrunk_def by (induction rule: list_all2_induct) auto

lemma shrunk_member:
  assumes "shrunk tgt tgt'" and "(k, m') \<in> set tgt'"
  shows "\<exists>m. (k, m) \<in> set tgt \<and> set m' \<subseteq> set m \<and> sorted_wrt (<) (map fst m')"
  using assms unfolding shrunk_def
  by (induction rule: list_all2_induct) (auto dest!: set_mset_mono; blast)+

lemma shrunk_refl: "in_order tgt \<Longrightarrow> shrunk tgt tgt"
  unfolding shrunk_def in_order_def by (auto intro!: list.rel_refl_strong)

lemma shrunk_append: "shrunk a a' \<Longrightarrow> shrunk b b' \<Longrightarrow> shrunk (a @ b) (a' @ b')"
  unfolding shrunk_def by (rule list_all2_appendI)

lemma shrunk_ok:
  assumes "store_ok tgt sp" and "shrunk tgt tgt'"
  shows "store_ok tgt' sp"
proof -
  note K = shrunk_keys [OF assms(2)]
  have keys: "fst ` set tgt' = fst ` set tgt" using K by (metis set_map)
  have "in_order tgt'" using assms(1) shrunk_member [OF assms(2)] K
    unfolding store_ok_def in_order_def by fastforce
  moreover have "classed tgt'"
    unfolding classed_def
  proof (clarify)
    fix k m' s e k1 m1
    assume A: "(k, m') \<in> set tgt'" "(s, e) \<in> set m'" "(k1, m1) \<in> set tgt'" "fst (k1, m1) \<le> e - s + 1"
    from shrunk_member [OF assms(2) A(1)] A(2) obtain m where m: "(k, m) \<in> set tgt" "(s, e) \<in> set m" by blast
    have "k1 \<in> fst ` set tgt" using A(3) keys by (metis fst_conv image_eqI)
    with m A(4) assms(1) show "fst (k1, m1) \<le> k" unfolding store_ok_def classed_def by fastforce
  qed
  moreover have "tgt' \<noteq> []" using K assms(1) by (auto simp: store_ok_def)
  ultimately show ?thesis
    using assms(1) all_apart_sub [OF _ shrunk_ivals [OF assms(2)]] within_sub [OF _ shrunk_ivals [OF assms(2)]]
    by (auto simp: store_ok_def)
qed

lemma sorted_filter_map: "sorted_wrt (<) (map fst m) \<Longrightarrow> sorted_wrt (<) (map fst (filter P m))"
  by (induction m) auto

lemma mset_sm_erase:
  assumes "distinct (map fst m)" and "(s, e) \<in> set m"
  shows "mset m = add_mset (s, e) (mset (sm_erase s m))"
  using assms
proof (induction m)
  case (Cons x m)
  show ?case
  proof (cases "fst x = s")
    case True
    with Cons.prems have "x = (s, e)" "s \<notin> fst ` set m" by (auto simp: rev_image_eqI)
    moreover from this(2) have "sm_erase s m = m" by (force simp: sm_erase_def intro!: filter_True)
    moreover have "sm_erase s (x # m) = sm_erase s m" using True by (cases x) (simp add: sm_erase_def)
    ultimately show ?thesis by simp
  next
    case False
    with Cons have "mset m = add_mset (s, e) (mset (sm_erase s m))" by auto
    moreover have "sm_erase s (x # m) = x # sm_erase s m" using False by (cases x) (simp add: sm_erase_def)
    ultimately show ?thesis by simp
  qed
qed simp

lemma take_slot_spec:
  assumes "\<forall>(k, m)\<in>set cs. sorted_wrt (<) (map fst m)" and "all_apart (ivals cs)"
    and "\<forall>(s, e)\<in>#ivals cs. s \<le> e" and "(st, e) \<in># ivals cs"
  shows "\<exists>cs'. take_slot st cs = Some (e, cs') \<and> shrunk cs cs' \<and> ivals cs = add_mset (st, e) (ivals cs')"
  using assms
proof (induction cs)
  case Nil
  then show ?case by simp
next
  case (Cons c cs)
  obtain k m where c: "c = (k, m)" by (cases c)
  have srt: "sorted_wrt (<) (map fst m)" using Cons.prems(1) c by simp
  then have dist: "distinct (map fst m)" by (simp add: strict_sorted_iff)
  show ?case
  proof (cases "st \<in> fst ` set m")
    case True
    then obtain e' where e': "(st, e') \<in> set m" by force
    have "e' = e"
    proof (rule ccontr)
      assume "e' \<noteq> e"
      have i: "(st, e') \<in># ivals (c # cs)" using e' c by simp
      have "apart (st, e) (st, e')"
        by (rule all_apart_pair [OF Cons.prems(2,4) i]) (use \<open>e' \<noteq> e\<close> in simp)
      moreover have "st \<le> e" "st \<le> e'" using Cons.prems(3,4) i by auto
      ultimately show False by (auto simp: apart_def)
    qed
    with e' dist have f: "map_of m st = Some e" by simp
    have "shrunk (c # cs) ((k, sm_erase st m) # cs)"
      using shrunk_refl [of cs] Cons.prems(1) srt unfolding shrunk_def c
      by (auto simp: sm_erase_def sorted_filter_map multiset_filter_subset intro!: list.rel_refl_strong)
    moreover have "mset m = add_mset (st, e) (mset (sm_erase st m))"
      using mset_sm_erase [OF dist e'] \<open>e' = e\<close> by simp
    ultimately show ?thesis using f c by simp
  next
    case False
    then have none: "map_of m st = None" by (simp add: map_of_eq_None_iff)
    have "(st, e) \<notin> set m" using False by force
    then have i: "(st, e) \<in># ivals cs" using Cons.prems(4) c by simp
    have "all_apart (ivals cs)" by (rule all_apart_sub [OF Cons.prems(2)]) simp
    with Cons.IH Cons.prems(1,3) i obtain cs' where
      "take_slot st cs = Some (e, cs')" "shrunk cs cs'" "ivals cs = add_mset (st, e) (ivals cs')" by auto
    moreover from this(2) have "shrunk (c # cs) ((k, m) # cs')" using srt by (simp add: shrunk_def c)
    ultimately show ?thesis using none c by simp
  qed
qed

section \<open>Booking\<close>

text \<open>An opening of \<open>n\<close> ticks at \<open>u\<close>, and the interval (or start point) that holds it.\<close>

definition open_at :: "slots \<Rightarrow> u64 \<Rightarrow> nat \<Rightarrow> nat \<Rightarrow> bool" where
  "open_at tgt sp n u \<longleftrightarrow> room (set_mset (ivals tgt)) n u \<or> unat sp \<le> u"

definition held :: "slots \<Rightarrow> u64 \<Rightarrow> nat \<Rightarrow> nat \<Rightarrow> u64 \<Rightarrow> bool" where
  "held tgt sp n u st \<longleftrightarrow>
     (st = sp \<and> unat sp \<le> u) \<or> (\<exists>e. (st, e) \<in># ivals tgt \<and> fits_at n u (st, e))"

lemma held_open: "held tgt sp n u st \<Longrightarrow> open_at tgt sp n u"
  by (auto simp: held_def open_at_def room_def)

lemma held_start: "held tgt sp n u st \<Longrightarrow> unat st \<le> u"
  by (auto simp: held_def fits_at_def)

lemma open_at_free:
  assumes "open_at tgt sp n u"
  shows "{u..<u + n} \<subseteq> free_ticks tgt sp"
proof (cases "unat sp \<le> u")
  case False
  with assms obtain i where i: "i \<in># ivals tgt" "fits_at n u i" by (auto simp: open_at_def room_def)
  then have "{u..<u + n} \<subseteq> ticks i" by (auto simp: fits_at_def ticks_def)
  with i(1) show ?thesis by (auto simp: free_ticks_def)
qed (auto simp: free_ticks_def)

lemma free_adds:
  assumes "store_ok tgt sp" and "\<forall>p\<in>set ps. piece_ok tgt sp p" and "sorted_wrt (\<lambda>p q. span p \<inter> span q = {}) ps"
  shows "free_ticks (adds tgt ps) sp \<subseteq> free_ticks tgt sp \<union> \<Union>(span ` set ps)"
proof -
  have "ticks (f, f + l - 1) = span (l, f)" if "(l, f) \<in> set ps" for l f
  proof -
    have "piece_ok tgt sp (l, f)" using assms(2) that by blast
    then show ?thesis using piece_interval(3) [of l f sp] by (simp add: piece_ok_def)
  qed
  then have new: "ticks i \<subseteq> \<Union>(span ` set ps)" if "i \<in> (\<lambda>(l, f). (f, f + l - 1)) ` set ps" for i
    using that by auto
  have all: "set_mset (ivals (adds tgt ps)) \<subseteq> set_mset (ivals tgt) \<union> (\<lambda>(l, f). (f, f + l - 1)) ` set ps"
    using adds_spec [OF assms] by blast
  have "ticks i \<subseteq> free_ticks tgt sp \<union> \<Union>(span ` set ps)" if i: "i \<in># ivals (adds tgt ps)" for i
  proof (cases "i \<in># ivals tgt")
    case True
    then have "ticks i \<subseteq> free_ticks tgt sp" by (auto simp: free_ticks_def)
    then show ?thesis by (rule le_supI1)
  next
    case False
    with i all have "i \<in> (\<lambda>(l, f). (f, f + l - 1)) ` set ps" by blast
    then show ?thesis by (rule le_supI2 [OF new])
  qed
  moreover have "{unat sp..} \<subseteq> free_ticks tgt sp" by (simp add: free_ticks_def)
  ultimately show ?thesis unfolding free_ticks_def [of "adds tgt ps"] by (intro Un_least UN_least) auto
qed

lemma open_at_mono:
  "set_mset (ivals tgt) \<subseteq> set_mset (ivals tgt') \<Longrightarrow> sp' \<le> sp \<Longrightarrow> open_at tgt sp n u \<Longrightarrow> open_at tgt' sp' n u"
  unfolding open_at_def room_def word_le_nat_alt by (meson order_trans subsetD)

text \<open>A piece that is kept holds every opening inside it that is no shorter than a class.\<close>

lemma open_at_piece:
  assumes "store_ok tgt sp" and "\<forall>p\<in>set ps. piece_ok tgt sp p" and "sorted_wrt (\<lambda>p q. span p \<inter> span q = {}) ps"
    and "(l, f) \<in> set ps" and "{u..<u + n} \<subseteq> span (l, f)" and "0 < n" and "k \<in> fst ` set tgt" and "unat k \<le> n"
  shows "open_at (adds tgt ps) sp' n u"
proof -
  have P: "0 < l" "unat l + unat f \<le> unat sp" using assms(2,4) by (auto simp: piece_ok_def)
  have "u \<in> {u..<u + n}" "u + n - 1 \<in> {u..<u + n}" using assms(6) by auto
  with assms(5) have i: "u \<in> span (l, f)" "u + n - 1 \<in> span (l, f)" by blast+
  then have "n \<le> unat l" by (auto simp: span_def)
  with assms(8) have "k \<le> l" by (simp add: word_le_nat_alt)
  with adds_spec [OF assms(1-3)] assms(4,7) have m: "(f, f + l - 1) \<in># ivals (adds tgt ps)" by blast
  have "unat l + unat f < 2 ^ 64" using P(2) unat_bound [of sp] by linarith
  from unat_last [OF P(1) this] have "unat (f + l - 1) = unat l + unat f - 1" by (simp add: add.commute)
  with i P(1) have "fits_at n u (f, f + l - 1)" by (auto simp: fits_at_def span_def)
  with m show ?thesis by (auto simp: open_at_def room_def)
qed

definition booked :: "bool \<Rightarrow> slots \<Rightarrow> u64 \<Rightarrow> u64 \<Rightarrow> u64 \<Rightarrow> slots \<Rightarrow> u64 \<Rightarrow> bool" where
  "booked split tgt sp l t tgt' sp' \<longleftrightarrow>
     store_ok tgt' sp' \<and> map fst tgt' = map fst tgt \<and> sp \<le> sp' \<and> (sp' = sp \<or> sp' = t + l) \<and>
     span (l, t) \<subseteq> free_ticks tgt sp \<and>
     free_ticks tgt' sp' \<subseteq> free_ticks tgt sp - (if split then {} else span (l, t)) \<and>
     (\<forall>u n. (\<exists>k\<in>fst ` set tgt. unat k \<le> n) \<longrightarrow> 0 < n \<longrightarrow> u + n \<le> unat t \<or> unat t + unat l \<le> u \<longrightarrow>
        open_at tgt sp n u \<longrightarrow> open_at tgt' sp' n u)"

lemma InsertFreeSlot_start:
  assumes ok: "store_ok tgt sp" and l: "0 < l" and b: "unat l + unat t < 2 ^ 64" and le: "sp \<le> t"
  shows "\<exists>tgt' sp'. InsertFreeSlot tgt l t sp sp split = Inr (tgt', sp') \<and> booked split tgt sp l t tgt' sp'"
proof -
  let ?ps = "(if split then [(l, t)] else []) @ (if t = sp then [] else [(t - sp, sp)])"
  have sum: "unat (t + l) = unat t + unat l" using unat_plus [of t l] b by simp
  have left: "unat (t - sp) = unat t - unat sp" by (rule unat_minus [OF le])
  have le': "unat sp \<le> unat t" using le by (simp add: word_le_nat_alt)
  have pos: "0 < unat l" using l by (simp add: word_less_nat_alt)
  have spans: "span (l, t) = {unat t..<unat t + unat l}" "span (t - sp, sp) = {unat sp..<unat t}"
    using left le' by (auto simp: span_def)
  have eq: "InsertFreeSlot tgt l t sp sp split = Inr (adds tgt ?ps, t + l)"
    using le by (auto simp: InsertFreeSlot_def word_le_less_eq)
  have sp': "sp \<le> t + l" using sum le' by (simp add: word_le_nat_alt)
  have ok': "store_ok tgt (t + l)" using ok sp' within_mono by (auto simp: store_ok_def)
  have before: "\<forall>i\<in>#ivals tgt. \<forall>x\<in>ticks i. x < unat sp"
    using ok by (auto simp: store_ok_def within_def ticks_def word_less_nat_alt)
  have "piece_ok tgt (t + l) (l, t)"
    using l sum le' before unfolding piece_ok_def spans by fastforce
  moreover have "t \<noteq> sp \<Longrightarrow> piece_ok tgt (t + l) (t - sp, sp)"
  proof -
    assume "t \<noteq> sp"
    then have "sp < t" using le by simp
    then have "unat sp < unat t" by (simp add: word_less_nat_alt)
    moreover have "\<forall>i\<in>#ivals tgt. {unat sp..<unat t} \<inter> ticks i = {}" using before by fastforce
    ultimately show ?thesis using left sum unfolding piece_ok_def spans by (simp add: word_less_nat_alt)
  qed
  ultimately have P: "\<forall>p\<in>set ?ps. piece_ok tgt (t + l) p" by auto
  have S: "sorted_wrt (\<lambda>p q. span p \<inter> span q = {}) ?ps" using spans by auto
  note A = adds_spec [OF ok' P S]
  have free: "free_ticks tgt (t + l) \<subseteq> free_ticks tgt sp - span (l, t)"
    using before le' sum unfolding free_ticks_def spans by fastforce
  have parts: "span (l, t) \<subseteq> free_ticks tgt sp" "{unat sp..<unat t} \<subseteq> free_ticks tgt sp" "{unat sp..<unat t} \<inter> span (l, t) = {}"
    using le' unfolding spans by (auto simp: free_ticks_def)
  have "free_ticks (adds tgt ?ps) (t + l) \<subseteq> free_ticks tgt (t + l) \<union> \<Union>(span ` set ?ps)" by (rule free_adds [OF ok' P S])
  moreover have "\<Union>(span ` set ?ps) \<subseteq> (if split then span (l, t) else {}) \<union> {unat sp..<unat t}" using spans by auto
  ultimately have free': "free_ticks (adds tgt ?ps) (t + l) \<subseteq> free_ticks tgt sp - (if split then {} else span (l, t))"
    using free parts by (cases split; simp only: if_True if_False) blast+
  have kept: "open_at (adds tgt ?ps) (t + l) n u"
    if k: "k \<in> fst ` set tgt" "unat k \<le> n" "0 < n" and u: "u + n \<le> unat t \<or> unat t + unat l \<le> u"
      and op: "open_at tgt sp n u" for u n k
  proof -
    consider "room (set_mset (ivals tgt)) n u" | "unat t + unat l \<le> u" | "unat sp \<le> u" "u + n \<le> unat t"
      using op u by (auto simp: open_at_def)
    then show ?thesis
    proof cases
      case 1
      then have "open_at tgt (t + l) n u" by (simp add: open_at_def)
      then show ?thesis by (rule open_at_mono [rotated 2]) (use A in auto)
    next
      case 2
      then show ?thesis by (simp add: open_at_def sum)
    next
      case 3
      then have "t \<noteq> sp" "{u..<u + n} \<subseteq> span (t - sp, sp)" using k(3) spans by auto
      then show ?thesis by (intro open_at_piece [OF ok' P S _ _ k(3,1,2)]) auto
    qed
  qed
  from A parts(1) free' kept sp' have "booked split tgt sp l t (adds tgt ?ps) (t + l)"
    unfolding booked_def by blast
  with eq show ?thesis by blast
qed

lemma InsertFreeSlot_interval:
  assumes ok: "store_ok tgt sp" and l: "0 < l" and i: "(st, e) \<in># ivals tgt" and f: "fits_at (unat l) (unat t) (st, e)"
  shows "\<exists>tgt'. InsertFreeSlot tgt l t st sp split = Inr (tgt', sp) \<and> booked split tgt sp l t tgt' sp"
proof -
  let ?right = "if l + t - 1 < e then [(e - (t + l - 1), t + l)] else []"
  let ?ps = "(if st < t then [(t - st, st)] else []) @ (if split then [(l, t)] else []) @ ?right"
  have se: "st \<le> e" "e < sp" using ok i by (auto simp: store_ok_def within_def)
  have se': "unat st \<le> unat e" "unat e < unat sp" using se by (auto simp: word_le_nat_alt word_less_nat_alt)
  have pos: "0 < unat l" using l by (simp add: word_less_nat_alt)
  have F: "unat st \<le> unat t" "unat t + unat l \<le> Suc (unat e)" using f by (auto simp: fits_at_def)
  have st: "st \<le> t" using F(1) by (simp add: word_le_nat_alt)
  have b: "unat l + unat t < 2 ^ 64" using F(2) se'(2) unat_bound [of sp] by linarith
  have sum: "unat (t + l) = unat t + unat l" using unat_plus [of t l] b by simp
  have last: "unat (l + t - 1) = unat t + unat l - 1" using unat_last [OF l b] by simp
  have room: "unat (e - t + 1) = Suc (unat e) - unat t" if "t \<le> e" using length_bound [OF that se(2)] .
  have te: "t \<le> e" using F(2) pos by (simp add: word_le_nat_alt)
  have enough: "\<not> e - t + 1 < l" using room [OF te] F(2) by (simp add: word_less_nat_alt)
  have spans: "span (l, t) = {unat t..<unat t + unat l}" "span (t - st, st) = {unat st..<unat t}"
    using unat_minus [OF st] F(1) by (auto simp: span_def)
  have right: "span (e - (t + l - 1), t + l) = {unat t + unat l..unat e}" "0 < e - (t + l - 1)"
    "unat (e - (t + l - 1)) + unat (t + l) = Suc (unat e)" if "l + t - 1 < e"
  proof -
    have u: "unat (t + l - 1) = unat t + unat l - 1" using last by (simp add: add.commute)
    have "t + l - 1 \<le> e" using that by (simp add: add.commute)
    from unat_minus [OF this] u have d: "unat (e - (t + l - 1)) = unat e - (unat t + unat l - 1)" by simp
    have "unat t + unat l - 1 < unat e" using that last by (simp add: word_less_nat_alt)
    with d sum pos show "span (e - (t + l - 1), t + l) = {unat t + unat l..unat e}" "0 < e - (t + l - 1)"
      "unat (e - (t + l - 1)) + unat (t + l) = Suc (unat e)"
      by (auto simp: span_def word_less_nat_alt)
  qed
  obtain before where bf: "tgt = before @ searched tgt l" "before = butlast (sm_upto l tgt)"
    using searched_split [of tgt l] by blast
  have io: "in_order tgt" using ok by (simp add: store_ok_def)
  have "\<exists>cs'. take_slot st (searched tgt l) = Some (e, cs') \<and> shrunk (searched tgt l) cs' \<and>
      ivals (searched tgt l) = add_mset (st, e) (ivals cs')"
  proof (rule take_slot_spec)
    show "\<forall>(k, m)\<in>set (searched tgt l). sorted_wrt (<) (map fst m)"
      using io bf(1) unfolding in_order_def by (metis UnCI set_append)
    show "all_apart (ivals (searched tgt l))"
      using all_apart_sub [OF _ searched_ivals] ok by (simp add: store_ok_def)
    show "\<forall>(s, e)\<in>#ivals (searched tgt l). s \<le> e"
      using within_sub [OF _ searched_ivals, of tgt sp l] ok by (auto simp: store_ok_def within_def)
    show "(st, e) \<in># ivals (searched tgt l)" by (rule fits_at_searched [OF ok i f])
  qed
  then obtain cs where cs: "take_slot st (searched tgt l) = Some (e, cs)" "shrunk (searched tgt l) cs"
    "ivals (searched tgt l) = add_mset (st, e) (ivals cs)" by blast
  define base where "base = before @ cs"
  have "in_order (before @ searched tgt l)" by (subst bf(1) [symmetric]) (rule io)
  then have "in_order before" by (auto simp: in_order_def sorted_wrt_append)
  then have shr: "shrunk tgt base" unfolding base_def by (subst bf(1)) (rule shrunk_append [OF shrunk_refl cs(2)])
  have iv: "ivals tgt = add_mset (st, e) (ivals base)" unfolding base_def by (subst bf(1)) (simp add: cs(3))
  note ok' = shrunk_ok [OF ok shr]
  have keys: "map fst base = map fst tgt" by (rule shrunk_keys [OF shr])
  have eq: "InsertFreeSlot tgt l t st sp split = Inr (adds base ?ps, sp)"
    using se enough st cs(1)
    by (auto simp: InsertFreeSlot_def Let_def searched_def base_def bf(2) adds_def)
  have apart: "\<forall>j\<in>#ivals base. ticks (st, e) \<inter> ticks j = {}"
  proof
    fix j assume j: "j \<in># ivals base"
    have "all_apart (add_mset (st, e) (ivals base))" using ok iv by (simp add: store_ok_def)
    then have a: "apart (st, e) j" using j by (simp add: all_apart_add)
    have "fst j \<le> snd j" using ok' j by (auto simp: store_ok_def within_def)
    with apart_ticks [OF se(1), of "fst j" "snd j"] a show "ticks (st, e) \<inter> ticks j = {}" by simp
  qed
  have inside: "piece_ok base sp p" if p: "0 < fst p" "span p \<subseteq> ticks (st, e)" for p
  proof -
    have "0 < unat (fst p)" using p(1) by (simp add: word_less_nat_alt)
    then have "unat (snd p) + unat (fst p) - 1 \<in> span p" by (auto simp: span_def)
    with p(2) have "unat (snd p) + unat (fst p) - 1 \<le> unat e" by (auto simp: ticks_def)
    with se'(2) have "unat (fst p) + unat (snd p) \<le> unat sp" by linarith
    with p apart show ?thesis unfolding piece_ok_def by blast
  qed
  have tk: "ticks (st, e) = {unat st..unat e}" by (simp add: ticks_def)
  have parts: "span (l, t) \<subseteq> ticks (st, e)" "span (t - st, st) \<subseteq> ticks (st, e)"
    "l + t - 1 < e \<Longrightarrow> span (e - (t + l - 1), t + l) \<subseteq> ticks (st, e)"
    using F right(1) unfolding spans tk by auto
  have clear: "span (t - st, st) \<inter> span (l, t) = {}"
    "l + t - 1 < e \<Longrightarrow> span (e - (t + l - 1), t + l) \<inter> span (l, t) = {}"
    using right(1) unfolding spans by auto
  have "st < t \<Longrightarrow> 0 < t - st"
    using unat_minus [OF st] by (simp add: word_less_nat_alt)
  then have P: "\<forall>p\<in>set ?ps. piece_ok base sp p" using inside l right(2) parts by auto
  have S: "sorted_wrt (\<lambda>p q. span p \<inter> span q = {}) ?ps"
    using right(1) spans by auto
  note A = adds_spec [OF ok' P S]
  have lower: "free_ticks base sp \<inter> ticks (st, e) = {}"
  proof -
    have "{unat sp..} \<inter> ticks (st, e) = {}" using se'(2) by (auto simp: ticks_def)
    with apart show ?thesis unfolding free_ticks_def by blast
  qed
  have whole: "free_ticks tgt sp = free_ticks base sp \<union> ticks (st, e)"
    unfolding free_ticks_def iv by auto
  have "free_ticks (adds base ?ps) sp \<subseteq> free_ticks base sp \<union> \<Union>(span ` set ?ps)" by (rule free_adds [OF ok' P S])
  moreover have "\<Union>(span ` set ?ps) \<subseteq> ticks (st, e) - (if split then {} else span (l, t))"
  proof (rule UN_least)
    fix p assume "p \<in> set ?ps"
    then consider "p = (t - st, st)" | "split" "p = (l, t)" | "l + t - 1 < e" "p = (e - (t + l - 1), t + l)"
      by (auto split: if_splits)
    then show "span p \<subseteq> ticks (st, e) - (if split then {} else span (l, t))"
    proof cases
      case 1
      then show ?thesis using parts(2) clear(1) by (cases split) auto
    next
      case 2
      then show ?thesis using parts(1) by simp
    next
      case 3
      then show ?thesis using parts(3) clear(2) by (cases split) auto
    qed
  qed
  ultimately have free: "free_ticks (adds base ?ps) sp \<subseteq> free_ticks tgt sp - (if split then {} else span (l, t))"
    using lower parts(1) unfolding whole by (cases split; simp only: if_True if_False) blast+
  have kept: "open_at (adds base ?ps) sp n u"
    if k: "k \<in> fst ` set tgt" "unat k \<le> n" "0 < n" and u: "u + n \<le> unat t \<or> unat t + unat l \<le> u"
      and op: "open_at tgt sp n u" for u n k
  proof -
    have kb: "k \<in> fst ` set base" using k(1) keys by (metis set_map)
    consider "open_at base sp n u" | "fits_at n u (st, e)"
      using op by (auto simp: open_at_def room_def iv)
    then show ?thesis
    proof cases
      case 1
      then show ?thesis by (rule open_at_mono [rotated 2]) (use A in auto)
    next
      case 2
      then have f2: "unat st \<le> u" "u + n \<le> Suc (unat e)" by (auto simp: fits_at_def)
      show ?thesis
      proof (cases "u + n \<le> unat t")
        case True
        with f2 k(3) have "st < t" "{u..<u + n} \<subseteq> span (t - st, st)" unfolding spans by (auto simp: word_less_nat_alt)
        then show ?thesis by (intro open_at_piece [OF ok' P S _ _ k(3) kb k(2)]) auto
      next
        case False
        with u have ul: "unat t + unat l \<le> u" by simp
        with f2 k(3) pos have "unat t + unat l - 1 < unat e" by linarith
        with last have lt: "l + t - 1 < e" by (simp add: word_less_nat_alt)
        with ul f2 have "{u..<u + n} \<subseteq> span (e - (t + l - 1), t + l)" unfolding right(1) [OF lt] by auto
        with lt show ?thesis by (intro open_at_piece [OF ok' P S _ _ k(3) kb k(2)]) auto
      qed
    qed
  qed
  have "span (l, t) \<subseteq> free_ticks tgt sp" using parts(1) whole by blast
  moreover have "map fst (adds base ?ps) = map fst tgt"
    using A [THEN conjunct2, THEN conjunct1] unfolding keys .
  ultimately have "booked split tgt sp l t (adds base ?ps) sp"
    using A [THEN conjunct1] free kept unfolding booked_def by blast
  with eq show ?thesis by blast
qed

text \<open>The law of the store: a booking of an opening takes it, all of it and nothing else for good.\<close>

lemma InsertFreeSlot_spec:
  assumes "store_ok tgt sp" and "0 < l" and "unat l + unat t < 2 ^ 64" and "held tgt sp (unat l) (unat t) st"
  shows "\<exists>tgt' sp'. InsertFreeSlot tgt l t st sp split = Inr (tgt', sp') \<and> booked split tgt sp l t tgt' sp'"
  using assms(4) InsertFreeSlot_start [OF assms(1-3)] InsertFreeSlot_interval [OF assms(1,2)]
  unfolding held_def word_le_nat_alt by blast

end
