(* ===== verification/Pal2Schedule.thy ===== *)
theory Pal2Schedule
  imports Pal2Slots
begin

text \<open>
  The search loops of the scheduler, on top of the laws of the free stores: they always end, and
  they end with a start that is open on the channel and on the die. Times are compared as natural
  numbers; \<open>horizon\<close> says how much simulated time is left before a 64-bit sum could wrap.
\<close>

section \<open>Looking for an opening\<close>

lemma held_unique:
  assumes "store_ok tgt sp" and "0 < n" and "held tgt sp n u st" and "held tgt sp n' u st'" and "0 < n'"
  shows "st = st'"
proof -
  have W: "unat s \<le> unat e \<and> unat e < unat sp" if "(s, e) \<in># ivals tgt" for s e
    using assms(1) that by (auto simp: store_ok_def within_def word_le_nat_alt word_less_nat_alt)
  have A: "s = s'" if i: "(s, e) \<in># ivals tgt" "(s', e') \<in># ivals tgt" and f: "fits_at n u (s, e)" "fits_at n' u (s', e')"
    for s e s' e'
  proof (rule ccontr)
    assume "s \<noteq> s'"
    have "all_apart (ivals tgt)" using assms(1) by (simp add: store_ok_def)
    from all_apart_pair [OF this i] \<open>s \<noteq> s'\<close> have "apart (s, e) (s', e')" by simp
    with f assms(2,5) show False by (auto simp: apart_def fits_at_def word_less_nat_alt)
  qed
  have B: "\<not> (fits_at m u (s, e) \<and> unat sp \<le> u)" if "(s, e) \<in># ivals tgt" "0 < m" for s e m
    using W [OF that(1)] that(2) by (auto simp: fits_at_def)
  show ?thesis using assms(2-5) A B unfolding held_def by metis
qed

lemma held_shorter: "held tgt sp n u st \<Longrightarrow> m \<le> n \<Longrightarrow> held tgt sp m u st"
  unfolding held_def fits_at_def by fastforce

lemma held_later: "held tgt sp n u st \<Longrightarrow> u \<le> v \<Longrightarrow> v + m \<le> u + n \<Longrightarrow> held tgt sp m v st"
  unfolding held_def fits_at_def by fastforce

lemma open_at_held: "open_at tgt sp n u \<Longrightarrow> \<exists>st. held tgt sp n u st"
  unfolding open_at_def held_def room_def by (metis prod.collapse)

definition first_open :: "slots \<Rightarrow> u64 \<Rightarrow> u64 \<Rightarrow> u64 \<Rightarrow> u64 \<Rightarrow> u64 \<Rightarrow> bool" where
  "first_open tgt sp l f t st \<longleftrightarrow>
     unat f \<le> unat t \<and> held tgt sp (unat l) (unat t) st \<and>
     (\<forall>u\<ge>unat f. u < unat t \<longrightarrow> \<not> open_at tgt sp (unat l) u) \<and> (t = f \<or> st = t) \<and> unat t \<le> max (unat f) (unat sp)"

lemma first_openD:
  assumes "first_open tgt sp l f t st"
  shows "unat f \<le> unat t" and "held tgt sp (unat l) (unat t) st" and "unat st \<le> unat t"
    and "t = f \<or> st = t" and "unat t \<le> max (unat f) (unat sp)" and "f \<le> t"
  using assms held_start by (auto simp: first_open_def word_le_nat_alt)

text \<open>A fit in the store decides the start point case: the intervals end before it.\<close>

lemma find_or_start_spec:
  assumes ok: "store_ok tgt sp" and l: "0 < l" and b: "unat l + unat f < 2 ^ 64" "unat l + unat sp < 2 ^ 64"
  shows "\<exists>t st c. find_or_start tgt sp l f = Inr (t, st, c) \<and> (c \<longleftrightarrow> f < t) \<and> first_open tgt sp l f t st"
    and "\<exists>v c t. verify_start tgt sp l f = Inr (v, c) \<and> first_open tgt sp l f t v"
proof -
  from FindFreeTime_spec [OF ok l b] obtain r where r: "FindFreeTime tgt l f = Inr r"
    "case r of None \<Rightarrow> \<forall>t\<ge>unat f. \<not> room (set_mset (ivals tgt)) (unat l) t
     | Some (s, late) \<Rightarrow> \<exists>t e. (s, e) \<in># ivals tgt \<and> fits_at (unat l) t (s, e) \<and> unat f \<le> t \<and>
        t = (if late then unat s else unat f) \<and> (late \<longrightarrow> f < s) \<and>
        (\<forall>u\<ge>unat f. u < t \<longrightarrow> \<not> room (set_mset (ivals tgt)) (unat l) u)"
    by blast
  have "\<exists>t st c c'. find_or_start tgt sp l f = Inr (t, st, c) \<and> verify_start tgt sp l f = Inr (st, c') \<and>
    (c \<longleftrightarrow> f < t) \<and> first_open tgt sp l f t st"
  proof (cases r)
    case None
    let ?t = "if f < sp then sp else f"
    have "first_open tgt sp l f ?t sp"
      using r(2) None by (auto simp: first_open_def held_def open_at_def word_less_nat_alt word_le_nat_alt)
    then show ?thesis using r(1) None by (auto simp: find_or_start_def verify_start_def)
  next
    case (Some x)
    obtain s late where x: "x = (s, late)" by (cases x)
    from r(2) Some x obtain e where e: "(s, e) \<in># ivals tgt" and
      F: "fits_at (unat l) (if late then unat s else unat f) (s, e)" "late \<longrightarrow> f < s"
      "\<forall>u\<ge>unat f. u < (if late then unat s else unat f) \<longrightarrow> \<not> room (set_mset (ivals tgt)) (unat l) u"
      by auto
    have "s < sp" using ok e by (fastforce simp: store_ok_def within_def)
    then have "first_open tgt sp l f (if late then s else f) s"
      using e F by (cases late) (auto simp: first_open_def held_def open_at_def word_less_nat_alt word_le_nat_alt)
    then show ?thesis using r(1) Some x F(2) by (cases late) (auto simp: find_or_start_def verify_start_def)
  qed
  then show "\<exists>t st c. find_or_start tgt sp l f = Inr (t, st, c) \<and> (c \<longleftrightarrow> f < t) \<and> first_open tgt sp l f t st"
    and "\<exists>v c t. verify_start tgt sp l f = Inr (v, c) \<and> first_open tgt sp l f t v" by blast+
qed

text \<open>When the start is open anyway, the search stays there.\<close>

lemma first_open_here:
  assumes "first_open tgt sp l f t st" and "open_at tgt sp (unat l) (unat f)"
  shows "t = f"
  using assms unfolding first_open_def by (metis le_neq_implies_less order_refl word_unat_eq_iff)

lemma first_open_same:
  assumes "store_ok tgt sp" and "0 < l" and "first_open tgt sp l f t st" and "held tgt sp n (unat f) st'" and "unat l \<le> n"
  shows "t = f \<and> st = st'"
proof -
  have h: "held tgt sp (unat l) (unat f) st'" by (rule held_shorter [OF assms(4,5)])
  have t: "t = f" by (rule first_open_here [OF assms(3) held_open [OF h]])
  have "0 < unat l" using assms(2) by (simp add: word_less_nat_alt)
  with held_unique [OF assms(1) _ _ h] first_openD(2) [OF assms(3)] t show ?thesis by blast
qed

lemma first_open_moves:
  assumes "first_open tgt sp l f t st" and "\<not> unat st \<le> unat f"
  shows "st = t" and "unat f < unat t" and "unat t \<le> unat sp"
  using assms held_start [of tgt sp "unat l" "unat t" st] unfolding first_open_def
  by (auto simp: max_def split: if_splits)

lemma first_open_stays:
  assumes "first_open tgt sp l f t st" and "unat st \<le> unat f"
  shows "t = f"
  using assms unfolding first_open_def by (auto simp: word_unat_eq_iff)

section \<open>The search loops\<close>

text \<open>Every sum of a search starting at \<open>f\<close> stays below \<open>2\<^sup>6\<^sup>4\<close> when \<open>n\<close> covers its lengths.\<close>

definition horizon :: "nat \<Rightarrow> u64 list \<Rightarrow> bool" where
  "horizon n xs \<longleftrightarrow> (\<forall>x\<in>set xs. 2 * (unat x + n) < 2 ^ 64)"

lemma loop1_spec:
  assumes ch: "store_ok ch cs" and die: "store_ok die ds" and pos: "0 < l0" "0 < lm"
    and hor: "horizon n [f, cs, ds]" and n: "unat l0 + unat lm \<le> n"
  shows "(unat ds - unat f \<le> fuel \<longrightarrow> loop1 fuel ch cs die ds l0 lm f conf \<noteq> None) \<and>
    (\<forall>r. loop1 fuel ch cs die ds l0 lm f conf = Some r \<longrightarrow>
      (\<exists>t st0 stm conf'. r = Inr (t, st0, stm, conf') \<and> unat f \<le> unat t \<and>
        unat t \<le> max (unat f) (max (unat cs) (unat ds)) \<and>
        held ch cs (unat l0) (unat t) st0 \<and> held die ds (unat (l0 + lm)) (unat t) stm))"
  using hor
proof (induction fuel arbitrary: f conf rule: less_induct)
  case (less fuel)
  note H = less.prems
  have small: "unat x + n < 2 ^ 63" if "unat x \<le> max (unat f) (max (unat cs) (unat ds))" for x :: u64
    using H that by (auto simp: horizon_def)
  have sum: "unat (l0 + lm) = unat l0 + unat lm" by (rule unat_plus) (use n small [of f, OF max.cobounded1] in simp)
  have pos2: "0 < l0 + lm" using sum pos(1) by (simp add: word_less_nat_alt)
  have fit: "unat l0 + unat x < 2 ^ 64" "unat (l0 + lm) + unat x < 2 ^ 64"
    if "unat x \<le> max (unat f) (max (unat cs) (unat ds))" for x :: u64
    using small [OF that] n sum by simp_all
  have le: "unat f \<le> max (unat f) (max (unat cs) (unat ds))" "unat cs \<le> max (unat f) (max (unat cs) (unat ds))"
    "unat ds \<le> max (unat f) (max (unat cs) (unat ds))" by auto
  obtain t0 st0 c where A: "find_or_start ch cs l0 f = Inr (t0, st0, c)" "first_open ch cs l0 f t0 st0"
    using find_or_start_spec(1) [OF ch pos(1) fit(1) [OF le(1)] fit(1) [OF le(2)]] by blast
  note A' = first_openD [OF A(2)]
  have t0: "unat t0 \<le> max (unat f) (max (unat cs) (unat ds))" using A'(5) by linarith
  obtain tm stm c' where B: "find_or_start die ds (l0 + lm) t0 = Inr (tm, stm, c')" "first_open die ds (l0 + lm) t0 tm stm"
    using find_or_start_spec(1) [OF die pos2 fit(2) [OF t0] fit(2) [OF le(3)]] by blast
  note B' = first_openD [OF B(2)]
  have tm: "unat tm \<le> max (unat f) (max (unat cs) (unat ds))" using B'(5) t0 by linarith
  obtain v c'' tv where C: "verify_start ch cs l0 tm = Inr (v, c'')" "first_open ch cs l0 tm tv v"
    using find_or_start_spec(2) [OF ch pos(1) fit(1) [OF tm] fit(1) [OF le(2)]] by blast
  let ?conf = "note_conflict c'' CONFLICT_DMA0 CONFLICT_MEM (note_conflict c CONFLICT_MEM CONFLICT_DMA0 conf)"
  have step: "loop1 fuel ch cs die ds l0 lm f conf =
     (if stm = st0 then Some (Inr (t0, st0, stm, note_conflict c CONFLICT_MEM CONFLICT_DMA0 conf))
      else if v = st0 then Some (Inr (tm, st0, stm, note_conflict c CONFLICT_MEM CONFLICT_DMA0 conf))
      else case fuel of 0 \<Rightarrow> None | Suc fuel' \<Rightarrow> loop1 fuel' ch cs die ds l0 lm tm ?conf)"
    by (subst loop1.simps) (simp add: A(1) B(1) C(1) Let_def)
  show ?case
  proof (cases "stm = st0")
    case True
    then have "tm = t0" using first_open_stays [OF B(2)] A'(3) by simp
    then show ?thesis using step True A'(1,2) B'(2) t0 by auto
  next
    case F: False
    show ?thesis
    proof (cases "v = st0")
      case True
      have "unat v \<le> unat tm" using True A'(3) B'(1) by simp
      then have "tv = tm" using first_open_stays [OF C(2)] by simp
      then have "held ch cs (unat l0) (unat tm) st0" using first_openD(2) [OF C(2)] True by simp
      then show ?thesis using step F True A'(1) B'(1,2) tm by auto
    next
      case G: False
      have moved: "tm \<noteq> t0"
      proof
        assume "tm = t0"
        with first_open_same [OF ch pos(1), of tm tv v "unat l0" st0] C(2) A'(2) G show False by simp
      qed
      then have "\<not> unat stm \<le> unat t0" using first_open_stays [OF B(2)] by blast
      from first_open_moves(2,3) [OF B(2) this] have m: "unat t0 < unat tm" "unat tm \<le> unat ds" .
      show ?thesis
      proof (cases fuel)
        case 0
        then show ?thesis using step F G m A'(1) by auto
      next
        case (Suc fuel')
        have "horizon n [tm, cs, ds]" using H m(2) by (auto simp: horizon_def)
        note I = less.IH [OF _ this, of fuel' ?conf]
        have S: "loop1 fuel ch cs die ds l0 lm f conf = loop1 fuel' ch cs die ds l0 lm tm ?conf"
          using step F G Suc by simp
        have len: "unat f < unat tm" "unat tm \<le> unat ds" using A'(1) m by simp_all
        show ?thesis
          unfolding S
        proof (intro conjI allI impI)
          show "loop1 fuel' ch cs die ds l0 lm tm ?conf \<noteq> None" if "unat ds - unat f \<le> fuel"
            using I Suc that len by simp
          fix r assume "loop1 fuel' ch cs die ds l0 lm tm ?conf = Some r"
          with I Suc obtain t st0 stm conf' where "r = Inr (t, st0, stm, conf')" "unat tm \<le> unat t"
            "unat t \<le> max (unat tm) (max (unat cs) (unat ds))" "held ch cs (unat l0) (unat t) st0"
            "held die ds (unat (l0 + lm)) (unat t) stm"
            by blast
          with len show "\<exists>t st0 stm conf'. r = Inr (t, st0, stm, conf') \<and> unat f \<le> unat t \<and>
              unat t \<le> max (unat f) (max (unat cs) (unat ds)) \<and>
              held ch cs (unat l0) (unat t) st0 \<and> held die ds (unat (l0 + lm)) (unat t) stm"
            by auto
        qed
      qed
    qed
  qed
qed

definition placed_ok :: "slots \<Rightarrow> u64 \<Rightarrow> slots \<Rightarrow> u64 \<Rightarrow> u64 \<Rightarrow> u64 \<Rightarrow> u64 \<Rightarrow> u64 \<Rightarrow> u64 \<Rightarrow> placement \<Rightarrow> bool" where
  "placed_ok ch cs die ds l0 lm l1 la f pl \<longleftrightarrow>
     unat f \<le> unat (plFrom0 pl) \<and> unat (plFrom0 pl) \<le> max (unat f) (max (unat cs) (unat ds)) \<and>
     held ch cs (unat l0) (unat (plFrom0 pl)) (plTick0 pl) \<and>
     held die ds (unat (plTotal pl)) (unat (plFrom0 pl)) (plTickMem pl) \<and>
     first_open ch cs (l1 + la) (plFrom0 pl + (l0 + lm)) (plFrom1 pl) (plTick1 pl) \<and>
     unat (plFrom0 pl) + unat l0 + unat lm \<le> unat (plFrom1 pl) \<and>
     unat (plFrom1 pl) \<le> max (unat (plFrom0 pl) + unat l0 + unat lm) (unat cs) \<and>
     unat (plFrom0 pl) + unat (plTotal pl) = unat (plFrom1 pl) + unat l1 + unat la"

text \<open>
  Every search of the outer loop either ends or moves the start past an interval of the die; it can
  move no further than the start point of the die, so \<open>ds - f\<close> rounds are enough.
\<close>

lemma loop0_spec:
  assumes ch: "store_ok ch cs" and die: "store_ok die ds" and pos: "0 < l0" "0 < lm" "0 < l1"
    and hor: "horizon n [f, cs, ds]" and n: "unat l0 + unat lm + unat l1 + unat la \<le> n"
  shows "(unat ds - unat f \<le> fuel \<longrightarrow> loop0 fuel ch cs die ds l0 lm l1 la f conf \<noteq> None) \<and>
    (\<forall>r. loop0 fuel ch cs die ds l0 lm l1 la f conf = Some r \<longrightarrow>
      (\<exists>pl. r = Inr pl \<and> placed_ok ch cs die ds l0 lm l1 la f pl))"
  using hor
proof (induction fuel arbitrary: f conf rule: less_induct)
  case (less fuel)
  note H = less.prems
  let ?T = "max (unat f) (max (unat cs) (unat ds))"
  have small: "2 * (unat x + n) < 2 ^ 64" if "unat x \<le> ?T" for x :: u64
    using H that by (auto simp: horizon_def)
  have s0: "unat (l0 + lm) = unat l0 + unat lm"
    by (rule unat_plus) (use n small [of f, OF max.cobounded1] in simp)
  have s1: "unat (l1 + la) = unat l1 + unat la"
    by (rule unat_plus) (use n small [of f, OF max.cobounded1] in simp)
  have n0: "unat l0 + unat lm \<le> n" using n by simp
  note L = loop1_spec [OF ch die pos(1,2) H n0, of fuel conf]
  show ?case
  proof (cases "loop1 fuel ch cs die ds l0 lm f conf")
    case None
    then have "loop0 fuel ch cs die ds l0 lm l1 la f conf = None" by (subst loop0.simps) simp
    with L None show ?thesis by simp
  next
    case (Some r)
    with L obtain t st0 stm conf1 where r: "r = Inr (t, st0, stm, conf1)" and
      t: "unat f \<le> unat t" "unat t \<le> ?T" "held ch cs (unat l0) (unat t) st0" "held die ds (unat (l0 + lm)) (unat t) stm"
      by blast
    have nt: "2 * (unat t + n) < 2 ^ 64" by (rule small [OF t(2)])
    have e0: "unat (t + (l0 + lm)) = unat t + unat l0 + unat lm"
      using unat_plus [of t "l0 + lm"] nt n0 s0 by simp
    have p1: "0 < l1 + la" using s1 pos(3) by (simp add: word_less_nat_alt)
    have ncs: "2 * (unat cs + n) < 2 ^ 64" "2 * (unat ds + n) < 2 ^ 64" using H by (auto simp: horizon_def)
    obtain t1 st1 c1 where A: "find_or_start ch cs (l1 + la) (t + (l0 + lm)) = Inr (t1, st1, c1)"
      "first_open ch cs (l1 + la) (t + (l0 + lm)) t1 st1"
      using find_or_start_spec(1) [OF ch p1, of "t + (l0 + lm)"] nt n s1 e0 ncs(1) by fastforce
    note A' = first_openD [OF A(2)]
    have t1: "unat t1 \<le> max (unat t + unat l0 + unat lm) (unat cs)" "unat t + unat l0 + unat lm \<le> unat t1"
      using A'(1,5) e0 by simp_all
    have t1n: "2 * (unat t1 + unat l1 + unat la) < 2 ^ 64" using t1(1) nt ncs(1) n by (simp add: max_def split: if_splits)
    have e1: "unat (t1 + l1 + la) = unat t1 + unat l1 + unat la"
      using unat_plus [of "t1" "l1 + la"] t1n s1 by (simp add: add.assoc)
    have le: "t \<le> t1 + l1 + la" using t1(2) e1 by (simp add: word_le_nat_alt)
    define total where "total = (t1 + l1 + la) - t"
    have tot: "unat t + unat total = unat t1 + unat l1 + unat la"
      unfolding total_def using unat_minus [OF le] e1 le by (simp add: word_le_nat_alt)
    have more: "unat l0 + unat lm \<le> unat total" using tot t1(2) by linarith
    have ptot: "0 < total" using more pos(1) by (simp add: word_less_nat_alt)
    have "unat total + unat t < 2 ^ 64" "unat total + unat ds < 2 ^ 64"
      using tot t1n ncs(2) by simp_all
    with find_or_start_spec(2) [OF die ptot] obtain v c2 tv where C: "verify_start die ds total t = Inr (v, c2)"
      "first_open die ds total t tv v" by blast
    have step: "loop0 fuel ch cs die ds l0 lm l1 la f conf =
       (if v = stm then Some (Inr \<lparr>plFrom0 = t, plTick0 = st0, plTickMem = stm, plFrom1 = t1,
                                 plTick1 = st1, plTotal = total, plConf = conf1\<rparr>)
        else case fuel of 0 \<Rightarrow> None
          | Suc fuel' \<Rightarrow> loop0 fuel' ch cs die ds l0 lm l1 la v (conf1 OR CONFLICT_DMA1))"
      by (subst loop0.simps) (use Some r A(1) C(1) in \<open>simp add: Let_def total_def\<close>)
    show ?thesis
    proof (cases "v = stm")
      case True
      then have "tv = t" using first_open_stays [OF C(2)] held_start [OF t(4)] by simp
      then have "held die ds (unat total) (unat t) stm" using first_openD(2) [OF C(2)] True by simp
      then have "placed_ok ch cs die ds l0 lm l1 la f \<lparr>plFrom0 = t, plTick0 = st0, plTickMem = stm, plFrom1 = t1,
                                 plTick1 = st1, plTotal = total, plConf = conf1\<rparr>"
        using t A(2) t1 tot by (simp add: placed_ok_def)
      with step True show ?thesis by simp
    next
      case False
      have moved: "\<not> unat v \<le> unat t"
      proof
        assume "unat v \<le> unat t"
        then have "tv = t" by (rule first_open_stays [OF C(2)])
        then have "held die ds (unat (l0 + lm)) (unat t) v"
          using held_shorter [OF first_openD(2) [OF C(2)], of "unat (l0 + lm)"] more s0 by simp
        moreover have "0 < unat (l0 + lm)" using s0 pos(1) by (simp add: word_less_nat_alt)
        ultimately show False using held_unique [OF die _ t(4)] False by blast
      qed
      note m = first_open_moves [OF C(2) moved]
      show ?thesis
      proof (cases fuel)
        case 0
        then show ?thesis using step False m t(1) by auto
      next
        case (Suc fuel')
        have hv: "horizon n [v, cs, ds]" using H m(1,3) by (auto simp: horizon_def)
        have fv: "unat f < unat v" "unat v \<le> unat ds" using m t(1) by auto
        have "placed_ok ch cs die ds l0 lm l1 la f pl" if "placed_ok ch cs die ds l0 lm l1 la v pl" for pl
          using that fv unfolding placed_ok_def by auto
        with less.IH [OF _ hv, of fuel' "conf1 OR CONFLICT_DMA1"] show ?thesis using step False fv Suc by auto
      qed
    qed
  qed
qed

section \<open>The bookings of a command\<close>

lemma TimeSlot_ticks:
  assumes "0 < l" and "unat l + unat f < 2 ^ 64"
  shows "ticks (TimeSlot f l) = span (l, f)" and "fst (TimeSlot f l) = f"
    and "Suc (unat (snd (TimeSlot f l))) = unat f + unat l"
proof -
  have "unat (f + l - 1) = unat l + unat f - 1" using unat_last [OF assms] by (simp add: add.commute)
  moreover have "0 < unat l" using assms(1) by (simp add: word_less_nat_alt)
  ultimately show "ticks (TimeSlot f l) = span (l, f)" "fst (TimeSlot f l) = f"
    "Suc (unat (snd (TimeSlot f l))) = unat f + unat l"
    by (auto simp: TimeSlot_def ticks_def span_def)
qed

definition booking_ok ::
  "slots \<Rightarrow> u64 \<Rightarrow> slots \<Rightarrow> u64 \<Rightarrow> u64 \<Rightarrow> u64 \<Rightarrow> u64 \<Rightarrow> u64 \<Rightarrow> u64 \<Rightarrow> booking \<Rightarrow> bool" where
  "booking_ok ch cs die ds l0 lm l1 la f b \<longleftrightarrow>
     store_ok (bkCh b) (bkCs b) \<and> map fst (bkCh b) = map fst ch \<and> store_ok (bkDie b) (bkDs b) \<and>
     ticks (tsDMA0 b) \<union> ticks (tsDMA1 b) \<subseteq> free_ticks ch cs \<and> ticks (tsDMA0 b) \<inter> ticks (tsDMA1 b) = {} \<and>
     free_ticks (bkCh b) (bkCs b) \<subseteq> free_ticks ch cs - (ticks (tsDMA0 b) \<union> ticks (tsDMA1 b)) \<and>
     ticks (tsMEM b) \<subseteq> free_ticks die ds \<and> free_ticks (bkDie b) (bkDs b) \<subseteq> free_ticks die ds - ticks (tsMEM b) \<and>
     unat f \<le> unat (fst (tsDMA0 b)) \<and> fst (tsMEM b) = fst (tsDMA0 b) \<and>
     Suc (unat (snd (tsDMA0 b))) = unat (fst (tsDMA0 b)) + unat l0 \<and>
     Suc (unat (snd (tsDMA1 b))) = unat (fst (tsDMA1 b)) + unat l1 \<and>
     unat (fst (tsDMA0 b)) + unat l0 + unat lm + unat la \<le> unat (fst (tsDMA1 b)) \<and>
     unat (fst (tsDMA1 b)) \<le> max (unat f) (max (unat cs) (unat ds)) + unat l0 + unat lm + unat la \<and>
     unat (snd (tsMEM b)) \<le> unat (snd (tsDMA1 b)) \<and>
     unat (bkCs b) \<le> max (unat f) (max (unat cs) (unat ds)) + (unat l0 + unat lm + unat l1 + 2 * unat la) \<and>
     unat (bkDs b) \<le> max (unat f) (max (unat cs) (unat ds)) + (unat l0 + unat lm + unat l1 + 2 * unat la) \<and>
     ((\<exists>k\<in>fst ` set ch. unat k \<le> unat l1 + unat la) \<longrightarrow> snd (tsMEM b) = snd (tsDMA1 b))"

text \<open>The last booking splits a piece of the channel off; it takes nothing.\<close>

lemma book_anti:
  assumes "store_ok ch cs" and "0 < l" and "unat l + unat nx < 2 ^ 64" and "unat l + unat cs < 2 ^ 64"
  shows "\<exists>nx' st c ch' cs'. find_or_start ch cs l nx = Inr (nx', st, c) \<and>
    (if nx' = nx then InsertFreeSlot ch l nx' st cs True else Inr (ch, cs)) = Inr (ch', cs') \<and>
    store_ok ch' cs' \<and> map fst ch' = map fst ch \<and> free_ticks ch' cs' \<subseteq> free_ticks ch cs \<and>
    (cs' = cs \<or> cs' = nx + l)"
proof -
  obtain nx' st c where A: "find_or_start ch cs l nx = Inr (nx', st, c)" "first_open ch cs l nx nx' st"
    using find_or_start_spec(1) [OF assms] by blast
  show ?thesis
  proof (cases "nx' = nx")
    case True
    have "held ch cs (unat l) (unat nx) st" using first_openD(2) [OF A(2)] True by simp
    from InsertFreeSlot_spec [OF assms(1-3) this, of True] A(1) True show ?thesis by (auto simp: booked_def)
  next
    case False
    with A(1) assms(1) show ?thesis by auto
  qed
qed

lemma start_same: "unat s \<le> unat t \<Longrightarrow> \<not> s < t \<Longrightarrow> s = (t :: u64)"
  by (simp add: word_less_nat_alt word_unat_eq_iff)

lemma book_all_spec:
  assumes ch: "store_ok ch cs" and die: "store_ok die ds" and pos: "0 < l0" "0 < lm" "0 < l1" "0 < la"
    and hor: "horizon n [f, cs, ds]" and n: "unat l0 + unat lm + unat l1 + 2 * unat la \<le> n"
    and pl: "placed_ok ch cs die ds l0 lm l1 la f pl"
  shows "\<exists>b. book_all ch cs die ds l0 l1 la pl = Inr b \<and> booking_ok ch cs die ds l0 lm l1 la f b"
proof -
  let ?T = "max (unat f) (max (unat cs) (unat ds))"
  define from0 where "from0 = plFrom0 pl"
  define total where "total = plTotal pl"
  note P = pl [unfolded placed_ok_def, folded from0_def total_def]
  have T: "2 * (?T + n) < 2 ^ 64" using hor by (auto simp: horizon_def)
  have u: "0 < unat l0" "0 < unat lm" "0 < unat l1" "0 < unat la" using pos by (simp_all add: word_less_nat_alt)
  have f0: "unat f \<le> unat from0" "unat from0 \<le> ?T" using P by simp_all
  have t0: "unat (plTick0 pl) \<le> unat from0" "unat (plTickMem pl) \<le> unat from0" using P held_start by blast+
  have b0: "unat l0 + unat from0 < 2 ^ 64" using f0(2) T n by simp
  obtain ch1 cs1 where B1: "InsertFreeSlot ch l0 from0 (plTick0 pl) cs False = Inr (ch1, cs1)"
    "booked False ch cs l0 from0 ch1 cs1"
    using InsertFreeSlot_spec [OF ch pos(1) b0, of "plTick0 pl" False] P by blast
  have ok1: "store_ok ch1 cs1" and keys1: "map fst ch1 = map fst ch"
    and sub1: "free_ticks ch1 cs1 \<subseteq> free_ticks ch cs - span (l0, from0)" "span (l0, from0) \<subseteq> free_ticks ch cs"
    using B1(2) by (auto simp: booked_def)
  have sum0: "unat (from0 + l0) = unat from0 + unat l0" using unat_plus [of from0 l0] b0 by simp
  have c1: "unat cs1 \<le> ?T + unat l0" using B1(2) sum0 f0(2) by (auto simp: booked_def)
  have s1: "unat (l1 + la) = unat l1 + unat la" by (rule unat_plus) (use T n in simp)
  have p1: "0 < l1 + la" using s1 u by (simp add: word_less_nat_alt)
  have from1: "unat from0 + unat l0 + unat lm \<le> unat (plFrom1 pl)" "unat (plFrom1 pl) \<le> ?T + unat l0 + unat lm"
    using P f0(2) by auto
  obtain t1 st1 c where A: "find_or_start ch1 cs1 (l1 + la) (plFrom1 pl) = Inr (t1, st1, c)"
    "first_open ch1 cs1 (l1 + la) (plFrom1 pl) t1 st1"
    using find_or_start_spec(1) [OF ok1 p1, of "plFrom1 pl"] from1(2) c1 s1 T n by fastforce
  note A' = first_openD [OF A(2)]
  have t1: "unat (plFrom1 pl) \<le> unat t1" "unat t1 \<le> ?T + unat l0 + unat lm" using A'(1,5) from1(2) c1 by auto
  have s2: "unat (t1 + la) = unat t1 + unat la" by (rule unat_plus) (use t1(2) T n in simp)
  have at: "(if st1 < t1 then t1 + la else st1 + la) = t1 + la"
    using start_same [OF A'(3)] by auto
  have h1: "held ch1 cs1 (unat l1) (unat (t1 + la)) st1" by (rule held_later [OF A'(2)]) (use s1 s2 in auto)
  have b1: "unat l1 + unat (t1 + la) < 2 ^ 64" using s2 t1(2) T n by simp
  obtain ch2 cs2 where B2: "InsertFreeSlot ch1 l1 (t1 + la) st1 cs1 False = Inr (ch2, cs2)"
    "booked False ch1 cs1 l1 (t1 + la) ch2 cs2"
    using InsertFreeSlot_spec [OF ok1 pos(3) b1 h1, of False] by blast
  have ok2: "store_ok ch2 cs2" and keys2: "map fst ch2 = map fst ch1"
    and sub2: "free_ticks ch2 cs2 \<subseteq> free_ticks ch1 cs1 - span (l1, t1 + la)" "span (l1, t1 + la) \<subseteq> free_ticks ch1 cs1"
    using B2(2) by (auto simp: booked_def)
  have sum1: "unat (t1 + la + l1) = unat t1 + unat la + unat l1" using unat_plus [of "t1 + la" l1] b1 s2 by simp
  have c2: "unat cs2 \<le> ?T + unat l0 + unat lm + unat la + unat l1" using B2(2) sum1 c1 t1(2) by (auto simp: booked_def)
  have tot: "unat from0 + unat total = unat (plFrom1 pl) + unat l1 + unat la" using P by simp
  have ptot: "0 < total" using tot from1(1) u by (simp add: word_less_nat_alt)
  have btot: "unat total + unat from0 < 2 ^ 64" using tot from1(2) T n by simp
  obtain die' ds' where D: "InsertFreeSlot die total from0 (plTickMem pl) ds False = Inr (die', ds')"
    "booked False die ds total from0 die' ds'"
    using InsertFreeSlot_spec [OF die ptot btot, of "plTickMem pl" False] P by blast
  have s3: "unat (la * 2) = 2 * unat la"
    using unat_plus [of la la] T n by (simp add: mult_2_right)
  have nx: "(if plTick0 pl < from0 then from0 + l0 else plTick0 pl + l0) = from0 + l0"
    using start_same [OF t0(1)] by auto
  have "0 < la * 2" using s3 u by (simp add: word_less_nat_alt)
  then obtain nx' st3 c3 ch3 cs3 where E: "find_or_start ch2 cs2 (la * 2) (from0 + l0) = Inr (nx', st3, c3)"
    "(if nx' = from0 + l0 then InsertFreeSlot ch2 (la * 2) nx' st3 cs2 True else Inr (ch2, cs2)) = Inr (ch3, cs3)"
    "store_ok ch3 cs3" "map fst ch3 = map fst ch2" "free_ticks ch3 cs3 \<subseteq> free_ticks ch2 cs2"
    "cs3 = cs2 \<or> cs3 = from0 + l0 + la * 2"
    using book_anti [OF ok2, of "la * 2" "from0 + l0"] s3 sum0 f0(2) c2 T n by auto
  let ?b = "\<lparr>bkCh = ch3, bkCs = cs3, bkDie = die', bkDs = ds', tsDMA0 = TimeSlot from0 l0,
      tsMEM = TimeSlot from0 total, tsDMA1 = TimeSlot (t1 + la) l1\<rparr>"
  have ts: "(if from0 < plTick0 pl then plTick0 pl else from0) = from0"
    "(if t1 < st1 then st1 + la else t1 + la) = t1 + la"
    "(if from0 < plTickMem pl then plTickMem pl else from0) = from0"
    using t0 A'(3) by (auto simp: word_less_nat_alt)
  have eq: "book_all ch cs die ds l0 l1 la pl = Inr ?b"
    unfolding book_all_def Let_def from0_def [symmetric] total_def [symmetric]
    by (simp only: B1(1) ebind_simps split A(1) at B2(1) D(1) ts nx E(1,2))
  note S = TimeSlot_ticks [OF pos(1) b0] TimeSlot_ticks [OF pos(3) b1] TimeSlot_ticks [OF ptot btot]
  have late: "unat (snd (TimeSlot from0 total)) \<le> unat (snd (TimeSlot (t1 + la) l1))"
    using S(6,9) tot t1(1) s2 by linarith
  have last: "snd (TimeSlot from0 total) = snd (TimeSlot (t1 + la) l1)"
    if k: "\<exists>k\<in>fst ` set ch. unat k \<le> unat l1 + unat la"
  proof -
    have "open_at ch cs (unat (l1 + la)) (unat (plFrom1 pl))"
      using P first_openD(2) held_open by blast
    moreover have "\<exists>k\<in>fst ` set ch. unat k \<le> unat (l1 + la)" using k s1 by simp
    moreover have "0 < unat (l1 + la)" "unat from0 + unat l0 \<le> unat (plFrom1 pl)" using s1 u from1(1) by simp_all
    ultimately have "open_at ch1 cs1 (unat (l1 + la)) (unat (plFrom1 pl))" using B1(2) unfolding booked_def by blast
    then have "t1 = plFrom1 pl" by (rule first_open_here [OF A(2)])
    then have "unat (snd (TimeSlot from0 total)) = unat (snd (TimeSlot (t1 + la) l1))"
      using S(6,9) tot s2 by simp
    then show ?thesis by (simp add: word_unat_eq_iff)
  qed
  have dis: "span (l0, from0) \<inter> span (l1, t1 + la) = {}" using sub1(1) sub2(2) by blast
  have dies: "store_ok die' ds'" "span (total, from0) \<subseteq> free_ticks die ds"
    "free_ticks die' ds' \<subseteq> free_ticks die ds - span (total, from0)"
    using D(2) by (simp_all add: booked_def)
  have keys: "map fst ch3 = map fst ch" using E(4) keys1 keys2 by simp
  have taken: "span (l0, from0) \<union> span (l1, t1 + la) \<subseteq> free_ticks ch cs"
    "free_ticks ch3 cs3 \<subseteq> free_ticks ch cs - (span (l0, from0) \<union> span (l1, t1 + la))"
    using sub1 sub2 E(5) by blast+
  have order: "unat from0 + unat l0 + unat lm + unat la \<le> unat (t1 + la)"
    "unat (t1 + la) \<le> ?T + unat l0 + unat lm + unat la"
    using from1(1) t1 s2 by linarith+
  have "unat (from0 + l0 + la * 2) = unat from0 + unat l0 + 2 * unat la"
    using unat_plus [of "from0 + l0" "la * 2"] s3 sum0 f0(2) T n by simp
  with E(6) c2 f0(2) have starts1: "unat cs3 \<le> ?T + (unat l0 + unat lm + unat l1 + 2 * unat la)" by auto
  have "unat (from0 + total) = unat from0 + unat total" using unat_plus [of from0 total] btot by simp
  then have starts2: "unat ds' \<le> ?T + (unat l0 + unat lm + unat l1 + 2 * unat la)"
    using D(2) tot from1(2) unfolding booked_def by auto
  have "booking_ok ch cs die ds l0 lm l1 la f ?b"
    unfolding booking_ok_def booking.simps S(1,2,4,5,7,8)
    by (intro conjI impI E(3) keys dies taken dis f0(1) S(3,6) order refl late starts1 starts2 last)
  with eq show ?thesis by blast
qed

end
