(* ===== verification/Exclusive.thy ===== *)
theory Exclusive
  imports Prelude
begin

text \<open>
  Resources that serve one user at a time: the contract of a scheduler that hands out ticks of its
  resources, and what a client may conclude from it. The flash scheduler and the memory provide it.
\<close>

text \<open>A run of steps, each with the set of ticks it uses on every resource.\<close>

fun chain :: "('s \<Rightarrow> 'u \<Rightarrow> 's \<Rightarrow> bool) \<Rightarrow> 's \<Rightarrow> 'u list \<Rightarrow> 's \<Rightarrow> bool" where
  "chain step s [] s' \<longleftrightarrow> s' = s"
| "chain step s (u # us) s' \<longleftrightarrow> (\<exists>t. step s u t \<and> chain step t us s')"

text \<open>
  The contract: a step uses only ticks that are free, and they are not free afterwards; nothing ever
  becomes free. The client's conclusion: no two steps of a run use the same tick of a resource.
\<close>

locale exclusive =
  fixes ok :: "'s \<Rightarrow> bool"
    and free :: "'s \<Rightarrow> 'r \<Rightarrow> nat set"
    and step :: "'s \<Rightarrow> ('r \<Rightarrow> nat set) \<Rightarrow> 's \<Rightarrow> bool"
  assumes step_ok: "ok s \<Longrightarrow> step s u s' \<Longrightarrow> ok s'"
    and step_uses: "ok s \<Longrightarrow> step s u s' \<Longrightarrow> u r \<subseteq> free s r"
    and step_frees: "ok s \<Longrightarrow> step s u s' \<Longrightarrow> free s' r \<subseteq> free s r - u r"
begin

lemma chain_ok: "chain step s us s' \<Longrightarrow> ok s \<Longrightarrow> ok s'"
  by (induction us arbitrary: s) (auto intro: step_ok)

lemma chain_uses: "chain step s us s' \<Longrightarrow> ok s \<Longrightarrow> u \<in> set us \<Longrightarrow> u r \<subseteq> free s r"
proof (induction us arbitrary: s)
  case (Cons v us)
  then obtain t where t: "step s v t" "chain step t us s'" by auto
  show ?case
  proof (cases "u = v")
    case True
    with step_uses [OF Cons.prems(2) t(1)] show ?thesis by simp
  next
    case False
    with Cons.IH [OF t(2) step_ok [OF Cons.prems(2) t(1)]] Cons.prems(3) have "u r \<subseteq> free t r" by simp
    with step_frees [OF Cons.prems(2) t(1)] show ?thesis by blast
  qed
qed simp

lemma chain_exclusive:
  "chain step s us s' \<Longrightarrow> ok s \<Longrightarrow> i < j \<Longrightarrow> j < length us \<Longrightarrow> (us ! i) r \<inter> (us ! j) r = {}"
proof (induction us arbitrary: s i j)
  case (Cons v us)
  then obtain t where t: "step s v t" "chain step t us s'" by auto
  note ok' = step_ok [OF Cons.prems(2) t(1)]
  obtain j' where j: "j = Suc j'" "j' < length us" using Cons.prems(3,4) by (cases j) auto
  show ?case
  proof (cases i)
    case 0
    have "(us ! j') r \<subseteq> free t r" by (rule chain_uses [OF t(2) ok']) (use j in simp)
    with step_frees [OF Cons.prems(2) t(1)] 0 j show ?thesis by auto
  next
    case (Suc i')
    with Cons.IH [OF t(2) ok', of i' j'] Cons.prems(3) j show ?thesis by simp
  qed
qed simp

end

end
