(* ===== verification/Pal2Props.thy ===== *)
theory Pal2Props
  imports Pal2Schedule Exclusive PalProps
begin

text \<open>
  The scheduler as a whole: the invariant of all channels and dies, construction, one command and
  runs of commands. The law of an exclusive resource is stated once, as a locale, and holds for the
  channels and dies of the scheduler.
\<close>

section \<open>Page and die numbers\<close>

definition die_range :: "pal_param \<Rightarrow> cpdpbp \<Rightarrow> bool" where
  "die_range p a \<longleftrightarrow> aChannel a < pChannel p \<and> aPackage a < pPackage p \<and> aDie a < pDie p"

definition dies_fit :: "pal_param \<Rightarrow> bool" where
  "dies_fit p \<longleftrightarrow> pChannel p * pPackage p * pDie p < 2 ^ 32"

lemma mixed_less: "(x :: nat) < a \<Longrightarrow> y < b \<Longrightarrow> x + y * a < b * a"
proof -
  assume "x < a" "y < b"
  then have "x + y * a < Suc y * a" by simp
  also have "\<dots> \<le> b * a" using \<open>y < b\<close> by (intro mult_right_mono) simp_all
  finally show ?thesis .
qed

lemma mixed_cong: "(x :: nat) < a \<Longrightarrow> x' < a \<Longrightarrow> x + y * a = x' + y' * a \<longleftrightarrow> x = x' \<and> y = y'"
  by (metis add.commute div_mult_self3 div_mult_self4 mod_less mod_mult_self3 add_cancel_right_left bot_nat_0.not_eq_extremum div_less less_nat_zero_code)

lemma die_index:
  assumes "die_range p a" and "dies_fit p"
  shows "CPDPBPtoDieIdx p a = aDie a + (aPackage a + aChannel a * pPackage p) * pDie p"
    and "CPDPBPtoDieIdx p a < pChannel p * pPackage p * pDie p"
proof -
  let ?i = "aDie a + (aPackage a + aChannel a * pPackage p) * pDie p"
  have "aPackage a + aChannel a * pPackage p < pChannel p * pPackage p"
    using assms(1) by (intro mixed_less) (simp_all add: die_range_def)
  with assms(1) have lt: "?i < pChannel p * pPackage p * pDie p"
    by (intro mixed_less) (simp_all add: die_range_def)
  have "CPDPBPtoDieIdx p a = ?i mod 2 ^ 32" by (simp add: CPDPBPtoDieIdx_def algebra_simps)
  moreover have "?i < 2 ^ 32" using lt assms(2) by (simp add: dies_fit_def)
  ultimately show "CPDPBPtoDieIdx p a = ?i" by simp
  with lt show "CPDPBPtoDieIdx p a < pChannel p * pPackage p * pDie p" by simp
qed

lemma die_index_unique:
  assumes "die_range p a" and "die_range p b" and "dies_fit p"
  shows "CPDPBPtoDieIdx p a = CPDPBPtoDieIdx p b \<longleftrightarrow>
    aChannel a = aChannel b \<and> aPackage a = aPackage b \<and> aDie a = aDie b"
proof -
  have "CPDPBPtoDieIdx p a = CPDPBPtoDieIdx p b \<longleftrightarrow>
      aDie a = aDie b \<and> aPackage a + aChannel a * pPackage p = aPackage b + aChannel b * pPackage p"
    using assms(1,2) unfolding die_index(1) [OF assms(1,3)] die_index(1) [OF assms(2,3)]
    by (intro mixed_cong) (simp_all add: die_range_def)
  also have "aPackage a + aChannel a * pPackage p = aPackage b + aChannel b * pPackage p \<longleftrightarrow>
      aPackage a = aPackage b \<and> aChannel a = aChannel b"
    using assms(1,2) by (intro mixed_cong) (simp_all add: die_range_def)
  finally show ?thesis by blast
qed

text \<open>The sizes of the address fields, and the addresses within them.\<close>

definition planes_of :: "bool \<Rightarrow> pal_param \<Rightarrow> nat" where
  "planes_of multi p = (if multi then 1 else pPlane p)"

definition page_count :: "bool \<Rightarrow> pal_param \<Rightarrow> nat" where
  "page_count multi p = pPage p * (pBlock p * (planes_of multi p * (pDie p * (pPackage p * pChannel p))))"

definition page_range :: "bool \<Rightarrow> pal_param \<Rightarrow> cpdpbp \<Rightarrow> bool" where
  "page_range multi p a \<longleftrightarrow> die_range p a \<and> aPlane a < planes_of multi p \<and> aBlock a < pBlock p \<and> aPage a < pPage p"

lemma PAL2_new_sizes:
  "PAL2_new nand speed pgsize multi p = Inr (q, s) \<Longrightarrow>
     rearranged q = [pPage p, pBlock p, planes_of multi p, pDie p, pPackage p, pChannel p, 0]"
  by (auto simp: PAL2_new_def planes_of_def Let_def split: if_splits)

lemma mult_fits: "b * a < n \<Longrightarrow> 0 < b \<Longrightarrow> a < (n :: nat)"
  by (cases b) auto

lemma ppn_step:
  assumes "x < m" and "y < b" and "b * m < 2 ^ 32"
  shows "u32mul y m = y * m" and "x + y * m < b * m" and "x + y * m < 2 ^ 32"
    and "(x + y * m) mod m = x" and "(x + y * m) div m = y"
proof -
  show lt: "x + y * m < b * m" by (rule mixed_less [OF assms(1,2)])
  with assms(3) show lt': "x + y * m < 2 ^ 32" by simp
  then show "u32mul y m = y * m" by simp
  show "(x + y * m) mod m = x" "(x + y * m) div m = y" using assms(1) by simp_all
qed

lemma ppn_roundtrip_rs:
  assumes rs: "rearranged q = [P, B, L, D, W, C, 0]" and n: "P * (B * (L * (D * (W * C)))) < 2 ^ 32"
    and a: "aChannel a < C" "aPackage a < W" "aDie a < D" "aPlane a < L" "aBlock a < B" "aPage a < P"
  shows "AssemblePPN q a < P * (B * (L * (D * (W * C))))" and "PPNdisassemble q (AssemblePPN q a) = Inr a"
    and "AssemblePPN q a = aChannel a + aPackage a * C + aDie a * (W * C) + aPlane a * (D * (W * C)) +
      aBlock a * (L * (D * (W * C))) + aPage a * (B * (L * (D * (W * C))))"
proof -
  have pos: "0 < C" "0 < W" "0 < D" "0 < L" "0 < B" "0 < P" using a by simp_all
  have b1: "B * (L * (D * (W * C))) < 2 ^ 32" by (rule mult_fits [OF n pos(6)])
  have b2: "L * (D * (W * C)) < 2 ^ 32" by (rule mult_fits [OF b1 pos(5)])
  have b3: "D * (W * C) < 2 ^ 32" by (rule mult_fits [OF b2 pos(4)])
  have b4: "W * C < 2 ^ 32" by (rule mult_fits [OF b3 pos(3)])
  note S1 = ppn_step [OF a(1,2) b4]
  note S2 = ppn_step [OF S1(2) a(3) b3]
  note S3 = ppn_step [OF S2(2) a(4) b2]
  note S4 = ppn_step [OF S3(2) a(5) b1]
  note S5 = ppn_step [OF S4(2) a(6) n]
  have m: "prod32 [C, W, D, L, B] = B * (L * (D * (W * C)))" "prod32 [C, W, D, L] = L * (D * (W * C))"
    "prod32 [C, W, D] = D * (W * C)" "prod32 [C, W] = W * C"
    using b1 b2 b3 b4 by (simp_all add: prod32_def ac_simps)
  have big: "n mod 2 ^ 64 = n" if "n < 2 ^ 32" for n :: nat using that by simp
  have ix: "[P, B, L, D, W, C, 0] ! 5 = C" "[P, B, L, D, W, C, 0] ! 4 = W" "[P, B, L, D, W, C, 0] ! 3 = D"
    "[P, B, L, D, W, C, 0] ! 2 = L" "[P, B, L, D, W, C, 0] ! 1 = B" by simp_all
  show ppn: "AssemblePPN q a = aChannel a + aPackage a * C + aDie a * (W * C) + aPlane a * (D * (W * C)) +
      aBlock a * (L * (D * (W * C))) + aPage a * (B * (L * (D * (W * C))))"
    unfolding AssemblePPN_def rs Let_def ix m by (simp only: S1(1) S2(1) S3(1) S4(1) S5(1) big [OF S5(3)])
  show "AssemblePPN q a < P * (B * (L * (D * (W * C))))" unfolding ppn by (rule S5(2))
  have nz: "0 \<notin> {B * (L * (D * (W * C))), L * (D * (W * C)), D * (W * C), W * C, C}" using pos by simp
  have small: "x mod 2 ^ 32 = x" if "x < y" "y \<le> 2 ^ 32" for x y :: nat using that by simp
  have le: "C \<le> 2 ^ 32" "W \<le> 2 ^ 32" "D \<le> 2 ^ 32" "L \<le> 2 ^ 32" "B \<le> 2 ^ 32" "P \<le> 2 ^ 32"
    using mult_fits [of W C "2 ^ 32"] mult_fits [of C W "2 ^ 32"] mult_fits [of "W * C" D "2 ^ 32"]
      mult_fits [of "D * (W * C)" L "2 ^ 32"] mult_fits [of "L * (D * (W * C))" B "2 ^ 32"]
      mult_fits [of "B * (L * (D * (W * C)))" P "2 ^ 32"] n b1 b2 b3 b4 pos
    by (simp_all add: mult.commute)
  show "PPNdisassemble q (AssemblePPN q a) = Inr a"
    unfolding ppn PPNdisassemble_def rs Let_def ix m if_not_P [OF nz]
    by (simp only: S5(4,5) S4(4,5) S3(4,5) S2(4,5) S1(4,5) small [OF a(1) le(1)] small [OF a(2) le(2)]
        small [OF a(3) le(3)] small [OF a(4) le(4)] small [OF a(5) le(5)] small [OF a(6) le(6)]) simp
qed

lemma ppn_roundtrip_inverse:
  assumes rs: "rearranged q = [P, B, L, D, W, C, 0]" and n: "P * (B * (L * (D * (W * C)))) < 2 ^ 32"
    and x: "x < P * (B * (L * (D * (W * C))))"
  shows "\<exists>a. PPNdisassemble q x = Inr a \<and> AssemblePPN q a = x \<and>
    aChannel a < C \<and> aPackage a < W \<and> aDie a < D \<and> aPlane a < L \<and> aBlock a < B \<and> aPage a < P"
proof -
  let ?m4 = "W * C" and ?m3 = "D * (W * C)" and ?m2 = "L * (D * (W * C))" and ?m1 = "B * (L * (D * (W * C)))"
  let ?a = "\<lparr>aChannel = x mod ?m1 mod ?m2 mod ?m3 mod ?m4 mod C, aPackage = x mod ?m1 mod ?m2 mod ?m3 mod ?m4 div C,
    aDie = x mod ?m1 mod ?m2 mod ?m3 div ?m4, aPlane = x mod ?m1 mod ?m2 div ?m3,
    aBlock = x mod ?m1 div ?m2, aPage = x div ?m1\<rparr>"
  have pos: "0 < C" "0 < W" "0 < D" "0 < L" "0 < B" "0 < P" using x by (auto intro: gr0I)
  have in_range: "aChannel ?a < C" "aPackage ?a < W" "aDie ?a < D" "aPlane ?a < L" "aBlock ?a < B" "aPage ?a < P"
    using pos x by (simp_all add: less_mult_imp_div_less mult.assoc)
  note R = ppn_roundtrip_rs [OF rs n in_range]
  have "AssemblePPN q ?a = x" unfolding R(3) by (simp only: cpdpbp.simps mod_div_mult_eq)
  with R(2) in_range show ?thesis by (intro exI [of _ ?a]) simp
qed

section \<open>Invariant\<close>

definition die_count :: "pal_param \<Rightarrow> nat" where
  "die_count p = pChannel p * pPackage p * pDie p"

definition pal2_ok :: "pal_param \<Rightarrow> pal2 \<Rightarrow> bool" where
  "pal2_ok p s \<longleftrightarrow>
     length (chSlots s) = pChannel p \<and> length (chStart s) = pChannel p \<and>
     length (dieSlots s) = die_count p \<and> length (dieStart s) = die_count p \<and>
     (\<forall>c<pChannel p. store_ok (chSlots s ! c) (chStart s ! c)) \<and>
     (\<forall>d<die_count p. store_ok (dieSlots s ! d) (dieStart s ! d))"

text \<open>A resource is a channel (\<open>Inl\<close>) or a die (\<open>Inr\<close>); its free ticks.\<close>

fun free_on :: "pal2 \<Rightarrow> nat + nat \<Rightarrow> nat set" where
  "free_on s (Inl c) = (if c < length (chSlots s) then free_ticks (chSlots s ! c) (chStart s ! c) else {})"
| "free_on s (Inr d) = (if d < length (dieSlots s) then free_ticks (dieSlots s ! d) (dieStart s ! d) else {})"

lemma sm_put_keys: "fst ` set (sm_put k v m) = insert k (fst ` set m)"
  by (induction k v m rule: sm_put.induct) auto

lemma sm_put_sorted: "sorted_wrt (<) (map fst m) \<Longrightarrow> sorted_wrt (<) (map fst (sm_put k v m))"
proof (induction k v m rule: sm_put.induct)
  case (2 k v k' v' m)
  have "fst ` set (sm_put k v m) = insert k (fst ` set m)" by (rule sm_put_keys)
  then have "x \<in> set (sm_put k v m) \<Longrightarrow> fst x = k \<or> fst x \<in> fst ` set m" for x by blast
  with 2 show ?case by fastforce
qed simp

lemma sm_put_values: "snd ` set (sm_put k v m) \<subseteq> insert v (snd ` set m)"
  by (induction k v m rule: sm_put.induct) auto

lemma empty_classes_ok:
  assumes "ks \<noteq> []"
  shows "store_ok (empty_classes ks) sp"
proof -
  have "sorted_wrt (<) (map fst (fold (\<lambda>k. sm_put (of_nat k) []) ks m)) \<and>
      snd ` set (fold (\<lambda>k. sm_put (of_nat k) []) ks m) \<subseteq> {[]} \<and>
      (m \<noteq> [] \<or> ks \<noteq> [] \<longrightarrow> fold (\<lambda>k. sm_put (of_nat k) []) ks m \<noteq> [])"
    if "sorted_wrt (<) (map fst m)" "snd ` set m \<subseteq> {[]}" for m :: slots
    using that
  proof (induction ks arbitrary: m)
    case (Cons k ks)
    have "sm_put (of_nat k) [] m \<noteq> []" using sm_put_keys [of "of_nat k" "[]" m] by auto
    moreover have "snd ` set (sm_put (of_nat k) [] m) \<subseteq> {[]}"
      using sm_put_values [of "of_nat k" "[]" m] Cons.prems(2) by blast
    ultimately show ?case
      unfolding fold_simps using Cons.IH [OF sm_put_sorted [OF Cons.prems(1)]] by blast
  qed simp
  from this [of "[]"] assms have A: "sorted_wrt (<) (map fst (empty_classes ks))"
    "snd ` set (empty_classes ks) \<subseteq> {[]}" "empty_classes ks \<noteq> []"
    unfolding empty_classes_def by simp_all
  then have E: "sorted_wrt (<) (map fst (empty_classes ks))"
    "\<forall>(k, m)\<in>set (empty_classes ks). m = []" "empty_classes ks \<noteq> []"
    by auto
  then have "ivals (empty_classes ks) = {#}" by (fastforce simp: ivals_def)
  with E show ?thesis
    by (auto simp: store_ok_def in_order_def classed_def within_def)
qed

lemma PAL2_new_ok:
  assumes "PAL2_new nand speed pgsize multi p = Inr (q, s)" and "dies_fit p"
  shows "pal2_ok p s"
proof -
  have d: "pChannel p * pPackage p * pDie p mod 2 ^ 32 = die_count p"
    using assms(2) by (simp add: dies_fit_def die_count_def)
  have "chClasses sp pg \<noteq> []" "dieClasses nand sp \<noteq> []" for sp pg
    by (simp_all add: chClasses_def dieClasses_def split: nand_type.split)
  then show ?thesis
    using assms(1) unfolding PAL2_new_def d
    by (auto simp: pal2_ok_def Let_def empty_classes_ok split: if_splits)
qed

section \<open>One command\<close>

text \<open>All latencies are positive and their sum is at most \<open>n\<close>.\<close>

definition timing_ok :: "(u32 \<Rightarrow> pal_operation \<Rightarrow> busy_type \<Rightarrow> u64) \<Rightarrow> nat \<Rightarrow> bool" where
  "timing_ok lat n \<longleftrightarrow>
     (\<forall>page oper. 0 < lat page oper BUSY_DMA0 \<and> 0 < lat page oper BUSY_MEM \<and> 0 < lat page oper BUSY_DMA1 \<and>
        unat (lat page oper BUSY_DMA0) + unat (lat page oper BUSY_MEM) + unat (lat page oper BUSY_DMA1) +
          2 * unat (lat page OPER_READ BUSY_DMA0) \<le> n)"

text \<open>There is simulated time left for the command.\<close>

definition in_time :: "nat \<Rightarrow> pal_param \<Rightarrow> tick \<Rightarrow> cpdpbp \<Rightarrow> pal2 \<Rightarrow> bool" where
  "in_time n p t a s \<longleftrightarrow> horizon n [t, chStart s ! aChannel a, dieStart s ! CPDPBPtoDieIdx p a]"

lemma schedule_spec:
  assumes ok: "pal2_ok p s" and rng: "die_range p a" "dies_fit p" and lat: "timing_ok lat n"
    and time: "in_time n p (cmdArrived req) a s"
  defines "c \<equiv> aChannel a" and "d \<equiv> CPDPBPtoDieIdx p a" and "pg \<equiv> of_nat (aPage a)"
  shows "unat (dieStart s ! d) - unat (cmdArrived req) \<le> fuel \<Longrightarrow> schedule_booking lat p fuel req a s \<noteq> None"
    and "schedule_booking lat p fuel req a s = Some r \<Longrightarrow> \<exists>b conf. r = Inr (b, conf) \<and>
      booking_ok (chSlots s ! c) (chStart s ! c) (dieSlots s ! d) (dieStart s ! d)
        (lat pg (cmdOper req) BUSY_DMA0) (lat pg (cmdOper req) BUSY_MEM) (lat pg (cmdOper req) BUSY_DMA1)
        (lat pg OPER_READ BUSY_DMA0) (cmdArrived req) b"
proof -
  have c: "c < pChannel p" using rng(1) by (simp add: die_range_def c_def)
  have d: "d < die_count p" using die_index(2) [OF rng] by (simp add: d_def die_count_def)
  have st: "store_ok (chSlots s ! c) (chStart s ! c)" "store_ok (dieSlots s ! d) (dieStart s ! d)"
    using ok c d by (auto simp: pal2_ok_def)
  let ?l0 = "lat pg (cmdOper req) BUSY_DMA0" and ?lm = "lat pg (cmdOper req) BUSY_MEM"
    and ?l1 = "lat pg (cmdOper req) BUSY_DMA1" and ?la = "lat pg OPER_READ BUSY_DMA0"
  have pos: "0 < ?l0" "0 < ?lm" "0 < ?l1" "0 < ?la" using lat by (auto simp: timing_ok_def)
  have n: "unat ?l0 + unat ?lm + unat ?l1 + 2 * unat ?la \<le> n" using lat by (simp add: timing_ok_def)
  then have n': "unat ?l0 + unat ?lm + unat ?l1 + unat ?la \<le> n" by simp
  have hor: "horizon n [cmdArrived req, chStart s ! c, dieStart s ! d]" using time by (simp add: in_time_def c_def d_def)
  note L = loop0_spec [OF st pos(1-3) hor n', of fuel 0]
  have len: "\<not> (length (chSlots s) \<le> c \<or> length (chStart s) \<le> c \<or> length (dieSlots s) \<le> d \<or> length (dieStart s) \<le> d)"
    using ok c d by (auto simp: pal2_ok_def)
  have eq: "schedule_booking lat p fuel req a s = map_option (\<lambda>r. ebind r (\<lambda>pl.
      ebind (book_all (chSlots s ! c) (chStart s ! c) (dieSlots s ! d) (dieStart s ! d) ?l0 ?l1 ?la pl)
        (\<lambda>b. Inr (b, plConf pl))))
     (loop0 fuel (chSlots s ! c) (chStart s ! c) (dieSlots s ! d) (dieStart s ! d) ?l0 ?lm ?l1 ?la (cmdArrived req) 0)"
    unfolding schedule_booking_def Let_def c_def [symmetric] d_def [symmetric] pg_def [symmetric] if_not_P [OF len] ..
  show "schedule_booking lat p fuel req a s \<noteq> None" if "unat (dieStart s ! d) - unat (cmdArrived req) \<le> fuel"
    using L that unfolding eq by simp
  show "\<exists>b conf. r = Inr (b, conf) \<and> booking_ok (chSlots s ! c) (chStart s ! c) (dieSlots s ! d) (dieStart s ! d)
        ?l0 ?lm ?l1 ?la (cmdArrived req) b"
    if "schedule_booking lat p fuel req a s = Some r"
  proof -
    from that L obtain pl where pl: "r = ebind (Inr pl) (\<lambda>pl.
        ebind (book_all (chSlots s ! c) (chStart s ! c) (dieSlots s ! d) (dieStart s ! d) ?l0 ?l1 ?la pl)
          (\<lambda>b. Inr (b, plConf pl)))"
      "placed_ok (chSlots s ! c) (chStart s ! c) (dieSlots s ! d) (dieStart s ! d) ?l0 ?lm ?l1 ?la (cmdArrived req) pl"
      unfolding eq by blast
    from book_all_spec [OF st pos hor n pl(2)] pl(1) show ?thesis by fastforce
  qed
qed

section \<open>Exclusive resources\<close>

text \<open>What a command uses, and the steps of the scheduler: commands and the periodic clean-up.\<close>

fun uses :: "pal_param \<Rightarrow> cpdpbp \<Rightarrow> booking \<Rightarrow> nat + nat \<Rightarrow> nat set" where
  "uses p a b (Inl c) = (if c = aChannel a then ticks (tsDMA0 b) \<union> ticks (tsDMA1 b) else {})"
| "uses p a b (Inr d) = (if d = CPDPBPtoDieIdx p a then ticks (tsMEM b) else {})"

inductive pal2_step ::
  "(u32 \<Rightarrow> pal_operation \<Rightarrow> busy_type \<Rightarrow> u64) \<Rightarrow> pal_param \<Rightarrow> nat \<Rightarrow> pal2 \<Rightarrow> (nat + nat \<Rightarrow> nat set) \<Rightarrow> pal2 \<Rightarrow> bool"
  for lat p n where
  step_command: "die_range p a \<Longrightarrow> in_time n p (cmdArrived req) a s \<Longrightarrow>
    schedule_booking lat p fuel req a s = Some (Inr (b, conf)) \<Longrightarrow>
    TimelineScheduling lat p fuel req a s = Some (Inr (req', s', conf)) \<Longrightarrow> pal2_step lat p n s (uses p a b) s'"
| step_flush: "pal2_step lat p n s (\<lambda>_. {}) (FlushFreeSlots t s)"
| step_flush_busy: "pal2_step lat p n s (\<lambda>_. {}) (FlushTimeSlots t s)"

lemma note_sel:
  "chSlots (UpdateLastTick t s) = chSlots s" "chStart (UpdateLastTick t s) = chStart s"
  "dieSlots (UpdateLastTick t s) = dieSlots s" "dieStart (UpdateLastTick t s) = dieStart s"
  "chSlots (FlushOpTimeStamp s) = chSlots s" "chStart (FlushOpTimeStamp s) = chStart s"
  "dieSlots (FlushOpTimeStamp s) = dieSlots s" "dieStart (FlushOpTimeStamp s) = dieStart s"
  "chSlots (note_operation oper x y s) = chSlots s" "chStart (note_operation oper x y s) = chStart s"
  "dieSlots (note_operation oper x y s) = dieSlots s" "dieStart (note_operation oper x y s) = dieStart s"
  by (simp_all add: UpdateLastTick_def FlushOpTimeStamp_def note_operation_def Let_def)

lemma TimelineScheduling_commit:
  assumes "TimelineScheduling lat p fuel req a s = Some (Inr (req', s', conf))"
  shows "\<exists>b conf. schedule_booking lat p fuel req a s = Some (Inr (b, conf)) \<and>
    cmdFinished req' = snd (tsDMA1 b) \<and>
    chSlots s' = (chSlots s)[aChannel a := bkCh b] \<and> chStart s' = (chStart s)[aChannel a := bkCs b] \<and>
    dieSlots s' = (dieSlots s)[CPDPBPtoDieIdx p a := bkDie b] \<and> dieStart s' = (dieStart s)[CPDPBPtoDieIdx p a := bkDs b]"
proof -
  from assms obtain r where r: "schedule_booking lat p fuel req a s = Some r"
    "ebind r (\<lambda>(b, conf). ebind (MergeTimeSlot (mergedSlots s) (tsMEM b)) (\<lambda>m.
       let s = FlushOpTimeStamp (note_operation (cmdOper req) (tsDMA0 b) (tsDMA1 b)
                 ((commit_booking p a b s)\<lparr>mergedSlots := m\<rparr>))
       in Inr (req\<lparr>cmdFinished := snd (tsDMA1 b)\<rparr>, UpdateLastTick (snd (tsDMA1 b)) s, conf))) = Inr (req', s', conf)"
    unfolding TimelineScheduling_def map_option_eq_Some by (elim exE conjE) (rule that)
  obtain b conf' where "r = Inr (b, conf')" using r(2) by (cases r) auto
  moreover from r(2) [unfolded this Let_def] obtain m where
    "req' = req\<lparr>cmdFinished := snd (tsDMA1 b)\<rparr>"
    "s' = UpdateLastTick (snd (tsDMA1 b)) (FlushOpTimeStamp (note_operation (cmdOper req) (tsDMA0 b) (tsDMA1 b)
       ((commit_booking p a b s)\<lparr>mergedSlots := m\<rparr>)))"
    by auto
  ultimately show ?thesis using r(1) by (simp add: note_sel commit_booking_def Let_def)
qed

lemma shrunk_flush:
  assumes "in_order tgt"
  shows "shrunk tgt (FlushAFreeSlot tgt t)"
proof -
  have "mset (dropWhile P m) \<subseteq># mset m" for P and m :: "interval list"
    by (metis mset_append mset_subset_eq_add_right takeWhile_dropWhile_id)
  moreover have "sorted_wrt (<) (map fst (dropWhile P m))" if "sorted_wrt (<) (map fst m)" for P and m :: "interval list"
    using that by (metis map_append sorted_wrt_append takeWhile_dropWhile_id)
  ultimately show ?thesis
    using assms unfolding shrunk_def FlushAFreeSlot_def in_order_def list.rel_map
    by (auto intro!: list.rel_refl_strong)
qed

lemma flush_store:
  assumes "store_ok tgt sp"
  shows "store_ok (FlushAFreeSlot tgt t) sp" and "free_ticks (FlushAFreeSlot tgt t) sp \<subseteq> free_ticks tgt sp"
proof -
  have S: "shrunk tgt (FlushAFreeSlot tgt t)" using assms by (intro shrunk_flush) (simp add: store_ok_def)
  show "store_ok (FlushAFreeSlot tgt t) sp" by (rule shrunk_ok [OF assms S])
  show "free_ticks (FlushAFreeSlot tgt t) sp \<subseteq> free_ticks tgt sp"
    using set_mset_mono [OF shrunk_ivals [OF S]] unfolding free_ticks_def by blast
qed

lemma flush_sel [simp]:
  "chSlots (FlushTimeSlots t s) = chSlots s" "chStart (FlushTimeSlots t s) = chStart s"
  "dieSlots (FlushTimeSlots t s) = dieSlots s" "dieStart (FlushTimeSlots t s) = dieStart s"
  "chSlots (FlushFreeSlots t s) = map (\<lambda>m. FlushAFreeSlot m t) (chSlots s)" "chStart (FlushFreeSlots t s) = chStart s"
  "dieSlots (FlushFreeSlots t s) = map (\<lambda>m. FlushAFreeSlot m t) (dieSlots s)" "dieStart (FlushFreeSlots t s) = dieStart s"
  by (simp_all add: FlushFreeSlots_def FlushTimeSlots_def split: prod.split)

lemma FlushFreeSlots_ok:
  assumes "pal2_ok p s"
  shows "pal2_ok p (FlushFreeSlots t s)" and "free_on (FlushFreeSlots t s) r \<subseteq> free_on s r"
proof -
  show "pal2_ok p (FlushFreeSlots t s)" using assms flush_store(1) by (simp add: pal2_ok_def)
  show "free_on (FlushFreeSlots t s) r \<subseteq> free_on s r"
  proof (cases r)
    case (Inl c)
    with assms flush_store(2) show ?thesis by (simp add: pal2_ok_def)
  next
    case (Inr d)
    with assms flush_store(2) show ?thesis by (simp add: pal2_ok_def)
  qed
qed

lemma commit_ok:
  assumes ok: "pal2_ok p s" and rng: "die_range p a" "dies_fit p"
    and b: "booking_ok (chSlots s ! aChannel a) (chStart s ! aChannel a) (dieSlots s ! CPDPBPtoDieIdx p a)
      (dieStart s ! CPDPBPtoDieIdx p a) l0 lm l1 la f b"
    and s': "chSlots s' = (chSlots s)[aChannel a := bkCh b]" "chStart s' = (chStart s)[aChannel a := bkCs b]"
      "dieSlots s' = (dieSlots s)[CPDPBPtoDieIdx p a := bkDie b]" "dieStart s' = (dieStart s)[CPDPBPtoDieIdx p a := bkDs b]"
  shows "pal2_ok p s'" and "uses p a b r \<subseteq> free_on s r" and "free_on s' r \<subseteq> free_on s r - uses p a b r"
proof -
  have c: "aChannel a < pChannel p" using rng(1) by (simp add: die_range_def)
  have d: "CPDPBPtoDieIdx p a < die_count p" using die_index(2) [OF rng] by (simp add: die_count_def)
  note len = ok [unfolded pal2_ok_def]
  show "pal2_ok p s'"
    using ok b c d unfolding pal2_ok_def s' booking_ok_def by (auto simp: nth_list_update)
  show "uses p a b r \<subseteq> free_on s r"
    using b c d len unfolding booking_ok_def by (cases r) auto
  show "free_on s' r \<subseteq> free_on s r - uses p a b r"
  proof (cases r)
    case (Inl x)
    then show ?thesis using b c len unfolding booking_ok_def by (cases "x = aChannel a") (simp_all add: s')
  next
    case (Inr x)
    then show ?thesis using b d len unfolding booking_ok_def by (cases "x = CPDPBPtoDieIdx p a") (simp_all add: s')
  qed
qed

lemma pal2_step_laws:
  assumes "pal2_step lat p n s u s'" and "pal2_ok p s" and "dies_fit p" and "timing_ok lat n"
  shows "pal2_ok p s' \<and> u r \<subseteq> free_on s r \<and> free_on s' r \<subseteq> free_on s r - u r"
  using assms(1)
proof cases
  case (step_command a req fuel b conf req')
  from schedule_spec(2) [OF assms(2) step_command(2) assms(3,4) step_command(3,4)] obtain l0 lm l1 la where
    B: "booking_ok (chSlots s ! aChannel a) (chStart s ! aChannel a) (dieSlots s ! CPDPBPtoDieIdx p a)
      (dieStart s ! CPDPBPtoDieIdx p a) l0 lm l1 la (cmdArrived req) b" by auto
  from TimelineScheduling_commit [OF step_command(5)] step_command(4) have
    "chSlots s' = (chSlots s)[aChannel a := bkCh b]" "chStart s' = (chStart s)[aChannel a := bkCs b]"
    "dieSlots s' = (dieSlots s)[CPDPBPtoDieIdx p a := bkDie b]" "dieStart s' = (dieStart s)[CPDPBPtoDieIdx p a := bkDs b]"
    by auto
  note C = commit_ok [OF assms(2) step_command(2) assms(3) B this]
  show ?thesis using C(1) C(2,3) [of r] step_command(1) by simp
next
  case (step_flush t)
  then show ?thesis using FlushFreeSlots_ok [OF assms(2), of t] by simp
next
  case (step_flush_busy t)
  then have "pal2_ok p s'" "free_on s' r = free_on s r" using assms(2) by (simp_all add: pal2_ok_def) (cases r; simp)
  then show ?thesis using step_flush_busy by simp
qed

interpretation flash_bus: exclusive "\<lambda>s. pal2_ok p s \<and> dies_fit p \<and> timing_ok lat n" free_on "pal2_step lat p n"
  for lat :: "u32 \<Rightarrow> pal_operation \<Rightarrow> busy_type \<Rightarrow> u64" and p :: pal_param and n :: nat
  by unfold_locales (use pal2_step_laws in blast)+

end
