(* ===== verification/Pal2Theorems.thy ===== *)
theory Pal2Theorems
  imports Pal2Props
begin

text \<open>
  The properties of the flash scheduler: its searches find the earliest opening and end, a command
  gets its channel and die for as long as it needs them, no two commands ever share a tick of a
  channel or a die, page and die numbers are exact, and what its busy-time accounting does.
\<close>

section \<open>A sample flash\<close>

definition slc_timing :: nand_timing where
  "slc_timing = \<lparr>tmLsb = \<lparr>tRead = 25, tWrite = 300\<rparr>, tmCsb = \<lparr>tRead = 25, tWrite = 300\<rparr>,
     tmMsb = \<lparr>tRead = 25, tWrite = 300\<rparr>, tmDma0 = \<lparr>dRead = 1, dWrite = 18, dErase = 1\<rparr>,
     tmDma1 = \<lparr>dRead = 18, dWrite = 1, dErase = 1\<rparr>, tmErase = 2000\<rparr>"

abbreviation slc :: "u32 \<Rightarrow> pal_operation \<Rightarrow> busy_type \<Rightarrow> u64" where
  "slc \<equiv> GetLatency NAND_SLC slc_timing"

lemma slc_timing_ok: "timing_ok slc 3000"
proof -
  have "0 < slc page oper BUSY_DMA0 \<and> 0 < slc page oper BUSY_MEM \<and> 0 < slc page oper BUSY_DMA1 \<and>
      unat (slc page oper BUSY_DMA0) + unat (slc page oper BUSY_MEM) + unat (slc page oper BUSY_DMA1) +
        2 * unat (slc page OPER_READ BUSY_DMA0) \<le> 3000" for page oper
    by (cases oper) (simp_all add: GetLatency_def LatencySLC_GetLatency_def dma_latency_def slc_timing_def)
  then show ?thesis by (simp add: timing_ok_def)
qed

definition pal2_sample :: pal2 where
  "pal2_sample = (case PAL2_new NAND_SLC 400 4096 False pal_sample of Inr (q, s) \<Rightarrow> s)"

lemma pal2_sample_eq: "\<exists>q. PAL2_new NAND_SLC 400 4096 False pal_sample = Inr (q, pal2_sample)"
  by (simp add: pal2_sample_def PAL2_new_def pal_sample_def)

lemma pal_sample_dies: "dies_fit pal_sample"
  by (simp add: dies_fit_def pal_sample_def)

lemma pal2_sample_ok: "pal2_ok pal_sample pal2_sample"
  using pal2_sample_eq PAL2_new_ok pal_sample_dies by blast

definition sample_page :: cpdpbp where
  "sample_page = \<lparr>aChannel = 1, aPackage = 0, aDie = 0, aPlane = 1, aBlock = 3, aPage = 5\<rparr>"

lemma sample_page_range: "die_range pal_sample sample_page"
  by (simp add: die_range_def pal_sample_def sample_page_def)

lemma PAL2_new_starts:
  "PAL2_new nand speed pgsize multi p = Inr (q, s) \<Longrightarrow> dies_fit p \<Longrightarrow>
     chStart s = replicate (pChannel p) 0 \<and> dieStart s = replicate (die_count p) 0 \<and> mergedSlots s = []"
  by (auto simp: PAL2_new_def Let_def dies_fit_def die_count_def split: if_splits)

lemma sample_page_sel: "aChannel sample_page = 1" "aPage sample_page = 5"
  by (simp_all add: sample_page_def)

lemma sample_starts:
  "chStart pal2_sample = [0, 0]" "dieStart pal2_sample = [0, 0, 0, 0]" "CPDPBPtoDieIdx pal_sample sample_page = 2"
proof -
  have d: "die_count pal_sample = 4" "pChannel pal_sample = 2" by (simp_all add: die_count_def pal_sample_def)
  obtain q where "PAL2_new NAND_SLC 400 4096 False pal_sample = Inr (q, pal2_sample)" using pal2_sample_eq by blast
  from PAL2_new_starts [OF this pal_sample_dies] show "chStart pal2_sample = [0, 0]" "dieStart pal2_sample = [0, 0, 0, 0]"
    unfolding d by (simp_all add: numeral_eq_Suc)
  show "CPDPBPtoDieIdx pal_sample sample_page = 2"
    by (simp add: CPDPBPtoDieIdx_def sample_page_def pal_sample_def)
qed

lemma sample_in_time: "in_time 3000 pal_sample 100 sample_page pal2_sample"
  unfolding in_time_def horizon_def sample_starts by (simp add: sample_page_def)

section \<open>Searching\<close>



text \<open>C18. The two nested searches for a command always end, after at most as many rounds as the start
  point of the die lies ahead of the command's arrival.\<close>

theorem scheduling_ends:
  assumes "pal2_ok p s" and "die_range p a" and "dies_fit p" and "timing_ok lat n"
    and "in_time n p (cmdArrived req) a s"
    and "unat (dieStart s ! CPDPBPtoDieIdx p a) - unat (cmdArrived req) \<le> fuel"
  shows "\<exists>b conf. schedule_booking lat p fuel req a s = Some (Inr (b, conf))"
  using schedule_spec [OF assms(1-5)] assms(6) by (metis not_None_eq)

lemma scheduling_ends_witness:
  "\<exists>b conf. schedule_booking slc pal_sample 0 (Command_new 100 0 OPER_READ 4096) sample_page pal2_sample = Some (Inr (b, conf))"
  by (rule scheduling_ends [OF pal2_sample_ok sample_page_range pal_sample_dies slc_timing_ok])
    (use sample_in_time in \<open>simp_all add: Command_new_def sample_starts\<close>)


lemma sample_scheduled:
  "\<exists>b conf. schedule_booking slc pal_sample 0 (Command_new 100 0 OPER_READ 4096) sample_page pal2_sample = Some (Inr (b, conf))"
proof -
  have t: "in_time 3000 pal_sample (cmdArrived (Command_new 100 0 OPER_READ 4096)) sample_page pal2_sample"
    using sample_in_time by (simp add: Command_new_def)
  note S = schedule_spec [OF pal2_sample_ok sample_page_range pal_sample_dies slc_timing_ok t, of 0]
  have "schedule_booking slc pal_sample 0 (Command_new 100 0 OPER_READ 4096) sample_page pal2_sample \<noteq> None"
    by (rule S(1)) (simp add: sample_starts)
  with S(2) show ?thesis by blast
qed


text \<open>C20. No two commands of a run ever use the same tick of a channel or of a die: whatever commands
  and clean-ups the scheduler serves in whatever order, the bookings are exclusive.\<close>

theorem no_double_booking:
  assumes "chain (pal2_step lat p n) s us s'" and "pal2_ok p s" and "dies_fit p" and "timing_ok lat n"
    and "i < j" and "j < length us"
  shows "(us ! i) r \<inter> (us ! j) r = {} \<and> pal2_ok p s'"
  using flash_bus.chain_exclusive [OF assms(1) _ assms(5,6)] flash_bus.chain_ok [OF assms(1)] assms(2-4) by blast

text \<open>Two reads of the same page, arriving at the same tick.\<close>

lemma MergeTimeSlot_empty: "MergeTimeSlot [] ts = Inr [ts]"
  by (simp add: MergeTimeSlot_def)

lemma MergeTimeSlot_one: "\<exists>m. MergeTimeSlot [x] ts = Inr m"
  by (cases x) (simp add: MergeTimeSlot_def Let_def)

lemma command_served:
  assumes "schedule_booking lat p fuel req a s = Some (Inr (b, conf))" and "MergeTimeSlot (mergedSlots s) (tsMEM b) = Inr m"
  shows "\<exists>req' s'. TimelineScheduling lat p fuel req a s = Some (Inr (req', s', conf)) \<and> mergedSlots s' = m"
  using assms
  by (simp add: TimelineScheduling_def Let_def UpdateLastTick_def FlushOpTimeStamp_def note_operation_def)

lemma sample_step:
  assumes "pal2_ok pal_sample s" and "in_time 3000 pal_sample 100 sample_page s"
    and "\<And>ts. \<exists>m. MergeTimeSlot (mergedSlots s) ts = Inr m"
  shows "\<exists>b s' m. pal2_step slc pal_sample 3000 s (uses pal_sample sample_page b) s' \<and>
    ticks (tsDMA0 b) \<noteq> {} \<and> MergeTimeSlot (mergedSlots s) (tsMEM b) = Inr m \<and> mergedSlots s' = m \<and>
    unat (chStart s' ! 1) \<le> max 100 (max (unat (chStart s ! 1)) (unat (dieStart s ! 2))) + 3000 \<and>
    unat (dieStart s' ! 2) \<le> max 100 (max (unat (chStart s ! 1)) (unat (dieStart s ! 2))) + 3000"
proof -
  let ?req = "Command_new 100 0 OPER_READ 4096" and ?fuel = "unat (dieStart s ! 2)"
  have t: "in_time 3000 pal_sample (cmdArrived ?req) sample_page s" using assms(2) by (simp add: Command_new_def)
  note S = schedule_spec [OF assms(1) sample_page_range pal_sample_dies slc_timing_ok t, of ?fuel]
  have "schedule_booking slc pal_sample ?fuel ?req sample_page s \<noteq> None" by (rule S(1)) (simp add: sample_starts)
  then obtain r where r: "schedule_booking slc pal_sample ?fuel ?req sample_page s = Some r" by blast
  from S(2) [OF r] obtain b conf where b: "r = Inr (b, conf)" and
    ok: "booking_ok (chSlots s ! 1) (chStart s ! 1) (dieSlots s ! 2) (dieStart s ! 2) 1 25 18 1 100 b"
    by (auto simp: sample_starts sample_page_sel Command_new_def GetLatency_def LatencySLC_GetLatency_def
        dma_latency_def slc_timing_def)
  from assms(3) obtain m where m: "MergeTimeSlot (mergedSlots s) (tsMEM b) = Inr m" by blast
  from command_served [OF r [unfolded b] m] obtain req' s' where
    T: "TimelineScheduling slc pal_sample ?fuel ?req sample_page s = Some (Inr (req', s', conf))" "mergedSlots s' = m" by blast
  have st: "pal2_step slc pal_sample 3000 s (uses pal_sample sample_page b) s'"
    by (rule step_command [OF sample_page_range t r [unfolded b] T(1)])
  have len: "1 < length (chStart s)" "2 < length (dieStart s)"
    using assms(1) by (simp_all add: pal2_ok_def die_count_def pal_sample_def)
  from TimelineScheduling_commit [OF T(1)] r b have upd: "chStart s' = (chStart s)[1 := bkCs b]" "dieStart s' = (dieStart s)[2 := bkDs b]"
    by (auto simp: sample_starts) (simp add: sample_page_sel)
  have "ticks (tsDMA0 b) \<noteq> {}" using ok by (auto simp: booking_ok_def ticks_def)
  moreover have "unat (chStart s' ! 1) \<le> max 100 (max (unat (chStart s ! 1)) (unat (dieStart s ! 2))) + 3000"
    "unat (dieStart s' ! 2) \<le> max 100 (max (unat (chStart s ! 1)) (unat (dieStart s ! 2))) + 3000"
    using ok len unfolding upd booking_ok_def by auto
  ultimately show ?thesis using st m T(2) by blast
qed

lemma sample_commands:
  "\<exists>us s'. chain (pal2_step slc pal_sample 3000) pal2_sample us s' \<and> length us = 2 \<and>
     (us ! 0) (Inl 1) \<noteq> {} \<and> (us ! 1) (Inl 1) \<noteq> {}"
proof -
  obtain q where "PAL2_new NAND_SLC 400 4096 False pal_sample = Inr (q, pal2_sample)" using pal2_sample_eq by blast
  from PAL2_new_starts [OF this pal_sample_dies] have none: "mergedSlots pal2_sample = []" by simp
  have ch: "aChannel sample_page = 1" by (simp add: sample_page_def)
  from sample_step [OF pal2_sample_ok sample_in_time] obtain b s where
    A: "pal2_step slc pal_sample 3000 pal2_sample (uses pal_sample sample_page b) s" "ticks (tsDMA0 b) \<noteq> {}"
    "mergedSlots s = [tsMEM b]" "unat (chStart s ! 1) \<le> 3100" "unat (dieStart s ! 2) \<le> 3100"
    by (auto simp: none MergeTimeSlot_empty sample_starts)
  have ok: "pal2_ok pal_sample s" using pal2_step_laws [OF A(1) pal2_sample_ok pal_sample_dies slc_timing_ok] by blast
  have "in_time 3000 pal_sample 100 sample_page s"
    using A(4,5) by (simp add: in_time_def horizon_def sample_starts ch)
  from sample_step [OF ok this] obtain b' s' where
    B: "pal2_step slc pal_sample 3000 s (uses pal_sample sample_page b') s'" "ticks (tsDMA0 b') \<noteq> {}"
    using MergeTimeSlot_one unfolding A(3) by blast
  have "chain (pal2_step slc pal_sample 3000) pal2_sample [uses pal_sample sample_page b, uses pal_sample sample_page b'] s'"
    using A(1) B(1) by auto
  with A(2) B(2) show ?thesis
    by (intro exI [of _ "[uses pal_sample sample_page b, uses pal_sample sample_page b']"] exI [of _ s']) (simp add: ch)
qed

lemma no_double_booking_witness:
  "\<exists>us s'. chain (pal2_step slc pal_sample 3000) pal2_sample us s' \<and>
     (us ! 0) (Inl 1) \<noteq> {} \<and> (us ! 1) (Inl 1) \<noteq> {} \<and> (us ! 0) (Inl 1) \<inter> (us ! 1) (Inl 1) = {}"
proof -
  obtain us s' where U: "chain (pal2_step slc pal_sample 3000) pal2_sample us s'" "length us = 2"
    "(us ! 0) (Inl 1) \<noteq> {}" "(us ! 1) (Inl 1) \<noteq> {}" using sample_commands by blast
  have "(us ! 0) (Inl 1) \<inter> (us ! 1) (Inl 1) = {}"
    using no_double_booking [OF U(1) pal2_sample_ok pal_sample_dies slc_timing_ok, of 0 1 "Inl 1"] U(2) by simp
  with U show ?thesis by blast
qed

text \<open>C21. A command never waits longer than for the resources it needs: it is finished at the latest when
  the arrival or the start points of its channel and die, whichever is last, plus its own latencies are
  over.\<close>

theorem bounded_wait:
  assumes "pal2_ok p s" and "die_range p a" and "dies_fit p" and "timing_ok lat n"
    and "in_time n p (cmdArrived req) a s"
    and "TimelineScheduling lat p fuel req a s = Some (Inr (req', s', conf))"
  shows "unat (cmdFinished req') <
    max (unat (cmdArrived req)) (max (unat (chStart s ! aChannel a)) (unat (dieStart s ! CPDPBPtoDieIdx p a))) +
    unat (lat (of_nat (aPage a)) (cmdOper req) BUSY_DMA0) + unat (lat (of_nat (aPage a)) (cmdOper req) BUSY_MEM) +
    unat (lat (of_nat (aPage a)) OPER_READ BUSY_DMA0) + unat (lat (of_nat (aPage a)) (cmdOper req) BUSY_DMA1)"
proof -
  from TimelineScheduling_commit [OF assms(6)] obtain b conf' where
    b: "schedule_booking lat p fuel req a s = Some (Inr (b, conf'))" "cmdFinished req' = snd (tsDMA1 b)" by blast
  from schedule_spec(2) [OF assms(1-5) b(1)] show ?thesis unfolding b(2) booking_ok_def by auto
qed

lemma bounded_wait_witness:
  "\<exists>req' s' conf. TimelineScheduling slc pal_sample 0 (Command_new 100 0 OPER_READ 4096) sample_page pal2_sample =
     Some (Inr (req', s', conf)) \<and> unat (cmdFinished req') < 145"
proof -
  obtain q where "PAL2_new NAND_SLC 400 4096 False pal_sample = Inr (q, pal2_sample)" using pal2_sample_eq by blast
  from PAL2_new_starts [OF this pal_sample_dies] have none: "mergedSlots pal2_sample = []" by simp
  obtain b conf where b: "schedule_booking slc pal_sample 0 (Command_new 100 0 OPER_READ 4096) sample_page pal2_sample = Some (Inr (b, conf))"
    using sample_scheduled by blast
  from command_served [OF b] none MergeTimeSlot_empty obtain req' s' where
    T: "TimelineScheduling slc pal_sample 0 (Command_new 100 0 OPER_READ 4096) sample_page pal2_sample = Some (Inr (req', s', conf))"
    by metis
  have t: "in_time 3000 pal_sample (cmdArrived (Command_new 100 0 OPER_READ 4096)) sample_page pal2_sample"
    using sample_in_time by (simp add: Command_new_def)
  from bounded_wait [OF pal2_sample_ok sample_page_range pal_sample_dies slc_timing_ok t T] T show ?thesis
    by (simp add: Command_new_def GetLatency_def LatencySLC_GetLatency_def dma_latency_def slc_timing_def
        sample_starts sample_page_sel)
qed

section \<open>Numbers\<close>

text \<open>Page numbers and physical addresses are in bijection: taking apart the number of an address
  gives the address back, and every number below the number of pages is the number of one address.\<close>

theorem ppn_roundtrip:
  assumes "PAL2_new nand speed pgsize multi p = Inr (q, s)" and "page_count multi p < 2 ^ 32"
  shows "(\<forall>a. page_range multi p a \<longrightarrow> AssemblePPN q a < page_count multi p \<and> PPNdisassemble q (AssemblePPN q a) = Inr a) \<and>
    (\<forall>x<page_count multi p. \<exists>a. PPNdisassemble q x = Inr a \<and> page_range multi p a \<and> AssemblePPN q a = x)"
  using ppn_roundtrip_rs [OF PAL2_new_sizes [OF assms(1)] assms(2) [unfolded page_count_def]]
    ppn_roundtrip_inverse [OF PAL2_new_sizes [OF assms(1)] assms(2) [unfolded page_count_def]]
  unfolding page_range_def die_range_def page_count_def by metis

lemma ppn_roundtrip_witness:
  "\<exists>q. PAL2_new NAND_SLC 400 4096 False pal_sample = Inr (q, pal2_sample) \<and>
     PPNdisassemble q (AssemblePPN q sample_page) = Inr sample_page"
proof -
  obtain q where q: "PAL2_new NAND_SLC 400 4096 False pal_sample = Inr (q, pal2_sample)" using pal2_sample_eq by blast
  have "page_range False pal_sample sample_page"
    by (simp add: page_range_def sample_page_range) (simp add: sample_page_def pal_sample_def planes_of_def)
  moreover have "page_count False pal_sample < 2 ^ 32" by (simp add: page_count_def pal_sample_def planes_of_def)
  ultimately show ?thesis using ppn_roundtrip [OF q] q by blast
qed

text \<open>The number of a die is below the number of dies, so that it is a valid index of the stores, and
  different dies have different numbers.\<close>

theorem die_numbers:
  assumes "pal2_ok p s" and "dies_fit p" and "die_range p a" and "die_range p b"
  shows "CPDPBPtoDieIdx p a < length (dieSlots s) \<and> CPDPBPtoDieIdx p a < length (dieStart s) \<and>
    (CPDPBPtoDieIdx p a = CPDPBPtoDieIdx p b \<longleftrightarrow>
       aChannel a = aChannel b \<and> aPackage a = aPackage b \<and> aDie a = aDie b)"
  using die_index(2) [OF assms(3,2)] die_index_unique [OF assms(3,4,2)] assms(1)
  by (simp add: pal2_ok_def die_count_def)

lemma die_numbers_witness:
  "CPDPBPtoDieIdx pal_sample sample_page < length (dieSlots pal2_sample)"
  using die_numbers [OF pal2_sample_ok pal_sample_dies sample_page_range sample_page_range] by simp

section \<open>Accounting\<close>

text \<open>The flush that follows every command counts one tick of busy time for each kind of operation
  that has not been used at all.\<close>

lemma idle_kinds_counted:
  assumes "k < length (opStamps s)" and "length (opBusy s) = length (opStamps s)" and "opStamps s ! k = []"
  shows "opBusy (FlushOpTimeStamp s) ! k = opBusy s ! k + 1"
  using assms by (simp add: FlushOpTimeStamp_def)

lemma idle_kinds_counted_sample: "opBusy (FlushOpTimeStamp pal2_sample) ! 2 = 1"
proof -
  have "opStamps pal2_sample = [[], [], []]" "opBusy pal2_sample = [0, 0, 0]"
    by (simp_all add: pal2_sample_def PAL2_new_def pal_sample_def)
  with idle_kinds_counted [of 2 pal2_sample] show ?thesis by (simp add: numeral_eq_Suc)
qed

text \<open>Merging a busy interval into a list of one that it does not touch yields one interval again,
  from the start of the old to the end of the new: the gap between them counts as busy, and when the
  new one comes first the result ends before it starts.\<close>

lemma merge_disjoint:
  assumes "s \<le> e" and "s' \<le> e'" and "e < s' \<or> e' < s"
  shows "MergeTimeSlot [(s, e)] (s', e') = Inr [(s, e')]"
  using assms by (auto simp: MergeTimeSlot_def merge_upto_def Let_def)

lemma merge_disjoint_sample:
  "MergeTimeSlot [(10, 19)] (50, 59) = Inr [(10, 59)]"
  using merge_disjoint [of 10 19 50 59] by simp

end
