(* ===== verification/Cpu.thy ===== *)
theory Cpu
  imports Requests
begin

text \<open>
  The processor of the drive, \<^verbatim>\<open>src/cpu/cpu.cc\<close>: the instruction counts of the firmware functions,
  the cores with their job queues, the choice of a core, and the two ways to charge a firmware
  function: \<open>execute\<close> queues a job whose callback runs when the core has executed it,
  \<open>applyLatency\<close> only accounts for it.

  The event of a core is its field \<open>coreEvent\<close>: the tick it is scheduled for, or \<open>None\<close>. A
  callback and its context are one value of type \<open>'j\<close>. The power model, the RISC-V cores of the
  computational storage extension and the text output of the statistics are not modelled.
\<close>

section \<open>Instruction counts\<close>

record inst_stat =
  insBranch :: u64
  insLoad :: u64
  insStore :: u64
  insArithmetic :: u64
  insFloat :: u64
  insOther :: u64
  insLatency :: u64

definition InstStat_zero :: inst_stat where
  "InstStat_zero = \<lparr>insBranch = 0, insLoad = 0, insStore = 0, insArithmetic = 0, insFloat = 0,
     insOther = 0, insLatency = 0\<rparr>"

definition InstStat_sum :: "inst_stat \<Rightarrow> u64" where
  "InstStat_sum i = insBranch i + insLoad i + insStore i + insArithmetic i + insFloat i + insOther i"

definition InstStat_new :: "u64 \<Rightarrow> u64 \<Rightarrow> u64 \<Rightarrow> u64 \<Rightarrow> u64 \<Rightarrow> u64 \<Rightarrow> u64 \<Rightarrow> inst_stat" where
  "InstStat_new b l s a f o' c =
     (let i = \<lparr>insBranch = b, insLoad = l, insStore = s, insArithmetic = a, insFloat = f,
                insOther = o', insLatency = 0\<rparr>
      in i\<lparr>insLatency := InstStat_sum i * c\<rparr>)"

text \<open>The counters add up; the latency of the left-hand side stays.\<close>

definition InstStat_add :: "inst_stat \<Rightarrow> inst_stat \<Rightarrow> inst_stat" where
  "InstStat_add i r = i\<lparr>insBranch := insBranch i + insBranch r, insLoad := insLoad i + insLoad r,
     insStore := insStore i + insStore r, insArithmetic := insArithmetic i + insArithmetic r,
     insFloat := insFloat i + insFloat r, insOther := insOther i + insOther r\<rparr>"

text \<open>
  The table the constructor fills: branch, load, store, arithmetic, floating-point and other
  instructions of each firmware function. Keys are inserted once, so the list is the table.
\<close>

definition cpi_rows :: "(cpu_namespace \<times> cpu_function \<times> (u64 \<times> u64 \<times> u64 \<times> u64 \<times> u64 \<times> u64)) list" where
  "cpi_rows = [
    (FTL, READ, (5, 32, 6, 13, 0, 1)),
    (FTL, WRITE, (5, 32, 6, 13, 0, 1)),
    (FTL, TRIM, (5, 32, 6, 13, 0, 1)),
    (FTL, FORMAT, (4, 24, 4, 6, 0, 0)),
    (FTL__PAGE_MAPPING, READ, (8, 28, 7, 18, 0, 1)),
    (FTL__PAGE_MAPPING, WRITE, (8, 28, 7, 19, 0, 0)),
    (FTL__PAGE_MAPPING, TRIM, (4, 28, 6, 11, 0, 0)),
    (FTL__PAGE_MAPPING, FORMAT, (63, 180, 21, 147, 0, 2)),
    (FTL__PAGE_MAPPING, SELECT_VICTIM_BLOCK, (177, 504, 113, 415, 118, 19)),
    (FTL__PAGE_MAPPING, DO_GARBAGE_COLLECTION, (157, 616, 102, 338, 0, 2)),
    (FTL__PAGE_MAPPING, READ_INTERNAL, (45, 180, 15, 155, 0, 0)),
    (FTL__PAGE_MAPPING, WRITE_INTERNAL, (133, 452, 54, 377, 91, 1)),
    (FTL__PAGE_MAPPING, TRIM_INTERNAL, (34, 140, 10, 146, 0, 0)),
    (FTL__PAGE_MAPPING, ERASE_INTERNAL, (120, 236, 86, 260, 0, 1)),
    (ICL, READ, (8, 88, 17, 27, 0, 1)),
    (ICL, WRITE, (8, 88, 17, 27, 0, 1)),
    (ICL, FLUSH, (5, 40, 6, 12, 0, 0)),
    (ICL, TRIM, (5, 40, 6, 12, 0, 0)),
    (ICL, FORMAT, (5, 40, 6, 12, 0, 0)),
    (ICL__GENERIC_CACHE, READ, (90, 532, 64, 284, 0, 1)),
    (ICL__GENERIC_CACHE, WRITE, (82, 496, 53, 312, 0, 5)),
    (ICL__GENERIC_CACHE, FLUSH, (22, 120, 20, 59, 0, 2)),
    (ICL__GENERIC_CACHE, TRIM, (22, 120, 20, 61, 0, 2)),
    (ICL__GENERIC_CACHE, FORMAT, (9, 72, 12, 86, 0, 1)),
    (HIL, READ, (61, 312, 102, 120, 0, 2)),
    (HIL, WRITE, (61, 312, 102, 120, 0, 2)),
    (HIL, FLUSH, (27, 100, 27, 49, 0, 1)),
    (NVME__CONTROLLER, HANDLE_REQUEST, (44, 164, 32, 68, 0, 2)),
    (NVME__CONTROLLER, COLLECT_SQ, (0, 0, 0, 0, 0, 0)),
    (NVME__CONTROLLER, COMPLETION, (136, 360, 65, 230, 0, 3)),
    (NVME__CONTROLLER, WORK, (54, 140, 36, 91, 0, 8)),
    (NVME__CONTROLLER, CREATE_CQ, (0, 0, 0, 0, 0, 0)),
    (NVME__CONTROLLER, CREATE_SQ, (0, 0, 0, 0, 0, 0)),
    (NVME__PRPLIST, GET_PRPLIST_FROM_PRP, (41, 168, 42, 75, 0, 1)),
    (NVME__PRPLIST, READ, (99, 456, 94, 177, 0, 6)),
    (NVME__PRPLIST, WRITE, (99, 456, 94, 177, 0, 6)),
    (NVME__SGL, PARSE_SGL_SEGMENT, (44, 152, 35, 78, 0, 2)),
    (NVME__SGL, READ, (99, 456, 94, 177, 0, 6)),
    (NVME__SGL, WRITE, (99, 456, 94, 177, 0, 6)),
    (NVME__SUBSYSTEM, SUBMIT_COMMAND, (119, 220, 45, 160, 0, 6)),
    (NVME__SUBSYSTEM, CONVERT_UNIT, (4, 40, 14, 110, 0, 1)),
    (NVME__SUBSYSTEM, FORMAT_NVM, (70, 200, 42, 161, 0, 1)),
    (NVME__NAMESPACE, SUBMIT_COMMAND, (27, 44, 5, 37, 0, 0)),
    (NVME__NAMESPACE, READ, (82, 292, 42, 128, 0, 4)),
    (NVME__NAMESPACE, WRITE, (86, 304, 47, 141, 0, 3)),
    (NVME__NAMESPACE, FLUSH, (51, 124, 28, 78, 0, 3)),
    (NVME__NAMESPACE, DATASET_MANAGEMENT, (131, 364, 71, 200, 0, 7)),
    (NVME__OCSSD, SUBMIT_COMMAND, (155, 100, 12, 208, 0, 4)),
    (NVME__OCSSD, READ, (93, 284, 60, 146, 0, 5)),
    (NVME__OCSSD, WRITE, (95, 276, 60, 150, 0, 4)),
    (NVME__OCSSD, DATASET_MANAGEMENT, (119, 328, 76, 186, 0, 4)),
    (NVME__OCSSD, READ_INTERNAL, (54, 172, 69, 89, 0, 1)),
    (NVME__OCSSD, WRITE_INTERNAL, (72, 236, 77, 141, 0, 3)),
    (NVME__OCSSD, ERASE_INTERNAL, (68, 204, 77, 116, 0, 1)),
    (NVME__OCSSD, CONVERT_UNIT, (65, 388, 63, 303, 0, 1)),
    (NVME__OCSSD, VECTOR_CHUNK_READ, (128, 368, 76, 204, 0, 4)),
    (NVME__OCSSD, VECTOR_CHUNK_WRITE, (128, 384, 81, 209, 0, 6)),
    (NVME__OCSSD, VECTOR_CHUNK_RESET, (69, 184, 43, 112, 0, 4)),
    (NVME__OCSSD, PHYSICAL_PAGE_READ, (206, 692, 157, 315, 0, 5)),
    (NVME__OCSSD, PHYSICAL_PAGE_WRITE, (183, 620, 154, 284, 0, 6)),
    (NVME__OCSSD, PHYSICAL_BLOCK_ERASE, (162, 460, 78, 227, 0, 4)),
    (UFS__DEVICE, PROCESS_QUERY_COMMAND, (51, 132, 40, 97, 0, 0)),
    (UFS__DEVICE, PROCESS_COMMAND, (212, 460, 117, 491, 0, 9)),
    (UFS__DEVICE, PRDT_READ, (42, 172, 43, 74, 0, 2)),
    (UFS__DEVICE, PRDT_WRITE, (42, 172, 43, 74, 0, 2)),
    (UFS__DEVICE, READ, (29, 76, 17, 51, 0, 2)),
    (UFS__DEVICE, WRITE, (29, 76, 17, 51, 0, 2)),
    (UFS__DEVICE, FLUSH, (25, 64, 18, 44, 0, 1)),
    (SATA__DEVICE, SUBMIT_COMMAND, (157, 352, 69, 178, 0, 1)),
    (SATA__DEVICE, PRDT_READ, (42, 172, 43, 73, 0, 3)),
    (SATA__DEVICE, PRDT_WRITE, (42, 172, 43, 73, 0, 3)),
    (SATA__DEVICE, READ, (28, 84, 23, 119, 0, 0)),
    (SATA__DEVICE, WRITE, (28, 84, 23, 120, 0, 1)),
    (SATA__DEVICE, FLUSH, (25, 64, 18, 44, 0, 1)),
    (SATA__DEVICE, READ_DMA, (57, 212, 36, 128, 0, 3)),
    (SATA__DEVICE, READ_NCQ, (34, 116, 29, 72, 0, 3)),
    (SATA__DEVICE, READ_DMA_SETUP, (16, 64, 9, 38, 0, 1)),
    (SATA__DEVICE, READ_DMA_DONE, (28, 72, 15, 48, 0, 2)),
    (SATA__DEVICE, WRITE_DMA, (57, 212, 36, 127, 0, 3)),
    (SATA__DEVICE, WRITE_NCQ, (34, 128, 31, 68, 0, 2)),
    (SATA__DEVICE, WRITE_DMA_SETUP, (18, 56, 10, 37, 0, 1)),
    (SATA__DEVICE, WRITE_DMA_DONE, (33, 100, 17, 61, 0, 3))]"

type_synonym cpi_table = "((cpu_namespace \<times> cpu_function) \<times> inst_stat) list"

definition cpi_new :: "u64 \<Rightarrow> cpi_table" where
  "cpi_new period = map (\<lambda>(ns, fct, (b, l, s, a, f, r)). ((ns, fct), InstStat_new b l s a f r period)) cpi_rows"

section \<open>Cores\<close>

record 'j job =
  jobFunc :: 'j
  jobInst :: inst_stat
  submitAt :: tick
  jobDelay :: tick

record 'j core =
  coreBusy :: bool
  coreEvent :: "tick option"
  coreJobs :: "'j job list"
  statBusy :: u64
  statInst :: inst_stat

definition Core_new :: "'j core" where
  "Core_new = \<lparr>coreBusy = False, coreEvent = None, coreJobs = [], statBusy = 0, statInst = InstStat_zero\<rparr>"

definition core_isBusy :: "'j core \<Rightarrow> bool" where
  "core_isBusy c = coreBusy c"

definition core_getJobListSize :: "'j core \<Rightarrow> nat" where
  "core_getJobListSize c = length (coreJobs c)"

definition core_handleJob :: "tick \<Rightarrow> 'j core \<Rightarrow> 'j core res" where
  "core_handleJob now c =
     ebind (front (coreJobs c)) (\<lambda>j.
       let diff = now - submitAt j;
           finishedAt = (if diff \<ge> jobDelay j then now + insLatency (jobInst j)
                         else now + insLatency (jobInst j) + jobDelay j - diff)
       in Inr (c\<lparr>coreBusy := True, coreEvent := Some finishedAt\<rparr>))"

definition core_submitJob :: "'j \<Rightarrow> inst_stat \<Rightarrow> tick \<Rightarrow> tick \<Rightarrow> 'j core \<Rightarrow> 'j core res" where
  "core_submitJob f i delay now c =
     (let c = c\<lparr>coreJobs := coreJobs c @ [\<lparr>jobFunc = f, jobInst = i, submitAt = now, jobDelay = delay\<rparr>]\<rparr>
      in if \<not> coreBusy c then core_handleJob now c else Inr c)"

definition core_addStat :: "inst_stat \<Rightarrow> 'j core \<Rightarrow> 'j core" where
  "core_addStat i c = c\<lparr>statBusy := statBusy c + insLatency i, statInst := InstStat_add (statInst c) i\<rparr>"

text \<open>
  The event of the core. The callback of the job in front runs first, while the core is busy; what
  it does to this core, further submissions above all, is \<open>run\<close>.
\<close>

definition core_jobDone :: "('j \<Rightarrow> tick \<Rightarrow> 'j core \<Rightarrow> 'j core res) \<Rightarrow> tick \<Rightarrow> 'j core \<Rightarrow> 'j core res" where
  "core_jobDone run now c =
     ebind (front (coreJobs c)) (\<lambda>j.
     ebind (run (jobFunc j) now (c\<lparr>coreEvent := None\<rparr>)) (\<lambda>c.
       let c = core_addStat (jobInst j) c;
           c = c\<lparr>coreJobs := tl (coreJobs c), coreBusy := False\<rparr>
       in if coreJobs c \<noteq> [] then core_handleJob now c else Inr c))"

definition core_resetStat :: "'j core \<Rightarrow> 'j core" where
  "core_resetStat c = c\<lparr>statBusy := 0, statInst := InstStat_zero\<rparr>"

section \<open>The processor\<close>

record cpu_conf =
  cfClock :: nat
  cfHilCores :: nat
  cfIclCores :: nat
  cfFtlCores :: nat

definition CPUConfig_new :: cpu_conf where
  "CPUConfig_new = \<lparr>cfClock = 400000000, cfHilCores = 1, cfIclCores = 1, cfFtlCores = 1\<rparr>"

definition CPUConfig_update :: "cpu_conf \<Rightarrow> unit res" where
  "CPUConfig_update cf = guard (cfClock cf \<noteq> 0) (Panic ''Invalid ClockSpeed'')"

record 'j cpu =
  clockPeriod :: u64
  hilCore :: "'j core list"
  iclCore :: "'j core list"
  ftlCore :: "'j core list"
  cpi :: cpi_table
  lastResetStat :: tick

text \<open>
  The period is the double quotient \<open>1000000000000. / clockSpeed\<close>, truncated. Its numerator is
  far below \<open>2 ^ 53\<close>, so rounding never lifts a quotient to the next integer and the result is
  the integer quotient.
\<close>

definition CPU_new :: "cpu_conf \<Rightarrow> 'j cpu res" where
  "CPU_new cf =
     (if cfClock cf = 0 then Inl (Undefined ''conversion of infinity'')
      else let period = of_nat (1000000000000 div cfClock cf) in
        Inr \<lparr>clockPeriod = period, hilCore = replicate (cfHilCores cf) Core_new,
          iclCore = replicate (cfIclCores cf) Core_new, ftlCore = replicate (cfFtlCores cf) Core_new,
          cpi = cpi_new period, lastResetStat = 0\<rparr>)"

text \<open>
  The core a job goes to: the idle core with the least busy time; when there is none, the last of
  those with the fewest jobs. The index is out of range exactly when there is no core.
\<close>

definition least_idle :: "'j core list \<Rightarrow> nat \<times> u64" where
  "least_idle cs =
     foldl (\<lambda>(idx, busymin) i.
         if \<not> core_isBusy (cs ! i) \<and> statBusy (cs ! i) < busymin then (i, statBusy (cs ! i)) else (idx, busymin))
       (length cs, - 1) [0..<length cs]"

definition least_jobs :: "'j core list \<Rightarrow> nat \<times> nat" where
  "least_jobs cs =
     foldl (\<lambda>(idx, jobmin) i.
         if core_getJobListSize (cs ! i) \<le> jobmin then (i, core_getJobListSize (cs ! i)) else (idx, jobmin))
       (length cs, 2 ^ 64 - 1) [0..<length cs]"

definition leastBusyCPU :: "'j core list \<Rightarrow> nat" where
  "leastBusyCPU cs =
     (if fst (least_idle cs) = length cs then fst (least_jobs cs) else fst (least_idle cs))"

text \<open>The group of cores a namespace runs on. The enumeration has no other values.\<close>

datatype core_group = HIL_cores | ICL_cores | FTL_cores

fun group_of :: "cpu_namespace \<Rightarrow> core_group" where
  "group_of FTL = FTL_cores"
| "group_of FTL__PAGE_MAPPING = FTL_cores"
| "group_of ICL = ICL_cores"
| "group_of ICL__GENERIC_CACHE = ICL_cores"
| "group_of _ = HIL_cores"

fun cores_of :: "core_group \<Rightarrow> 'j cpu \<Rightarrow> 'j core list" where
  "cores_of HIL_cores p = hilCore p"
| "cores_of ICL_cores p = iclCore p"
| "cores_of FTL_cores p = ftlCore p"

fun put_core :: "core_group \<Rightarrow> nat \<Rightarrow> 'j core \<Rightarrow> 'j cpu \<Rightarrow> 'j cpu" where
  "put_core HIL_cores i c p = p\<lparr>hilCore := (hilCore p)[i := c]\<rparr>"
| "put_core ICL_cores i c p = p\<lparr>iclCore := (iclCore p)[i := c]\<rparr>"
| "put_core FTL_cores i c p = p\<lparr>ftlCore := (ftlCore p)[i := c]\<rparr>"

text \<open>The outer table has every namespace, so only the function can be missing.\<close>

definition cpi_find :: "cpi_table \<Rightarrow> cpu_namespace \<Rightarrow> cpu_function \<Rightarrow> inst_stat res" where
  "cpi_find t ns fct = (case map_of t (ns, fct) of
     None \<Rightarrow> Inl (Panic ''Namespace does not have function'') | Some i \<Rightarrow> Inr i)"

text \<open>
  \<open>execute\<close> queues the job. A group without cores runs the callback at once: it is returned, for
  the caller to run.
\<close>

definition cpu_execute ::
  "cpu_namespace \<Rightarrow> cpu_function \<Rightarrow> 'j \<Rightarrow> tick \<Rightarrow> tick \<Rightarrow> 'j cpu \<Rightarrow> ('j cpu \<times> 'j option) res" where
  "cpu_execute ns fct f delay now p =
     (let g = group_of ns; cs = cores_of g p in
      if cs \<noteq> [] then
        ebind (vec_at cs (leastBusyCPU cs)) (\<lambda>c.
        ebind (cpi_find (cpi p) ns fct) (\<lambda>i.
        ebind (core_submitJob f i delay now c) (\<lambda>c.
        Inr (put_core g (leastBusyCPU cs) c p, None))))
      else Inr (p, Some f))"

definition cpu_applyLatency :: "cpu_namespace \<Rightarrow> cpu_function \<Rightarrow> 'j cpu \<Rightarrow> (tick \<times> 'j cpu) res" where
  "cpu_applyLatency ns fct p =
     (let g = group_of ns; cs = cores_of g p in
      if cs \<noteq> [] then
        ebind (vec_at cs (leastBusyCPU cs)) (\<lambda>c.
        ebind (cpi_find (cpi p) ns fct) (\<lambda>i.
        Inr (insLatency i, put_core g (leastBusyCPU cs) (core_addStat i c) p)))
      else Inr (0, p))"

definition core_values :: "'j core \<Rightarrow> u64 list" where
  "core_values c = [statBusy c, insBranch (statInst c), insLoad (statInst c), insStore (statInst c),
     insArithmetic (statInst c), insFloat (statInst c), insOther (statInst c)]"

definition cpu_getStatValues :: "'j cpu \<Rightarrow> u64 list" where
  "cpu_getStatValues p = concat (map core_values (hilCore p @ iclCore p @ ftlCore p))"

definition cpu_resetStatValues :: "tick \<Rightarrow> 'j cpu \<Rightarrow> 'j cpu" where
  "cpu_resetStatValues now p =
     p\<lparr>lastResetStat := now, hilCore := map core_resetStat (hilCore p),
       iclCore := map core_resetStat (iclCore p), ftlCore := map core_resetStat (ftlCore p)\<rparr>"

end
