(* ===== verification/CpuProps.thy ===== *)
theory CpuProps
  imports Cpu
begin

text \<open>
  The processor: which core a job goes to, and when the jobs of a core end. A run of one core is an
  interleaving of submissions and of the core's event, in the order of their ticks; the jobs end in
  the order of their submission, at the ticks of the reference function \<open>finish\<close>.
\<close>

section \<open>The choice of a core\<close>

lemma least_idle_spec:
  fixes cs :: "'j core list"
  defines "idle i \<equiv> i < length cs \<and> \<not> coreBusy (cs ! i) \<and> statBusy (cs ! i) < - 1"
  shows "(fst (least_idle cs) = length cs \<longrightarrow> (\<forall>i. \<not> idle i)) \<and>
    (fst (least_idle cs) \<noteq> length cs \<longrightarrow> idle (fst (least_idle cs)) \<and>
      (\<forall>i. idle i \<longrightarrow> statBusy (cs ! fst (least_idle cs)) \<le> statBusy (cs ! i)))"
proof -
  let ?f = "\<lambda>(idx, busymin) i. if \<not> core_isBusy (cs ! i) \<and> statBusy (cs ! i) < busymin
    then (i, statBusy (cs ! i)) else (idx, busymin)"
  have "n \<le> length cs \<Longrightarrow> (case foldl ?f (length cs, - 1) [0..<n] of (idx, m) \<Rightarrow>
      (idx = length cs \<longrightarrow> m = - 1) \<and> (idx \<noteq> length cs \<longrightarrow> idle idx \<and> m = statBusy (cs ! idx)) \<and>
      (\<forall>i<n. idle i \<longrightarrow> m \<le> statBusy (cs ! i)) \<and> (idx = length cs \<longrightarrow> (\<forall>i<n. \<not> idle i)))" for n
  proof (induction n)
    case (Suc n)
    then have n: "n < length cs" by simp
    obtain idx m where x: "foldl ?f (length cs, - 1) [0..<n] = (idx, m)" by fastforce
    have "m \<le> - 1" by simp
    with Suc n x show ?case
      by (auto simp: idle_def core_isBusy_def less_Suc_eq not_less dest: order_less_le_trans)
  qed (simp add: idle_def)
  from this [of "length cs"] show ?thesis
    by (auto simp: least_idle_def idle_def split: prod.splits)
qed

lemma least_jobs_spec:
  fixes cs :: "'j core list"
  assumes "cs \<noteq> []" and "\<And>c. c \<in> set cs \<Longrightarrow> length (coreJobs c) < 2 ^ 64"
  shows "fst (least_jobs cs) < length cs \<and>
    (\<forall>i<length cs. length (coreJobs (cs ! fst (least_jobs cs))) \<le> length (coreJobs (cs ! i)))"
proof -
  let ?f = "\<lambda>(idx, jobmin) i. if core_getJobListSize (cs ! i) \<le> jobmin
    then (i, core_getJobListSize (cs ! i)) else (idx, jobmin)"
  have small: "length (coreJobs (cs ! i)) \<le> 2 ^ 64 - 1" if "i < length cs" for i
    using assms(2) [OF nth_mem [OF that]] by simp
  have "n \<le> length cs \<Longrightarrow> (case foldl ?f (length cs, 2 ^ 64 - 1) [0..<n] of (idx, m) \<Rightarrow>
      (0 < n \<longrightarrow> idx < n \<and> m = length (coreJobs (cs ! idx))) \<and> (n = 0 \<longrightarrow> m = 2 ^ 64 - 1) \<and>
      (\<forall>i<n. m \<le> length (coreJobs (cs ! i))))" for n
  proof (induction n)
    case (Suc n)
    then have n: "n < length cs" by simp
    obtain idx m where x: "foldl ?f (length cs, 2 ^ 64 - 1) [0..<n] = (idx, m)" by fastforce
    show ?case using Suc n x small [OF n]
      by (cases "n = 0") (auto simp: core_getJobListSize_def less_Suc_eq not_le dest: less_imp_le order_trans)
  qed simp
  from this [of "length cs"] assms(1) show ?thesis
    by (auto simp: least_jobs_def split: prod.splits)
qed

section \<open>Runs of a core\<close>

text \<open>The reference: each job starts when the one before has ended and its own delay has passed.\<close>

fun finish :: "nat \<Rightarrow> 'j job list \<Rightarrow> nat list" where
  "finish t [] = []"
| "finish t (j # js) =
     (let e = max t (unat (submitAt j) + unat (jobDelay j)) + unat (insLatency (jobInst j)) in e # finish e js)"

lemma length_finish [simp]: "length (finish t js) = length js"
  by (induction js arbitrary: t) (auto simp: Let_def)

lemma finish_Nil [simp]: "finish t js = [] \<longleftrightarrow> js = []"
  by (cases js) (auto simp: Let_def)

lemma finish_append:
  "finish t (js @ ks) = finish t js @ finish (if js = [] then t else last (finish t js)) ks"
  by (induction js arbitrary: t) (auto simp: Let_def)

lemma finish_ge: "e \<in> set (finish t js) \<Longrightarrow> t \<le> e"
  by (induction js arbitrary: t) (fastforce simp: Let_def)+

lemma finish_sorted: "sorted (finish t js)"
  by (induction js arbitrary: t) (auto simp: Let_def dest: finish_ge)

text \<open>
  A run: the present tick, the core, every job submitted so far, and the jobs that have ended with
  their ticks. The callback of a job may submit further jobs to the same core.
\<close>

record 'j core_run =
  runNow :: tick
  runCore :: "'j core"
  runJobs :: "'j job list"
  runDone :: "('j job \<times> tick) list"

definition run_start :: "'j core_run" where
  "run_start = \<lparr>runNow = 0, runCore = Core_new, runJobs = [], runDone = []\<rparr>"

definition submissions :: "tick \<Rightarrow> ('j \<times> inst_stat \<times> tick) list \<Rightarrow> 'j core \<Rightarrow> 'j core res" where
  "submissions now fs = efold (\<lambda>(f, i, d). core_submitJob f i d now) fs"

definition jobs_of :: "tick \<Rightarrow> ('j \<times> inst_stat \<times> tick) list \<Rightarrow> 'j job list" where
  "jobs_of now fs = map (\<lambda>(f, i, d). \<lparr>jobFunc = f, jobInst = i, submitAt = now, jobDelay = d\<rparr>) fs"

inductive core_step :: "'j core_run \<Rightarrow> 'j core_run \<Rightarrow> bool" where
  submit: "runNow s \<le> t \<Longrightarrow> (\<And>e. coreEvent (runCore s) = Some e \<Longrightarrow> t \<le> e) \<Longrightarrow>
    core_submitJob f i d t (runCore s) = Inr c \<Longrightarrow>
    core_step s (s\<lparr>runNow := t, runCore := c, runJobs := runJobs s @ jobs_of t [(f, i, d)]\<rparr>)"
| fire: "coreEvent (runCore s) = Some t \<Longrightarrow> runNow s \<le> t \<Longrightarrow>
    core_jobDone (\<lambda>_ now. submissions now fs) t (runCore s) = Inr c \<Longrightarrow>
    core_step s (s\<lparr>runNow := t, runCore := c, runJobs := runJobs s @ jobs_of t fs,
      runDone := runDone s @ [(hd (coreJobs (runCore s)), t)]\<rparr>)"

inductive core_reach :: "'j core_run \<Rightarrow> bool" where
  reach_start: "core_reach run_start"
| reach_step: "core_reach s \<Longrightarrow> core_step s s' \<Longrightarrow> core_reach s'"

text \<open>No tick of the run wraps.\<close>

definition run_fits :: "'j core_run \<Rightarrow> bool" where
  "run_fits s \<longleftrightarrow> (\<forall>e\<in>set (finish 0 (runJobs s)). e < 2 ^ 64)"

definition run_inv :: "'j core_run \<Rightarrow> bool" where
  "run_inv s \<longleftrightarrow>
     map fst (runDone s) @ coreJobs (runCore s) = runJobs s \<and>
     map (unat \<circ> snd) (runDone s) = take (length (runDone s)) (finish 0 (runJobs s)) \<and>
     (\<forall>j\<in>set (runJobs s). submitAt j \<le> runNow s) \<and>
     (\<forall>x\<in>set (runDone s). snd x \<le> runNow s) \<and>
     (coreBusy (runCore s) \<longleftrightarrow> coreJobs (runCore s) \<noteq> []) \<and>
     (case coreEvent (runCore s) of None \<Rightarrow> coreJobs (runCore s) = []
      | Some e \<Rightarrow> coreJobs (runCore s) \<noteq> [] \<and> runNow s \<le> e \<and>
          unat e = finish 0 (runJobs s) ! length (runDone s))"

lemma run_start_inv: "run_inv run_start"
  by (simp add: run_inv_def run_start_def Core_new_def)

text \<open>Starting the job in front, and submitting.\<close>

lemma handleJob_spec:
  assumes "coreJobs c = j # js" and "submitAt j \<le> now"
    and "max (unat now) (unat (submitAt j) + unat (jobDelay j)) + unat (insLatency (jobInst j)) < 2 ^ 64"
  shows "\<exists>e. core_handleJob now c = Inr (c\<lparr>coreBusy := True, coreEvent := Some e\<rparr>) \<and>
    unat e = max (unat now) (unat (submitAt j) + unat (jobDelay j)) + unat (insLatency (jobInst j))"
proof -
  let ?s = "submitAt j" and ?d = "jobDelay j" and ?l = "insLatency (jobInst j)"
  have diff: "unat (now - ?s) = unat now - unat ?s" and s: "unat ?s \<le> unat now"
    using assms(2) by (simp_all add: unat_sub word_le_nat_alt)
  have comm: "now + ?l + ?d - (now - ?s) = ?l + ?d + ?s" by simp
  show ?thesis
  proof (cases "?d \<le> now - ?s")
    case True
    then have "unat ?s + unat ?d \<le> unat now" using diff s by (simp add: word_le_nat_alt)
    moreover from this assms(3) have "unat (now + ?l) = unat now + unat ?l"
      by (simp add: unat_plus_if')
    moreover have "core_handleJob now c = Inr (c\<lparr>coreBusy := True, coreEvent := Some (now + ?l)\<rparr>)"
      using True assms(1) by (simp add: core_handleJob_def front_def Let_def)
    ultimately show ?thesis by (intro exI conjI) (assumption, simp add: max_def)
  next
    case False
    then have "unat now < unat ?s + unat ?d" using diff s by (simp add: word_le_nat_alt)
    moreover from this assms(3) have "unat (?l + ?d + ?s) = unat ?s + unat ?d + unat ?l"
      by (simp add: unat_plus_if')
    moreover have "core_handleJob now c = Inr (c\<lparr>coreBusy := True, coreEvent := Some (?l + ?d + ?s)\<rparr>)"
      using False assms(1) comm by (simp add: core_handleJob_def front_def Let_def)
    ultimately show ?thesis by (intro exI conjI) (assumption, simp add: max_def)
  qed
qed

lemma submissions_busy:
  "coreBusy c \<Longrightarrow> submissions now fs c = Inr (c\<lparr>coreJobs := coreJobs c @ jobs_of now fs\<rparr>)"
  by (induction fs arbitrary: c) (auto simp: submissions_def jobs_of_def core_submitJob_def)

lemma jobs_of_simps [simp]:
  "jobs_of now [] = []"
  "j \<in> set (jobs_of now fs) \<Longrightarrow> submitAt j = now"
  by (auto simp: jobs_of_def)

text \<open>The end of the next job, seen from the run so far.\<close>

lemma finish_next:
  assumes "map (unat \<circ> snd) dn = take (length dn) (finish 0 (map fst dn @ ks))"
    and "\<forall>x\<in>set dn. snd x \<le> now" and "now \<le> t" and "t \<le> submitAt k \<or> dn \<noteq> [] \<and> snd (last dn) = t"
  shows "finish 0 (map fst dn @ k # js) ! length dn =
    max (unat t) (unat (submitAt k) + unat (jobDelay k)) + unat (insLatency (jobInst k))"
proof -
  have ended: "finish 0 (map fst dn) = map (unat \<circ> snd) dn"
    using assms(1) by (simp add: finish_append)
  let ?p = "if dn = [] then 0 else unat (snd (last dn))"
  have last: "(if map fst dn = [] then 0 else last (finish 0 (map fst dn))) = ?p"
    by (simp add: ended last_map)
  have "snd (last dn) \<le> t" if "dn \<noteq> []"
    using assms(2,3) that last_in_set [OF that] by (meson order_trans)
  then have p: "?p \<le> unat t" by (simp add: word_le_nat_alt)
  have "finish 0 (map fst dn @ k # js) ! length dn =
      max ?p (unat (submitAt k) + unat (jobDelay k)) + unat (insLatency (jobInst k))"
    unfolding finish_append last by (simp add: nth_append Let_def)
  also have "\<dots> = max (unat t) (unat (submitAt k) + unat (jobDelay k)) + unat (insLatency (jobInst k))"
    using assms(4) p by (auto simp: word_le_nat_alt max_def split: if_splits)
  finally show ?thesis .
qed

lemma take_finish:
  "n \<le> length js \<Longrightarrow> take n (finish 0 (js @ ks)) = take n (finish 0 js)"
  by (simp add: finish_append)

lemma fits_next:
  assumes "run_fits s" and "runJobs s = map fst dn @ k # js"
  shows "finish 0 (runJobs s) ! length dn < 2 ^ 64"
  using assms by (simp add: run_fits_def)

lemma core_step_inv:
  assumes "core_step s s'" and "run_inv s" and "run_fits s'"
  shows "run_inv s'"
  using assms
proof cases
  case (submit t f i d c)
  let ?s = "runCore s" and ?j = "\<lparr>jobFunc = f, jobInst = i, submitAt = t, jobDelay = d\<rparr>"
  note I = assms(2) [unfolded run_inv_def]
  show ?thesis
  proof (cases "coreBusy ?s")
    case True
    then have c: "c = ?s\<lparr>coreJobs := coreJobs ?s @ [?j]\<rparr>"
      using submit(4) by (simp add: core_submitJob_def)
    from True I have q: "coreJobs ?s \<noteq> []" by simp
    then have len: "length (runDone s) < length (runJobs s)"
      using I by (metis length_append length_greater_0_conv length_map less_add_same_cancel1)
    with q I True submit(2,3) show ?thesis
      unfolding run_inv_def submit(1) c
      by (auto simp: jobs_of_def nth_append finish_append split: option.splits dest: order_trans)
  next
    case False
    then have q: "coreJobs ?s = []" "runJobs s = map fst (runDone s)" using I by auto
    from submit(1) have sub: "runJobs s' = map fst (runDone s) @ ?j # []" by (simp add: jobs_of_def q)
    have nx: "finish 0 (runJobs s') ! length (runDone s) = max (unat t) (unat t + unat d) + unat (insLatency i)"
      unfolding sub by (subst finish_next [of _ "[]" "runNow s"]) (use I submit(2) q in auto)
    have "max (unat t) (unat (submitAt ?j) + unat (jobDelay ?j)) + unat (insLatency (jobInst ?j)) < 2 ^ 64"
      using fits_next [OF assms(3) sub] nx by simp
    from handleJob_spec [of "?s\<lparr>coreJobs := [?j]\<rparr>" ?j "[]" t, OF _ _ this] obtain e where
      e: "core_handleJob t (?s\<lparr>coreJobs := [?j]\<rparr>) = Inr (?s\<lparr>coreJobs := [?j], coreBusy := True, coreEvent := Some e\<rparr>)"
        "unat e = max (unat t) (unat t + unat d) + unat (insLatency i)" by auto
    have c: "c = ?s\<lparr>coreJobs := [?j], coreBusy := True, coreEvent := Some e\<rparr>"
      using submit(4) False e(1) q(1) by (simp add: core_submitJob_def)
    have le: "t \<le> e" using e(2) by (simp add: word_le_nat_alt)
    show ?thesis
      using I q le e(2) nx submit(2) unfolding run_inv_def submit(1) c
      by (auto simp: jobs_of_def finish_append dest: order_trans)
  qed
next
  case (fire t fs c)
  let ?s = "runCore s"
  note I = assms(2) [unfolded run_inv_def]
  obtain j js where q: "coreJobs ?s = j # js" and e: "unat t = finish 0 (runJobs s) ! length (runDone s)"
    using I fire(2) by (cases "coreJobs ?s") auto
  have b: "coreBusy ?s" using I q by simp
  let ?c = "core_addStat (jobInst j) (?s\<lparr>coreEvent := None, coreJobs := j # js @ jobs_of t fs\<rparr>)
      \<lparr>coreJobs := js @ jobs_of t fs, coreBusy := False\<rparr>"
  have run: "(if js @ jobs_of t fs \<noteq> [] then core_handleJob t ?c else Inr ?c) = Inr c"
    using fire(4) q b by (auto simp: core_jobDone_def front_def submissions_busy core_addStat_def Let_def split: if_splits)
  have sub: "runJobs s' = map fst (runDone s') @ js @ jobs_of t fs"
    using I q unfolding fire(1) by auto
  have len: "length (runDone s) < length (runJobs s)"
    using I q by (metis length_append length_greater_0_conv length_map less_add_same_cancel1 list.distinct(1))
  have past: "\<forall>x\<in>set (runDone s'). snd x \<le> t"
    using I fire(3) unfolding fire(1) by (auto dest: order_trans)
  have old: "finish 0 (runJobs s') = finish 0 (runJobs s) @ finish (last (finish 0 (runJobs s))) (jobs_of t fs)"
    using len unfolding fire(1) by (auto simp: finish_append)
  have ended: "map (unat \<circ> snd) (runDone s') = take (length (runDone s')) (finish 0 (runJobs s'))"
    using I len e unfolding old by (simp add: fire(1) take_Suc_conv_app_nth)
  have subs: "\<forall>x\<in>set (runJobs s'). submitAt x \<le> t"
    using I fire(3) unfolding fire(1) by (auto dest: order_trans)
  have now: "runNow s' = t" "runCore s' = c" by (simp_all add: fire(1))
  show ?thesis
  proof (cases "js @ jobs_of t fs")
    case Nil
    then show ?thesis using sub ended subs past run by (auto simp: run_inv_def now core_addStat_def)
  next
    case (Cons k ks)
    have jobs: "runJobs s' = map fst (runDone s') @ k # ks" using sub Cons by simp
    have nx: "finish 0 (runJobs s') ! length (runDone s') =
        max (unat t) (unat (submitAt k) + unat (jobDelay k)) + unat (insLatency (jobInst k))"
      unfolding jobs by (rule finish_next [OF ended [unfolded jobs] past]) (simp_all add: fire(1))
    have kt: "submitAt k \<le> t" using subs jobs by simp
    have cj: "coreJobs ?c = k # ks" using Cons by (simp add: core_addStat_def)
    from handleJob_spec [OF cj kt] fits_next [OF assms(3) jobs] nx obtain e' where
      e': "core_handleJob t ?c = Inr (?c\<lparr>coreBusy := True, coreEvent := Some e'\<rparr>)"
        "unat e' = finish 0 (runJobs s') ! length (runDone s')" by auto
    have c: "c = ?c\<lparr>coreBusy := True, coreEvent := Some e'\<rparr>" using run Cons e'(1) by simp
    have "t \<le> e'" using e'(2) nx by (simp add: word_le_nat_alt)
    with sub ended subs past e'(2) Cons show ?thesis
      unfolding run_inv_def now c by (simp add: core_addStat_def)
  qed
qed

lemma run_fits_step: "core_step s s' \<Longrightarrow> run_fits s' \<Longrightarrow> run_fits s"
  by (erule core_step.cases) (auto simp: run_fits_def finish_append)

lemma core_reach_inv: "core_reach s \<Longrightarrow> run_fits s \<Longrightarrow> run_inv s"
  by (induction rule: core_reach.induct) (auto intro: run_start_inv core_step_inv run_fits_step)

section \<open>The claims\<close>

text \<open>C22. However submissions and the event of a core interleave, callbacks that submit more included,
  and as long as no tick wraps: the jobs end in the order they were submitted, none lost and none
  twice, each at the later of its predecessor's end and its own submission plus delay, plus the
  latency of its instructions. While a job is left, the event is set for its end.\<close>

theorem core_runs_jobs:
  assumes "core_reach s" and "run_fits s"
  shows "map fst (runDone s) @ coreJobs (runCore s) = runJobs s \<and>
    map (unat \<circ> snd) (runDone s) = take (length (runDone s)) (finish 0 (runJobs s)) \<and>
    (coreJobs (runCore s) \<noteq> [] \<longrightarrow> (\<exists>e. coreEvent (runCore s) = Some e \<and> runNow s \<le> e \<and>
      unat e = finish 0 (runJobs s) ! length (runDone s)))"
  using core_reach_inv [OF assms] by (auto simp: run_inv_def split: option.splits)

definition sample_inst :: inst_stat where
  "sample_inst = InstStat_new 1 1 1 1 1 0 2"

definition sample_jobs :: "nat job list" where
  "sample_jobs = [\<lparr>jobFunc = 7, jobInst = sample_inst, submitAt = 0, jobDelay = 0\<rparr>,
     \<lparr>jobFunc = 8, jobInst = sample_inst, submitAt = 4, jobDelay = 30\<rparr>,
     \<lparr>jobFunc = 9, jobInst = sample_inst, submitAt = 10, jobDelay = 0\<rparr>]"

definition sample_run :: "nat core_run" where
  "sample_run = \<lparr>runNow = 10, runCore = \<lparr>coreBusy = True, coreEvent = Some 44, coreJobs = tl sample_jobs,
       statBusy = 10, statInst = InstStat_add InstStat_zero sample_inst\<rparr>,
     runJobs = sample_jobs, runDone = [(hd sample_jobs, 10)]\<rparr>"

lemma sample_latency: "insLatency sample_inst = 10"
  by (simp add: sample_inst_def InstStat_new_def InstStat_sum_def Let_def)

lemma sample_core_reach: "core_reach sample_run"
proof -
  let ?a = "run_start\<lparr>runNow := 0, runCore := Core_new\<lparr>coreJobs := [hd sample_jobs], coreBusy := True,
      coreEvent := Some 10\<rparr>, runJobs := runJobs (run_start :: nat core_run) @ jobs_of 0 [(7, sample_inst, 0)]\<rparr>"
  let ?b = "?a\<lparr>runNow := 4, runCore := (runCore ?a)\<lparr>coreJobs := take 2 sample_jobs\<rparr>,
      runJobs := runJobs ?a @ jobs_of 4 [(8, sample_inst, 30)]\<rparr>"
  have "core_step run_start ?a"
    by (rule submit)
      (simp_all add: run_start_def Core_new_def core_submitJob_def core_handleJob_def front_def Let_def
        sample_jobs_def sample_latency)
  then have a: "core_reach ?a" by (rule reach_step [OF reach_start])
  have "core_step ?a ?b"
    by (rule submit) (simp_all add: core_submitJob_def Let_def sample_jobs_def Core_new_def)
  then have b: "core_reach ?b" by (rule reach_step [OF a])
  have "core_step ?b (?b\<lparr>runNow := 10, runCore := runCore sample_run, runJobs := runJobs ?b @
      jobs_of 10 [(9, sample_inst, 0)], runDone := runDone ?b @ [(hd (coreJobs (runCore ?b)), 10)]\<rparr>)"
    by (rule fire)
      (simp_all add: core_jobDone_def front_def submissions_busy core_addStat_def core_handleJob_def Let_def
        sample_jobs_def sample_latency Core_new_def jobs_of_def sample_run_def)
  moreover have "?b\<lparr>runNow := 10, runCore := runCore sample_run, runJobs := runJobs ?b @
      jobs_of 10 [(9, sample_inst, 0)], runDone := runDone ?b @ [(hd (coreJobs (runCore ?b)), 10)]\<rparr> = sample_run"
    by (simp add: sample_run_def sample_jobs_def jobs_of_def run_start_def)
  ultimately show ?thesis by (metis reach_step [OF b])
qed

lemma core_runs_jobs_witness:
  "finish 0 sample_jobs = [10, 44, 54] \<and> map fst (runDone sample_run) @ coreJobs (runCore sample_run) = sample_jobs"
proof -
  have f: "finish 0 sample_jobs = [10, 44, 54]" by (simp add: sample_jobs_def sample_latency Let_def)
  then have "run_fits sample_run" by (simp add: run_fits_def sample_run_def)
  from core_runs_jobs [OF sample_core_reach this] f show ?thesis by (simp add: sample_run_def)
qed

text \<open>A group with cores always yields one of them, so the access to it cannot throw: an idle core
  with the least busy time when there is one, else a core with the fewest queued jobs.\<close>

theorem core_choice:
  assumes "cs \<noteq> []" and "\<And>c. c \<in> set cs \<Longrightarrow> length (coreJobs c) < 2 ^ 64"
  defines "idle i \<equiv> i < length cs \<and> \<not> coreBusy (cs ! i) \<and> statBusy (cs ! i) < - 1"
  shows "leastBusyCPU cs < length cs \<and>
    (if \<exists>i. idle i
     then idle (leastBusyCPU cs) \<and> (\<forall>i. idle i \<longrightarrow> statBusy (cs ! leastBusyCPU cs) \<le> statBusy (cs ! i))
     else \<forall>i<length cs. length (coreJobs (cs ! leastBusyCPU cs)) \<le> length (coreJobs (cs ! i)))"
  using least_idle_spec [of cs] least_jobs_spec [OF assms(1,2)]
  unfolding leastBusyCPU_def idle_def by (auto split: if_splits)

definition sample_cores :: "nat core list" where
  "sample_cores = [Core_new\<lparr>statBusy := 9\<rparr>, Core_new\<lparr>coreBusy := True\<rparr>, Core_new\<lparr>statBusy := 5\<rparr>]"

lemma core_choice_witness: "leastBusyCPU sample_cores < length sample_cores \<and> leastBusyCPU sample_cores = 2"
proof -
  have "leastBusyCPU sample_cores < length sample_cores"
    by (rule core_choice [THEN conjunct1]) (auto simp: sample_cores_def Core_new_def)
  moreover have "leastBusyCPU sample_cores = 2"
    by (simp add: leastBusyCPU_def least_idle_def sample_cores_def Core_new_def core_isBusy_def upt_rec)
  ultimately show ?thesis by simp
qed

end
