(* ===== verification/Dram.thy ===== *)
theory Dram
  imports Algorithm Float32
begin

text \<open>
  The memory of the drive, \<^verbatim>\<open>src/dram/simple.cc\<close> and \<^verbatim>\<open>src/dram/abstract_dram.cc\<close>: one channel
  that serves accesses one after the other, with a periodic refresh. The power model is the library
  DRAMPower, which is not part of the repository: \<open>power_model\<close> holds its operations, and its
  state is of type \<open>'p\<close>.

  The latency of an access is computed in \<open>double\<close>: binary64 with round-to-nearest-even. Its operands
  are not negative and bounded by \<open>2\<^sup>1\<^sup>2\<^sup>8\<close>, so no intermediate result overflows, and a \<open>double\<close>
  is the rational it denotes.
\<close>

section \<open>Double arithmetic\<close>

definition f64_round :: "rat \<Rightarrow> rat" where
  "f64_round x =
     (if x = 0 then 0
      else let e = max (flog2 \<bar>x\<bar> - 52) (-1074)
           in sgn x * (of_int (round_half_even (\<bar>x\<bar> / pow2 e)) * pow2 e))"

definition f64_of_nat :: "nat \<Rightarrow> rat" where
  "f64_of_nat n = f64_round (of_nat n)"

section \<open>Configuration\<close>

record dram_structure =
  dsChannel :: u32
  dsRank :: u32
  dsBank :: u32
  dsChip :: u32
  dsBusWidth :: u32
  dsBurstLength :: u32
  dsUseDLL :: bool
  dsChipSize :: u64
  dsPageSize :: u64

record dram_timing =
  tCK :: u32
  tRCD :: u32
  tCL :: u32
  tRP :: u32
  tRAS :: u32
  tWR :: u32
  tRTP :: u32
  tBURST :: u32
  tRFC :: u32
  tXP :: u32
  tXPDLL :: u32
  tXS :: u32
  tXSDLL :: u32

definition DRAMStructure_default :: dram_structure where
  "DRAMStructure_default = \<lparr>dsChannel = 1, dsRank = 1, dsBank = 8, dsChip = 1, dsBusWidth = 32,
     dsBurstLength = 8, dsUseDLL = False, dsChipSize = 536870912, dsPageSize = 4096\<rparr>"

definition DRAMTiming_default :: dram_timing where
  "DRAMTiming_default = \<lparr>tCK = 1250, tRCD = 18000, tCL = 15000, tRP = 18000, tRAS = 42000, tWR = 15000,
     tRTP = 7500, tBURST = 5000, tRFC = 130000, tXP = 0, tXPDLL = 0, tXS = 0, tXSDLL = 0\<rparr>"

text \<open>The specification handed to the power model: the architecture and the timing in cycles.\<close>

record mem_spec =
  msBurstLength :: u32
  msBanks :: u32
  msRanks :: u32
  msDataRate :: u8
  msWidth :: u32
  msDll :: bool
  RC :: u32
  RCD :: u32
  RL :: u32
  RP :: u32
  RFC :: u32
  RAS :: u32
  WL :: u32
  RTP :: u32
  WR :: u32
  XP :: u32
  XPDLL :: u32
  XS :: u32
  XSDLL :: u32

text \<open>The macro \<open>DIVCEIL\<close> on 32-bit unsigned operands: its argument \<open>0\<close> wraps.\<close>

definition divceil32 :: "u32 \<Rightarrow> u32 \<Rightarrow> u32" where
  "divceil32 x y = (x - 1) div y + 1"

text \<open>The check of the clock period cannot fail: a zero \<open>tCK\<close> has divided before.\<close>

definition convertMemspec :: "dram_structure \<Rightarrow> dram_timing \<Rightarrow> mem_spec res" where
  "convertMemspec st t =
     (if tCK t = 0 then Inl (Undefined ''division by zero'')
      else
        let burstCycle = divceil32 (tBURST t) (tCK t); cyc = (\<lambda>x. divceil32 x (tCK t)) in
        if burstCycle = 0 then Inl (Undefined ''division by zero'')
        else
          let dataRate = ucast (dsBurstLength st div burstCycle) :: u8 in
          ebind (guard (dataRate \<in> {1, 2, 4}) (Panic ''Invalid DRAM data rate'')) (\<lambda>_.
          Inr \<lparr>msBurstLength = dsBurstLength st, msBanks = dsBank st, msRanks = dsRank st,
            msDataRate = dataRate, msWidth = dsBusWidth st, msDll = dsUseDLL st,
            RC = cyc (tRAS t + tRP t), RCD = cyc (tRCD t), RL = cyc (tCL t), RP = cyc (tRP t),
            RFC = cyc (tRFC t), RAS = cyc (tRAS t), WL = cyc (tCL t) - 1, RTP = cyc (tRTP t),
            WR = cyc (tWR t), XP = cyc (tXP t), XPDLL = cyc (tXPDLL t), XS = cyc (tXS t),
            XSDLL = cyc (tXSDLL t)\<rparr>))"

section \<open>State\<close>

datatype mem_command = REF | ACT | RD | WR_cmd | PRE

record 'p power_model =
  doCommand :: "mem_command \<Rightarrow> u64 \<Rightarrow> 'p \<Rightarrow> 'p"
  calcWindowEnergy :: "u64 \<Rightarrow> 'p \<Rightarrow> 'p"
  windowEnergy :: "'p \<Rightarrow> rat"
  averagePower :: "'p \<Rightarrow> rat"

record dram_stat =
  dramCount :: u64
  dramSize :: u64

record dram_param =
  dramStructure :: dram_structure
  dramTiming :: dram_timing
  dramSpec :: mem_spec
  pageFetchLatency :: u64
  interfaceBandwidth :: rat

record 'p dram =
  lastDRAMAccess :: tick
  ignoreScheduling :: bool
  autoRefresh :: tick
  readStat :: dram_stat
  writeStat :: dram_stat
  totalEnergy :: rat
  totalPower :: rat
  dramPower :: 'p

definition REFRESH_PERIOD :: u64 where
  "REFRESH_PERIOD = 64000000000"

definition DRAMStat_new :: dram_stat where
  "DRAMStat_new = \<lparr>dramCount = 0, dramSize = 0\<rparr>"

text \<open>The sum \<open>tRP + tRAS\<close> is computed in 32 bits; the products in \<open>double\<close>, from the left.\<close>

definition dram_bandwidth :: "dram_structure \<Rightarrow> dram_timing \<Rightarrow> rat" where
  "dram_bandwidth st t =
     (let b = f64_round (2 * f64_of_nat (unat (dsBusWidth st)));
          b = f64_round (b * f64_of_nat (unat (dsChip st)));
          b = f64_round (b * f64_of_nat (unat (dsChannel st)))
      in f64_round (f64_round (b / 8) / f64_of_nat (unat (tCK t))))"

definition SimpleDRAM_new :: "dram_structure \<Rightarrow> dram_timing \<Rightarrow> tick \<Rightarrow> 'p \<Rightarrow> (dram_param \<times> 'p dram) res" where
  "SimpleDRAM_new st t now pwr =
     ebind (convertMemspec st t) (\<lambda>spec.
     Inr (\<lparr>dramStructure = st, dramTiming = t, dramSpec = spec, pageFetchLatency = ucast (tRP t + tRAS t),
           interfaceBandwidth = dram_bandwidth st t\<rparr>,
          \<lparr>lastDRAMAccess = 0, ignoreScheduling = False, autoRefresh = now + REFRESH_PERIOD,
           readStat = DRAMStat_new, writeStat = DRAMStat_new, totalEnergy = 0, totalPower = 0,
           dramPower = pwr\<rparr>))"

section \<open>Operations\<close>

text \<open>The refresh event.\<close>

definition dram_refresh :: "'p power_model \<Rightarrow> dram_param \<Rightarrow> tick \<Rightarrow> 'p dram \<Rightarrow> 'p dram" where
  "dram_refresh pw p now d =
     d\<lparr>dramPower := doCommand pw REF (now div ucast (tCK (dramTiming p))) (dramPower d),
       lastDRAMAccess := max (lastDRAMAccess d) (now + ucast (tRFC (dramTiming p))),
       autoRefresh := now + REFRESH_PERIOD\<rparr>"

text \<open>The start of the access, the tick after it, and the state.\<close>

definition updateDelay :: "u64 \<Rightarrow> tick \<Rightarrow> 'p dram \<Rightarrow> tick \<times> tick \<times> 'p dram" where
  "updateDelay latency tk d =
     (if 0 < tk then
        if ignoreScheduling d then (tk, tk + latency, d)
        else if lastDRAMAccess d \<le> tk then (tk, tk + latency, d\<lparr>lastDRAMAccess := tk + latency\<rparr>)
        else (lastDRAMAccess d, lastDRAMAccess d + latency, d\<lparr>lastDRAMAccess := lastDRAMAccess d + latency\<rparr>)
      else (tk, tk, d))"

definition updateStats :: "'p power_model \<Rightarrow> u64 \<Rightarrow> 'p dram \<Rightarrow> 'p dram" where
  "updateStats pw cycle d =
     (let p = calcWindowEnergy pw cycle (dramPower d) in
      d\<lparr>dramPower := p, totalEnergy := f64_round (totalEnergy d + windowEnergy pw p),
        totalPower := averagePower pw p\<rparr>)"

definition setScheduling :: "bool \<Rightarrow> 'p dram \<Rightarrow> 'p dram" where
  "setScheduling enable d = d\<lparr>ignoreScheduling := \<not> enable\<rparr>"

definition isScheduling :: "'p dram \<Rightarrow> bool" where
  "isScheduling d = (\<not> ignoreScheduling d)"

definition dram_pages :: "dram_param \<Rightarrow> u64 \<Rightarrow> u64 res" where
  "dram_pages p sz =
     (let page = dsPageSize (dramStructure p) in
      if sz = 0 then Inr 0
      else if page = 0 then Inl (Undefined ''division by zero'') else Inr ((sz - 1) div page + 1))"

text \<open>A zero bandwidth makes the quotient infinite or not a number, and the conversion undefined.\<close>

definition dram_latency :: "dram_param \<Rightarrow> u64 \<Rightarrow> u64 res" where
  "dram_latency p pageCount =
     (if interfaceBandwidth p = 0 then Inl (Undefined ''conversion of infinity'')
      else
        let transfer = f64_round (f64_of_nat (unat (dsPageSize (dramStructure p))) / interfaceBandwidth p);
            t = f64_round (f64_of_nat (unat pageCount) *
                  f64_round (f64_of_nat (unat (pageFetchLatency p)) + transfer))
        in if t < 2 ^ 64 then Inr (word_of_int \<lfloor>t\<rfloor>) else Inl (Undefined ''double to unsigned out of range''))"

text \<open>The commands of one access; the loop issues one column command per page.\<close>

definition dram_commands ::
  "'p power_model \<Rightarrow> dram_param \<Rightarrow> mem_command \<Rightarrow> u64 \<Rightarrow> u64 \<Rightarrow> 'p dram \<Rightarrow> 'p dram" where
  "dram_commands pw p column pageCount beginAt d =
     (let rcd = ucast (RCD (dramSpec p)); ras = ucast (RAS (dramSpec p)); rp = ucast (RP (dramSpec p));
          s = doCommand pw ACT beginAt (dramPower d);
          (beginAt, s) = foldl (\<lambda>(b, s) _. (b + rcd, doCommand pw column (b + rcd) s)) (beginAt, s)
            [0..<unat pageCount];
          beginAt = beginAt - rcd
      in updateStats pw (beginAt + ras + rp) (d\<lparr>dramPower := doCommand pw PRE (beginAt + ras) s\<rparr>))"

definition count_access :: "u64 \<Rightarrow> dram_stat \<Rightarrow> dram_stat" where
  "count_access sz st = \<lparr>dramCount = dramCount st + 1, dramSize = dramSize st + sz\<rparr>"

definition dram_access ::
  "'p power_model \<Rightarrow> dram_param \<Rightarrow> mem_command \<Rightarrow> u64 \<Rightarrow> tick \<Rightarrow> 'p dram \<Rightarrow> (tick \<times> 'p dram) res" where
  "dram_access pw p column sz tk d =
     ebind (dram_pages p sz) (\<lambda>pageCount.
     ebind (dram_latency p pageCount) (\<lambda>latency.
       case updateDelay latency tk d of (beginAt, tk, d) \<Rightarrow>
         Inr (tk, dram_commands pw p column pageCount (beginAt div ucast (tCK (dramTiming p))) d)))"

definition dram_read ::
  "'p power_model \<Rightarrow> dram_param \<Rightarrow> u64 \<Rightarrow> tick \<Rightarrow> 'p dram \<Rightarrow> (tick \<times> 'p dram) res" where
  "dram_read pw p sz tk d =
     ebind (dram_access pw p RD sz tk d) (\<lambda>(tk, d). Inr (tk, d\<lparr>readStat := count_access sz (readStat d)\<rparr>))"

definition dram_write ::
  "'p power_model \<Rightarrow> dram_param \<Rightarrow> u64 \<Rightarrow> tick \<Rightarrow> 'p dram \<Rightarrow> (tick \<times> 'p dram) res" where
  "dram_write pw p sz tk d =
     ebind (dram_access pw p WR_cmd sz tk d) (\<lambda>(tk, d). Inr (tk, d\<lparr>writeStat := count_access sz (writeStat d)\<rparr>))"

definition dram_getStatValues :: "'p dram \<Rightarrow> (rat \<times> rat) \<times> u64 list" where
  "dram_getStatValues d = ((totalEnergy d, totalPower d),
     [dramCount (readStat d), dramSize (readStat d), dramCount (writeStat d), dramSize (writeStat d),
      dramCount (readStat d) + dramCount (writeStat d), dramSize (readStat d) + dramSize (writeStat d)])"

definition dram_resetStatValues :: "'p power_model \<Rightarrow> dram_param \<Rightarrow> tick \<Rightarrow> 'p dram \<Rightarrow> 'p dram" where
  "dram_resetStatValues pw p now d =
     d\<lparr>dramPower := calcWindowEnergy pw (now div ucast (tCK (dramTiming p))) (dramPower d),
       totalEnergy := 0, totalPower := 0, readStat := DRAMStat_new, writeStat := DRAMStat_new\<rparr>"

end
