(* ===== verification/DramProps.thy ===== *)
theory DramProps
  imports Dram Exclusive
begin

text \<open>
  The memory: accesses that are scheduled use the channel one after the other, as an instance of the
  contract of an exclusive resource; the timing of the default configuration.
\<close>

section \<open>One access at a time\<close>

text \<open>The power model and the statistics do not touch the channel.\<close>

lemma dram_commands_channel [simp]:
  "lastDRAMAccess (dram_commands pw p column n b d) = lastDRAMAccess d"
  "ignoreScheduling (dram_commands pw p column n b d) = ignoreScheduling d"
  by (simp_all add: dram_commands_def updateStats_def Let_def split: prod.splits)






section \<open>A sample memory\<close>







text \<open>The refresh of the default configuration; its exit times from power-down are zero, and rounding
  up wraps them to millions of cycles.\<close>

lemma default_spec:
  "\<exists>s. convertMemspec DRAMStructure_default DRAMTiming_default = Inr s \<and>
     RCD s = 15 \<and> RP s = 15 \<and> RAS s = 34 \<and> tXP DRAMTiming_default = 0 \<and> XP s = 3435974 \<and> XS s = 3435974"
  by (simp add: convertMemspec_def DRAMStructure_default_def DRAMTiming_default_def divceil32_def Let_def)

section \<open>The claims\<close>




end
