(* ===== verification/PalOld.thy ===== *)
theory PalOld
  imports Pal2
begin

text \<open>
  The flash as the FTL sees it, \<^verbatim>\<open>src/pal/pal_old.cc\<close>: a request on a super page is translated to
  its physical pages, each is submitted to the scheduler, and the request ends with the last of
  them. One command object serves all pages of a request. The event that drops free intervals of
  the past is the field \<open>poFlushAt\<close>. The tables of \<open>PALStatistics\<close> are not modelled.
\<close>

definition FLUSH_PERIOD :: u64 where "FLUSH_PERIOD = 100000000000"
definition FLUSH_RANGE :: u64 where "FLUSH_RANGE = 10000000000"

text \<open>The member \<open>lastResetTick\<close> holds eight bits.\<close>

record palold =
  poSched :: pal2
  poReads :: u64
  poWrites :: u64
  poErases :: u64
  poLastReset :: u8
  poFlushAt :: tick

record palold_param =
  poConf :: pal_conf
  poParam :: pal_param
  poTiming :: nand_timing
  poType :: nand_type

definition PALOLD_new :: "palold_param \<Rightarrow> nat \<Rightarrow> tick \<Rightarrow> palold res" where
  "PALOLD_new q dmaSpeed now =
     ebind (PAL2_new (poType q) dmaSpeed (pPageSize (poParam q)) (pcMultiPlane (poConf q)) (poParam q)) (\<lambda>(_, s).
     Inr \<lparr>poSched = s, poReads = 0, poWrites = 0, poErases = 0, poLastReset = 0,
          poFlushAt = now + FLUSH_PERIOD\<rparr>)"

definition palold_lat :: "palold_param \<Rightarrow> u32 \<Rightarrow> pal_operation \<Rightarrow> busy_type \<Rightarrow> u64" where
  "palold_lat q = GetLatency (poType q) (poTiming q)"

fun count_oper :: "pal_operation \<Rightarrow> palold \<Rightarrow> palold" where
  "count_oper OPER_READ s = s\<lparr>poReads := poReads s + 1\<rparr>"
| "count_oper OPER_WRITE s = s\<lparr>poWrites := poWrites s + 1\<rparr>"
| "count_oper OPER_ERASE s = s\<lparr>poErases := poErases s + 1\<rparr>"

text \<open>The loop over the pages: the command, the end of the latest page so far, the state.\<close>

fun submit_all ::
  "(u32 \<Rightarrow> pal_operation \<Rightarrow> busy_type \<Rightarrow> u64) \<Rightarrow> pal_param \<Rightarrow> nat \<Rightarrow> cpdpbp list \<Rightarrow> pal_command \<Rightarrow> tick \<Rightarrow>
     palold \<Rightarrow> (tick \<times> palold) res option" where
  "submit_all lat p fuel [] cmd finishedAt s = Some (Inr (finishedAt, s))"
| "submit_all lat p fuel (a # as) cmd finishedAt s =
     (case submit lat p fuel cmd a (poSched s) of
        None \<Rightarrow> None
      | Some (Inl e) \<Rightarrow> Some (Inl e)
      | Some (Inr (cmd, x)) \<Rightarrow>
          submit_all lat p fuel as cmd (max finishedAt (cmdFinished cmd)) (count_oper (cmdOper cmd) (s\<lparr>poSched := x\<rparr>)))"

text \<open>The size of the command is computed in 32 bits; the scheduler does not read it.\<close>

definition command_size :: "pal_param \<Rightarrow> pal_operation \<Rightarrow> u64" where
  "command_size p oper =
     of_nat (if oper = OPER_ERASE then u32mul (pSuperPageSize p) (pPage p) else pSuperPageSize p)"

definition palold_serve ::
  "pal_operation \<Rightarrow> palold_param \<Rightarrow> nat \<Rightarrow> pal_request \<Rightarrow> tick \<Rightarrow> palold \<Rightarrow> (tick \<times> palold) res option" where
  "palold_serve oper q fuel req tk s =
     (case convertCPDPBP (poConf q) (poParam q) req of
        Inl e \<Rightarrow> Some (Inl e)
      | Inr (_, list) \<Rightarrow>
          submit_all (palold_lat q) (poParam q) fuel list (Command_new tk 0 oper (command_size (poParam q) oper)) tk s)"

definition palold_read ::
  "palold_param \<Rightarrow> nat \<Rightarrow> pal_request \<Rightarrow> tick \<Rightarrow> palold \<Rightarrow> (tick \<times> palold) res option" where
  "palold_read = palold_serve OPER_READ"

definition palold_write ::
  "palold_param \<Rightarrow> nat \<Rightarrow> pal_request \<Rightarrow> tick \<Rightarrow> palold \<Rightarrow> (tick \<times> palold) res option" where
  "palold_write = palold_serve OPER_WRITE"

definition palold_erase ::
  "palold_param \<Rightarrow> nat \<Rightarrow> pal_request \<Rightarrow> tick \<Rightarrow> palold \<Rightarrow> (tick \<times> palold) res option" where
  "palold_erase = palold_serve OPER_ERASE"

text \<open>The direct interface of the open-channel drive: one physical page.\<close>

definition palold_direct ::
  "pal_operation \<Rightarrow> palold_param \<Rightarrow> nat \<Rightarrow> cpdpbp \<Rightarrow> tick \<Rightarrow> palold \<Rightarrow> (tick \<times> palold) res option" where
  "palold_direct oper q fuel a tk s =
     map_option (\<lambda>r. ebind r (\<lambda>(cmd, x). Inr (cmdFinished cmd, count_oper oper (s\<lparr>poSched := x\<rparr>))))
       (submit (palold_lat q) (poParam q) fuel (Command_new tk 0 oper (command_size (poParam q) oper)) a (poSched s))"

definition palold_flush :: "tick \<Rightarrow> palold \<Rightarrow> palold" where
  "palold_flush tk s =
     s\<lparr>poSched := FlushTimeSlots (tk - FLUSH_RANGE) (FlushFreeSlots (tk - FLUSH_RANGE) (poSched s)),
       poFlushAt := tk + FLUSH_PERIOD\<rparr>"

definition palold_resetStatValues :: "tick \<Rightarrow> palold \<Rightarrow> palold" where
  "palold_resetStatValues now s = s\<lparr>poLastReset := ucast now, poReads := 0, poWrites := 0, poErases := 0\<rparr>"

text \<open>The time the power average is taken over, and the counters among the reported values.\<close>

definition palold_elapsed :: "tick \<Rightarrow> palold \<Rightarrow> u64" where
  "palold_elapsed now s = now - ucast (poLastReset s)"

definition palold_counters :: "pal_param \<Rightarrow> palold \<Rightarrow> u64 list" where
  "palold_counters p s = [poReads s, poWrites s, poErases s,
     poReads s * of_nat (pPageSize p), poWrites s * of_nat (pPageSize p),
     poErases s * of_nat (pPageSize p) * of_nat (pPage p)]"

end
