(* ===== verification/PalOldProps.thy ===== *)
theory PalOldProps
  imports PalOld Pal2Theorems
begin

text \<open>
  A whole request on the flash: every page it names is scheduled, none of the checks of the
  scheduler fails, and the end is bounded by the time the flash has been promised away so far. The
  list of merged busy intervals has at most one element, so that its code cannot run off its end.
\<close>

section \<open>The merged busy interval\<close>

lemma MergeTimeSlot_short:
  assumes "length m \<le> 1"
  shows "\<exists>m'. MergeTimeSlot m ts = Inr m' \<and> length m' \<le> 1"
proof (cases m)
  case Nil
  then show ?thesis by (simp add: MergeTimeSlot_def)
next
  case (Cons x m')
  with assms obtain s e where "m = [(s, e)]" by (cases x) simp
  then show ?thesis by (simp add: MergeTimeSlot_def merge_upto_def Let_def)
qed

definition sched_ok :: "pal_param \<Rightarrow> pal2 \<Rightarrow> bool" where
  "sched_ok p s \<longleftrightarrow> pal2_ok p s \<and> length (mergedSlots s) \<le> 1"

text \<open>Everything from \<open>m\<close> on is free.\<close>

definition starts_below :: "nat \<Rightarrow> pal2 \<Rightarrow> bool" where
  "starts_below m s \<longleftrightarrow> (\<forall>x\<in>set (chStart s) \<union> set (dieStart s). unat x \<le> m)"

section \<open>One command\<close>

lemma submit_total:
  assumes ok: "sched_ok p s" and rng: "die_range p a" "dies_fit p" and lat: "timing_ok lat n"
    and below: "starts_below m s" "unat (cmdArrived req) \<le> m" and time: "2 * (m + n) < 2 ^ 64"
    and fuel: "m \<le> fuel"
  shows "\<exists>req' s' u. submit lat p fuel req a s = Some (Inr (req', s')) \<and> sched_ok p s' \<and>
    starts_below (m + n) s' \<and> unat (cmdArrived req) < unat (cmdFinished req') \<and> unat (cmdFinished req') \<le> m + n \<and>
    cmdArrived req' = cmdArrived req \<and> cmdOper req' = cmdOper req \<and> pal2_step lat p n s u s'"
proof -
  let ?c = "aChannel a" and ?d = "CPDPBPtoDieIdx p a" and ?pg = "of_nat (aPage a)"
  have ok2: "pal2_ok p s" using ok by (simp add: sched_ok_def)
  have c: "?c < length (chStart s)" using ok2 rng(1) by (simp add: pal2_ok_def die_range_def)
  have d: "?d < length (dieStart s)" using ok2 die_index(2) [OF rng] by (simp add: pal2_ok_def die_count_def)
  have starts: "unat (chStart s ! ?c) \<le> m" "unat (dieStart s ! ?d) \<le> m"
    using below(1) c d by (auto simp: starts_below_def)
  have time': "in_time n p (cmdArrived req) a s"
    using starts below(2) time by (auto simp: in_time_def horizon_def)
  note S = schedule_spec [OF ok2 rng lat time', of fuel]
  have "schedule_booking lat p fuel req a s \<noteq> None" by (rule S(1)) (use starts fuel in simp)
  then obtain b conf where b: "schedule_booking lat p fuel req a s = Some (Inr (b, conf))"
    and B: "booking_ok (chSlots s ! ?c) (chStart s ! ?c) (dieSlots s ! ?d) (dieStart s ! ?d)
        (lat ?pg (cmdOper req) BUSY_DMA0) (lat ?pg (cmdOper req) BUSY_MEM) (lat ?pg (cmdOper req) BUSY_DMA1)
        (lat ?pg OPER_READ BUSY_DMA0) (cmdArrived req) b"
    using S(2) by (cases "schedule_booking lat p fuel req a s") force+
  obtain ms where ms: "MergeTimeSlot (mergedSlots s) (tsMEM b) = Inr ms" "length ms \<le> 1"
    using MergeTimeSlot_short [of "mergedSlots s" "tsMEM b"] ok by (auto simp: sched_ok_def)
  define s' where "s' = UpdateLastTick (snd (tsDMA1 b)) (FlushOpTimeStamp (note_operation (cmdOper req) (tsDMA0 b)
      (tsDMA1 b) ((commit_booking p a b s)\<lparr>mergedSlots := ms\<rparr>)))"
  have T: "TimelineScheduling lat p fuel req a s = Some (Inr (req\<lparr>cmdFinished := snd (tsDMA1 b)\<rparr>, s', conf))"
    using ms(1) by (simp add: TimelineScheduling_def b s'_def Let_def)
  have sel: "chSlots s' = (chSlots s)[?c := bkCh b]" "chStart s' = (chStart s)[?c := bkCs b]"
    "dieSlots s' = (dieSlots s)[?d := bkDie b]" "dieStart s' = (dieStart s)[?d := bkDs b]"
    by (simp_all add: s'_def note_sel commit_booking_def Let_def)
  have merged: "mergedSlots s' = ms"
    by (simp add: s'_def UpdateLastTick_def FlushOpTimeStamp_def note_operation_def Let_def)
  have n: "unat (lat ?pg (cmdOper req) BUSY_DMA0) + unat (lat ?pg (cmdOper req) BUSY_MEM) +
      unat (lat ?pg (cmdOper req) BUSY_DMA1) + 2 * unat (lat ?pg OPER_READ BUSY_DMA0) \<le> n"
    and pos: "0 < lat ?pg (cmdOper req) BUSY_DMA1" "0 < lat ?pg (cmdOper req) BUSY_DMA0"
    using lat by (simp_all add: timing_ok_def)
  have pos': "0 < unat (lat ?pg (cmdOper req) BUSY_DMA1)" "0 < unat (lat ?pg (cmdOper req) BUSY_DMA0)"
    using pos by (simp_all add: word_less_nat_alt)
  have "unat (bkCs b) \<le> m + n" "unat (bkDs b) \<le> m + n" using B starts below(2) n unfolding booking_ok_def by linarith+
  with below(1) have "starts_below (m + n) s'"
    unfolding starts_below_def sel by (auto dest!: set_update_subset_insert [THEN subsetD] intro: trans_le_add1)
  moreover have "sched_ok p s'"
    using commit_ok(1) [OF ok2 rng B sel] ms(2) by (simp add: sched_ok_def merged)
  moreover have "unat (cmdArrived req) < unat (snd (tsDMA1 b))" "unat (snd (tsDMA1 b)) \<le> m + n"
    using B starts below(2) n pos' unfolding booking_ok_def by linarith+
  moreover have "submit lat p fuel req a s = Some (Inr (req\<lparr>cmdFinished := snd (tsDMA1 b)\<rparr>, s'))"
    using T by (simp add: submit_def)
  moreover have "pal2_step lat p n s (uses p a b) s'" by (rule step_command [OF rng(1) time' b T])
  ultimately show ?thesis by (intro exI conjI) (assumption | simp)+
qed

section \<open>A request\<close>

lemma count_oper_sched [simp]: "poSched (count_oper oper s) = poSched s"
  by (cases oper) simp_all

text \<open>The counter of an operation kind, and the steps of the flash a request consists of.\<close>

fun oper_count :: "pal_operation \<Rightarrow> palold \<Rightarrow> u64" where
  "oper_count OPER_READ s = poReads s"
| "oper_count OPER_WRITE s = poWrites s"
| "oper_count OPER_ERASE s = poErases s"

lemma oper_count_step [simp]:
  "oper_count oper (count_oper oper' s) = oper_count oper s + of_bool (oper = oper')"
  "oper_count oper (s\<lparr>poSched := x\<rparr>) = oper_count oper s"
  by (cases oper; cases oper'; simp)+

lemma submit_all_total:
  assumes "sched_ok p (poSched s)" and "\<And>a. a \<in> set as \<Longrightarrow> die_range p a" and "dies_fit p"
    and "timing_ok lat n" and "starts_below m (poSched s)" and "unat (cmdArrived cmd) \<le> m"
    and "unat fin \<le> m" and "2 * (m + Suc (length as) * n) < 2 ^ 64" and "m + length as * n \<le> fuel"
  shows "\<exists>tk' s' us. submit_all lat p fuel as cmd fin s = Some (Inr (tk', s')) \<and> sched_ok p (poSched s') \<and>
    starts_below (m + length as * n) (poSched s') \<and> fin \<le> tk' \<and> unat tk' \<le> m + length as * n \<and>
    length us = length as \<and> chain (pal2_step lat p n) (poSched s) us (poSched s') \<and>
    (as \<noteq> [] \<longrightarrow> cmdArrived cmd < tk') \<and>
    (\<forall>oper. oper_count oper s' = oper_count oper s + of_nat (of_bool (oper = cmdOper cmd) * length as))"
  using assms
proof (induction "as" arbitrary: s cmd fin m)
  case Nil
  then show ?case by (intro exI [of _ "fin"] exI [of _ s] exI [of _ "[]"]) simp
next
  case (Cons a "as")
  have a: "die_range p a" and rest: "\<And>b. b \<in> set as \<Longrightarrow> die_range p b" using Cons.prems(2) by simp_all
  have n1: "2 * (m + n) < 2 ^ 64" "m \<le> fuel" using Cons.prems(8,9) by simp_all
  from submit_total [OF Cons.prems(1) a Cons.prems(3-6) n1] obtain req' x u where
    sub: "submit lat p fuel cmd a (poSched s) = Some (Inr (req', x))" and x: "sched_ok p x" "starts_below (m + n) x"
    and time: "unat (cmdArrived cmd) < unat (cmdFinished req')" "unat (cmdFinished req') \<le> m + n"
    and same: "cmdArrived req' = cmdArrived cmd" "cmdOper req' = cmdOper cmd" and step: "pal2_step lat p n (poSched s) u x"
    by blast
  let ?s = "count_oper (cmdOper req') (s\<lparr>poSched := x\<rparr>)" and ?fin = "max fin (cmdFinished req')"
  have pre: "sched_ok p (poSched ?s)" "starts_below (m + n) (poSched ?s)" "unat (cmdArrived req') \<le> m + n"
    "unat ?fin \<le> m + n" "2 * (m + n + Suc (length as) * n) < 2 ^ 64" "m + n + length as * n \<le> fuel"
    using x Cons.prems(6-9) time(2) same(1) by (simp_all add: max_def)
  from Cons.IH [OF pre(1) rest Cons.prems(3,4) pre(2-6)] obtain tk' s' us where
    IH: "submit_all lat p fuel as req' ?fin ?s = Some (Inr (tk', s'))" "sched_ok p (poSched s')"
      "starts_below (m + n + length as * n) (poSched s')" "?fin \<le> tk'" "unat tk' \<le> m + n + length as * n"
      "length us = length as" "chain (pal2_step lat p n) (poSched ?s) us (poSched s')"
      "\<forall>oper. oper_count oper s' = oper_count oper ?s + of_nat (of_bool (oper = cmdOper req') * length as)"
    by blast
  have "cmdArrived cmd < tk'" using time(1) IH(4) by (auto simp: word_less_nat_alt word_le_nat_alt max_def split: if_splits)
  moreover have "fin \<le> tk'" using IH(4) by simp
  moreover have "chain (pal2_step lat p n) (poSched s) (u # us) (poSched s')" using step IH(7) by auto
  moreover have "oper_count oper s' = oper_count oper s + of_nat (of_bool (oper = cmdOper cmd) * length (a # as))" for oper
    using IH(8) same(2) by (simp add: algebra_simps)
  ultimately show ?case
    using sub IH(1-3,5,6) by (intro exI [of _ tk'] exI [of _ s'] exI [of _ "u # us"]) (simp add: algebra_simps)
qed

text \<open>The pages of a translation lie on dies of the flash.\<close>

lemma pal_ok_dies:
  assumes "pal_ok c" and "PAL_new c = Inr p"
  shows "dies_fit p" and "in_geometry c a \<Longrightarrow> die_range p a"
proof -
  have f: "field_size p = conf_size c" using PAL_new_geometry [OF assms(1)] assms(2) by simp
  have e: "pChannel p = conf_size c Channel" "pPackage p = conf_size c Package" "pDie p = conf_size c Die"
    using fun_cong [OF f, of Channel] fun_cong [OF f, of Package] fun_cong [OF f, of Die] by simp_all
  let ?d = "pcChannel c * pcPackage c * pcDie c"
  have "pcBlock c * (?d * pcPlane c) < 2 ^ 32" "0 < pcBlock c" using assms(1) by (simp_all add: pal_ok_def)
  have "0 < pcPlane c" using assms(1) by (auto simp: pal_ok_def dest: spec [of _ Plane])
  then have "?d * 1 \<le> ?d * (pcBlock c * pcPlane c)"
    using \<open>0 < pcBlock c\<close> by (intro mult_le_mono2) (simp add: Suc_le_eq)
  also have "\<dots> = pcBlock c * (?d * pcPlane c)" by simp
  also note \<open>\<dots> < 2 ^ 32\<close>
  finally have "?d < 2 ^ 32" by simp
  then show "dies_fit p" by (simp add: dies_fit_def e)
  show "die_range p a" if "in_geometry c a"
    using that by (auto simp: in_geometry_def die_range_def e dest: spec [of _ Channel] spec [of _ Package] spec [of _ Die])
qed

section \<open>The claims\<close>

text \<open>C24. A request for a super page within range is served, whatever commands came before: every page
  with a flag is scheduled, one step of the flash each, no check of the scheduler fails, and the
  request ends after it starts and at most one command time per page later than the flash is
  promised away, provided the simulated time lasts that long. The fuel of the searches covers
  every tick that can occur.\<close>

theorem flash_serves:
  assumes "pal_ok (poConf q)" and "alloc_ok (poConf q) fl" and "PAL_new (poConf q) = Inr (poParam q)"
    and "fits (poConf q) (poParam q) r" and "timing_ok (palold_lat q) n" and "sched_ok (poParam q) (poSched s)"
    and "starts_below m (poSched s)" and "unat tk \<le> m"
    and "2 * (m + Suc (pageInSuperPage (poParam q)) * n) < 2 ^ 64"
  shows "\<exists>flag k tk' s' us. k = card {i. i < pageInSuperPage (poParam q) \<and> bget flag i} \<and>
    (bitset_size (palIoFlag r) = pageInSuperPage (poParam q) \<longrightarrow> flag = palIoFlag r) \<and>
    palold_serve oper q (2 ^ 64) r tk s = Some (Inr (tk', s')) \<and>
    sched_ok (poParam q) (poSched s') \<and> starts_below (m + k * n) (poSched s') \<and>
    tk \<le> tk' \<and> (0 < k \<longrightarrow> tk < tk') \<and> unat tk' \<le> m + k * n \<and>
    length us = k \<and> chain (pal2_step (palold_lat q) (poParam q) n) (poSched s) us (poSched s') \<and>
    (\<forall>o'. oper_count o' s' = oper_count o' s + of_nat (of_bool (o' = oper) * k))"
proof -
  let ?p = "poParam q"
  note D = pal_ok_dies [OF assms(1,3)]
  from convert_pages [OF assms(1-4)] obtain flag out where
    out: "convertCPDPBP (poConf q) ?p r = Inr (flag, out)" "length out = card {i. i < pageInSuperPage ?p \<and> bget flag i}"
      "bitset_size (palIoFlag r) = pageInSuperPage ?p \<longrightarrow> flag = palIoFlag r" "\<forall>a\<in>set out. in_geometry (poConf q) a"
    by blast
  have "card {i. i < pageInSuperPage ?p \<and> bget flag i} \<le> card {..<pageInSuperPage ?p}" by (rule card_mono) auto
  then have "length out \<le> pageInSuperPage ?p" by (simp add: out(2))
  then have n: "Suc (length out) * n \<le> Suc (pageInSuperPage ?p) * n" by (intro mult_right_mono) simp_all
  have time: "2 * (m + Suc (length out) * n) < 2 ^ 64" 
    by (rule le_less_trans [OF mult_le_mono2 [OF add_le_mono [OF order_refl n]] assms(9)])
  then have fuel: "m + length out * n \<le> 2 ^ 64" by simp
  let ?cmd = "Command_new tk 0 oper (command_size ?p oper)"
  have pre: "\<And>a. a \<in> set out \<Longrightarrow> die_range ?p a" "unat (cmdArrived ?cmd) \<le> m"
    using out(4) D(2) assms(8) by (auto simp: Command_new_def)
  have cmd: "cmdArrived ?cmd = tk" "cmdOper ?cmd = oper" by (simp_all add: Command_new_def)
  have some: "out \<noteq> [] \<longleftrightarrow> 0 < length out" by simp
  from submit_all_total [OF assms(6) pre(1) D(1) assms(5,7) pre(2) assms(8) time fuel] obtain tk' s' us where
    R: "submit_all (palold_lat q) ?p (2 ^ 64) out ?cmd tk s = Some (Inr (tk', s'))" "sched_ok ?p (poSched s')"
      "starts_below (m + length out * n) (poSched s')" "tk \<le> tk'" "unat tk' \<le> m + length out * n"
      "length us = length out" "chain (pal2_step (palold_lat q) ?p n) (poSched s) us (poSched s')"
      "0 < length out \<longrightarrow> tk < tk'"
      "\<forall>o'. oper_count o' s' = oper_count o' s + of_nat (of_bool (o' = oper) * length out)"
    unfolding cmd some by blast
  have "palold_serve oper q (2 ^ 64) r tk s = Some (Inr (tk', s'))"
    using R(1) by (simp add: palold_serve_def out(1))
  with R out(2,3) show ?thesis
    by (intro exI [of _ flag] exI [of _ "length out"] exI [of _ tk'] exI [of _ s'] exI [of _ us] conjI)
qed

definition sample_flash :: palold_param where
  "sample_flash = \<lparr>poConf = pal_sample_conf, poParam = pal_sample, poTiming = slc_timing, poType = NAND_SLC\<rparr>"

definition sample_palold :: palold where
  "sample_palold = \<lparr>poSched = pal2_sample, poReads = 0, poWrites = 0, poErases = 0, poLastReset = 0, poFlushAt = 0\<rparr>"

lemma sample_sched: "sched_ok pal_sample pal2_sample" "starts_below 100 pal2_sample"
proof -
  obtain q where "PAL2_new NAND_SLC 400 4096 False pal_sample = Inr (q, pal2_sample)" using pal2_sample_eq by blast
  from PAL2_new_starts [OF this pal_sample_dies] show "sched_ok pal_sample pal2_sample" "starts_below 100 pal2_sample"
    using pal2_sample_ok unfolding sched_ok_def starts_below_def by (auto simp del: set_replicate)
qed

lemma sample_flags: "{i. i < 4 \<and> bget (bs_of (\<lambda>i. i \<noteq> 2) 4) i} = {0, 1, 3}"
  by (auto simp: bs_of_wf)

lemma flash_serves_witness:
  "\<exists>tk' s'. palold_serve OPER_WRITE sample_flash (2 ^ 64) (pal_sample_request 5) 100 sample_palold = Some (Inr (tk', s')) \<and>
    100 < tk' \<and> unat tk' \<le> 9100 \<and> poWrites s' = 3 \<and> poReads s' = 0"
proof -
  have c: "poConf sample_flash = pal_sample_conf" "poParam sample_flash = pal_sample" "palold_lat sample_flash = slc"
    "poSched sample_palold = pal2_sample" "pageInSuperPage pal_sample = 4"
    by (simp_all add: sample_flash_def sample_palold_def palold_lat_def pal_sample_def fun_eq_iff)
  have r: "fits pal_sample_conf pal_sample (pal_sample_request 5)" "bitset_size (palIoFlag (pal_sample_request 5)) = 4"
    "palIoFlag (pal_sample_request 5) = bs_of (\<lambda>i. i \<noteq> 2) 4"
    using pal_sample_fits [of 5] by (simp_all add: fits_def c pal_sample_conf_def pal_sample_request_def)
  obtain flag k tk' s' where k: "k = card {i. i < 4 \<and> bget flag i}" "flag = bs_of (\<lambda>i. i \<noteq> 2) 4"
    and R: "palold_serve OPER_WRITE sample_flash (2 ^ 64) (pal_sample_request 5) 100 sample_palold = Some (Inr (tk', s'))"
      "0 < k \<longrightarrow> 100 < tk'" "unat tk' \<le> 100 + k * 3000"
      "\<forall>o'. oper_count o' s' = oper_count o' sample_palold + of_nat (of_bool (o' = OPER_WRITE) * k)"
    using flash_serves [of sample_flash "[Channel, Package, Die, Plane]" "pal_sample_request 5" 3000 sample_palold 100 100 OPER_WRITE]
    unfolding c using pal_sample_ok pal_sample_new r slc_timing_ok sample_sched by auto
  have "k = 3" unfolding k sample_flags by simp
  with R(1-3) spec [OF R(4), of OPER_WRITE] spec [OF R(4), of OPER_READ] show ?thesis
    by (intro exI [of _ tk'] exI [of _ s']) (simp add: sample_palold_def)
qed

text \<open>A reset of the statistics keeps only the lowest eight bits of its tick: the average power
  is then taken over \<open>now\<close> less that remainder, almost the whole simulation, instead of over the
  time since the reset.\<close>

lemma reset_time_truncated:
  "palold_elapsed now (palold_resetStatValues t s) = now - of_nat (unat t mod 256)"
proof -
  have "unat (ucast (ucast t :: u8) :: u64) = unat t mod 256"
    by (simp add: unsigned_ucast_eq take_bit_eq_mod unat_mod)
  then have "(ucast (ucast t :: u8) :: u64) = of_nat (unat t mod 256)"
    by (metis of_nat_unat ucast_id)
  then show ?thesis by (simp add: palold_elapsed_def palold_resetStatValues_def)
qed

end
