(* ===== verification/Hil.thy ===== *)
theory Hil
  imports Icl
begin

text \<open>
  The host interface layer, \<^verbatim>\<open>src/hil/hil.cc\<close>: requests are handed to the internal cache layer when
  the processor has run their firmware, and completed towards the host when the simulation reaches
  their end. The closures \<open>doRead\<close>, \<open>doWrite\<close> and \<open>doFlush\<close> are the operations here; they run at
  the tick the processor calls them at.

  The layer below is \<open>hil_env\<close>, with a state of type \<open>'i\<close>. A request travels with its callback and
  context, together a value of type \<open>'c\<close>. The queue of completions is a \<open>std::priority_queue\<close>
  ordered by the end of the requests: here the list in that order, a new request behind those that
  end at the same tick. The completion event is the tick it is scheduled for; scheduling it again
  moves it. A callback that submits requests goes through the processor, whose job runs later.
\<close>

record 'i hil_env =
  hilIclRead :: "icl_request \<Rightarrow> tick \<Rightarrow> 'i \<Rightarrow> (tick \<times> 'i) res"
  hilIclWrite :: "icl_request \<Rightarrow> tick \<Rightarrow> 'i \<Rightarrow> (tick \<times> 'i) res"
  hilIclFlush :: "lpn_range \<Rightarrow> tick \<Rightarrow> 'i \<Rightarrow> (tick \<times> 'i) res"
  hilIclTrim :: "lpn_range \<Rightarrow> tick \<Rightarrow> 'i \<Rightarrow> (tick \<times> 'i) res"
  hilIclFormat :: "lpn_range \<Rightarrow> tick \<Rightarrow> 'i \<Rightarrow> (tick \<times> 'i) res"

text \<open>One entry per busy-time counter: reads, writes, both.\<close>

record busy_stat =
  busySum :: u64
  lastBusyAt :: u64

record hil_stat =
  hilReads :: u64
  hilWrites :: u64
  hilReadBytes :: u64
  hilWriteBytes :: u64
  busyRead :: busy_stat
  busyWrite :: busy_stat
  busyAny :: busy_stat

type_synonym 'c hil_entry = "hil_request \<times> 'c"

record ('c, 'i) hil =
  hilReqCount :: u64
  lastScheduled :: tick
  completionEvent :: "tick option"
  completionQueue :: "'c hil_entry list"
  hilStat :: hil_stat
  hilICL :: 'i

definition busy_new :: busy_stat where
  "busy_new = \<lparr>busySum = 0, lastBusyAt = 0\<rparr>"

definition hil_stat_new :: hil_stat where
  "hil_stat_new = \<lparr>hilReads = 0, hilWrites = 0, hilReadBytes = 0, hilWriteBytes = 0,
     busyRead = busy_new, busyWrite = busy_new, busyAny = busy_new\<rparr>"

definition HIL_new :: "'i \<Rightarrow> ('c, 'i) hil" where
  "HIL_new i = \<lparr>hilReqCount = 0, lastScheduled = 0, completionEvent = None, completionQueue = [],
     hilStat = hil_stat_new, hilICL = i\<rparr>"

section \<open>Completion\<close>

abbreviation ends :: "'c hil_entry \<Rightarrow> tick" where
  "ends x \<equiv> hilFinishedAt (fst x)"

fun completion_push :: "'c hil_entry \<Rightarrow> 'c hil_entry list \<Rightarrow> 'c hil_entry list" where
  "completion_push x [] = [x]"
| "completion_push x (y # ys) =
     (if hil_request_later (fst y) (fst x) then x # y # ys else y # completion_push x ys)"

definition updateCompletion :: "('c, 'i) hil \<Rightarrow> ('c, 'i) hil" where
  "updateCompletion s =
     (case completionQueue s of
        [] \<Rightarrow> s
      | x # _ \<Rightarrow>
          if lastScheduled s \<noteq> ends x then s\<lparr>lastScheduled := ends x, completionEvent := Some (ends x)\<rparr> else s)"

text \<open>The event: the requests whose callbacks run, in that order, and the state.\<close>

definition hil_completion :: "tick \<Rightarrow> ('c, 'i) hil \<Rightarrow> 'c hil_entry list \<times> ('c, 'i) hil" where
  "hil_completion tk s =
     (takeWhile (\<lambda>x. ends x \<le> tk) (completionQueue s),
      updateCompletion (s\<lparr>completionEvent := None,
        completionQueue := dropWhile (\<lambda>x. ends x \<le> tk) (completionQueue s)\<rparr>))"

section \<open>Statistics\<close>

definition updateBusyTime :: "u64 \<Rightarrow> u64 \<Rightarrow> busy_stat \<Rightarrow> busy_stat" where
  "updateBusyTime from to b =
     (if to \<le> lastBusyAt b then b
      else b\<lparr>busySum := busySum b + (if from < lastBusyAt b then to - lastBusyAt b else to - from),
             lastBusyAt := to\<rparr>)"

definition note_read :: "u64 \<Rightarrow> tick \<Rightarrow> tick \<Rightarrow> hil_stat \<Rightarrow> hil_stat" where
  "note_read len from to st = st\<lparr>hilReads := hilReads st + 1, hilReadBytes := hilReadBytes st + len,
     busyRead := updateBusyTime from to (busyRead st), busyAny := updateBusyTime from to (busyAny st)\<rparr>"

definition note_write :: "u64 \<Rightarrow> tick \<Rightarrow> tick \<Rightarrow> hil_stat \<Rightarrow> hil_stat" where
  "note_write len from to st = st\<lparr>hilWrites := hilWrites st + 1, hilWriteBytes := hilWriteBytes st + len,
     busyWrite := updateBusyTime from to (busyWrite st), busyAny := updateBusyTime from to (busyAny st)\<rparr>"

definition hil_getStatValues :: "('c, 'i) hil \<Rightarrow> u64 list" where
  "hil_getStatValues s =
     (let st = hilStat s in
      [hilReads st, hilReadBytes st, busySum (busyRead st), hilWrites st, hilWriteBytes st,
       busySum (busyWrite st), hilReads st + hilWrites st, hilReadBytes st + hilWriteBytes st,
       busySum (busyAny st)])"

definition hil_resetStatValues :: "('i \<Rightarrow> 'i) \<Rightarrow> ('c, 'i) hil \<Rightarrow> ('c, 'i) hil" where
  "hil_resetStatValues resetICL s = s\<lparr>hilStat := hil_stat_new, hilICL := resetICL (hilICL s)\<rparr>"

section \<open>Requests\<close>

text \<open>The end of every operation: the request gets its end and waits for it.\<close>

definition hil_finish :: "hil_request \<Rightarrow> 'c \<Rightarrow> tick \<Rightarrow> ('c, 'i) hil \<Rightarrow> ('c, 'i) hil" where
  "hil_finish r c tk s =
     updateCompletion (s\<lparr>completionQueue := completion_push (r\<lparr>hilFinishedAt := tk\<rparr>, c) (completionQueue s)\<rparr>)"

definition next_request :: "hil_request \<Rightarrow> ('c, 'i) hil \<Rightarrow> hil_request \<times> ('c, 'i) hil" where
  "next_request r s = (r\<lparr>hilReqID := hilReqCount s + 1\<rparr>, s\<lparr>hilReqCount := hilReqCount s + 1\<rparr>)"

definition hil_read :: "'i hil_env \<Rightarrow> hil_request \<Rightarrow> 'c \<Rightarrow> tick \<Rightarrow> ('c, 'i) hil \<Rightarrow> ('c, 'i) hil res" where
  "hil_read env r c beginAt s =
     (let (r, s) = next_request r s in
      ebind (hilIclRead env (ICLRequest_of_HIL r) beginAt (hilICL s)) (\<lambda>(tk, i).
      Inr (hil_finish r c tk (s\<lparr>hilICL := i, hilStat := note_read (hilLength r) beginAt tk (hilStat s)\<rparr>))))"

definition hil_write :: "'i hil_env \<Rightarrow> hil_request \<Rightarrow> 'c \<Rightarrow> tick \<Rightarrow> ('c, 'i) hil \<Rightarrow> ('c, 'i) hil res" where
  "hil_write env r c beginAt s =
     (let (r, s) = next_request r s in
      ebind (hilIclWrite env (ICLRequest_of_HIL r) beginAt (hilICL s)) (\<lambda>(tk, i).
      Inr (hil_finish r c tk (s\<lparr>hilICL := i, hilStat := note_write (hilLength r) beginAt tk (hilStat s)\<rparr>))))"

definition hil_flush :: "'i hil_env \<Rightarrow> hil_request \<Rightarrow> 'c \<Rightarrow> tick \<Rightarrow> ('c, 'i) hil \<Rightarrow> ('c, 'i) hil res" where
  "hil_flush env r c beginAt s =
     (let (r, s) = next_request r s in
      ebind (hilIclFlush env (hilRange r) beginAt (hilICL s)) (\<lambda>(tk, i).
      Inr (hil_finish r c tk (s\<lparr>hilICL := i\<rparr>))))"

definition hil_trim :: "'i hil_env \<Rightarrow> hil_request \<Rightarrow> 'c \<Rightarrow> tick \<Rightarrow> ('c, 'i) hil \<Rightarrow> ('c, 'i) hil res" where
  "hil_trim env r c beginAt s =
     (let (r, s) = next_request r s in
      ebind (hilIclTrim env (hilRange r) beginAt (hilICL s)) (\<lambda>(tk, i).
      Inr (hil_finish r c tk (s\<lparr>hilICL := i\<rparr>))))"

text \<open>A format gets no number of its own.\<close>

definition hil_format :: "'i hil_env \<Rightarrow> bool \<Rightarrow> hil_request \<Rightarrow> 'c \<Rightarrow> tick \<Rightarrow> ('c, 'i) hil \<Rightarrow> ('c, 'i) hil res" where
  "hil_format env erase r c beginAt s =
     ebind (if erase then hilIclFormat env (hilRange r) beginAt (hilICL s)
            else hilIclTrim env (hilRange r) beginAt (hilICL s)) (\<lambda>(tk, i).
     Inr (hil_finish r c tk (s\<lparr>hilICL := i\<rparr>)))"

section \<open>On the internal cache layer\<close>

definition last_tick :: "(cache \<times> 'h \<times> tick) res \<Rightarrow> (tick \<times> cache \<times> 'h) res" where
  "last_tick r = ebind r (\<lambda>(s, h, tk). Inr (tk, s, h))"

definition hil_on_icl :: "'h cache_env \<Rightarrow> cache_param \<Rightarrow> icl \<Rightarrow> (cache \<times> 'h) hil_env" where
  "hil_on_icl env p c =
     \<lparr>hilIclRead = \<lambda>r tk (s, h). last_tick (icl_read env p c r s h tk),
      hilIclWrite = \<lambda>r tk (s, h). last_tick (icl_write env p c r s h tk),
      hilIclFlush = \<lambda>r tk (s, h). last_tick (icl_flush env p r s h tk),
      hilIclTrim = \<lambda>r tk (s, h). last_tick (icl_trim env p r s h tk),
      hilIclFormat = \<lambda>r tk (s, h). last_tick (icl_format env p r s h tk)\<rparr>"

definition hil_getLPNInfo :: "icl \<Rightarrow> nat \<times> nat" where
  "hil_getLPNInfo c = icl_getLPNInfo c"

definition hil_getUsedPageCount :: "ftl \<Rightarrow> u64 \<Rightarrow> u64 \<Rightarrow> nat res" where
  "hil_getUsedPageCount f lcaBegin lcaEnd = icl_getUsedPageCount f lcaBegin lcaEnd"

end
