(* ===== verification/HilProps.thy ===== *)
theory HilProps
  imports Hil
begin

text \<open>
  The host interface layer: every request is completed exactly once, at the tick at which the layers
  below have finished it, and the busy counters measure the union of the service times.
\<close>

section \<open>The completion queue\<close>

lemma mset_completion_push [simp]: "mset (completion_push x q) = add_mset x (mset q)"
  by (induction q) auto

lemma set_completion_push [simp]: "set (completion_push x q) = insert x (set q)"
  by (induction q) auto

lemma completion_push_not_Nil [simp]: "completion_push x q \<noteq> []"
  by (cases q) auto




section \<open>Operations\<close>

datatype hil_op = HRead | HWrite | HFlush | HTrim | HFormat bool

fun hil_serve :: "'i hil_env \<Rightarrow> hil_op \<Rightarrow> hil_request \<Rightarrow> 'c \<Rightarrow> tick \<Rightarrow> ('c, 'i) hil \<Rightarrow> ('c, 'i) hil res" where
  "hil_serve env HRead r c t s = hil_read env r c t s"
| "hil_serve env HWrite r c t s = hil_write env r c t s"
| "hil_serve env HFlush r c t s = hil_flush env r c t s"
| "hil_serve env HTrim r c t s = hil_trim env r c t s"
| "hil_serve env (HFormat erase) r c t s = hil_format env erase r c t s"

text \<open>What all of them do to the queue and the event.\<close>

definition queues :: "'c hil_entry \<Rightarrow> ('c, 'i) hil \<Rightarrow> ('c, 'i) hil \<Rightarrow> bool" where
  "queues e s s' \<longleftrightarrow> completionQueue s' = completion_push e (completionQueue s) \<and>
     (let x = hd (completionQueue s') in
      lastScheduled s' = ends x \<and>
      completionEvent s' = (if lastScheduled s \<noteq> ends x then Some (ends x) else completionEvent s))"

lemma hil_finish_queues:
  assumes "completionQueue s0 = completionQueue s" and "lastScheduled s0 = lastScheduled s"
    and "completionEvent s0 = completionEvent s"
  shows "queues (r\<lparr>hilFinishedAt := tk\<rparr>, c) s (hil_finish r c tk s0)"
  using assms by (auto simp: queues_def hil_finish_def updateCompletion_def Let_def split: list.split)

lemma finishes:
  assumes "completionQueue s0 = completionQueue s" and "lastScheduled s0 = lastScheduled s"
    and "completionEvent s0 = completionEvent s"
  shows "\<exists>r' tk'. queues (r'\<lparr>hilFinishedAt := tk'\<rparr>, c) s (hil_finish r c tk s0)"
  using hil_finish_queues [OF assms] by blast

lemma hil_serve_queues:
  assumes "hil_serve env op r c t s = Inr s'"
  shows "\<exists>r' tk. queues (r'\<lparr>hilFinishedAt := tk\<rparr>, c) s s'"
  using assms
  by (cases op) (auto simp: hil_read_def hil_write_def hil_flush_def hil_trim_def hil_format_def next_request_def
      intro!: finishes)

section \<open>Runs\<close>









section \<open>Busy time\<close>

text \<open>The ticks at which some service of a list is under way.\<close>

definition busy_ticks :: "(u64 \<times> u64) list \<Rightarrow> nat set" where
  "busy_ticks ivs = (\<Union>(f, t)\<in>set ivs. {unat f..<unat t})"

definition busy_after :: "(u64 \<times> u64) list \<Rightarrow> busy_stat" where
  "busy_after ivs = foldl (\<lambda>b (f, t). updateBusyTime f t b) busy_new ivs"

lemma finite_busy_ticks [simp]: "finite (busy_ticks ivs)"
  by (auto simp: busy_ticks_def)

lemma busy_ticks_snoc: "busy_ticks (ivs @ [(f, t)]) = busy_ticks ivs \<union> {unat f..<unat t}"
  by (simp add: busy_ticks_def Un_commute)

lemma busy_after_spec:
  assumes "sorted (map fst ivs)" and "\<forall>(f, t)\<in>set ivs. f \<le> t"
  shows "unat (busySum (busy_after ivs)) = card (busy_ticks ivs) \<and>
    busy_ticks ivs \<subseteq> {..<unat (lastBusyAt (busy_after ivs))} \<and>
    (lastBusyAt (busy_after ivs) = 0 \<or> (\<exists>f. (f, lastBusyAt (busy_after ivs)) \<in> set ivs))"
  using assms
proof (induction ivs rule: rev_induct)
  case Nil
  then show ?case by (simp add: busy_after_def busy_ticks_def busy_new_def)
next
  case (snoc x ivs)
  obtain f t where x: "x = (f, t)" by (cases x)
  let ?b = "busy_after ivs" and ?U = "busy_ticks ivs"
  have IH: "unat (busySum ?b) = card ?U" "?U \<subseteq> {..<unat (lastBusyAt ?b)}"
    "lastBusyAt ?b = 0 \<or> (\<exists>f. (f, lastBusyAt ?b) \<in> set ivs)"
    using snoc by (auto simp: sorted_append)
  have ft: "unat f \<le> unat t" using snoc.prems(2) by (auto simp: x word_le_nat_alt)
  have first: "unat g \<le> unat f" if "(g, u) \<in> set ivs" for g u
  proof -
    have "\<forall>y\<in>set (map fst ivs). y \<le> f" using snoc.prems(1) by (simp add: x sorted_append)
    with that have "g \<le> f" by force
    then show ?thesis by (simp add: word_le_nat_alt)
  qed
  have covered: "{unat f..<unat (lastBusyAt ?b)} \<subseteq> ?U"
  proof (cases "lastBusyAt ?b = 0")
    case False
    then obtain g where g: "(g, lastBusyAt ?b) \<in> set ivs" using IH(3) by blast
    then have "{unat g..<unat (lastBusyAt ?b)} \<subseteq> ?U" by (force simp: busy_ticks_def)
    with first [OF g] show ?thesis by auto
  qed simp
  have after: "busy_after (ivs @ [x]) = updateBusyTime f t ?b" by (simp add: busy_after_def x)
  show ?case
  proof (cases "t \<le> lastBusyAt ?b")
    case True
    then have "busy_ticks (ivs @ [x]) = ?U"
      using covered by (auto simp: x busy_ticks_snoc word_le_nat_alt)
    with True IH show ?thesis by (auto simp: after updateBusyTime_def)
  next
    case False
    let ?from = "if f < lastBusyAt ?b then lastBusyAt ?b else f"
    have less: "unat (lastBusyAt ?b) < unat t" using False by (simp add: word_le_nat_alt)
    have new: "busy_ticks (ivs @ [x]) = ?U \<union> {unat ?from..<unat t}"
    proof (cases "f < lastBusyAt ?b")
      case True
      then have "{unat f..<unat t} = {unat f..<unat (lastBusyAt ?b)} \<union> {unat (lastBusyAt ?b)..<unat t}"
        using less by (auto simp: word_less_nat_alt)
      with True covered show ?thesis by (auto simp: x busy_ticks_snoc)
    qed (simp add: x busy_ticks_snoc)
    have lim: "unat (lastBusyAt ?b) \<le> unat ?from" "unat ?from \<le> unat t"
      using ft less by (auto simp: word_less_nat_alt)
    have "card ?U \<le> unat (lastBusyAt ?b)" using card_mono [OF _ IH(2)] by simp
    moreover have "?U \<inter> {unat ?from..<unat t} = {}" using IH(2) lim(1) by fastforce
    then have "card (busy_ticks (ivs @ [x])) = card ?U + (unat t - unat ?from)"
      unfolding new by (subst card_Un_disjoint) auto
    moreover have "unat (t - ?from) = unat t - unat ?from"
      using lim(2) by (simp add: unat_sub word_le_nat_alt)
    moreover have "busySum (updateBusyTime f t ?b) = busySum ?b + (t - ?from)"
      using False by (simp add: updateBusyTime_def)
    moreover have "unat t < 2 ^ 64" using unsigned_less [of t] by simp
    ultimately have "unat (busySum (updateBusyTime f t ?b)) = card (busy_ticks (ivs @ [x]))"
      using IH(1) lim by (simp add: unat_plus_if')
    moreover have "lastBusyAt (updateBusyTime f t ?b) = t" using False by (simp add: updateBusyTime_def)
    moreover have "busy_ticks (ivs @ [x]) \<subseteq> {..<unat t}" unfolding new using IH(2) less by force
    ultimately show ?thesis unfolding after by (auto simp: x)
  qed
qed

section \<open>The claims\<close>


text \<open>A layer below that takes ten ticks for everything, and one flush.\<close>

definition ten_env :: "unit hil_env" where
  "ten_env = \<lparr>hilIclRead = \<lambda>_ t i. Inr (t + 10, i), hilIclWrite = \<lambda>_ t i. Inr (t + 10, i),
     hilIclFlush = \<lambda>_ t i. Inr (t + 10, i), hilIclTrim = \<lambda>_ t i. Inr (t + 10, i),
     hilIclFormat = \<lambda>_ t i. Inr (t + 10, i)\<rparr>"

definition flush_entry :: "nat hil_entry" where
  "flush_entry = (HILRequest_new\<lparr>hilReqID := 1, hilFinishedAt := 15\<rparr>, 7)"

definition flushed :: "(nat, unit) hil" where
  "flushed = (HIL_new ())\<lparr>hilReqCount := 1, lastScheduled := 15, completionEvent := Some 15,
     completionQueue := [flush_entry]\<rparr>"



text \<open>Without that proviso a completion is lost: after the event of tick 15 a request that ends at
  tick 15 too leaves its queue without an event.\<close>

lemma completion_stalls:
  "\<exists>s. hil_flush ten_env HILRequest_new 8 5 (flushed\<lparr>completionEvent := None, completionQueue := []\<rparr>) = Inr s \<and>
     length (completionQueue s) = 1 \<and> completionEvent s = None"
  by (simp add: hil_flush_def next_request_def ten_env_def hil_finish_def updateCompletion_def flushed_def)

text \<open>C26. The busy counters measure time, not requests: for requests served in the order of their
  ticks, the counter is the number of ticks at which at least one of them is under way.\<close>

theorem busy_time_is_union:
  assumes "sorted (map fst ivs)" and "\<forall>(f, t)\<in>set ivs. f \<le> t"
  shows "unat (busySum (foldl (\<lambda>b (f, t). updateBusyTime f t b) busy_new ivs)) =
    card (\<Union>(f, t)\<in>set ivs. {unat f..<unat t})"
  using busy_after_spec [OF assms] by (simp add: busy_after_def busy_ticks_def)

definition sample_services :: "(u64 \<times> u64) list" where
  "sample_services = [(2, 10), (4, 6), (8, 13), (20, 22)]"

lemma busy_time_is_union_witness:
  "unat (busySum (foldl (\<lambda>b (f, t). updateBusyTime f t b) busy_new sample_services)) = 13"
proof -
  have "(\<Union>(f, t)\<in>set sample_services. {unat f..<unat t}) = {2..<13} \<union> {20..<22}"
    by (auto simp: sample_services_def)
  moreover have "card ({2..<13} \<union> {20..<22 :: nat}) = 13" by (subst card_Un_disjoint) auto
  ultimately show ?thesis
    using busy_time_is_union [of sample_services] by (simp add: sample_services_def)
qed

end
