(* ===== verification/NvmeDma.thy ===== *)
theory NvmeDma
  imports Algorithm
begin

text \<open>
  Data transfer of the NVMe interface, \<^verbatim>\<open>src/hil/nvme/dma.cc\<close>: a command describes host memory by
  physical region pages (PRP) or by a scatter-gather list (SGL); reads and writes are cut into one
  host access per piece. Host memory is behind \<open>SimpleSSD::DMAInterface\<close>, which the simulator
  around the drive implements: it is a function from addresses to bytes here, and a read of a list
  delivers the bytes at its address. The reads of a chain of lists follow one another, so that
  parsing is a function of the memory; the tick at which it is over is the simulator's.
\<close>

type_synonym memory = "u64 \<Rightarrow> u8"

text \<open>Little-endian values of a buffer filled from memory.\<close>

fun le_value :: "u8 list \<Rightarrow> u64" where
  "le_value [] = 0"
| "le_value (b # bs) = ucast b + push_bit 8 (le_value bs)"

definition mem_bytes :: "memory \<Rightarrow> u64 \<Rightarrow> nat \<Rightarrow> u8 list" where
  "mem_bytes mem a n = map (\<lambda>i. mem (a + of_nat i)) [0..<n]"

section \<open>Pieces\<close>

text \<open>A piece of host memory; a bit bucket is a piece whose data are dropped.\<close>

record piece =
  pcAddr :: u64
  pcSize :: u64
  pcIgnore :: bool

text \<open>One host access: the address, the number of bytes and the place in the buffer.\<close>

type_synonym dma_op = "u64 \<times> u64 \<times> u64"

text \<open>
  The loop of \<open>read\<close> and \<open>write\<close>, the same for both: \<open>begin\<close> once the piece with the offset has
  been found, the bytes transferred so far, and the offset of the piece.
\<close>

fun dma_loop :: "u64 \<Rightarrow> u64 \<Rightarrow> piece list \<Rightarrow> bool \<Rightarrow> u64 \<Rightarrow> u64 \<Rightarrow> dma_op list" where
  "dma_loop offs len [] started tot cur = []"
| "dma_loop offs len (p # ps) started tot cur =
     (if started then
        let n = min (pcSize p) (len - tot); op = (if pcIgnore p then [] else [(pcAddr p, n, tot)]) in
        if tot + n = len then op else op @ dma_loop offs len ps True (tot + n) (cur + pcSize p)
      else if offs < cur + pcSize p then
        let skip = offs - cur; n = min (pcSize p - skip) len;
            op = (if pcIgnore p then [] else [(pcAddr p + skip, n, 0)])
        in op @ dma_loop offs len ps True n (cur + pcSize p)
      else dma_loop offs len ps False tot (cur + pcSize p))"

definition dma_ops :: "piece list \<Rightarrow> u64 \<Rightarrow> u64 \<Rightarrow> dma_op list" where
  "dma_ops ps offs len = dma_loop offs len ps False 0 0"

text \<open>
  The handler that collects the ends of the accesses: it counts down and runs the callback at zero.
  When a transfer consists of no access the counter is set to one and the handler runs at once.
\<close>

definition commonDMAHandler :: "int \<Rightarrow> int \<times> bool" where
  "commonDMAHandler counter = (counter - 1, counter - 1 = 0)"

definition dma_counter :: "dma_op list \<Rightarrow> int \<times> bool" where
  "dma_counter ops = (if ops = [] then commonDMAHandler 1 else (int (length ops), False))"

section \<open>Physical region pages\<close>

record prp_list =
  prpPieces :: "piece list"
  prpTotal :: u64
  prpPage :: u64

definition PRP_new :: "u64 \<Rightarrow> u64 \<Rightarrow> piece" where
  "PRP_new a s = \<lparr>pcAddr = a, pcSize = s, pcIgnore = False\<rparr>"

definition getPRPSize :: "u64 \<Rightarrow> u64 \<Rightarrow> u64" where
  "getPRPSize ps a = ps - (a AND (ps - 1))"

text \<open>
  The entries of one list page, until the bytes add up to \<open>tot\<close>. \<open>partial\<close>: the buffer ends inside
  an entry, which the loop reads all the same.
\<close>

fun prp_entries ::
  "u64 \<Rightarrow> u64 \<Rightarrow> bool \<Rightarrow> u64 list \<Rightarrow> piece list \<Rightarrow> u64 \<Rightarrow> (piece list \<times> u64) res" where
  "prp_entries ps tot partial [] acc cur =
     (if partial then Inl (Undefined ''read past the buffer'') else Inr (acc, cur))"
| "prp_entries ps tot partial (e # es) acc cur =
     (let cur = cur + getPRPSize ps e in
      if e = 0 then Inl (Panic ''prp_list: Invalid PRP in PRP List'')
      else if tot \<le> cur then Inr (acc @ [PRP_new e (getPRPSize ps e)], cur)
      else prp_entries ps tot partial es (acc @ [PRP_new e (getPRPSize ps e)]) cur)"

definition prp_page :: "memory \<Rightarrow> u64 \<Rightarrow> nat \<Rightarrow> u64 list" where
  "prp_page mem base n = map (\<lambda>i. le_value (mem_bytes mem (base + 8 * of_nat i) 8)) [0..<n]"

text \<open>A list that ends early: its last entry points to the next list. \<open>None\<close>: the fuel is used up.\<close>

fun getPRPListFromPRP :: "nat \<Rightarrow> memory \<Rightarrow> u64 \<Rightarrow> u64 \<Rightarrow> u64 \<Rightarrow> piece list \<Rightarrow> piece list res option" where
  "getPRPListFromPRP fuel mem ps base tot acc =
     (let bytes = unat (getPRPSize ps base) in
      case prp_entries ps tot (bytes mod 8 \<noteq> 0) (prp_page mem base (bytes div 8)) acc 0 of
        Inl e \<Rightarrow> Some (Inl e)
      | Inr (acc, cur) \<Rightarrow>
          if cur < tot then
            (if acc = [] then Some (Inl (Undefined ''back of an empty vector''))
             else case fuel of
               0 \<Rightarrow> None
             | Suc fuel \<Rightarrow> getPRPListFromPRP fuel mem ps (pcAddr (last acc)) (tot - cur) (butlast acc))
          else Some (Inr acc))"

declare getPRPListFromPRP.simps [simp del]

definition prp_of :: "u64 \<Rightarrow> u64 \<Rightarrow> piece list \<Rightarrow> prp_list" where
  "prp_of ps tot acc = \<lparr>prpPieces = acc, prpTotal = tot, prpPage = ps\<rparr>"

definition PRPList_new :: "nat \<Rightarrow> memory \<Rightarrow> u64 \<Rightarrow> u64 \<Rightarrow> u64 \<Rightarrow> u64 \<Rightarrow> prp_list res option" where
  "PRPList_new fuel mem ps prp1 prp2 tot =
     (let size1 = getPRPSize ps prp1; size2 = getPRPSize ps prp2;
          two = (if size1 + size2 < tot then Inl (Panic ''prp_list: Invalid DPTR size'')
                 else Inr (prp_of ps tot [PRP_new prp1 size1, PRP_new prp2 size2]));
          chain = map_option (\<lambda>r. ebind r (\<lambda>acc. Inr (prp_of ps tot acc)))
                    (getPRPListFromPRP fuel mem ps prp2 (tot - size1) [PRP_new prp1 size1])
      in if tot \<le> ps then
           if tot \<le> size1 then Some (Inr (prp_of ps tot [PRP_new prp1 tot])) else Some two
         else if tot \<le> ps * 2 then (if size1 = ps then Some two else chain)
         else chain)"

text \<open>The second constructor, for queues: contiguous memory or a list.\<close>

definition PRPList_queue :: "nat \<Rightarrow> memory \<Rightarrow> u64 \<Rightarrow> u64 \<Rightarrow> u64 \<Rightarrow> bool \<Rightarrow> prp_list res option" where
  "PRPList_queue fuel mem ps base tot cont =
     (if cont then Some (Inr (prp_of ps tot [PRP_new base tot]))
      else map_option (\<lambda>r. ebind r (\<lambda>acc. Inr (prp_of ps tot acc))) (getPRPListFromPRP fuel mem ps base tot []))"

definition prp_read :: "prp_list \<Rightarrow> u64 \<Rightarrow> u64 \<Rightarrow> dma_op list" where
  "prp_read l offs len = dma_ops (prpPieces l) offs len"

definition prp_write :: "prp_list \<Rightarrow> u64 \<Rightarrow> u64 \<Rightarrow> dma_op list" where
  "prp_write l offs len = dma_ops (prpPieces l) offs len"

section \<open>Scatter-gather lists\<close>

text \<open>Types: data block, bit bucket, segment, last segment and keyed data block are 0 to 4.\<close>

record sgl_descriptor =
  sgAddress :: u64
  sgLength :: u32
  sgId :: u8

definition SGL_TYPE :: "u8 \<Rightarrow> u8" where "SGL_TYPE i = drop_bit 4 i"
definition SGL_SUBTYPE :: "u8 \<Rightarrow> u8" where "SGL_SUBTYPE i = i AND 15"

definition is_data :: "u8 \<Rightarrow> bool" where "is_data i = (SGL_TYPE i = 0 \<or> SGL_TYPE i = 4)"
definition is_bucket :: "u8 \<Rightarrow> bool" where "is_bucket i = (SGL_TYPE i = 1)"
definition is_segment :: "u8 \<Rightarrow> bool" where "is_segment i = (SGL_TYPE i = 2 \<or> SGL_TYPE i = 3)"

record sgl =
  sgChunks :: "piece list"
  sgTotal :: u64

definition sgl_empty :: sgl where
  "sgl_empty = \<lparr>sgChunks = [], sgTotal = 0\<rparr>"

definition parseSGLDescriptor :: "sgl_descriptor \<Rightarrow> sgl \<Rightarrow> sgl res" where
  "parseSGLDescriptor d l =
     ebind (if is_data (sgId d) \<or> is_bucket (sgId d)
            then Inr \<lparr>sgChunks = sgChunks l @
                   [\<lparr>pcAddr = sgAddress d, pcSize = ucast (sgLength d), pcIgnore = is_bucket (sgId d)\<rparr>],
                   sgTotal = sgTotal l + ucast (sgLength d)\<rparr>
            else Inl (Panic ''Invalid SGL descriptor'')) (\<lambda>l.
     ebind (guard (SGL_SUBTYPE (sgId d) = 0) (Panic ''Unexpected SGL subtype'')) (\<lambda>_. Inr l))"

definition sgl_at :: "memory \<Rightarrow> u64 \<Rightarrow> sgl_descriptor" where
  "sgl_at mem a = \<lparr>sgAddress = le_value (mem_bytes mem a 8), sgLength = ucast (le_value (mem_bytes mem (a + 8) 4)),
     sgId = mem (a + 15)\<rparr>"

text \<open>
  The descriptors of one segment. A segment descriptor must be the last; other types are skipped.
  The descriptor of the last iteration is the one that is followed.
\<close>

fun sgl_entries :: "bool \<Rightarrow> sgl_descriptor list \<Rightarrow> bool \<Rightarrow> sgl \<Rightarrow> (sgl \<times> bool) res" where
  "sgl_entries partial [] found l =
     (if partial then Inl (Undefined ''read past the buffer'') else Inr (l, found))"
| "sgl_entries partial (d # ds) found l =
     (if is_data (sgId d) \<or> is_bucket (sgId d)
      then ebind (parseSGLDescriptor d l) (\<lambda>l. sgl_entries partial ds found l)
      else if is_segment (sgId d) then
        (if ds \<noteq> [] \<or> partial then Inl (Panic ''Invalid SGL segment'') else sgl_entries partial ds True l)
      else sgl_entries partial ds found l)"

definition sgl_page :: "memory \<Rightarrow> u64 \<Rightarrow> nat \<Rightarrow> sgl_descriptor list" where
  "sgl_page mem a n = map (\<lambda>i. sgl_at mem (a + 16 * of_nat i)) [0..<n]"

text \<open>A segment whose length is no multiple of 16 is read past its buffer; a cycle of segments never ends.\<close>

fun parseSGLSegment :: "nat \<Rightarrow> memory \<Rightarrow> u64 \<Rightarrow> u32 \<Rightarrow> sgl \<Rightarrow> sgl res option" where
  "parseSGLSegment fuel mem a len l =
     (let ds = sgl_page mem a (unat len div 16) in
      case sgl_entries (unat len mod 16 \<noteq> 0) ds False l of
        Inl e \<Rightarrow> Some (Inl e)
      | Inr (l, found) \<Rightarrow>
          if found then
            (case fuel of
               0 \<Rightarrow> None
             | Suc fuel \<Rightarrow> parseSGLSegment fuel mem (sgAddress (last ds)) (sgLength (last ds)) l)
          else Some (Inr l))"

declare parseSGLSegment.simps [simp del]

text \<open>The flag tells whether the callback of the constructor is ever called.\<close>

definition SGL_new :: "nat \<Rightarrow> memory \<Rightarrow> u64 \<Rightarrow> u64 \<Rightarrow> (sgl \<times> bool) res option" where
  "SGL_new fuel mem prp1 prp2 =
     (let d = \<lparr>sgAddress = prp1, sgLength = ucast prp2, sgId = ucast (drop_bit 56 prp2)\<rparr> in
      if is_data (sgId d) then Some (ebind (parseSGLDescriptor d sgl_empty) (\<lambda>l. Inr (l, True)))
      else if is_segment (sgId d) then
        map_option (\<lambda>r. ebind r (\<lambda>l. Inr (l, True))) (parseSGLSegment fuel mem (sgAddress d) (sgLength d) sgl_empty)
      else Some (Inr (sgl_empty, False)))"

definition sgl_read :: "sgl \<Rightarrow> u64 \<Rightarrow> u64 \<Rightarrow> dma_op list" where
  "sgl_read l offs len = dma_ops (sgChunks l) offs len"

definition sgl_write :: "sgl \<Rightarrow> u64 \<Rightarrow> u64 \<Rightarrow> dma_op list" where
  "sgl_write l offs len = dma_ops (sgChunks l) offs len"

end
