(* ===== verification/NvmeQueue.thy ===== *)
theory NvmeQueue
  imports NvmeDma
begin

text \<open>
  The queues of the NVMe interface, \<^verbatim>\<open>src/hil/nvme/queue.cc\<close>: ring buffers in host memory, of which
  the drive fills the completion queues and empties the submission queues, and the status word of
  a completion. The memory of a queue is described by a PRP list.
\<close>

section \<open>Entries\<close>

text \<open>The bytes of a value, the lowest first.\<close>

definition le_bytes :: "nat \<Rightarrow> u64 \<Rightarrow> u8 list" where
  "le_bytes n w = map (\<lambda>i. ucast (drop_bit (8 * i) w)) [0..<n]"

record cq_entry =
  cqeDword0 :: u32
  cqeReserved :: u32
  cqeSqHead :: u16
  cqeSqID :: u16
  cqeCommandID :: u16
  cqeStatus :: u16

definition CQEntry_new :: cq_entry where
  "CQEntry_new = \<lparr>cqeDword0 = 0, cqeReserved = 0, cqeSqHead = 0, cqeSqID = 0, cqeCommandID = 0, cqeStatus = 0\<rparr>"

definition cq_bytes :: "cq_entry \<Rightarrow> u8 list" where
  "cq_bytes e = le_bytes 4 (ucast (cqeDword0 e)) @ le_bytes 4 (ucast (cqeReserved e)) @
     le_bytes 2 (ucast (cqeSqHead e)) @ le_bytes 2 (ucast (cqeSqID e)) @
     le_bytes 2 (ucast (cqeCommandID e)) @ le_bytes 2 (ucast (cqeStatus e))"

definition cq_decode :: "u8 list \<Rightarrow> cq_entry" where
  "cq_decode bs = \<lparr>cqeDword0 = ucast (le_value (take 4 bs)), cqeReserved = ucast (le_value (take 4 (drop 4 bs))),
     cqeSqHead = ucast (le_value (take 2 (drop 8 bs))), cqeSqID = ucast (le_value (take 2 (drop 10 bs))),
     cqeCommandID = ucast (le_value (take 2 (drop 12 bs))), cqeStatus = ucast (le_value (take 2 (drop 14 bs)))\<rparr>"

record sq_entry =
  sqeOpcode :: u8
  sqeFuse :: u8
  sqeCommandID :: u16
  sqeNamespaceID :: u32
  sqeReserved1 :: u32
  sqeReserved2 :: u32
  sqeMetadata :: u64
  sqeData1 :: u64
  sqeData2 :: u64
  sqeDword10 :: u32
  sqeDword11 :: u32
  sqeDword12 :: u32
  sqeDword13 :: u32
  sqeDword14 :: u32
  sqeDword15 :: u32

definition sq_decode :: "u8 list \<Rightarrow> sq_entry" where
  "sq_decode bs =
     (let v = (\<lambda>i n. le_value (take n (drop i bs))) in
      \<lparr>sqeOpcode = ucast (v 0 1), sqeFuse = ucast (v 1 1), sqeCommandID = ucast (v 2 2),
       sqeNamespaceID = ucast (v 4 4), sqeReserved1 = ucast (v 8 4), sqeReserved2 = ucast (v 12 4),
       sqeMetadata = v 16 8, sqeData1 = v 24 8, sqeData2 = v 32 8, sqeDword10 = ucast (v 40 4),
       sqeDword11 = ucast (v 44 4), sqeDword12 = ucast (v 48 4), sqeDword13 = ucast (v 52 4),
       sqeDword14 = ucast (v 56 4), sqeDword15 = ucast (v 60 4)\<rparr>)"

record sq_wrapper =
  sqwEntry :: sq_entry
  sqwSqID :: u16
  sqwCqID :: u16
  sqwSqHead :: u16
  sqwSqUID :: u16
  sqwUseSGL :: bool

definition SQEntryWrapper_new :: "sq_entry \<Rightarrow> u16 \<Rightarrow> u16 \<Rightarrow> u16 \<Rightarrow> u16 \<Rightarrow> sq_wrapper" where
  "SQEntryWrapper_new e sqid cqid sqhead squid =
     \<lparr>sqwEntry = e, sqwSqID = sqid, sqwCqID = cqid, sqwSqHead = sqhead, sqwSqUID = squid,
      sqwUseSGL = (drop_bit 6 (sqeFuse e) \<noteq> 0)\<rparr>"

record cq_wrapper =
  cqwEntry :: cq_entry
  cqwSubmitAt :: u64
  cqwCqID :: u16
  cqwSqUID :: u16

text \<open>The member \<open>submitAt\<close> is not initialised: it is the argument \<open>garbage\<close>.\<close>

definition CQEntryWrapper_new :: "u64 \<Rightarrow> sq_wrapper \<Rightarrow> cq_wrapper" where
  "CQEntryWrapper_new garbage w =
     \<lparr>cqwEntry = CQEntry_new\<lparr>cqeSqHead := sqwSqHead w, cqeSqID := sqwSqID w,
        cqeCommandID := sqeCommandID (sqwEntry w)\<rparr>,
      cqwSubmitAt = garbage, cqwCqID = sqwCqID w, cqwSqUID = sqwSqUID w\<rparr>"

text \<open>The status code type has three bits, the code eight; \<open>sct\<close> and \<open>sc\<close> are \<open>int\<close>s.\<close>

definition makeStatus :: "bool \<Rightarrow> bool \<Rightarrow> u32 \<Rightarrow> u32 \<Rightarrow> cq_wrapper \<Rightarrow> cq_wrapper" where
  "makeStatus dnr more' sct sc w =
     (let st = push_bit 15 (of_bool dnr) :: u16;
          st = st OR push_bit 14 (of_bool more');
          st = st OR ucast (push_bit 9 (sct AND 7));
          st = st OR ucast (push_bit 1 (sc AND 255))
      in w\<lparr>cqwEntry := (cqwEntry w)\<lparr>cqeStatus := st\<rparr>\<rparr>)"

section \<open>Queues\<close>

record queue =
  qId :: u16
  qHead :: u16
  qTail :: u16
  qSize :: u16
  qStride :: u64
  qBase :: "prp_list option"

definition Queue_new :: "u16 \<Rightarrow> u16 \<Rightarrow> queue" where
  "Queue_new qid len = \<lparr>qId = qid, qHead = 0, qTail = 0, qSize = len, qStride = 0, qBase = None\<rparr>"

definition getItemCount :: "queue \<Rightarrow> u16" where
  "getItemCount q = (if qHead q \<le> qTail q then qTail q - qHead q else (qSize q - qHead q) + qTail q)"

definition setBase :: "prp_list \<Rightarrow> u64 \<Rightarrow> queue \<Rightarrow> queue" where
  "setBase l s q = q\<lparr>qBase := Some l, qStride := s\<rparr>"

text \<open>The host accesses of a transfer, on memory and on a buffer.\<close>

definition dma_store :: "u8 list \<Rightarrow> dma_op list \<Rightarrow> memory \<Rightarrow> memory" where
  "dma_store data ops mem =
     foldl (\<lambda>m (a, n, b). foldl (\<lambda>m i. m(a + of_nat i := data ! (unat b + i))) m [0..<unat n]) mem ops"

definition dma_load :: "memory \<Rightarrow> dma_op list \<Rightarrow> u8 list \<Rightarrow> u8 list" where
  "dma_load mem ops buf =
     foldl (\<lambda>d (a, n, b). foldl (\<lambda>d i. d[unat b + i := mem (a + of_nat i)]) d [0..<unat n]) buf ops"

record cqueue =
  cqQueue :: queue
  cqIen :: bool
  cqPhase :: bool
  cqVector :: u16

definition CQueue_new :: "u16 \<Rightarrow> bool \<Rightarrow> u16 \<Rightarrow> u16 \<Rightarrow> cqueue" where
  "CQueue_new iv en qid len = \<lparr>cqQueue = Queue_new qid len, cqIen = en, cqPhase = True, cqVector = iv\<rparr>"

text \<open>The entry is written with the phase of the pass; the memory with it is part of the result.\<close>

definition tag_phase :: "bool \<Rightarrow> cq_entry \<Rightarrow> cq_entry" where
  "tag_phase ph e = e\<lparr>cqeStatus := (cqeStatus e AND 0xFFFE) OR (if ph then 1 else 0)\<rparr>"

definition step_tail :: "cqueue \<Rightarrow> cqueue" where
  "step_tail c =
     (let t = qTail (cqQueue c) + 1 in
      if t = qSize (cqQueue c) then c\<lparr>cqQueue := (cqQueue c)\<lparr>qTail := 0\<rparr>, cqPhase := \<not> cqPhase c\<rparr>
      else c\<lparr>cqQueue := (cqQueue c)\<lparr>qTail := t\<rparr>\<rparr>)"

definition cq_setData :: "cq_entry option \<Rightarrow> cqueue \<Rightarrow> memory \<Rightarrow> (cqueue \<times> memory) res" where
  "cq_setData entry c mem =
     (case entry of
        None \<Rightarrow> Inr (c, mem)
      | Some e \<Rightarrow>
          ebind (deref (qBase (cqQueue c))) (\<lambda>base.
            let q = cqQueue c;
                mem = dma_store (cq_bytes (tag_phase (cqPhase c) e))
                        (prp_write base (ucast (qTail q) * qStride q) 16) mem;
                c = step_tail c
            in if qHead (cqQueue c) = qTail (cqQueue c) then Inl (Panic ''Completion queue overflow'')
               else Inr (c, mem)))"

definition cq_incHead :: "cqueue \<Rightarrow> u16 \<times> cqueue" where
  "cq_incHead c =
     (let h = qHead (cqQueue c) + 1; h = (if h = qSize (cqQueue c) then 0 else h) in
      (h, c\<lparr>cqQueue := (cqQueue c)\<lparr>qHead := h\<rparr>\<rparr>))"

definition cq_setHead :: "u16 \<Rightarrow> cqueue \<Rightarrow> cqueue" where
  "cq_setHead h c = c\<lparr>cqQueue := (cqQueue c)\<lparr>qHead := h\<rparr>\<rparr>"

record squeue =
  sqQueue :: queue
  sqCQID :: u16
  sqPriority :: u8

definition SQueue_new :: "u16 \<Rightarrow> u8 \<Rightarrow> u16 \<Rightarrow> u16 \<Rightarrow> squeue" where
  "SQueue_new cqid pri qid len = \<lparr>sqQueue = Queue_new qid len, sqCQID = cqid, sqPriority = pri\<rparr>"

definition sq_setTail :: "u16 \<Rightarrow> squeue \<Rightarrow> squeue" where
  "sq_setTail t c = c\<lparr>sqQueue := (sqQueue c)\<lparr>qTail := t\<rparr>\<rparr>"

text \<open>The accesses of the read and the queue; \<open>None\<close> when there is nothing to read.\<close>

definition sq_getData :: "squeue \<Rightarrow> (dma_op list option \<times> squeue) res" where
  "sq_getData c =
     (let q = sqQueue c in
      if qHead q \<noteq> qTail q then
        ebind (deref (qBase q)) (\<lambda>base.
          let h = qHead q + 1; h = (if h = qSize q then 0 else h) in
          Inr (Some (prp_read base (ucast (qHead q) * qStride q) 64), c\<lparr>sqQueue := q\<lparr>qHead := h\<rparr>\<rparr>))
      else Inr (None, c))"

end
