(* ===== verification/NvmeDmaProps.thy ===== *)
theory NvmeDmaProps
  imports NvmeDma
begin

text \<open>
  Host transfers: cutting a transfer into accesses of pieces moves exactly the bytes that a flat
  view of the pieces assigns to it. Chains of PRP lists are parsed in bounded time, but the length
  of the pieces a chained list yields falls short by what the pointers would have covered.
\<close>

section \<open>The flat view\<close>

text \<open>The address of every byte of a list of pieces, \<open>None\<close> for the bytes of a bit bucket.\<close>

definition piece_bytes :: "piece \<Rightarrow> u64 option list" where
  "piece_bytes p = map (\<lambda>i. if pcIgnore p then None else Some (pcAddr p + of_nat i)) [0..<unat (pcSize p)]"

definition flat :: "piece list \<Rightarrow> u64 option list" where
  "flat ps = concat (map piece_bytes ps)"

lemma flat_simps [simp]: "flat [] = []" "flat (p # ps) = piece_bytes p @ flat ps"
  by (simp_all add: flat_def)

lemma length_piece_bytes [simp]: "length (piece_bytes p) = unat (pcSize p)"
  by (simp add: piece_bytes_def)

text \<open>The bytes moved: places in the buffer, from \<open>k\<close> on, with their addresses.\<close>

fun moves :: "nat \<Rightarrow> u64 option list \<Rightarrow> (nat \<times> u64) list" where
  "moves k [] = []"
| "moves k (None # xs) = moves (Suc k) xs"
| "moves k (Some a # xs) = (k, a) # moves (Suc k) xs"

definition op_moves :: "dma_op \<Rightarrow> (nat \<times> u64) list" where
  "op_moves = (\<lambda>(a, n, b). map (\<lambda>i. (unat b + i, a + of_nat i)) [0..<unat n])"

definition transfer :: "dma_op list \<Rightarrow> (nat \<times> u64) list" where
  "transfer ops = concat (map op_moves ops)"

lemma transfer_simps [simp]: "transfer [] = []" "transfer (x # ops) = op_moves x @ transfer ops"
  "transfer (ops @ ops') = transfer ops @ transfer ops'"
  by (simp_all add: transfer_def)

lemma moves_append: "moves k (xs @ ys) = moves k xs @ moves (k + length xs) ys"
  by (induction k xs rule: moves.induct) auto

lemma moves_ignored: "moves k (replicate n None) = []"
  by (induction n arbitrary: k) auto

lemma moves_run: "moves k (map (\<lambda>i. Some (a + of_nat i)) [0..<n]) = map (\<lambda>i. (k + i, a + of_nat i)) [0..<n]"
  by (induction n) (auto simp: moves_append)

text \<open>Part of a piece is one access.\<close>

lemma piece_part:
  assumes "s + n \<le> unat (pcSize p)"
  shows "take n (drop s (piece_bytes p)) =
    (if pcIgnore p then replicate n None else map (\<lambda>i. Some (pcAddr p + of_nat s + of_nat i)) [0..<n])"
  using assms by (auto simp: piece_bytes_def list_eq_iff_nth_eq algebra_simps)

lemma piece_moves:
  assumes "unat s + unat n \<le> unat (pcSize p)"
  shows "moves (unat b) (take (unat n) (drop (unat s) (piece_bytes p))) =
    transfer (if pcIgnore p then [] else [(pcAddr p + s, n, b)])"
  using piece_part [OF assms] by (simp add: moves_ignored moves_run op_moves_def)

lemma dma_loop_started:
  assumes "tot \<le> len"
  shows "transfer (dma_loop offs len ps True tot cur) = moves (unat tot) (take (unat len - unat tot) (flat ps))"
  using assms
proof (induction ps arbitrary: tot cur)
  case (Cons p ps)
  let ?n = "min (pcSize p) (len - tot)"
  have room: "unat (len - tot) = unat len - unat tot" using Cons.prems by (simp add: unat_sub word_le_nat_alt)
  have n: "unat ?n = min (unat (pcSize p)) (unat len - unat tot)" by (simp add: min_def word_le_nat_alt room)
  have sum: "unat (tot + ?n) = unat tot + unat ?n"
  proof -
    have "unat tot + unat ?n \<le> unat len" using n Cons.prems by (simp add: word_le_nat_alt)
    moreover have "unat len < 2 ^ 64" using unsigned_less [of len] by simp
    ultimately have "unat tot + unat ?n < 2 ^ 64" by simp
    then show ?thesis by (simp add: unat_plus_if')
  qed
  note part = piece_moves [of 0 ?n p tot]
  show ?case
  proof (cases "tot + ?n = len")
    case True
    then have "unat ?n = unat len - unat tot" using sum by auto
    with True part n show ?thesis by (simp add: Let_def)
  next
    case False
    then have "unat (tot + ?n) \<noteq> unat len" by (simp add: word_unat_eq_iff)
    then have full: "unat ?n = unat (pcSize p)" "unat tot + unat ?n < unat len"
      using sum n Cons.prems by (auto simp: min_def word_le_nat_alt split: if_splits)
    then have le: "tot + ?n \<le> len" using sum by (simp add: word_le_nat_alt)
    have "transfer (dma_loop offs len (p # ps) True tot cur) =
        moves (unat tot) (piece_bytes p) @ moves (unat tot + unat ?n) (take (unat len - (unat tot + unat ?n)) (flat ps))"
      using False part full Cons.IH [OF le] sum by (simp add: Let_def)
    also have "\<dots> = moves (unat tot) (take (unat len - unat tot) (flat (p # ps)))"
      using full by (simp add: moves_append diff_diff_add)
    finally show ?thesis .
  qed
qed simp

lemma dma_loop_search:
  assumes "unat cur + (\<Sum>p\<leftarrow>ps. unat (pcSize p)) < 2 ^ 64" and "cur \<le> offs"
  shows "transfer (dma_loop offs len ps False 0 cur) =
    moves 0 (take (unat len) (drop (unat offs - unat cur) (flat ps)))"
  using assms
proof (induction ps arbitrary: cur)
  case (Cons p ps)
  have sum: "unat (cur + pcSize p) = unat cur + unat (pcSize p)" using Cons.prems(1) by (simp add: unat_plus_if')
  let ?skip = "offs - cur" and ?n = "min (pcSize p - (offs - cur)) len"
  have skip: "unat ?skip = unat offs - unat cur" using Cons.prems(2) by (simp add: unat_sub word_le_nat_alt)
  show ?case
  proof (cases "offs < cur + pcSize p")
    case True
    then have in_piece: "unat ?skip < unat (pcSize p)"
      using sum skip Cons.prems(2) by (simp add: word_less_nat_alt word_le_nat_alt)
    then have "unat (pcSize p - ?skip) = unat (pcSize p) - unat ?skip" by (simp add: unat_sub word_le_nat_alt)
    then have n: "unat ?n = min (unat (pcSize p) - unat ?skip) (unat len)" by (simp add: min_def word_le_nat_alt)
    have part: "moves 0 (take (unat ?n) (drop (unat ?skip) (piece_bytes p))) =
        transfer (if pcIgnore p then [] else [(pcAddr p + ?skip, ?n, 0)])"
    proof -
      have "unat ?skip + unat ?n \<le> unat (pcSize p)" using in_piece n by simp
      from piece_moves [OF this, of 0] show ?thesis by simp
    qed
    have rest: "transfer (dma_loop offs len ps True ?n (cur + pcSize p)) =
        moves (unat ?n) (take (unat len - unat ?n) (flat ps))"
      by (rule dma_loop_started) (simp add: min_def)
    have cut: "take (unat len) (drop (unat offs - unat cur) (flat (p # ps))) =
        take (unat ?n) (drop (unat ?skip) (piece_bytes p)) @ take (unat len - unat ?n) (flat ps)"
      using in_piece n by (auto simp: skip min_def)
    have len: "length (take (unat ?n) (drop (unat ?skip) (piece_bytes p))) = unat ?n" using n in_piece by simp
    show ?thesis
      unfolding cut moves_append len part by (simp add: True Let_def rest)
  next
    case False
    then have le: "cur + pcSize p \<le> offs" by simp
    then have "unat (pcSize p) \<le> unat offs - unat cur" using sum by (simp add: word_le_nat_alt)
    then show ?thesis
      using Cons.IH [of "cur + pcSize p"] False le sum Cons.prems(1) by simp
  qed
qed simp

section \<open>PRP lists\<close>

text \<open>Page sizes are powers of two; an entry covers the rest of its page.\<close>

definition page_size_ok :: "u64 \<Rightarrow> bool" where
  "page_size_ok ps \<longleftrightarrow> (\<exists>k\<le>29. unat ps = 2 ^ (k + 3))"

lemma getPRPSize_eq:
  assumes "page_size_ok ps"
  shows "unat (getPRPSize ps a) = unat ps - unat a mod unat ps" and "0 < unat (getPRPSize ps a)"
    and "unat (getPRPSize ps a) \<le> unat ps"
proof -
  obtain k where k: "unat ps = 2 ^ (k + 3)" using assms by (auto simp: page_size_ok_def)
  have "ps = of_nat (2 ^ (k + 3))" by (metis k of_nat_unat ucast_id)
  then have ps: "ps = 2 ^ (k + 3)" by simp
  have "a AND (ps - 1) = take_bit (k + 3) a" by (simp add: ps mask_eq_exp_minus_1 [symmetric] take_bit_eq_mask)
  then have "unat (a AND (ps - 1)) = take_bit (k + 3) (unat a)" by (simp only: unsigned_take_bit_eq)
  also have "\<dots> = unat a mod unat ps" by (simp only: take_bit_eq_mod k)
  finally have r: "unat (a AND (ps - 1)) = unat a mod unat ps" .
  have less: "unat a mod unat ps < unat ps" using k by simp
  with r have "unat (getPRPSize ps a) = unat ps - unat a mod unat ps"
    by (simp add: getPRPSize_def unat_sub word_le_nat_alt)
  with less show "unat (getPRPSize ps a) = unat ps - unat a mod unat ps" "0 < unat (getPRPSize ps a)"
    "unat (getPRPSize ps a) \<le> unat ps" by simp_all
qed

lemma page_size_bounds:
  assumes "page_size_ok ps"
  shows "unat ps div 8 * unat ps < 2 ^ 64" and "unat ps mod 8 = 0"
proof -
  obtain k where k: "k \<le> 29" "unat ps = 2 ^ (k + 3)" using assms by (auto simp: page_size_ok_def)
  have p: "unat ps = 8 * 2 ^ k" by (simp add: k(2) power_add)
  have "unat ps div 8 * unat ps = 2 ^ k * 2 ^ (k + 3)" by (simp add: p power_add)
  also have "\<dots> = (2 :: nat) ^ (k + (k + 3))" by (simp only: power_add)
  also have "\<dots> < (2 :: nat) ^ 64" by (rule power_strict_increasing) (use k(1) in simp_all)
  finally show "unat ps div 8 * unat ps < 2 ^ 64" .
  show "unat ps mod 8 = 0" by (simp add: p)
qed

text \<open>What the loop over a list page yields.\<close>

lemma prp_entries_spec:
  assumes "page_size_ok ps" and "unat cur + length es * unat ps < 2 ^ 64"
    and "prp_entries ps tot partial es acc cur = Inr (acc', cur')" and "cur < tot"
  shows "\<exists>n\<le>length es. acc' = acc @ map (\<lambda>e. PRP_new e (getPRPSize ps e)) (take n es) \<and>
    unat cur' = unat cur + (\<Sum>e\<leftarrow>take n es. unat (getPRPSize ps e)) \<and>
    (tot \<le> cur' \<or> n = length es \<and> \<not> partial) \<and> (0 < n \<or> es = [])"
  using assms(2-4)
proof (induction es arbitrary: acc cur)
  case (Cons e es)
  let ?s = "getPRPSize ps e"
  have "unat cur + (unat ps + length es * unat ps) < 2 ^ 64" using Cons.prems(1) by simp
  then have bound: "unat cur + unat ?s + length es * unat ps < 2 ^ 64"
    using getPRPSize_eq(3) [OF assms(1), of e] by linarith
  then have sum: "unat (cur + ?s) = unat cur + unat ?s" by (simp add: unat_plus_if')
  show ?case
  proof (cases "tot \<le> cur + ?s")
    case True
    with Cons.prems(2) have r: "acc' = acc @ [PRP_new e ?s]" "cur' = cur + ?s"
      by (auto simp: Let_def split: if_splits)
    show ?thesis by (rule exI [of _ 1]) (use r sum True in simp)
  next
    case False
    have "prp_entries ps tot partial es (acc @ [PRP_new e ?s]) (cur + ?s) = Inr (acc', cur')"
      using Cons.prems(2) False by (auto simp: Let_def split: if_splits)
    moreover have "cur + ?s < tot" using False by simp
    moreover have "unat (cur + ?s) + length es * unat ps < 2 ^ 64" using bound sum by simp
    ultimately obtain n where
      "n \<le> length es" "acc' = (acc @ [PRP_new e ?s]) @ map (\<lambda>e. PRP_new e (getPRPSize ps e)) (take n es)"
      "unat cur' = unat (cur + ?s) + (\<Sum>e\<leftarrow>take n es. unat (getPRPSize ps e))"
      "tot \<le> cur' \<or> n = length es \<and> \<not> partial" using Cons.IH by blast
    then show ?thesis by (intro exI [of _ "Suc n"]) (simp add: sum)
  qed
qed (auto split: if_splits)

lemma list_page_bound:
  assumes "page_size_ok ps"
  shows "unat (0 :: u64) + length (prp_page mem base (unat (getPRPSize ps base) div 8)) * unat ps < 2 ^ 64"
proof -
  have "unat (getPRPSize ps base) div 8 \<le> unat ps div 8"
    using getPRPSize_eq(3) [OF assms] by (rule div_le_mono)
  then have "unat (getPRPSize ps base) div 8 * unat ps \<le> unat ps div 8 * unat ps" by (rule mult_le_mono1)
  from le_less_trans [OF this page_size_bounds(1) [OF assms]] show ?thesis by (simp add: prp_page_def)
qed

text \<open>Following a chain ends: every list page accounts for at least one byte.\<close>

lemma prp_list_ends:
  assumes "page_size_ok ps" and "unat tot \<le> fuel" and "0 < tot"
  shows "getPRPListFromPRP fuel mem ps base tot acc \<noteq> None"
  using assms(2,3)
proof (induction fuel arbitrary: base tot acc)
  case 0
  then show ?case by (simp add: word_less_nat_alt)
next
  case (Suc fuel)
  let ?b = "unat (getPRPSize ps base)"
  let ?es = "prp_page mem base (?b div 8)"
  note len = list_page_bound [OF assms(1), of mem base]
  show ?case
  proof (cases "prp_entries ps tot (?b mod 8 \<noteq> 0) ?es acc 0")
    case (Inl e)
    then show ?thesis by (subst getPRPListFromPRP.simps) (simp add: Let_def)
  next
    case (Inr x)
    obtain acc' cur where x: "x = (acc', cur)" by (cases x)
    from prp_entries_spec [OF assms(1) len Inr [unfolded x] Suc.prems(2)] obtain n where
      n: "unat cur = unat (0 :: u64) + (\<Sum>e\<leftarrow>take n ?es. unat (getPRPSize ps e))"
        "tot \<le> cur \<or> n = length ?es \<and> \<not> ?b mod 8 \<noteq> 0" by blast
    show ?thesis
    proof (cases "cur < tot")
      case True
      then have "?b mod 8 = 0" "n = length ?es" using n(2) by auto
      moreover have "0 < ?b" by (rule getPRPSize_eq(2) [OF assms(1)])
      ultimately have "?es \<noteq> []" by (auto simp: prp_page_def)
      then obtain e where e: "e \<in> set (take n ?es)" using \<open>n = length ?es\<close> by (cases ?es) auto
      then have "unat (getPRPSize ps e) \<le> unat cur" unfolding n(1) by (simp add: member_le_sum_list)
      then have "0 < unat cur" using getPRPSize_eq(2) [OF assms(1), of e] by linarith
      then have "unat (tot - cur) \<le> fuel" "0 < tot - cur"
        using True Suc.prems(1) by (auto simp: unat_sub word_le_nat_alt word_less_nat_alt)
      from Suc.IH [OF this] show ?thesis
        using Inr x by (subst getPRPListFromPRP.simps) (simp add: Let_def)
    next
      case False
      then show ?thesis using Inr x by (subst getPRPListFromPRP.simps) (simp add: Let_def)
    qed
  qed
qed

text \<open>A list on one page covers the transfer; a chained list does not: the bytes of the pointer are
  subtracted although they carry no data.\<close>

lemma unchained_list_covers:
  assumes "page_size_ok ps" and "getPRPListFromPRP 0 mem ps base tot [] = Some (Inr ps')" and "0 < tot"
  shows "unat tot \<le> (\<Sum>p\<leftarrow>ps'. unat (pcSize p))"
proof -
  let ?b = "unat (getPRPSize ps base)"
  let ?es = "prp_page mem base (?b div 8)"
  note len = list_page_bound [OF assms(1), of mem base]
  obtain cur where E: "prp_entries ps tot (?b mod 8 \<noteq> 0) ?es [] 0 = Inr (ps', cur)" "tot \<le> cur"
    using assms(2) by (subst (asm) getPRPListFromPRP.simps) (auto simp: Let_def split: sum.splits if_splits)
  from prp_entries_spec [OF assms(1) len E(1) assms(3)] obtain n where
    "ps' = [] @ map (\<lambda>e. PRP_new e (getPRPSize ps e)) (take n ?es)"
    "unat cur = unat (0 :: u64) + (\<Sum>e\<leftarrow>take n ?es. unat (getPRPSize ps e))" by blast
  then have "(\<Sum>p\<leftarrow>ps'. unat (pcSize p)) = unat cur" by (simp add: PRP_new_def o_def)
  with E(2) show ?thesis by (simp add: word_le_nat_alt)
qed

text \<open>Pages of 16 bytes hold two entries: three pages of data need two lists, the first of which has
  one entry and the pointer to the second.\<close>

definition sample_lists :: memory where
  "sample_lists = (\<lambda>a. if a = 257 then 2 else if a = 265 then 3 else if a = 769 then 4 else if a = 777 then 5 else 0)"

lemma chained_list_short:
  "getPRPListFromPRP 1 sample_lists 16 256 48 [] = Some (Inr [PRP_new 512 16, PRP_new 1024 16])"
proof -
  have es: "prp_page sample_lists 256 2 = [512, 768]" "prp_page sample_lists 768 2 = [1024, 1280]"
    by (simp_all add: prp_page_def mem_bytes_def sample_lists_def upt_rec)
  have sizes: "getPRPSize 16 256 = 16" "getPRPSize 16 512 = 16" "getPRPSize 16 768 = 16" "getPRPSize 16 1024 = 16"
    by (simp_all add: getPRPSize_def)
  show ?thesis
    by (subst getPRPListFromPRP.simps, simp add: sizes es Let_def PRP_new_def,
        subst getPRPListFromPRP.simps, simp add: sizes es Let_def PRP_new_def)
qed

section \<open>The claims\<close>

text \<open>C27. A transfer over PRP entries or a scatter-gather list, cut into one host access per piece, moves
  exactly the bytes of the flat view from the offset on, in order and each once, the bytes of a bit
  bucket skipped; what lies past the end of the pieces is silently left out.\<close>

theorem dma_moves_slice:
  assumes "(\<Sum>p\<leftarrow>ps. unat (pcSize p)) < 2 ^ 64"
  shows "transfer (dma_ops ps offs len) = moves 0 (take (unat len) (drop (unat offs) (flat ps)))"
  using dma_loop_search [of 0 ps offs len] assms by (simp add: dma_ops_def)

lemma dma_moves_slice_witness:
  "transfer (dma_ops [PRP_new 512 16, PRP_new 1024 16] 14 5) = [(0, 526), (1, 527), (2, 1024), (3, 1025), (4, 1026)]"
proof -
  have "transfer (dma_ops [PRP_new 512 16, PRP_new 1024 16] 14 5) =
      moves 0 (take 5 (drop 14 (flat [PRP_new 512 16, PRP_new 1024 16])))"
    using dma_moves_slice [of "[PRP_new 512 16, PRP_new 1024 16]" 14 5] by (simp add: PRP_new_def)
  also have "\<dots> = [(0, 526), (1, 527), (2, 1024), (3, 1025), (4, 1026)]"
    by (simp add: PRP_new_def piece_bytes_def upt_rec)
  finally show ?thesis .
qed

end
