(* ===== verification/NvmeQueueProps.thy ===== *)
theory NvmeQueueProps
  imports NvmeQueue NvmeDmaProps
begin

text \<open>
  Rings in host memory: the entries of a queue lie in slots that do not overlap, a slot keeps what was
  written to it, and an entry is read back as it was written. A completion queue is then a bounded
  first-in first-out channel from the drive to the host, which recognises new entries by their phase
  tag; a submission queue is one from the host to the drive.
\<close>

section \<open>Bytes of entries\<close>

lemma take_bit_split: "take_bit (m + n) (w :: u64) = take_bit m w + push_bit m (take_bit n (drop_bit m w))"
proof -
  have "take_bit (m + n) w = take_bit m w OR push_bit m (take_bit n (drop_bit m w))"
    by (rule bit_word_eqI) (auto simp: bit_simps)
  also have "\<dots> = take_bit m w + push_bit m (take_bit n (drop_bit m w))"
    by (rule disjunctive_add [symmetric]) (auto simp: bit_simps)
  finally show ?thesis .
qed

lemma le_bytes_Suc: "le_bytes (Suc n) w = ucast w # le_bytes n (drop_bit 8 w)"
  by (simp add: le_bytes_def map_upt_Suc del: upt_Suc) (simp add: drop_bit_drop_bit add.commute)

lemma length_le_bytes [simp]: "length (le_bytes n w) = n"
  by (simp add: le_bytes_def)

lemma le_value_bytes: "le_value (le_bytes n w) = take_bit (8 * n) w"
proof (induction n arbitrary: w)
  case (Suc n)
  have "ucast (ucast w :: u8) = take_bit 8 w" by (rule bit_word_eqI) (auto simp: bit_simps)
  then show ?case using take_bit_split [of 8 "8 * n" w] by (simp add: le_bytes_Suc Suc.IH)
qed (simp add: le_bytes_def)

lemma ucast_take_bit_u16: "ucast (take_bit 16 (ucast (x :: u16) :: u64)) = x"
  and ucast_take_bit_u32: "ucast (take_bit 32 (ucast (y :: u32) :: u64)) = y"
  by (rule bit_word_eqI, simp add: bit_simps; fail)+

lemma length_cq_bytes [simp]: "length (cq_bytes e) = 16"
  by (simp add: cq_bytes_def)

lemma cq_decode_bytes: "cq_decode (cq_bytes e) = e"
  by (simp add: cq_decode_def cq_bytes_def le_value_bytes ucast_take_bit_u16 ucast_take_bit_u32)

section \<open>Slots\<close>

text \<open>The host addresses of the memory of a queue, and of its slot \<open>k\<close>, whose entries have \<open>n\<close> bytes.\<close>

definition ring_addrs :: "queue \<Rightarrow> u64 option list" where
  "ring_addrs q = (case qBase q of None \<Rightarrow> [] | Some l \<Rightarrow> flat (prpPieces l))"

definition slot_addrs :: "nat \<Rightarrow> queue \<Rightarrow> nat \<Rightarrow> u64 option list" where
  "slot_addrs n q k = take n (drop (k * unat (qStride q)) (ring_addrs q))"

definition slot_bytes :: "nat \<Rightarrow> memory \<Rightarrow> queue \<Rightarrow> nat \<Rightarrow> u8 list" where
  "slot_bytes n mem q k = map (mem \<circ> the) (slot_addrs n q k)"

text \<open>The memory of a queue: real memory, no byte of it used twice, and enough of it.\<close>

definition ring_fits :: "nat \<Rightarrow> queue \<Rightarrow> bool" where
  "ring_fits n q \<longleftrightarrow>
     (case qBase q of None \<Rightarrow> False | Some l \<Rightarrow> (\<Sum>p\<leftarrow>prpPieces l. unat (pcSize p)) < 2 ^ 64) \<and>
     None \<notin> set (ring_addrs q) \<and> distinct (ring_addrs q) \<and> 0 < n \<and> n \<le> unat (qStride q) \<and> 2 \<le> unat (qSize q) \<and>
     unat (qSize q) * unat (qStride q) \<le> length (ring_addrs q)"

lemma length_flat: "length (flat ps) = (\<Sum>p\<leftarrow>ps. unat (pcSize p))"
  by (induction ps) auto

lemma slot_place:
  assumes "ring_fits n q" and "k < unat (qSize q)"
  shows "k * unat (qStride q) + n \<le> length (ring_addrs q)"
    and "unat (of_nat k * qStride q) = k * unat (qStride q)"
proof -
  have "(k + 1) * unat (qStride q) \<le> unat (qSize q) * unat (qStride q)"
    using assms(2) by (intro mult_le_mono1) simp
  then have "(k + 1) * unat (qStride q) \<le> length (ring_addrs q)"
    using assms(1) by (auto simp: ring_fits_def)
  then show le: "k * unat (qStride q) + n \<le> length (ring_addrs q)"
    using assms(1) by (auto simp: ring_fits_def)
  have "length (ring_addrs q) < 2 ^ 64"
    using assms(1) by (auto simp: ring_fits_def ring_addrs_def length_flat split: option.splits)
  with le have less: "k * unat (qStride q) < 2 ^ 64" by linarith
  have "of_nat k * qStride q = of_nat (k * unat (qStride q))" by simp
  then show "unat (of_nat k * qStride q) = k * unat (qStride q)" using less by (simp only: unat_of_nat) simp
qed

lemma slot_addrs_nth:
  assumes "ring_fits n q" and "k < unat (qSize q)"
  shows "length (slot_addrs n q k) = n"
    and "i < n \<Longrightarrow> slot_addrs n q k ! i = ring_addrs q ! (k * unat (qStride q) + i)"
  using slot_place(1) [OF assms] by (simp_all add: slot_addrs_def)

lemma slots_disjoint:
  assumes "ring_fits n q" and "k < unat (qSize q)" and "k' < unat (qSize q)" and "k \<noteq> k'"
  shows "set (slot_addrs n q k) \<inter> set (slot_addrs n q k') = {}"
proof -
  have "slot_addrs n q k ! i \<noteq> slot_addrs n q k' ! j" if "i < n" "j < n" for i j
  proof -
    let ?s = "unat (qStride q)"
    have "n \<le> ?s" using assms(1) by (simp add: ring_fits_def)
    have "k * ?s + i \<noteq> k' * ?s + j"
    proof
      assume eq: "k * ?s + i = k' * ?s + j"
      have "(k * ?s + i) div ?s = k" "(k' * ?s + j) div ?s = k'" using that \<open>n \<le> ?s\<close> by auto
      with eq assms(4) show False by simp
    qed
    moreover have "k * ?s + i < length (ring_addrs q)" "k' * ?s + j < length (ring_addrs q)"
      using slot_place(1) [OF assms(1,2)] slot_place(1) [OF assms(1,3)] that by linarith+
    moreover have "distinct (ring_addrs q)" using assms(1) by (simp add: ring_fits_def)
    ultimately show ?thesis
      using slot_addrs_nth(2) [OF assms(1,2) that(1)] slot_addrs_nth(2) [OF assms(1,3) that(2)]
      by (simp add: nth_eq_iff_index_eq)
  qed
  then show ?thesis
    using slot_addrs_nth(1) [OF assms(1,2)] slot_addrs_nth(1) [OF assms(1,3)]
    by (auto simp: in_set_conv_nth) metis
qed

lemma slot_addrs_real:
  assumes "ring_fits n q" shows "None \<notin> set (slot_addrs n q k)" and "distinct (slot_addrs n q k)"
  using assms by (auto simp: ring_fits_def slot_addrs_def dest: in_set_takeD in_set_dropD)

section \<open>Transfers of slots\<close>

lemma moves_real: "None \<notin> set xs \<Longrightarrow> moves k xs = zip [k..<k + length xs] (map the xs)"
proof (induction k xs rule: moves.induct)
  case (3 k a xs)
  then show ?case by (simp add: upt_conv_Cons del: upt_Suc)
qed auto

lemma slot_transfer:
  assumes "ring_fits n q" and "qBase q = Some l" and "k < unat (qSize q)" and "unat w = n"
  shows "transfer (dma_ops (prpPieces l) (of_nat k * qStride q) w) = zip [0..<n] (map the (slot_addrs n q k))"
proof -
  have a: "ring_addrs q = flat (prpPieces l)" by (simp add: ring_addrs_def assms(2))
  have "(\<Sum>p\<leftarrow>prpPieces l. unat (pcSize p)) < 2 ^ 64" using assms(1,2) by (simp add: ring_fits_def)
  then have "transfer (dma_ops (prpPieces l) (of_nat k * qStride q) w) = moves 0 (slot_addrs n q k)"
    unfolding dma_ops_def
    using dma_loop_search [of 0 "prpPieces l" "of_nat k * qStride q" w]
    by (simp add: slot_place(2) [OF assms(1,3)] assms(4) slot_addrs_def a)
  also have "\<dots> = zip [0..<n] (map the (slot_addrs n q k))"
    using moves_real [OF slot_addrs_real(1) [OF assms(1)], of 0 k] slot_addrs_nth(1) [OF assms(1,3)] by simp
  finally show ?thesis .
qed

lemma foldl_concat_map: "foldl (\<lambda>m x. foldl g m (h x)) m xs = foldl g m (concat (map h xs))"
  by (induction xs arbitrary: m) auto

lemma dma_store_transfer: "dma_store data ops mem = foldl (\<lambda>m (i, a). m(a := data ! i)) mem (transfer ops)"
proof -
  have "dma_store data ops mem = foldl (\<lambda>m x. foldl (\<lambda>m (i, a). m(a := data ! i)) m (op_moves x)) mem ops"
    by (simp add: dma_store_def op_moves_def foldl_map case_prod_unfold)
  then show ?thesis by (simp add: foldl_concat_map transfer_def)
qed

lemma dma_load_transfer: "dma_load mem ops buf = foldl (\<lambda>d (i, a). d[i := mem a]) buf (transfer ops)"
proof -
  have "dma_load mem ops buf = foldl (\<lambda>d x. foldl (\<lambda>d (i, a). d[i := mem a]) d (op_moves x)) buf ops"
    by (simp add: dma_load_def op_moves_def foldl_map case_prod_unfold)
  then show ?thesis by (simp add: foldl_concat_map transfer_def)
qed

lemma store_frame:
  assumes "b \<notin> set as"
  shows "foldl (\<lambda>m (i, a). m(a := data ! i)) mem (zip is as) b = mem b"
  using assms
proof (induction "is" as arbitrary: mem rule: list_induct2')
  case (4 i "is" a as)
  then show ?case by simp
qed auto

lemma store_all:
  assumes "distinct as" and "length is = length as"
  shows "map (foldl (\<lambda>m (i, a). m(a := data ! i)) mem (zip is as)) as = map ((!) data) is"
  using assms(2,1)
proof (induction "is" as arbitrary: mem rule: list_induct2)
  case (Cons i "is" a as)
  then show ?case by (simp add: store_frame del: fun_upd_apply) simp
qed simp

lemma load_run:
  assumes "k + length as \<le> length d"
  shows "foldl (\<lambda>d (i, a). d[i := mem a]) d (zip [k..<k + length as] as) =
    take k d @ map mem as @ drop (k + length as) d"
  using assms
proof (induction as arbitrary: k d)
  case (Cons a as)
  have "foldl (\<lambda>d (i, a). d[i := mem a]) d (zip [k..<k + length (a # as)] (a # as)) =
      foldl (\<lambda>d (i, a). d[i := mem a]) (d[k := mem a]) (zip [Suc k..<Suc k + length as] as)"
    by (simp add: upt_conv_Cons del: upt_Suc)
  also have "\<dots> = take (Suc k) (d[k := mem a]) @ map mem as @ drop (Suc k + length as) (d[k := mem a])"
    by (rule Cons.IH) (use Cons.prems in simp)
  also have "\<dots> = take k d @ map mem (a # as) @ drop (k + length (a # as)) d"
    using Cons.prems by (simp add: take_Suc_conv_app_nth)
  finally show ?case .
qed simp

lemma write_slot:
  fixes mem :: memory
  assumes "ring_fits n q" and "qBase q = Some l" and "k < unat (qSize q)" and "unat w = n" and "length data = n"
    and "mem' = dma_store data (prp_write l (of_nat k * qStride q) w) mem"
  shows "slot_bytes n mem' q k = data"
    and "k' < unat (qSize q) \<Longrightarrow> k' \<noteq> k \<Longrightarrow> slot_bytes n mem' q k' = slot_bytes n mem q k'"
proof -
  let ?as = "map the (slot_addrs n q k)"
  have real: "inj_on the (set (ring_addrs q))"
    using assms(1) by (auto simp: ring_fits_def intro!: inj_onI) (metis option.expand)
  have sub: "set (slot_addrs n q k'') \<subseteq> set (ring_addrs q)" for k''
    by (auto simp: slot_addrs_def dest: in_set_takeD in_set_dropD)
  have d: "distinct ?as"
    using slot_addrs_real(2) [OF assms(1)] inj_on_subset [OF real sub] by (simp add: distinct_map)
  have len: "length ?as = n" using slot_addrs_nth(1) [OF assms(1,3)] by simp
  have mem': "mem' = foldl (\<lambda>m (i, a). m(a := data ! i)) mem (zip [0..<n] ?as)"
    unfolding assms(6) prp_write_def dma_store_transfer slot_transfer [OF assms(1-4)] ..
  have "slot_bytes n mem' q k = map mem' ?as" by (simp add: slot_bytes_def)
  also have "\<dots> = map ((!) data) [0..<n]" unfolding mem' by (rule store_all [OF d]) (use len in simp)
  also have "\<dots> = data" using assms(5) map_nth [of data] by simp
  finally show "slot_bytes n mem' q k = data" .
  assume k': "k' < unat (qSize q)" "k' \<noteq> k"
  show "slot_bytes n mem' q k' = slot_bytes n mem q k'"
    unfolding slot_bytes_def
  proof (rule map_cong [OF refl], unfold o_apply mem', rule store_frame)
    fix x assume x: "x \<in> set (slot_addrs n q k')"
    show "the x \<notin> set ?as"
    proof
      assume "the x \<in> set ?as"
      then obtain y where y: "y \<in> set (slot_addrs n q k)" "the x = the y" by auto
      have "x = y" by (rule inj_onD [OF real y(2)]) (use x y sub in blast)+
      then show False using x y slots_disjoint [OF assms(1) k'(1) assms(3) k'(2)] by auto
    qed
  qed
qed

lemma read_slot:
  assumes "ring_fits n q" and "qBase q = Some l" and "k < unat (qSize q)" and "unat w = n" and "length buf = n"
  shows "dma_load mem (prp_read l (of_nat k * qStride q) w) buf = slot_bytes n mem q k"
proof -
  have len: "length (slot_addrs n q k) = n" by (rule slot_addrs_nth(1) [OF assms(1,3)])
  have "dma_load mem (prp_read l (of_nat k * qStride q) w) buf =
      foldl (\<lambda>d (i, a). d[i := mem a]) buf (zip [0..<0 + length (map the (slot_addrs n q k))] (map the (slot_addrs n q k)))"
    unfolding prp_read_def dma_load_transfer slot_transfer [OF assms(1-4)] by (simp add: len)
  also have "\<dots> = slot_bytes n mem q k"
    by (subst load_run) (use len assms(5) in \<open>simp_all add: slot_bytes_def\<close>)
  finally show ?thesis .
qed

section \<open>Rings\<close>

text \<open>Slots that can be written one by one, as far as the ring \<open>q\<close> is in order.\<close>

locale slot_store =
  fixes ok :: "'q \<Rightarrow> bool" and cap :: "'q \<Rightarrow> nat" and valid :: "'e \<Rightarrow> bool"
    and rd :: "'q \<Rightarrow> 'm \<Rightarrow> nat \<Rightarrow> 'e" and wr :: "'q \<Rightarrow> nat \<Rightarrow> 'e \<Rightarrow> 'm \<Rightarrow> 'm"
  assumes cap_pos: "ok q \<Longrightarrow> 0 < cap q"
    and rd_same: "ok q \<Longrightarrow> k < cap q \<Longrightarrow> valid x \<Longrightarrow> rd q (wr q k x m) k = x"
    and rd_other: "ok q \<Longrightarrow> k < cap q \<Longrightarrow> valid x \<Longrightarrow> j < cap q \<Longrightarrow> j \<noteq> k \<Longrightarrow> rd q (wr q k x m) j = rd q m j"

text \<open>The slots hold the last \<open>n\<close> of \<open>m\<close> entries, entry \<open>j\<close> in slot \<open>j mod n\<close>.\<close>

definition window :: "(nat \<Rightarrow> 'e) \<Rightarrow> nat \<Rightarrow> (nat \<Rightarrow> 'e) \<Rightarrow> nat \<Rightarrow> bool" where
  "window slots n f m \<longleftrightarrow> (\<forall>j<m. m \<le> j + n \<longrightarrow> slots (j mod n) = f j)"

lemma window_get: "window slots n f m \<Longrightarrow> j < m \<Longrightarrow> m \<le> j + n \<Longrightarrow> slots (j mod n) = f j"
  by (simp add: window_def)

lemma window_cong: "(\<And>j. j < m \<Longrightarrow> f j = g j) \<Longrightarrow> window slots n f m = window slots n g m"
  by (simp add: window_def)

lemma mod_near:
  fixes a b n :: nat
  assumes "a < b" and "b < a + n" shows "a mod n \<noteq> b mod n"
proof
  assume "a mod n = b mod n"
  then have "n dvd b - a" using assms(1) mod_eq_dvd_iff_nat [of a b n] by simp
  then have "n \<le> b - a" using assms(1) by (simp add: dvd_imp_le)
  then show False using assms by simp
qed

context slot_store begin

lemma window_put:
  assumes "ok q" and "window (rd q m) (cap q) f k" and "valid (f k)"
  shows "window (rd q (wr q (k mod cap q) (f k) m)) (cap q) f (Suc k)"
  unfolding window_def
proof (intro allI impI)
  fix j assume j: "j < Suc k" "Suc k \<le> j + cap q"
  have c: "0 < cap q" by (rule cap_pos [OF assms(1)])
  show "rd q (wr q (k mod cap q) (f k) m) (j mod cap q) = f j"
  proof (cases "j = k")
    case True
    then show ?thesis using rd_same [OF assms(1) _ assms(3)] c by simp
  next
    case False
    then have "j mod cap q \<noteq> k mod cap q" using j by (intro mod_near) auto
    then have "rd q (wr q (k mod cap q) (f k) m) (j mod cap q) = rd q m (j mod cap q)"
      using c by (intro rd_other [OF assms(1) _ assms(3)]) auto
    also have "\<dots> = f j" by (rule window_get [OF assms(2)]) (use j False in auto)
    finally show ?thesis .
  qed
qed

text \<open>A slot the ring has not reached yet keeps its content.\<close>

lemma unused_put:
  assumes "ok q" and "valid x" and "k < j" and "j < cap q"
  shows "rd q (wr q (k mod cap q) x m) j = rd q m j"
  using assms by (intro rd_other) auto

end

text \<open>The slots of a queue in host memory, with entries of \<open>n\<close> bytes.\<close>

definition slot_write :: "nat \<Rightarrow> queue \<Rightarrow> nat \<Rightarrow> u8 list \<Rightarrow> memory \<Rightarrow> memory" where
  "slot_write n q k data mem =
     dma_store data (prp_write (the (qBase q)) (of_nat k * qStride q) (of_nat n)) mem"

definition ring_slots :: "nat \<Rightarrow> queue \<Rightarrow> memory \<Rightarrow> nat \<Rightarrow> u8 list" where
  "ring_slots n q mem k = slot_bytes n mem q k"

lemma ring_fits_base: "ring_fits n q \<Longrightarrow> qBase q = Some (the (qBase q))"
  by (auto simp: ring_fits_def split: option.splits)

lemma slot_store_ring:
  assumes "n < 2 ^ 64"
  shows "slot_store (ring_fits n) (\<lambda>q. unat (qSize q)) (\<lambda>bs. length bs = n) (ring_slots n) (slot_write n)"
proof
  have n: "unat (of_nat n :: u64) = n" using assms by (simp add: unat_of_nat)
  fix q k and x :: "u8 list" and m :: memory and j
  assume q: "ring_fits n q"
  then show "0 < unat (qSize q)" by (simp add: ring_fits_def)
  assume k: "k < unat (qSize q)" "length x = n"
  note w = write_slot [OF q ring_fits_base [OF q] k(1) n k(2) slot_write_def]
  show "ring_slots n q (slot_write n q k x m) k = x" unfolding ring_slots_def by (rule w(1))
  assume "j < unat (qSize q)" "j \<noteq> k"
  then show "ring_slots n q (slot_write n q k x m) j = ring_slots n q m j" unfolding ring_slots_def by (rule w(2))
qed

interpretation cq_slots: slot_store "ring_fits 16" "\<lambda>q. unat (qSize q)" "\<lambda>bs. length bs = 16" "ring_slots 16" "slot_write 16"
  by (rule slot_store_ring) simp

interpretation sq_slots: slot_store "ring_fits 64" "\<lambda>q. unat (qSize q)" "\<lambda>bs. length bs = 64" "ring_slots 64" "slot_write 64"
  by (rule slot_store_ring) simp

text \<open>Only the place of the memory matters, not the pointers.\<close>

lemma ring_pointers [simp]:
  "ring_fits n (q\<lparr>qHead := h\<rparr>) = ring_fits n q" "ring_fits n (q\<lparr>qTail := t\<rparr>) = ring_fits n q"
  "ring_slots n (q\<lparr>qHead := h\<rparr>) = ring_slots n q" "ring_slots n (q\<lparr>qTail := t\<rparr>) = ring_slots n q"
  "slot_write n (q\<lparr>qHead := h\<rparr>) = slot_write n q" "slot_write n (q\<lparr>qTail := t\<rparr>) = slot_write n q"
  by (simp_all add: ring_fits_def ring_addrs_def ring_slots_def slot_bytes_def slot_addrs_def slot_write_def fun_eq_iff)

text \<open>The pointers of a ring count entries modulo its size.\<close>

definition next_slot :: "u16 \<Rightarrow> u16 \<Rightarrow> u16" where
  "next_slot sz i = (if i + 1 = sz then 0 else i + 1)"

lemma next_slot_mod:
  assumes "unat i = k mod unat sz" and "2 \<le> unat sz"
  shows "unat (next_slot sz i) = Suc k mod unat sz" and "i + 1 = sz \<longleftrightarrow> Suc k mod unat sz = 0"
proof -
  have "k mod unat sz < unat sz" using assms(2) by simp
  moreover have "unat sz < 2 ^ 16" using unsigned_less [of sz] by simp
  ultimately have "unat (i + 1) = Suc (k mod unat sz)" using assms(1) by (simp add: unat_plus_if')
  then show eq: "i + 1 = sz \<longleftrightarrow> Suc k mod unat sz = 0"
    using assms(2) by (simp add: word_unat_eq_iff mod_Suc)
  show "unat (next_slot sz i) = Suc k mod unat sz"
    using \<open>unat (i + 1) = Suc (k mod unat sz)\<close> eq by (auto simp: next_slot_def mod_Suc word_unat_eq_iff split: if_splits)
qed

lemma div_Suc_lap:
  fixes k n :: nat
  assumes "0 < n"
  shows "Suc k div n = (if Suc k mod n = 0 then Suc (k div n) else k div n)"
  using assms by (simp add: div_Suc)

section \<open>The completion channel\<close>

text \<open>
  A run of the drive and the host on one completion queue. The host keeps its own head and expected
  phase; it takes the entry at its head when the tag is as expected, and tells the drive its head by
  the doorbell, at any time. \<open>crSent\<close> and \<open>crGot\<close> are the entries written and taken, \<open>crAcked\<close> the
  number taken at the last doorbell.
\<close>

record cq_run =
  crQueue :: cqueue
  crMem :: memory
  crSent :: "cq_entry list"
  crGot :: "cq_entry list"
  crHead :: u16
  crPhase :: bool
  crAcked :: nat

abbreviation cr_size :: "cq_run \<Rightarrow> u16" where
  "cr_size s \<equiv> qSize (cqQueue (crQueue s))"

definition phase_of :: "cq_entry \<Rightarrow> bool" where
  "phase_of e = bit (cqeStatus e) 0"

definition untag :: "cq_entry \<Rightarrow> cq_entry" where
  "untag e = e\<lparr>cqeStatus := cqeStatus e AND 0xFFFE\<rparr>"

definition cq_entry_at :: "queue \<Rightarrow> memory \<Rightarrow> nat \<Rightarrow> cq_entry" where
  "cq_entry_at q mem k = cq_decode (ring_slots 16 q mem k)"

definition host_poll :: "cq_run \<Rightarrow> cq_run option" where
  "host_poll s =
     (let e = cq_entry_at (cqQueue (crQueue s)) (crMem s) (unat (crHead s)) in
      if phase_of e = crPhase s
      then Some (s\<lparr>crGot := crGot s @ [e], crHead := next_slot (cr_size s) (crHead s),
                   crPhase := (crPhase s \<noteq> (crHead s + 1 = cr_size s))\<rparr>)
      else None)"

definition host_bell :: "cq_run \<Rightarrow> cq_run" where
  "host_bell s = s\<lparr>crQueue := cq_setHead (crHead s) (crQueue s), crAcked := length (crGot s)\<rparr>"

inductive cq_reach :: "cq_run \<Rightarrow> bool" where
  fresh: "\<lbrakk> ring_fits 16 (setBase l st (Queue_new qid sz));
     \<forall>k < unat sz. \<not> phase_of (cq_entry_at (setBase l st (Queue_new qid sz)) mem k) \<rbrakk> \<Longrightarrow>
   cq_reach \<lparr>crQueue = (CQueue_new iv en qid sz)\<lparr>cqQueue := setBase l st (Queue_new qid sz)\<rparr>, crMem = mem,
     crSent = [], crGot = [], crHead = 0, crPhase = True, crAcked = 0\<rparr>"
| send: "\<lbrakk> cq_reach s; cq_setData (Some e) (crQueue s) (crMem s) = Inr (c, mem) \<rbrakk> \<Longrightarrow>
   cq_reach (s\<lparr>crQueue := c, crMem := mem, crSent := crSent s @ [e]\<rparr>)"
| poll: "\<lbrakk> cq_reach s; host_poll s = Some t \<rbrakk> \<Longrightarrow> cq_reach t"
| bell: "cq_reach s \<Longrightarrow> cq_reach (host_bell s)"

text \<open>What the memory holds in terms of the entries sent: entry \<open>j\<close> tagged with the parity of its pass.\<close>

definition tagged :: "nat \<Rightarrow> cq_entry list \<Rightarrow> nat \<Rightarrow> cq_entry" where
  "tagged n es j = tag_phase (even (j div n)) (es ! j)"

definition cq_inv :: "cq_run \<Rightarrow> bool" where
  "cq_inv s \<longleftrightarrow>
     (let q = cqQueue (crQueue s); n = unat (qSize q); m = length (crSent s); g = length (crGot s) in
      ring_fits 16 q \<and> crAcked s \<le> g \<and> g \<le> m \<and> m < crAcked s + n \<and>
      unat (qTail q) = m mod n \<and> unat (qHead q) = crAcked s mod n \<and> unat (crHead s) = g mod n \<and>
      cqPhase (crQueue s) = even (m div n) \<and> crPhase s = even (g div n) \<and>
      window (ring_slots 16 q (crMem s)) n (\<lambda>j. cq_bytes (tagged n (crSent s) j)) m \<and>
      (\<forall>k<n. m \<le> k \<longrightarrow> \<not> phase_of (cq_entry_at q (crMem s) k)) \<and>
      crGot s = map (tagged n (crSent s)) [0..<g])"

lemma phase_of_tag [simp]: "phase_of (tag_phase ph e) = ph"
  by (simp add: phase_of_def tag_phase_def bit_simps)

lemma untag_tag [simp]: "untag (tag_phase ph e) = untag e"
proof -
  have "((w AND 0xFFFE) OR b) AND 0xFFFE = w AND 0xFFFE" if "b AND 0xFFFE = 0" for w b :: u16
    using that by (simp add: bit.conj_disj_distrib2 and.assoc)
  then show ?thesis by (simp add: untag_def tag_phase_def)
qed

lemma host_head_phase:
  assumes "cq_inv s"
  shows "phase_of (cq_entry_at (cqQueue (crQueue s)) (crMem s) (unat (crHead s))) = crPhase s \<longleftrightarrow>
      length (crGot s) < length (crSent s)"
    and "length (crGot s) < length (crSent s) \<Longrightarrow>
      cq_entry_at (cqQueue (crQueue s)) (crMem s) (unat (crHead s)) = tagged (unat (cr_size s)) (crSent s) (length (crGot s))"
proof -
  define q n m g where defs: "q = cqQueue (crQueue s)" "n = unat (qSize q)" "m = length (crSent s)" "g = length (crGot s)"
  note inv = assms [unfolded cq_inv_def Let_def, folded defs]
  have n: "2 \<le> n" using inv by (simp add: ring_fits_def defs)
  have at: "cq_entry_at q (crMem s) (j mod n) = tagged n (crSent s) j" if "j < m" "m \<le> j + n" for j
  proof -
    have "window (ring_slots 16 q (crMem s)) n (\<lambda>j. cq_bytes (tagged n (crSent s) j)) m" using inv by blast
    from window_get [OF this that] show ?thesis by (simp add: cq_entry_at_def cq_decode_bytes)
  qed
  have here: "cq_entry_at q (crMem s) (g mod n) = tagged n (crSent s) g" if "g < m" using at [OF that] inv by simp
  then show "length (crGot s) < length (crSent s) \<Longrightarrow>
      cq_entry_at (cqQueue (crQueue s)) (crMem s) (unat (crHead s)) = tagged (unat (cr_size s)) (crSent s) (length (crGot s))"
    using inv by (simp flip: defs)
  have "phase_of (cq_entry_at q (crMem s) (m mod n)) \<noteq> even (m div n)"
  proof (cases "m < n")
    case True
    then show ?thesis using inv by simp
  next
    case False
    then have "m mod n = (m - n) mod n" "m div n = Suc ((m - n) div n)" using n by (simp_all add: le_mod_geq le_div_geq)
    then show ?thesis using at [of "m - n"] False n by (simp add: tagged_def flip: defs)
  qed
  moreover have "phase_of (cq_entry_at q (crMem s) (g mod n)) = even (g div n)" if "g < m"
    using here [OF that] by (simp add: tagged_def flip: defs)
  ultimately show "phase_of (cq_entry_at (cqQueue (crQueue s)) (crMem s) (unat (crHead s))) = crPhase s \<longleftrightarrow>
      length (crGot s) < length (crSent s)"
    using inv by (cases "g = m") (auto simp flip: defs)
qed

lemma cq_setData_eq:
  assumes "ring_fits 16 (cqQueue c)"
  shows "cq_setData (Some e) c mem =
    (if next_slot (qSize (cqQueue c)) (qTail (cqQueue c)) = qHead (cqQueue c)
     then Inl (Panic ''Completion queue overflow'')
     else Inr (c\<lparr>cqQueue := (cqQueue c)\<lparr>qTail := next_slot (qSize (cqQueue c)) (qTail (cqQueue c))\<rparr>,
                 cqPhase := (cqPhase c \<noteq> (qTail (cqQueue c) + 1 = qSize (cqQueue c)))\<rparr>,
               slot_write 16 (cqQueue c) (unat (qTail (cqQueue c))) (cq_bytes (tag_phase (cqPhase c) e)) mem))"
proof -
  obtain l where l: "qBase (cqQueue c) = Some l" using ring_fits_base [OF assms] by blast
  show ?thesis
    by (cases "qTail (cqQueue c) + 1 = qSize (cqQueue c)")
      (auto simp: cq_setData_def l deref_def Let_def step_tail_def next_slot_def slot_write_def)
qed

lemma cq_start_inv:
  assumes "ring_fits 16 (setBase l st (Queue_new qid sz))"
    and "\<forall>k < unat sz. \<not> phase_of (cq_entry_at (setBase l st (Queue_new qid sz)) mem k)"
  shows "cq_inv \<lparr>crQueue = (CQueue_new iv en qid sz)\<lparr>cqQueue := setBase l st (Queue_new qid sz)\<rparr>, crMem = mem,
     crSent = [], crGot = [], crHead = 0, crPhase = True, crAcked = 0\<rparr>"
  using assms by (auto simp: cq_inv_def Let_def CQueue_new_def setBase_def Queue_new_def window_def ring_fits_def)

lemma cq_send_inv:
  assumes "cq_inv s" and "cq_setData (Some e) (crQueue s) (crMem s) = Inr (c, mem)"
  shows "cq_inv (s\<lparr>crQueue := c, crMem := mem, crSent := crSent s @ [e]\<rparr>)"
proof -
  define q n m where defs: "q = cqQueue (crQueue s)" "n = unat (qSize q)" "m = length (crSent s)"
  let ?es = "crSent s @ [e]"
  note inv = assms(1) [unfolded cq_inv_def Let_def, folded defs]
  have fits: "ring_fits 16 q" using inv by blast
  then have n: "2 \<le> n" by (simp add: ring_fits_def defs)
  have tail: "unat (qTail q) = m mod n" using inv by blast
  note step = next_slot_mod [OF tail [unfolded defs(2)] n [unfolded defs(2)], folded defs(2)]
  from assms(2) have c: "c = (crQueue s)\<lparr>cqQueue := q\<lparr>qTail := next_slot (qSize q) (qTail q)\<rparr>,
        cqPhase := (cqPhase (crQueue s) \<noteq> (qTail q + 1 = qSize q))\<rparr>"
      and mem: "mem = slot_write 16 q (m mod n) (cq_bytes (tag_phase (cqPhase (crQueue s)) e)) (crMem s)"
      and room: "next_slot (qSize q) (qTail q) \<noteq> qHead q"
    using fits tail by (auto simp: cq_setData_eq simp flip: defs(1) split: if_splits)
  have tag: "tagged n ?es j = (if j < m then tagged n (crSent s) j else tag_phase (even (j div n)) e)" if "j \<le> m" for j
    using that by (auto simp: tagged_def nth_append defs)
  define f where "f = (\<lambda>j. cq_bytes (tagged n ?es j))"
  have "window (ring_slots 16 q (crMem s)) n (\<lambda>j. cq_bytes (tagged n (crSent s) j)) m" using inv by blast
  then have w: "window (ring_slots 16 q (crMem s)) n f m"
    by (subst window_cong [where g = "\<lambda>j. cq_bytes (tagged n (crSent s) j)"]) (simp_all add: f_def tag)
  have last: "f m = cq_bytes (tag_phase (cqPhase (crQueue s)) e)" using inv by (simp add: f_def tag)
  have "window (ring_slots 16 q (slot_write 16 q (m mod n) (f m) (crMem s))) n f (Suc m)"
    unfolding defs(2) by (rule cq_slots.window_put [OF fits w [unfolded defs(2)]]) (simp add: last)
  then have "window (ring_slots 16 q mem) n f (Suc m)" by (simp only: mem last)
  moreover have "\<not> phase_of (cq_entry_at q mem k)" if "k < n" "Suc m \<le> k" for k
    using that inv cq_slots.unused_put [OF fits, of _ m k "crMem s"]
    by (simp add: mem cq_entry_at_def flip: defs(2))
  moreover have "Suc m < crAcked s + n"
  proof -
    have "Suc m \<noteq> crAcked s + n"
      using room step(1) inv n by (auto simp: word_unat_eq_iff)
    then show ?thesis using inv by simp
  qed
  moreover have "map (tagged n ?es) [0..<length (crGot s)] = map (tagged n (crSent s)) [0..<length (crGot s)]"
    using inv by (intro map_cong) (auto simp: tag)
  ultimately show ?thesis
    using inv fits step n div_Suc_lap [of n m]
    unfolding cq_inv_def Let_def by (simp add: c cq_entry_at_def flip: defs f_def)
qed

lemma cq_poll_inv:
  assumes "cq_inv s" and "host_poll s = Some t"
  shows "cq_inv t"
proof -
  define q n g where defs: "q = cqQueue (crQueue s)" "n = unat (qSize q)" "g = length (crGot s)"
  note inv = assms(1) [unfolded cq_inv_def Let_def, folded defs]
  have n: "2 \<le> n" using inv by (simp add: ring_fits_def defs)
  have head: "unat (crHead s) = g mod n" using inv by blast
  note step = next_slot_mod [OF head [unfolded defs(2)] n [unfolded defs(2)], folded defs(2)]
  from assms(2) have new: "g < length (crSent s)"
    and t: "t = s\<lparr>crGot := crGot s @ [tagged n (crSent s) g], crHead := next_slot (qSize q) (crHead s),
                  crPhase := (crPhase s \<noteq> (crHead s + 1 = qSize q))\<rparr>"
    using host_head_phase [OF assms(1)] by (auto simp: host_poll_def Let_def simp flip: defs split: if_splits)
  show ?thesis
    using inv new step n div_Suc_lap [of n g]
    unfolding cq_inv_def Let_def by (simp add: t flip: defs)
qed

lemma cq_reach_inv: "cq_reach s \<Longrightarrow> cq_inv s"
proof (induction rule: cq_reach.induct)
  case (fresh l st qid sz mem iv en)
  then show ?case by (rule cq_start_inv)
next
  case (send s e c mem)
  from cq_send_inv [OF send.IH send.hyps(2)] show ?case .
next
  case (poll s t)
  from cq_poll_inv [OF poll.IH poll.hyps(2)] show ?case .
next
  case (bell s)
  then show ?case
    unfolding cq_inv_def Let_def by (simp add: host_bell_def cq_setHead_def cq_entry_at_def) 
qed

lemma item_count:
  fixes q :: queue
  assumes "unat (qTail q) = m mod unat (qSize q)" and "unat (qHead q) = a mod unat (qSize q)"
    and "a \<le> m" and "m < a + unat (qSize q)"
  shows "unat (getItemCount q) = m - a"
proof -
  define n r where n: "n = unat (qSize q)" "r = a mod n"
  obtain d where d: "m = a + d" using assms(3) le_Suc_ex by blast
  have r: "r < n" "d < n" using assms(3,4) by (simp_all add: n d)
  have "m mod n = (r + d) mod n" by (simp add: n(2) d mod_add_left_eq)
  then have "m mod n = (if r + d < n then r + d else r + d - n)" using r by (simp add: mod_if)
  moreover have "n < 2 ^ 16" using unsigned_less [of "qSize q"] by (simp add: n)
  ultimately show ?thesis
    using assms(1,2) r d unfolding getItemCount_def
    by (auto simp: word_le_nat_alt unat_sub unat_plus_if' simp flip: n split: if_splits)
qed

section \<open>The submission channel\<close>

text \<open>
  The other direction: the host writes entries behind its tail, as long as it knows a slot to be free
  (\<open>srAcked\<close> entries have been reported to it as fetched), and rings the doorbell at any time; the
  drive fetches.
\<close>

record sq_run =
  srQueue :: squeue
  srMem :: memory
  srSent :: "u8 list list"
  srGot :: "sq_entry list"
  srTail :: u16
  srBelled :: nat
  srAcked :: nat

abbreviation sr_size :: "sq_run \<Rightarrow> u16" where
  "sr_size s \<equiv> qSize (sqQueue (srQueue s))"

definition host_put :: "u8 list \<Rightarrow> sq_run \<Rightarrow> sq_run" where
  "host_put bs s = s\<lparr>srMem := slot_write 64 (sqQueue (srQueue s)) (unat (srTail s)) bs (srMem s),
     srSent := srSent s @ [bs], srTail := next_slot (sr_size s) (srTail s)\<rparr>"

inductive sq_reach :: "sq_run \<Rightarrow> bool" where
  fresh: "ring_fits 64 (setBase l st (Queue_new qid sz)) \<Longrightarrow>
   sq_reach \<lparr>srQueue = (SQueue_new cqid pri qid sz)\<lparr>sqQueue := setBase l st (Queue_new qid sz)\<rparr>, srMem = mem,
     srSent = [], srGot = [], srTail = 0, srBelled = 0, srAcked = 0\<rparr>"
| put: "\<lbrakk> sq_reach s; length bs = 64; Suc (length (srSent s)) < srAcked s + unat (sr_size s) \<rbrakk> \<Longrightarrow>
   sq_reach (host_put bs s)"
| bell: "sq_reach s \<Longrightarrow>
   sq_reach (s\<lparr>srQueue := sq_setTail (srTail s) (srQueue s), srBelled := length (srSent s)\<rparr>)"
| fetch: "\<lbrakk> sq_reach s; sq_getData (srQueue s) = Inr (Some ops, c) \<rbrakk> \<Longrightarrow>
   sq_reach (s\<lparr>srQueue := c, srGot := srGot s @ [sq_decode (dma_load (srMem s) ops (replicate 64 0))]\<rparr>)"
| report: "sq_reach s \<Longrightarrow> sq_reach (s\<lparr>srAcked := length (srGot s)\<rparr>)"

definition sq_inv :: "sq_run \<Rightarrow> bool" where
  "sq_inv s \<longleftrightarrow>
     (let q = sqQueue (srQueue s); n = unat (qSize q); m = length (srSent s); g = length (srGot s) in
      ring_fits 64 q \<and> srAcked s \<le> g \<and> g \<le> srBelled s \<and> srBelled s \<le> m \<and> m < srAcked s + n \<and>
      unat (qTail q) = srBelled s mod n \<and> unat (qHead q) = g mod n \<and> unat (srTail s) = m mod n \<and>
      window (ring_slots 64 q (srMem s)) n ((!) (srSent s)) m \<and>
      srGot s = take g (map sq_decode (srSent s)))"

lemma sq_getData_eq:
  assumes "ring_fits 64 (sqQueue c)"
  shows "sq_getData c =
    (if qHead (sqQueue c) = qTail (sqQueue c) then Inr (None, c)
     else Inr (Some (prp_read (the (qBase (sqQueue c))) (of_nat (unat (qHead (sqQueue c))) * qStride (sqQueue c)) 64),
               c\<lparr>sqQueue := (sqQueue c)\<lparr>qHead := next_slot (qSize (sqQueue c)) (qHead (sqQueue c))\<rparr>\<rparr>))"
proof -
  obtain l where l: "qBase (sqQueue c) = Some l" using ring_fits_base [OF assms] by blast
  show ?thesis by (simp add: sq_getData_def l deref_def Let_def next_slot_def)
qed

lemma sq_put_inv:
  assumes "sq_inv s" and "length bs = 64" and "Suc (length (srSent s)) < srAcked s + unat (sr_size s)"
  shows "sq_inv (host_put bs s)"
proof -
  define q n m where defs: "q = sqQueue (srQueue s)" "n = unat (qSize q)" "m = length (srSent s)"
  note inv = assms(1) [unfolded sq_inv_def Let_def, folded defs]
  have fits: "ring_fits 64 q" using inv by blast
  then have n: "2 \<le> n" by (simp add: ring_fits_def defs)
  have tail: "unat (srTail s) = m mod n" using inv by blast
  note step = next_slot_mod [OF tail [unfolded defs(2)] n [unfolded defs(2)], folded defs(2)]
  let ?f = "(!) (srSent s @ [bs])"
  have w: "window (ring_slots 64 q (srMem s)) n ?f m"
    using inv by (subst window_cong [where g = "(!) (srSent s)"]) (simp_all add: nth_append defs)
  have last: "?f m = bs" by (simp add: defs)
  have "window (ring_slots 64 q (slot_write 64 q (m mod n) bs (srMem s))) n ?f (Suc m)"
    using sq_slots.window_put [OF fits, of "srMem s" ?f m] w last assms(2) by (simp flip: defs)
  then show ?thesis
    using inv fits step(1) tail assms(3) unfolding sq_inv_def Let_def by (simp add: host_put_def flip: defs)
qed

lemma sq_pending:
  assumes "sq_inv s"
  shows "qHead (sqQueue (srQueue s)) = qTail (sqQueue (srQueue s)) \<longleftrightarrow> length (srGot s) = srBelled s"
proof -
  have inv: "length (srGot s) \<le> srBelled s" "srBelled s < length (srGot s) + unat (sr_size s)"
    "unat (qTail (sqQueue (srQueue s))) = srBelled s mod unat (sr_size s)"
    "unat (qHead (sqQueue (srQueue s))) = length (srGot s) mod unat (sr_size s)"
    using assms by (auto simp: sq_inv_def Let_def)
  have "length (srGot s) mod unat (sr_size s) \<noteq> srBelled s mod unat (sr_size s)" if "length (srGot s) \<noteq> srBelled s"
    by (rule mod_near) (use that inv in auto)
  then show ?thesis using inv by (auto simp: word_unat_eq_iff)
qed

lemma sq_fetch_inv:
  assumes "sq_inv s" and "sq_getData (srQueue s) = Inr (Some ops, c)"
  shows "sq_inv (s\<lparr>srQueue := c, srGot := srGot s @ [sq_decode (dma_load (srMem s) ops (replicate 64 0))]\<rparr>)"
proof -
  define q n g where defs: "q = sqQueue (srQueue s)" "n = unat (qSize q)" "g = length (srGot s)"
  note inv = assms(1) [unfolded sq_inv_def Let_def, folded defs]
  have fits: "ring_fits 64 q" using inv by blast
  then have n: "2 \<le> n" by (simp add: ring_fits_def defs)
  have head: "unat (qHead q) = g mod n" using inv by blast
  note step = next_slot_mod [OF head [unfolded defs(2)] n [unfolded defs(2)], folded defs(2)]
  from assms(2) have ops: "ops = prp_read (the (qBase q)) (of_nat (unat (qHead q)) * qStride q) 64"
      and c: "c = (srQueue s)\<lparr>sqQueue := q\<lparr>qHead := next_slot (qSize q) (qHead q)\<rparr>\<rparr>"
      and more: "g < srBelled s"
    using fits sq_pending [OF assms(1)] inv by (auto simp: sq_getData_eq simp flip: defs split: if_splits)
  have "dma_load (srMem s) ops (replicate 64 0) = slot_bytes 64 (srMem s) q (unat (qHead q))"
    unfolding ops by (rule read_slot [OF fits ring_fits_base [OF fits]]) (use head n in \<open>simp_all add: defs\<close>)
  also have "\<dots> = ring_slots 64 q (srMem s) (g mod n)" by (simp add: ring_slots_def head)
  also have "\<dots> = srSent s ! g"
  proof -
    have w: "window (ring_slots 64 q (srMem s)) n ((!) (srSent s)) (length (srSent s))" using inv by blast
    show ?thesis by (rule window_get [OF w]) (use inv more in auto)
  qed
  finally have "dma_load (srMem s) ops (replicate 64 0) = srSent s ! g" .
  then show ?thesis
    using inv fits step(1) more unfolding sq_inv_def Let_def
    by (simp add: c take_Suc_conv_app_nth flip: defs)
qed

lemma sq_reach_inv: "sq_reach s \<Longrightarrow> sq_inv s"
proof (induction rule: sq_reach.induct)
  case (fresh l st qid sz cqid pri mem)
  then show ?case by (auto simp: sq_inv_def Let_def SQueue_new_def setBase_def Queue_new_def window_def ring_fits_def)
next
  case (put s bs)
  from sq_put_inv [OF put.IH put.hyps(2,3)] show ?case .
next
  case (bell s)
  then show ?case unfolding sq_inv_def Let_def by (simp add: sq_setTail_def)
next
  case (fetch s ops c)
  from sq_fetch_inv [OF fetch.IH fetch.hyps(2)] show ?case .
next
  case (report s)
  then show ?case unfolding sq_inv_def Let_def by simp
qed

section \<open>A sample\<close>

text \<open>A queue on one contiguous piece of memory of its size is in order.\<close>

lemma contiguous_fits:
  assumes "qBase q = Some (prp_of ps tot [PRP_new a len])" and "unat (qSize q) * unat (qStride q) \<le> unat len"
    and "0 < n" and "n \<le> unat (qStride q)" and "2 \<le> unat (qSize q)"
  shows "ring_fits n q"
proof -
  have "inj_on (\<lambda>i. Some (a + of_nat i)) {0..<unat len}"
  proof (rule inj_onI)
    fix i j assume ij: "i \<in> {0..<unat len}" "j \<in> {0..<unat len}" "Some (a + of_nat i) = Some (a + of_nat j :: u64)"
    then have "unat (of_nat i :: u64) = unat (of_nat j :: u64)" by simp
    moreover have "unat len < 2 ^ 64" using unsigned_less [of len] by simp
    then have "i < 2 ^ 64" "j < 2 ^ 64" using ij(1,2) by auto
    ultimately show "i = j" by (simp add: unat_of_nat)
  qed
  moreover have "unat len < 2 ^ 64" using unsigned_less [of len] by simp
  ultimately show ?thesis
    using assms by (auto simp: ring_fits_def ring_addrs_def prp_of_def PRP_new_def piece_bytes_def distinct_map)
qed

definition sample_ring :: "u64 \<Rightarrow> queue" where
  "sample_ring st = setBase (prp_of 4096 (2 * st) [PRP_new 4096 (2 * st)]) st (Queue_new 1 2)"

lemma sample_ring_simps [simp]:
  "qSize (sample_ring st) = 2" "qHead (sample_ring st) = 0" "qTail (sample_ring st) = 0"
  by (simp_all add: sample_ring_def setBase_def Queue_new_def)

lemma sample_ring_fits: "ring_fits 16 (sample_ring 16)" "ring_fits 64 (sample_ring 64)"
proof -
  show "ring_fits 16 (sample_ring 16)"
    by (rule contiguous_fits [where len = 32 and a = 4096 and ps = 4096 and tot = 32])
      (simp_all add: sample_ring_def setBase_def Queue_new_def)
  show "ring_fits 64 (sample_ring 64)"
    by (rule contiguous_fits [where len = 128 and a = 4096 and ps = 4096 and tot = 128])
      (simp_all add: sample_ring_def setBase_def Queue_new_def)
qed

definition sample_cq0 :: cq_run where
  "sample_cq0 = \<lparr>crQueue = (CQueue_new 0 True 1 2)\<lparr>cqQueue := sample_ring 16\<rparr>, crMem = (\<lambda>_. 0),
     crSent = [], crGot = [], crHead = 0, crPhase = True, crAcked = 0\<rparr>"

definition sample_cq :: cq_run where
  "sample_cq =
     (case cq_setData (Some CQEntry_new) (crQueue sample_cq0) (crMem sample_cq0) of
        Inl _ \<Rightarrow> sample_cq0
      | Inr (c, mem) \<Rightarrow> sample_cq0\<lparr>crQueue := c, crMem := mem, crSent := [CQEntry_new]\<rparr>)"

lemma le_value_zeros: "le_value (replicate n 0) = 0"
  by (induction n) auto

lemma sample_cq_reach: "cq_reach sample_cq"
proof -
  have "ring_slots 16 q (\<lambda>_. 0) k = replicate (length (slot_addrs 16 q k)) 0" for q k
    by (simp add: ring_slots_def slot_bytes_def o_def map_replicate_const)
  then have "\<not> phase_of (cq_entry_at q (\<lambda>_. 0) k)" for q k
    by (simp add: phase_of_def cq_entry_at_def cq_decode_def le_value_zeros)
  then have start: "cq_reach sample_cq0"
    unfolding sample_cq0_def sample_ring_def
    by (intro cq_reach.fresh) (simp_all add: sample_ring_fits(1) [unfolded sample_ring_def, simplified])
  have q: "cqQueue (crQueue sample_cq0) = sample_ring 16" by (simp add: sample_cq0_def)
  obtain c mem where run: "cq_setData (Some CQEntry_new) (crQueue sample_cq0) (crMem sample_cq0) = Inr (c, mem)"
    using cq_setData_eq [of "crQueue sample_cq0" CQEntry_new "crMem sample_cq0"]
    by (simp add: q sample_ring_fits next_slot_def)
  have "sample_cq = sample_cq0\<lparr>crQueue := c, crMem := mem, crSent := crSent sample_cq0 @ [CQEntry_new]\<rparr>"
    by (simp add: sample_cq_def run) (simp add: sample_cq0_def)
  with cq_reach.send [OF start run] show ?thesis by simp
qed

definition sample_sq :: sq_run where
  "sample_sq = \<lparr>srQueue = (SQueue_new 1 0 1 2)\<lparr>sqQueue := sample_ring 64\<rparr>, srMem = (\<lambda>_. 0),
     srSent = [], srGot = [], srTail = 0, srBelled = 0, srAcked = 0\<rparr>"

text \<open>The host puts an entry and rings the doorbell.\<close>

definition sample_sq1 :: sq_run where
  "sample_sq1 = (let s = host_put (replicate 64 1) sample_sq in
     s\<lparr>srQueue := sq_setTail (srTail s) (srQueue s), srBelled := length (srSent s)\<rparr>)"

lemma sample_sq_reach: "sq_reach sample_sq1"
proof -
  have "sq_reach sample_sq"
    unfolding sample_sq_def sample_ring_def
    by (intro sq_reach.fresh) (simp add: sample_ring_fits(2) [unfolded sample_ring_def, simplified])
  moreover have "Suc (length (srSent sample_sq)) < srAcked sample_sq + unat (sr_size sample_sq)"
    by (simp add: sample_sq_def)
  ultimately have "sq_reach (host_put (replicate 64 1) sample_sq)" by (intro sq_reach.put) simp_all
  then show ?thesis unfolding sample_sq1_def Let_def by (rule sq_reach.bell)
qed

section \<open>The claims\<close>

text \<open>C28. A completion queue is a bounded channel: whatever the order of completions, of the host's polls
  and of its doorbells, the host takes exactly the entries the drive wrote, in that order and apart from
  the phase tag unchanged; the tag tells it exactly whether there is one to take; and the drive stops
  with an overflow exactly when size minus one entries are unacknowledged.\<close>

theorem completion_channel:
  assumes "cq_reach s"
  shows "map untag (crGot s) = take (length (crGot s)) (map untag (crSent s)) \<and>
    (host_poll s = None \<longleftrightarrow> length (crGot s) = length (crSent s)) \<and>
    unat (getItemCount (cqQueue (crQueue s))) = length (crSent s) - crAcked s \<and>
    (if Suc (length (crSent s) - crAcked s) = unat (cr_size s)
     then cq_setData (Some e) (crQueue s) (crMem s) = Inl (Panic ''Completion queue overflow'')
     else \<exists>x. cq_setData (Some e) (crQueue s) (crMem s) = Inr x)"
proof -
  define q n m a where defs: "q = cqQueue (crQueue s)" "n = unat (qSize q)" "m = length (crSent s)" "a = crAcked s"
  have I: "cq_inv s" by (rule cq_reach_inv [OF assms])
  note inv = I [unfolded cq_inv_def Let_def, folded defs]
  have n: "2 \<le> n" and fits: "ring_fits 16 q" using inv by (auto simp: ring_fits_def defs)
  have room: "a \<le> m" "m < a + n" using inv by auto
  have "map untag (crGot s) = take (length (crGot s)) (map untag (crSent s))"
  proof -
    have "crGot s = map (tagged n (crSent s)) [0..<length (crGot s)]" "length (crGot s) \<le> m" using inv by auto
    then have "map untag (crGot s) = map (\<lambda>j. untag (crSent s ! j)) [0..<length (crGot s)]"
      by (metis (no_types, lifting) comp_apply map_cong map_map tagged_def untag_tag)
    also have "\<dots> = take (length (crGot s)) (map untag (crSent s))"
      using \<open>length (crGot s) \<le> m\<close> by (intro nth_equalityI) (simp_all add: defs)
    finally show ?thesis .
  qed
  moreover have "host_poll s = None \<longleftrightarrow> length (crGot s) = m"
    using host_head_phase(1) [OF I] inv by (auto simp: host_poll_def Let_def defs)
  moreover have "unat (getItemCount q) = m - a"
    by (rule item_count) (use inv room in \<open>simp_all add: defs\<close>)
  moreover have "next_slot (qSize q) (qTail q) = qHead q \<longleftrightarrow> Suc (m - a) = n"
  proof -
    have "unat (next_slot (qSize q) (qTail q)) = Suc m mod n"
      using next_slot_mod(1) [of "qTail q" m "qSize q"] inv n by (simp add: defs)
    moreover have "Suc m mod n \<noteq> a mod n" if "Suc (m - a) \<noteq> n"
    proof -
      have "a < Suc m" "Suc m < a + n" using room that by linarith+
      from mod_near [OF this] show ?thesis by simp
    qed
    moreover have "Suc m mod n = a mod n" if "Suc (m - a) = n"
      using room that by (metis Suc_diff_le le_add_diff_inverse mod_add_self2 le_SucI)
    ultimately show ?thesis using inv by (auto simp: word_unat_eq_iff)
  qed
  ultimately show ?thesis
    using cq_setData_eq [of "crQueue s" e "crMem s"] fits by (auto simp flip: defs)
qed

lemma completion_channel_witness:
  "host_poll sample_cq \<noteq> None \<and>
   cq_setData (Some CQEntry_new) (crQueue sample_cq) (crMem sample_cq) = Inl (Panic ''Completion queue overflow'')"
proof -
  have "crGot sample_cq = []" "crSent sample_cq = [CQEntry_new]" "crAcked sample_cq = 0" "cr_size sample_cq = 2"
    using cq_setData_eq [of "crQueue sample_cq0" CQEntry_new "crMem sample_cq0"]
    by (auto simp: sample_cq_def sample_cq0_def sample_ring_fits next_slot_def split: sum.splits)
  then show ?thesis using completion_channel [OF sample_cq_reach, of CQEntry_new] by simp
qed

text \<open>C29. A submission queue is a bounded channel from the host to the drive: the drive fetches exactly the
  entries the host wrote, in that order; a fetch never fails, and it finds nothing exactly when every
  entry the host has rung the doorbell for is fetched.\<close>

theorem submission_channel:
  assumes "sq_reach s"
  shows "srGot s = take (length (srGot s)) (map sq_decode (srSent s)) \<and>
    length (srGot s) \<le> srBelled s \<and> srBelled s \<le> length (srSent s) \<and>
    unat (getItemCount (sqQueue (srQueue s))) = srBelled s - length (srGot s) \<and>
    (\<exists>found c. sq_getData (srQueue s) = Inr (found, c) \<and> (found = None \<longleftrightarrow> length (srGot s) = srBelled s))"
proof -
  have I: "sq_inv s" by (rule sq_reach_inv [OF assms])
  note inv = I [unfolded sq_inv_def Let_def]
  have "unat (getItemCount (sqQueue (srQueue s))) = srBelled s - length (srGot s)"
    by (rule item_count) (use inv in auto)
  then show ?thesis using inv sq_pending [OF I] sq_getData_eq [of "srQueue s"] by auto
qed

lemma submission_channel_witness: "\<exists>ops c. sq_getData (srQueue sample_sq1) = Inr (Some ops, c)"
proof -
  have "srGot sample_sq1 = []" "srBelled sample_sq1 = 1"
    by (simp_all add: sample_sq1_def Let_def host_put_def sample_sq_def)
  then show ?thesis using submission_channel [OF sample_sq_reach] by auto
qed

end
