(* ===== verification/Fifo.thy ===== *)
theory Fifo
  imports Prelude
begin

text \<open>
  The FIFO between a drive and its host, \<^verbatim>\<open>src/util/fifo.cc\<close>: transfers wait, are written into the
  FIFO and read out of it piece by piece. A write enters from the drive (downstream) and leaves to
  the host (upstream); a read enters from the host. A transfer larger than the FIFO is split into
  pieces of the transfer unit.

  The upstream interface is behind \<open>SimpleSSD::DMAInterface\<close>. What the FIFO asks of it is the list
  \<open>fqIssued\<close>; it reports the end of each transfer, in that order and never from inside the request,
  by the handlers \<open>transferWriteDone\<close> and \<open>transferReadDone\<close>. An event is the tick it is scheduled
  for, or \<open>None\<close>. A callback and its context are a value of type \<open>'f\<close>, and \<open>run\<close> is what calling it
  does to the FIFO: it may hand over further transfers. A buffer is an address or null.
\<close>

section \<open>State\<close>

record fifo_param =
  fpRqSize :: u64
  fpWqSize :: u64
  fpUnit :: u64
  fpLatency :: "u64 \<Rightarrow> u64"

record 'f fifo_entry =
  feLast :: bool
  feId :: u64
  feAddr :: u64
  feSize :: u64
  feBuffer :: "u64 option"
  feArrived :: tick
  feBegin :: tick
  feEnd :: tick
  feFunc :: 'f

record read_entry =
  reId :: u64
  reInsertEnd :: tick
  reDmaEnd :: tick
  reLatency :: u64

record 'f fifo_queue =
  fqCapacity :: u64
  fqUsage :: u64
  fqWait :: "'f fifo_entry list"
  fqTransfer :: "'f fifo_entry list"
  fqInsertDone :: "tick option"
  fqBegin :: "tick option"
  fqSubmit :: "tick option"
  fqInsertPending :: bool
  fqTransferPending :: bool
  fqIssued :: "(u64 \<times> u64 \<times> u64 option) list"

record 'f fifo =
  fifoParam :: fifo_param
  unitLatency :: u64
  readQueue :: "'f fifo_queue"
  writeQueue :: "'f fifo_queue"
  fifoCounter :: u64
  readCompletion :: "read_entry list"

definition FIFOEntry_new :: "u64 \<Rightarrow> u64 \<Rightarrow> u64 option \<Rightarrow> 'f \<Rightarrow> tick \<Rightarrow> 'f fifo_entry" where
  "FIFOEntry_new a s b f now = \<lparr>feLast = True, feId = 0, feAddr = a, feSize = s, feBuffer = b,
     feArrived = now, feBegin = 0, feEnd = 0, feFunc = f\<rparr>"

definition ReadEntry_new :: "u64 \<Rightarrow> u64 \<Rightarrow> u64 \<Rightarrow> u64 \<Rightarrow> read_entry" where
  "ReadEntry_new a i d l = \<lparr>reId = a, reInsertEnd = i, reDmaEnd = d, reLatency = l\<rparr>"

definition fifo_queue_new :: "u64 \<Rightarrow> 'f fifo_queue" where
  "fifo_queue_new c = \<lparr>fqCapacity = c, fqUsage = 0, fqWait = [], fqTransfer = [], fqInsertDone = None,
     fqBegin = None, fqSubmit = None, fqInsertPending = False, fqTransferPending = False, fqIssued = []\<rparr>"

definition FIFO_new :: "fifo_param \<Rightarrow> 'f fifo res" where
  "FIFO_new p =
     ebind (guard (\<not> (fpRqSize p < fpUnit p \<or> fpWqSize p < fpUnit p)) (Panic ''Invalid transferUnit size'')) (\<lambda>_.
     Inr \<lparr>fifoParam = p, unitLatency = fpLatency p (fpUnit p), readQueue = fifo_queue_new (fpRqSize p),
          writeQueue = fifo_queue_new (fpWqSize p), fifoCounter = 0, readCompletion = []\<rparr>)"

section \<open>Sizes and pieces\<close>

text \<open>The room an entry takes, and whether it is smaller than the unit.\<close>

definition calcSize :: "fifo_param \<Rightarrow> u64 \<Rightarrow> (u64 \<times> bool) res" where
  "calcSize p sz =
     (if sz < fpUnit p then Inr (sz, True)
      else if fpUnit p = 0 then Inl (Undefined ''division by zero'')
      else Inr (((sz - 1) div fpUnit p + 1) * fpUnit p, False))"

text \<open>The front of the waiting list cut into a piece of one unit and the rest, which follows it.\<close>

definition split_front :: "fifo_param \<Rightarrow> 'f fifo_entry \<Rightarrow> 'f fifo_entry list" where
  "split_front p e =
     [e\<lparr>feLast := False, feSize := fpUnit p\<rparr>,
      e\<lparr>feLast := True, feAddr := feAddr e + fpUnit p, feSize := feSize e - fpUnit p,
        feBuffer := map_option (\<lambda>b. b + fpUnit p) (feBuffer e)\<rparr>]"

text \<open>
  What \<open>insertWrite\<close> and \<open>transferRead\<close> do first: leave when the queue is busy or has no room, except
  for a transfer larger than the queue, which is split. The result is \<open>None\<close>, or the waiting list, the
  room of its front and whether that is smaller than the unit.
\<close>

definition admit_front ::
  "fifo_param \<Rightarrow> u64 \<Rightarrow> bool \<Rightarrow> 'f fifo_queue \<Rightarrow> ('f fifo_entry list \<times> u64 \<times> bool) option res" where
  "admit_front p qsize pending q =
     ebind (front (fqWait q)) (\<lambda>e.
     ebind (calcSize p (feSize e)) (\<lambda>(sz, small).
       if (pending \<or> fqCapacity q < fqUsage q + sz) \<and> sz \<le> qsize then Inr None
       else if qsize < sz then
         ebind (calcSize p (fpUnit p)) (\<lambda>(sz', small').
         Inr (Some (split_front p e @ tl (fqWait q), sz', small \<or> small')))
       else Inr (Some (fqWait q, sz, small))))"

text \<open>The delay until the transfer of an entry begins, and the latency the end of a transfer waits for.\<close>

definition begin_delay :: "'f fifo \<Rightarrow> u64 \<Rightarrow> bool \<Rightarrow> u64" where
  "begin_delay s sz small = (if small then fpLatency (fifoParam s) sz else unitLatency s)"

definition tail_latency :: "'f fifo \<Rightarrow> 'f fifo_entry \<Rightarrow> u64" where
  "tail_latency s e =
     (if feSize e < fpUnit (fifoParam s) then fpLatency (fifoParam s) (feSize e) else unitLatency s)"

section \<open>Writes\<close>

definition insertWrite :: "tick \<Rightarrow> 'f fifo \<Rightarrow> 'f fifo res" where
  "insertWrite now s =
     (let q = writeQueue s; p = fifoParam s in
      ebind (admit_front p (fpWqSize p) (fqInsertPending q) q) (\<lambda>r.
        case r of
          None \<Rightarrow> Inr s
        | Some (wait, sz, small) \<Rightarrow>
            let e = (hd wait)\<lparr>feBegin := now, feEnd := now + fpLatency p sz\<rparr> in
            Inr (s\<lparr>writeQueue := q\<lparr>fqWait := e # tl wait, fqInsertPending := True, fqUsage := fqUsage q + sz,
                     fqInsertDone := Some (feEnd e),
                     fqBegin := (if fqBegin q = None then Some (now + begin_delay s sz small) else fqBegin q),
                     fqTransfer := fqTransfer q @ [e]\<rparr>\<rparr>)))"

definition insertWriteDone :: "tick \<Rightarrow> 'f fifo \<Rightarrow> 'f fifo res" where
  "insertWriteDone now s =
     (let q = writeQueue s in
      ebind (front (fqWait q)) (\<lambda>_.
        let s = s\<lparr>writeQueue := q\<lparr>fqWait := tl (fqWait q), fqInsertPending := False\<rparr>\<rparr>
        in if tl (fqWait q) \<noteq> [] then insertWrite now s else Inr s))"

definition transferWrite :: "'f fifo \<Rightarrow> 'f fifo res" where
  "transferWrite s =
     (let q = writeQueue s in
      ebind (front (fqTransfer q)) (\<lambda>e.
        if fqTransferPending q then Inr s
        else Inr (s\<lparr>writeQueue := q\<lparr>fqTransferPending := True,
                    fqIssued := fqIssued q @ [(feAddr e, feSize e, feBuffer e)]\<rparr>\<rparr>)))"

text \<open>The entry is a reference into the queue, which the callback only appends to.\<close>

definition transferWriteDoneNext :: "('f \<Rightarrow> tick \<Rightarrow> 'f fifo \<Rightarrow> 'f fifo res) \<Rightarrow> tick \<Rightarrow> 'f fifo \<Rightarrow> 'f fifo res" where
  "transferWriteDoneNext run now s =
     ebind (front (fqTransfer (writeQueue s))) (\<lambda>e.
     ebind (if feLast e then run (feFunc e) now s else Inr s) (\<lambda>s.
     ebind (calcSize (fifoParam s) (feSize e)) (\<lambda>(sz, _).
       let q = writeQueue s;
           q = q\<lparr>fqUsage := fqUsage q - sz, fqTransferPending := False, fqTransfer := tl (fqTransfer q)\<rparr>
       in
       ebind (if fqTransfer q \<noteq> [] \<and> fqBegin q = None then transferWrite (s\<lparr>writeQueue := q\<rparr>)
              else Inr (s\<lparr>writeQueue := q\<rparr>)) (\<lambda>s.
       if fqWait (writeQueue s) \<noteq> [] then insertWrite now s else Inr s))))"

definition transferWriteDone :: "('f \<Rightarrow> tick \<Rightarrow> 'f fifo \<Rightarrow> 'f fifo res) \<Rightarrow> tick \<Rightarrow> 'f fifo \<Rightarrow> 'f fifo res" where
  "transferWriteDone run now s =
     ebind (front (fqTransfer (writeQueue s))) (\<lambda>e.
       let finish = feEnd e + tail_latency s e in
       if finish \<le> now then transferWriteDoneNext run now s
       else Inr (s\<lparr>writeQueue := (writeQueue s)\<lparr>fqSubmit := Some finish\<rparr>\<rparr>))"

definition fifo_dmaWrite :: "u64 \<Rightarrow> u64 \<Rightarrow> u64 option \<Rightarrow> 'f \<Rightarrow> tick \<Rightarrow> 'f fifo \<Rightarrow> 'f fifo res" where
  "fifo_dmaWrite a sz b f now s =
     (if sz = 0 then Inr s
      else insertWrite now (s\<lparr>writeQueue := (writeQueue s)\<lparr>fqWait := fqWait (writeQueue s) @ [FIFOEntry_new a sz b f now]\<rparr>\<rparr>))"

section \<open>Reads\<close>

definition transferRead :: "tick \<Rightarrow> 'f fifo \<Rightarrow> 'f fifo res" where
  "transferRead now s =
     (let q = readQueue s; p = fifoParam s in
      ebind (admit_front p (fpRqSize p) (fqTransferPending q) q) (\<lambda>r.
        case r of
          None \<Rightarrow> Inr s
        | Some (wait, sz, small) \<Rightarrow>
            let e = (hd wait)\<lparr>feId := fifoCounter s\<rparr> in
            Inr (s\<lparr>fifoCounter := fifoCounter s + 1,
                   readQueue := q\<lparr>fqWait := e # tl wait, fqTransferPending := True, fqUsage := fqUsage q + sz,
                     fqIssued := fqIssued q @ [(feAddr e, feSize e, feBuffer e)],
                     fqBegin := (if fqBegin q = None then Some (now + begin_delay s sz small) else fqBegin q),
                     fqTransfer := fqTransfer q @ [e]\<rparr>\<rparr>)))"

definition insertRead :: "tick \<Rightarrow> 'f fifo \<Rightarrow> 'f fifo res" where
  "insertRead now s =
     (let q = readQueue s; p = fifoParam s in
      ebind (front (fqTransfer q)) (\<lambda>e.
        if fqInsertPending q then Inr s
        else ebind (calcSize p (feSize e)) (\<lambda>(sz, _).
          let e = e\<lparr>feBegin := now, feEnd := now + fpLatency p sz\<rparr> in
          Inr (s\<lparr>readQueue := q\<lparr>fqInsertPending := True, fqTransfer := e # tl (fqTransfer q),
                  fqInsertDone := (if fqInsertDone q = None then Some (feEnd e) else fqInsertDone q)\<rparr>\<rparr>))))"

definition insertReadDoneNext :: "('f \<Rightarrow> tick \<Rightarrow> 'f fifo \<Rightarrow> 'f fifo res) \<Rightarrow> tick \<Rightarrow> 'f fifo \<Rightarrow> 'f fifo res" where
  "insertReadDoneNext run now s =
     ebind (front (fqTransfer (readQueue s))) (\<lambda>e.
     ebind (if feLast e then run (feFunc e) now s else Inr s) (\<lambda>s.
     ebind (calcSize (fifoParam s) (feSize e)) (\<lambda>(sz, _).
       let q = readQueue s;
           q = q\<lparr>fqUsage := fqUsage q - sz, fqInsertPending := False, fqTransfer := tl (fqTransfer q)\<rparr>
       in
       ebind (if fqTransfer q \<noteq> [] \<and> fqBegin q = None then insertRead now (s\<lparr>readQueue := q\<rparr>)
              else Inr (s\<lparr>readQueue := q\<rparr>)) (\<lambda>s.
       if fqWait (readQueue s) \<noteq> [] then transferRead now s else Inr s))))"

text \<open>Both ends of a piece are there: it is complete, or complete after its tail. The record \<open>c\<close> is dropped.\<close>

definition insertReadDoneMerge ::
  "('f \<Rightarrow> tick \<Rightarrow> 'f fifo \<Rightarrow> 'f fifo res) \<Rightarrow> tick \<Rightarrow> read_entry \<Rightarrow> 'f fifo \<Rightarrow> 'f fifo res" where
  "insertReadDoneMerge run now c s =
     ebind (if reDmaEnd c + reLatency c \<le> now then insertReadDoneNext run now s
            else Inr (s\<lparr>readQueue := (readQueue s)\<lparr>fqSubmit := Some (reDmaEnd c + reLatency c)\<rparr>\<rparr>)) (\<lambda>s.
     Inr (s\<lparr>readCompletion := remove1 c (readCompletion s)\<rparr>))"

definition insertReadDone :: "('f \<Rightarrow> tick \<Rightarrow> 'f fifo \<Rightarrow> 'f fifo res) \<Rightarrow> tick \<Rightarrow> 'f fifo \<Rightarrow> 'f fifo res" where
  "insertReadDone run now s =
     ebind (front (fqTransfer (readQueue s))) (\<lambda>e.
       case List.find (\<lambda>c. reId c = feId e) (readCompletion s) of
         None \<Rightarrow> Inr (s\<lparr>readCompletion := readCompletion s @ [ReadEntry_new (feId e) now 0 (tail_latency s e)]\<rparr>)
       | Some c \<Rightarrow> insertReadDoneMerge run now c s)"

definition transferReadDone :: "('f \<Rightarrow> tick \<Rightarrow> 'f fifo \<Rightarrow> 'f fifo res) \<Rightarrow> tick \<Rightarrow> 'f fifo \<Rightarrow> 'f fifo res" where
  "transferReadDone run now s =
     ebind (front (fqWait (readQueue s))) (\<lambda>e.
     ebind (case List.find (\<lambda>c. reId c = feId e) (readCompletion s) of
              None \<Rightarrow> Inr (s\<lparr>readCompletion := readCompletion s @ [ReadEntry_new (feId e) 0 now (tail_latency s e)]\<rparr>)
            | Some c \<Rightarrow>
                let c' = c\<lparr>reDmaEnd := now\<rparr> in
                insertReadDoneMerge run now c'
                  (s\<lparr>readCompletion := map (\<lambda>x. if x = c then c' else x) (readCompletion s)\<rparr>)) (\<lambda>s.
     ebind (front (fqWait (readQueue s))) (\<lambda>_.
       let q = readQueue s;
           s = s\<lparr>readQueue := q\<lparr>fqWait := tl (fqWait q), fqTransferPending := False\<rparr>\<rparr>
       in if tl (fqWait q) \<noteq> [] then transferRead now s else Inr s)))"

definition fifo_dmaRead :: "u64 \<Rightarrow> u64 \<Rightarrow> u64 option \<Rightarrow> 'f \<Rightarrow> tick \<Rightarrow> 'f fifo \<Rightarrow> 'f fifo res" where
  "fifo_dmaRead a sz b f now s =
     (if sz = 0 then Inr s
      else transferRead now (s\<lparr>readQueue := (readQueue s)\<lparr>fqWait := fqWait (readQueue s) @ [FIFOEntry_new a sz b f now]\<rparr>\<rparr>))"

section \<open>Events\<close>

text \<open>An event is not scheduled any more when its handler runs.\<close>

definition on_write_inserted :: "tick \<Rightarrow> 'f fifo \<Rightarrow> 'f fifo res" where
  "on_write_inserted now s = insertWriteDone now (s\<lparr>writeQueue := (writeQueue s)\<lparr>fqInsertDone := None\<rparr>\<rparr>)"

definition on_write_begin :: "'f fifo \<Rightarrow> 'f fifo res" where
  "on_write_begin s = transferWrite (s\<lparr>writeQueue := (writeQueue s)\<lparr>fqBegin := None\<rparr>\<rparr>)"

definition on_write_submit :: "('f \<Rightarrow> tick \<Rightarrow> 'f fifo \<Rightarrow> 'f fifo res) \<Rightarrow> tick \<Rightarrow> 'f fifo \<Rightarrow> 'f fifo res" where
  "on_write_submit run now s = transferWriteDoneNext run now (s\<lparr>writeQueue := (writeQueue s)\<lparr>fqSubmit := None\<rparr>\<rparr>)"

definition on_read_inserted :: "('f \<Rightarrow> tick \<Rightarrow> 'f fifo \<Rightarrow> 'f fifo res) \<Rightarrow> tick \<Rightarrow> 'f fifo \<Rightarrow> 'f fifo res" where
  "on_read_inserted run now s = insertReadDone run now (s\<lparr>readQueue := (readQueue s)\<lparr>fqInsertDone := None\<rparr>\<rparr>)"

definition on_read_begin :: "tick \<Rightarrow> 'f fifo \<Rightarrow> 'f fifo res" where
  "on_read_begin now s = insertRead now (s\<lparr>readQueue := (readQueue s)\<lparr>fqBegin := None\<rparr>\<rparr>)"

definition on_read_submit :: "('f \<Rightarrow> tick \<Rightarrow> 'f fifo \<Rightarrow> 'f fifo res) \<Rightarrow> tick \<Rightarrow> 'f fifo \<Rightarrow> 'f fifo res" where
  "on_read_submit run now s = insertReadDoneNext run now (s\<lparr>readQueue := (readQueue s)\<lparr>fqSubmit := None\<rparr>\<rparr>)"

end
