(* ===== verification/FifoProps.thy ===== *)
theory FifoProps
  imports Fifo
begin

text \<open>
  The write side of the FIFO: whatever the order of requests, of the events of the FIFO and of the
  reports of the upstream interface, and whatever further writes the callbacks hand over, the pieces
  sent upstream join up to the requests in their order, each callback runs once, after the last piece
  of its request, the usage is the room of the pieces inside, and the queue never gets stuck.
\<close>

section \<open>Pieces and requests\<close>

type_synonym 'f fifo_request = "u64 \<times> u64 \<times> u64 option \<times> 'f"

definition whole :: "'f fifo_entry \<Rightarrow> 'f fifo_request" where
  "whole e = (feAddr e, feSize e, feBuffer e, feFunc e)"

text \<open>Joining consecutive pieces, up to the last of each request.\<close>

definition join_piece :: "'f fifo_entry \<Rightarrow> 'f fifo_request list \<Rightarrow> 'f fifo_request list option" where
  "join_piece e rs =
     (if feLast e then Some (whole e # rs)
      else case rs of
        [] \<Rightarrow> None
      | (a, n, b, f) # rs \<Rightarrow>
          if a = feAddr e + feSize e \<and> b = map_option (\<lambda>x. x + feSize e) (feBuffer e) \<and> f = feFunc e
          then Some ((feAddr e, feSize e + n, feBuffer e, f) # rs) else None)"

fun fuse :: "'f fifo_entry list \<Rightarrow> 'f fifo_request list option" where
  "fuse [] = Some []"
| "fuse (e # es) = Option.bind (fuse es) (join_piece e)"

lemma fuse_tail: "fuse ys = fuse zs \<Longrightarrow> fuse (xs @ ys) = fuse (xs @ zs)"
  by (induction xs) auto

lemma fuse_split:
  assumes "feLast e" shows "fuse (xs @ split_front p e @ ys) = fuse (xs @ e # ys)"
proof (rule fuse_tail)
  show "fuse (split_front p e @ ys) = fuse (e # ys)"
    using assms by (cases "fuse ys") (auto simp: split_front_def join_piece_def whole_def)
qed

lemma join_piece_times [simp]: "join_piece (e\<lparr>feBegin := t, feEnd := u\<rparr>) = join_piece e"
  by (auto simp: fun_eq_iff join_piece_def whole_def split: list.splits)

lemma fuse_times: "fuse (xs @ e\<lparr>feBegin := t, feEnd := u\<rparr> # ys) = fuse (xs @ e # ys)"
  by (rule fuse_tail) simp

lemma fuse_append: "fuse xs = Some rs \<Longrightarrow> fuse (xs @ ys) = map_option ((@) rs) (fuse ys)"
proof (induction xs arbitrary: rs)
  case Nil
  then show ?case by (cases "fuse ys") auto
next
  case (Cons e es)
  then obtain r where r: "fuse es = Some r" "join_piece e r = Some rs" by (cases "fuse es") auto
  have "join_piece e (r @ qs) = Some (rs @ qs)" for qs
    using r(2) by (auto simp: join_piece_def split: if_splits list.splits)
  with Cons.IH [OF r(1)] show ?case by (cases "fuse ys") auto
qed

lemma fuse_funcs: "fuse es = Some rs \<Longrightarrow> map feFunc (filter feLast es) = map (\<lambda>(a, n, b, f). f) rs"
proof (induction es arbitrary: rs)
  case (Cons e es)
  then obtain r where r: "fuse es = Some r" "join_piece e r = Some rs" by (cases "fuse es") auto
  from Cons.IH [OF r(1)] r(2) show ?case
    by (auto simp: join_piece_def whole_def split: if_splits list.splits)
qed simp

section \<open>Room\<close>

definition room :: "fifo_param \<Rightarrow> u64 \<Rightarrow> u64" where
  "room p sz = (if sz < fpUnit p then sz else ((sz - 1) div fpUnit p + 1) * fpUnit p)"

lemma calcSize_room: "fpUnit p \<noteq> 0 \<Longrightarrow> calcSize p sz = Inr (room p sz, sz < fpUnit p)"
  by (simp add: calcSize_def room_def)

lemma room_unit: "fpUnit p \<noteq> 0 \<Longrightarrow> room p (fpUnit p) = fpUnit p"
proof -
  assume "fpUnit p \<noteq> 0"
  then have "fpUnit p - 1 < fpUnit p" by (simp add: word_less_nat_alt unat_sub_if' word_neq_0_conv)
  then have "(fpUnit p - 1) div fpUnit p = 0" by (simp add: word_arith_nat_div word_less_nat_alt)
  then show ?thesis by (simp add: room_def)
qed

text \<open>A request that takes more than the queue, of at least one unit, is longer than a unit.\<close>

lemma room_large:
  assumes "fpUnit p \<noteq> 0" and "fpUnit p \<le> c" and "c < room p sz"
  shows "0 < sz - fpUnit p"
proof -
  have "\<not> sz < fpUnit p" using assms by (auto simp: room_def)
  moreover have "sz \<noteq> fpUnit p" using assms room_unit by (auto simp: leD)
  ultimately show ?thesis by (simp add: word_gt_0)
qed

section \<open>The invariant\<close>

text \<open>The pieces of a queue that have not been sent and confirmed, in order.\<close>

definition left_pieces :: "'f fifo_queue \<Rightarrow> 'f fifo_entry list" where
  "left_pieces q = fqTransfer q @ (if fqInsertPending q then tl (fqWait q) else fqWait q)"

definition sent_upstream :: "'f fifo_entry \<Rightarrow> u64 \<times> u64 \<times> u64 option" where
  "sent_upstream e = (feAddr e, feSize e, feBuffer e)"

text \<open>\<open>gone\<close> are the pieces sent and confirmed, \<open>subs\<close> the requests.\<close>

definition write_base :: "fifo_param \<Rightarrow> 'f fifo_entry list \<Rightarrow> 'f fifo_request list \<Rightarrow> 'f fifo \<Rightarrow> bool" where
  "write_base p gone subs s \<longleftrightarrow>
     (let q = writeQueue s in
      fifoParam s = p \<and> fpUnit p \<noteq> 0 \<and> fpUnit p \<le> fpWqSize p \<and> fqCapacity q = fpWqSize p \<and>
      fuse (gone @ left_pieces q) = Some subs \<and>
      (\<forall>e\<in>set (gone @ left_pieces q). 0 < feSize e) \<and>
      (\<forall>e\<in>set (if fqInsertPending q then tl (fqWait q) else fqWait q). feLast e) \<and>
      fqUsage q = (\<Sum>e\<leftarrow>fqTransfer q. room p (feSize e)) \<and>
      (fqInsertPending q \<longrightarrow> fqWait q \<noteq> [] \<and> room p (feSize (hd (fqWait q))) \<le> fpWqSize p) \<and>
      (fqInsertPending q \<longleftrightarrow> fqInsertDone q \<noteq> None) \<and>
      (fqTransferPending q \<longrightarrow> fqTransfer q \<noteq> []) \<and>
      (fqSubmit q \<noteq> None \<longrightarrow> fqTransferPending q) \<and>
      (fqBegin q \<noteq> None \<longrightarrow> (if fqTransferPending q then 1 else 0) < length (fqTransfer q)) \<and>
      fqIssued q = map sent_upstream (gone @ (if fqTransferPending q then [hd (fqTransfer q)] else [])))"

text \<open>The front waits because the FIFO has no room, and a transfer is under way or about to be.\<close>

definition write_blocked :: "'f fifo \<Rightarrow> bool" where
  "write_blocked s \<longleftrightarrow>
     (let q = writeQueue s; p = fifoParam s in
      \<not> fqInsertPending q \<longrightarrow> fqWait q \<noteq> [] \<longrightarrow>
        fqCapacity q < fqUsage q + room p (feSize (hd (fqWait q))) \<and> room p (feSize (hd (fqWait q))) \<le> fpWqSize p)"

definition write_moving :: "'f fifo \<Rightarrow> bool" where
  "write_moving s \<longleftrightarrow>
     (let q = writeQueue s in fqTransfer q \<noteq> [] \<longrightarrow> fqTransferPending q \<or> fqBegin q \<noteq> None)"

definition write_inv :: "fifo_param \<Rightarrow> 'f fifo_entry list \<Rightarrow> 'f fifo_request list \<Rightarrow> 'f fifo \<Rightarrow> bool" where
  "write_inv p gone subs s \<longleftrightarrow> write_base p gone subs s \<and> write_blocked s \<and> write_moving s"

text \<open>What a submission keeps: the transfer under way.\<close>

definition write_keeps :: "'f fifo \<Rightarrow> 'f fifo \<Rightarrow> bool" where
  "write_keeps s s' \<longleftrightarrow>
     (let q = writeQueue s; q' = writeQueue s' in
      fqTransferPending q' = fqTransferPending q \<and> fqSubmit q' = fqSubmit q \<and>
      (\<exists>es. fqTransfer q' = fqTransfer q @ es))"

lemma write_keeps_refl [simp]: "write_keeps s s"
  by (simp add: write_keeps_def)

lemma write_keeps_trans: "write_keeps s t \<Longrightarrow> write_keeps t u \<Longrightarrow> write_keeps s u"
  by (auto simp: write_keeps_def Let_def)

lemma insertWrite_inv:
  assumes "write_base p gone subs s" and "write_moving s" and "fqWait (writeQueue s) \<noteq> []"
  shows "\<exists>s'. insertWrite now s = Inr s' \<and> write_inv p gone subs s' \<and> write_keeps s s'"
proof -
  let ?q = "writeQueue s"
  obtain e w where w: "fqWait ?q = e # w" using assms(3) by (cases "fqWait ?q") auto
  note base = assms(1) [unfolded write_base_def Let_def]
  have p: "fifoParam s = p" "fpUnit p \<noteq> 0" "fpUnit p \<le> fpWqSize p" "fqCapacity ?q = fpWqSize p" using base by auto
  note calc = calcSize_room [OF p(2)]
  show ?thesis
  proof (cases "(fqInsertPending ?q \<or> fqCapacity ?q < fqUsage ?q + room p (feSize e)) \<and> room p (feSize e) \<le> fpWqSize p")
    case True
    then have "insertWrite now s = Inr s"
      by (simp add: insertWrite_def admit_front_def front_def w p calc Let_def)
    moreover have "write_blocked s" using True w p by (auto simp: write_blocked_def Let_def)
    ultimately show ?thesis using assms by (simp add: write_inv_def)
  next
    case False
    then have idle: "\<not> fqInsertPending ?q" using base w by auto
    define e' w' where new:
      "e' = (if fpWqSize p < room p (feSize e) then hd (split_front p e) else e)"
      "w' = (if fpWqSize p < room p (feSize e) then tl (split_front p e) @ w else w)"
    define small where "small = (feSize e < fpUnit p)"
    have last: "feLast e" "\<forall>x\<in>set w. feLast x" using base idle w by auto
    have pos: "0 < feSize e" using base idle w by (simp add: left_pieces_def)
    have adm: "admit_front p (fpWqSize p) False ?q = Inr (Some (e' # w', room p (feSize e'), small))"
      using False idle p new room_unit [OF p(2)]
      by (auto simp: admit_front_def front_def w calc small_def split_front_def split: if_splits)
    let ?e = "e'\<lparr>feBegin := now, feEnd := now + fpLatency p (room p (feSize e'))\<rparr>"
    let ?s = "s\<lparr>writeQueue := ?q\<lparr>fqWait := ?e # w', fqInsertPending := True, fqUsage := fqUsage ?q + room p (feSize e'),
      fqInsertDone := Some (feEnd ?e),
      fqBegin := (if fqBegin ?q = None then Some (now + begin_delay s (room p (feSize e')) small) else fqBegin ?q),
      fqTransfer := fqTransfer ?q @ [?e]\<rparr>\<rparr>"
    have run: "insertWrite now s = Inr ?s"
      using idle adm by (simp add: insertWrite_def p Let_def)
    have fits: "room p (feSize e') \<le> fpWqSize p"
      using new p room_unit [OF p(2)] by (auto simp: split_front_def split: if_splits)
    have "fuse (gone @ left_pieces (writeQueue ?s)) = fuse ((gone @ fqTransfer ?q) @ e' # w')"
      using fuse_times [where xs = "gone @ fqTransfer ?q" and e = e'] by (simp add: left_pieces_def)
    also have "\<dots> = fuse ((gone @ fqTransfer ?q) @ e # w)"
      using new fuse_split [OF last(1), where xs = "gone @ fqTransfer ?q" and p = p and ys = w] by (auto simp: split_front_def split: if_splits)
    also have "\<dots> = Some subs" using base idle w by (simp add: left_pieces_def)
    finally have "fuse (gone @ left_pieces (writeQueue ?s)) = Some subs" .
    moreover have "\<forall>x\<in>set (gone @ left_pieces (writeQueue ?s)). 0 < feSize x"
      using base idle w new room_large [OF p(2,3), of "feSize e"] p(2)
      by (auto simp: left_pieces_def split_front_def word_gt_0 split: if_splits)
    moreover have "\<forall>x\<in>set w'. feLast x" using new last by (auto simp: split_front_def split: if_splits)
    ultimately have "write_base p gone subs ?s"
      using base fits p by (auto simp: write_base_def Let_def hd_append)
    then show ?thesis
      using run by (auto simp: write_inv_def write_blocked_def write_moving_def write_keeps_def Let_def)
  qed
qed

text \<open>A request of zero bytes is ignored.\<close>

definition accepted :: "'f fifo_request list \<Rightarrow> 'f fifo_request list" where
  "accepted rs = filter (\<lambda>(a, n, b, f). n \<noteq> 0) rs"

lemma accepted_Cons: "accepted (r # rs) = accepted [r] @ accepted rs"
  by (simp add: accepted_def)

lemma FIFOEntry_new_fields [simp]:
  "feLast (FIFOEntry_new a n b f now)" "feSize (FIFOEntry_new a n b f now) = n"
  "whole (FIFOEntry_new a n b f now) = (a, n, b, f)"
  by (simp_all add: FIFOEntry_new_def whole_def)

lemma fifo_dmaWrite_inv:
  assumes "write_inv p gone subs s"
  shows "\<exists>s'. fifo_dmaWrite a n b f now s = Inr s' \<and> write_inv p gone (subs @ accepted [(a, n, b, f)]) s' \<and> write_keeps s s'"
proof (cases "n = 0")
  case True
  then show ?thesis using assms by (simp add: fifo_dmaWrite_def accepted_def)
next
  case False
  let ?e = "FIFOEntry_new a n b f now"
  let ?s = "s\<lparr>writeQueue := (writeQueue s)\<lparr>fqWait := fqWait (writeQueue s) @ [?e]\<rparr>\<rparr>"
  have base: "write_base p gone subs s" and "write_moving s" using assms by (auto simp: write_inv_def)
  then have "write_moving ?s" by (simp add: write_moving_def Let_def)
  have left: "left_pieces (writeQueue ?s) = left_pieces (writeQueue s) @ [?e]"
    using base by (auto simp: left_pieces_def write_base_def Let_def)
  have "fuse (gone @ left_pieces (writeQueue s)) = Some subs" using base by (simp add: write_base_def Let_def)
  then have "fuse (gone @ left_pieces (writeQueue ?s)) = Some (subs @ accepted [(a, n, b, f)])"
    using fuse_append [of "gone @ left_pieces (writeQueue s)" subs "[?e]"] False
    by (simp only: left append_assoc) (simp add: join_piece_def accepted_def)
  then have "write_base p gone (subs @ accepted [(a, n, b, f)]) ?s"
    using base left False by (auto simp: write_base_def Let_def word_gt_0 split: if_splits)
  from insertWrite_inv [OF this \<open>write_moving ?s\<close>, of now]
  show ?thesis using False by (simp add: fifo_dmaWrite_def write_keeps_def Let_def)
qed

text \<open>What a callback does: it hands over the writes \<open>react\<close> lists.\<close>

definition react_run :: "('f \<Rightarrow> tick \<Rightarrow> 'f fifo_request list) \<Rightarrow> 'f \<Rightarrow> tick \<Rightarrow> 'f fifo \<Rightarrow> 'f fifo res" where
  "react_run react f now = efold (\<lambda>(a, n, b, g). fifo_dmaWrite a n b g now) (react f now)"

lemma react_run_inv:
  assumes "write_inv p gone subs s"
  shows "\<exists>s'. efold (\<lambda>(a, n, b, g). fifo_dmaWrite a n b g now) rs s = Inr s' \<and>
    write_inv p gone (subs @ accepted rs) s' \<and> write_keeps s s'"
  using assms
proof (induction rs arbitrary: s subs)
  case Nil
  then show ?case by (simp add: accepted_def)
next
  case (Cons r rs)
  obtain a n b f where r: "r = (a, n, b, f)" by (cases r)
  from fifo_dmaWrite_inv [OF Cons.prems] obtain t where
    t: "fifo_dmaWrite a n b f now s = Inr t" "write_inv p gone (subs @ accepted [r]) t" "write_keeps s t"
    unfolding r by blast
  from Cons.IH [OF t(2)] show ?case
    using t accepted_Cons [of r rs] by (auto simp: r dest: write_keeps_trans)
qed

lemma transferWrite_inv:
  assumes "write_base p gone subs s" and "fqTransfer (writeQueue s) \<noteq> []" and "fqBegin (writeQueue s) = None"
  shows "\<exists>s'. transferWrite s = Inr s' \<and> write_base p gone subs s' \<and> write_moving s' \<and>
    (write_blocked s \<longrightarrow> write_blocked s')"
proof -
  obtain e es where e: "fqTransfer (writeQueue s) = e # es" using assms(2) by (cases "fqTransfer (writeQueue s)") auto
  show ?thesis
    using assms(1,3) e unfolding transferWrite_def Let_def front_def
    by (auto simp: write_base_def write_moving_def write_blocked_def left_pieces_def sent_upstream_def Let_def)
qed

text \<open>The end of a piece.\<close>

lemma write_pop_inv:
  assumes "write_inv p gone subs s" and "fqTransferPending (writeQueue s)" and "fqSubmit (writeQueue s) = None"
  defines "e \<equiv> hd (fqTransfer (writeQueue s))"
  shows "\<exists>s'. transferWriteDoneNext (react_run react) now s = Inr s' \<and>
    write_inv p (gone @ [e]) (subs @ (if feLast e then accepted (react (feFunc e) now) else [])) s'"
proof -
  let ?subs = "subs @ (if feLast e then accepted (react (feFunc e) now) else [])"
  have "fqTransfer (writeQueue s) \<noteq> []" using assms(1,2) by (simp add: write_inv_def write_base_def Let_def)
  then have fr: "front (fqTransfer (writeQueue s)) = Inr e" by (simp add: e_def front_def split: list.splits)
  obtain t where t: "(if feLast e then react_run react (feFunc e) now s else Inr s) = Inr t"
      "write_inv p gone ?subs t" "write_keeps s t"
  proof (cases "feLast e")
    case True
    with react_run_inv [OF assms(1), of now "react (feFunc e) now"] show thesis
      using that by (auto simp: react_run_def)
  next
    case False
    then show thesis using that [of s] assms(1) by simp
  qed
  let ?q = "writeQueue t"
  obtain es where es: "fqTransfer ?q = e # es"
    using t(3) \<open>fqTransfer (writeQueue s) \<noteq> []\<close> by (cases "fqTransfer (writeQueue s)") (auto simp: e_def write_keeps_def Let_def)
  have pend: "fqTransferPending ?q" "fqSubmit ?q = None" using t(3) assms(2,3) by (auto simp: write_keeps_def Let_def)
  have base: "write_base p gone ?subs t" using t(2) by (simp add: write_inv_def)
  then have p: "fifoParam t = p" "fpUnit p \<noteq> 0" by (simp_all add: write_base_def Let_def)
  let ?t = "t\<lparr>writeQueue := ?q\<lparr>fqUsage := fqUsage ?q - room p (feSize e), fqTransferPending := False,
    fqTransfer := tl (fqTransfer ?q)\<rparr>\<rparr>"
  have base': "write_base p (gone @ [e]) ?subs ?t"
    using base pend es by (auto simp: write_base_def Let_def left_pieces_def split: if_splits)
  obtain u where u: "(if fqTransfer (writeQueue ?t) \<noteq> [] \<and> fqBegin (writeQueue ?t) = None then transferWrite ?t else Inr ?t) = Inr u"
      "write_base p (gone @ [e]) ?subs u" "write_moving u"
  proof (cases "fqTransfer (writeQueue ?t) \<noteq> [] \<and> fqBegin (writeQueue ?t) = None")
    case True
    with transferWrite_inv [OF base'] show thesis using that by auto
  next
    case False
    then show thesis using that [of ?t] base' by (auto simp: write_moving_def Let_def)
  qed
  obtain v where v: "(if fqWait (writeQueue u) \<noteq> [] then insertWrite now u else Inr u) = Inr v"
      "write_inv p (gone @ [e]) ?subs v"
  proof (cases "fqWait (writeQueue u) = []")
    case True
    then show thesis using that [of u] u by (simp add: write_inv_def write_blocked_def Let_def)
  next
    case False
    with insertWrite_inv [OF u(2,3)] show thesis using that by auto
  qed
  have "transferWriteDoneNext (react_run react) now s = Inr v"
    unfolding transferWriteDoneNext_def fr ebind_simps t(1) p(1) calcSize_room [OF p(2)] prod.case Let_def
    using u(1) v(1) by simp
  with v(2) show ?thesis by blast
qed

lemma insertWriteDone_inv:
  assumes "write_inv p gone subs s" and "fqInsertDone (writeQueue s) \<noteq> None"
  shows "\<exists>s'. on_write_inserted now s = Inr s' \<and> write_inv p gone subs s'"
proof -
  let ?q = "writeQueue s"
  note base = assms(1) [unfolded write_inv_def write_base_def Let_def]
  obtain e w where w: "fqWait ?q = e # w" "fqInsertPending ?q" using base assms(2) by (cases "fqWait ?q") auto
  let ?s = "s\<lparr>writeQueue := ?q\<lparr>fqInsertDone := None, fqWait := w, fqInsertPending := False\<rparr>\<rparr>"
  have "write_base p gone subs ?s" "write_moving ?s"
    using base w by (auto simp: write_base_def write_moving_def Let_def left_pieces_def)
  moreover have "on_write_inserted now s = (if w \<noteq> [] then insertWrite now ?s else Inr ?s)"
    by (simp add: on_write_inserted_def insertWriteDone_def w front_def)
  ultimately show ?thesis
    using insertWrite_inv [of p gone subs ?s now] by (auto simp: write_inv_def write_blocked_def Let_def)
qed

lemma beginWrite_inv:
  assumes "write_inv p gone subs s" and "fqBegin (writeQueue s) \<noteq> None"
  shows "\<exists>s'. on_write_begin s = Inr s' \<and> write_inv p gone subs s'"
proof -
  let ?s = "s\<lparr>writeQueue := (writeQueue s)\<lparr>fqBegin := None\<rparr>\<rparr>"
  have "write_base p gone subs ?s" "fqTransfer (writeQueue ?s) \<noteq> []"
    using assms by (auto simp: write_inv_def write_base_def left_pieces_def Let_def)
  from transferWrite_inv [OF this] show ?thesis
    using assms by (auto simp: on_write_begin_def write_inv_def write_blocked_def Let_def)
qed

section \<open>Runs\<close>

text \<open>
  A FIFO under writes: the requests accepted, the pieces confirmed and the callbacks run, with their
  ticks. The upstream interface reports the end of the piece it was given, at any tick, once.
\<close>

record 'f write_run =
  wrFifo :: "'f fifo"
  wrSubs :: "'f fifo_request list"
  wrGone :: "'f fifo_entry list"
  wrCalls :: "('f \<times> tick) list"

definition popped :: "('f \<Rightarrow> tick \<Rightarrow> 'f fifo_request list) \<Rightarrow> tick \<Rightarrow> 'f write_run \<Rightarrow> 'f fifo \<Rightarrow> 'f write_run" where
  "popped react now x s =
     (let e = hd (fqTransfer (writeQueue (wrFifo x))) in
      \<lparr>wrFifo = s, wrSubs = wrSubs x @ (if feLast e then accepted (react (feFunc e) now) else []),
       wrGone = wrGone x @ [e], wrCalls = wrCalls x @ (if feLast e then [(feFunc e, now)] else [])\<rparr>)"

definition awaits_upstream :: "'f fifo \<Rightarrow> bool" where
  "awaits_upstream s = (fqTransferPending (writeQueue s) \<and> fqSubmit (writeQueue s) = None)"

definition confirmed_at :: "'f fifo \<Rightarrow> tick" where
  "confirmed_at s = (let e = hd (fqTransfer (writeQueue s)) in feEnd e + tail_latency s e)"

inductive write_step :: "('f \<Rightarrow> tick \<Rightarrow> 'f fifo_request list) \<Rightarrow> 'f write_run \<Rightarrow> 'f write_run \<Rightarrow> bool"
  for react where
  submit: "fifo_dmaWrite a n b f now (wrFifo x) = Inr s \<Longrightarrow>
    write_step react x (x\<lparr>wrFifo := s, wrSubs := wrSubs x @ accepted [(a, n, b, f)]\<rparr>)"
| inserted: "\<lbrakk> fqInsertDone (writeQueue (wrFifo x)) = Some now; on_write_inserted now (wrFifo x) = Inr s \<rbrakk> \<Longrightarrow>
    write_step react x (x\<lparr>wrFifo := s\<rparr>)"
| started: "\<lbrakk> fqBegin (writeQueue (wrFifo x)) = Some now; on_write_begin (wrFifo x) = Inr s \<rbrakk> \<Longrightarrow>
    write_step react x (x\<lparr>wrFifo := s\<rparr>)"
| confirm_late: "\<lbrakk> awaits_upstream (wrFifo x); now < confirmed_at (wrFifo x);
      transferWriteDone (react_run react) now (wrFifo x) = Inr s \<rbrakk> \<Longrightarrow>
    write_step react x (x\<lparr>wrFifo := s\<rparr>)"
| confirm: "\<lbrakk> awaits_upstream (wrFifo x); confirmed_at (wrFifo x) \<le> now;
      transferWriteDone (react_run react) now (wrFifo x) = Inr s \<rbrakk> \<Longrightarrow>
    write_step react x (popped react now x s)"
| finish: "\<lbrakk> fqSubmit (writeQueue (wrFifo x)) = Some now; on_write_submit (react_run react) now (wrFifo x) = Inr s \<rbrakk> \<Longrightarrow>
    write_step react x (popped react now x s)"

inductive write_reach :: "fifo_param \<Rightarrow> ('f \<Rightarrow> tick \<Rightarrow> 'f fifo_request list) \<Rightarrow> 'f write_run \<Rightarrow> bool" for p react where
  start: "FIFO_new p = Inr s \<Longrightarrow> write_reach p react \<lparr>wrFifo = s, wrSubs = [], wrGone = [], wrCalls = []\<rparr>"
| step: "write_reach p react x \<Longrightarrow> write_step react x y \<Longrightarrow> write_reach p react y"

definition run_ok :: "fifo_param \<Rightarrow> 'f write_run \<Rightarrow> bool" where
  "run_ok p x \<longleftrightarrow> write_inv p (wrGone x) (wrSubs x) (wrFifo x) \<and>
     map fst (wrCalls x) = map feFunc (filter feLast (wrGone x))"

lemma run_ok_popped:
  assumes "run_ok p x"
    and "write_inv p (wrGone x @ [e]) (wrSubs x @ (if feLast e then accepted (react (feFunc e) now) else [])) s"
    and "e = hd (fqTransfer (writeQueue (wrFifo x)))"
  shows "run_ok p (popped react now x s)"
  using assms unfolding assms(3) by (auto simp: run_ok_def popped_def Let_def)

lemma FIFO_new_inv:
  assumes "FIFO_new p = Inr s" and "fpUnit p \<noteq> 0"
  shows "write_inv p [] [] s"
  using assms
  by (auto simp: FIFO_new_def fifo_queue_new_def write_inv_def write_base_def write_blocked_def write_moving_def
      left_pieces_def Let_def)

lemma confirm_late_inv:
  assumes "write_inv p gone subs s" and "awaits_upstream s" and "now < confirmed_at s"
  shows "\<exists>s'. transferWriteDone run now s = Inr s' \<and> write_inv p gone subs s'"
proof -
  obtain e es where e: "fqTransfer (writeQueue s) = e # es"
    using assms(1,2) by (cases "fqTransfer (writeQueue s)") (auto simp: write_inv_def write_base_def awaits_upstream_def Let_def)
  have "\<not> feEnd e + tail_latency s e \<le> now" using assms(3) e by (simp add: confirmed_at_def not_le)
  with assms e have "transferWriteDone run now s = Inr (s\<lparr>writeQueue := (writeQueue s)\<lparr>fqSubmit := Some (confirmed_at s)\<rparr>\<rparr>)"
    by (simp add: transferWriteDone_def front_def confirmed_at_def Let_def)
  then show ?thesis
    using assms(1,2) by (auto simp: write_inv_def write_base_def write_blocked_def write_moving_def left_pieces_def awaits_upstream_def Let_def)
qed

lemma confirm_inv:
  assumes "write_inv p gone subs s" and "awaits_upstream s" and "confirmed_at s \<le> now"
  defines "e \<equiv> hd (fqTransfer (writeQueue s))"
  shows "\<exists>s'. transferWriteDone (react_run react) now s = Inr s' \<and>
    write_inv p (gone @ [e]) (subs @ (if feLast e then accepted (react (feFunc e) now) else [])) s'"
proof -
  obtain e' es where e: "fqTransfer (writeQueue s) = e' # es"
    using assms(1,2) by (cases "fqTransfer (writeQueue s)") (auto simp: write_inv_def write_base_def awaits_upstream_def Let_def)
  with assms(3) have same: "transferWriteDone (react_run react) now s = transferWriteDoneNext (react_run react) now s"
    by (simp add: transferWriteDone_def front_def confirmed_at_def Let_def)
  show ?thesis
    unfolding same e_def by (rule write_pop_inv [OF assms(1)]) (use assms(2) in \<open>simp_all add: awaits_upstream_def\<close>)
qed

lemma finish_inv:
  assumes "write_inv p gone subs s" and "fqSubmit (writeQueue s) \<noteq> None"
  defines "e \<equiv> hd (fqTransfer (writeQueue s))"
  shows "\<exists>s'. on_write_submit (react_run react) now s = Inr s' \<and>
    write_inv p (gone @ [e]) (subs @ (if feLast e then accepted (react (feFunc e) now) else [])) s'"
proof -
  let ?s = "s\<lparr>writeQueue := (writeQueue s)\<lparr>fqSubmit := None\<rparr>\<rparr>"
  have "write_inv p gone subs ?s"
    using assms(1) by (auto simp: write_inv_def write_base_def write_blocked_def write_moving_def left_pieces_def Let_def)
  moreover have "fqTransferPending (writeQueue ?s)" using assms(1,2) by (auto simp: write_inv_def write_base_def Let_def)
  ultimately have "\<exists>s'. transferWriteDoneNext (react_run react) now ?s = Inr s' \<and>
      write_inv p (gone @ [hd (fqTransfer (writeQueue ?s))]) (subs @ (if feLast (hd (fqTransfer (writeQueue ?s)))
        then accepted (react (feFunc (hd (fqTransfer (writeQueue ?s)))) now) else [])) s'"
    by (intro write_pop_inv) simp_all
  then show ?thesis by (cases "feLast e") (simp_all add: on_write_submit_def e_def)
qed

lemma write_step_ok:
  assumes "write_step react x y" and "run_ok p x"
  shows "run_ok p y"
  using assms(1)
proof cases
  case (submit a n b f now s)
  with fifo_dmaWrite_inv [of p "wrGone x" "wrSubs x" "wrFifo x" a n b f now] assms(2)
  show ?thesis by (auto simp: run_ok_def)
next
  case (inserted now s)
  with insertWriteDone_inv [of p "wrGone x" "wrSubs x" "wrFifo x" now] assms(2)
  show ?thesis by (auto simp: run_ok_def)
next
  case (started now s)
  with beginWrite_inv [of p "wrGone x" "wrSubs x" "wrFifo x"] assms(2)
  show ?thesis by (auto simp: run_ok_def)
next
  case (confirm_late now s)
  with confirm_late_inv [of p "wrGone x" "wrSubs x" "wrFifo x" now "react_run react"] assms(2)
  show ?thesis by (auto simp: run_ok_def)
next
  case (confirm now s)
  show ?thesis unfolding confirm(1)
    by (rule run_ok_popped [OF assms(2) _ refl])
      (use confirm confirm_inv [of p "wrGone x" "wrSubs x" "wrFifo x" now react] assms(2) in \<open>auto simp: run_ok_def\<close>)
next
  case (finish now s)
  show ?thesis unfolding finish(1)
    by (rule run_ok_popped [OF assms(2) _ refl])
      (use finish finish_inv [of p "wrGone x" "wrSubs x" "wrFifo x" react now] assms(2) in \<open>auto simp: run_ok_def\<close>)
qed

lemma write_reach_ok: "write_reach p react x \<Longrightarrow> fpUnit p \<noteq> 0 \<Longrightarrow> run_ok p x"
proof (induction rule: write_reach.induct)
  case (start s)
  then show ?case by (simp add: run_ok_def FIFO_new_inv)
next
  case (step x y)
  then show ?case using write_step_ok by blast
qed

lemma funcs_prefix:
  assumes "fuse (xs @ ys) = Some rs"
  shows "map feFunc (filter feLast xs) = map (\<lambda>(a, n, b, f). f) (take (length (filter feLast xs)) rs)"
  using arg_cong [OF fuse_funcs [OF assms], of "take (length (filter feLast xs))"] by (simp add: take_map)

section \<open>Samples\<close>

definition tiny_fifo :: fifo_param where
  "tiny_fifo = \<lparr>fpRqSize = 8, fpWqSize = 8, fpUnit = 4, fpLatency = (\<lambda>n. n)\<rparr>"

definition tiny_start :: "unit fifo" where
  "tiny_start = \<lparr>fifoParam = tiny_fifo, unitLatency = 4, readQueue = fifo_queue_new 8, writeQueue = fifo_queue_new 8,
     fifoCounter = 0, readCompletion = []\<rparr>"

lemma tiny_new: "FIFO_new tiny_fifo = Inr tiny_start"
  by (simp add: FIFO_new_def tiny_fifo_def tiny_start_def)

definition tiny_run :: "unit write_run" where
  "tiny_run =
     (case fifo_dmaWrite 100 6 None () 0 tiny_start of
        Inl _ \<Rightarrow> undefined
      | Inr s \<Rightarrow> \<lparr>wrFifo = s, wrSubs = [(100, 6, None, ())], wrGone = [], wrCalls = []\<rparr>)"

lemma tiny_served: "\<exists>s. fifo_dmaWrite 100 6 None () 0 tiny_start = Inr s"
proof -
  have "write_inv tiny_fifo [] [] tiny_start" by (rule FIFO_new_inv [OF tiny_new]) (simp add: tiny_fifo_def)
  from fifo_dmaWrite_inv [OF this] show ?thesis by blast
qed

lemma tiny_fields: "wrGone tiny_run = []" "wrSubs tiny_run = [(100, 6, None, ())]"
  using tiny_served by (auto simp: tiny_run_def)

lemma tiny_reach: "write_reach tiny_fifo (\<lambda>_ _. []) tiny_run"
proof -
  obtain s where s: "fifo_dmaWrite 100 6 None () 0 tiny_start = Inr s" using tiny_served by blast
  let ?x = "\<lparr>wrFifo = tiny_start, wrSubs = [], wrGone = [], wrCalls = []\<rparr>"
  have "write_step (\<lambda>_ _. []) ?x (?x\<lparr>wrFifo := s, wrSubs := wrSubs ?x @ accepted [(100, 6, None, ())]\<rparr>)"
    by (rule write_step.submit [where now = 0]) (simp add: s)
  from write_reach.step [OF write_reach.start [OF tiny_new] this] show ?thesis
    by (simp add: tiny_run_def s accepted_def)
qed

text \<open>A request larger than the FIFO is written into it without a look at the room: after 40 bytes have
  been handed over and two of its pieces written, twelve bytes are in a FIFO of eight.\<close>

lemma large_request_overfills:
  "\<exists>s. ebind (fifo_dmaWrite 0 40 None () 0 tiny_start) (efold (\<lambda>t. on_write_inserted t) [4, 8]) = Inr s \<and>
     fqCapacity (writeQueue s) = 8 \<and> fqUsage (writeQueue s) = 12"
  by (simp add: fifo_dmaWrite_def insertWrite_def admit_front_def front_def calcSize_def split_front_def begin_delay_def
      on_write_inserted_def insertWriteDone_def tiny_start_def tiny_fifo_def fifo_queue_new_def FIFOEntry_new_def Let_def)

section \<open>The claims\<close>

text \<open>C40. The write side of the FIFO, under any interleaving of requests, its own events and reports of the
  upstream interface, with callbacks that hand over more writes: the pieces sent upstream, followed by
  those still inside, join up to the requests in order; the callbacks run are those of the first requests,
  in order and once each; the usage is the room of the pieces inside; while a piece is inside an event is
  scheduled or upstream owes a report; and no handler fails.\<close>

theorem fifo_writes:
  assumes "write_reach p react x" and "fpUnit p \<noteq> 0"
  defines "q \<equiv> writeQueue (wrFifo x)"
  shows "fuse (wrGone x @ left_pieces q) = Some (wrSubs x) \<and>
    fqIssued q = map sent_upstream (wrGone x @ take (of_bool (fqTransferPending q)) (left_pieces q)) \<and>
    map fst (wrCalls x) = map (\<lambda>(a, n, b, f). f) (take (length (wrCalls x)) (wrSubs x)) \<and>
    fqUsage q = (\<Sum>e\<leftarrow>fqTransfer q. room p (feSize e)) \<and>
    (left_pieces q \<noteq> [] \<longrightarrow>
       fqInsertDone q \<noteq> None \<or> fqBegin q \<noteq> None \<or> fqSubmit q \<noteq> None \<or> awaits_upstream (wrFifo x)) \<and>
    \<not> isl (fifo_dmaWrite a n b f now (wrFifo x)) \<and>
    (fqInsertDone q \<noteq> None \<longrightarrow> \<not> isl (on_write_inserted now (wrFifo x))) \<and>
    (fqBegin q \<noteq> None \<longrightarrow> \<not> isl (on_write_begin (wrFifo x))) \<and>
    (fqSubmit q \<noteq> None \<longrightarrow> \<not> isl (on_write_submit (react_run react) now (wrFifo x))) \<and>
    (awaits_upstream (wrFifo x) \<longrightarrow> \<not> isl (transferWriteDone (react_run react) now (wrFifo x)))"
proof -
  have ok: "run_ok p x" by (rule write_reach_ok [OF assms(1,2)])
  then have inv: "write_inv p (wrGone x) (wrSubs x) (wrFifo x)" by (simp add: run_ok_def)
  then have base: "write_base p (wrGone x) (wrSubs x) (wrFifo x)" by (simp add: write_inv_def)
  note facts = base [unfolded write_base_def Let_def, folded q_def]
  have "map fst (wrCalls x) = map (\<lambda>(a, n, b, f). f) (take (length (wrCalls x)) (wrSubs x))"
  proof -
    have "map fst (wrCalls x) = map feFunc (filter feLast (wrGone x))" using ok by (simp add: run_ok_def)
    moreover from this have "length (wrCalls x) = length (filter feLast (wrGone x))" by (metis length_map)
    moreover have "fuse (wrGone x @ left_pieces q) = Some (wrSubs x)" using facts by blast
    ultimately show ?thesis using funcs_prefix by metis
  qed
  moreover have "take (of_bool (fqTransferPending q)) (left_pieces q) =
      (if fqTransferPending q then [hd (fqTransfer q)] else [])"
    using facts by (cases "fqTransfer q") (auto simp: left_pieces_def)
  moreover have "fqInsertDone q \<noteq> None \<or> fqBegin q \<noteq> None \<or> fqSubmit q \<noteq> None \<or> awaits_upstream (wrFifo x)"
    if "left_pieces q \<noteq> []"
  proof (cases "fqTransfer q = [] \<and> \<not> fqInsertPending q")
    case True
    then have "fqUsage q = 0" "fqWait q \<noteq> []" using facts that by (auto simp: left_pieces_def)
    with True inv facts show ?thesis by (auto simp: write_inv_def write_blocked_def Let_def leD simp flip: q_def)
  next
    case False
    then show ?thesis
      using inv facts by (auto simp: write_inv_def write_moving_def awaits_upstream_def Let_def simp flip: q_def)
  qed
  moreover have "\<not> isl (transferWriteDone (react_run react) now (wrFifo x))" if "awaits_upstream (wrFifo x)"
    using confirm_inv [OF inv that, of now react] confirm_late_inv [OF inv that, of now "react_run react"]
    by (cases "now < confirmed_at (wrFifo x)") (auto simp: not_less)
  ultimately show ?thesis
    using facts fifo_dmaWrite_inv [OF inv, of a n b f now] insertWriteDone_inv [OF inv, of now] beginWrite_inv [OF inv]
      finish_inv [OF inv, of react now]
    unfolding q_def by auto
qed

lemma fifo_writes_witness: "fuse (left_pieces (writeQueue (wrFifo tiny_run))) = Some [(100, 6, None, ())]"
  using fifo_writes [OF tiny_reach] tiny_fields by (simp add: tiny_fifo_def)

end
