(* ===== verification/NvmeSpaces.thy ===== *)
theory NvmeSpaces
  imports NvmeQueue Requests
begin

text \<open>
  Namespaces of the NVMe interface, \<^verbatim>\<open>src/hil/nvme/subsystem.cc\<close> and \<^verbatim>\<open>src/hil/nvme/namespace.cc\<close>: each
  owns a range of the logical pages of the drive. They are created first fit in the gaps the others
  leave, destroyed, attached, formatted, and turn the block addresses of host commands into logical
  pages. A drive without disk images is described (the default of the configuration).

  The queries to the layers below are arguments: \<open>used\<close> is \<open>HIL::getUsedPageCount\<close>. A division by
  zero is undefined behaviour.
\<close>

section \<open>Codes\<close>

abbreviation TYPE_GENERIC :: u32 where "TYPE_GENERIC \<equiv> 0"
abbreviation TYPE_SPECIFIC :: u32 where "TYPE_SPECIFIC \<equiv> 1"
abbreviation TYPE_MEDIA :: u32 where "TYPE_MEDIA \<equiv> 2"

abbreviation STATUS_SUCCESS :: u32 where "STATUS_SUCCESS \<equiv> 0"
abbreviation STATUS_INVALID_OPCODE :: u32 where "STATUS_INVALID_OPCODE \<equiv> 1"
abbreviation STATUS_INVALID_FIELD :: u32 where "STATUS_INVALID_FIELD \<equiv> 2"
abbreviation STATUS_ABORT_INVALID_NAMESPACE :: u32 where "STATUS_ABORT_INVALID_NAMESPACE \<equiv> 11"
abbreviation STATUS_FORMAT_IN_PROGRESS :: u32 where "STATUS_FORMAT_IN_PROGRESS \<equiv> 132"
abbreviation STATUS_INVALID_LOG_PAGE :: u32 where "STATUS_INVALID_LOG_PAGE \<equiv> 9"
abbreviation STATUS_INVALID_FORMAT :: u32 where "STATUS_INVALID_FORMAT \<equiv> 10"
abbreviation STATUS_NAMESPACE_INSUFFICIENT_CAPACITY :: u32 where "STATUS_NAMESPACE_INSUFFICIENT_CAPACITY \<equiv> 21"
abbreviation STATUS_NAMESPACE_ID_UNAVAILABLE :: u32 where "STATUS_NAMESPACE_ID_UNAVAILABLE \<equiv> 22"
abbreviation STATUS_NAMESPACE_ALREADY_ATTACHED :: u32 where "STATUS_NAMESPACE_ALREADY_ATTACHED \<equiv> 24"
abbreviation STATUS_NAMESPACE_IS_PRIVATE :: u32 where "STATUS_NAMESPACE_IS_PRIVATE \<equiv> 25"
abbreviation STATUS_NAMESPACE_NOT_ATTACHED :: u32 where "STATUS_NAMESPACE_NOT_ATTACHED \<equiv> 26"
abbreviation STATUS_CONTROLLER_LIST_INVALID :: u32 where "STATUS_CONTROLLER_LIST_INVALID \<equiv> 28"

abbreviation NSID_NONE :: u32 where "NSID_NONE \<equiv> 0"
abbreviation NSID_LOWEST :: u32 where "NSID_LOWEST \<equiv> 1"
abbreviation NSID_ALL :: u32 where "NSID_ALL \<equiv> 0xFFFFFFFF"

section \<open>State\<close>

record ns_info =
  nsSize :: u64
  nsCapacity :: u64
  nsUtil :: u64
  nsBytesL :: u64
  nsBytesH :: u64
  nsFormat :: u8
  nsProtection :: u8
  nsSharing :: u8
  nsLba :: u32
  nsRange :: lpn_range

record space =
  spInfo :: ns_info
  spId :: u32
  spAttached :: bool
  spAllocated :: bool
  spFormatEnd :: tick

record subsystem =
  ssSpaces :: "space list"
  ssQueues :: u32
  ssPage :: u32
  ssTotal :: u64
  ssAllocated :: u64
  ssCommands :: u64

text \<open>The information of a new namespace is not initialised: it is the argument.\<close>

definition Namespace_new :: "ns_info \<Rightarrow> space" where
  "Namespace_new garbage =
     \<lparr>spInfo = garbage, spId = NSID_NONE, spAttached = False, spAllocated = False, spFormatEnd = 0\<rparr>"

definition Namespace_setData :: "u32 \<Rightarrow> ns_info \<Rightarrow> space \<Rightarrow> space" where
  "Namespace_setData nsid info sp = sp\<lparr>spId := nsid, spInfo := info, spAllocated := True\<rparr>"

definition Namespace_format :: "tick \<Rightarrow> space \<Rightarrow> space" where
  "Namespace_format tk sp = sp\<lparr>spFormatEnd := tk\<rparr>"

definition nLBAFormat :: nat where "nLBAFormat = 4"

definition lbaSize :: "u32 list" where "lbaSize = [512, 1024, 2048, 4096]"

definition lbaSize_at :: "u8 \<Rightarrow> u32 res" where
  "lbaSize_at i = (if unat i < nLBAFormat then Inr (lbaSize ! unat i) else Inl (Undefined ''lbaSize''))"

definition divide :: "u64 \<Rightarrow> u64 \<Rightarrow> u64 res" where
  "divide a b = (if b = 0 then Inl (Undefined ''division by zero'') else Inr (a div b))"

section \<open>Block addresses\<close>

definition convertUnit :: "u32 \<Rightarrow> ns_info \<Rightarrow> u64 \<Rightarrow> u64 \<Rightarrow> hil_request \<Rightarrow> hil_request res" where
  "convertUnit page info slba nlblk req =
     (let lba = ucast (nsLba info) in
      ebind (divide (ucast page) lba) (\<lambda>ratio.
      if ratio = 0 then
        ebind (divide lba (ucast page)) (\<lambda>ratio.
        Inr (req\<lparr>hilRange := LPNRange_new (slba * ratio + slpn (nsRange info)) (nlblk * ratio),
                 hilOffset := 0, hilLength := nlblk * lba\<rparr>))
      else
        (let off = slba mod ratio in
         Inr (req\<lparr>hilRange := LPNRange_new (slba div ratio + slpn (nsRange info))
                    ((nlblk + off + ratio - 1) div ratio),
                  hilOffset := off * lba, hilLength := nlblk * lba\<rparr>))))"

text \<open>The flush of a namespace covers its range.\<close>

definition flushRequest :: "u32 \<Rightarrow> ns_info \<Rightarrow> hil_request" where
  "flushRequest page info =
     HILRequest_new\<lparr>hilRange := nsRange info, hilOffset := 0, hilLength := nlp (nsRange info) * ucast page\<rparr>"

section \<open>Creation\<close>

text \<open>
  The merge of adjacent ranges: its iterators are indices, \<open>length l\<close> the end. The guard that ends
  it holds in the first pass unless the first iterator is the end.
\<close>

definition merge_ranges :: "lpn_range list \<Rightarrow> lpn_range list res" where
  "merge_ranges l =
     (if l = [] then Inr l
      else let i = 0; j = i + 1 in
        if i \<noteq> length l \<or> j = length l then Inr l else Inl (Undefined ''end of a list''))"

text \<open>One allocated range is cut out of the last free one.\<close>

definition split_last :: "lpn_range \<Rightarrow> lpn_range list \<Rightarrow> lpn_range list res" where
  "split_last a free =
     (let b = last free in
      if slpn b \<le> slpn a \<and> slpn a + nlp a \<le> slpn b + nlp b then
        Inr (butlast free @ [b\<lparr>nlp := slpn a - slpn b\<rparr>,
               LPNRange_new (slpn a + nlp a) (slpn b + nlp b - slpn a - nlp a)])
      else Inl (Panic ''BUG''))"

definition free_ranges :: "subsystem \<Rightarrow> lpn_range list res" where
  "free_ranges s =
     ebind (merge_ranges (sort_key slpn (map (nsRange \<circ> spInfo) (ssSpaces s)))) (\<lambda>allocated.
     efold split_last allocated [LPNRange_new 0 (ssTotal s)])"

text \<open>The first range that is large enough; the information keeps its range when there is none.\<close>

definition take_range :: "u64 \<Rightarrow> lpn_range list \<Rightarrow> ns_info \<Rightarrow> ns_info" where
  "take_range n free info =
     (case find (\<lambda>r. n \<le> nlp r) free of None \<Rightarrow> info | Some r \<Rightarrow> info\<lparr>nsRange := r\<lparr>nlp := n\<rparr>\<rparr>)"

text \<open>The information is changed in place: it is part of the result.\<close>

definition createNamespace :: "u32 \<Rightarrow> ns_info \<Rightarrow> subsystem \<Rightarrow> (ns_info \<times> bool \<times> subsystem) res" where
  "createNamespace nsid info s =
     ebind (divide (nsSize info) (ucast (ssPage s))) (\<lambda>q.
     ebind (lbaSize_at (nsFormat info)) (\<lambda>lba.
     let n = q * ucast lba in
     if ssTotal s - ssAllocated s < n then Inr (info, False, s)
     else
       ebind (free_ranges s) (\<lambda>free.
       let info = take_range n free info in
       if nlp (nsRange info) = 0 then Inr (info, False, s)
       else
         (let info = info\<lparr>nsBytesL := n * ucast (ssPage s), nsBytesH := 0\<rparr>;
              sp = Namespace_setData nsid info (Namespace_new info)
          in Inr (info, True, s\<lparr>ssAllocated := ssAllocated s + n, ssSpaces := sort_key spId (ssSpaces s @ [sp])\<rparr>)))))"

definition destroyNamespace :: "u32 \<Rightarrow> subsystem \<Rightarrow> (bool \<times> subsystem) res" where
  "destroyNamespace nsid s =
     (case find (\<lambda>sp. spId sp = nsid) (ssSpaces s) of
        None \<Rightarrow> Inr (False, s)
      | Some sp \<Rightarrow>
          ebind (divide (nsSize (spInfo sp) * ucast (nsLba (spInfo sp))) (ucast (ssPage s))) (\<lambda>n.
          Inr (True, s\<lparr>ssAllocated := ssAllocated s - n, ssSpaces := remove1 sp (ssSpaces s)\<rparr>)))"

section \<open>Construction\<close>

fun lba_format :: "u32 \<Rightarrow> u32 list \<Rightarrow> nat \<Rightarrow> nat option" where
  "lba_format lba [] i = None"
| "lba_format lba (x # xs) i = (if x = lba then Some i else lba_format lba xs (Suc i))"

definition attach_back :: "subsystem \<Rightarrow> subsystem" where
  "attach_back s =
     s\<lparr>ssSpaces := butlast (ssSpaces s) @ [(last (ssSpaces s))\<lparr>spAttached := True\<rparr>]\<rparr>"

definition init_one :: "u64 \<Rightarrow> u16 \<Rightarrow> nat \<Rightarrow> ns_info \<times> subsystem \<Rightarrow> (ns_info \<times> subsystem) res" where
  "init_one blocks n i = (\<lambda>(info, s).
     ebind (divide blocks (ucast n)) (\<lambda>each.
     ebind (createNamespace (NSID_LOWEST + of_nat i) (info\<lparr>nsSize := each, nsCapacity := each\<rparr>) s) (\<lambda>(info, ok, s).
     if ok then Inr (info, attach_back s) else Inl (Panic ''Failed to create namespace''))))"

text \<open>
  \<open>pages\<close> pages of \<open>page\<close> bytes come from \<open>HIL::getLPNInfo\<close>, the number of namespaces and the block
  size from the configuration. The members not named are not initialised: they are taken from
  \<open>garbage\<close>, and so is the number of queues.
\<close>

definition Subsystem_init :: "ns_info \<Rightarrow> u32 \<Rightarrow> u64 \<Rightarrow> u32 \<Rightarrow> u64 \<Rightarrow> u32 \<Rightarrow> subsystem res" where
  "Subsystem_init garbage queues pages page nspaces lba =
     (let s = \<lparr>ssSpaces = [], ssQueues = queues, ssPage = page, ssTotal = pages, ssAllocated = 0, ssCommands = 0\<rparr>;
          n = ucast nspaces :: u16
      in if 0 < n then
           (case lba_format lba lbaSize 0 of
              None \<Rightarrow> Inl (Panic ''Failed to setting LBA size (512B ~ 4KB)'')
            | Some i \<Rightarrow>
                ebind (divide (pages * ucast page) (ucast lba)) (\<lambda>blocks.
                ebind (efold (init_one blocks n) [0..<unat n]
                         (garbage\<lparr>nsFormat := of_nat i, nsLba := lba, nsProtection := 0, nsSharing := 0,
                                  nsRange := LPNRange_empty\<rparr>, s))
                  (\<lambda>(info, s). Inr s)))
         else Inr s)"

section \<open>Administration\<close>

text \<open>A new namespace gets the least number not in use, as far as the list is sorted.\<close>

fun free_nsid :: "u32 \<Rightarrow> space list \<Rightarrow> u32" where
  "free_nsid nsid [] = nsid"
| "free_nsid nsid (sp # sps) = (if spId sp = nsid then free_nsid (nsid + 1) sps else nsid)"

text \<open>What becomes of a command: an answer, a transfer that goes on when it is over, a request.\<close>

datatype space_outcome =
    Answer cq_wrapper
  | FetchNew u32 cq_wrapper
  | FetchControllers u8 u32 cq_wrapper
  | FormatPages hil_request bool cq_wrapper
  | SendBuffer "u8 list" cq_wrapper

definition namespaceManagement ::
  "sq_entry \<Rightarrow> cq_wrapper \<Rightarrow> subsystem \<Rightarrow> (space_outcome \<times> subsystem) res" where
  "namespaceManagement e resp s =
     (let sel = sqeDword10 e AND 15; nsid = sqeNamespaceID e in
      if (sel = 0 \<and> nsid \<noteq> NSID_NONE) \<or> 1 < sel then
        Inr (Answer (makeStatus False False TYPE_GENERIC STATUS_INVALID_FIELD resp), s)
      else if sel = 0 then
        (let new = free_nsid NSID_LOWEST (ssSpaces s) in
         if new = NSID_ALL then
           Inr (Answer (makeStatus False False TYPE_SPECIFIC STATUS_NAMESPACE_ID_UNAVAILABLE resp), s)
         else Inr (FetchNew new resp, s))
      else
        ebind (destroyNamespace nsid s) (\<lambda>(found, s).
        Inr (Answer (if found then resp
                     else makeStatus False False TYPE_GENERIC STATUS_ABORT_INVALID_NAMESPACE resp), s)))"

text \<open>The end of the transfer, with the buffer. A refusal of the data does not end the handler.\<close>

definition management_info :: "ns_info \<Rightarrow> u8 list \<Rightarrow> ns_info" where
  "management_info garbage buf = garbage\<lparr>nsSize := le_value (take 8 buf), nsCapacity := le_value (take 8 (drop 8 buf)),
     nsFormat := buf ! 26, nsProtection := buf ! 29, nsSharing := buf ! 30, nsRange := LPNRange_empty\<rparr>"

definition management_check :: "ns_info \<Rightarrow> cq_wrapper \<Rightarrow> cq_wrapper" where
  "management_check info resp =
     (if \<not> unat (nsFormat info) < nLBAFormat then
        makeStatus False False TYPE_GENERIC STATUS_ABORT_INVALID_NAMESPACE resp
      else if nsSharing info \<noteq> 0 \<or> nsProtection info \<noteq> 0 then
        makeStatus False False TYPE_GENERIC STATUS_INVALID_FIELD resp
      else resp)"

definition management_done ::
  "ns_info \<Rightarrow> u32 \<Rightarrow> u8 list \<Rightarrow> cq_wrapper \<Rightarrow> subsystem \<Rightarrow> (cq_wrapper \<times> subsystem) res" where
  "management_done garbage nsid buf resp s =
     (let info = management_info garbage buf; resp = management_check info resp in
      ebind (lbaSize_at (nsFormat info)) (\<lambda>lba.
      ebind (createNamespace nsid (info\<lparr>nsLba := lba\<rparr>) s) (\<lambda>(info, ok, s).
      Inr (if ok then resp\<lparr>cqwEntry := (cqwEntry resp)\<lparr>cqeDword0 := nsid\<rparr>\<rparr>
           else makeStatus False False TYPE_SPECIFIC STATUS_NAMESPACE_INSUFFICIENT_CAPACITY resp, s))))"

definition namespaceAttachment :: "sq_entry \<Rightarrow> cq_wrapper \<Rightarrow> space_outcome" where
  "namespaceAttachment e resp = FetchControllers (ucast (sqeDword10 e AND 15)) (sqeNamespaceID e) resp"

text \<open>The controller list of the buffer: its number of entries, and the entries.\<close>

definition half_at :: "u8 list \<Rightarrow> nat \<Rightarrow> u16" where
  "half_at buf i = ucast (le_value (take 2 (drop (2 * i) buf)))"

definition controller_list :: "u8 list \<Rightarrow> u16 list res" where
  "controller_list buf =
     (if length buf < 2 * (unat (half_at buf 0) + 1) then Inl (Undefined ''read past the buffer'')
      else Inr (map (half_at buf) [1..<Suc (unat (half_at buf 0))]))"

definition set_attached :: "u32 \<Rightarrow> bool \<Rightarrow> subsystem \<Rightarrow> subsystem" where
  "set_attached nsid b s =
     s\<lparr>ssSpaces := map (\<lambda>sp. if spId sp = nsid then sp\<lparr>spAttached := b\<rparr> else sp) (ssSpaces s)\<rparr>"

definition attach_answer :: "space list \<Rightarrow> cq_wrapper \<Rightarrow> cq_wrapper" where
  "attach_answer here resp =
     (if here = [] then makeStatus True False TYPE_GENERIC STATUS_ABORT_INVALID_NAMESPACE resp
      else if \<exists>sp\<in>set here. spAttached sp then
        makeStatus True False TYPE_SPECIFIC STATUS_NAMESPACE_ALREADY_ATTACHED resp
      else resp)"

definition detach_answer :: "space list \<Rightarrow> cq_wrapper \<Rightarrow> cq_wrapper" where
  "detach_answer here resp =
     (if \<exists>sp\<in>set here. \<not> spAttached sp then
        makeStatus True False TYPE_SPECIFIC STATUS_NAMESPACE_NOT_ATTACHED resp
      else resp)"

definition attachment_done :: "u8 \<Rightarrow> u32 \<Rightarrow> u8 list \<Rightarrow> cq_wrapper \<Rightarrow> subsystem \<Rightarrow> (cq_wrapper \<times> subsystem) res" where
  "attachment_done sel nsid buf resp s =
     ebind (controller_list buf) (\<lambda>ctrls.
     if 1 < length ctrls \<and> sel = 0 then
       Inr (makeStatus False False TYPE_SPECIFIC STATUS_NAMESPACE_IS_PRIVATE resp, s)
     else if ctrls = [] \<or> hd ctrls \<noteq> 0 then
       Inr (makeStatus False False TYPE_SPECIFIC STATUS_CONTROLLER_LIST_INVALID resp, s)
     else
       (let here = filter (\<lambda>sp. spId sp = nsid) (ssSpaces s) in
        if sel = 0 then Inr (attach_answer here resp, set_attached nsid True s)
        else if sel = 1 then Inr (detach_answer here resp, set_attached nsid False s)
        else Inr (makeStatus False False TYPE_GENERIC STATUS_INVALID_FIELD resp, s)))"

definition set_space :: "u32 \<Rightarrow> (space \<Rightarrow> space) \<Rightarrow> subsystem \<Rightarrow> subsystem" where
  "set_space nsid f s =
     s\<lparr>ssSpaces := (case dropWhile (\<lambda>sp. spId sp \<noteq> nsid) (ssSpaces s) of
        [] \<Rightarrow> ssSpaces s
      | sp # rest \<Rightarrow> takeWhile (\<lambda>sp. spId sp \<noteq> nsid) (ssSpaces s) @ f sp # rest)\<rparr>"

definition format_info :: "u8 \<Rightarrow> u32 \<Rightarrow> u64 \<Rightarrow> ns_info \<Rightarrow> ns_info" where
  "format_info lbaf lba blocks info =
     info\<lparr>nsFormat := lbaf, nsLba := lba, nsSize := blocks, nsCapacity := blocks\<rparr>"

definition utilization :: "(u64 \<Rightarrow> u64 \<Rightarrow> u64 res) \<Rightarrow> u32 \<Rightarrow> ns_info \<Rightarrow> u64 res" where
  "utilization used page info =
     ebind (used (slpn (nsRange info)) (slpn (nsRange info) + nlp (nsRange info))) (\<lambda>n.
     divide (n * ucast page) (ucast (nsLba info)))"

definition format_refused :: "u32 \<Rightarrow> bool" where
  "format_refused d =
     (let ses = drop_bit 9 (d AND 0x0E00) in
      (ses \<noteq> 0 \<and> ses \<noteq> 1) \<or> (d AND 0x0100 \<noteq> 0 \<or> d AND 0x10 \<noteq> 0) \<or>
      drop_bit 5 (d AND 0xE0) \<noteq> 0 \<or> \<not> unat (d AND 15) < nLBAFormat)"

definition formatNVM ::
  "(u64 \<Rightarrow> u64 \<Rightarrow> u64 res) \<Rightarrow> tick \<Rightarrow> sq_entry \<Rightarrow> cq_wrapper \<Rightarrow> subsystem \<Rightarrow> (space_outcome \<times> subsystem) res" where
  "formatNVM used tk e resp s =
     (let d = sqeDword10 e; nsid = sqeNamespaceID e; lbaf = ucast (d AND 15) :: u8 in
      if format_refused d then
        Inr (Answer (makeStatus False False TYPE_GENERIC STATUS_INVALID_FORMAT resp), s)
      else
        (case find (\<lambda>sp. spId sp = nsid) (ssSpaces s) of
           None \<Rightarrow> Inr (Answer (makeStatus False False TYPE_GENERIC STATUS_ABORT_INVALID_NAMESPACE resp), s)
         | Some sp \<Rightarrow>
             ebind (lbaSize_at lbaf) (\<lambda>lba.
             ebind (divide (ssTotal s * ucast (ssPage s)) (ucast lba)) (\<lambda>blocks.
             let info = format_info lbaf lba blocks (spInfo sp) in
             ebind (utilization used (ssPage s) info) (\<lambda>u.
             Inr (FormatPages (HILRequest_new\<lparr>hilRange := nsRange info\<rparr>) (drop_bit 9 (d AND 0x0E00) = 1) resp,
                  set_space nsid (\<lambda>sp. Namespace_format tk (sp\<lparr>spInfo := info\<lparr>nsUtil := u\<rparr>\<rparr>)) s))))))"

section \<open>Identification\<close>

definition lbaFormat :: "u32 list" where "lbaFormat = [0x02090000, 0x020A0000, 0x010B0000, 0x000C0000]"

definition put_at :: "nat \<Rightarrow> u8 list \<Rightarrow> u8 list \<Rightarrow> u8 list" where
  "put_at i bs buf = take i buf @ bs @ drop (i + length bs) buf"

text \<open>The utilization is brought up to date on the way.\<close>

definition fillIdentifyNamespace ::
  "(u64 \<Rightarrow> u64 \<Rightarrow> u64 res) \<Rightarrow> u32 \<Rightarrow> ns_info \<Rightarrow> u8 list \<Rightarrow> (ns_info \<times> u8 list) res" where
  "fillIdentifyNamespace used page info buf =
     ebind (utilization used page info) (\<lambda>u.
     let info = info\<lparr>nsUtil := u\<rparr>;
         buf = put_at 0 (le_bytes 8 (nsSize info)) buf;
         buf = put_at 8 (le_bytes 8 (nsCapacity info)) buf;
         buf = put_at 16 (le_bytes 8 (nsUtil info)) buf;
         buf = put_at 24 [4, of_nat (nLBAFormat - 1), nsFormat info] buf;
         buf = put_at 28 [nsProtection info] buf;
         buf = put_at 30 [nsSharing info] buf;
         buf = put_at 48 (le_bytes 8 (nsBytesL info)) buf;
         buf = put_at 56 (le_bytes 8 (nsBytesH info)) buf;
         buf = put_at 128 (concat (map (\<lambda>f. le_bytes 4 (ucast f)) lbaFormat)) buf
     in Inr (info, buf))"

text \<open>The loop over the namespaces that fill the buffer.\<close>

fun fill_spaces ::
  "(u64 \<Rightarrow> u64 \<Rightarrow> u64 res) \<Rightarrow> u32 \<Rightarrow> (space \<Rightarrow> bool) \<Rightarrow> space list \<Rightarrow> u8 list \<Rightarrow> (space list \<times> u8 list) res" where
  "fill_spaces used page P [] buf = Inr ([], buf)"
| "fill_spaces used page P (sp # sps) buf =
     ebind (if P sp then fillIdentifyNamespace used page (spInfo sp) buf else Inr (spInfo sp, buf)) (\<lambda>(info, buf).
     ebind (fill_spaces used page P sps buf) (\<lambda>(sps, buf). Inr (sp\<lparr>spInfo := info\<rparr> # sps, buf)))"

definition nsid_list :: "space list \<Rightarrow> u8 list \<Rightarrow> u8 list res" where
  "nsid_list sps buf =
     (if length buf < 4 * length sps then Inl (Undefined ''write past the buffer'')
      else Inr (put_at 0 (concat (map (\<lambda>sp. le_bytes 4 (ucast (spId sp))) sps)) buf))"

text \<open>\<open>ctrl\<close> is the page that \<open>Controller::identify\<close> fills.\<close>

definition identify ::
  "(u64 \<Rightarrow> u64 \<Rightarrow> u64 res) \<Rightarrow> u8 list \<Rightarrow> sq_entry \<Rightarrow> cq_wrapper \<Rightarrow> subsystem \<Rightarrow> (space_outcome \<times> subsystem) res" where
  "identify used ctrl e resp s =
     (let cns = sqeDword10 e AND 0xFF; cntid = drop_bit 16 (sqeDword10 e AND 0xFFFF0000); nsid = sqeNamespaceID e;
          buf = replicate 4096 0; sps = ssSpaces s;
          send = (\<lambda>b. ebind b (\<lambda>b. Inr (SendBuffer b resp, s)));
          fill = (\<lambda>P. ebind (fill_spaces used (ssPage s) P sps buf) (\<lambda>(sps, b). Inr (SendBuffer b resp, s\<lparr>ssSpaces := sps\<rparr>)));
          one = (if cntid = 0 then put_at 0 (le_bytes 2 1) buf else buf);
          invalid = Inr (Answer (makeStatus True False TYPE_GENERIC STATUS_ABORT_INVALID_NAMESPACE resp), s)
      in if cns = 0x00 then (if nsid = NSID_ALL then send (Inr buf) else fill (\<lambda>sp. spAttached sp \<and> spId sp = nsid))
         else if cns = 0x01 then send (Inr ctrl)
         else if cns = 0x02 then
           (if NSID_ALL - 1 \<le> nsid then invalid
            else send (nsid_list (filter (\<lambda>sp. spAttached sp \<and> nsid < spId sp) sps) buf))
         else if cns = 0x10 then
           (if NSID_ALL - 1 \<le> nsid then invalid else send (nsid_list (filter (\<lambda>sp. nsid < spId sp) sps) buf))
         else if cns = 0x11 then fill (\<lambda>sp. spId sp = nsid)
         else if cns = 0x12 \<or> cns = 0x13 then send (Inr one)
         else send (Inr buf))"

section \<open>Commands of a namespace\<close>

datatype space_action =
    SpaceAnswer cq_wrapper
  | SpaceLog u64
  | SpaceFlush
  | SpaceRead u64 u64
  | SpaceWrite u64 u64
  | SpaceCompare u64 u64
  | SpaceTrim nat

text \<open>The first block and the number of blocks of a command, whose field counts from zero.\<close>

definition io_slba :: "sq_entry \<Rightarrow> u64" where
  "io_slba e = push_bit 32 (ucast (sqeDword11 e)) OR ucast (sqeDword10 e)"

definition io_nlb :: "sq_entry \<Rightarrow> u16" where
  "io_nlb e = ucast (sqeDword12 e AND 0xFFFF) + 1"

definition not_attached :: "cq_wrapper \<Rightarrow> space_action" where
  "not_attached resp = SpaceAnswer (makeStatus True False TYPE_SPECIFIC STATUS_NAMESPACE_NOT_ATTACHED resp)"

definition space_io ::
  "(u64 \<Rightarrow> u64 \<Rightarrow> space_action) \<Rightarrow> sq_entry \<Rightarrow> cq_wrapper \<Rightarrow> space \<Rightarrow> space_action" where
  "space_io act e resp sp =
     (if \<not> spAttached sp then not_attached resp
      else if io_nlb e = 0 then SpaceAnswer resp
      else act (io_slba e) (ucast (io_nlb e)))"

definition space_flush :: "cq_wrapper \<Rightarrow> space \<Rightarrow> space_action" where
  "space_flush resp sp = (if spAttached sp then SpaceFlush else not_attached resp)"

definition space_dataset :: "sq_entry \<Rightarrow> cq_wrapper \<Rightarrow> space \<Rightarrow> space_action" where
  "space_dataset e resp sp =
     (if \<not> spAttached sp then not_attached resp
      else if sqeDword11 e AND 4 = 0 then SpaceAnswer resp
      else SpaceTrim (unat (sqeDword10 e AND 0xFF) + 1))"

definition space_log :: "sq_entry \<Rightarrow> cq_wrapper \<Rightarrow> space \<Rightarrow> space_action" where
  "space_log e resp sp =
     (if sqeDword10 e AND 0xFFFF = 2 then
        (if sqeNamespaceID e = spId sp then
           SpaceLog (push_bit 32 (ucast (sqeDword13 e)) OR ucast (sqeDword12 e))
         else SpaceAnswer (makeStatus True False TYPE_SPECIFIC STATUS_NAMESPACE_NOT_ATTACHED resp))
      else SpaceAnswer (makeStatus True False TYPE_SPECIFIC STATUS_INVALID_LOG_PAGE resp))"

definition Namespace_submitCommand :: "tick \<Rightarrow> sq_wrapper \<Rightarrow> cq_wrapper \<Rightarrow> space \<Rightarrow> space_action" where
  "Namespace_submitCommand tk w resp sp =
     (let e = sqwEntry w; op = sqeOpcode e;
          invalid = SpaceAnswer (makeStatus True False TYPE_GENERIC STATUS_INVALID_OPCODE resp)
      in if tk < spFormatEnd sp then
           SpaceAnswer (makeStatus False False TYPE_GENERIC STATUS_FORMAT_IN_PROGRESS resp)
         else if sqwSqID w = 0 then (if op = 2 then space_log e resp sp else invalid)
         else if op = 0 then space_flush resp sp
         else if op = 1 then space_io SpaceWrite e resp sp
         else if op = 2 then space_io SpaceRead e resp sp
         else if op = 5 then space_io SpaceCompare e resp sp
         else if op = 9 then space_dataset e resp sp
         else invalid)"

section \<open>Transfers of a command\<close>

text \<open>The host memory of a command of \<open>len\<close> bytes, and whether the command goes on at all.\<close>

definition host_pieces :: "nat \<Rightarrow> memory \<Rightarrow> u64 \<Rightarrow> sq_wrapper \<Rightarrow> u64 \<Rightarrow> (piece list \<times> bool) res option" where
  "host_pieces fuel mem ps w len =
     (let e = sqwEntry w in
      if sqwUseSGL w then
        map_option (\<lambda>r. ebind r (\<lambda>(l, calls). Inr (sgChunks l, calls))) (SGL_new fuel mem (sqeData1 e) (sqeData2 e))
      else map_option (\<lambda>r. ebind r (\<lambda>l. Inr (prpPieces l, True))) (PRPList_new fuel mem ps (sqeData1 e) (sqeData2 e) len))"

text \<open>
  A read, write or compare is a transfer with the host and a request to the layers below; it is
  answered when both are over. \<open>io_done\<close> counts the ends.
\<close>

definition space_transfer :: "ns_info \<Rightarrow> u64 \<Rightarrow> piece list \<Rightarrow> dma_op list" where
  "space_transfer info nlb ps = dma_ops ps 0 (nlb * ucast (nsLba info))"

definition space_request :: "u32 \<Rightarrow> ns_info \<Rightarrow> u64 \<Rightarrow> u64 \<Rightarrow> hil_request res" where
  "space_request page info slba nlb = convertUnit page info slba nlb HILRequest_new"

definition io_done :: "u64 \<Rightarrow> u64 \<times> bool" where
  "io_done n = (n + 1, n + 1 = 2)"

text \<open>The ranges of a trim: attributes, number of blocks and first block.\<close>

definition dsm_range :: "u8 list \<Rightarrow> nat \<Rightarrow> u64 \<times> u64" where
  "dsm_range buf i =
     (let r = take 16 (drop (16 * i) buf) in (le_value (take 8 (drop 8 r)), le_value (take 4 (drop 4 r))))"

definition trim_requests :: "u32 \<Rightarrow> ns_info \<Rightarrow> nat \<Rightarrow> u8 list \<Rightarrow> hil_request list res" where
  "trim_requests page info n buf =
     emap (\<lambda>i. case dsm_range buf i of (slba, nlb) \<Rightarrow> space_request page info slba nlb) [0..<n]"

text \<open>
  The end of one of the trims: the context with the number of those under way, \<open>None\<close> once it has
  been deleted; whether the command is answered.
\<close>

definition eachTrimDone :: "int option \<Rightarrow> (int option \<times> bool) res" where
  "eachTrimDone c =
     (case c of None \<Rightarrow> Inl (Undefined ''deleted context'') | Some n \<Rightarrow> Inr (None, n - 1 = 0))"

end
