(* ===== verification/NvmeSpacesProps.thy ===== *)
theory NvmeSpacesProps
  imports NvmeSpaces
begin

text \<open>
  The namespaces of a drive: whatever commands arrive and however their transfers interleave, the
  page ranges of the namespaces stay apart and within the drive; the block addresses of a command
  are turned into the pages that hold these bytes; commands within the capacity of their namespaces
  never touch a page of another namespace.
\<close>

section \<open>Pages\<close>

definition pages :: "lpn_range \<Rightarrow> nat set" where
  "pages r = {unat (slpn r)..<unat (slpn r) + unat (nlp r)}"

definition apart :: "lpn_range \<Rightarrow> lpn_range \<Rightarrow> bool" where
  "apart a b \<longleftrightarrow> pages a \<inter> pages b = {}"

text \<open>The range \<open>a\<close> ends before \<open>b\<close> begins.\<close>

definition before :: "lpn_range \<Rightarrow> lpn_range \<Rightarrow> bool" where
  "before a b \<longleftrightarrow> unat (slpn a) + unat (nlp a) \<le> unat (slpn b)"

definition in_drive :: "u64 \<Rightarrow> lpn_range \<Rightarrow> bool" where
  "in_drive n r \<longleftrightarrow> 0 < unat (nlp r) \<and> unat (slpn r) + unat (nlp r) \<le> unat n"

lemma apart_commute: "apart a b = apart b a"
  by (auto simp: apart_def)

lemma before_apart: "before a b \<Longrightarrow> apart a b"
  by (auto simp: before_def apart_def pages_def)

lemma apart_before:
  assumes "apart a b" and "slpn a \<le> slpn b" and "0 < unat (nlp a)" and "0 < unat (nlp b)"
  shows "before a b"
proof (rule ccontr)
  assume "\<not> before a b"
  then have "unat (slpn b) \<in> pages a \<inter> pages b"
    using assms by (auto simp: before_def pages_def word_le_nat_alt)
  then show False using assms(1) by (auto simp: apart_def)
qed

text \<open>Facts about all pairs of a list, for a symmetric relation, do not depend on the order.\<close>

lemma sorted_wrt_insort:
  assumes "\<And>x y. R x y = R y x"
  shows "sorted_wrt R (insort_key f x xs) \<longleftrightarrow> (\<forall>y\<in>set xs. R x y) \<and> sorted_wrt R xs"
  by (induction xs) (use assms in \<open>auto simp: set_insort_key\<close>)

lemma sorted_wrt_sort:
  assumes "\<And>x y. R x y = R y x"
  shows "sorted_wrt R (sort_key f xs) = sorted_wrt R xs"
  by (induction xs) (simp_all add: sorted_wrt_insort [of R, OF assms] assms)

lemma sorted_wrt_cong_set:
  "sorted_wrt R xs \<Longrightarrow> (\<And>x y. x \<in> set xs \<Longrightarrow> y \<in> set xs \<Longrightarrow> R x y \<Longrightarrow> S x y) \<Longrightarrow> sorted_wrt S xs"
  by (induction xs) auto

lemma sorted_wrt_nth:
  assumes "\<And>x y. R x y = R y x" and "sorted_wrt R xs" and "i < length xs" and "j < length xs" and "i \<noteq> j"
  shows "R (xs ! i) (xs ! j)"
  using assms(2-5) assms(1) [of "xs ! i" "xs ! j"]
  by (cases i j rule: linorder_cases) (auto simp: sorted_wrt_iff_nth_less)

section \<open>Gaps\<close>

text \<open>The free ranges that the loop leaves of the range \<open>b\<close>.\<close>

fun gaps :: "lpn_range \<Rightarrow> lpn_range list \<Rightarrow> lpn_range list" where
  "gaps b [] = [b]"
| "gaps b (a # as) =
     b\<lparr>nlp := slpn a - slpn b\<rparr> # gaps (LPNRange_new (slpn a + nlp a) (slpn b + nlp b - slpn a - nlp a)) as"

text \<open>A range that does not wrap around.\<close>

definition whole :: "lpn_range \<Rightarrow> bool" where
  "whole r \<longleftrightarrow> unat (slpn r) + unat (nlp r) < 2 ^ 64"

definition inside :: "lpn_range \<Rightarrow> lpn_range \<Rightarrow> bool" where
  "inside a b \<longleftrightarrow> unat (slpn b) \<le> unat (slpn a) \<and> unat (slpn a) + unat (nlp a) \<le> unat (slpn b) + unat (nlp b)"

lemma inside_pages: "inside a b \<Longrightarrow> pages a \<subseteq> pages b"
  by (auto simp: inside_def pages_def)

lemma unat_end: "whole r \<Longrightarrow> unat (slpn r + nlp r) = unat (slpn r) + unat (nlp r)"
  by (simp add: whole_def unat_add_lem [where 'a = 64, simplified, THEN iffD1])

lemma cut_range:
  assumes "whole b" and "inside a b"
  defines "l \<equiv> b\<lparr>nlp := slpn a - slpn b\<rparr>" and "r \<equiv> LPNRange_new (slpn a + nlp a) (slpn b + nlp b - slpn a - nlp a)"
  shows "whole a" and "slpn b \<le> slpn a" and "slpn a + nlp a \<le> slpn b + nlp b"
    and "unat (nlp l) = unat (slpn a) - unat (slpn b)" and "unat (slpn r) = unat (slpn a) + unat (nlp a)"
    and "unat (slpn r) + unat (nlp r) = unat (slpn b) + unat (nlp b)"
proof -
  show a: "whole a" using assms(1,2) by (simp add: whole_def inside_def)
  show le: "slpn b \<le> slpn a" using assms(2) by (simp add: inside_def word_le_nat_alt)
  show "slpn a + nlp a \<le> slpn b + nlp b"
    using assms(2) unat_end [OF assms(1)] unat_end [OF a] by (simp add: inside_def word_le_nat_alt)
  show "unat (nlp l) = unat (slpn a) - unat (slpn b)" using le by (simp add: l_def unat_sub)
  show s: "unat (slpn r) = unat (slpn a) + unat (nlp a)"
    using unat_end [OF a] by (simp add: r_def LPNRange_new_def)
  have "nlp r = (slpn b + nlp b) - (slpn a + nlp a)" by (simp add: r_def LPNRange_new_def algebra_simps)
  then show "unat (slpn r) + unat (nlp r) = unat (slpn b) + unat (nlp b)"
    using \<open>slpn a + nlp a \<le> slpn b + nlp b\<close> s unat_end [OF assms(1)] unat_end [OF a]
    by (simp add: unat_sub word_le_nat_alt)
qed

lemma split_last_back:
  "slpn b \<le> slpn a \<Longrightarrow> slpn a + nlp a \<le> slpn b + nlp b \<Longrightarrow>
    split_last a (fs @ [b]) = Inr ((fs @ [b\<lparr>nlp := slpn a - slpn b\<rparr>]) @
      [LPNRange_new (slpn a + nlp a) (slpn b + nlp b - slpn a - nlp a)])"
  by (simp add: split_last_def)

lemma split_gaps:
  assumes "whole b" and "\<forall>a\<in>set as. inside a b" and "sorted_wrt before as"
  shows "efold split_last as (fs @ [b]) = Inr (fs @ gaps b as)"
  using assms
proof (induction as arbitrary: b fs)
  case (Cons a as)
  let ?r = "LPNRange_new (slpn a + nlp a) (slpn b + nlp b - slpn a - nlp a)"
  have in': "inside a b" using Cons.prems(2) by simp
  note c = cut_range [OF Cons.prems(1) in']
  have "whole ?r" using c(6) Cons.prems(1) by (simp add: whole_def)
  moreover have "\<forall>a'\<in>set as. inside a' ?r"
    using Cons.prems(2,3) c(5,6) by (auto simp: inside_def before_def)
  ultimately have "efold split_last as ((fs @ [b\<lparr>nlp := slpn a - slpn b\<rparr>]) @ [?r]) =
      Inr ((fs @ [b\<lparr>nlp := slpn a - slpn b\<rparr>]) @ gaps ?r as)"
    using Cons.prems(3) by (intro Cons.IH) auto
  then show ?case by (simp only: efold.simps split_last_back [OF c(2,3)] ebind_simps) simp
qed simp

text \<open>The gaps are the pages of \<open>b\<close> that are in no range of the list.\<close>

lemma cut_pages:
  assumes "whole b" and "inside a b"
  defines "r \<equiv> LPNRange_new (slpn a + nlp a) (slpn b + nlp b - slpn a - nlp a)"
  shows "pages (b\<lparr>nlp := slpn a - slpn b\<rparr>) = {unat (slpn b)..<unat (slpn a)}"
    and "pages r = {unat (slpn a) + unat (nlp a)..<unat (slpn b) + unat (nlp b)}"
    and "pages b = {unat (slpn b)..<unat (slpn a)} \<union> pages a \<union> pages r"
    and "{unat (slpn b)..<unat (slpn a)} \<inter> pages a = {}"
    and "{unat (slpn b)..<unat (slpn a)} \<inter> pages r = {}" and "pages a \<inter> pages r = {}"
proof -
  note c = cut_range [OF assms(1,2), folded r_def]
  have le: "unat (slpn b) \<le> unat (slpn a)" "unat (slpn a) + unat (nlp a) \<le> unat (slpn b) + unat (nlp b)"
    using assms(2) by (auto simp: inside_def)
  have "pages (b\<lparr>nlp := slpn a - slpn b\<rparr>) =
      {unat (slpn b)..<unat (slpn b) + unat (nlp (b\<lparr>nlp := slpn a - slpn b\<rparr>))}" by (simp add: pages_def)
  then show "pages (b\<lparr>nlp := slpn a - slpn b\<rparr>) = {unat (slpn b)..<unat (slpn a)}"
    unfolding c(4) using le(1) by simp
  show r: "pages r = {unat (slpn a) + unat (nlp a)..<unat (slpn b) + unat (nlp b)}"
    unfolding pages_def c(6) unfolding c(5) ..
  show "pages b = {unat (slpn b)..<unat (slpn a)} \<union> pages a \<union> pages r"
    unfolding r using le by (auto simp: pages_def)
  show "{unat (slpn b)..<unat (slpn a)} \<inter> pages a = {}" "{unat (slpn b)..<unat (slpn a)} \<inter> pages r = {}"
    "pages a \<inter> pages r = {}"
    unfolding r by (auto simp: pages_def)
qed

lemma cut_sets:
  "A \<subseteq> R \<Longrightarrow> L \<inter> P = {} \<Longrightarrow> L \<inter> R = {} \<Longrightarrow> P \<inter> R = {} \<Longrightarrow> L \<union> (R - A) = L \<union> P \<union> R - (P \<union> A)"
  by blast

lemma gaps_pages:
  assumes "whole b" and "\<forall>a\<in>set as. inside a b" and "sorted_wrt before as"
  shows "(\<Union>r\<in>set (gaps b as). pages r) = pages b - (\<Union>a\<in>set as. pages a)"
  using assms
proof (induction as arbitrary: b)
  case (Cons a as)
  let ?r = "LPNRange_new (slpn a + nlp a) (slpn b + nlp b - slpn a - nlp a)"
  have in': "inside a b" using Cons.prems(2) by simp
  note c = cut_range [OF Cons.prems(1) in'] and p = cut_pages [OF Cons.prems(1) in']
  have r: "whole ?r" using c(6) Cons.prems(1) by (simp add: whole_def)
  have as: "\<forall>a'\<in>set as. inside a' ?r"
    using Cons.prems(2,3) c(5,6) by (auto simp: inside_def before_def)
  have 1: "(\<Union>r\<in>set (gaps ?r as). pages r) = pages ?r - (\<Union>a\<in>set as. pages a)"
    using Cons.prems(3) by (intro Cons.IH [OF r as]) simp
  have 2: "(\<Union>a\<in>set as. pages a) \<subseteq> pages ?r"
    using as inside_pages by blast
  have "(\<Union>r\<in>set (gaps b (a # as)). pages r) =
      {unat (slpn b)..<unat (slpn a)} \<union> (pages ?r - (\<Union>a\<in>set as. pages a))"
    using 1 p(1) by simp
  also have "\<dots> = pages b - (pages a \<union> (\<Union>a\<in>set as. pages a))"
    unfolding p(3) by (rule cut_sets [OF 2 p(4-6)])
  finally show ?case by simp
qed simp

lemma gaps_inside:
  assumes "whole b" and "\<forall>a\<in>set as. inside a b" and "sorted_wrt before as" and "r \<in> set (gaps b as)"
  shows "inside r b"
  using assms
proof (induction as arbitrary: b)
  case (Cons a as)
  let ?r = "LPNRange_new (slpn a + nlp a) (slpn b + nlp b - slpn a - nlp a)"
  have in': "inside a b" using Cons.prems(2) by simp
  note c = cut_range [OF Cons.prems(1) in']
  have w: "whole ?r" using c(6) Cons.prems(1) by (simp add: whole_def)
  have as: "\<forall>a'\<in>set as. inside a' ?r"
    using Cons.prems(2,3) c(5,6) by (auto simp: inside_def before_def)
  show ?case
  proof (cases "r = b\<lparr>nlp := slpn a - slpn b\<rparr>")
    case True
    then show ?thesis using c(4) in' by (auto simp: inside_def)
  next
    case False
    then have "inside r ?r" using Cons.prems(3,4) by (intro Cons.IH [OF w as]) auto
    then show ?thesis using c(5,6) in' by (auto simp: inside_def)
  qed
qed (simp add: inside_def)

section \<open>Ranges of the namespaces\<close>

definition ranges :: "subsystem \<Rightarrow> lpn_range list" where
  "ranges s = map (nsRange \<circ> spInfo) (ssSpaces s)"

definition spaces_ok :: "subsystem \<Rightarrow> bool" where
  "spaces_ok s \<longleftrightarrow> (\<forall>r\<in>set (ranges s). in_drive (ssTotal s) r) \<and> sorted_wrt apart (ranges s)"

definition drive_range :: "subsystem \<Rightarrow> lpn_range" where
  "drive_range s = LPNRange_new 0 (ssTotal s)"

lemma drive_whole [simp]: "whole (drive_range s)"
  using unsigned_less [of "ssTotal s"] by (simp add: whole_def drive_range_def LPNRange_new_def)

lemma pages_drive: "pages (drive_range s) = {0..<unat (ssTotal s)}"
  by (simp add: pages_def drive_range_def LPNRange_new_def)

lemma merge_all: "merge_ranges l = Inr l"
  by (simp add: merge_ranges_def)

lemma sorted_ranges:
  assumes "spaces_ok s"
  shows "\<forall>a\<in>set (sort_key slpn (ranges s)). inside a (drive_range s)"
    and "sorted_wrt before (sort_key slpn (ranges s))"
proof -
  let ?l = "sort_key slpn (ranges s)"
  have drive: "\<forall>a\<in>set ?l. in_drive (ssTotal s) a" using assms by (simp add: spaces_ok_def)
  then show "\<forall>a\<in>set ?l. inside a (drive_range s)"
    by (auto simp: in_drive_def inside_def drive_range_def LPNRange_new_def)
  have "sorted_wrt apart ?l"
    using assms sorted_wrt_sort [of apart slpn, OF apart_commute] by (simp add: spaces_ok_def)
  moreover have "sorted_wrt (\<lambda>a b. slpn a \<le> slpn b) ?l"
    using sorted_sort_key [of slpn "ranges s"] by (simp add: sorted_wrt_map)
  ultimately have "sorted_wrt (\<lambda>a b. apart a b \<and> slpn a \<le> slpn b) ?l" by (simp add: sorted_wrt_iff_nth_less)
  then show "sorted_wrt before ?l"
    by (rule sorted_wrt_cong_set) (use drive in \<open>auto intro!: apart_before simp: in_drive_def\<close>)
qed

lemma free_ranges_gaps:
  assumes "spaces_ok s"
  shows "free_ranges s = Inr (gaps (drive_range s) (sort_key slpn (ranges s)))"
  using split_gaps [OF drive_whole sorted_ranges [OF assms], of "[]"]
  by (simp add: free_ranges_def merge_all ranges_def drive_range_def)

text \<open>The free ranges are the pages of the drive that no namespace has.\<close>

lemma free_ranges_pages:
  assumes "spaces_ok s" and "free_ranges s = Inr free"
  shows "(\<Union>r\<in>set free. pages r) = {0..<unat (ssTotal s)} - (\<Union>r\<in>set (ranges s). pages r)"
    and "r \<in> set free \<Longrightarrow> unat (slpn r) + unat (nlp r) \<le> unat (ssTotal s)"
proof -
  have free: "free = gaps (drive_range s) (sort_key slpn (ranges s))"
    using assms by (simp add: free_ranges_gaps)
  show "(\<Union>r\<in>set free. pages r) = {0..<unat (ssTotal s)} - (\<Union>r\<in>set (ranges s). pages r)"
    using gaps_pages [OF drive_whole sorted_ranges [OF assms(1)]] by (simp add: free pages_drive)
  assume "r \<in> set free"
  then have "inside r (drive_range s)"
    unfolding free by (rule gaps_inside [OF drive_whole sorted_ranges [OF assms(1)]])
  then show "unat (slpn r) + unat (nlp r) \<le> unat (ssTotal s)"
    by (simp add: inside_def drive_range_def LPNRange_new_def)
qed

section \<open>Operations\<close>

lemma divide_Inr: "divide a b = Inr q \<longleftrightarrow> b \<noteq> 0 \<and> q = a div b"
  by (auto simp: divide_def)

lemma createNamespace_cases:
  assumes "createNamespace nsid info s = Inr (info', ok, s')"
  obtains (refused) "\<not> ok" and "s' = s" and "nsRange info' = nsRange info \<or> nlp (nsRange info') = 0"
  | (made) n free sp where "ok" and "free_ranges s = Inr free" and "nsRange info' = nsRange (take_range n free info)"
      and "nlp (nsRange info') \<noteq> 0" and "spInfo sp = info'" and "spId sp = nsid"
      and "s' = s\<lparr>ssAllocated := ssAllocated s + n, ssSpaces := sort_key spId (ssSpaces s @ [sp])\<rparr>"
      and "n \<le> ssTotal s - ssAllocated s" and "nsLba info' = nsLba info" and "nsSize info' = nsSize info"
proof -
  obtain q lba where q: "divide (nsSize info) (ucast (ssPage s)) = Inr q" "lbaSize_at (nsFormat info) = Inr lba"
    using assms by (auto simp: createNamespace_def)
  define n where "n = q * ucast lba"
  note def = createNamespace_def [of nsid info s] q n_def [symmetric]
  show ?thesis
  proof (cases "ssTotal s - ssAllocated s < n")
    case True
    then show ?thesis using assms refused by (simp add: def)
  next
    case False
    then obtain free where f: "free_ranges s = Inr free" using assms by (auto simp: def)
    show ?thesis
    proof (cases "nlp (nsRange (take_range n free info)) = 0")
      case True
      then show ?thesis using assms False f refused by (simp add: def)
    next
      case nz: False
      define i where "i = (take_range n free info)\<lparr>nsBytesL := n * ucast (ssPage s), nsBytesH := 0\<rparr>"
      define sp where "sp = Namespace_setData nsid i (Namespace_new i)"
      have "createNamespace nsid info s =
          Inr (i, True, s\<lparr>ssAllocated := ssAllocated s + n, ssSpaces := sort_key spId (ssSpaces s @ [sp])\<rparr>)"
        using False f nz by (simp add: def i_def sp_def Let_def)
      then have res: "ok" "info' = i"
        "s' = s\<lparr>ssAllocated := ssAllocated s + n, ssSpaces := sort_key spId (ssSpaces s @ [sp])\<rparr>"
        using assms by simp_all
      show ?thesis
        by (rule made [of free n sp])
          (use res f nz False in \<open>auto simp: i_def sp_def Namespace_setData_def take_range_def split: option.splits\<close>)
    qed
  qed
qed

text \<open>What the range of a new namespace may be: a free one, or the one its information had.\<close>

lemma take_range_cases:
  obtains (found) r where "r \<in> set free" and "n \<le> nlp r" and "nsRange (take_range n free info) = r\<lparr>nlp := n\<rparr>"
  | (none) "\<forall>r\<in>set free. nlp r < n" and "take_range n free info = info"
proof (cases "find (\<lambda>r. n \<le> nlp r) free")
  case None
  then have "\<forall>r\<in>set free. nlp r < n" by (auto simp: find_None_iff not_le)
  then show ?thesis by (rule none) (simp add: take_range_def None)
next
  case (Some r)
  then have "r \<in> set free" "n \<le> nlp r" by (auto simp: find_Some_iff)
  then show ?thesis by (rule found) (simp add: take_range_def Some)
qed

lemma ranges_sorted:
  "ranges (s\<lparr>ssAllocated := a, ssSpaces := sort_key spId (ssSpaces s @ [sp])\<rparr>) =
    map (nsRange \<circ> spInfo) (sort_key spId (ssSpaces s @ [sp]))"
  by (simp add: ranges_def)

lemma spaces_ok_add:
  assumes "spaces_ok s" and "in_drive (ssTotal s) (nsRange (spInfo sp))"
    and "\<And>r. r \<in> set (ranges s) \<Longrightarrow> apart r (nsRange (spInfo sp))"
  shows "spaces_ok (s\<lparr>ssAllocated := a, ssSpaces := sort_key spId (ssSpaces s @ [sp])\<rparr>)"
proof -
  let ?R = "\<lambda>a b. apart (nsRange (spInfo a)) (nsRange (spInfo b))"
  have "sorted_wrt ?R (ssSpaces s @ [sp])"
    using assms(1,3) by (auto simp: spaces_ok_def ranges_def sorted_wrt_append sorted_wrt_map)
  then have "sorted_wrt ?R (sort_key spId (ssSpaces s @ [sp]))"
    using sorted_wrt_sort [of ?R spId "ssSpaces s @ [sp]", OF apart_commute] by blast
  then show ?thesis
    using assms(1,2) by (auto simp: spaces_ok_def ranges_def sorted_wrt_map)
qed

lemma free_apart:
  assumes "spaces_ok s" and "free_ranges s = Inr free" and "r \<in> set free" and "n \<le> nlp r" and "n \<noteq> 0"
  shows "in_drive (ssTotal s) (r\<lparr>nlp := n\<rparr>)" and "r' \<in> set (ranges s) \<Longrightarrow> apart r' (r\<lparr>nlp := n\<rparr>)"
proof -
  have sub: "pages (r\<lparr>nlp := n\<rparr>) \<subseteq> pages r" using assms(4) by (auto simp: pages_def word_le_nat_alt)
  show "in_drive (ssTotal s) (r\<lparr>nlp := n\<rparr>)"
    using free_ranges_pages(2) [OF assms(1-3)] assms(4,5)
    by (auto simp: in_drive_def word_le_nat_alt unat_gt_0)
  assume "r' \<in> set (ranges s)"
  then show "apart r' (r\<lparr>nlp := n\<rparr>)"
    using free_ranges_pages(1) [OF assms(1,2)] assms(3) sub unfolding apart_def by blast
qed

lemma createNamespace_ok:
  assumes "createNamespace nsid info s = Inr (info', ok, s')" and "spaces_ok s" and "nlp (nsRange info) = 0"
  shows "spaces_ok s'"
  using assms(1)
proof (cases rule: createNamespace_cases)
  case (made n free sp)
  show ?thesis
  proof (cases rule: take_range_cases [of free n info])
    case (found r)
    then have "nsRange (spInfo sp) = r\<lparr>nlp := n\<rparr>" "n \<noteq> 0" using made(3-5) by auto
    then show ?thesis
      unfolding made(7) using free_apart [OF assms(2) made(2) found(1,2)] by (intro spaces_ok_add [OF assms(2)]) auto
  next
    case none
    then show ?thesis using made(3,4) assms(3) by simp
  qed
qed (use assms(2) in simp)

lemma dropWhile_find: "find P xs = Some x \<Longrightarrow> dropWhile (\<lambda>x. \<not> P x) xs = x # tl (dropWhile (\<lambda>x. \<not> P x) xs)"
  by (induction xs) (auto split: if_splits)

lemma set_space_at:
  assumes "find (\<lambda>sp. spId sp = nsid) (ssSpaces s) = Some sp"
  obtains xs ys where "ssSpaces s = xs @ sp # ys" and "\<And>f. ssSpaces (set_space nsid f s) = xs @ f sp # ys"
proof -
  let ?P = "\<lambda>sp. spId sp \<noteq> nsid"
  have d: "dropWhile ?P (ssSpaces s) = sp # tl (dropWhile ?P (ssSpaces s))"
    using dropWhile_find [OF assms] .
  show ?thesis
  proof (rule that)
    show "ssSpaces s = takeWhile ?P (ssSpaces s) @ sp # tl (dropWhile ?P (ssSpaces s))"
      using takeWhile_dropWhile_id [of ?P "ssSpaces s"] d by simp
    show "ssSpaces (set_space nsid f s) = takeWhile ?P (ssSpaces s) @ f sp # tl (dropWhile ?P (ssSpaces s))" for f
      by (simp add: set_space_def) (subst d, simp)
  qed
qed

lemma ranges_set_attached [simp]: "ranges (set_attached nsid b s) = ranges s"
  by (simp add: ranges_def set_attached_def)

lemma spaces_ok_cong: "ranges s' = ranges s \<Longrightarrow> ssTotal s' = ssTotal s \<Longrightarrow> spaces_ok s' = spaces_ok s"
  by (simp add: spaces_ok_def)

lemma sorted_wrt_remove1: "sorted_wrt R xs \<Longrightarrow> sorted_wrt R (remove1 x xs)"
  by (induction xs) (auto dest: in_set_remove1 [THEN iffD1, rotated] notin_set_remove1 set_remove1_subset [THEN subsetD])

lemma destroyNamespace_ok:
  assumes "destroyNamespace nsid s = Inr (found, s')" and "spaces_ok s"
  shows "spaces_ok s'"
proof (cases "find (\<lambda>sp. spId sp = nsid) (ssSpaces s)")
  case None
  then show ?thesis using assms by (simp add: destroyNamespace_def)
next
  case (Some sp)
  then have s': "ssSpaces s' = remove1 sp (ssSpaces s)" "ssTotal s' = ssTotal s"
    using assms(1) by (auto simp: destroyNamespace_def)
  have "sorted_wrt (\<lambda>a b. apart (nsRange (spInfo a)) (nsRange (spInfo b))) (ssSpaces s)"
    using assms(2) by (simp add: spaces_ok_def ranges_def sorted_wrt_map)
  then have "sorted_wrt (\<lambda>a b. apart (nsRange (spInfo a)) (nsRange (spInfo b))) (remove1 sp (ssSpaces s))"
    by (rule sorted_wrt_remove1)
  then show ?thesis
    using assms(2) s' set_remove1_subset [of sp "ssSpaces s"]
    by (auto simp: spaces_ok_def ranges_def sorted_wrt_map)
qed

lemma namespaceManagement_ok:
  assumes "namespaceManagement e resp s = Inr (out, s')" and "spaces_ok s"
  shows "spaces_ok s'"
  using assms by (auto simp: namespaceManagement_def Let_def split: if_splits intro: destroyNamespace_ok)

lemma management_done_ok:
  assumes "management_done garbage nsid buf resp s = Inr (resp', s')" and "spaces_ok s"
  shows "spaces_ok s'"
proof -
  define info where "info = management_info garbage buf"
  obtain lba info' ok where c: "createNamespace nsid (info\<lparr>nsLba := lba\<rparr>) s = Inr (info', ok, s')"
    using assms(1) unfolding management_done_def Let_def info_def [symmetric] by (elim ebind_InrE) (auto split: prod.splits)
  show ?thesis
    by (rule createNamespace_ok [OF c assms(2)]) (simp add: info_def management_info_def LPNRange_empty_def)
qed

lemma attachment_state:
  assumes "attachment_done sel nsid buf resp s = Inr (resp', s')"
  shows "s' = s \<or> (\<exists>b. s' = set_attached nsid b s)"
proof (cases "controller_list buf")
  case (Inr ctrls)
  let ?private = "1 < length ctrls \<and> sel = 0" and ?bad = "ctrls = [] \<or> hd ctrls \<noteq> 0"
  note def = attachment_done_def [of sel nsid buf resp s, unfolded Inr ebind_simps Let_def]
  consider "?private \<or> ?bad \<or> (sel \<noteq> 0 \<and> sel \<noteq> 1)" | "\<not> ?private" "\<not> ?bad" "sel = 0" | "\<not> ?private" "\<not> ?bad" "sel = 1"
    by blast
  then show ?thesis
  proof cases
    case 1
    then have "snd (projr (attachment_done sel nsid buf resp s)) = s" unfolding def by auto
    then show ?thesis using assms by simp
  qed (use assms [unfolded def] in auto)
qed (use assms in \<open>simp add: attachment_done_def\<close>)

lemma attachment_done_ok:
  assumes "attachment_done sel nsid buf resp s = Inr (resp', s')" and "spaces_ok s"
  shows "spaces_ok s'"
  using attachment_state [OF assms(1)] assms(2) spaces_ok_cong [OF ranges_set_attached, of nsid _ s]
  by (auto simp: set_attached_def)

lemma formatNVM_cases:
  assumes "formatNVM used tk e resp s = Inr (out, s')"
  obtains (refused) r where "out = Answer r" and "s' = s"
  | (begun) sp lba u where "find (\<lambda>sp. spId sp = sqeNamespaceID e) (ssSpaces s) = Some sp"
      and "lbaSize_at (ucast (sqeDword10 e AND 15)) = Inr lba"
      and "s' = set_space (sqeNamespaceID e) (\<lambda>x. Namespace_format tk (x\<lparr>spInfo :=
        (format_info (ucast (sqeDword10 e AND 15)) lba (ssTotal s * ucast (ssPage s) div ucast lba) (spInfo sp))\<lparr>nsUtil := u\<rparr>\<rparr>)) s"
      and "out = FormatPages (HILRequest_new\<lparr>hilRange := nsRange (spInfo sp)\<rparr>) (drop_bit 9 (sqeDword10 e AND 0x0E00) = 1) resp"
proof (cases "format_refused (sqeDword10 e)")
  case True
  then show ?thesis using assms by (auto simp: formatNVM_def intro: refused)
next
  case False
  show ?thesis
  proof (cases "find (\<lambda>sp. spId sp = sqeNamespaceID e) (ssSpaces s)")
    case None
    then show ?thesis using assms False by (auto simp: formatNVM_def intro: refused)
  next
    case (Some sp)
    define w where "w = (ucast (sqeDword10 e AND 15) :: u8)"
    from assms False Some obtain lba u where "lbaSize_at w = Inr lba"
      and "out = FormatPages (HILRequest_new\<lparr>hilRange := nsRange (spInfo sp)\<rparr>) (drop_bit 9 (sqeDword10 e AND 0x0E00) = 1) resp"
      and "s' = set_space (sqeNamespaceID e) (\<lambda>x. Namespace_format tk (x\<lparr>spInfo :=
        (format_info w lba (ssTotal s * ucast (ssPage s) div ucast lba) (spInfo sp))\<lparr>nsUtil := u\<rparr>\<rparr>)) s"
      unfolding formatNVM_def Let_def w_def [symmetric] by (auto simp: divide_Inr format_info_def)
    then show ?thesis using begun [OF Some] by (simp add: w_def)
  qed
qed

lemma formatNVM_ok:
  assumes "formatNVM used tk e resp s = Inr (out, s')" and "spaces_ok s"
  shows "spaces_ok s'"
  using assms(1)
proof (cases rule: formatNVM_cases)
  case (begun sp lba u)
  have "ranges s' = ranges s"
  proof -
    obtain xs ys where x: "ssSpaces s = xs @ sp # ys"
      and f: "\<And>f. ssSpaces (set_space (sqeNamespaceID e) f s) = xs @ f sp # ys"
      using set_space_at [OF begun(1)] by blast
    show ?thesis unfolding begun(3) ranges_def f by (simp add: x Namespace_format_def format_info_def)
  qed
  then show ?thesis using assms(2) spaces_ok_cong [of s' s] unfolding begun(3) by (simp add: set_space_def)
qed (use assms(2) in simp)

section \<open>Construction\<close>

lemma gap_edge:
  assumes "whole b" and "\<forall>a\<in>set as. inside a b" and "sorted_wrt before as" and "r \<in> set (gaps b as)"
  shows "slpn r = slpn b \<or> (\<exists>a\<in>set as. unat (slpn r) = unat (slpn a) + unat (nlp a))"
  using assms
proof (induction as arbitrary: b)
  case (Cons a as)
  let ?r = "LPNRange_new (slpn a + nlp a) (slpn b + nlp b - slpn a - nlp a)"
  have in': "inside a b" using Cons.prems(2) by simp
  note c = cut_range [OF Cons.prems(1) in']
  have w: "whole ?r" using c(6) Cons.prems(1) by (simp add: whole_def)
  have as: "\<forall>a'\<in>set as. inside a' ?r"
    using Cons.prems(2,3) c(5,6) by (auto simp: inside_def before_def)
  show ?case
  proof (cases "r = b\<lparr>nlp := slpn a - slpn b\<rparr>")
    case False
    then have "slpn r = slpn ?r \<or> (\<exists>a\<in>set as. unat (slpn r) = unat (slpn a) + unat (nlp a))"
      using Cons.prems(3,4) by (intro Cons.IH [OF w as]) auto
    then show ?thesis using c(5) by auto
  qed simp
qed simp

lemma gap_tail:
  assumes "whole b" and "\<forall>a\<in>set as. inside a b" and "sorted_wrt before as"
    and "unat (slpn b) \<le> e" and "\<And>a. a \<in> set as \<Longrightarrow> unat (slpn a) + unat (nlp a) \<le> e"
  shows "\<exists>r\<in>set (gaps b as). unat (slpn r) \<le> e \<and> unat (slpn r) + unat (nlp r) = unat (slpn b) + unat (nlp b)"
  using assms
proof (induction as arbitrary: b)
  case (Cons a as)
  let ?r = "LPNRange_new (slpn a + nlp a) (slpn b + nlp b - slpn a - nlp a)"
  have in': "inside a b" using Cons.prems(2) by simp
  note c = cut_range [OF Cons.prems(1) in']
  have w: "whole ?r" using c(6) Cons.prems(1) by (simp add: whole_def)
  have as: "\<forall>a'\<in>set as. inside a' ?r"
    using Cons.prems(2,3) c(5,6) by (auto simp: inside_def before_def)
  have "unat (slpn ?r) \<le> e" using c(5) Cons.prems(5) [of a] by simp
  with Cons.prems(3,5) have "\<exists>r\<in>set (gaps ?r as). unat (slpn r) \<le> e \<and>
      unat (slpn r) + unat (nlp r) = unat (slpn ?r) + unat (nlp ?r)"
    by (intro Cons.IH [OF w as]) auto
  then show ?case unfolding c(6) by auto
qed simp

text \<open>While the namespaces of the configuration are made, they fill the drive from its beginning.\<close>

definition filled :: "subsystem \<Rightarrow> bool" where
  "filled s \<longleftrightarrow> spaces_ok s \<and> ssAllocated s \<le> ssTotal s \<and>
     (\<Union>r\<in>set (ranges s). pages r) = {0..<unat (ssAllocated s)}"

lemma filled_gap:
  assumes "filled s" and "free_ranges s = Inr free"
  shows "r \<in> set free \<Longrightarrow> nlp r \<noteq> 0 \<Longrightarrow> slpn r = ssAllocated s"
    and "\<exists>r\<in>set free. ssTotal s - ssAllocated s \<le> nlp r"
proof -
  have ok: "spaces_ok s" and le: "ssAllocated s \<le> ssTotal s"
    and used: "(\<Union>r\<in>set (ranges s). pages r) = {0..<unat (ssAllocated s)}"
    using assms(1) by (auto simp: filled_def)
  have free: "free = gaps (drive_range s) (sort_key slpn (ranges s))"
    using assms(2) ok by (simp add: free_ranges_gaps)
  have last: "unat (slpn a) + unat (nlp a) \<le> unat (ssAllocated s)" if "a \<in> set (ranges s)" for a
  proof -
    have "0 < unat (nlp a)" using that ok by (auto simp: spaces_ok_def in_drive_def)
    then have "unat (slpn a) + unat (nlp a) - 1 \<in> pages a" by (auto simp: pages_def)
    then have "unat (slpn a) + unat (nlp a) - 1 \<in> {0..<unat (ssAllocated s)}" using that used by blast
    then show ?thesis by auto
  qed
  show "\<exists>r\<in>set free. ssTotal s - ssAllocated s \<le> nlp r"
  proof -
    obtain r where r: "r \<in> set free" "unat (slpn r) \<le> unat (ssAllocated s)"
      "unat (slpn r) + unat (nlp r) = unat (ssTotal s)"
      using gap_tail [OF drive_whole sorted_ranges [OF ok], of "unat (ssAllocated s)"] last
      by (auto simp: free drive_range_def LPNRange_new_def)
    then have "ssTotal s - ssAllocated s \<le> nlp r"
      using le by (simp add: word_le_nat_alt unat_sub)
    with r(1) show ?thesis by blast
  qed
  assume a: "r \<in> set free" "nlp r \<noteq> 0"
  have "unat (slpn r) \<le> unat (ssAllocated s)"
    using gap_edge [OF drive_whole sorted_ranges [OF ok], of r] a(1) last
    by (auto simp: free drive_range_def LPNRange_new_def)
  moreover have "unat (slpn r) \<notin> {0..<unat (ssAllocated s)}"
  proof -
    have "unat (slpn r) \<in> pages r" using a(2) by (auto simp: pages_def unat_gt_0)
    then have "unat (slpn r) \<in> (\<Union>r\<in>set free. pages r)" using a(1) by blast
    then show ?thesis using free_ranges_pages(1) [OF ok assms(2)] used by blast
  qed
  ultimately show "slpn r = ssAllocated s" by (simp add: word_unat_eq_iff)
qed

lemma filled_add:
  assumes "createNamespace nsid info s = Inr (info', True, s')" and "filled s"
  shows "filled s'" and "ssSpaces s' \<noteq> []" and "ssTotal s' = ssTotal s"
proof -
  have ok: "spaces_ok s" and le: "ssAllocated s \<le> ssTotal s"
    and used: "(\<Union>r\<in>set (ranges s). pages r) = {0..<unat (ssAllocated s)}"
    using assms(2) by (auto simp: filled_def)
  from assms(1) obtain n free sp where made: "free_ranges s = Inr free"
      "nsRange info' = nsRange (take_range n free info)" "nlp (nsRange info') \<noteq> 0" "spInfo sp = info'"
      "s' = s\<lparr>ssAllocated := ssAllocated s + n, ssSpaces := sort_key spId (ssSpaces s @ [sp])\<rparr>"
      "n \<le> ssTotal s - ssAllocated s"
    by (cases rule: createNamespace_cases) auto
  obtain r where r: "r \<in> set free" "n \<le> nlp r" "nsRange (spInfo sp) = r\<lparr>nlp := n\<rparr>"
  proof (cases rule: take_range_cases [of free n info])
    case (found r)
    then show ?thesis using that made(2,4) by simp
  next
    case none
    obtain r where "r \<in> set free" "ssTotal s - ssAllocated s \<le> nlp r"
      using filled_gap(2) [OF assms(2) made(1)] by blast
    then show ?thesis using none(1) made(6) by force
  qed
  have n: "n \<noteq> 0" using made(3,4) r(3) by auto
  then have "nlp r \<noteq> 0" using r(2) by auto
  then have at: "slpn r = ssAllocated s" by (rule filled_gap(1) [OF assms(2) made(1) r(1)])
  have fits: "unat (ssAllocated s) + unat n \<le> unat (ssTotal s)"
    using made(6) le by (simp add: word_le_nat_alt unat_sub) 
  have total_small: "unat (ssTotal s) < 2 ^ LENGTH(64)" by (rule unsigned_less)
  from fits have sum: "unat (ssAllocated s + n) = unat (ssAllocated s) + unat n"
    using total_small by (intro unat_add_lem [THEN iffD1]) simp
  have "spaces_ok s'"
    unfolding made(5) using free_apart [OF ok made(1) r(1,2) n] r(3) by (intro spaces_ok_add [OF ok]) auto
  moreover have "(\<Union>r\<in>set (ranges s'). pages r) = {0..<unat (ssAllocated s')}"
  proof -
    have "set (ranges s') = insert (r\<lparr>nlp := n\<rparr>) (set (ranges s))"
      using r(3) by (auto simp: ranges_def made(5))
    moreover have "pages (r\<lparr>nlp := n\<rparr>) = {unat (ssAllocated s)..<unat (ssAllocated s) + unat n}"
      by (simp add: pages_def at)
    ultimately show ?thesis using used by (auto simp: made(5) sum)
  qed
  ultimately show "filled s'"
    using fits by (simp add: filled_def made(5) word_le_nat_alt sum)
  have "length (ssSpaces s') \<noteq> 0" by (simp add: made(5))
  then show "ssSpaces s' \<noteq> []" by blast
  show "ssTotal s' = ssTotal s" by (simp add: made(5))
qed

lemma ranges_attach_back: "ssSpaces s \<noteq> [] \<Longrightarrow> ranges (attach_back s) = ranges s"
  by (cases "ssSpaces s" rule: rev_cases) (auto simp: ranges_def attach_back_def)

lemma init_one_cases:
  assumes "init_one blocks n i (info, s) = Inr (info', s')"
  obtains each s1 where "createNamespace (NSID_LOWEST + of_nat i) (info\<lparr>nsSize := each, nsCapacity := each\<rparr>) s =
      Inr (info', True, s1)" and "s' = attach_back s1"
proof -
  obtain each info1 ok s1 where c: "createNamespace (NSID_LOWEST + of_nat i) (info\<lparr>nsSize := each, nsCapacity := each\<rparr>) s =
      Inr (info1, ok, s1)" "(if ok then Inr (info1, attach_back s1) else Inl (Panic ''Failed to create namespace'')) = Inr (info', s')"
    using assms unfolding init_one_def prod.case by (elim ebind_InrE) (auto split: prod.splits)
  then show ?thesis using that by (auto split: if_splits)
qed

lemma init_one_filled:
  assumes "init_one blocks n i (info, s) = Inr (info', s')" and "filled s"
  shows "filled s'"
  using assms(1)
proof (cases rule: init_one_cases)
  case (1 each s1)
  note s1 = filled_add(1,2) [OF 1(1) assms(2)]
  then show ?thesis
    using ranges_attach_back [of s1] spaces_ok_cong [of "attach_back s1" s1]
    by (simp add: filled_def 1(2)) (simp add: attach_back_def)
qed

lemma Subsystem_init_ok:
  assumes "Subsystem_init garbage queues amount page nspaces lba = Inr s"
  shows "spaces_ok s"
proof -
  define s0 where "s0 = \<lparr>ssSpaces = [], ssQueues = queues, ssPage = page, ssTotal = amount, ssAllocated = 0, ssCommands = 0\<rparr>"
  have f0: "filled s0" by (simp add: filled_def spaces_ok_def ranges_def s0_def)
  note def = Subsystem_init_def [of garbage queues amount page nspaces lba, folded s0_def, unfolded Let_def]
  show ?thesis
  proof (cases "0 < (ucast nspaces :: u16)")
    case False
    then have "s = s0" using assms by (simp add: def)
    then show ?thesis using f0 by (simp add: filled_def)
  next
    case True
    then obtain i where i: "lba_format lba lbaSize 0 = Some i" using assms by (auto simp: def split: option.splits)
    from assms True obtain blocks info where
      e: "efold (init_one blocks (ucast nspaces)) [0..<unat (ucast nspaces :: u16)]
        (garbage\<lparr>nsFormat := of_nat i, nsLba := lba, nsProtection := 0, nsSharing := 0, nsRange := LPNRange_empty\<rparr>, s0) =
        Inr (info, s)"
      unfolding def i option.case by auto
    have "filled (snd (info, s))"
      by (rule efold_invariant [OF e, where P = "\<lambda>x. filled (snd x)"])
        (use f0 in \<open>auto elim: init_one_filled\<close>)
    then show ?thesis by (simp add: filled_def)
  qed
qed

section \<open>Identification\<close>

lemma fill_spaces_keeps:
  assumes f: "\<And>info u. f (info\<lparr>nsUtil := u\<rparr>) = f info"
  shows "fill_spaces used page P sps buf = Inr (sps', buf') \<Longrightarrow> map (f \<circ> spInfo) sps' = map (f \<circ> spInfo) sps"
proof (induction sps arbitrary: buf sps' buf')
  case (Cons sp sps)
  then obtain info b1 sps1 b2 where
    r: "(if P sp then fillIdentifyNamespace used page (spInfo sp) buf else Inr (spInfo sp, buf)) = Inr (info, b1)"
      "fill_spaces used page P sps b1 = Inr (sps1, b2)" "sps' = sp\<lparr>spInfo := info\<rparr> # sps1"
    by (auto split: prod.splits)
  have "f info = f (spInfo sp)"
    using r(1) by (auto simp: fillIdentifyNamespace_def Let_def f split: if_splits)
  then show ?case using Cons.IH [OF r(2)] r(3) by simp
qed simp

lemma identify_state:
  assumes "identify used ctrl e resp s = Inr (out, s')"
  shows "s' = s \<or> (\<exists>P sps b. fill_spaces used (ssPage s) P (ssSpaces s) (replicate 4096 0) = Inr (sps, b) \<and>
    s' = s\<lparr>ssSpaces := sps\<rparr>)"
  using assms unfolding identify_def Let_def by (simp split: if_split_asm) (elim ebind_InrE; auto split: prod.splits)+

lemma identify_keeps:
  assumes "identify used ctrl e resp s = Inr (out, s')" and "\<And>info u. f (info\<lparr>nsUtil := u\<rparr>) = f info"
  shows "map (f \<circ> spInfo) (ssSpaces s') = map (f \<circ> spInfo) (ssSpaces s)" and "ssTotal s' = ssTotal s"
  using identify_state [OF assms(1)] fill_spaces_keeps [of f, OF assms(2)] by auto

section \<open>Reachable states\<close>

text \<open>
  The commands that change the namespaces, in any order. A creation has two steps: the command gets
  the number of the new namespace and starts the transfer of its data; the namespace is made when
  the transfer is over. The numbers of the transfers under way are part of the state.
\<close>

definition under_way :: "space_outcome \<Rightarrow> u32 list" where
  "under_way out = (case out of FetchNew nsid resp \<Rightarrow> [nsid] | _ \<Rightarrow> [])"

inductive space_step :: "u32 list \<times> subsystem \<Rightarrow> u32 list \<times> subsystem \<Rightarrow> bool" where
  manage: "namespaceManagement e resp s = Inr (out, s') \<Longrightarrow> space_step (p, s) (under_way out @ p, s')"
| create: "nsid \<in> set p \<Longrightarrow> management_done garbage nsid buf resp s = Inr (resp', s') \<Longrightarrow>
    space_step (p, s) (remove1 nsid p, s')"
| attach: "attachment_done sel nsid buf resp s = Inr (resp', s') \<Longrightarrow> space_step (p, s) (p, s')"
| format: "formatNVM used tk e resp s = Inr (out, s') \<Longrightarrow> space_step (p, s) (p, s')"
| identify: "identify used ctrl e resp s = Inr (out, s') \<Longrightarrow> space_step (p, s) (p, s')"

inductive_cases space_step_caseE: "space_step (p, s) (p', s')"

lemma space_stepE:
  assumes "space_step (p, s) (p', s')"
  obtains (manage) e resp out where "namespaceManagement e resp s = Inr (out, s')"
  | (create) garbage nsid buf resp resp' where "management_done garbage nsid buf resp s = Inr (resp', s')"
  | (attach) sel nsid buf resp resp' where "attachment_done sel nsid buf resp s = Inr (resp', s')"
  | (format) used tk e resp out where "formatNVM used tk e resp s = Inr (out, s')"
  | (identify) used ctrl e resp out where "identify used ctrl e resp s = Inr (out, s')"
  using assms by (rule space_step_caseE) (blast intro: that)+

inductive space_reach :: "u32 list \<times> subsystem \<Rightarrow> bool" where
  start: "Subsystem_init garbage queues amount page nspaces lba = Inr s \<Longrightarrow> space_reach ([], s)"
| step: "space_reach x \<Longrightarrow> space_step x y \<Longrightarrow> space_reach y"

lemma space_step_ok:
  assumes "space_step (p, s) (p', s')" and "spaces_ok s"
  shows "spaces_ok s'"
  using assms(1)
proof (cases rule: space_stepE)
  case (identify used ctrl e resp out)
  then show ?thesis
    using assms(2) identify_keeps [OF identify, of nsRange] spaces_ok_cong [of s' s] by (simp add: ranges_def)
qed (use assms(2) in \<open>blast intro: namespaceManagement_ok management_done_ok attachment_done_ok formatNVM_ok\<close>)+

lemma space_reach_ok: "space_reach x \<Longrightarrow> spaces_ok (snd x)"
proof (induction rule: space_reach.induct)
  case (step x y)
  then show ?case using space_step_ok [of "fst x" "snd x" "fst y" "snd y"] by simp
qed (simp add: Subsystem_init_ok)

section \<open>Block sizes\<close>

definition lbas_known :: "subsystem \<Rightarrow> bool" where
  "lbas_known s \<longleftrightarrow> (\<forall>sp\<in>set (ssSpaces s). nsLba (spInfo sp) \<in> set lbaSize)"

lemma lbas_known_map: "lbas_known s \<longleftrightarrow> set (map (nsLba \<circ> spInfo) (ssSpaces s)) \<subseteq> set lbaSize"
  by (auto simp: lbas_known_def)

lemma lbaSize_at_known: "lbaSize_at i = Inr lba \<Longrightarrow> lba \<in> set lbaSize"
  unfolding lbaSize_at_def by (auto simp: nLBAFormat_def lbaSize_def simp del: set_simps split: if_splits intro!: nth_mem)

lemma lba_format_known: "lba_format lba xs i = Some j \<Longrightarrow> lba \<in> set xs"
  by (induction lba xs i rule: lba_format.induct) (auto split: if_splits)

lemma createNamespace_lbas:
  assumes "createNamespace nsid info s = Inr (info', ok, s')" and "lbas_known s" and "nsLba info \<in> set lbaSize"
  shows "lbas_known s'"
  using assms(1)
  by (cases rule: createNamespace_cases) (use assms(2,3) in \<open>auto simp: lbas_known_def\<close>)

lemma management_done_lbas:
  assumes "management_done garbage nsid buf resp s = Inr (resp', s')" and "lbas_known s"
  shows "lbas_known s'"
proof -
  define info where "info = management_info garbage buf"
  obtain lba info' ok where "lbaSize_at (nsFormat info) = Inr lba"
    and c: "createNamespace nsid (info\<lparr>nsLba := lba\<rparr>) s = Inr (info', ok, s')"
    using assms(1) unfolding management_done_def Let_def info_def [symmetric] by (elim ebind_InrE) (auto split: prod.splits)
  then show ?thesis by (intro createNamespace_lbas [OF c assms(2)]) (simp add: lbaSize_at_known)
qed

lemma set_space_lbas:
  assumes "find (\<lambda>sp. spId sp = nsid) (ssSpaces s) = Some sp" and "lbas_known s"
    and "nsLba (spInfo (f sp)) \<in> set lbaSize"
  shows "lbas_known (set_space nsid f s)"
proof -
  obtain xs ys where "ssSpaces s = xs @ sp # ys" and "\<And>f. ssSpaces (set_space nsid f s) = xs @ f sp # ys"
    using set_space_at [OF assms(1)] by blast
  then show ?thesis using assms(2,3) by (auto simp: lbas_known_def)
qed

lemma formatNVM_lbas:
  assumes "formatNVM used tk e resp s = Inr (out, s')" and "lbas_known s"
  shows "lbas_known s'"
  using assms(1)
proof (cases rule: formatNVM_cases)
  case (begun sp lba u)
  show ?thesis
    unfolding begun(3) by (rule set_space_lbas [OF begun(1) assms(2)])
      (use lbaSize_at_known [OF begun(2)] in \<open>simp add: format_info_def Namespace_format_def\<close>)
qed (use assms(2) in simp)

lemma destroyNamespace_lbas:
  assumes "destroyNamespace nsid s = Inr (found, s')" and "lbas_known s"
  shows "lbas_known s'"
proof (cases "find (\<lambda>sp. spId sp = nsid) (ssSpaces s)")
  case (Some sp)
  then have "ssSpaces s' = remove1 sp (ssSpaces s)" using assms(1) by (auto simp: destroyNamespace_def)
  then show ?thesis using assms(2) set_remove1_subset [of sp "ssSpaces s"] by (auto simp: lbas_known_def)
qed (use assms in \<open>simp add: destroyNamespace_def\<close>)

lemma Subsystem_init_lbas:
  assumes "Subsystem_init garbage queues amount page nspaces lba = Inr s"
  shows "lbas_known s"
proof -
  define s0 where "s0 = \<lparr>ssSpaces = [], ssQueues = queues, ssPage = page, ssTotal = amount, ssAllocated = 0, ssCommands = 0\<rparr>"
  let ?Q = "\<lambda>x :: ns_info \<times> subsystem. nsLba (fst x) = lba \<and> lbas_known (snd x)"
  have step: "?Q y" if "init_one blocks n i x = Inr y" and "?Q x" and known: "lba \<in> set lbaSize" for blocks n i x y
  proof -
    from that(1) have "init_one blocks n i (fst x, snd x) = Inr (fst y, snd y)" by simp
    then obtain each s1 where c: "createNamespace (NSID_LOWEST + of_nat i)
        ((fst x)\<lparr>nsSize := each, nsCapacity := each\<rparr>) (snd x) = Inr (fst y, True, s1)" "snd y = attach_back s1"
      by (rule init_one_cases)
    have "lbas_known s1" by (rule createNamespace_lbas [OF c(1)]) (use that(2) known in auto)
    moreover from c(1) have "nsLba (fst y) = lba \<and> length (ssSpaces s1) \<noteq> 0"
      using that(2) by (cases rule: createNamespace_cases) auto
    ultimately show ?thesis
      using c(2) by (cases "ssSpaces s1" rule: rev_cases) (auto simp: lbas_known_def attach_back_def)
  qed
  note def = Subsystem_init_def [of garbage queues amount page nspaces lba, folded s0_def, unfolded Let_def]
  show ?thesis
  proof (cases "0 < (ucast nspaces :: u16)")
    case False
    then show ?thesis using assms by (auto simp: def lbas_known_def s0_def)
  next
    case True
    then obtain i where i: "lba_format lba lbaSize 0 = Some i" using assms by (auto simp: def split: option.splits)
    from assms True obtain blocks info where
      e: "efold (init_one blocks (ucast nspaces)) [0..<unat (ucast nspaces :: u16)]
        (garbage\<lparr>nsFormat := of_nat i, nsLba := lba, nsProtection := 0, nsSharing := 0, nsRange := LPNRange_empty\<rparr>, s0) =
        Inr (info, s)"
      unfolding def i option.case by auto
    have "?Q (info, s)"
    proof (rule efold_invariant [OF e, where P = ?Q])
      show "?Q t'" if "?Q t" and "init_one blocks (ucast nspaces) x t = Inr t'" for x t t'
        by (rule step [OF that(2,1) lba_format_known [OF i]])
    qed (simp add: lbas_known_def s0_def)
    then show ?thesis by simp
  qed
qed

lemma space_step_lbas:
  assumes "space_step (p, s) (p', s')" and "lbas_known s"
  shows "lbas_known s'"
  using assms(1)
proof (cases rule: space_stepE)
  case (manage e resp out)
  then show ?thesis
    using assms(2) by (auto simp: namespaceManagement_def Let_def split: if_splits intro: destroyNamespace_lbas)
next
  case (attach sel nsid buf resp resp')
  then show ?thesis
    using assms(2) attachment_state [OF attach] by (auto simp: lbas_known_def set_attached_def)
next
  case (identify used ctrl e resp out)
  have "map (nsLba \<circ> spInfo) (ssSpaces s') = map (nsLba \<circ> spInfo) (ssSpaces s)"
    by (rule identify_keeps [OF identify]) simp
  then show ?thesis using assms(2) by (simp only: lbas_known_map)
qed (use assms(2) in \<open>blast intro: management_done_lbas formatNVM_lbas\<close>)+

lemma space_reach_lbas: "space_reach x \<Longrightarrow> lbas_known (snd x)"
proof (induction rule: space_reach.induct)
  case (step x y)
  then show ?case using space_step_lbas [of "fst x" "snd x" "fst y" "snd y"] by simp
qed (simp add: Subsystem_init_lbas)

end
