(* ===== verification/NvmeIsolation.thy ===== *)
theory NvmeIsolation
  imports NvmeSpacesProps
begin

text \<open>
  What the host may rely on: the ranges of the namespaces stay apart, a command reaches exactly the
  bytes of its blocks, and as long as its blocks lie in the capacity of its namespace it cannot reach
  another one; a format in a drive with several namespaces takes that last condition away.
\<close>

section \<open>Conversion of block addresses\<close>

text \<open>One block size divides the other, and the addresses do not wrap around.\<close>

definition sizes_ok :: "u32 \<Rightarrow> ns_info \<Rightarrow> bool" where
  "sizes_ok page info \<longleftrightarrow> 0 < unat page \<and> 0 < unat (nsLba info) \<and>
     (unat (nsLba info) dvd unat page \<or> unat page dvd unat (nsLba info))"

definition byte_place :: "u32 \<Rightarrow> hil_request \<Rightarrow> nat" where
  "byte_place page r = unat (slpn (hilRange r)) * unat page + unat (hilOffset r)"

definition places :: "u32 \<Rightarrow> ns_info \<Rightarrow> nat \<Rightarrow> nat \<Rightarrow> hil_request \<Rightarrow> bool" where
  "places page info b n r \<longleftrightarrow>
     byte_place page r = unat (slpn (nsRange info)) * unat page + b * unat (nsLba info) \<and>
     unat (hilOffset r) < unat page \<and> unat (hilLength r) = n * unat (nsLba info) \<and>
     unat (nlp (hilRange r)) = (unat (hilOffset r) + unat (hilLength r) + unat page - 1) div unat page"

lemma ucast_u32: "unat (ucast (w :: u32) :: u64) = unat w"
  by (simp add: unsigned_ucast_eq take_bit_nat_eq_self_iff) (rule less_trans [OF unsigned_less], simp)

lemma unat_times: "unat (a :: u64) * unat b < 2 ^ 64 \<Longrightarrow> unat (a * b) = unat a * unat b"
  by (subst unat_mult_lem [THEN iffD1]) auto

lemma convert_small:
  assumes "sizes_ok page info" and "unat (nsLba info) dvd unat page"
    and "unat (slpn (nsRange info)) * unat page + (unat slba + unat n) * unat (nsLba info) + 2 * unat page < 2 ^ 64"
  shows "\<exists>r. convertUnit page info slba n req = Inr r \<and> places page info (unat slba) (unat n) r"
proof -
  define lba where "lba = (ucast (nsLba info) :: u64)"
  define ratio where "ratio = (ucast page :: u64) div lba"
  define off where "off = slba mod ratio"
  let ?P = "unat page" and ?L = "unat (nsLba info)" and ?B = "unat (slpn (nsRange info))"
  obtain k where P: "?P = ?L * k" using assms(2) by (auto elim: dvdE)
  have L: "0 < ?L" and P0: "0 < ?P" using assms(1) by (auto simp: sizes_ok_def)
  then have k: "0 < k" using P by auto
  have lba: "unat lba = ?L" by (simp add: lba_def ucast_u32)
  have ratio: "unat ratio = k" using L by (simp add: ratio_def unat_div lba ucast_u32 P)
  have off: "unat off = unat slba mod k" by (simp add: off_def unat_mod ratio)
  have offk: "unat off < k" using k by (simp add: off)
  have small: "?B * ?P + unat slba * ?L + unat n * ?L + 2 * ?P < 2 ^ 64"
    using assms(3) by (simp add: add_mult_distrib)
  have kP: "k \<le> ?P" using L by (simp add: P)
  have nL: "unat n \<le> unat n * ?L" "unat slba \<le> unat slba * ?L" using L by simp_all
  have offL: "unat off * ?L < ?P" using offk L by (simp add: P mult.commute)
  have BP: "?B \<le> ?B * ?P" using P0 by simp
  have s1: "unat (off * lba) = unat off * ?L"
    by (rule unat_times [of off lba, unfolded lba]) (use offL small in linarith)
  have s2: "unat (n * lba) = unat n * ?L"
    by (rule unat_times [of n lba, unfolded lba]) (use small in linarith)
  have s3: "unat (slba div ratio + slpn (nsRange info)) = unat slba div k + ?B"
    by (rule unat_plus [of "slba div ratio", unfolded unat_div ratio])
      (use small BP nL div_le_dividend [of "unat slba" k] in linarith)
  have a1: "unat (n + off) = unat n + unat off"
    using small nL offk kP by (intro unat_plus) linarith
  have a2: "unat (n + off + ratio) = unat n + unat off + k"
    by (rule unat_plus [of "n + off" ratio, unfolded a1 ratio]) (use small nL offk kP in linarith)
  have "1 \<le> n + off + ratio" using k by (simp add: word_le_nat_alt a2)
  then have s4: "unat ((n + off + ratio - 1) div ratio) = (unat n + unat off + k - 1) div k"
    by (simp add: unat_div ratio unat_sub a2)
  have pages_needed: "(unat n + unat off + k - 1) div k = (unat off * ?L + unat n * ?L + ?P - 1) div ?P"
  proof -
    have "unat off * ?L + unat n * ?L + ?P - 1 = (unat n + unat off + k) * ?L - 1"
      by (simp add: P algebra_simps)
    also have "\<dots> div ?L = unat n + unat off + k - 1"
      using L k by (cases "unat n + unat off + k") (auto simp: algebra_simps intro!: div_nat_eqI)
    finally show ?thesis by (simp add: P div_mult2_eq)
  qed
  have place: "(unat slba div k + ?B) * ?P + unat off * ?L = ?B * ?P + unat slba * ?L"
  proof -
    define q m where "q = unat slba div k" and "m = unat slba mod k"
    have "unat slba = m + k * q" by (simp add: q_def m_def)
    moreover have "(q + ?B) * (?L * k) + m * ?L = ?B * (?L * k) + (m + k * q) * ?L" by (simp add: algebra_simps)
    ultimately show ?thesis by (simp only: P off q_def m_def)
  qed
  have c: "convertUnit page info slba n req = Inr (req\<lparr>
      hilRange := LPNRange_new (slba div ratio + slpn (nsRange info)) ((n + off + ratio - 1) div ratio),
      hilOffset := off * lba, hilLength := n * lba\<rparr>)"
  proof -
    have "lba \<noteq> 0" "ratio \<noteq> 0" using L k lba ratio by auto
    then show ?thesis
      by (simp add: convertUnit_def divide_def Let_def lba_def [symmetric] ratio_def [symmetric] off_def [symmetric])
  qed
  show ?thesis
    unfolding c by (rule exI, rule conjI [OF refl])
      (use place offL pages_needed in \<open>simp add: places_def byte_place_def LPNRange_new_def s1 s2 s3 s4\<close>)
qed

lemma convert_large:
  assumes "sizes_ok page info" and "\<not> unat (nsLba info) dvd unat page"
    and "unat (slpn (nsRange info)) * unat page + (unat slba + unat n) * unat (nsLba info) + 2 * unat page < 2 ^ 64"
  shows "\<exists>r. convertUnit page info slba n req = Inr r \<and> places page info (unat slba) (unat n) r"
proof -
  define lba where "lba = (ucast (nsLba info) :: u64)"
  define ratio where "ratio = lba div (ucast page :: u64)"
  let ?P = "unat page" and ?L = "unat (nsLba info)" and ?B = "unat (slpn (nsRange info))"
  obtain k where L: "?L = ?P * k" using assms(1,2) by (auto simp: sizes_ok_def elim: dvdE)
  have P0: "0 < ?P" and L0: "0 < ?L" using assms(1) by (auto simp: sizes_ok_def)
  then have k: "0 < k" using L by auto
  have "\<not> ?L \<le> ?P" using assms(2) L P0 k by (cases "k = 1") auto
  then have small_page: "?P div ?L = 0" by simp
  have lba: "unat lba = ?L" by (simp add: lba_def ucast_u32)
  have ratio: "unat ratio = k" using P0 by (simp add: ratio_def unat_div lba ucast_u32 L)
  have small: "?B * ?P + unat slba * ?L + unat n * ?L + 2 * ?P < 2 ^ 64"
    using assms(3) by (simp add: add_mult_distrib)
  have kL: "k \<le> ?L" using P0 by (simp add: L)
  then have le: "unat slba * k \<le> unat slba * ?L" "unat n * k \<le> unat n * ?L" by simp_all
  have BP: "?B \<le> ?B * ?P" using P0 by simp
  have s1: "unat (slba * ratio) = unat slba * k"
    by (rule unat_times [of slba ratio, unfolded ratio]) (use small le in linarith)
  have s2: "unat (n * ratio) = unat n * k"
    by (rule unat_times [of n ratio, unfolded ratio]) (use small le in linarith)
  have s3: "unat (slba * ratio + slpn (nsRange info)) = unat slba * k + ?B"
    by (rule unat_plus [of "slba * ratio", unfolded s1]) (use small le BP in linarith)
  have s4: "unat (n * lba) = unat n * ?L"
    by (rule unat_times [of n lba, unfolded lba]) (use small in linarith)
  have "unat ((ucast page :: u64) div lba) = 0" by (simp add: unat_div lba ucast_u32 small_page)
  then have zero: "(ucast page :: u64) div lba = 0" by (simp add: word_unat_eq_iff)
  have "lba \<noteq> 0" "(ucast page :: u64) \<noteq> 0" using L0 P0 lba ucast_u32 [of page] by (metis less_numeral_extra(3) unat_0)+
  then have c: "convertUnit page info slba n req = Inr (req\<lparr>
      hilRange := LPNRange_new (slba * ratio + slpn (nsRange info)) (n * ratio), hilOffset := 0, hilLength := n * lba\<rparr>)"
    by (simp add: convertUnit_def divide_def Let_def lba_def [symmetric] zero ratio_def)
  have d: "(unat n * ?L + ?P - 1) div ?P = unat n * k"
  proof -
    have "unat n * ?L + ?P - 1 = (?P - 1) + ?P * (unat n * k)" using P0 by (simp add: L mult.left_commute)
    then show ?thesis using P0 by (simp only: div_mult_self2) simp
  qed
  have place: "(unat slba * k + ?B) * ?P = ?B * ?P + unat slba * ?L" by (simp add: L algebra_simps)
  show ?thesis
    unfolding c by (rule exI, rule conjI [OF refl])
      (use P0 d place in \<open>simp add: places_def byte_place_def LPNRange_new_def s2 s3 s4\<close>)
qed

lemma convert_places_at:
  assumes "sizes_ok page info"
    and "unat (slpn (nsRange info)) * unat page + (unat slba + unat n) * unat (nsLba info) + 2 * unat page < 2 ^ 64"
  shows "\<exists>r. convertUnit page info slba n req = Inr r \<and> places page info (unat slba) (unat n) r"
  using convert_small [OF assms(1) _ assms(2)] convert_large [OF assms(1) _ assms(2)] by blast

lemma places_inside:
  assumes "places page info b n r" and "0 < unat page"
    and "(b + n) * unat (nsLba info) \<le> unat (nlp (nsRange info)) * unat page"
  shows "pages (hilRange r) \<subseteq> pages (nsRange info)"
proof -
  let ?P = "unat page" and ?L = "unat (nsLba info)" and ?B = "unat (slpn (nsRange info))" and ?C = "unat (nlp (nsRange info))"
  define S off len where "S = unat (slpn (hilRange r))" and "off = unat (hilOffset r)" and "len = unat (hilLength r)"
  have p: "S * ?P + off = ?B * ?P + b * ?L" "off < ?P" "len = n * ?L"
    "unat (nlp (hilRange r)) = (off + len + ?P - 1) div ?P"
    using assms(1) by (simp_all add: places_def byte_place_def S_def off_def len_def)
  have B: "?B \<le> S"
  proof (rule ccontr)
    assume "\<not> ?B \<le> S"
    then have "(S + 1) * ?P \<le> ?B * ?P" by (intro mult_le_mono1) simp
    then show False using p(1,2) by simp
  qed
  have "S - ?B \<le> ?C"
  proof (rule ccontr)
    assume "\<not> S - ?B \<le> ?C"
    then have "(?C + ?B + 1) * ?P \<le> S * ?P" by (intro mult_le_mono1) simp
    then show False using p(1) assms(2,3) by (simp add: add_mult_distrib)
  qed
  then obtain M where M: "?C = (S - ?B) + M" using le_Suc_ex by blast
  have "off + len \<le> M * ?P"
  proof -
    obtain d where "S = ?B + d" using B le_Suc_ex by blast
    then show ?thesis using p(1,3) assms(3) M by (simp add: add_mult_distrib)
  qed
  then have "(off + len + ?P - 1) div ?P \<le> (M * ?P + (?P - 1)) div ?P"
    using assms(2) by (intro div_le_mono) simp
  also have "\<dots> = M + (?P - 1) div ?P" by (rule div_mult_self3) (use assms(2) in simp)
  also have "\<dots> = M" using assms(2) by simp
  finally have "S + unat (nlp (hilRange r)) \<le> ?B + ?C" using p(4) M B by simp
  then show ?thesis using B by (auto simp: pages_def S_def)
qed

lemma space_range:
  assumes "space_reach (p, s)" and "i < length (ssSpaces s)"
  shows "in_drive (ssTotal s) (nsRange (spInfo (ssSpaces s ! i)))"
    and "j < length (ssSpaces s) \<Longrightarrow> i \<noteq> j \<Longrightarrow>
      apart (nsRange (spInfo (ssSpaces s ! i))) (nsRange (spInfo (ssSpaces s ! j)))"
proof -
  have ok: "spaces_ok s" using space_reach_ok [OF assms(1)] by simp
  have at: "nsRange (spInfo (ssSpaces s ! k)) = ranges s ! k" "k < length (ranges s)" if "k < length (ssSpaces s)" for k
    using that by (simp_all add: ranges_def)
  show "in_drive (ssTotal s) (nsRange (spInfo (ssSpaces s ! i)))"
    using ok nth_mem [OF at(2) [OF assms(2)]] unfolding at(1) [OF assms(2)] by (auto simp: spaces_ok_def)
  assume j: "j < length (ssSpaces s)" "i \<noteq> j"
  show "apart (nsRange (spInfo (ssSpaces s ! i))) (nsRange (spInfo (ssSpaces s ! j)))"
    unfolding at(1) [OF assms(2)] at(1) [OF j(1)]
    by (rule sorted_wrt_nth [of apart, OF apart_commute])
      (use ok at(2) assms(2) j in \<open>auto simp: spaces_ok_def\<close>)
qed

text \<open>The blocks of a command lie in the range of its namespace.\<close>

definition fits :: "u32 \<Rightarrow> ns_info \<Rightarrow> u64 \<Rightarrow> u64 \<Rightarrow> bool" where
  "fits page info slba n \<longleftrightarrow>
     (unat slba + unat n) * unat (nsLba info) \<le> unat (nlp (nsRange info)) * unat page"

definition roomy :: "subsystem \<Rightarrow> bool" where
  "roomy s \<longleftrightarrow> (\<exists>k. unat (ssPage s) = 2 ^ k) \<and> (unat (ssTotal s) + 4) * unat (ssPage s) < 2 ^ 64"

lemma lba_sizes_ok:
  assumes "roomy s" and "nsLba info \<in> set lbaSize"
  shows "sizes_ok (ssPage s) info"
proof -
  obtain k where P: "unat (ssPage s) = 2 ^ k" using assms(1) by (auto simp: roomy_def)
  have "unat (nsLba info) \<in> {2 ^ 9, 2 ^ 10, 2 ^ 11, 2 ^ 12}"
    using assms(2) by (auto simp: lbaSize_def)
  then obtain m where L: "unat (nsLba info) = 2 ^ m" by blast
  show ?thesis using le_imp_power_dvd [of m k "2 :: nat"] le_imp_power_dvd [of k m "2 :: nat"]
    by (cases "m \<le> k") (auto simp: sizes_ok_def P L)
qed

lemma space_places:
  assumes "space_reach (p, s)" and "roomy s" and "i < length (ssSpaces s)"
    and "fits (ssPage s) (spInfo (ssSpaces s ! i)) slba n"
  obtains r where "convertUnit (ssPage s) (spInfo (ssSpaces s ! i)) slba n req = Inr r"
    and "places (ssPage s) (spInfo (ssSpaces s ! i)) (unat slba) (unat n) r"
    and "pages (hilRange r) \<subseteq> pages (nsRange (spInfo (ssSpaces s ! i)))"
proof -
  let ?info = "spInfo (ssSpaces s ! i)" and ?P = "unat (ssPage s)"
  have "nsLba ?info \<in> set lbaSize" using space_reach_lbas [OF assms(1)] assms(3) by (simp add: lbas_known_def)
  then have ok: "sizes_ok (ssPage s) ?info" by (rule lba_sizes_ok [OF assms(2)])
  have "unat (slpn (nsRange ?info)) * ?P + unat (nlp (nsRange ?info)) * ?P \<le> unat (ssTotal s) * ?P"
    using space_range(1) [OF assms(1,3)] by (simp add: in_drive_def flip: add_mult_distrib)
  then have "unat (slpn (nsRange ?info)) * ?P + (unat slba + unat n) * unat (nsLba ?info) + 2 * ?P < 2 ^ 64"
    using assms(2,4) by (auto simp: roomy_def fits_def add_mult_distrib)
  from convert_places_at [OF ok this] obtain r where
    r: "convertUnit (ssPage s) ?info slba n req = Inr r" "places (ssPage s) ?info (unat slba) (unat n) r" by blast
  moreover have "pages (hilRange r) \<subseteq> pages (nsRange ?info)"
    by (rule places_inside [OF r(2)]) (use ok assms(4) in \<open>auto simp: sizes_ok_def fits_def\<close>)
  ultimately show ?thesis using that by blast
qed



text \<open>Two namespaces of 4096 pages each.\<close>

definition blank_info :: ns_info where
  "blank_info = \<lparr>nsSize = 0, nsCapacity = 0, nsUtil = 0, nsBytesL = 0, nsBytesH = 0, nsFormat = 0,
     nsProtection = 0, nsSharing = 0, nsLba = 0, nsRange = LPNRange_empty\<rparr>"

definition two_spaces :: subsystem where
  "two_spaces = projr (Subsystem_init blank_info 0 8192 4096 2 4096)"

lemma two_spaces: "space_reach ([], two_spaces)" "length (ssSpaces two_spaces) = 2"
proof -
  have i: "Subsystem_init blank_info 0 8192 4096 2 4096 = Inr two_spaces" unfolding two_spaces_def by code_simp
  show "space_reach ([], two_spaces)" by (rule space_reach.start [OF i])
  show "length (ssSpaces two_spaces) = 2" unfolding two_spaces_def by code_simp
qed

section \<open>Properties\<close>

text \<open>C34. However the commands that create, destroy, attach, format and identify namespaces interleave with
  their transfers, the namespaces of a drive own non-empty page ranges within it that never overlap.\<close>

theorem namespaces_apart:
  assumes "space_reach (p, s)" and "i < length (ssSpaces s)" and "j < length (ssSpaces s)" and "i \<noteq> j"
  shows "pages (nsRange (spInfo (ssSpaces s ! i))) \<inter> pages (nsRange (spInfo (ssSpaces s ! j))) = {} \<and>
    pages (nsRange (spInfo (ssSpaces s ! i))) \<subseteq> {0..<unat (ssTotal s)} \<and>
    pages (nsRange (spInfo (ssSpaces s ! i))) \<noteq> {}"
  using space_range(1) [OF assms(1,2)] space_range(2) [OF assms(1-4)]
  by (auto simp: apart_def in_drive_def pages_def)

corollary namespaces_apart_witness:
  "pages (nsRange (spInfo (ssSpaces two_spaces ! 0))) \<inter> pages (nsRange (spInfo (ssSpaces two_spaces ! 1))) = {} \<and>
    pages (nsRange (spInfo (ssSpaces two_spaces ! 0))) \<subseteq> {0..<unat (ssTotal two_spaces)} \<and>
    pages (nsRange (spInfo (ssSpaces two_spaces ! 0))) \<noteq> {}"
  using namespaces_apart [OF two_spaces(1), of 0 1] two_spaces(2) by simp

text \<open>C35. Commands whose blocks lie in the ranges of two different namespaces reach no page in common: each
  is turned into the pages that hold exactly its bytes, which are pages of its own namespace.\<close>

theorem namespaces_isolated:
  assumes "space_reach (p, s)" and "roomy s"
    and "i < length (ssSpaces s)" and "j < length (ssSpaces s)" and "i \<noteq> j"
    and "fits (ssPage s) (spInfo (ssSpaces s ! i)) slba n" and "fits (ssPage s) (spInfo (ssSpaces s ! j)) slba' n'"
  shows "\<exists>r r'. space_request (ssPage s) (spInfo (ssSpaces s ! i)) slba n = Inr r \<and>
    space_request (ssPage s) (spInfo (ssSpaces s ! j)) slba' n' = Inr r' \<and>
    places (ssPage s) (spInfo (ssSpaces s ! i)) (unat slba) (unat n) r \<and>
    places (ssPage s) (spInfo (ssSpaces s ! j)) (unat slba') (unat n') r' \<and>
    pages (hilRange r) \<inter> pages (hilRange r') = {}"
proof -
  obtain r where r: "convertUnit (ssPage s) (spInfo (ssSpaces s ! i)) slba n HILRequest_new = Inr r"
      "places (ssPage s) (spInfo (ssSpaces s ! i)) (unat slba) (unat n) r"
      "pages (hilRange r) \<subseteq> pages (nsRange (spInfo (ssSpaces s ! i)))"
    by (rule space_places [OF assms(1,2,3,6)])
  obtain r' where r': "convertUnit (ssPage s) (spInfo (ssSpaces s ! j)) slba' n' HILRequest_new = Inr r'"
      "places (ssPage s) (spInfo (ssSpaces s ! j)) (unat slba') (unat n') r'"
      "pages (hilRange r') \<subseteq> pages (nsRange (spInfo (ssSpaces s ! j)))"
    by (rule space_places [OF assms(1,2,4,7)])
  have "pages (hilRange r) \<inter> pages (hilRange r') = {}"
    using space_range(2) [OF assms(1,3,4,5)] r(3) r'(3) by (auto simp: apart_def)
  with r r' show ?thesis by (auto simp: space_request_def)
qed

lemma two_spaces_at:
  "nsRange (spInfo (ssSpaces two_spaces ! 0)) = \<lparr>slpn = 0, nlp = 4096\<rparr>" "nsLba (spInfo (ssSpaces two_spaces ! 0)) = 4096"
  "nsRange (spInfo (ssSpaces two_spaces ! 1)) = \<lparr>slpn = 4096, nlp = 4096\<rparr>" "nsLba (spInfo (ssSpaces two_spaces ! 1)) = 4096"
  "ssPage two_spaces = 4096" "ssTotal two_spaces = 8192"
  unfolding two_spaces_def by code_simp+

lemma two_spaces_roomy: "roomy two_spaces"
proof -
  have "(4096 :: nat) = 2 ^ 12" by simp
  then show ?thesis by (auto simp: roomy_def two_spaces_at intro: exI [of _ 12])
qed

corollary namespaces_isolated_witness:
  "\<exists>r r'. space_request (ssPage two_spaces) (spInfo (ssSpaces two_spaces ! 0)) 4000 96 = Inr r \<and>
    space_request (ssPage two_spaces) (spInfo (ssSpaces two_spaces ! 1)) 0 8 = Inr r' \<and>
    places (ssPage two_spaces) (spInfo (ssSpaces two_spaces ! 0)) (unat (4000 :: u64)) (unat (96 :: u64)) r \<and>
    places (ssPage two_spaces) (spInfo (ssSpaces two_spaces ! 1)) (unat (0 :: u64)) (unat (8 :: u64)) r' \<and>
    pages (hilRange r) \<inter> pages (hilRange r') = {}"
proof (rule namespaces_isolated [OF two_spaces(1) two_spaces_roomy])
  show "fits (ssPage two_spaces) (spInfo (ssSpaces two_spaces ! 0)) 4000 96"
    "fits (ssPage two_spaces) (spInfo (ssSpaces two_spaces ! 1)) 0 8"
    by (simp_all only: fits_def two_spaces_at) simp_all
qed (simp_all add: two_spaces(2))








end
