(* ===== verification/NvmeController.thy ===== *)
theory NvmeController
  imports NvmeQueue "HOL-Library.AList"
begin

text \<open>
  The NVMe controller, \<^verbatim>\<open>src/hil/nvme/controller.cc\<close>: the registers, the queues the host creates and
  deletes, the collection of commands from the submission queues under two arbitration schemes, and
  the completions with their interrupts and the coalescing of these.

  The arrays of queues are lists, a null pointer is \<open>None\<close>; reading one, and reading outside an
  array, is undefined behaviour. The indices of the loops over the arrays have 16 bits: at most
  65535 queues are meant. The map of interrupt vectors is an association list with distinct keys. An
  event of the simulator is the tick it is scheduled for. Interrupts towards the host are results:
  pairs of a vector and whether it is raised. A command read from a queue is a fetch under way until
  the host access is over; a fetch whose queue is deleted meanwhile holds a dangling pointer.
\<close>

section \<open>State\<close>

record registers =
  rgCapabilities :: u64
  rgVersion :: u32
  rgMaskSet :: u32
  rgMaskClear :: u32
  rgConfiguration :: u32
  rgReserved :: u32
  rgStatus :: u32
  rgReset :: u32
  rgAttributes :: u32
  rgSqBase :: u64
  rgCqBase :: u64
  rgBufferLocation :: u32
  rgBufferSize :: u32

record aggregation =
  agNextTime :: tick
  agCount :: u32
  agValid :: bool
  agPending :: bool

record fetch =
  ftQueue :: "nat option"
  ftOldHead :: u16
  ftOps :: "dma_op list"

record controller =
  ctRegs :: registers
  ctSqStride :: u64
  ctCqStride :: u64
  ctAdminInited :: u8
  ctArbitration :: u16
  ctMask :: u32
  ctCq :: "cqueue option list"
  ctSq :: "squeue option list"
  ctSqFifo :: "sq_wrapper list"
  ctCqFifo :: "cq_wrapper list"
  ctFetches :: "fetch list"
  ctShutdown :: bool
  ctAggTime :: u64
  ctAggThreshold :: u32
  ctAgg :: "(u16 \<times> aggregation) list"
  ctPageOrder :: u8
  ctPageSize :: u64
  ctMaxEntries :: u16
  ctWorkEvent :: "tick option"
  ctRequestEvent :: "tick option"
  ctCompletionEvent :: "tick option"
  ctRequestCounter :: u32
  ctMaxRequest :: u32
  ctRequestInterval :: u64
  ctWorkInterval :: u64
  ctLastWork :: tick
  ctWrrHigh :: u16
  ctWrrMedium :: u16

definition RegisterTable_new :: registers where
  "RegisterTable_new = \<lparr>rgCapabilities = 0, rgVersion = 0, rgMaskSet = 0, rgMaskClear = 0, rgConfiguration = 0,
     rgReserved = 0, rgStatus = 0, rgReset = 0, rgAttributes = 0, rgSqBase = 0, rgCqBase = 0,
     rgBufferLocation = 0, rgBufferSize = 0\<rparr>"

text \<open>
  The configured numbers: completion and submission queues besides the administrative ones, requests
  in a burst, the interval of the work event, the weights. The members that are not initialised are
  those of \<open>garbage\<close>.
\<close>

definition Controller_new ::
  "controller \<Rightarrow> u64 \<Rightarrow> u64 \<Rightarrow> u64 \<Rightarrow> u64 \<Rightarrow> u64 \<Rightarrow> u64 \<Rightarrow> controller res" where
  "Controller_new garbage ncq nsq maxreq interval high medium =
     (if (ucast maxreq :: u32) = 0 then Inl (Undefined ''division by zero'')
      else
        (let cap = 0x0020002028010FFF in
         Inr (garbage\<lparr>ctRegs := RegisterTable_new\<lparr>rgCapabilities := cap, rgVersion := 0x00010201\<rparr>,
           ctAdminInited := 0, ctMask := 0,
           ctCq := replicate (unat (ucast (ncq + 1) :: u32)) None,
           ctSq := replicate (unat (ucast (nsq + 1) :: u32)) None,
           ctSqFifo := [], ctCqFifo := [], ctFetches := [], ctShutdown := False,
           ctAggTime := 0, ctAggThreshold := 0, ctAgg := [],
           ctMaxEntries := ucast (cap AND 0xFFFF) + 1,
           ctWorkEvent := None, ctRequestEvent := None, ctCompletionEvent := None,
           ctRequestCounter := 0, ctMaxRequest := ucast maxreq, ctWorkInterval := interval,
           ctRequestInterval := interval div ucast (ucast maxreq :: u32),
           ctWrrHigh := ucast high, ctWrrMedium := ucast medium\<rparr>)))"

definition cq_at :: "controller \<Rightarrow> nat \<Rightarrow> cqueue option res" where
  "cq_at c i = (if i < length (ctCq c) then Inr (ctCq c ! i) else Inl (Undefined ''ppCQueue''))"

definition sq_at :: "controller \<Rightarrow> nat \<Rightarrow> squeue option res" where
  "sq_at c i = (if i < length (ctSq c) then Inr (ctSq c ! i) else Inl (Undefined ''ppSQueue''))"

section \<open>Registers\<close>

text \<open>The table is a union with an array of 64 bytes.\<close>

definition reg_bytes :: "registers \<Rightarrow> u8 list" where
  "reg_bytes r = le_bytes 8 (rgCapabilities r) @ le_bytes 4 (ucast (rgVersion r)) @ le_bytes 4 (ucast (rgMaskSet r)) @
     le_bytes 4 (ucast (rgMaskClear r)) @ le_bytes 4 (ucast (rgConfiguration r)) @ le_bytes 4 (ucast (rgReserved r)) @
     le_bytes 4 (ucast (rgStatus r)) @ le_bytes 4 (ucast (rgReset r)) @ le_bytes 4 (ucast (rgAttributes r)) @
     le_bytes 8 (rgSqBase r) @ le_bytes 8 (rgCqBase r) @
     le_bytes 4 (ucast (rgBufferLocation r)) @ le_bytes 4 (ucast (rgBufferSize r))"

definition readRegister :: "u64 \<Rightarrow> u64 \<Rightarrow> controller \<Rightarrow> (u8 list \<times> controller) res" where
  "readRegister offs len c =
     (let r = (ctRegs c)\<lparr>rgMaskSet := ctMask c, rgMaskClear := ctMask c\<rparr> in
      if unat offs + unat len \<le> 64 then Inr (take (unat len) (drop (unat offs) (reg_bytes r)), c\<lparr>ctRegs := r\<rparr>)
      else Inl (Undefined ''read past the registers''))"

text \<open>The memory of a queue at \<open>base\<close>, contiguous.\<close>

definition queue_memory :: "controller \<Rightarrow> u64 \<Rightarrow> u64 \<Rightarrow> prp_list" where
  "queue_memory c base len = prp_of (ctPageSize c) len [PRP_new base len]"

definition rebase_admin :: "controller \<Rightarrow> controller res" where
  "rebase_admin c =
     ebind (cq_at c 0) (\<lambda>cq.
     let c = (case cq of None \<Rightarrow> c
       | Some q \<Rightarrow> c\<lparr>ctCq := (ctCq c)[0 := Some (q\<lparr>cqQueue :=
           setBase (queue_memory c (rgCqBase (ctRegs c)) (ucast (qSize (cqQueue q)) * ctCqStride c))
             (ctCqStride c) (cqQueue q)\<rparr>)]\<rparr>) in
     ebind (sq_at c 0) (\<lambda>sq.
     Inr (case sq of None \<Rightarrow> c
       | Some q \<Rightarrow> c\<lparr>ctSq := (ctSq c)[0 := Some (q\<lparr>sqQueue :=
           setBase (queue_memory c (rgSqBase (ctRegs c)) (ucast (qSize (sqQueue q)) * ctSqStride c))
             (ctSqStride c) (sqQueue q)\<rparr>)]\<rparr>)))"

text \<open>The end of a write to the configuration: shutdown, ready or not ready.\<close>

definition enable :: "tick \<Rightarrow> controller \<Rightarrow> controller" where
  "enable now c =
     (let r = ctRegs c; conf = rgConfiguration r in
      if conf AND 0xC000 \<noteq> 0 then
        c\<lparr>ctRegs := r\<lparr>rgStatus := (rgStatus r AND 0xFFFFFFF2) OR 5\<rparr>, ctShutdown := True\<rparr>
      else if conf AND 1 \<noteq> 0 then
        c\<lparr>ctRegs := r\<lparr>rgStatus := rgStatus r OR 1\<rparr>, ctWorkEvent := Some (now + ctWorkInterval c)\<rparr>
      else c\<lparr>ctRegs := r\<lparr>rgStatus := rgStatus r AND 0xFFFFFFFE\<rparr>, ctWorkEvent := None\<rparr>)"

definition configure :: "tick \<Rightarrow> u32 \<Rightarrow> controller \<Rightarrow> controller res" where
  "configure now v c =
     (let conf = (rgConfiguration (ctRegs c) AND 0xFF00000E) OR (v AND 0x00FFFFF1);
          order = ucast (drop_bit 7 (conf AND 0x780)) + 11 :: u8;
          c = c\<lparr>ctRegs := (ctRegs c)\<lparr>rgConfiguration := conf\<rparr>,
                ctSqStride := push_bit (unat (drop_bit 16 (conf AND 0x000F0000))) 1,
                ctCqStride := push_bit (unat (drop_bit 20 (conf AND 0x00F00000))) 1,
                ctPageOrder := order, ctPageSize := push_bit (unat order + 1) 1,
                ctArbitration := ucast (drop_bit 11 (conf AND 0x00003800))\<rparr>
      in ebind (rebase_admin c) (\<lambda>c. Inr (enable now c)))"

definition low_half :: "u64 \<Rightarrow> u32 \<Rightarrow> u64" where
  "low_half w v = (w AND 0xFFFFFFFF00000000) OR ucast v"

definition high_half :: "u64 \<Rightarrow> u32 \<Rightarrow> u64" where
  "high_half w v = (w AND 0xFFFFFFFF) OR push_bit 32 (ucast v)"

definition write4 :: "tick \<Rightarrow> u64 \<Rightarrow> u32 \<Rightarrow> controller \<Rightarrow> controller res" where
  "write4 now offs v c =
     (let r = ctRegs c; base = (\<lambda>r. Inr (c\<lparr>ctRegs := r, ctAdminInited := ctAdminInited c + 1\<rparr>)) in
      if offs = 0x0C then Inr (c\<lparr>ctMask := ctMask c OR v\<rparr>)
      else if offs = 0x10 then Inr (c\<lparr>ctMask := ctMask c AND NOT v\<rparr>)
      else if offs = 0x14 then configure now v c
      else if offs = 0x1C then
        Inr (if v AND 0x10 \<noteq> 0 then c\<lparr>ctRegs := r\<lparr>rgStatus := rgStatus r AND 0xFFFFFFEF\<rparr>\<rparr> else c)
      else if offs = 0x20 then Inr (c\<lparr>ctRegs := r\<lparr>rgReset := v\<rparr>\<rparr>)
      else if offs = 0x24 then
        Inr (c\<lparr>ctRegs := r\<lparr>rgAttributes := (rgAttributes r AND 0xF000F000) OR (v AND 0x0FFF0FFF)\<rparr>\<rparr>)
      else if offs = 0x30 then base (r\<lparr>rgCqBase := low_half (rgCqBase r) v\<rparr>)
      else if offs = 0x34 then base (r\<lparr>rgCqBase := high_half (rgCqBase r) v\<rparr>)
      else if offs = 0x28 then base (r\<lparr>rgSqBase := low_half (rgSqBase r) v\<rparr>)
      else if offs = 0x2C then base (r\<lparr>rgSqBase := high_half (rgSqBase r) v\<rparr>)
      else Inl (Panic ''nvme_ctrl: Write on read only register''))"

definition write8 :: "u64 \<Rightarrow> u64 \<Rightarrow> controller \<Rightarrow> controller res" where
  "write8 offs v c =
     (let r = ctRegs c; base = (\<lambda>r. Inr (c\<lparr>ctRegs := r, ctAdminInited := ctAdminInited c + 2\<rparr>)) in
      if offs = 0x30 then base (r\<lparr>rgCqBase := v\<rparr>)
      else if offs = 0x28 then base (r\<lparr>rgSqBase := v\<rparr>)
      else Inl (Panic ''nvme_ctrl: Write on read only register''))"

text \<open>The administrative queues are made when both base addresses have been written.\<close>

definition make_admin :: "controller \<Rightarrow> controller res" where
  "make_admin c =
     (if ctAdminInited c = 4 then
        (let attr = rgAttributes (ctRegs c);
             cqn = ucast (drop_bit 16 (attr AND 0x0FFF0000)) + 1; sqn = ucast (attr AND 0x0FFF) + 1
         in ebind (cq_at c 0) (\<lambda>_. ebind (sq_at c 0) (\<lambda>_.
            Inr (c\<lparr>ctAdminInited := 0, ctCq := (ctCq c)[0 := Some (CQueue_new 0 True 0 cqn)],
                   ctSq := (ctSq c)[0 := Some (SQueue_new 0 0 0 sqn)]\<rparr>))))
      else Inr c)"

definition writeRegister :: "tick \<Rightarrow> u64 \<Rightarrow> u64 \<Rightarrow> u8 list \<Rightarrow> controller \<Rightarrow> controller res" where
  "writeRegister now offs len buf c =
     ebind (if len = 4 then write4 now offs (ucast (le_value (take 4 buf))) c
            else if len = 8 then write8 offs (le_value (take 8 buf)) c
            else Inl (Panic ''nvme_ctrl: Invalid read size(%d) on controller register'')) make_admin"

section \<open>Doorbells and interrupts\<close>

type_synonym interrupt = "u16 \<times> bool"

text \<open>The sum of the entries waiting in the queues of a vector has 16 bits.\<close>

definition clearInterrupt :: "u16 \<Rightarrow> controller \<Rightarrow> interrupt" where
  "clearInterrupt iv c =
     (iv, 0 < foldl (\<lambda>n q. case q of None \<Rightarrow> n
            | Some q \<Rightarrow> if cqVector q = iv then n + getItemCount (cqQueue q) else n) (0 :: u16) (ctCq c))"

definition ringCQHeadDoorbell :: "u16 \<Rightarrow> u16 \<Rightarrow> controller \<Rightarrow> (interrupt list \<times> controller) res" where
  "ringCQHeadDoorbell qid h c =
     ebind (cq_at c (unat qid)) (\<lambda>q. Inr (case q of
       None \<Rightarrow> ([], c)
     | Some q \<Rightarrow>
         let c = c\<lparr>ctCq := (ctCq c)[unat qid := Some (cq_setHead h q)]\<rparr>
         in (if cqIen q then [clearInterrupt (cqVector q) c] else [], c)))"

definition ringSQTailDoorbell :: "u16 \<Rightarrow> u16 \<Rightarrow> controller \<Rightarrow> controller res" where
  "ringSQTailDoorbell qid t c =
     ebind (sq_at c (unat qid)) (\<lambda>q. Inr (case q of
       None \<Rightarrow> c
     | Some q \<Rightarrow> c\<lparr>ctSq := (ctSq c)[unat qid := Some (sq_setTail t q)]\<rparr>))"

section \<open>Creation and deletion of queues\<close>

text \<open>The member \<open>pending\<close> of a new entry of the map is not initialised: it is \<open>garbage\<close>.\<close>

definition aggregation_new :: "bool \<Rightarrow> aggregation" where
  "aggregation_new garbage = \<lparr>agNextTime = 0, agCount = 0, agValid = False, agPending = garbage\<rparr>"

text \<open>
  The result is the code of the operation and the controller; \<open>None\<close> when the list of pages that
  describes the memory of the queue has more than \<open>fuel\<close> parts.
\<close>

definition createCQueue ::
  "bool \<Rightarrow> nat \<Rightarrow> memory \<Rightarrow> u16 \<Rightarrow> u16 \<Rightarrow> u16 \<Rightarrow> bool \<Rightarrow> bool \<Rightarrow> u64 \<Rightarrow> controller \<Rightarrow> (int \<times> controller) res option" where
  "createCQueue garbage fuel mem cqid len iv ien pc prp1 c =
     (case cq_at c (unat cqid) of
        Inl e \<Rightarrow> Some (Inl e)
      | Inr (Some q) \<Rightarrow> Some (Inr (1, c))
      | Inr None \<Rightarrow>
          map_option (\<lambda>l. ebind l (\<lambda>l.
            let q = CQueue_new iv ien cqid len; q = q\<lparr>cqQueue := setBase l (ctCqStride c) (cqQueue q)\<rparr>
            in Inr (0, c\<lparr>ctCq := (ctCq c)[unat cqid := Some q],
                         ctAgg := AList.update iv (aggregation_new garbage) (ctAgg c)\<rparr>)))
            (PRPList_queue fuel mem (ctPageSize c) prp1 (ucast len * ctCqStride c) pc))"

definition createSQueue ::
  "nat \<Rightarrow> memory \<Rightarrow> u16 \<Rightarrow> u16 \<Rightarrow> u16 \<Rightarrow> u8 \<Rightarrow> bool \<Rightarrow> u64 \<Rightarrow> controller \<Rightarrow> (int \<times> controller) res option" where
  "createSQueue fuel mem sqid cqid len pri pc prp1 c =
     (case sq_at c (unat sqid) of
        Inl e \<Rightarrow> Some (Inl e)
      | Inr (Some q) \<Rightarrow> Some (Inr (1, c))
      | Inr None \<Rightarrow>
          (case cq_at c (unat cqid) of
             Inl e \<Rightarrow> Some (Inl e)
           | Inr None \<Rightarrow> Some (Inr (2, c))
           | Inr (Some cq) \<Rightarrow>
               map_option (\<lambda>l. ebind l (\<lambda>l.
                 let q = SQueue_new cqid pri sqid len; q = q\<lparr>sqQueue := setBase l (ctSqStride c) (sqQueue q)\<rparr>
                 in Inr (0, c\<lparr>ctSq := (ctSq c)[unat sqid := Some q]\<rparr>)))
                 (PRPList_queue fuel mem (ctPageSize c) prp1 (ucast len * ctSqStride c) pc)))"

text \<open>The search for a submission queue that uses \<open>cqid\<close>, by the number of completion queues.\<close>

fun sq_uses :: "u16 \<Rightarrow> controller \<Rightarrow> nat list \<Rightarrow> bool res" where
  "sq_uses cqid c [] = Inr False"
| "sq_uses cqid c (i # is) =
     ebind (sq_at c i) (\<lambda>q. case q of
       None \<Rightarrow> sq_uses cqid c is
     | Some q \<Rightarrow> if sqCQID q = cqid then Inr True else sq_uses cqid c is)"

definition same_vector :: "u16 \<Rightarrow> cqueue option \<Rightarrow> bool" where
  "same_vector iv q = (case q of None \<Rightarrow> False | Some q \<Rightarrow> cqVector q = iv)"

definition deleteCQueue :: "u16 \<Rightarrow> controller \<Rightarrow> (int \<times> controller) res" where
  "deleteCQueue cqid c =
     ebind (cq_at c (unat cqid)) (\<lambda>q. case q of
       None \<Rightarrow> Inr (1, c)
     | Some q \<Rightarrow>
         if cqid = 0 then Inr (1, c)
         else
           ebind (sq_uses cqid c [1..<length (ctCq c)]) (\<lambda>used.
           if used then Inr (2, c)
           else
             (let iv = cqVector q; c = c\<lparr>ctCq := (ctCq c)[unat cqid := None]\<rparr> in
              if list_ex (same_vector iv) (tl (ctCq c)) then Inr (0, c)
              else if map_of (ctAgg c) iv = None then Inl (Undefined ''erase at the end of a map'')
              else Inr (0, c\<lparr>ctAgg := AList.delete iv (ctAgg c)\<rparr>))))"

section \<open>Completion of commands\<close>

definition reserveCompletion :: "controller \<Rightarrow> controller" where
  "reserveCompletion c =
     (let first = (case ctCqFifo c of [] \<Rightarrow> [] | x # _ \<Rightarrow> [cqwSubmitAt x]);
          timers = map (agNextTime \<circ> snd) (filter (\<lambda>(iv, a). agValid a \<and> agPending a) (ctAgg c))
      in case first @ timers of [] \<Rightarrow> c | t # ts \<Rightarrow> c\<lparr>ctCompletionEvent := Some (foldl min t ts)\<rparr>)"

fun insert_by_time :: "cq_wrapper \<Rightarrow> cq_wrapper list \<Rightarrow> cq_wrapper list" where
  "insert_by_time e [] = [e]"
| "insert_by_time e (x # xs) = (if cqwSubmitAt e < cqwSubmitAt x then e # x # xs else x # insert_by_time e xs)"

definition submit :: "tick \<Rightarrow> cq_wrapper \<Rightarrow> controller \<Rightarrow> controller res" where
  "submit now e c =
     ebind (cq_at c (unat (cqwCqID e))) (\<lambda>q. case q of
       None \<Rightarrow> Inl (Panic ''nvme_ctrl: Completion Queue not created! CQID %d'')
     | Some q \<Rightarrow> Inr (reserveCompletion (c\<lparr>ctCqFifo := insert_by_time (e\<lparr>cqwSubmitAt := now\<rparr>) (ctCqFifo c)\<rparr>)))"

text \<open>The answer to an aborted command.\<close>

definition abort_answer :: "u16 \<Rightarrow> u16 \<Rightarrow> sq_wrapper \<Rightarrow> cq_wrapper" where
  "abort_answer sqhead status w =
     (let r = CQEntryWrapper_new 0 w in r\<lparr>cqwEntry := (cqwEntry r)\<lparr>cqeSqHead := sqhead, cqeStatus := status\<rparr>\<rparr>)"

text \<open>
  The scan of the commands of a deleted queue. The iterator that \<open>erase\<close> returns is incremented
  again: the command behind an erased one is skipped, and behind the last one is the end.
\<close>

fun delete_scan ::
  "tick \<Rightarrow> u16 \<Rightarrow> u16 \<Rightarrow> sq_wrapper list \<Rightarrow> controller \<Rightarrow> (sq_wrapper list \<times> controller) res" where
  "delete_scan now sqid sqhead [] c = Inr ([], c)"
| "delete_scan now sqid sqhead [w] c =
     (if sqwSqID w = sqid then
        ebind (submit now (abort_answer sqhead 0x8010 w) c) (\<lambda>c. Inl (Undefined ''increment of the end of a list''))
      else Inr ([w], c))"
| "delete_scan now sqid sqhead (w # w' # ws) c =
     (if sqwSqID w = sqid then
        ebind (submit now (abort_answer sqhead 0x8010 w) c) (\<lambda>c.
        ebind (delete_scan now sqid sqhead ws c) (\<lambda>(ws, c). Inr (w' # ws, c)))
      else ebind (delete_scan now sqid sqhead (w' # ws) c) (\<lambda>(ws, c). Inr (w # ws, c)))"

definition deleteSQueue :: "tick \<Rightarrow> u16 \<Rightarrow> controller \<Rightarrow> (int \<times> controller) res" where
  "deleteSQueue now sqid c =
     ebind (sq_at c (unat sqid)) (\<lambda>q. case q of
       None \<Rightarrow> Inr (1, c)
     | Some q \<Rightarrow>
         if sqid = 0 then Inr (1, c)
         else
           ebind (delete_scan now sqid (qHead (sqQueue q)) (ctSqFifo c) c) (\<lambda>(ws, c).
           Inr (0, c\<lparr>ctSqFifo := ws, ctSq := (ctSq c)[unat sqid := None],
             ctFetches := map (\<lambda>f. if ftQueue f = Some (unat sqid) then f\<lparr>ftQueue := None\<rparr> else f) (ctFetches c)\<rparr>)))"

text \<open>The first command of the queue with that number is answered and removed.\<close>

definition abort :: "tick \<Rightarrow> u16 \<Rightarrow> u16 \<Rightarrow> controller \<Rightarrow> (int \<times> controller) res" where
  "abort now sqid cid c =
     (case find (\<lambda>w. sqwSqID w = sqid \<and> sqeCommandID (sqwEntry w) = cid) (ctSqFifo c) of
        None \<Rightarrow> Inr (0, c)
      | Some w \<Rightarrow>
          ebind (sq_at c (unat sqid)) (\<lambda>q. case q of
            None \<Rightarrow> Inl (Undefined ''null pointer'')
          | Some q \<Rightarrow>
              ebind (submit now (abort_answer (qHead (sqQueue q)) 0x800E w) c) (\<lambda>c.
              Inr (1, c\<lparr>ctSqFifo := remove1 w (ctSqFifo c)\<rparr>))))"

section \<open>Coalescing of interrupts\<close>

text \<open>The time is multiplied as an \<open>int\<close>.\<close>

definition setCoalescingParameter :: "u8 \<Rightarrow> u8 \<Rightarrow> controller \<Rightarrow> controller res" where
  "setCoalescingParameter time thres c =
     (if unat time * 100000000 < 2 ^ 31 then
        Inr (c\<lparr>ctAggTime := ucast time * 100000000, ctAggThreshold := ucast thres\<rparr>)
      else Inl (Undefined ''signed overflow''))"

definition getCoalescingParameter :: "controller \<Rightarrow> u8 \<times> u8" where
  "getCoalescingParameter c = (ucast (ctAggTime c div 100000000), ucast (ctAggThreshold c))"

definition setCoalescing :: "u16 \<Rightarrow> bool \<Rightarrow> controller \<Rightarrow> controller" where
  "setCoalescing iv en c =
     (case map_of (ctAgg c) iv of
        None \<Rightarrow> c
      | Some a \<Rightarrow> c\<lparr>ctAgg := AList.update iv (a\<lparr>agValid := en, agNextTime := 0, agCount := 0, agPending := False\<rparr>) (ctAgg c)\<rparr>)"

definition getCoalescing :: "u16 \<Rightarrow> controller \<Rightarrow> bool" where
  "getCoalescing iv c = (case map_of (ctAgg c) iv of None \<Rightarrow> False | Some a \<Rightarrow> agValid a)"

end
