(* ===== verification/NvmeCollect.thy ===== *)
theory NvmeCollect
  imports NvmeController
begin

text \<open>
  The work event of the NVMe controller, \<^verbatim>\<open>src/hil/nvme/controller.cc\<close>: the commands of the submission
  queues are collected, round robin or by priority, and handed to the subsystem one by one. The loops
  that collect run as long as they find commands: they have fuel, and \<open>None\<close> is that it is used up.
\<close>

section \<open>Arbitration\<close>

text \<open>A command that waits in queue \<open>i\<close> is read; the access to host memory is under way from here on.\<close>

definition checkQueue :: "nat \<Rightarrow> controller \<Rightarrow> (bool \<times> controller) res" where
  "checkQueue i c =
     ebind (sq_at c i) (\<lambda>q. case q of
       None \<Rightarrow> Inl (Undefined ''null pointer'')
     | Some q \<Rightarrow>
         if getItemCount (sqQueue q) = 0 then Inr (False, c)
         else
           ebind (sq_getData q) (\<lambda>(ops, q').
           let f = (case ops of None \<Rightarrow> []
                    | Some ops \<Rightarrow> [\<lparr>ftQueue = Some i, ftOldHead = qHead (sqQueue q), ftOps = ops\<rparr>])
           in Inr (True, c\<lparr>ctSq := (ctSq c)[i := Some q'], ctFetches := ctFetches c @ f\<rparr>)))"

text \<open>A pass over the queues \<open>P\<close>; the number of commands found has 16 bits.\<close>

definition pass_step :: "(squeue \<Rightarrow> bool) \<Rightarrow> nat \<Rightarrow> u16 \<times> controller \<Rightarrow> (u16 \<times> controller) res" where
  "pass_step P i = (\<lambda>(n, c).
     ebind (sq_at c i) (\<lambda>q. case q of
       None \<Rightarrow> Inr (n, c)
     | Some q \<Rightarrow>
         if P q then ebind (checkQueue i c) (\<lambda>(found, c). Inr (if found then n + 1 else n, c))
         else Inr (n, c)))"

fun rr_loop :: "(squeue \<Rightarrow> bool) \<Rightarrow> nat list \<Rightarrow> nat \<Rightarrow> u16 \<Rightarrow> controller \<Rightarrow> (u16 \<times> controller) res option" where
  "rr_loop P is fuel n c =
     (case efold (pass_step P) is (n, c) of
        Inl e \<Rightarrow> Some (Inl e)
      | Inr (n, c) \<Rightarrow>
          if n = 0 then Some (Inr (n, c))
          else (case fuel of 0 \<Rightarrow> None | Suc fuel \<Rightarrow> rr_loop P is fuel 0 c))"

declare rr_loop.simps [simp del]

fun admin_loop :: "nat \<Rightarrow> controller \<Rightarrow> controller res option" where
  "admin_loop fuel c =
     (case checkQueue 0 c of
        Inl e \<Rightarrow> Some (Inl e)
      | Inr (found, c) \<Rightarrow>
          if \<not> found then Some (Inr c)
          else (case fuel of 0 \<Rightarrow> None | Suc fuel \<Rightarrow> admin_loop fuel c))"

declare admin_loop.simps [simp del]

text \<open>
  A pass over the queues of one priority that ends when the count \<open>n\<close> reaches its weight. The count is
  shared by the passes: it goes on where the last one left it.
\<close>

fun weighted_pass :: "u8 \<Rightarrow> u16 \<Rightarrow> nat list \<Rightarrow> u16 \<times> u32 \<times> controller \<Rightarrow> (u16 \<times> u32 \<times> controller) res" where
  "weighted_pass pri weight [] x = Inr x"
| "weighted_pass pri weight (i # is) (n, t, c) =
     ebind (sq_at c i) (\<lambda>q. case q of
       None \<Rightarrow> weighted_pass pri weight is (n, t, c)
     | Some q \<Rightarrow>
         if sqPriority q = pri then
           ebind (checkQueue i c) (\<lambda>(found, c).
           if found then
             (if n + 1 = weight then Inr (0, t + 1, c) else weighted_pass pri weight is (n + 1, t + 1, c))
           else weighted_pass pri weight is (n, t, c))
         else weighted_pass pri weight is (n, t, c))"

text \<open>The pass for queues of low priority, which looks at those of medium priority.\<close>

fun low_pass :: "nat list \<Rightarrow> u32 \<times> controller \<Rightarrow> (u32 \<times> controller) res" where
  "low_pass [] x = Inr x"
| "low_pass (i # is) (t, c) =
     ebind (sq_at c i) (\<lambda>q. case q of
       None \<Rightarrow> low_pass is (t, c)
     | Some q \<Rightarrow>
         if sqPriority q = 2 then
           ebind (checkQueue i c) (\<lambda>(found, c). if found then Inr (t + 1, c) else low_pass is (t, c))
         else low_pass is (t, c))"

definition weighted_round :: "nat list \<Rightarrow> u16 \<Rightarrow> controller \<Rightarrow> (u16 \<times> u32 \<times> controller) res" where
  "weighted_round is n c =
     ebind (weighted_pass 1 (ctWrrHigh c) is (n, 0, c)) (\<lambda>(n, t, c).
     ebind (weighted_pass 2 (ctWrrMedium c) is (n, t, c)) (\<lambda>(n, t, c).
     ebind (low_pass is (t, c)) (\<lambda>(t, c). Inr (n, t, c))))"

fun weighted_loop :: "nat list \<Rightarrow> nat \<Rightarrow> u16 \<Rightarrow> controller \<Rightarrow> controller res option" where
  "weighted_loop is fuel n c =
     (case weighted_round is n c of
        Inl e \<Rightarrow> Some (Inl e)
      | Inr (n, t, c) \<Rightarrow>
          if t = 0 then Some (Inr c)
          else (case fuel of 0 \<Rightarrow> None | Suc fuel \<Rightarrow> weighted_loop is fuel n c))"

declare weighted_loop.simps [simp del]

definition obind :: "'a res option \<Rightarrow> ('a \<Rightarrow> 'b res option) \<Rightarrow> 'b res option" where
  "obind r f = (case r of None \<Rightarrow> None | Some (Inl e) \<Rightarrow> Some (Inl e) | Some (Inr x) \<Rightarrow> f x)"

lemma obind_simps [simp]:
  "obind None f = None" "obind (Some (Inl e)) f = Some (Inl e)" "obind (Some (Inr x)) f = f x"
  by (simp_all add: obind_def)

definition ready :: "controller \<Rightarrow> bool" where
  "ready c \<longleftrightarrow> rgStatus (ctRegs c) AND 1 \<noteq> 0"

text \<open>
  The controller and whether the caller goes on: not when the controller is not ready, at once when
  nothing was found, and otherwise at the end of the last access.
\<close>

datatype collected = NotReady | Nothing | Waiting nat

definition collectSQueue :: "nat \<Rightarrow> controller \<Rightarrow> (collected \<times> controller) res option" where
  "collectSQueue fuel c =
     (let is = [0..<length (ctSq c)];
          result = (\<lambda>c'. (if length (ctFetches c') = length (ctFetches c) then Nothing
                         else Waiting (length (ctFetches c') - length (ctFetches c)), c'))
      in if \<not> ready c then Some (Inr (NotReady, c))
         else if ctArbitration c = 0 then
           obind (rr_loop (\<lambda>q. True) is fuel 0 c) (\<lambda>(n, c). Some (Inr (result c)))
         else if ctArbitration c = 1 then
           obind (admin_loop fuel c) (\<lambda>c.
           obind (rr_loop (\<lambda>q. sqPriority q = 0) (tl is) fuel 0 c) (\<lambda>(n, c).
           obind (weighted_loop (tl is) fuel n c) (\<lambda>c. Some (Inr (result c)))))
         else Some (Inl (Panic ''nvme_ctrl: Invalid arbitration method'')))"

section \<open>Commands\<close>

text \<open>
  The end of the access of a fetch: the command joins the list. The head it reports is the one the
  queue has now.
\<close>

definition sq_fetched :: "memory \<Rightarrow> fetch \<Rightarrow> controller \<Rightarrow> controller res" where
  "sq_fetched mem f c =
     (case ftQueue f of
        None \<Rightarrow> Inl (Undefined ''dangling pointer'')
      | Some i \<Rightarrow>
          ebind (sq_at c i) (\<lambda>q. case q of
            None \<Rightarrow> Inl (Undefined ''dangling pointer'')
          | Some q \<Rightarrow>
              Inr (c\<lparr>ctFetches := remove1 f (ctFetches c),
                     ctSqFifo := ctSqFifo c @ [SQEntryWrapper_new (sq_decode (dma_load mem (ftOps f) (replicate 64 0)))
                       (qId (sqQueue q)) (sqCQID q) (qHead (sqQueue q)) (ftOldHead f)]\<rparr>)))"

definition work :: "nat \<Rightarrow> controller \<Rightarrow> (collected \<times> controller) res option" where
  "work fuel c = (if ready c then collectSQueue fuel c else Some (Inr (NotReady, c)))"

text \<open>What \<open>work\<close> goes on with: a shutdown that was asked for is carried out.\<close>

definition work_collected :: "tick \<Rightarrow> controller \<Rightarrow> controller" where
  "work_collected now c =
     (let c = c\<lparr>ctLastWork := now\<rparr>; r = ctRegs c;
          c = (if ctShutdown c then
                 c\<lparr>ctWorkEvent := None, ctRegs := r\<lparr>rgStatus := (rgStatus r AND 0xFFFFFFF2) OR 8\<rparr>,
                   ctShutdown := False, ctSqFifo := []\<rparr>
               else c)
      in c\<lparr>ctRequestCounter := 0\<rparr>)"

text \<open>The command for the subsystem, if there is one, and the next event.\<close>

definition handleRequest :: "tick \<Rightarrow> controller \<Rightarrow> sq_wrapper option \<times> controller" where
  "handleRequest now c =
     (let (cmd, c) = (case ctSqFifo c of [] \<Rightarrow> (None, c) | w # ws \<Rightarrow> (Some w, c\<lparr>ctSqFifo := ws\<rparr>));
          c = c\<lparr>ctRequestCounter := ctRequestCounter c + 1\<rparr>
      in (cmd,
          if ctSqFifo c \<noteq> [] \<and> ctRequestCounter c < ctMaxRequest c then
            c\<lparr>ctRequestEvent := Some (now + ctRequestInterval c)\<rparr>
          else c\<lparr>ctWorkEvent := Some (max (now + ctRequestInterval c) (ctLastWork c + ctWorkInterval c))\<rparr>))"

end
