(* ===== verification/NvmeCompletion.thy ===== *)
theory NvmeCompletion
  imports NvmeController
begin

text \<open>
  The completion event of the NVMe controller, \<^verbatim>\<open>src/hil/nvme/controller.cc\<close>: completions that are due
  are written to their queues, and the interrupts of these queues are raised, unless they are held
  back to be raised together.
\<close>

text \<open>Whether the interrupt of a completion is raised now, with the entry of its vector.\<close>

definition coalesce :: "u64 \<Rightarrow> u32 \<Rightarrow> tick \<Rightarrow> tick \<Rightarrow> aggregation \<Rightarrow> bool \<times> aggregation" where
  "coalesce time thres now at a =
     (if \<not> agValid a then (True, a)
      else
        (let a = a\<lparr>agCount := agCount a + 1\<rparr> in
         if at < agNextTime a \<and> agCount a \<le> thres then (False, a\<lparr>agPending := True\<rparr>)
         else (True, a\<lparr>agNextTime := now + time, agCount := 0\<rparr>)))"

definition vector_of :: "tick \<Rightarrow> cq_wrapper \<Rightarrow> u16 \<Rightarrow> controller \<Rightarrow> u16 list \<times> controller" where
  "vector_of now e iv c =
     (case (if 0 < cqwCqID e then map_of (ctAgg c) iv else None) of
        None \<Rightarrow> ([iv], c)
      | Some a \<Rightarrow>
          let (post, a) = coalesce (ctAggTime c) (ctAggThreshold c) now (cqwSubmitAt e) a
          in (if post then [iv] else [], c\<lparr>ctAgg := AList.update iv a (ctAgg c)\<rparr>))"

text \<open>One completion is posted: the interrupts so far, the host memory and the controller.\<close>

definition post_entry ::
  "tick \<Rightarrow> cq_wrapper \<Rightarrow> u16 list \<times> memory \<times> controller \<Rightarrow> (u16 list \<times> memory \<times> controller) res" where
  "post_entry now e = (\<lambda>(ivs, mem, c).
     ebind (cq_at c (unat (cqwCqID e))) (\<lambda>q. case q of
       None \<Rightarrow> Inl (Undefined ''null pointer'')
     | Some q \<Rightarrow>
         ebind (cq_setData (Some (cqwEntry e)) q mem) (\<lambda>(q, mem).
         let c = c\<lparr>ctCq := (ctCq c)[unat (cqwCqID e) := Some q]\<rparr>;
             (iv, c) = (if cqIen q then vector_of now e (cqVector q) c else ([], c))
         in Inr (ivs @ iv, mem, c))))"

text \<open>The vectors whose time is over.\<close>

definition timer_over :: "tick \<Rightarrow> aggregation \<Rightarrow> bool" where
  "timer_over now a \<longleftrightarrow> agValid a \<and> agNextTime a \<le> now \<and> agPending a"

definition fire_timers :: "tick \<Rightarrow> controller \<Rightarrow> u16 list \<times> controller" where
  "fire_timers now c =
     (map fst (filter (\<lambda>(iv, a). timer_over now a) (ctAgg c)),
      c\<lparr>ctAgg := map (\<lambda>(iv, a). (iv, if timer_over now a
        then a\<lparr>agNextTime := now + ctAggTime c, agCount := 0, agPending := False\<rparr> else a)) (ctAgg c)\<rparr>)"

text \<open>
  The event: \<open>None\<close> when nothing was written, since the list of interrupts is deleted then; otherwise
  the interrupts to raise at the end of the last access.
\<close>

definition completion :: "tick \<Rightarrow> memory \<Rightarrow> controller \<Rightarrow> (u16 list option \<times> memory \<times> controller) res" where
  "completion now mem c =
     (let due = filter (\<lambda>e. cqwSubmitAt e \<le> now) (ctCqFifo c);
          c = c\<lparr>ctCqFifo := filter (\<lambda>e. \<not> cqwSubmitAt e \<le> now) (ctCqFifo c)\<rparr>
      in ebind (efold (post_entry now) due ([], mem, c)) (\<lambda>(ivs, mem, c).
         let (timers, c) = fire_timers now c
         in Inr (if due = [] then None else Some (ivs @ timers), mem, c)))"

text \<open>The end of the last access: every vector is raised once, and the event is scheduled again.\<close>

definition completion_send :: "u16 list \<Rightarrow> controller \<Rightarrow> interrupt list \<times> controller" where
  "completion_send ivs c = (map (\<lambda>iv. (iv, True)) (remdups_adj (sort ivs)), reserveCompletion c)"

end
