(* ===== verification/NvmeControllerProps.thy ===== *)
theory NvmeControllerProps
  imports NvmeCollect NvmeCompletion
begin

text \<open>
  The queues of the NVMe controller: however the host creates and deletes queues while commands are
  collected, served and completed, a submission queue always names a completion queue that exists,
  every queue stands at its number, and every interrupt vector in use has its coalescing entry.
\<close>

section \<open>Shape\<close>

text \<open>What the operations on the contents of the queues leave as it is.\<close>

definition cq_shape :: "controller \<Rightarrow> (u16 \<times> u16) option list" where
  "cq_shape c = map (map_option (\<lambda>q. (qId (cqQueue q), cqVector q))) (ctCq c)"

definition sq_shape :: "controller \<Rightarrow> (u16 \<times> u16) option list" where
  "sq_shape c = map (map_option (\<lambda>q. (qId (sqQueue q), sqCQID q))) (ctSq c)"

definition shape :: "controller \<Rightarrow> (u16 \<times> u16) option list \<times> (u16 \<times> u16) option list \<times> u16 list" where
  "shape c = (cq_shape c, sq_shape c, map fst (ctAgg c))"

text \<open>A queue stands at its number; a submission queue names a completion queue that exists.\<close>

definition cq_wired :: "u16 list \<Rightarrow> nat \<Rightarrow> (u16 \<times> u16) option \<Rightarrow> bool" where
  "cq_wired keys i e = (case e of None \<Rightarrow> True | Some (qid, iv) \<Rightarrow> unat qid = i \<and> (0 < i \<longrightarrow> iv \<in> set keys))"

definition sq_wired :: "(u16 \<times> u16) option list \<Rightarrow> nat \<Rightarrow> (u16 \<times> u16) option \<Rightarrow> bool" where
  "sq_wired cqs i e = (case e of None \<Rightarrow> True
     | Some (qid, cqid) \<Rightarrow> unat qid = i \<and> unat cqid < length cqs \<and> cqs ! unat cqid \<noteq> None \<and> (i = 0 \<longrightarrow> cqid = 0))"

definition all_at :: "(nat \<Rightarrow> 'a \<Rightarrow> bool) \<Rightarrow> 'a list \<Rightarrow> bool" where
  "all_at P xs \<longleftrightarrow> (\<forall>i<length xs. P i (xs ! i))"

definition wired_shape :: "(u16 \<times> u16) option list \<times> (u16 \<times> u16) option list \<times> u16 list \<Rightarrow> bool" where
  "wired_shape = (\<lambda>(cqs, sqs, keys). all_at (cq_wired keys) cqs \<and> all_at (sq_wired cqs) sqs \<and>
     distinct keys \<and> 0 < length sqs \<and> length sqs \<le> length cqs)"

lemma all_at_update: "all_at P xs \<Longrightarrow> P i y \<Longrightarrow> all_at P (xs[i := y])"
  by (cases "i < length xs") (auto simp: all_at_def nth_list_update list_update_beyond)

lemma all_at_mono: "all_at P xs \<Longrightarrow> (\<And>i x. P i x \<Longrightarrow> Q i x) \<Longrightarrow> all_at Q xs"
  by (auto simp: all_at_def)

lemma all_at_replicate: "(\<And>i. P i x) \<Longrightarrow> all_at P (replicate n x)"
  by (auto simp: all_at_def)

definition wired :: "controller \<Rightarrow> bool" where
  "wired c = wired_shape (shape c)"

lemma wired_cong: "shape c' = shape c \<Longrightarrow> wired c' = wired c"
  by (simp add: wired_def)

lemma cq_at_Inr: "cq_at c i = Inr q \<longleftrightarrow> i < length (ctCq c) \<and> q = ctCq c ! i"
  by (auto simp: cq_at_def)

lemma sq_at_Inr: "sq_at c i = Inr q \<longleftrightarrow> i < length (ctSq c) \<and> q = ctSq c ! i"
  by (auto simp: sq_at_def)

named_theorems shape_simps

lemma shape_fields [shape_simps]:
  "shape (c\<lparr>ctRegs := a\<rparr>) = shape c" "shape (c\<lparr>ctMask := b\<rparr>) = shape c" "shape (c\<lparr>ctAdminInited := d\<rparr>) = shape c"
  "shape (c\<lparr>ctSqStride := e\<rparr>) = shape c" "shape (c\<lparr>ctCqStride := e\<rparr>) = shape c" "shape (c\<lparr>ctArbitration := f\<rparr>) = shape c"
  "shape (c\<lparr>ctSqFifo := g\<rparr>) = shape c" "shape (c\<lparr>ctCqFifo := h\<rparr>) = shape c" "shape (c\<lparr>ctFetches := i\<rparr>) = shape c"
  "shape (c\<lparr>ctShutdown := j\<rparr>) = shape c" "shape (c\<lparr>ctAggTime := k\<rparr>) = shape c" "shape (c\<lparr>ctAggThreshold := l\<rparr>) = shape c"
  "shape (c\<lparr>ctPageOrder := m\<rparr>) = shape c" "shape (c\<lparr>ctPageSize := n\<rparr>) = shape c" "shape (c\<lparr>ctWorkEvent := ev\<rparr>) = shape c"
  "shape (c\<lparr>ctRequestEvent := ev\<rparr>) = shape c" "shape (c\<lparr>ctCompletionEvent := ev\<rparr>) = shape c"
  "shape (c\<lparr>ctRequestCounter := p\<rparr>) = shape c" "shape (c\<lparr>ctLastWork := q\<rparr>) = shape c"
  by (simp_all add: shape_def cq_shape_def sq_shape_def)

lemma map_update_same: "i < length xs \<Longrightarrow> f y = f (xs ! i) \<Longrightarrow> map f (xs[i := y]) = map f xs"
  by (simp add: map_update list_update_same_conv)

lemma shape_cq [shape_simps]:
  assumes "ctCq c ! i = Some q" and "qId (cqQueue q') = qId (cqQueue q)" and "cqVector q' = cqVector q"
  shows "shape (c\<lparr>ctCq := (ctCq c)[i := Some q']\<rparr>) = shape c"
  using assms by (cases "i < length (ctCq c)") (auto simp: shape_def cq_shape_def sq_shape_def map_update_same not_less list_update_beyond)

lemma shape_sq [shape_simps]:
  assumes "ctSq c ! i = Some q" and "qId (sqQueue q') = qId (sqQueue q)" and "sqCQID q' = sqCQID q"
  shows "shape (c\<lparr>ctSq := (ctSq c)[i := Some q']\<rparr>) = shape c"
  using assms by (cases "i < length (ctSq c)") (auto simp: shape_def cq_shape_def sq_shape_def map_update_same not_less list_update_beyond)

lemma shape_agg [shape_simps]:
  assumes "map_of (ctAgg c) iv = Some a"
  shows "shape (c\<lparr>ctAgg := AList.update iv a' (ctAgg c)\<rparr>) = shape c"
proof -
  have "iv \<in> set (map fst (ctAgg c))" using assms map_of_SomeD by force
  then show ?thesis by (simp add: shape_def cq_shape_def sq_shape_def update_keys)
qed

section \<open>Operations that keep the shape\<close>

lemma shape_reserve [shape_simps]: "shape (reserveCompletion c) = shape c"
  by (auto simp: reserveCompletion_def Let_def shape_simps split: list.splits)

lemma shape_submit: "submit now e c = Inr c' \<Longrightarrow> shape c' = shape c"
  by (auto simp: submit_def shape_simps split: option.splits)

lemma shape_checkQueue: "checkQueue i c = Inr (found, c') \<Longrightarrow> shape c' = shape c"
proof -
  assume a: "checkQueue i c = Inr (found, c')"
  then obtain q where q: "sq_at c i = Inr (Some q)" by (auto simp: checkQueue_def split: option.splits)
  show ?thesis
  proof (cases "getItemCount (sqQueue q) = 0")
    case True
    then show ?thesis using a q by (simp add: checkQueue_def)
  next
    case False
    then obtain ops q' where g: "sq_getData q = Inr (ops, q')" and "shape c' = shape (c\<lparr>ctSq := (ctSq c)[i := Some q']\<rparr>)"
      using a q by (auto simp: checkQueue_def shape_def cq_shape_def sq_shape_def)
    moreover have "qId (sqQueue q') = qId (sqQueue q)" "sqCQID q' = sqCQID q"
      using g by (auto simp: sq_getData_def Let_def split: if_splits)
    ultimately show ?thesis using shape_sq [of c i q q'] q by (simp add: sq_at_Inr)
  qed
qed

lemma shape_pass_step: "pass_step P i x = Inr y \<Longrightarrow> shape (snd y) = shape (snd x)"
  by (cases x) (auto simp: pass_step_def split: option.splits if_splits dest!: shape_checkQueue)

lemma shape_pass:
  assumes "efold (pass_step P) is x = Inr y"
  shows "shape (snd y) = shape (snd x)"
  using efold_invariant [OF assms, of "\<lambda>z. shape (snd z) = shape (snd x)"] shape_pass_step by force

lemma shape_rr_loop: "rr_loop P is fuel n c = Some (Inr (n', c')) \<Longrightarrow> shape c' = shape c"
proof (induction fuel arbitrary: n c)
  case (0 n c)
  then show ?case
    using shape_pass [of P "is" "(n, c)"] by (subst (asm) rr_loop.simps) (auto split: sum.splits if_splits)
next
  case (Suc fuel n c)
  then show ?case
    using shape_pass [of P "is" "(n, c)"]
    by (subst (asm) rr_loop.simps) (fastforce split: sum.splits if_splits dest: Suc.IH)
qed

lemma shape_admin_loop: "admin_loop fuel c = Some (Inr c') \<Longrightarrow> shape c' = shape c"
proof (induction fuel arbitrary: c)
  case (0 c)
  then show ?case by (subst (asm) admin_loop.simps) (auto split: sum.splits if_splits dest: shape_checkQueue)
next
  case (Suc fuel c)
  then show ?case
    by (subst (asm) admin_loop.simps) (auto split: sum.splits if_splits dest!: Suc.IH shape_checkQueue)
qed

lemma shape_weighted_pass: "weighted_pass pri w is (n, t, c) = Inr (n', t', c') \<Longrightarrow> shape c' = shape c"
proof (induction "is" arbitrary: n t c)
  case (Cons i "is")
  then show ?case
    by (auto split: option.splits if_splits dest!: Cons.IH shape_checkQueue)
qed simp

lemma shape_low_pass: "low_pass is (t, c) = Inr (t', c') \<Longrightarrow> shape c' = shape c"
proof (induction "is" arbitrary: t c)
  case (Cons i "is")
  then show ?case
    by (auto split: option.splits if_splits dest!: Cons.IH shape_checkQueue)
qed simp

lemma shape_weighted_round: "weighted_round is n c = Inr (n', t', c') \<Longrightarrow> shape c' = shape c"
  by (auto simp: weighted_round_def dest!: shape_weighted_pass shape_low_pass)

lemma shape_weighted_loop: "weighted_loop is fuel n c = Some (Inr c') \<Longrightarrow> shape c' = shape c"
proof (induction fuel arbitrary: n c)
  case (0 n c)
  then show ?case by (subst (asm) weighted_loop.simps) (auto split: sum.splits if_splits dest: shape_weighted_round)
next
  case (Suc fuel n c)
  then show ?case
    by (subst (asm) weighted_loop.simps) (auto split: sum.splits if_splits dest!: Suc.IH shape_weighted_round)
qed

lemma obind_Inr: "obind r f = Some (Inr y) \<longleftrightarrow> (\<exists>x. r = Some (Inr x) \<and> f x = Some (Inr y))"
  by (auto simp: obind_def split: option.splits sum.splits)

lemma shape_collect: "collectSQueue fuel c = Some (Inr (r, c')) \<Longrightarrow> shape c' = shape c"
  by (auto simp: collectSQueue_def Let_def obind_Inr split: if_splits
      dest!: shape_rr_loop shape_admin_loop shape_weighted_loop)

lemma shape_vector_of: "vector_of now e iv c = (ivs, c') \<Longrightarrow> shape c' = shape c"
  by (auto simp: vector_of_def Let_def shape_simps split: option.splits prod.splits if_splits)

lemma shape_post:
  assumes "post_entry now e (ivs, mem, c) = Inr (ivs', mem', c')"
  shows "shape c' = shape c"
proof -
  obtain q where q: "cq_at c (unat (cqwCqID e)) = Inr (Some q)"
    using assms by (auto simp: post_entry_def split: option.splits)
  then obtain q' mem1 where s: "cq_setData (Some (cqwEntry e)) q mem = Inr (q', mem1)"
    using assms by (auto simp: post_entry_def)
  let ?c = "c\<lparr>ctCq := (ctCq c)[unat (cqwCqID e) := Some q']\<rparr>"
  have "qId (cqQueue q') = qId (cqQueue q)" "cqVector q' = cqVector q"
    using s by (auto simp: cq_setData_def step_tail_def Let_def split: if_splits)
  then have "shape ?c = shape c" using q by (intro shape_cq) (auto simp: cq_at_Inr)
  moreover have "shape c' = shape ?c"
    using assms q s by (auto simp: post_entry_def Let_def split: if_splits prod.splits dest: shape_vector_of)
  ultimately show ?thesis by simp
qed

lemma shape_fire: "fire_timers now c = (ivs, c') \<Longrightarrow> shape c' = shape c"
  by (auto simp: fire_timers_def shape_def cq_shape_def sq_shape_def case_prod_unfold)

lemma shape_completion:
  assumes "completion now mem c = Inr (ivs, mem', c')"
  shows "shape c' = shape c"
proof -
  let ?due = "filter (\<lambda>e. cqwSubmitAt e \<le> now) (ctCqFifo c)"
  let ?c = "c\<lparr>ctCqFifo := filter (\<lambda>e. \<not> cqwSubmitAt e \<le> now) (ctCqFifo c)\<rparr>"
  obtain iv1 mem1 c1 where e: "efold (post_entry now) ?due ([], mem, ?c) = Inr (iv1, mem1, c1)"
    and f: "shape c' = shape (snd (fire_timers now c1))"
    using assms by (auto simp: completion_def Let_def split: prod.splits)
  have "shape (snd (snd (iv1, mem1, c1))) = shape c"
    by (rule efold_invariant [OF e]) (auto simp: shape_simps dest: shape_post)
  then show ?thesis using f shape_fire [of now c1] by (cases "fire_timers now c1") auto
qed

lemma shape_rebase: "rebase_admin c = Inr c' \<Longrightarrow> shape c' = shape c"
proof -
  assume a: "rebase_admin c = Inr c'"
  define c1 where "c1 = (case ctCq c ! 0 of None \<Rightarrow> c
       | Some q \<Rightarrow> c\<lparr>ctCq := (ctCq c)[0 := Some (q\<lparr>cqQueue :=
           setBase (queue_memory c (rgCqBase (ctRegs c)) (ucast (qSize (cqQueue q)) * ctCqStride c))
             (ctCqStride c) (cqQueue q)\<rparr>)]\<rparr>)"
  have 1: "shape c1 = shape c"
    by (auto simp: c1_def setBase_def shape_cq split: option.splits)
  have "cq_at c 0 = Inr (ctCq c ! 0)" using a by (auto simp: rebase_admin_def cq_at_Inr)
  then have "ebind (sq_at c1 0) (\<lambda>sq. Inr (case sq of None \<Rightarrow> c1
       | Some q \<Rightarrow> c1\<lparr>ctSq := (ctSq c1)[0 := Some (q\<lparr>sqQueue :=
           setBase (queue_memory c1 (rgSqBase (ctRegs c1)) (ucast (qSize (sqQueue q)) * ctSqStride c1))
             (ctSqStride c1) (sqQueue q)\<rparr>)]\<rparr>)) = Inr c'"
    using a unfolding rebase_admin_def Let_def c1_def by simp
  then have "shape c' = shape c1"
    by (cases "ctSq c1 ! 0") (auto simp: sq_at_Inr shape_sq setBase_def)
  with 1 show ?thesis by simp
qed

lemma shape_write4: "write4 now offs v c = Inr c' \<Longrightarrow> shape c' = shape c"
proof -
  assume a: "write4 now offs v c = Inr c'"
  have conf: "configure now v c = Inr c' \<Longrightarrow> shape c' = shape c"
    by (auto simp: configure_def Let_def enable_def shape_simps dest!: shape_rebase)
  show ?thesis
    using a by (auto simp: write4_def Let_def shape_simps conf split: if_splits)
qed

lemma shape_write8: "write8 offs v c = Inr c' \<Longrightarrow> shape c' = shape c"
  by (auto simp: write8_def Let_def shape_simps split: if_splits)

lemma shape_delete_scan:
  "delete_scan now sqid h ws c = Inr (ws', c') \<Longrightarrow> shape c' = shape c"
proof (induction now sqid h ws c arbitrary: ws' c' rule: delete_scan.induct)
  case (3 now sqid h w w' ws c)
  show ?case
  proof (cases "sqwSqID w = sqid")
    case True
    then obtain c1 ws1 where "submit now (abort_answer h 0x8010 w) c = Inr c1"
      and "delete_scan now sqid h ws c1 = Inr (ws1, c')"
      using 3(3) by auto
    then show ?thesis using 3(1) [OF True] shape_submit by metis
  next
    case False
    then show ?thesis using 3(2,3) by auto
  qed
qed (auto split: if_splits)

section \<open>Operations that change the shape\<close>

lemma wired_start:
  assumes "Controller_new garbage ncq nsq maxreq interval high medium = Inr c"
    and "nsq \<le> ncq" and "ncq < 65535"
  shows "wired c"
proof -
  have "unat (ucast (n + 1) :: u32) = unat n + 1" if "n \<le> ncq" for n :: u64
  proof -
    have "unat n < 65535" using that assms(3) by (simp add: word_le_nat_alt word_less_nat_alt)
    moreover from this have "unat (n + 1) = unat n + 1" by (simp add: unat_word_ariths)
    ultimately show ?thesis by (simp add: unsigned_ucast_eq unsigned_take_bit_eq take_bit_nat_eq_self)
  qed
  then have "ctCq c = replicate (unat ncq + 1) None" "ctSq c = replicate (unat nsq + 1) None" "ctAgg c = []"
    using assms by (auto simp: Controller_new_def Let_def simp del: replicate_Suc split: if_splits)
  then show ?thesis
    using assms(2)
    by (auto simp: wired_def wired_shape_def shape_def cq_shape_def sq_shape_def word_le_nat_alt cq_wired_def sq_wired_def
        simp del: replicate_Suc intro!: all_at_replicate)
qed

lemma wired_shape_cq:
  assumes "wired_shape (cqs, sqs, keys)" and "i < length cqs" and "unat qid = i" and "0 < i \<longrightarrow> iv \<in> set keys'"
    and "distinct keys'" and "set keys \<subseteq> set keys'"
  shows "wired_shape (cqs[i := Some (qid, iv)], sqs, keys')"
proof -
  have "all_at (cq_wired keys') cqs"
    using assms(1,6) by (auto simp: wired_shape_def cq_wired_def split: option.splits elim!: all_at_mono)
  moreover have "all_at (sq_wired (cqs[i := Some (qid, iv)])) sqs"
    using assms(1,2)
    by (auto simp: wired_shape_def sq_wired_def nth_list_update split: option.splits elim!: all_at_mono)
  ultimately show ?thesis
    using assms by (auto simp: wired_shape_def cq_wired_def intro!: all_at_update)
qed

lemma wired_shape_sq:
  assumes "wired_shape (cqs, sqs, keys)" and "sq_wired cqs i e"
  shows "wired_shape (cqs, sqs[i := e], keys)"
  using assms by (auto simp: wired_shape_def intro!: all_at_update)

lemma shape_parts:
  "cq_shape (c\<lparr>ctSq := x\<rparr>) = cq_shape c" "sq_shape (c\<lparr>ctCq := y\<rparr>) = sq_shape c"
  "cq_shape (c\<lparr>ctAgg := z\<rparr>) = cq_shape c" "sq_shape (c\<lparr>ctAgg := z\<rparr>) = sq_shape c"
  "cq_shape (c\<lparr>ctCq := y\<rparr>) = map (map_option (\<lambda>q. (qId (cqQueue q), cqVector q))) y"
  "sq_shape (c\<lparr>ctSq := x\<rparr>) = map (map_option (\<lambda>q. (qId (sqQueue q), sqCQID q))) x"
  by (simp_all add: cq_shape_def sq_shape_def)

lemma cq_shape_at: "i < length (ctCq c) \<Longrightarrow> cq_shape c ! i = map_option (\<lambda>q. (qId (cqQueue q), cqVector q)) (ctCq c ! i)"
  and sq_shape_at: "i < length (ctSq c) \<Longrightarrow> sq_shape c ! i = map_option (\<lambda>q. (qId (sqQueue q), sqCQID q)) (ctSq c ! i)"
  and length_shape [simp]: "length (cq_shape c) = length (ctCq c)" "length (sq_shape c) = length (ctSq c)"
  by (simp_all add: cq_shape_def sq_shape_def)

lemma shape_nil [simp]: "cq_shape c = [] \<longleftrightarrow> ctCq c = []" "sq_shape c = [] \<longleftrightarrow> ctSq c = []"
  by (simp_all add: cq_shape_def sq_shape_def)

lemma wired_make_admin:
  assumes "make_admin c = Inr c'" and "wired c"
  shows "wired c'"
proof (cases "ctAdminInited c = 4")
  case True
  have pos: "0 < length (ctCq c)" "0 < length (ctSq c)"
    using assms(2) by (auto simp: wired_def wired_shape_def shape_def)
  have "shape c' = ((cq_shape c)[0 := Some (0, 0)], (sq_shape c)[0 := Some (0, 0)], map fst (ctAgg c))"
    using assms(1) True pos
    by (auto simp: make_admin_def Let_def shape_def cq_shape_def sq_shape_def map_update
        CQueue_new_def SQueue_new_def Queue_new_def)
  moreover have "wired_shape ((cq_shape c)[0 := Some (0, 0)], sq_shape c, map fst (ctAgg c))"
    using assms(2) pos by (intro wired_shape_cq) (auto simp: wired_def shape_def wired_shape_def)
  ultimately show ?thesis
    using pos by (auto simp: wired_def sq_wired_def intro!: wired_shape_sq)
qed (use assms in \<open>simp add: make_admin_def\<close>)

lemma wired_createCQueue:
  assumes "createCQueue garbage fuel mem cqid len iv ien pc prp1 c = Some (Inr (r, c'))" and "wired c"
  shows "wired c'"
proof (cases "cq_at c (unat cqid)")
  case (Inr q)
  show ?thesis
  proof (cases q)
    case None
    then obtain l where c': "c' = c\<lparr>ctCq := (ctCq c)[unat cqid := Some ((CQueue_new iv ien cqid len)\<lparr>cqQueue :=
        setBase l (ctCqStride c) (Queue_new cqid len)\<rparr>)], ctAgg := AList.update iv (aggregation_new garbage) (ctAgg c)\<rparr>"
      using assms(1) Inr by (auto simp: createCQueue_def Let_def CQueue_new_def)
    have "shape c' = ((cq_shape c)[unat cqid := Some (cqid, iv)], sq_shape c, map fst (AList.update iv (aggregation_new garbage) (ctAgg c)))"
      by (simp add: c' shape_def cq_shape_def sq_shape_def map_update CQueue_new_def setBase_def Queue_new_def)
    moreover have "wired_shape (cq_shape c, sq_shape c, map fst (ctAgg c))"
      using assms(2) by (simp add: wired_def shape_def)
    then have "wired_shape ((cq_shape c)[unat cqid := Some (cqid, iv)], sq_shape c,
        map fst (AList.update iv (aggregation_new garbage) (ctAgg c)))"
      by (rule wired_shape_cq) (use Inr assms(2) in
        \<open>auto simp: cq_at_Inr update_keys wired_def wired_shape_def shape_def\<close>)
    ultimately show ?thesis by (simp add: wired_def)
  next
    case (Some x)
    then show ?thesis using assms Inr by (simp add: createCQueue_def)
  qed
qed (use assms in \<open>simp add: createCQueue_def\<close>)

lemma wired_createSQueue:
  assumes "createSQueue fuel mem sqid cqid len pri pc prp1 c = Some (Inr (r, c'))" and "wired c"
    and "ctSq c ! 0 \<noteq> None"
  shows "wired c'"
proof (cases "sq_at c (unat sqid)")
  case (Inr q)
  show ?thesis
  proof (cases q)
    case None
    show ?thesis
    proof (cases "cq_at c (unat cqid)")
      case cq: (Inr cq)
      show ?thesis
      proof (cases cq)
        case None
        then show ?thesis using assms Inr cq \<open>q = None\<close> by (simp add: createSQueue_def)
      next
        case (Some x)
        then obtain l where c': "c' = c\<lparr>ctSq := (ctSq c)[unat sqid := Some ((SQueue_new cqid pri sqid len)\<lparr>sqQueue :=
            setBase l (ctSqStride c) (Queue_new sqid len)\<rparr>)]\<rparr>"
          using assms(1) Inr cq \<open>q = None\<close> by (auto simp: createSQueue_def Let_def SQueue_new_def)
        have "shape c' = (cq_shape c, (sq_shape c)[unat sqid := Some (sqid, cqid)], map fst (ctAgg c))"
          by (simp add: c' shape_def cq_shape_def sq_shape_def map_update SQueue_new_def setBase_def Queue_new_def)
        moreover have "ctCq c ! unat cqid = Some x" "ctSq c ! unat sqid = None"
          using cq Some Inr \<open>q = None\<close> by (auto simp: cq_at_Inr sq_at_Inr)
        then have "sq_wired (cq_shape c) (unat sqid) (Some (sqid, cqid))"
          using cq Some Inr \<open>q = None\<close> assms(3) by (auto simp: sq_wired_def cq_at_Inr sq_at_Inr cq_shape_at)
        ultimately show ?thesis using assms(2) by (simp add: wired_def shape_def wired_shape_sq)
      qed
    qed (use assms Inr \<open>q = None\<close> in \<open>simp add: createSQueue_def\<close>)
  next
    case (Some x)
    then show ?thesis using assms Inr by (simp add: createSQueue_def)
  qed
qed (use assms in \<open>simp add: createSQueue_def\<close>)

lemma sq_uses_False:
  "sq_uses cqid c is = Inr False \<Longrightarrow> i \<in> set is \<Longrightarrow> i < length (ctSq c) \<and> (\<forall>q. ctSq c ! i = Some q \<longrightarrow> sqCQID q \<noteq> cqid)"
  by (induction "is") (auto simp: sq_at_Inr split: option.splits if_splits)

lemma list_ex_tl: "list_ex P (tl xs) \<longleftrightarrow> (\<exists>i. 0 < i \<and> i < length xs \<and> P (xs ! i))"
  by (cases xs) (auto simp: list_ex_length nth_Cons' gr0_conv_Suc)

lemma wired_deleteCQueue:
  assumes "deleteCQueue cqid c = Inr (r, c')" and "wired c"
  shows "wired c'"
proof -
  obtain q where q: "cq_at c (unat cqid) = Inr q" using assms(1) by (auto simp: deleteCQueue_def)
  show ?thesis
  proof (cases "q = None \<or> cqid = 0")
    case True
    then have "c' = c" using assms(1) q by (auto simp: deleteCQueue_def split: option.splits)
    then show ?thesis using assms(2) by simp
  next
    case False
    then obtain x where x: "q = Some x" and nz: "cqid \<noteq> 0" by auto
    obtain used where used: "sq_uses cqid c [1..<length (ctCq c)] = Inr used"
      using assms(1) q x nz by (auto simp: deleteCQueue_def)
    show ?thesis
    proof (cases used)
      case True
      then show ?thesis using assms q x nz used by (simp add: deleteCQueue_def)
    next
      case False
      let ?i = "unat cqid" and ?iv = "cqVector x"
      let ?c = "c\<lparr>ctCq := (ctCq c)[?i := None]\<rparr>"
      have i: "0 < ?i" "?i < length (ctCq c)" using nz q by (auto simp: unat_gt_0 cq_at_Inr)
      have w: "all_at (cq_wired (map fst (ctAgg c))) (cq_shape c)" "all_at (sq_wired (cq_shape c)) (sq_shape c)"
        "distinct (map fst (ctAgg c))" "0 < length (ctSq c)" "length (ctSq c) \<le> length (ctCq c)"
        using assms(2) by (auto simp: wired_def wired_shape_def shape_def)
      have cqs: "cq_shape ?c = (cq_shape c)[?i := None]" by (simp add: cq_shape_def map_update)
      have sqs: "all_at (sq_wired (cq_shape ?c)) (sq_shape c)"
        unfolding all_at_def
      proof (intro allI impI)
        fix j assume j: "j < length (sq_shape c)"
        have old: "sq_wired (cq_shape c) j (sq_shape c ! j)" using w(2) j by (auto simp: all_at_def)
        have "sqCQID y \<noteq> cqid" if "ctSq c ! j = Some y" for y
        proof (cases "j = 0")
          case True
          then show ?thesis using old that j nz by (auto simp: sq_wired_def sq_shape_at)
        next
          case False
          then show ?thesis using sq_uses_False [of cqid c _ j] used \<open>\<not> used\<close> that j w(5) by auto
        qed
        then show "sq_wired (cq_shape ?c) j (sq_shape c ! j)"
          using old j by (cases "ctSq c ! j") (auto simp: sq_wired_def sq_shape_at cqs nth_list_update word_unat_eq_iff)
      qed
      show ?thesis
      proof (cases "list_ex (same_vector ?iv) (tl (ctCq ?c))")
        case True
        then have "c' = ?c" using assms(1) q x nz used \<open>\<not> used\<close> by (simp add: deleteCQueue_def)
        moreover have "all_at (cq_wired (map fst (ctAgg c))) (cq_shape ?c)"
          unfolding cqs by (rule all_at_update [OF w(1)]) (simp add: cq_wired_def)
        ultimately show ?thesis using sqs w(3-5) by (simp add: wired_def wired_shape_def shape_def shape_parts)
      next
        case False
        then have c': "c' = ?c\<lparr>ctAgg := AList.delete ?iv (ctAgg c)\<rparr>"
          using assms(1) q x nz used \<open>\<not> used\<close> by (auto simp: deleteCQueue_def Let_def split: if_splits)
        have "all_at (cq_wired (map fst (AList.delete ?iv (ctAgg c)))) (cq_shape ?c)"
          unfolding all_at_def
        proof (intro allI impI)
          fix j assume j: "j < length (cq_shape ?c)"
          have "all_at (cq_wired (map fst (ctAgg c))) (cq_shape ?c)"
            unfolding cqs by (rule all_at_update [OF w(1)]) (simp add: cq_wired_def)
          then have old: "cq_wired (map fst (ctAgg c)) j (cq_shape ?c ! j)" using j by (auto simp: all_at_def)
          have "cqVector y \<noteq> ?iv" if "0 < j" "ctCq ?c ! j = Some y" for y
            using False that j unfolding list_ex_tl by (auto simp: same_vector_def)
          then show "cq_wired (map fst (AList.delete ?iv (ctAgg c))) j (cq_shape ?c ! j)"
            using old j cq_shape_at [of j ?c] by (cases "ctCq ?c ! j") (auto simp: cq_wired_def delete_keys)
        qed
        moreover have "distinct (map fst (AList.delete ?iv (ctAgg c)))" using w(3) by (rule distinct_delete)
        ultimately show ?thesis using sqs w(4,5) by (simp add: c' wired_def wired_shape_def shape_def shape_parts)
      qed
    qed
  qed
qed

lemma wired_deleteSQueue:
  assumes "deleteSQueue now sqid c = Inr (r, c')" and "wired c"
  shows "wired c'"
proof -
  obtain q where q: "sq_at c (unat sqid) = Inr q" using assms(1) by (auto simp: deleteSQueue_def)
  show ?thesis
  proof (cases "q = None \<or> sqid = 0")
    case True
    then have "c' = c" using assms(1) q by (auto simp: deleteSQueue_def split: option.splits)
    then show ?thesis using assms(2) by simp
  next
    case False
    then obtain x where x: "q = Some x" and nz: "sqid \<noteq> 0" by auto
    then obtain ws c1 where s: "delete_scan now sqid (qHead (sqQueue x)) (ctSqFifo c) c = Inr (ws, c1)"
      and "shape c' = shape (c1\<lparr>ctSq := (ctSq c1)[unat sqid := None]\<rparr>)"
      using assms(1) q by (auto simp: deleteSQueue_def shape_def cq_shape_def sq_shape_def)
    then have "shape c' = (cq_shape c1, (sq_shape c1)[unat sqid := None], map fst (ctAgg c1))"
      by (simp add: shape_def cq_shape_def sq_shape_def map_update)
    moreover have "wired_shape (cq_shape c1, sq_shape c1, map fst (ctAgg c1))"
      using assms(2) shape_delete_scan [OF s] by (simp add: wired_def shape_def)
    ultimately show ?thesis by (simp add: wired_def wired_shape_sq sq_wired_def)
  qed
qed

section \<open>Reachable states\<close>

text \<open>
  The operations of the controller in any order. Queues are created by commands of the administrative
  queues, which exist then. The ticks, the memory of the host and the data of the commands are
  arbitrary, and so are the completions the subsystem submits.
\<close>

inductive ctrl_step :: "controller \<Rightarrow> controller \<Rightarrow> bool" where
  "readRegister offs len c = Inr (buf, c') \<Longrightarrow> ctrl_step c c'"
| "writeRegister now offs len buf c = Inr c' \<Longrightarrow> ctrl_step c c'"
| "ringCQHeadDoorbell qid h c = Inr (ints, c') \<Longrightarrow> ctrl_step c c'"
| "ringSQTailDoorbell qid t c = Inr c' \<Longrightarrow> ctrl_step c c'"
| "createCQueue garbage fuel mem cqid len iv ien pc prp1 c = Some (Inr (r, c')) \<Longrightarrow> ctrl_step c c'"
| "ctSq c ! 0 \<noteq> None \<Longrightarrow> createSQueue fuel mem sqid cqid len pri pc prp1 c = Some (Inr (r, c')) \<Longrightarrow> ctrl_step c c'"
| "deleteCQueue cqid c = Inr (r, c') \<Longrightarrow> ctrl_step c c'"
| "deleteSQueue now sqid c = Inr (r, c') \<Longrightarrow> ctrl_step c c'"
| "abort now sqid cid c = Inr (r, c') \<Longrightarrow> ctrl_step c c'"
| "setCoalescingParameter time thres c = Inr c' \<Longrightarrow> ctrl_step c c'"
| "ctrl_step c (setCoalescing iv en c)"
| "work fuel c = Some (Inr (r, c')) \<Longrightarrow> ctrl_step c c'"
| "f \<in> set (ctFetches c) \<Longrightarrow> sq_fetched mem f c = Inr c' \<Longrightarrow> ctrl_step c c'"
| "ctrl_step c (work_collected now c)"
| "ctrl_step c (snd (handleRequest now c))"
| "submit now e c = Inr c' \<Longrightarrow> ctrl_step c c'"
| "completion now mem c = Inr (ivs, mem', c') \<Longrightarrow> ctrl_step c c'"
| "ctrl_step c (snd (completion_send ivs c))"

inductive ctrl_reach :: "controller \<Rightarrow> bool" where
  start: "Controller_new garbage ncq nsq maxreq interval high medium = Inr c \<Longrightarrow> nsq \<le> ncq \<Longrightarrow> ncq < 65535 \<Longrightarrow>
    ctrl_reach c"
| step: "ctrl_reach c \<Longrightarrow> ctrl_step c c' \<Longrightarrow> ctrl_reach c'"

lemma shape_doorbells:
  "ringCQHeadDoorbell qid h c = Inr (ints, c') \<Longrightarrow> shape c' = shape c"
  "ringSQTailDoorbell qid t c = Inr c' \<Longrightarrow> shape c' = shape c"
  by (auto simp: ringCQHeadDoorbell_def ringSQTailDoorbell_def cq_at_Inr sq_at_Inr Let_def cq_setHead_def sq_setTail_def
      shape_cq shape_sq split: option.splits if_splits)

lemma shape_misc [shape_simps]:
  "shape (setCoalescing iv en c) = shape c" "shape (work_collected now c) = shape c"
  "shape (snd (handleRequest now c)) = shape c" "shape (snd (completion_send ivs c)) = shape c"
  by (auto simp: setCoalescing_def work_collected_def handleRequest_def completion_send_def Let_def shape_simps
      split: option.splits list.splits)

lemma shape_abort: "abort now sqid cid c = Inr (r, c') \<Longrightarrow> shape c' = shape c"
  by (auto simp: abort_def shape_simps split: option.splits dest!: shape_submit)

lemma shape_fetched: "sq_fetched mem f c = Inr c' \<Longrightarrow> shape c' = shape c"
  by (auto simp: sq_fetched_def shape_def cq_shape_def sq_shape_def split: option.splits)

lemma ctrl_step_wired: "ctrl_step c c' \<Longrightarrow> wired c \<Longrightarrow> wired c'"
proof (induction rule: ctrl_step.induct)
  case (1 offs len c buf c')
  then have "shape c' = shape c" by (auto simp: readRegister_def Let_def shape_simps split: if_splits)
  then show ?case using 1 wired_cong by blast
next
  case (2 now offs len buf c c')
  then obtain c1 where "shape c1 = shape c" "make_admin c1 = Inr c'"
    by (auto simp: writeRegister_def split: if_splits dest!: shape_write4 shape_write8)
  then show ?case using 2 wired_make_admin wired_cong by blast
next
  case (10 time thres c c')
  then have "shape c' = shape c" by (auto simp: setCoalescingParameter_def shape_simps split: if_splits)
  then show ?case using 10 wired_cong by blast
next
  case (12 fuel c r c')
  then have "shape c' = shape c" by (auto simp: work_def split: if_splits dest: shape_collect)
  then show ?case using 12 wired_cong by blast
qed (metis wired_cong shape_doorbells shape_misc shape_abort shape_fetched shape_submit shape_completion
      wired_createCQueue wired_createSQueue wired_deleteCQueue wired_deleteSQueue)+

lemma ctrl_reach_wired: "ctrl_reach c \<Longrightarrow> wired c"
  by (induction rule: ctrl_reach.induct) (blast intro: wired_start ctrl_step_wired)+

end
