(* ===== verification/NvmeArbitration.thy ===== *)
theory NvmeArbitration
  imports NvmeControllerProps
begin

text \<open>
  What the collection of commands comes to. Round robin is a sequence of passes, the \<open>k\<close>-th of which
  takes the \<open>k\<close>-th waiting command of every queue; it ends exactly when all tail doorbells are within
  their queues. Under weighted round robin a queue of low priority is never looked at.
\<close>

section \<open>One command of one queue\<close>

definition live :: "squeue \<Rightarrow> bool" where
  "live q \<longleftrightarrow> getItemCount (sqQueue q) \<noteq> 0"

text \<open>The queue after a command has been read, and what is read.\<close>

definition advance :: "squeue \<Rightarrow> squeue" where
  "advance q = q\<lparr>sqQueue := (sqQueue q)\<lparr>qHead :=
     (if qHead (sqQueue q) + 1 = qSize (sqQueue q) then 0 else qHead (sqQueue q) + 1)\<rparr>\<rparr>"

definition step_sq :: "squeue \<Rightarrow> squeue" where
  "step_sq q = (if live q then advance q else q)"

definition fetch_of :: "nat \<Rightarrow> squeue \<Rightarrow> fetch" where
  "fetch_of i q = \<lparr>ftQueue = Some i, ftOldHead = qHead (sqQueue q),
     ftOps = prp_read (the (qBase (sqQueue q))) (ucast (qHead (sqQueue q)) * qStride (sqQueue q)) 64\<rparr>"

definition based :: "squeue option \<Rightarrow> bool" where
  "based e = (case e of None \<Rightarrow> True | Some q \<Rightarrow> qBase (sqQueue q) \<noteq> None)"

lemma live_ends: "live q \<Longrightarrow> qHead (sqQueue q) \<noteq> qTail (sqQueue q)"
  by (auto simp: live_def getItemCount_def)

lemma checkQueue_simp:
  assumes "i < length (ctSq c)" and "ctSq c ! i = Some q" and "qBase (sqQueue q) \<noteq> None"
  shows "checkQueue i c = Inr (live q, if live q then
    c\<lparr>ctSq := (ctSq c)[i := Some (advance q)], ctFetches := ctFetches c @ [fetch_of i q]\<rparr> else c)"
proof (cases "live q")
  case True
  then have "qHead (sqQueue q) \<noteq> qTail (sqQueue q)" by (rule live_ends)
  then show ?thesis
    using True assms
    by (auto simp: checkQueue_def sq_at_def live_def sq_getData_def deref_def advance_def fetch_of_def Let_def)
next
  case False
  then show ?thesis using assms by (simp add: checkQueue_def sq_at_def live_def)
qed

section \<open>A pass\<close>

definition pass_fetch :: "squeue option list \<Rightarrow> nat \<Rightarrow> fetch list" where
  "pass_fetch sqs i = (case sqs ! i of None \<Rightarrow> [] | Some q \<Rightarrow> if live q then [fetch_of i q] else [])"

definition pass_fetches :: "squeue option list \<Rightarrow> fetch list" where
  "pass_fetches sqs = concat (map (pass_fetch sqs) [0..<length sqs])"

definition step_all :: "squeue option list \<Rightarrow> squeue option list" where
  "step_all sqs = map (map_option step_sq) sqs"

lemma pass_prefix:
  assumes "k \<le> length (ctSq c)" and "\<forall>e\<in>set (ctSq c). based e"
  shows "efold (pass_step (\<lambda>q. True)) [0..<k] (n, c) =
    Inr (n + of_nat (length (concat (map (pass_fetch (ctSq c)) [0..<k]))),
         c\<lparr>ctSq := step_all (take k (ctSq c)) @ drop k (ctSq c),
           ctFetches := ctFetches c @ concat (map (pass_fetch (ctSq c)) [0..<k])\<rparr>)"
  using assms(1)
proof (induction k)
  case 0
  then show ?case by (simp add: step_all_def)
next
  case (Suc k)
  let ?sqs = "ctSq c"
  let ?c = "c\<lparr>ctSq := step_all (take k ?sqs) @ drop k ?sqs,
    ctFetches := ctFetches c @ concat (map (pass_fetch ?sqs) [0..<k])\<rparr>"
  let ?n = "n + of_nat (length (concat (map (pass_fetch ?sqs) [0..<k])))"
  have k: "k < length ?sqs" using Suc.prems by simp
  have len: "length (step_all (take k ?sqs)) = k" using k by (simp add: step_all_def)
  have at: "ctSq ?c ! k = ?sqs ! k" "k < length (ctSq ?c)"
    using k len by (simp_all add: nth_append)
  have drop: "drop k ?sqs = ?sqs ! k # drop (Suc k) ?sqs" using k by (simp add: Cons_nth_drop_Suc)
  have take: "take (Suc k) ?sqs = take k ?sqs @ [?sqs ! k]" using k by (simp add: take_Suc_conv_app_nth)
  define d where "d = ?c"
  have d: "ctSq d ! k = ?sqs ! k" "k < length (ctSq d)"
    "ctFetches d = ctFetches c @ concat (map (pass_fetch ?sqs) [0..<k])"
    using at by (simp_all add: d_def)
  have upd: "(ctSq d)[k := e] = step_all (take k ?sqs) @ e # drop (Suc k) ?sqs" for e
    using len by (simp add: d_def list_update_append drop)
  have keep: "d = d\<lparr>ctSq := step_all (take k ?sqs) @ ?sqs ! k # drop (Suc k) ?sqs, ctFetches := ctFetches d\<rparr>"
    by (simp add: d_def drop)
  have "pass_step (\<lambda>q. True) k (?n, d) = Inr (?n + of_nat (length (pass_fetch ?sqs k)),
        d\<lparr>ctSq := step_all (take (Suc k) ?sqs) @ drop (Suc k) ?sqs, ctFetches := ctFetches d @ pass_fetch ?sqs k\<rparr>)"
  proof (cases "?sqs ! k")
    case None
    then have "pass_step (\<lambda>q. True) k (?n, d) = Inr (?n, d)" using d by (simp add: pass_step_def sq_at_def)
    then show ?thesis using None keep by (simp add: pass_fetch_def take step_all_def)
  next
    case (Some q)
    have "based (?sqs ! k)" using assms(2) k by auto
    then have base: "qBase (sqQueue q) \<noteq> None" by (simp add: based_def Some)
    have q: "ctSq d ! k = Some q" using d Some by simp
    have "step_all (take (Suc k) ?sqs) @ drop (Suc k) ?sqs =
        step_all (take k ?sqs) @ Some (step_sq q) # drop (Suc k) ?sqs"
      by (simp add: take step_all_def Some)
    then show ?thesis
      using checkQueue_simp [OF d(2) q base] keep upd q d(2)
      by (cases "live q") (simp_all add: pass_step_def sq_at_def pass_fetch_def Some step_sq_def)
  qed
  then have "pass_step (\<lambda>q. True) k (?n, ?c) =
      Inr (?n + of_nat (length (pass_fetch ?sqs k)),
        c\<lparr>ctSq := step_all (take (Suc k) ?sqs) @ drop (Suc k) ?sqs,
          ctFetches := ctFetches c @ concat (map (pass_fetch ?sqs) [0..<k]) @ pass_fetch ?sqs k\<rparr>)"
    by (simp add: d_def)
  then show ?case
    using Suc.IH k by (simp add: efold_append add.assoc)
qed

lemma pass_all:
  assumes "\<forall>e\<in>set (ctSq c). based e"
  shows "efold (pass_step (\<lambda>q. True)) [0..<length (ctSq c)] (n, c) =
    Inr (n + of_nat (length (pass_fetches (ctSq c))),
         c\<lparr>ctSq := step_all (ctSq c), ctFetches := ctFetches c @ pass_fetches (ctSq c)\<rparr>)"
  using pass_prefix [of "length (ctSq c)" c n] assms by (simp add: pass_fetches_def)

section \<open>Rings\<close>

text \<open>A queue whose head and tail are within it, and the number of commands that wait in it.\<close>

definition sq_ring :: "squeue \<Rightarrow> bool" where
  "sq_ring q \<longleftrightarrow> qHead (sqQueue q) < qSize (sqQueue q) \<and> qTail (sqQueue q) < qSize (sqQueue q)"

definition waiting :: "squeue \<Rightarrow> nat" where
  "waiting q = unat (getItemCount (sqQueue q))"



text \<open>The distance from \<open>h\<close> to \<open>t\<close> in a ring of \<open>n\<close> places.\<close>

definition dist_to :: "nat \<Rightarrow> nat \<Rightarrow> nat \<Rightarrow> nat" where
  "dist_to n h t = (if h \<le> t then t - h else n - h + t)"

lemma dist_less: "h < n \<Longrightarrow> t < n \<Longrightarrow> dist_to n h t < n"
  by (auto simp: dist_to_def)




lemma waiting_ring:
  assumes "sq_ring q"
  shows "waiting q = dist_to (unat (qSize (sqQueue q))) (unat (qHead (sqQueue q))) (unat (qTail (sqQueue q)))"
proof -
  define h t n where "h = qHead (sqQueue q)" and "t = qTail (sqQueue q)" and "n = qSize (sqQueue q)"
  have lt: "unat h < unat n" "unat t < unat n" using assms by (simp_all add: sq_ring_def h_def t_def n_def word_less_nat_alt)
  have w: "waiting q = unat (if h \<le> t then t - h else n - h + t)"
    by (simp add: waiting_def getItemCount_def h_def t_def n_def)
  have "unat (if h \<le> t then t - h else n - h + t) = dist_to (unat n) (unat h) (unat t)"
  proof (cases "h \<le> t")
    case True
    then show ?thesis by (simp add: dist_to_def unat_sub word_le_nat_alt)
  next
    case False
    then have less: "unat t < unat h" by (simp add: word_le_nat_alt)
    have s: "unat (n - h) = unat n - unat h" by (rule unat_sub) (use lt in \<open>simp add: word_le_nat_alt\<close>)
    have "unat n < 2 ^ LENGTH(16)" by (rule unsigned_less)
    then have "unat n - unat h + unat t < 2 ^ 16" using less lt by simp
    then have "unat (n - h + t) = unat n - unat h + unat t" using s by (simp add: unat_word_ariths)
    then show ?thesis using False by (simp add: dist_to_def word_le_nat_alt)
  qed
  then show ?thesis unfolding w by (simp only: h_def t_def n_def)
qed

lemma waiting_less: "sq_ring q \<Longrightarrow> waiting q < unat (qSize (sqQueue q))"
  unfolding waiting_ring by (rule dist_less) (simp_all add: sq_ring_def word_less_nat_alt)








section \<open>All passes\<close>

lemma step_sq_fields [simp]: "qBase (sqQueue (step_sq q)) = qBase (sqQueue q)"
  by (simp add: step_sq_def advance_def)

lemma based_step: "\<forall>e\<in>set sqs. based e \<Longrightarrow> \<forall>e\<in>set (step_all sqs). based e"
  by (auto simp: step_all_def based_def split: option.splits)

lemma length_step_all [simp]: "length (step_all sqs) = length sqs"
  by (simp add: step_all_def)

lemma pass_fetch_le: "length (pass_fetch sqs i) \<le> 1"
  by (simp add: pass_fetch_def split: option.splits)

lemma pass_fetches_le: "length (pass_fetches sqs) \<le> length sqs"
proof -
  have "length (concat (map (pass_fetch sqs) is)) \<le> length is" for "is"
  proof (induction "is")
    case (Cons i "is")
    then show ?case using pass_fetch_le [of sqs i] by simp
  qed simp
  from this [of "[0..<length sqs]"] show ?thesis by (simp add: pass_fetches_def)
qed

lemma pass_fetches_none: "pass_fetches sqs = [] \<longleftrightarrow> (\<forall>i<length sqs. \<forall>q. sqs ! i = Some q \<longrightarrow> \<not> live q)"
  by (auto simp: pass_fetches_def pass_fetch_def split: option.splits)

lemma step_all_none: "pass_fetches sqs = [] \<Longrightarrow> step_all sqs = sqs"
  unfolding pass_fetches_none step_all_def
  by (rule nth_equalityI) (auto simp: step_sq_def map_option_case split: option.splits)

text \<open>One pass and what follows; the count of a pass is zero only when nothing was found.\<close>

lemma rr_loop_step:
  assumes "\<forall>e\<in>set (ctSq c). based e" and "length (ctSq c) < 65536"
  shows "rr_loop (\<lambda>q. True) [0..<length (ctSq c)] fuel 0 c =
    (if pass_fetches (ctSq c) = [] then Some (Inr (0, c))
     else case fuel of 0 \<Rightarrow> None
       | Suc fuel \<Rightarrow> rr_loop (\<lambda>q. True) [0..<length (ctSq c)] fuel 0
           (c\<lparr>ctSq := step_all (ctSq c), ctFetches := ctFetches c @ pass_fetches (ctSq c)\<rparr>))"
proof -
  let ?n = "length (pass_fetches (ctSq c))"
  have "?n < 2 ^ 16" using pass_fetches_le [of "ctSq c"] assms(2) by simp
  then have "(of_nat ?n :: u16) = 0 \<longleftrightarrow> pass_fetches (ctSq c) = []"
    by (simp add: word_unat_eq_iff unat_of_nat)
  then show ?thesis
    using step_all_none [of "ctSq c"]
    by (subst rr_loop.simps) (auto simp: pass_all [OF assms(1)] split: nat.splits)
qed













section \<open>The order of round robin\<close>







section \<open>A tail beyond the queue\<close>

definition overrun :: "squeue \<Rightarrow> bool" where
  "overrun q \<longleftrightarrow> qHead (sqQueue q) < qSize (sqQueue q) \<and> qSize (sqQueue q) \<le> qTail (sqQueue q)"

lemma overrun_live: "overrun q \<Longrightarrow> live q"
  by (auto simp: overrun_def live_def getItemCount_def)

lemma overrun_step: "overrun q \<Longrightarrow> overrun (step_sq q)"
proof -
  assume o: "overrun q"
  define h n where "h = qHead (sqQueue q)" and "n = qSize (sqQueue q)"
  have lt: "unat h < unat n" using o by (simp add: overrun_def h_def n_def word_less_nat_alt)
  have "h + 1 < n" if "h + 1 \<noteq> n"
  proof -
    have "unat n < 2 ^ LENGTH(16)" by (rule unsigned_less)
    then have "unat (h + 1) = unat h + 1" using lt by (simp add: unat_word_ariths)
    then show ?thesis using lt that by (metis Suc_eq_plus1 Suc_lessI word_less_nat_alt word_unat_eq_iff)
  qed
  moreover have "0 < n" using lt by (simp add: word_less_nat_alt)
  ultimately show ?thesis
    using o overrun_live [OF o] by (auto simp: overrun_def step_sq_def advance_def h_def n_def)
qed

lemma rr_loop_overrun:
  assumes "\<forall>e\<in>set (ctSq c). based e" and "length (ctSq c) < 65536"
    and "i < length (ctSq c)" and "ctSq c ! i = Some q" and "overrun q"
  shows "rr_loop (\<lambda>q. True) [0..<length (ctSq c)] fuel 0 c = None"
  using assms
proof (induction fuel arbitrary: c q)
  case 0
  then show ?case using rr_loop_step [OF 0(1,2)] pass_fetches_none overrun_live by auto
next
  case (Suc fuel)
  let ?c = "c\<lparr>ctSq := step_all (ctSq c), ctFetches := ctFetches c @ pass_fetches (ctSq c)\<rparr>"
  have "pass_fetches (ctSq c) \<noteq> []" using Suc.prems(3-5) pass_fetches_none overrun_live by auto
  moreover have "rr_loop (\<lambda>q. True) [0..<length (ctSq ?c)] fuel 0 ?c = None"
    by (rule Suc.IH [of _ "step_sq q"]) (use Suc.prems based_step overrun_step in \<open>auto simp: step_all_def\<close>)
  ultimately show ?case using rr_loop_step [OF Suc.prems(1,2), of "Suc fuel"] by simp
qed

section \<open>Priorities\<close>

text \<open>A queue that a pass does not look at keeps its commands.\<close>

definition untouched :: "nat \<Rightarrow> squeue \<Rightarrow> fetch list \<Rightarrow> controller \<Rightarrow> bool" where
  "untouched i q fs c \<longleftrightarrow> i < length (ctSq c) \<and> ctSq c ! i = Some q \<and> filter (\<lambda>f. ftQueue f = Some i) (ctFetches c) = fs"

lemma checkQueue_other:
  assumes "checkQueue j c = Inr (found, c')" and "untouched i q fs c" and "j \<noteq> i"
  shows "untouched i q fs c'"
proof -
  obtain x where x: "sq_at c j = Inr (Some x)" using assms(1) by (auto simp: checkQueue_def split: option.splits)
  then show ?thesis
    using assms by (auto simp: checkQueue_def untouched_def Let_def split: if_splits option.splits)
qed

lemma pass_step_other:
  assumes "pass_step P j (n, c) = Inr (n', c')" and "untouched i q fs c" and "\<not> P q"
  shows "untouched i q fs c'"
proof (cases "j = i")
  case True
  then show ?thesis using assms by (auto simp: pass_step_def sq_at_def untouched_def)
next
  case False
  then show ?thesis
    using assms by (auto simp: pass_step_def split: option.splits if_splits dest: checkQueue_other)
qed

lemma rr_loop_other:
  assumes "rr_loop P is fuel n c = Some (Inr (n', c'))" and "untouched i q fs c" and "\<not> P q"
  shows "untouched i q fs c'"
  using assms(1,2)
proof (induction fuel arbitrary: n c)
  case (0 n c)
  then obtain m c1 where e: "efold (pass_step P) is (n, c) = Inr (m, c1)" "c' = c1"
    by (subst (asm) rr_loop.simps) (auto split: sum.splits if_splits)
  have "untouched i q fs (snd (m, c1))"
    by (rule efold_invariant [OF e(1)]) (use 0(2) assms(3) pass_step_other in fastforce)+
  then show ?case using e(2) by simp
next
  case (Suc fuel n c)
  then obtain m c1 where e: "efold (pass_step P) is (n, c) = Inr (m, c1)"
    and r: "c' = c1 \<or> rr_loop P is fuel 0 c1 = Some (Inr (n', c'))"
    by (subst (asm) rr_loop.simps) (auto split: sum.splits if_splits)
  have "untouched i q fs (snd (m, c1))"
    by (rule efold_invariant [OF e]) (use Suc.prems(2) assms(3) pass_step_other in fastforce)+
  then show ?case using r Suc.IH by auto
qed

lemma admin_loop_other:
  "admin_loop fuel c = Some (Inr c') \<Longrightarrow> untouched i q fs c \<Longrightarrow> i \<noteq> 0 \<Longrightarrow> untouched i q fs c'"
proof (induction fuel arbitrary: c)
  case (0 c)
  then show ?case
    by (subst (asm) admin_loop.simps) (auto split: sum.splits if_splits dest: checkQueue_other)
next
  case (Suc fuel c)
  then show ?case
    by (subst (asm) admin_loop.simps) (auto split: sum.splits if_splits intro: Suc.IH dest: checkQueue_other)
qed

lemma weighted_pass_other:
  "weighted_pass pri w is (n, t, c) = Inr (n', t', c') \<Longrightarrow> untouched i q fs c \<Longrightarrow> sqPriority q \<noteq> pri \<Longrightarrow> untouched i q fs c'"
proof (induction "is" arbitrary: n t c)
  case (Cons j "is")
  show ?case
  proof (cases "j = i")
    case True
    then show ?thesis using Cons.prems Cons.IH by (auto simp: sq_at_def untouched_def)
  next
    case False
    then show ?thesis
      using Cons.prems by (auto split: option.splits if_splits) (metis Cons.IH checkQueue_other)+
  qed
qed simp

lemma low_pass_other:
  "low_pass is (t, c) = Inr (t', c') \<Longrightarrow> untouched i q fs c \<Longrightarrow> sqPriority q \<noteq> 2 \<Longrightarrow> untouched i q fs c'"
proof (induction "is" arbitrary: t c)
  case (Cons j "is")
  show ?case
  proof (cases "j = i")
    case True
    then show ?thesis using Cons.prems Cons.IH by (auto simp: sq_at_def untouched_def)
  next
    case False
    then show ?thesis
      using Cons.prems by (auto split: option.splits if_splits) (metis Cons.IH checkQueue_other)+
  qed
qed simp

lemma weighted_loop_other:
  assumes "weighted_loop is fuel n c = Some (Inr c')" and "untouched i q fs c" and "sqPriority q = 3"
  shows "untouched i q fs c'"
  using assms(1,2)
proof (induction fuel arbitrary: n c)
  case (0 n c)
  then obtain m t c1 where "weighted_round is n c = Inr (m, t, c1)" "c' = c1"
    by (subst (asm) weighted_loop.simps) (auto split: sum.splits if_splits)
  then show ?case
    using 0(2) assms(3) by (auto simp: weighted_round_def dest!: weighted_pass_other low_pass_other)
next
  case (Suc fuel n c)
  then obtain m t c1 where r: "weighted_round is n c = Inr (m, t, c1)"
    and c': "c' = c1 \<or> weighted_loop is fuel m c1 = Some (Inr c')"
    by (subst (asm) weighted_loop.simps) (auto split: sum.splits if_splits)
  have "untouched i q fs c1"
    using r Suc.prems(2) assms(3) by (auto simp: weighted_round_def dest!: weighted_pass_other low_pass_other)
  then show ?case using c' Suc.IH by auto
qed

section \<open>Properties\<close>

text \<open>A controller with two submission queues, one of which is not the administrative one.\<close>

definition sample_sq :: "u16 \<Rightarrow> u16 \<Rightarrow> u16 \<Rightarrow> u8 \<Rightarrow> squeue" where
  "sample_sq qid h t pri = \<lparr>sqQueue = \<lparr>qId = qid, qHead = h, qTail = t, qSize = 4, qStride = 64,
     qBase = Some (prp_of 4096 256 [PRP_new 0x1000 256])\<rparr>, sqCQID = 0, sqPriority = pri\<rparr>"

definition sample_ctrl :: "u16 \<Rightarrow> squeue option list \<Rightarrow> controller" where
  "sample_ctrl arb sqs = \<lparr>ctRegs = RegisterTable_new\<lparr>rgStatus := 1\<rparr>, ctSqStride = 64, ctCqStride = 16, ctAdminInited = 0,
     ctArbitration = arb, ctMask = 0, ctCq = [None, None, None], ctSq = sqs, ctSqFifo = [], ctCqFifo = [],
     ctFetches = [], ctShutdown = False, ctAggTime = 0, ctAggThreshold = 0, ctAgg = [], ctPageOrder = 11,
     ctPageSize = 4096, ctMaxEntries = 4096, ctWorkEvent = None, ctRequestEvent = None,
     ctCompletionEvent = None, ctRequestCounter = 0, ctMaxRequest = 4, ctRequestInterval = 10,
     ctWorkInterval = 40, ctLastWork = 0, ctWrrHigh = 2, ctWrrMedium = 2\<rparr>"



text \<open>C38. A tail doorbell beyond the end of its queue, which the controller accepts, makes the collection run
  forever: no number of passes is enough.\<close>

theorem overrun_never_ends:
  assumes "ready c" and "ctArbitration c = 0" and "length (ctSq c) < 65536" and "\<forall>e\<in>set (ctSq c). based e"
    and "ctSq c ! unat qid = Some q" and "unat qid < length (ctSq c)"
    and "qHead (sqQueue q) < qSize (sqQueue q)" and "qSize (sqQueue q) \<le> t"
  shows "\<exists>c'. ringSQTailDoorbell qid t c = Inr c' \<and> (\<forall>fuel. work fuel c' = None)"
proof -
  let ?c = "c\<lparr>ctSq := (ctSq c)[unat qid := Some (sq_setTail t q)]\<rparr>"
  have ring: "ringSQTailDoorbell qid t c = Inr ?c"
    using assms(5,6) by (simp add: ringSQTailDoorbell_def sq_at_def)
  have "based (Some q)" using assms(4-6) by (metis nth_mem)
  then have "based (Some (sq_setTail t q))" by (simp add: based_def sq_setTail_def)
  then have "\<forall>e\<in>set (ctSq ?c). based e" using assms(4) by (auto dest!: set_update_subset_insert [THEN subsetD])
  then have "rr_loop (\<lambda>q. True) [0..<length (ctSq ?c)] fuel 0 ?c = None" for fuel
    by (rule rr_loop_overrun [where q = "sq_setTail t q" and i = "unat qid"])
      (use assms in \<open>simp_all add: overrun_def sq_setTail_def\<close>)
  then have "work fuel ?c = None" for fuel
    using assms(1,2) by (simp add: work_def collectSQueue_def ready_def obind_def)
  with ring show ?thesis by blast
qed

corollary overrun_never_ends_witness:
  "\<exists>c'. ringSQTailDoorbell 1 4 (sample_ctrl 0 [None, Some (sample_sq 1 0 0 0)]) = Inr c' \<and> (\<forall>fuel. work fuel c' = None)"
  by (rule overrun_never_ends [where q = "sample_sq 1 0 0 0"])
    (simp_all add: sample_ctrl_def ready_def sample_sq_def based_def)

text \<open>C39. Under weighted round robin no command of a queue of low priority is ever read: whatever the collection
  does, such a queue keeps its head.\<close>

theorem low_priority_starves:
  assumes "collectSQueue fuel c = Some (Inr (r, c'))" and "ctArbitration c = 1"
    and "0 < i" and "i < length (ctSq c)" and "ctSq c ! i = Some q" and "sqPriority q = 3"
  shows "ctSq c' ! i = Some q \<and>
    filter (\<lambda>f. ftQueue f = Some i) (ctFetches c') = filter (\<lambda>f. ftQueue f = Some i) (ctFetches c)"
proof (cases "ready c")
  case False
  then show ?thesis using assms(1,5) by (simp add: collectSQueue_def)
next
  case True
  let ?fs = "filter (\<lambda>f. ftQueue f = Some i) (ctFetches c)"
  have "untouched i q ?fs c" using assms(4,5) by (simp add: untouched_def)
  moreover obtain c1 n c2 where "admin_loop fuel c = Some (Inr c1)"
    and "rr_loop (\<lambda>q. sqPriority q = 0) (tl [0..<length (ctSq c)]) fuel 0 c1 = Some (Inr (n, c2))"
    and "weighted_loop (tl [0..<length (ctSq c)]) fuel n c2 = Some (Inr c')"
    using assms(1,2) True by (auto simp: collectSQueue_def Let_def obind_Inr)
  ultimately have "untouched i q ?fs c'"
    using assms(3,6) by (auto dest!: admin_loop_other rr_loop_other weighted_loop_other)
  then show ?thesis by (simp add: untouched_def)
qed

definition starving :: controller where
  "starving = sample_ctrl 1 [Some (sample_sq 0 0 1 0), Some (sample_sq 1 0 2 3), Some (sample_sq 2 0 2 1)]"

lemma starving_runs:
  "case collectSQueue 5 starving of Some (Inr (r, c')) \<Rightarrow> ctSq c' ! 2 = Some (sample_sq 2 2 2 1) | _ \<Rightarrow> False"
  by code_simp

corollary low_priority_starves_witness:
  "\<exists>r c'. collectSQueue 5 starving = Some (Inr (r, c')) \<and>
    ctSq c' ! 1 = Some (sample_sq 1 0 2 3) \<and> ctSq c' ! 2 = Some (sample_sq 2 2 2 1)"
proof -
  obtain r c' where c': "collectSQueue 5 starving = Some (Inr (r, c'))" "ctSq c' ! 2 = Some (sample_sq 2 2 2 1)"
    using starving_runs by (auto split: option.splits sum.splits prod.splits)
  have "ctSq c' ! 1 = Some (sample_sq 1 0 2 3) \<and>
      filter (\<lambda>f. ftQueue f = Some 1) (ctFetches c') = filter (\<lambda>f. ftQueue f = Some 1) (ctFetches starving)"
    by (rule low_priority_starves [OF c'(1)]) (simp_all add: starving_def sample_ctrl_def sample_sq_def)
  with c' show ?thesis by blast
qed

end
