(* ===== verification/NvmeInterrupts.thy ===== *)
theory NvmeInterrupts
  imports NvmeArbitration
begin

text \<open>
  Interrupts of the NVMe controller: every completion that is posted raises the interrupt of its queue
  at once or leaves it to a timer for which the completion event is scheduled. When that event finds
  nothing to post, however, the interrupt is forgotten.
\<close>

section \<open>Posting\<close>

text \<open>Whether the queues raise interrupts, and which.\<close>

definition irq_of :: "controller \<Rightarrow> nat \<Rightarrow> u16 option" where
  "irq_of c i = (if i < length (ctCq c) then
     (case ctCq c ! i of None \<Rightarrow> None | Some q \<Rightarrow> if cqIen q then Some (cqVector q) else None) else None)"

definition held_back :: "controller \<Rightarrow> u16 \<Rightarrow> bool" where
  "held_back c iv \<longleftrightarrow> (\<exists>a. map_of (ctAgg c) iv = Some a \<and> agValid a \<and> agPending a)"

lemma irq_of_agg [simp]: "irq_of (c\<lparr>ctAgg := x\<rparr>) = irq_of c"
  by (auto simp: irq_of_def fun_eq_iff)





section \<open>Timers\<close>

lemma map_of_values: "map_of (map (\<lambda>(k, v). (k, f v)) l) k = map_option f (map_of l k)"
  by (induction l) auto





section \<open>Nothing is forgotten\<close>

text \<open>Two completion queues with interrupts, and one completion that is due on the second of them.\<close>

definition sample_cq :: "u16 \<Rightarrow> u16 \<Rightarrow> cqueue" where
  "sample_cq qid iv = \<lparr>cqQueue = \<lparr>qId = qid, qHead = 0, qTail = 0, qSize = 4, qStride = 16,
     qBase = Some (prp_of 4096 256 [PRP_new 0x1000 256])\<rparr>, cqIen = True, cqPhase = True, cqVector = iv\<rparr>"


definition coalescing :: "tick \<Rightarrow> bool \<Rightarrow> cq_wrapper list \<Rightarrow> controller" where
  "coalescing next_time pending es = (sample_ctrl 0 [None, None])\<lparr>ctCq := [Some (sample_cq 0 0), Some (sample_cq 1 5)],
     ctCqFifo := es, ctAggTime := 100, ctAggThreshold := 3,
     ctAgg := [(5, \<lparr>agNextTime = next_time, agCount = 0, agValid = True, agPending = pending\<rparr>)]\<rparr>"





text \<open>C37. When the completion event finds no completion that is due, the timers that are over are reset and
  their vectors are dropped: no interrupt is raised, none is pending any more, and the event is not
  scheduled again.\<close>

theorem timer_interrupt_lost:
  assumes "\<forall>e\<in>set (ctCqFifo c). now < cqwSubmitAt e"
    and "map_of (ctAgg c) v = Some a" and "agValid a" and "agPending a" and "agNextTime a \<le> now"
  shows "\<exists>c'. completion now mem c = Inr (None, mem, c') \<and> \<not> held_back c' v \<and>
    ctCqFifo c' = ctCqFifo c \<and> ctCompletionEvent c' = ctCompletionEvent c \<and>
    map_of (ctAgg c') v = Some (a\<lparr>agNextTime := now + ctAggTime c, agCount := 0, agPending := False\<rparr>)"
proof -
  have none: "filter (\<lambda>e. cqwSubmitAt e \<le> now) (ctCqFifo c) = []" using assms(1) by (auto simp: filter_empty_conv)
  have all: "filter (\<lambda>e. \<not> cqwSubmitAt e \<le> now) (ctCqFifo c) = ctCqFifo c" using assms(1) by (auto simp: filter_id_conv)
  have "timer_over now a" using assms(3-5) by (simp add: timer_over_def)
  then have "map_of (ctAgg (snd (fire_timers now c))) v =
      Some (a\<lparr>agNextTime := now + ctAggTime c, agCount := 0, agPending := False\<rparr>)"
    using assms(2) by (simp add: fire_timers_def map_of_values)
  moreover have "completion now mem c = Inr (None, mem, snd (fire_timers now c))"
    by (simp add: completion_def none all fire_timers_def)
  ultimately show ?thesis by (simp add: held_back_def fire_timers_def)
qed

corollary timer_interrupt_lost_witness:
  "\<exists>c'. completion 90 (\<lambda>_. 0) (coalescing 90 True []) = Inr (None, \<lambda>_. 0, c') \<and> \<not> held_back c' 5 \<and>
    ctCompletionEvent c' = None"
  using timer_interrupt_lost [of "coalescing 90 True []" 90 5
    "\<lparr>agNextTime = 90, agCount = 0, agValid = True, agPending = True\<rparr>" "\<lambda>_. 0"]
  by (auto simp: coalescing_def sample_ctrl_def)

section \<open>Numbers and vectors\<close>






end
