(* ===== verification/NvmeAdmin.thy ===== *)
theory NvmeAdmin
  imports NvmeController NvmeSpaces
begin

text \<open>
  Commands of the NVMe interface, \<^verbatim>\<open>src/hil/nvme/subsystem.cc\<close>: the administrative ones and the choice
  of the namespace for the others, and the page that describes the controller
  (\<^verbatim>\<open>Controller::identify\<close>). What a command leads to is a list of effects in the order the code has
  them: an answer, a transfer or a request of the layers below that is answered when it is over, or
  the hand-over to a namespace. The SMART log of the drive is never written: it is 512 zeros.
\<close>

section \<open>Effects\<close>

abbreviation STATUS_INVALID_COMPLETION_QUEUE :: u32 where "STATUS_INVALID_COMPLETION_QUEUE \<equiv> 0"
abbreviation STATUS_INVALID_QUEUE_ID :: u32 where "STATUS_INVALID_QUEUE_ID \<equiv> 1"
abbreviation STATUS_INVALID_QUEUE_SIZE :: u32 where "STATUS_INVALID_QUEUE_SIZE \<equiv> 2"
abbreviation STATUS_INVALID_QUEUE_DELETE :: u32 where "STATUS_INVALID_QUEUE_DELETE \<equiv> 12"
abbreviation STATUS_FEATURE_ID_NOT_SAVEABLE :: u32 where "STATUS_FEATURE_ID_NOT_SAVEABLE \<equiv> 13"

text \<open>
  \<open>SendLog\<close> has the size of the host memory, the offset in it, the bytes and the answer; \<open>ToSpace\<close> the
  position of the namespace.
\<close>

datatype effect =
    Reply cq_wrapper
  | Outcome space_outcome
  | SendLog u32 u64 "u8 list" cq_wrapper
  | StartSoc
  | ToSpace nat

text \<open>The time of an answer is set when it is submitted.\<close>

definition response :: "sq_wrapper \<Rightarrow> cq_wrapper" where
  "response w = CQEntryWrapper_new 0 w"

definition set_dword0 :: "u32 \<Rightarrow> cq_wrapper \<Rightarrow> cq_wrapper" where
  "set_dword0 d r = r\<lparr>cqwEntry := (cqwEntry r)\<lparr>cqeDword0 := d\<rparr>\<rparr>"

definition low16 :: "u32 \<Rightarrow> u16" where
  "low16 d = ucast (d AND 0xFFFF)"

definition high16 :: "u32 \<Rightarrow> u16" where
  "high16 d = ucast (drop_bit 16 (d AND 0xFFFF0000))"

section \<open>Queues\<close>

definition admin_deleteSQueue :: "tick \<Rightarrow> sq_wrapper \<Rightarrow> controller \<Rightarrow> (effect list \<times> controller) res" where
  "admin_deleteSQueue now w c =
     ebind (deleteSQueue now (low16 (sqeDword10 (sqwEntry w))) c) (\<lambda>(ret, c).
     Inr ([Reply (if ret = 1 then makeStatus False False TYPE_SPECIFIC STATUS_INVALID_QUEUE_ID (response w)
                  else response w)], c))"

text \<open>
  The answer is copied before the controller is asked, and sent when the pages of the queue have been
  read; a refusal changes the local copy only, and is never sent.
\<close>

definition admin_createSQueue ::
  "nat \<Rightarrow> memory \<Rightarrow> sq_wrapper \<Rightarrow> controller \<Rightarrow> (effect list \<times> controller) res option" where
  "admin_createSQueue fuel mem w c =
     (let e = sqwEntry w; entrySize = high16 (sqeDword10 e) + 1;
          priority = ucast (drop_bit 1 (sqeDword11 e AND 6)) :: u8; pc = (sqeDword11 e AND 1 \<noteq> 0)
      in if ctMaxEntries c < entrySize then
           Some (Inr ([Reply (makeStatus False False TYPE_SPECIFIC STATUS_INVALID_QUEUE_SIZE (response w))], c))
         else
           map_option (\<lambda>r. ebind r (\<lambda>(ret, c). Inr (if ret = 0 then [Reply (response w)] else [], c)))
             (createSQueue fuel mem (low16 (sqeDword10 e)) (high16 (sqeDword11 e)) entrySize priority pc (sqeData1 e) c))"

definition admin_deleteCQueue :: "sq_wrapper \<Rightarrow> controller \<Rightarrow> (effect list \<times> controller) res" where
  "admin_deleteCQueue w c =
     ebind (deleteCQueue (low16 (sqeDword10 (sqwEntry w))) c) (\<lambda>(ret, c).
     Inr ([Reply (if ret = 1 then makeStatus False False TYPE_SPECIFIC STATUS_INVALID_QUEUE_ID (response w)
                  else if ret = 2 then makeStatus False False TYPE_SPECIFIC STATUS_INVALID_QUEUE_DELETE (response w)
                  else response w)], c))"

definition admin_createCQueue ::
  "bool \<Rightarrow> nat \<Rightarrow> memory \<Rightarrow> sq_wrapper \<Rightarrow> controller \<Rightarrow> (effect list \<times> controller) res option" where
  "admin_createCQueue garbage fuel mem w c =
     (let e = sqwEntry w; entrySize = high16 (sqeDword10 e) + 1;
          ien = (sqeDword11 e AND 2 \<noteq> 0); pc = (sqeDword11 e AND 1 \<noteq> 0)
      in if ctMaxEntries c < entrySize then
           Some (Inr ([Reply (makeStatus False False TYPE_SPECIFIC STATUS_INVALID_QUEUE_SIZE (response w))], c))
         else
           map_option (\<lambda>r. ebind r (\<lambda>(ret, c). Inr (if ret = 0 then [Reply (response w)] else [], c)))
             (createCQueue garbage fuel mem (low16 (sqeDword10 e)) entrySize (high16 (sqeDword11 e)) ien pc (sqeData1 e) c))"

definition admin_abort :: "tick \<Rightarrow> sq_wrapper \<Rightarrow> controller \<Rightarrow> (effect list \<times> controller) res" where
  "admin_abort now w c =
     ebind (abort now (low16 (sqeDword10 (sqwEntry w))) (high16 (sqeDword10 (sqwEntry w))) c) (\<lambda>(ret, c).
     let resp = makeStatus True False TYPE_GENERIC STATUS_SUCCESS (response w)
     in Inr ([Reply (set_dword0 (if ret = 0 then 1 else 0) resp)], c))"

section \<open>Logs and features\<close>

text \<open>Whether the command is done with; the SMART log of a namespace is left to it.\<close>

definition admin_getLogPage :: "sq_wrapper \<Rightarrow> effect list \<times> bool" where
  "admin_getLogPage w =
     (let e = sqwEntry w; numdl = high16 (sqeDword10 e); lid = low16 (sqeDword10 e); numdu = low16 (sqeDword11 e);
          req_size = ((push_bit 16 (ucast numdu) OR ucast numdl) + 1) * 4 :: u32;
          offs = push_bit 32 (ucast (sqeDword13 e)) OR ucast (sqeDword12 e) :: u64
      in if lid = 1 then ([Reply (response w)], True)
         else if lid = 2 then
           (if sqeNamespaceID e = NSID_ALL then ([SendLog req_size offs (replicate 512 0) (response w)], True)
            else ([Reply (response w)], False))
         else if lid = 3 then ([Reply (response w)], True)
         else ([Reply (makeStatus True False TYPE_SPECIFIC STATUS_INVALID_LOG_PAGE (response w))], True))"

text \<open>\<open>ncq\<close> and \<open>nsq\<close> are the configured numbers of queues besides the administrative ones.\<close>

definition grant_queues :: "u32 \<Rightarrow> u32 \<Rightarrow> u32 \<Rightarrow> u32" where
  "grant_queues ncq nsq d =
     (let d = (if nsq \<le> d AND 0xFFFF then (d AND 0xFFFF0000) OR (nsq - 1) else d)
      in if ncq \<le> drop_bit 16 (d AND 0xFFFF0000) then (d AND 0xFFFF) OR push_bit 16 (ncq - 1) else d)"

definition admin_setFeatures ::
  "u32 \<Rightarrow> u32 \<Rightarrow> sq_wrapper \<Rightarrow> controller \<Rightarrow> subsystem \<Rightarrow> (effect list \<times> controller \<times> subsystem) res" where
  "admin_setFeatures ncq nsq w c s =
     (let e = sqwEntry w; fid = low16 (sqeDword10 e AND 0xFF); d = sqeDword11 e;
          invalid = (\<lambda>dnr. makeStatus dnr False TYPE_GENERIC STATUS_INVALID_FIELD (response w))
      in if sqeDword10 e AND 0x80000000 \<noteq> 0 then
           Inr ([Reply (makeStatus False False TYPE_SPECIFIC STATUS_FEATURE_ID_NOT_SAVEABLE (response w))], c, s)
         else if fid = 7 then
           (if d AND 0xFFFF = 0xFFFF \<or> d AND 0xFFFF0000 = 0xFFFF0000 then Inr ([Reply (invalid False)], c, s)
            else (let d = grant_queues ncq nsq d in Inr ([Reply (set_dword0 d (response w))], c, s\<lparr>ssQueues := d\<rparr>)))
         else if fid = 8 then
           ebind (setCoalescingParameter (ucast (drop_bit 8 d AND 0xFF)) (ucast (d AND 0xFF)) c) (\<lambda>c.
           Inr ([Reply (response w)], c, s))
         else if fid = 9 then Inr ([Reply (response w)], setCoalescing (low16 d) (d AND 0x10000 \<noteq> 0) c, s)
         else Inr ([Reply (invalid True)], c, s))"

definition admin_getFeatures ::
  "u64 \<Rightarrow> u64 \<Rightarrow> bool \<Rightarrow> sq_wrapper \<Rightarrow> controller \<Rightarrow> subsystem \<Rightarrow> effect list" where
  "admin_getFeatures high medium wcache w c s =
     (let e = sqwEntry w; fid = low16 (sqeDword10 e AND 0xFF); d = sqeDword11 e;
          value = (\<lambda>d. [Reply (set_dword0 d (response w))])
      in if fid = 1 then
           value (push_bit 24 (ucast (ucast (high * medium - 1) :: u8)) OR ucast (push_bit 16 (medium - 1)) OR 3)
         else if fid = 6 then value (if wcache then 1 else 0)
         else if fid = 7 then value (ssQueues s)
         else if fid = 8 then
           (case getCoalescingParameter c of (time, thres) \<Rightarrow> value (push_bit 8 (ucast time) OR ucast thres))
         else if fid = 9 then
           value (if getCoalescing (low16 d) c then (d AND 0xFFFF) OR 0x10000 else d AND 0xFFFF)
         else [Reply (makeStatus True False TYPE_GENERIC STATUS_INVALID_FIELD (response w))])"

section \<open>The page of the controller\<close>

definition put_all :: "(nat \<times> u8 list) list \<Rightarrow> u8 list \<Rightarrow> u8 list" where
  "put_all fs buf = foldl (\<lambda>b (i, bs). put_at i bs b) buf fs"

definition zeros :: "nat \<Rightarrow> u8 list" where
  "zeros n = replicate n 0"

definition ascii :: "string \<Rightarrow> u8 list" where
  "ascii s = map of_char s"

definition identify_capabilities :: "u16 \<Rightarrow> u16 \<Rightarrow> bool \<Rightarrow> (nat \<times> u8 list) list" where
  "identify_capabilities vid ssvid ocssd =
     [(0x00, le_bytes 2 (ucast vid)), (0x02, le_bytes 2 (ucast ssvid)),
      (0x04, ascii ''00000000000000000000''),
      (0x18, if ocssd then ascii ''SimpleSSD OCSSD Controller by CAMELab   ''
             else ascii ''SimpleSSD NVMe Controller by CAMELab    ''),
      (0x40, ascii ''02.01.03''), (0x48, [0]), (0x49, zeros 3), (0x4C, [0]), (0x4D, [0]), (0x4E, zeros 2),
      (0x50, [1, 4, 0, 0]), (0x54, zeros 4), (0x58, zeros 4), (0x5C, zeros 4), (0x60, zeros 4), (0x64, zeros 2),
      (0x66, zeros 9), (0x6F, [1]), (0x70, zeros 16), (0x80, zeros 2), (0x82, zeros 2), (0x84, zeros 2),
      (0x86, zeros 106), (0xF0, zeros 16)]"

text \<open>The total and the unallocated capacity in bytes.\<close>

definition identify_admin :: "bool \<Rightarrow> u64 \<Rightarrow> u64 \<Rightarrow> (nat \<times> u8 list) list" where
  "identify_admin ocssd totalSize unallocated =
     [(0x100, if ocssd then [0] else [0x0A]), (0x101, [0]), (0x102, [3]), (0x103, [3]), (0x104, [0]), (0x105, [1]),
      (0x106, [0x63]), (0x107, [0]), (0x108, [0]), (0x109, [0]), (0x10A, zeros 2), (0x10C, zeros 2), (0x10E, zeros 2),
      (0x110, zeros 4), (0x114, zeros 4),
      (0x118, le_bytes 8 totalSize), (0x120, zeros 8), (0x118, le_bytes 8 unallocated), (0x120, zeros 8)]"

definition identify_limits :: "(nat \<times> u8 list) list" where
  "identify_limits =
     [(0x138, zeros 4), (0x13C, zeros 2), (0x13E, [0]), (0x13F, [0]), (0x140, zeros 2), (0x142, zeros 2),
      (0x144, zeros 2), (0x146, zeros 2), (0x148, zeros 4), (0x14C, zeros 4), (0x150, zeros 2), (0x152, zeros 2),
      (0x154, zeros 2), (0x156, [0]), (0x157, [0]), (0x158, zeros 4), (0x15C, zeros 4), (0x160, zeros 4),
      (0x164, zeros 156)]"

definition identify_nvm :: "bool \<Rightarrow> (nat \<times> u8 list) list" where
  "identify_nvm wcache =
     [(0x200, [0x66]), (0x201, [0x44]), (0x202, zeros 2), (0x204, le_bytes 4 1024), (0x208, [5, 0]), (0x20A, zeros 2),
      (0x20C, [0]), (0x20D, [(if wcache then 1 else 0) OR 6]), (0x20E, zeros 2), (0x210, zeros 2), (0x212, [0]),
      (0x213, [0]), (0x214, zeros 2), (0x216, zeros 2), (0x218, [1, 0, 0x17, 0]), (0x21C, zeros 4), (0x220, zeros 224),
      (0x300, zeros 0x100),
      (0x300, ascii ''nqn.2014-08.org.nvmexpress:uuid:270a1c70-962c-4116-6f1e340b9321'' @ zeros 5),
      (0x400, zeros 768), (0x700, zeros 256)]"

definition identify_power :: "(nat \<times> u8 list) list" where
  "identify_power =
     [(0x800, [0xC4, 0x09]), (0x802, [0]), (0x803, [0]), (0x804, zeros 4), (0x808, zeros 4), (0x80C, [0]), (0x80D, [0]),
      (0x80E, [0]), (0x80E, [0]), (0x80F, zeros 2), (0x811, [0]), (0x812, [0]), (0x813, zeros 2), (0x815, [0]),
      (0x816, zeros 9), (0x820, zeros 992), (0xC00, zeros 1024)]"

definition getNVMCapacity :: "subsystem \<Rightarrow> u64 \<times> u64" where
  "getNVMCapacity s = (ssTotal s * ucast (ssPage s), ssAllocated s * ucast (ssPage s))"

definition Controller_identify :: "u16 \<Rightarrow> u16 \<Rightarrow> bool \<Rightarrow> bool \<Rightarrow> subsystem \<Rightarrow> u8 list" where
  "Controller_identify vid ssvid ocssd wcache s =
     (case getNVMCapacity s of (totalSize, used) \<Rightarrow>
        put_all (identify_capabilities vid ssvid ocssd @ identify_admin ocssd totalSize (totalSize - used) @
          identify_limits @ identify_nvm wcache @ identify_power) (zeros 4096))"

section \<open>Dispatch\<close>

text \<open>What the commands use besides the state: the configuration, the layers below, the host memory, the time.\<close>

record surroundings =
  suNow :: tick
  suMem :: memory
  suFuel :: nat
  suPending :: bool
  suUsed :: "u64 \<Rightarrow> u64 \<Rightarrow> u64 res"
  suNcq :: u32
  suNsq :: u32
  suHigh :: u64
  suMedium :: u64
  suWriteCache :: bool
  suVid :: u16
  suSsvid :: u16

text \<open>The effects and whether the command is done with.\<close>

type_synonym dispatched = "(effect list \<times> bool \<times> controller \<times> subsystem) res option"

definition on_controller :: "subsystem \<Rightarrow> (effect list \<times> controller) res \<Rightarrow> dispatched" where
  "on_controller s r = Some (ebind r (\<lambda>(es, c). Inr (es, True, c, s)))"

definition on_spaces :: "controller \<Rightarrow> (space_outcome \<times> subsystem) res \<Rightarrow> dispatched" where
  "on_spaces c r = Some (ebind r (\<lambda>(out, s). Inr ([Outcome out], True, c, s)))"

definition made_queue :: "subsystem \<Rightarrow> (effect list \<times> controller) res option \<Rightarrow> dispatched" where
  "made_queue s r = map_option (\<lambda>r. ebind r (\<lambda>(es, c). Inr (es, True, c, s))) r"

definition admin_command :: "surroundings \<Rightarrow> sq_wrapper \<Rightarrow> controller \<Rightarrow> subsystem \<Rightarrow> dispatched" where
  "admin_command u w c s =
     (let e = sqwEntry w; op = sqeOpcode e; resp = response w in
      if op = 0x00 then on_controller s (admin_deleteSQueue (suNow u) w c)
      else if op = 0x01 then made_queue s (admin_createSQueue (suFuel u) (suMem u) w c)
      else if op = 0x02 then (case admin_getLogPage w of (es, fin) \<Rightarrow> Some (Inr (es, fin, c, s)))
      else if op = 0x04 then on_controller s (admin_deleteCQueue w c)
      else if op = 0x05 then made_queue s (admin_createCQueue (suPending u) (suFuel u) (suMem u) w c)
      else if op = 0x06 then
        on_spaces c (identify (suUsed u) (Controller_identify (suVid u) (suSsvid u) False (suWriteCache u) s) e resp s)
      else if op = 0x08 then on_controller s (admin_abort (suNow u) w c)
      else if op = 0x09 then
        Some (ebind (admin_setFeatures (suNcq u) (suNsq u) w c s) (\<lambda>(es, c, s). Inr (es, True, c, s)))
      else if op = 0x0A then
        Some (Inr (admin_getFeatures (suHigh u) (suMedium u) (suWriteCache u) w c s, True, c, s))
      else if op = 0x0C then Some (Inr ([], False, c, s))
      else if op = 0x0D then on_spaces c (namespaceManagement e resp s)
      else if op = 0x15 then on_spaces c (Inr (namespaceAttachment e resp, s))
      else if op = 0x80 then on_spaces c (formatNVM (suUsed u) (suNow u) e resp s)
      else if op = 0xC1 then Some (Inr ([StartSoc, Reply resp], True, c, s))
      else if op = 0xC2 \<or> op = 0xC3 \<or> op = 0xC4 then Some (Inr ([Reply resp], True, c, s))
      else Some (Inr ([], False, c, s)))"

fun space_index :: "u32 \<Rightarrow> space list \<Rightarrow> nat \<Rightarrow> nat option" where
  "space_index nsid [] i = None"
| "space_index nsid (sp # sps) i = (if spId sp = nsid then Some i else space_index nsid sps (Suc i))"

text \<open>The number of all namespaces stands for the first.\<close>

definition to_space :: "u32 \<Rightarrow> space list \<Rightarrow> nat option" where
  "to_space nsid sps =
     (if nsid < NSID_ALL then space_index nsid sps 0 else if sps = [] then None else Some 0)"

definition submitCommand :: "surroundings \<Rightarrow> sq_wrapper \<Rightarrow> controller \<Rightarrow> subsystem \<Rightarrow>
  (effect list \<times> controller \<times> subsystem) res option" where
  "submitCommand u w c s =
     (let s = s\<lparr>ssCommands := ssCommands s + 1\<rparr> in
      map_option (\<lambda>r. ebind r (\<lambda>(es, processed, c, s).
        Inr (if processed then es
             else es @ [case to_space (sqeNamespaceID (sqwEntry w)) (ssSpaces s) of
               Some i \<Rightarrow> ToSpace i
             | None \<Rightarrow> Reply (makeStatus False False TYPE_GENERIC STATUS_ABORT_INVALID_NAMESPACE (response w))], c, s)))
        (if sqwSqID w = 0 then admin_command u w c s else Some (Inr ([], False, c, s))))"

end
