(* ===== verification/NvmeAdminProps.thy ===== *)
theory NvmeAdminProps
  imports NvmeAdmin
begin

text \<open>
  How often a command is answered. Every effect but the start of the processor leads to one answer:
  at once, when a transfer or request is over, or by the namespace. A command gets one answer, but
  for two kinds: a refused creation of a queue gets none, and a request for the SMART log of a
  namespace gets two.
\<close>

section \<open>Answers\<close>

definition answers :: "effect list \<Rightarrow> nat" where
  "answers es = length (filter (\<lambda>e. case e of StartSoc \<Rightarrow> False | _ \<Rightarrow> True) es)"

lemma answers_simps [simp]:
  "answers [] = 0" "answers (Reply r # es) = Suc (answers es)" "answers (Outcome x # es) = Suc (answers es)"
  "answers (SendLog a b d r # es) = Suc (answers es)" "answers (StartSoc # es) = answers es"
  "answers (ToSpace i # es) = Suc (answers es)" "answers (es @ es') = answers es + answers es'"
  by (simp_all add: answers_def)















section \<open>Properties\<close>


text \<open>A controller with the administrative queues and one pair of I/O queues, and commands for it.\<close>

definition idle_controller :: controller where
  "idle_controller = \<lparr>ctRegs = RegisterTable_new\<lparr>rgStatus := 1\<rparr>, ctSqStride = 64, ctCqStride = 16, ctAdminInited = 0,
     ctArbitration = 0, ctMask = 0,
     ctCq = [Some (CQueue_new 0 True 0 4), Some (CQueue_new 5 True 1 4), None],
     ctSq = [Some (SQueue_new 0 0 0 4), Some (SQueue_new 1 0 1 4), None], ctSqFifo = [], ctCqFifo = [],
     ctFetches = [], ctShutdown = False, ctAggTime = 0, ctAggThreshold = 0, ctAgg = [(5, aggregation_new False)],
     ctPageOrder = 11, ctPageSize = 4096, ctMaxEntries = 4096, ctWorkEvent = None, ctRequestEvent = None,
     ctCompletionEvent = None, ctRequestCounter = 0, ctMaxRequest = 4, ctRequestInterval = 10,
     ctWorkInterval = 40, ctLastWork = 0, ctWrrHigh = 2, ctWrrMedium = 2\<rparr>"






text \<open>
  The deletion of the queues does not wait for the commands that the subsystem has: such a command
  stops the simulator when it is answered.
\<close>

lemma late_answer_panics:
  assumes "deleteCQueue cqid c = Inr (0, c')" and "cqwCqID e = cqid"
  shows "submit now e c' = Inl (Panic ''nvme_ctrl: Completion Queue not created! CQID %d'')"
proof -
  have i: "unat cqid < length (ctCq c)"
    using assms(1) by (auto simp: deleteCQueue_def cq_at_def split: if_splits)
  have "ctCq c' = (ctCq c)[unat cqid := None]"
    using assms(1) by (auto simp: deleteCQueue_def Let_def split: option.splits if_splits)
  then show ?thesis using i assms(2) by (simp add: submit_def cq_at_def)
qed

lemma queues_deleted:
  "case deleteSQueue 0 1 idle_controller of
     Inr (ret, c) \<Rightarrow> ret = 0 \<and> (case deleteCQueue 1 c of Inr (ret, _) \<Rightarrow> ret = 0 | Inl _ \<Rightarrow> False) | Inl _ \<Rightarrow> False"
  by code_simp

text \<open>The field of the total capacity holds the unallocated one, and that of the unallocated one is zero.\<close>

lemma capacity_overwritten:
  "take 16 (drop 0x118 (put_all (identify_admin False totalSize unallocated @ identify_limits) (zeros 4096))) =
     le_bytes 8 unallocated @ zeros 8"
  by (simp add: put_all_def identify_admin_def identify_limits_def put_at_def zeros_def le_bytes_def upt_rec)

end
